(* ===== verification/GoPrelude.thy ===== *)
theory GoPrelude
  imports Complex_Main "HOL-Library.Char_ord" "HOL-Library.List_Lexorder"
begin

text \<open>
  The shared base of the development: the Go values every component uses (instants, durations,
  IEEE doubles as far as they are compared, byte strings) and the functions of Go's standard
  library on them that the source calls (\<open>strings.Fields\<close>, \<open>strings.Join\<close>, \<open>strings.HasPrefix\<close>,
  \<open>strings.TrimSpace\<close>, \<open>time.Time.Weekday\<close> and so on), with the lemmas the components share.

  Go strings are byte strings, so a \<^typ>\<open>string\<close> here is the list of its bytes and
  \<^term>\<open>length\<close> is Go's \<open>len\<close>. An instant is the number of nanoseconds since the Unix epoch.
\<close>

named_theorems go_defs
  \<comment> \<open>definitions of straight-line helpers that proofs unfold without thinking\<close>

section \<open>Instants and durations\<close>

type_synonym instant = int
type_synonym duration = int

definition nanos :: int where
  "nanos = 1000000000"

text \<open>Go's zero \<open>time.Time\<close> is the first of January of the year 1, UTC.\<close>

definition zero_time :: instant where
  "zero_time = -62135596800 * nanos"

text \<open>
  \<open>t.In(loc)\<close> followed by \<open>Weekday\<close>, \<open>Hour\<close> and \<open>Minute\<close>: a location is the offset from UTC, in
  seconds, at each instant. The Unix epoch fell on a Thursday (4, with Sunday 0).
\<close>

type_synonym location = "instant \<Rightarrow> int"

definition local_seconds :: "location \<Rightarrow> instant \<Rightarrow> int" where
  "local_seconds loc t = t div nanos + loc t"

definition weekday :: "location \<Rightarrow> instant \<Rightarrow> int" where
  "weekday loc t = (local_seconds loc t div 86400 + 4) mod 7"

definition minute_of_day :: "location \<Rightarrow> instant \<Rightarrow> int" where
  "minute_of_day loc t = local_seconds loc t mod 86400 div 60"

definition utc :: location where
  "utc t = 0"

lemma weekday_range: "0 \<le> weekday loc t \<and> weekday loc t \<le> 6"
  unfolding weekday_def by (simp add: pos_mod_bound [of 7, simplified] zless_add1_eq [symmetric])

lemma minute_of_day_range: "0 \<le> minute_of_day loc t \<and> minute_of_day loc t \<le> 1439"
  unfolding minute_of_day_def by (simp add: div_add1_eq zdiv_mono1 [of _ 86399 60, simplified])

section \<open>IEEE doubles, as far as they are compared\<close>

text \<open>
  The program only compares its \<open>float64\<close> values (and tests them against zero). Every finite
  double is a rational number; a comparison that involves \<open>NaN\<close> is false.
\<close>

datatype f64 = NaN | NegInf | Fin rat | PosInf

fun f64_less :: "f64 \<Rightarrow> f64 \<Rightarrow> bool" where
  "f64_less NaN _ = False"
| "f64_less _ NaN = False"
| "f64_less NegInf y = (y \<noteq> NegInf)"
| "f64_less _ NegInf = False"
| "f64_less (Fin x) (Fin y) = (x < y)"
| "f64_less (Fin x) PosInf = True"
| "f64_less PosInf _ = False"

lemma f64_less_irrefl [simp]: "\<not> f64_less x x"
  by (cases x) auto

lemma f64_less_NaN [simp]: "\<not> f64_less x NaN"
  by (cases x) auto

lemma f64_less_trans: "f64_less x y \<Longrightarrow> f64_less y z \<Longrightarrow> f64_less x z"
  by (cases x; cases y; cases z) auto

text \<open>The order is total away from \<open>NaN\<close>.\<close>

lemma f64_less_linear: "x \<noteq> NaN \<Longrightarrow> y \<noteq> NaN \<Longrightarrow> f64_less x y \<or> x = y \<or> f64_less y x"
  by (cases x; cases y) auto

text \<open>If \<open>y < z\<close> and the amount \<open>x\<close> is not above \<open>y\<close> then it is not above \<open>z\<close>, \<open>NaN\<close> included.\<close>

lemma f64_not_less_trans: "\<not> f64_less y x \<Longrightarrow> f64_less y z \<Longrightarrow> \<not> f64_less z x"
  by (cases x; cases y; cases z) auto

section \<open>Byte strings\<close>

definition has_prefix :: "string \<Rightarrow> string \<Rightarrow> bool" where
  "has_prefix p s \<longleftrightarrow> take (length p) s = p"

definition has_suffix :: "string \<Rightarrow> string \<Rightarrow> bool" where
  "has_suffix p s \<longleftrightarrow> has_prefix (rev p) (rev s)"

definition trim_prefix :: "string \<Rightarrow> string \<Rightarrow> string" where
  "trim_prefix p s = (if has_prefix p s then drop (length p) s else s)"

definition trim_suffix :: "string \<Rightarrow> string \<Rightarrow> string" where
  "trim_suffix p s = (if has_suffix p s then take (length s - length p) s else s)"

lemma has_prefix_iff: "has_prefix p s \<longleftrightarrow> (\<exists>r. s = p @ r)"
  unfolding has_prefix_def by (metis append_take_drop_id append_eq_conv_conj)

lemma has_prefix_append [simp]: "has_prefix p (p @ r)"
  by (simp add: has_prefix_def)

lemma trim_prefix_append [simp]: "trim_prefix p (p @ r) = r"
  by (simp add: trim_prefix_def)

lemma has_prefix_length: "has_prefix p s \<Longrightarrow> length p \<le> length s"
  by (auto simp: has_prefix_iff)

text \<open>The decimal numbers that \<open>%d\<close> and \<open>strconv.Itoa\<close> print.\<close>

fun nat_str :: "nat \<Rightarrow> string" where
  "nat_str n = (if n < 10 then [''0123456789'' ! n] else nat_str (n div 10) @ [''0123456789'' ! (n mod 10)])"

declare nat_str.simps [simp del]

definition int_str :: "int \<Rightarrow> string" where
  "int_str i = (if i < 0 then ''-'' @ nat_str (nat (- i)) else nat_str (nat i))"

text \<open>\<open>strings.Join\<close>.\<close>

fun join :: "string \<Rightarrow> string list \<Rightarrow> string" where
  "join sep [] = []"
| "join sep [w] = w"
| "join sep (w # ws) = w @ sep @ join sep ws"

text \<open>
  Go's white space: six ASCII bytes and the UTF-8 encodings of the non-ASCII code points of
  \<open>unicode.White_Space\<close>. Their first bytes are never continuation bytes, so looking for them byte
  by byte finds the same code points as decoding the string rune by rune, malformed input included.
\<close>

definition ascii_spaces :: string where
  "ascii_spaces = [CHR 0x09, CHR 0x0A, CHR 0x0B, CHR 0x0C, CHR 0x0D, CHR 0x20]"

definition wide_spaces :: "string list" where
  "wide_spaces =
     [[CHR 0xC2, CHR 0x85], [CHR 0xC2, CHR 0xA0], [CHR 0xE1, CHR 0x9A, CHR 0x80],
      [CHR 0xE2, CHR 0x80, CHR 0x80], [CHR 0xE2, CHR 0x80, CHR 0x81],
      [CHR 0xE2, CHR 0x80, CHR 0x82], [CHR 0xE2, CHR 0x80, CHR 0x83],
      [CHR 0xE2, CHR 0x80, CHR 0x84], [CHR 0xE2, CHR 0x80, CHR 0x85],
      [CHR 0xE2, CHR 0x80, CHR 0x86], [CHR 0xE2, CHR 0x80, CHR 0x87],
      [CHR 0xE2, CHR 0x80, CHR 0x88], [CHR 0xE2, CHR 0x80, CHR 0x89],
      [CHR 0xE2, CHR 0x80, CHR 0x8A], [CHR 0xE2, CHR 0x80, CHR 0xA8],
      [CHR 0xE2, CHR 0x80, CHR 0xA9], [CHR 0xE2, CHR 0x80, CHR 0xAF],
      [CHR 0xE2, CHR 0x81, CHR 0x9F], [CHR 0xE3, CHR 0x80, CHR 0x80]]"

text \<open>The number of bytes of the white space a string starts with, 0 if it starts with none.\<close>

definition space_len :: "string \<Rightarrow> nat" where
  "space_len s =
     (case s of [] \<Rightarrow> 0
      | c # _ \<Rightarrow> if c \<in> set ascii_spaces then 1
                else (case find (\<lambda>p. has_prefix p s) wide_spaces of
                        None \<Rightarrow> 0 | Some p \<Rightarrow> length p))"

text \<open>\<open>strings.Fields\<close>: the maximal runs without white space.\<close>

function fields_from :: "string \<Rightarrow> string \<Rightarrow> string list" where
  "fields_from cur [] = (if cur = [] then [] else [rev cur])"
| "fields_from cur (c # cs) =
     (case space_len (c # cs) of
        0 \<Rightarrow> fields_from (c # cur) cs
      | Suc n \<Rightarrow> (if cur = [] then [] else [rev cur]) @ fields_from [] (drop n cs))"
  by pat_completeness auto
termination
  by (relation "measure (\<lambda>(cur, s). length s)") auto

definition go_fields :: "string \<Rightarrow> string list" where
  "go_fields s = fields_from [] s"

text \<open>A word without white space anywhere in it.\<close>

fun no_space :: "string \<Rightarrow> bool" where
  "no_space [] = True"
| "no_space (c # cs) = (space_len (c # cs) = 0 \<and> no_space cs)"

definition solid :: "string \<Rightarrow> bool" where
  "solid w \<longleftrightarrow> w \<noteq> [] \<and> no_space w"

text \<open>
  A space-separated list of words reads back as itself, and \<open>strings.Fields\<close> yields only words.
\<close>

lemma has_prefix_before_gap:
  "has_prefix p (u @ g # r) \<Longrightarrow> g \<notin> set p \<Longrightarrow> has_prefix p u"
proof (induction u arbitrary: p)
  case Nil
  then show ?case by (cases p) (auto simp: has_prefix_def)
next
  case (Cons c u)
  then show ?case by (cases p) (auto simp: has_prefix_def)
qed

lemma wide_spaces_no_blank: "\<forall>p \<in> set wide_spaces. CHR '' '' \<notin> set p"
  by (simp add: wide_spaces_def)

lemma wide_spaces_nonempty: "\<forall>p \<in> set wide_spaces. p \<noteq> []"
  by (simp add: wide_spaces_def)

lemma find_wide_space:
  "find (\<lambda>p. has_prefix p s) wide_spaces = Some p \<Longrightarrow>
   p \<in> set wide_spaces \<and> has_prefix p s \<and> p \<noteq> []"
  using wide_spaces_nonempty by (metis find_Some_iff nth_mem)

lemma space_len_eq_0_iff:
  "space_len s = 0 \<longleftrightarrow>
   s = [] \<or> hd s \<notin> set ascii_spaces \<and> (\<forall>p \<in> set wide_spaces. \<not> has_prefix p s)"
proof (cases "s = [] \<or> hd s \<in> set ascii_spaces")
  case True
  then show ?thesis by (cases s) (auto simp: space_len_def)
next
  case False
  then have "space_len s = (case find (\<lambda>p. has_prefix p s) wide_spaces of
                              None \<Rightarrow> 0 | Some p \<Rightarrow> length p)"
    by (cases s) (auto simp: space_len_def)
  with False show ?thesis
    by (cases "find (\<lambda>p. has_prefix p s) wide_spaces")
       (auto simp: find_None_iff dest!: find_wide_space)
qed

lemma space_len_before_blank:
  "space_len (c # u) = 0 \<Longrightarrow> space_len (c # u @ CHR '' '' # r) = 0"
  using has_prefix_before_gap [of _ "c # u" "CHR '' ''" r] wide_spaces_no_blank
  by (auto simp: space_len_eq_0_iff)

lemma space_len_blank [simp]: "space_len (CHR '' '' # r) = 1"
  by (simp add: space_len_def ascii_spaces_def)

lemma fields_from_word:
  "no_space w \<Longrightarrow> w \<noteq> [] \<or> cur \<noteq> [] \<Longrightarrow> fields_from cur w = [rev cur @ w]"
  by (induction w arbitrary: cur) auto

lemma fields_from_word_blank:
  "no_space w \<Longrightarrow> w \<noteq> [] \<or> cur \<noteq> [] \<Longrightarrow>
   fields_from cur (w @ CHR '' '' # r) = (rev cur @ w) # go_fields r"
proof (induction w arbitrary: cur)
  case Nil
  then show ?case by (simp add: go_fields_def)
next
  case (Cons c w)
  then show ?case by (simp add: space_len_before_blank)
qed

lemma fields_join:
  "\<forall>w \<in> set ws. solid w \<Longrightarrow> go_fields (join '' '' ws) = ws"
proof (induction ws)
  case Nil
  then show ?case by (simp add: go_fields_def)
next
  case (Cons w ws)
  then show ?case
    by (cases ws) (auto simp: solid_def go_fields_def fields_from_word fields_from_word_blank)
qed

lemma no_space_iff: "no_space w \<longleftrightarrow> (\<forall>x y. w = x @ y \<longrightarrow> y \<noteq> [] \<longrightarrow> space_len y = 0)"
proof (induction w)
  case Nil
  then show ?case by simp
next
  case (Cons c w)
  show ?case by (auto simp: Cons.IH Cons_eq_append_conv)
qed

lemma has_prefix_extend: "has_prefix p u \<Longrightarrow> has_prefix p (u @ v)"
  by (auto simp: has_prefix_iff)

lemma space_len_prefix: "space_len (u @ v) = 0 \<Longrightarrow> space_len u = 0"
  by (cases u) (auto simp: space_len_eq_0_iff dest: has_prefix_extend [where v = v])

lemma fields_from_solid:
  "\<forall>x y. rev cur = x @ y \<longrightarrow> y \<noteq> [] \<longrightarrow> space_len (y @ s) = 0 \<Longrightarrow>
   w \<in> set (fields_from cur s) \<Longrightarrow> solid w"
proof (induction cur s rule: fields_from.induct)
  case (1 cur)
  then show ?case by (auto simp: solid_def no_space_iff split: if_splits)
next
  case (2 cur c cs)
  show ?case
  proof (cases "space_len (c # cs)")
    case 0
    have "\<forall>x y. rev (c # cur) = x @ y \<longrightarrow> y \<noteq> [] \<longrightarrow> space_len (y @ cs) = 0"
    proof (intro allI impI)
      fix x y assume "rev (c # cur) = x @ y" "y \<noteq> []"
      then obtain y' where y: "y = y' @ [c]" "rev cur = x @ y'"
        by (cases y rule: rev_cases) auto
      show "space_len (y @ cs) = 0"
        using 0 y "2.prems"(1) by (cases "y' = []") auto
    qed
    with 0 "2.IH"(1) "2.prems"(2) show ?thesis by simp
  next
    case (Suc n)
    have "solid (rev cur)" if "cur \<noteq> []"
      unfolding solid_def no_space_iff using that "2.prems"(1) space_len_prefix by auto
    moreover have "w = rev cur \<and> cur \<noteq> [] \<or> w \<in> set (fields_from [] (drop n cs))"
      using "2.prems"(2) Suc by (auto split: if_splits)
    ultimately show ?thesis using "2.IH"(2) [OF Suc] by auto
  qed
qed

lemma fields_solid: "w \<in> set (go_fields s) \<Longrightarrow> solid w"
  unfolding go_fields_def by (rule fields_from_solid) auto

text \<open>\<open>strings.TrimSpace\<close>.\<close>

fun trim_left :: "nat \<Rightarrow> string \<Rightarrow> string" where
  "trim_left 0 s = s"
| "trim_left (Suc n) s = (case space_len s of 0 \<Rightarrow> s | Suc k \<Rightarrow> trim_left n (drop (Suc k) s))"

fun all_space :: "nat \<Rightarrow> string \<Rightarrow> bool" where
  "all_space 0 s = (s = [])"
| "all_space (Suc n) s = (s = [] \<or> (case space_len s of 0 \<Rightarrow> False | Suc k \<Rightarrow> all_space n (drop (Suc k) s)))"

fun trim_right :: "string \<Rightarrow> string" where
  "trim_right [] = []"
| "trim_right (c # cs) = (if all_space (length (c # cs)) (c # cs) then [] else c # trim_right cs)"

definition trim_space :: "string \<Rightarrow> string" where
  "trim_space s = trim_right (trim_left (length s) s)"

text \<open>
  Lowering the ASCII letters: \<open>strings.ToLower\<close> on ASCII strings, and the comparison of
  \<open>strings.EqualFold\<close> where one side is ASCII without the letters \<open>k\<close> and \<open>s\<close> (whose foldings
  leave ASCII).
\<close>

definition ascii_lower :: "string \<Rightarrow> string" where
  "ascii_lower = map (\<lambda>c. case map_of (zip ''ABCDEFGHIJKLMNOPQRSTUVWXYZ'' ''abcdefghijklmnopqrstuvwxyz'') c of
                         None \<Rightarrow> c | Some d \<Rightarrow> d)"

section \<open>Small list helpers of the source\<close>

text \<open>The \<open>contains\<close> loops the packages repeat (\<open>contains\<close>, \<open>containsInt\<close>, \<open>containsStr\<close>).\<close>

fun contains :: "'a list \<Rightarrow> 'a \<Rightarrow> bool" where
  "contains [] v = False"
| "contains (s # ss) v = (if s = v then True else contains ss v)"

lemma contains_iff [simp]: "contains xs v \<longleftrightarrow> v \<in> set xs"
  by (induction xs) auto

text \<open>\<open>if err := f(x); err != nil { return err }\<close> over a list.\<close>

fun first_error :: "('a \<Rightarrow> 'e option) \<Rightarrow> 'a list \<Rightarrow> 'e option" where
  "first_error f [] = None"
| "first_error f (x # xs) = (case f x of Some e \<Rightarrow> Some e | None \<Rightarrow> first_error f xs)"

lemma first_error_None_iff: "first_error f xs = None \<longleftrightarrow> (\<forall>x \<in> set xs. f x = None)"
  by (induction xs) (auto split: option.splits)

lemma list_all2_right: "list_all2 P xs ys \<Longrightarrow> y \<in> set ys \<Longrightarrow> \<exists>x \<in> set xs. P x y"
  by (induction rule: list_all2_induct) auto

lemma list_all2_left: "list_all2 P xs ys \<Longrightarrow> x \<in> set xs \<Longrightarrow> \<exists>y \<in> set ys. P x y"
  by (induction rule: list_all2_induct) auto

lemma split_first_sep:
  assumes "c \<notin> set a" and "c \<notin> set a'" and "a @ c # b = a' @ c # b'"
  shows "a = a' \<and> b = b'"
  using assms
proof (induction a arbitrary: a')
  case Nil
  then show ?case by (cases a') auto
next
  case (Cons x a)
  then show ?case by (cases a') auto
qed

lemma find_append: "find P (xs @ ys) = (case find P xs of None \<Rightarrow> find P ys | Some x \<Rightarrow> Some x)"
  by (induction xs) auto

lemma find_SomeD: "find P xs = Some x \<Longrightarrow> x \<in> set xs \<and> P x"
  by (induction xs) (auto split: if_splits)

section \<open>Errors\<close>

text \<open>
  A function that returns only an \<open>error\<close> yields an \<open>option\<close> (\<open>nil\<close> is \<^const>\<open>None\<close>); one
  that returns \<open>(T, error)\<close> yields \<open>error + T\<close>. \<open>err_then\<close> and \<open>and_then\<close> are the two
  forms of \<open>if err != nil { return err }\<close>.
\<close>

definition err_then :: "'e option \<Rightarrow> 'e option \<Rightarrow> 'e option" where
  "err_then e k = (case e of Some x \<Rightarrow> Some x | None \<Rightarrow> k)"

definition and_then :: "'e + 'a \<Rightarrow> ('a \<Rightarrow> 'e + 'b) \<Rightarrow> 'e + 'b" where
  "and_then m k = (case m of Inl e \<Rightarrow> Inl e | Inr x \<Rightarrow> k x)"

lemma err_then_simps [simp]:
  "err_then (Some e) k = Some e"
  "err_then None k = k"
  by (simp_all add: err_then_def)

lemma err_then_eq_None_iff [simp]: "err_then e k = None \<longleftrightarrow> e = None \<and> k = None"
  by (simp add: err_then_def split: option.split)

lemma and_then_simps [simp]:
  "and_then (Inl e) k = Inl e"
  "and_then (Inr x) k = k x"
  by (simp_all add: and_then_def)

lemma and_then_eq_Inr_iff: "and_then m k = Inr y \<longleftrightarrow> (\<exists>x. m = Inr x \<and> k x = Inr y)"
  by (cases m) simp_all

text \<open>
  \<open>need e\<close> turns a missing value into the error \<open>e\<close>, \<open>err_as e\<close> replaces an error by \<open>e\<close>, and
  \<open>reject c e\<close> is \<open>if c { return e }\<close>.
\<close>

definition need :: "'e \<Rightarrow> 'a option \<Rightarrow> 'e + 'a" where
  "need e x = (case x of None \<Rightarrow> Inl e | Some y \<Rightarrow> Inr y)"

definition err_as :: "'e \<Rightarrow> 'd + 'a \<Rightarrow> 'e + 'a" where
  "err_as e m = (case m of Inl _ \<Rightarrow> Inl e | Inr x \<Rightarrow> Inr x)"

definition reject :: "bool \<Rightarrow> 'e \<Rightarrow> 'e + 'a \<Rightarrow> 'e + 'a" where
  "reject c e m = (if c then Inl e else m)"

lemma need_simps [simp]: "need e None = Inl e" "need e (Some x) = Inr x"
  by (simp_all add: need_def)

lemma err_as_simps [simp]: "err_as e (Inl d) = Inl e" "err_as e (Inr x) = Inr x"
  by (simp_all add: err_as_def)

lemma reject_simps [simp]: "reject True e m = Inl e" "reject False e m = m"
  by (simp_all add: reject_def)

lemma need_eq_Inr_iff: "need e x = Inr y \<longleftrightarrow> x = Some y"
  by (simp add: need_def split: option.split)

lemma err_as_eq_Inr_iff: "err_as e m = Inr y \<longleftrightarrow> m = Inr y"
  by (simp add: err_as_def split: sum.split)

lemma reject_eq_Inr_iff: "reject c e m = Inr y \<longleftrightarrow> \<not> c \<and> m = Inr y"
  by (simp add: reject_def)

lemmas step_Inr_iff = and_then_eq_Inr_iff need_eq_Inr_iff err_as_eq_Inr_iff reject_eq_Inr_iff

lemma find_key: "distinct (map f xs) \<Longrightarrow> x \<in> set xs \<Longrightarrow> find (\<lambda>y. f y = f x) xs = Some x"
  by (induction xs) auto

section \<open>Facts that stay true\<close>

text \<open>
  The contract of one-way state: a fact about the state that every step keeps. It is proved once that
  the fact then holds after any number of steps.
\<close>

locale one_way =
  fixes step :: "'s \<Rightarrow> 's \<Rightarrow> bool"
    and holds :: "'s \<Rightarrow> bool"
  assumes step_keeps: "step s t \<Longrightarrow> holds s \<Longrightarrow> holds t"
begin

lemma steps_keep: "step\<^sup>*\<^sup>* s t \<Longrightarrow> holds s \<Longrightarrow> holds t"
  by (induction rule: rtranclp_induct) (auto intro: step_keeps)

end

end
