(* ===== verification/Jwks.thy ===== *)
theory Jwks
  imports GoPrelude
begin

text \<open>
  The JSON Web Key Set, from the issuer that publishes it (\<open>internal/auth/jwks.go\<close>, \<open>JWKSHandler\<close>)
  to the resource server that reads it (\<open>sdk/verifier.go\<close>, \<open>ParseJWKS\<close>), with the parts of
  \<open>encoding/base64\<close> and \<open>math/big\<close> they use: the unpadded URL alphabet and big-endian byte strings of
  numbers. The JSON text itself is not modelled: a document is the list of its keys, \<^const>\<open>None\<close>
  when \<open>json.Unmarshal\<close> fails. The main property is the round trip: a resource server reads back
  exactly the keys the issuer holds.
\<close>

section \<open>Numbers as bytes\<close>

text \<open>\<open>big.Int.Bytes\<close> and \<open>big.Int.SetBytes\<close>.\<close>

fun big_bytes :: "nat \<Rightarrow> nat list" where
  "big_bytes n = (if n = 0 then [] else big_bytes (n div 256) @ [n mod 256])"

declare big_bytes.simps [simp del]

definition set_bytes :: "nat list \<Rightarrow> nat" where
  "set_bytes bs = foldl (\<lambda>n b. n * 256 + b) 0 bs"

text \<open>\<open>big.Int.BitLen\<close>.\<close>

fun bit_len :: "nat \<Rightarrow> nat" where
  "bit_len n = (if n = 0 then 0 else bit_len (n div 2) + 1)"

declare bit_len.simps [simp del]

lemma set_bytes_big_bytes [simp]: "set_bytes (big_bytes n) = n"
proof (induction n rule: big_bytes.induct)
  case (1 n)
  then show ?case by (cases "n = 0") (simp_all add: big_bytes.simps [of n] big_bytes.simps [of 0] set_bytes_def)
qed

lemma big_bytes_range: "\<forall>b \<in> set (big_bytes n). b < 256"
proof (induction n rule: big_bytes.induct)
  case (1 n)
  then show ?case by (cases "n = 0") (simp_all add: big_bytes.simps [of n] big_bytes.simps [of 0])
qed

lemma bit_len_le_iff: "bit_len n \<le> k \<longleftrightarrow> n < 2 ^ k"
proof (induction n arbitrary: k rule: bit_len.induct)
  case (1 n)
  show ?case
  proof (cases "n = 0")
    case True
    then show ?thesis by (simp add: bit_len.simps)
  next
    case False
    then have "bit_len n = Suc (bit_len (n div 2))" by (subst bit_len.simps) simp
    with False "1.IH" show ?thesis by (cases k) (simp_all add: div_less_iff_less_mult mult.commute)
  qed
qed

section \<open>base64.RawURLEncoding\<close>

definition b64_alphabet :: string where
  "b64_alphabet = ''ABCDEFGHIJKLMNOPQRSTUVWXYZabcdefghijklmnopqrstuvwxyz0123456789-_''"

definition b64_char :: "nat \<Rightarrow> char" where
  "b64_char i = b64_alphabet ! i"

definition b64_val :: "char \<Rightarrow> nat option" where
  "b64_val c = map_of (zip b64_alphabet [0..<64]) c"

fun b64_digits :: "nat list \<Rightarrow> nat list" where
  "b64_digits [] = []"
| "b64_digits [a] = [a div 4, a mod 4 * 16]"
| "b64_digits [a, b] = [a div 4, a mod 4 * 16 + b div 16, b mod 16 * 4]"
| "b64_digits (a # b # c # r) =
     [a div 4, a mod 4 * 16 + b div 16, b mod 16 * 4 + c div 64, c mod 64] @ b64_digits r"

fun b64_bytes :: "nat list \<Rightarrow> nat list option" where
  "b64_bytes [] = Some []"
| "b64_bytes [a] = None"
| "b64_bytes [a, b] = Some [a * 4 + b div 16]"
| "b64_bytes [a, b, c] = Some [a * 4 + b div 16, b mod 16 * 16 + c div 4]"
| "b64_bytes (a # b # c # d # r) =
     map_option ((@) [a * 4 + b div 16, b mod 16 * 16 + c div 4, c mod 4 * 64 + d]) (b64_bytes r)"

definition b64_encode :: "nat list \<Rightarrow> string" where
  "b64_encode bs = map b64_char (b64_digits bs)"

text \<open>The decoder skips line breaks and is not strict about the unused bits of the last digit.\<close>

definition b64_decode :: "string \<Rightarrow> nat list option" where
  "b64_decode s =
     (case those (map b64_val (filter (\<lambda>c. c \<noteq> CHR 0x0A \<and> c \<noteq> CHR 0x0D) s)) of
        None \<Rightarrow> None | Some ds \<Rightarrow> b64_bytes ds)"

lemma b64_digits_range: "\<forall>b \<in> set bs. b < 256 \<Longrightarrow> \<forall>d \<in> set (b64_digits bs). d < 64"
  by (induction bs rule: b64_digits.induct) (auto simp: less_mult_imp_div_less)

lemma b64_byte1: "y < 16 \<Longrightarrow> a div 4 * 4 + (a mod 4 * 16 + y) div 16 = (a::nat)"
  by simp

lemma b64_byte2: "b < 256 \<Longrightarrow> z < 4 \<Longrightarrow> (x * 16 + b div 16) mod 16 * 16 + (b mod 16 * 4 + z) div 4 = (b::nat)"
  by (simp add: less_mult_imp_div_less)

lemma b64_byte3: "c < 256 \<Longrightarrow> (x * 4 + c div 64) mod 4 * 64 + c mod 64 = (c::nat)"
  by (simp add: less_mult_imp_div_less)

lemma b64_bytes_digits: "\<forall>b \<in> set bs. b < 256 \<Longrightarrow> b64_bytes (b64_digits bs) = Some bs"
proof (induction bs rule: b64_digits.induct)
  case (2 a)
  then show ?case using b64_byte1 [of 0 a] by (simp del: div_mult_self1 div_mult_self2)
next
  case (3 a b)
  then show ?case
    using b64_byte1 [of "b div 16" a] b64_byte2 [of b 0 "a mod 4"]
    by (simp only: b64_digits.simps b64_bytes.simps) (simp add: less_mult_imp_div_less)
next
  case (4 a b c r)
  then have "b div 16 < 16" "c div 64 < 4" "b < 256" "c < 256" by (auto simp: less_mult_imp_div_less)
  with 4 show ?case
    using b64_byte1 [of "b div 16" a] b64_byte2 [of b "c div 64" "a mod 4"] b64_byte3 [of c "b mod 16"]
    by (simp only: b64_digits.simps b64_bytes.simps append_Cons append_Nil list.set ball_simps option.map)
       simp
qed simp

lemma those_Some: "(\<And>x. x \<in> set xs \<Longrightarrow> f x = Some (g x)) \<Longrightarrow> those (map f xs) = Some (map g xs)"
  by (induction xs) auto

lemma b64_alphabet_facts: "length b64_alphabet = 64 \<and> distinct b64_alphabet \<and> CHR 0x0A \<notin> set b64_alphabet
    \<and> CHR 0x0D \<notin> set b64_alphabet"
  by (simp add: b64_alphabet_def)

lemma b64_val_char: "d < 64 \<Longrightarrow> b64_val (b64_char d) = Some d"
  using b64_alphabet_facts map_of_zip_nth [of b64_alphabet "[0..<64]" d]
  by (simp add: b64_val_def b64_char_def)

lemma b64_char_plain: "d < 64 \<Longrightarrow> b64_char d \<noteq> CHR 0x0A \<and> b64_char d \<noteq> CHR 0x0D"
  using b64_alphabet_facts nth_mem [of d b64_alphabet] unfolding b64_char_def by metis

lemma b64_roundtrip: "\<forall>b \<in> set bs. b < 256 \<Longrightarrow> b64_decode (b64_encode bs) = Some bs"
proof -
  assume bs: "\<forall>b \<in> set bs. b < 256"
  have range: "d < 64" if "d \<in> set (b64_digits bs)" for d
    using that b64_digits_range [OF bs] by blast
  then have "filter (\<lambda>c. c \<noteq> CHR 0x0A \<and> c \<noteq> CHR 0x0D) (b64_encode bs) = b64_encode bs"
    by (simp add: b64_encode_def filter_id_conv b64_char_plain)
  moreover have "those (map b64_val (b64_encode bs)) = Some (b64_digits bs)"
    using those_Some [of "b64_digits bs" "b64_val \<circ> b64_char" id] range
    by (simp add: b64_encode_def b64_val_char)
  ultimately show ?thesis by (simp add: b64_decode_def b64_bytes_digits bs)
qed

section \<open>Keys\<close>

record rsa_public =
  rp_n :: nat
  rp_e :: int

record jwk =
  jwk_kty :: string
  jwk_kid :: string
  jwk_n :: string
  jwk_e :: string

text \<open>
  \<open>JWKSHandler\<close>: the key map is given as the list of its entries, in the arbitrary order in which
  Go iterates a map; the kids are sorted.
\<close>

definition jwks_document :: "(string \<times> rsa_public) list \<Rightarrow> jwk list" where
  "jwks_document keys =
     map (\<lambda>kid. let pub = the (map_of keys kid) in
            \<lparr>jwk_kty = ''RSA'', jwk_kid = kid, jwk_n = b64_encode (big_bytes (rp_n pub)),
             jwk_e = b64_encode (big_bytes (nat \<bar>rp_e pub\<bar>))\<rparr>)
       (sort (map fst keys))"

datatype jwks_error =
    JwksJson
  | BadModulus string
  | BadExponent string
  | ModulusTooSmall string nat
  | UnsupportedExponent string

fun parse_keys :: "(string \<rightharpoonup> rsa_public) \<Rightarrow> jwk list \<Rightarrow> jwks_error + (string \<rightharpoonup> rsa_public)" where
  "parse_keys out [] = Inr out"
| "parse_keys out (k # ks) =
     (if jwk_kty k \<noteq> ''RSA'' \<or> jwk_kid k = [] then parse_keys out ks
      else case b64_decode (jwk_n k) of
        None \<Rightarrow> Inl (BadModulus (jwk_kid k))
      | Some nb \<Rightarrow> (case b64_decode (jwk_e k) of
          None \<Rightarrow> Inl (BadExponent (jwk_kid k))
        | Some eb \<Rightarrow>
            let n = set_bytes nb; e = set_bytes eb in
            if bit_len n < 2048 then Inl (ModulusTooSmall (jwk_kid k) (bit_len n))
            else if \<not> e < 2 ^ 63 \<or> e < 3 \<or> e > 2 ^ 31 - 1 then Inl (UnsupportedExponent (jwk_kid k))
            else parse_keys (out(jwk_kid k \<mapsto> \<lparr>rp_n = n, rp_e = int e\<rparr>)) ks))"

definition parse_jwks :: "jwk list option \<Rightarrow> jwks_error + (string \<rightharpoonup> rsa_public)" where
  "parse_jwks doc = (case doc of None \<Rightarrow> Inl JwksJson | Some ks \<Rightarrow> parse_keys Map.empty ks)"

text \<open>A key the resource server takes.\<close>

definition usable_key :: "rsa_public \<Rightarrow> bool" where
  "usable_key k \<longleftrightarrow> 2048 \<le> bit_len (rp_n k) \<and> 3 \<le> rp_e k \<and> rp_e k \<le> 2 ^ 31 - 1"

lemma parse_keys_published:
  assumes "\<forall>kid \<in> set kids. kid \<noteq> [] \<and> usable_key (f kid)"
  shows "parse_keys out (map (\<lambda>kid. \<lparr>jwk_kty = ''RSA'', jwk_kid = kid, jwk_n = b64_encode (big_bytes (rp_n (f kid))),
             jwk_e = b64_encode (big_bytes (nat \<bar>rp_e (f kid)\<bar>))\<rparr>) kids) =
         Inr (\<lambda>kid. if kid \<in> set kids then Some (f kid) else out kid)"
  using assms
proof (induction kids arbitrary: out)
  case (Cons k ks)
  have "nat \<bar>rp_e (f k)\<bar> < 2 ^ 63" "\<not> nat \<bar>rp_e (f k)\<bar> < 3" "\<not> nat \<bar>rp_e (f k)\<bar> > 2 ^ 31 - 1" "\<not> bit_len (rp_n (f k)) < 2048"
    "\<lparr>rp_n = rp_n (f k), rp_e = int (nat \<bar>rp_e (f k)\<bar>)\<rparr> = f k"
    using Cons.prems by (auto simp: usable_key_def)
  with Cons show ?case
    by (auto simp: b64_roundtrip big_bytes_range Let_def fun_eq_iff)
qed simp

lemma parse_keys_step:
  assumes "parse_keys out (k # ks) = Inr m" and "jwk_kty k = ''RSA''" and "jwk_kid k \<noteq> []"
  obtains p where "usable_key p" and "parse_keys (out(jwk_kid k \<mapsto> p)) ks = Inr m"
proof -
  from assms obtain nb eb where dec: "b64_decode (jwk_n k) = Some nb" "b64_decode (jwk_e k) = Some eb"
    by (simp split: option.splits)
  let ?p = "\<lparr>rp_n = set_bytes nb, rp_e = int (set_bytes eb)\<rparr>"
  from assms dec have long: "\<not> bit_len (set_bytes nb) < 2048" by (auto simp: Let_def)
  from assms dec long have e: "\<not> (\<not> set_bytes eb < 2 ^ 63 \<or> set_bytes eb < 3 \<or> set_bytes eb > 2 ^ 31 - 1)"
    by (simp only: parse_keys.simps Let_def option.case if_True if_False simp_thms sum.simps split: if_splits)
  have "usable_key ?p" using long e by (simp add: usable_key_def)
  moreover have "parse_keys (out(jwk_kid k \<mapsto> ?p)) ks = Inr m"
    using assms dec long e
    by (simp only: parse_keys.simps Let_def option.case if_False simp_thms)
  ultimately show thesis by (rule that)
qed

lemma parse_keys_usable:
  "parse_keys out ks = Inr m \<Longrightarrow> \<forall>kid p. out kid = Some p \<longrightarrow> kid \<noteq> [] \<and> usable_key p \<Longrightarrow>
   m kid = Some p \<Longrightarrow> kid \<noteq> [] \<and> usable_key p"
proof (induction ks arbitrary: out)
  case (Cons k ks)
  show ?case
  proof (cases "jwk_kty k = ''RSA'' \<and> jwk_kid k \<noteq> []")
    case True
    then obtain q where q: "usable_key q" "parse_keys (out(jwk_kid k \<mapsto> q)) ks = Inr m"
      using parse_keys_step [OF Cons.prems(1)] by blast
    from q(1) True Cons.prems(2)
    have "\<forall>kid p. (out(jwk_kid k \<mapsto> q)) kid = Some p \<longrightarrow> kid \<noteq> [] \<and> usable_key p" by simp
    from Cons.IH [OF q(2) this Cons.prems(3)] show ?thesis .
  next
    case False
    with Cons.prems(1) have "parse_keys out ks = Inr m" by auto
    from Cons.IH [OF this Cons.prems(2,3)] show ?thesis .
  qed
qed simp

lemma parse_keys_weak:
  assumes "k \<in> set ks" and "jwk_kty k = ''RSA''" and "jwk_kid k \<noteq> []"
    and "\<forall>nb. b64_decode (jwk_n k) = Some nb \<longrightarrow> set_bytes nb < 2 ^ 2047"
  shows "parse_keys out ks \<noteq> Inr m"
proof -
  have short: "\<forall>nb. b64_decode (jwk_n k) = Some nb \<longrightarrow> bit_len (set_bytes nb) < 2048"
  proof (intro allI impI)
    fix nb assume "b64_decode (jwk_n k) = Some nb"
    with assms(4) have "bit_len (set_bytes nb) \<le> 2047" by (simp only: bit_len_le_iff)
    then show "bit_len (set_bytes nb) < 2048" by linarith
  qed
  have head: "parse_keys out (k # ks) \<noteq> Inr m" for out ks
  proof (cases "b64_decode (jwk_n k)")
    case None
    then show ?thesis using assms(2,3) by simp
  next
    case (Some nb)
    with short have "bit_len (set_bytes nb) < 2048" by blast
    with Some show ?thesis using assms(2,3) by (simp add: Let_def split: option.split)
  qed
  have "parse_keys out (pre @ k # post) \<noteq> Inr m" for pre post
    by (induction pre arbitrary: out) (simp_all only: append_Nil append_Cons head not_False_eq_True,
        simp add: Let_def split: option.split)
  then show ?thesis using assms(1) by (metis in_set_conv_decomp)
qed

lemma published_map:
  assumes "distinct (map fst keys)" and "\<forall>(kid, pub) \<in> set keys. kid \<noteq> [] \<and> usable_key pub"
  shows "parse_jwks (Some (jwks_document keys)) = Inr (map_of keys)"
proof -
  have "\<forall>kid \<in> set (sort (map fst keys)). kid \<noteq> [] \<and> usable_key (the (map_of keys kid))"
    using assms by auto
  from parse_keys_published [OF this, of Map.empty] show ?thesis
    by (auto simp: parse_jwks_def jwks_document_def Let_def fun_eq_iff map_of_eq_None_iff)
      (metis domD domIff map_of_eq_None_iff option.sel)
qed

section \<open>Properties\<close>

text \<open>
  what the issuer publishes is what resource servers hold. For every key map whose keys have a
  modulus of at least 2048 bits and an exponent a resource server accepts, in whatever order Go
  iterates it, the document of \<open>JWKSHandler\<close> is read by \<open>ParseJWKS\<close> without an error and gives back
  the map.
\<close>

theorem jwks_roundtrip:
  assumes "distinct (map fst keys)" and "\<forall>(kid, pub) \<in> set keys. kid \<noteq> [] \<and> usable_key pub"
  shows "parse_jwks (Some (jwks_document keys)) = Inr (map_of keys)"
  using assms by (rule published_map)

lemma bit_len_ge: "2 ^ k \<le> n \<Longrightarrow> Suc k \<le> bit_len n"
  using bit_len_le_iff [of n k] by linarith

definition big_key :: rsa_public where
  "big_key = \<lparr>rp_n = 2 ^ 2047 + 1, rp_e = 65537\<rparr>"

lemma usable_big_key: "usable_key big_key"
proof -
  have "(2::nat) ^ 2047 \<le> 2 ^ 2047 + 1" by simp
  then have "Suc 2047 \<le> bit_len (2 ^ 2047 + 1)" by (rule bit_len_ge)
  moreover have "(65537::int) \<le> 2 ^ 31 - 1" by simp
  ultimately show ?thesis unfolding usable_key_def big_key_def by simp
qed

theorem jwks_roundtrip_witness:
  "parse_jwks (Some (jwks_document [(''k2'', big_key), (''k1'', big_key)])) = Inr [''k1'' \<mapsto> big_key, ''k2'' \<mapsto> big_key]"
  by (subst jwks_roundtrip) (auto simp: usable_big_key)

text \<open>
  A resource server never trusts a weak key. Every key in a set that \<open>ParseJWKS\<close> returns has a
  key id, a modulus of at least 2048 bits and an exponent between 3 and \<open>2 ^ 31 - 1\<close>; and one RSA key
  with a key id and a shorter modulus, or one that does not decode, rejects the whole document.
\<close>

theorem parse_jwks_safe:
  "(parse_jwks doc = Inr m \<longrightarrow> m kid = Some p \<longrightarrow>
      kid \<noteq> [] \<and> 2 ^ 2047 \<le> rp_n p \<and> 3 \<le> rp_e p \<and> rp_e p \<le> 2 ^ 31 - 1) \<and>
   (doc = Some ks \<longrightarrow> k \<in> set ks \<longrightarrow> jwk_kty k = ''RSA'' \<longrightarrow> jwk_kid k \<noteq> [] \<longrightarrow>
      (\<forall>nb. b64_decode (jwk_n k) = Some nb \<longrightarrow> set_bytes nb < 2 ^ 2047) \<longrightarrow> parse_jwks doc \<noteq> Inr m)"
proof (intro conjI impI)
  assume "parse_jwks doc = Inr m" "m kid = Some p"
  then have *: "kid \<noteq> [] \<and> usable_key p"
    by (cases doc) (auto simp: parse_jwks_def dest: parse_keys_usable)
  then show "kid \<noteq> []" "3 \<le> rp_e p" "rp_e p \<le> 2 ^ 31 - 1" by (auto simp: usable_key_def)
  show "2 ^ 2047 \<le> rp_n p"
    using * bit_len_le_iff [of "rp_n p" 2047] unfolding usable_key_def by linarith
next
  assume "doc = Some ks" and k: "k \<in> set ks" "jwk_kty k = ''RSA''" "jwk_kid k \<noteq> []"
    "\<forall>nb. b64_decode (jwk_n k) = Some nb \<longrightarrow> set_bytes nb < 2 ^ 2047"
  with parse_keys_weak [OF k] show "parse_jwks doc \<noteq> Inr m" by (simp add: parse_jwks_def)
qed

theorem parse_jwks_safe_witness:
  "2 ^ 2047 \<le> rp_n big_key \<and>
   parse_jwks (Some [\<lparr>jwk_kty = ''RSA'', jwk_kid = ''k'', jwk_n = ''AQAB'', jwk_e = ''AQAB''\<rparr>]) \<noteq> Inr Map.empty"
proof
  show "2 ^ 2047 \<le> rp_n big_key"
    using parse_jwks_safe [of "Some (jwks_document [(''k1'', big_key)])" "[''k1'' \<mapsto> big_key]" "''k1''" big_key]
    by (simp add: published_map usable_big_key)
  have "b64_decode ''AQAB'' = Some [1, 0, 1]"
    by (simp add: b64_decode_def b64_val_def b64_alphabet_def upt_rec)
  then show "parse_jwks (Some [\<lparr>jwk_kty = ''RSA'', jwk_kid = ''k'', jwk_n = ''AQAB'', jwk_e = ''AQAB''\<rparr>]) \<noteq> Inr Map.empty"
    using parse_jwks_safe by (simp add: set_bytes_def)
qed

end
