(* ===== verification/Delegation.thy ===== *)
theory Delegation
  imports GoPrelude
begin

text \<open>
  \<open>internal/delegation/delegation.go\<close>: the constraint sets a delegation carries, the decision
  \<open>Permit\<close> makes from them, \<open>Tighten\<close> and its helpers, scope attenuation, and grants with
  their chains. The lemmas show that tightening never widens what the parent permits, that it
  keeps the deny-all sentinel alone in its list, and that every grant built by \<open>NewRootGrant\<close>
  and \<open>Delegate\<close> is bounded by each of its ancestors.

  The IANA database behind \<open>time.LoadLocation\<close> is data of the installation: \<open>tzdb\<close>
  is an argument of what uses it, and yields no location for an unknown name.
\<close>

type_synonym tzdb = "string \<Rightarrow> location option"

section \<open>Constraints\<close>

record time_window =
  tw_weekdays :: "int list"
  tw_start_min :: int
  tw_end_min :: int
  tw_tz :: string

record rate_limit =
  rl_max_per_hour :: int

record constraints =
  cn_max_amount :: "f64 option"
  cn_categories :: "string list"
  cn_tools :: "string list"
  cn_resources :: "string list"
  cn_time_window :: "time_window option"
  cn_rate :: "rate_limit option"

definition no_constraints :: constraints where
  "no_constraints = \<lparr>cn_max_amount = None, cn_categories = [], cn_tools = [], cn_resources = [],
     cn_time_window = None, cn_rate = None\<rparr>"

record action =
  ac_scope :: string
  ac_amount :: f64
  ac_category :: string
  ac_tool :: string
  ac_resource :: string
  ac_at :: instant

text \<open>Error values carry what their message shows.\<close>

datatype deny =
    AmountExceeds f64 f64
  | FullyRestricted string
  | NotAllowed string string "string list"
  | OutsideWindow instant
  | MissingScope string string

datatype window_error =
    MinutesOutOfRange
  | StartAfterEnd
  | BadWeekday
  | UnknownTZ string

subsection \<open>Time windows\<close>

text \<open>\<open>TimeWindow.Allows\<close>: an unknown time zone denies.\<close>

definition allows :: "tzdb \<Rightarrow> time_window \<Rightarrow> instant \<Rightarrow> bool" where
  "allows tzdb w t =
     (case (if tw_tz w \<noteq> [] then tzdb (tw_tz w) else Some utc) of
        None \<Rightarrow> False
      | Some loc \<Rightarrow>
          if tw_weekdays w \<noteq> [] \<and> \<not> contains (tw_weekdays w) (weekday loc t) then False
          else let m = minute_of_day loc t in tw_start_min w \<le> m \<and> m \<le> tw_end_min w)"

text \<open>\<open>TimeWindow.Validate\<close>.\<close>

definition validate_window :: "tzdb \<Rightarrow> time_window \<Rightarrow> window_error option" where
  "validate_window tzdb w =
     (if tw_start_min w < 0 \<or> tw_start_min w > 1439 \<or> tw_end_min w < 0 \<or> tw_end_min w > 1439
      then Some MinutesOutOfRange
      else if tw_start_min w > tw_end_min w then Some StartAfterEnd
      else case first_error (\<lambda>d. if d < 0 \<or> d > 6 then Some BadWeekday else None) (tw_weekdays w) of
             Some e \<Rightarrow> Some e
           | None \<Rightarrow> if tw_tz w \<noteq> [] \<and> tzdb (tw_tz w) = None then Some (UnknownTZ (tw_tz w))
                     else None)"

subsection \<open>Permit\<close>

text \<open>The sentinel element of an allow-list that was intersected to nothing.\<close>

definition deny_all :: string where
  "deny_all = CHR 0x00 # ''legant:deny-all''"

definition permit_list :: "string \<Rightarrow> string list \<Rightarrow> string \<Rightarrow> deny option" where
  "permit_list dm allowed value =
     (if allowed = [] then None
      else if contains allowed deny_all then Some (FullyRestricted dm)
      else if value \<noteq> [] \<and> \<not> contains allowed value then Some (NotAllowed dm value allowed)
      else None)"

text \<open>\<open>Constraints.Permit\<close>; \<open>now\<close> is the clock it reads when the action has no instant.\<close>

definition permit :: "tzdb \<Rightarrow> instant \<Rightarrow> constraints \<Rightarrow> action \<Rightarrow> deny option" where
  "permit tzdb now c a =
     err_then (case cn_max_amount c of
                 Some m \<Rightarrow> if f64_less m (ac_amount a) then Some (AmountExceeds (ac_amount a) m) else None
               | None \<Rightarrow> None)
    (err_then (permit_list ''category'' (cn_categories c) (ac_category a))
    (err_then (permit_list ''tool'' (cn_tools c) (ac_tool a))
    (err_then (permit_list ''resource'' (cn_resources c) (ac_resource a))
      (case cn_time_window c of
         None \<Rightarrow> None
       | Some w \<Rightarrow>
           let t = (if ac_at a = zero_time then now else ac_at a)
           in if \<not> allows tzdb w t then Some (OutsideWindow t) else None))))"

subsection \<open>Tighten\<close>

fun intersect_allow :: "string list \<Rightarrow> string list \<Rightarrow> string list" where
  "intersect_allow a b =
     (if a = [] then b
      else if b = [] then a
      else let out = filter (\<lambda>x. x \<noteq> deny_all \<and> contains b x) a
           in if out = [] then [deny_all] else out)"

fun intersect_ints :: "int list \<Rightarrow> int list \<Rightarrow> int list" where
  "intersect_ints a b =
     (if a = [] then b
      else if b = [] then a
      else let out = filter (\<lambda>x. x \<ge> 0 \<and> contains b x) a
           in if out = [] then [-1] else out)"

fun tighten_window :: "time_window option \<Rightarrow> time_window option \<Rightarrow> time_window option" where
  "tighten_window None c = c"
| "tighten_window (Some p) None = Some p"
| "tighten_window (Some p) (Some c) =
     (if tw_tz p \<noteq> tw_tz c then Some p
      else Some \<lparr>tw_weekdays = intersect_ints (tw_weekdays p) (tw_weekdays c),
                 tw_start_min = max (tw_start_min p) (tw_start_min c),
                 tw_end_min = min (tw_end_min p) (tw_end_min c),
                 tw_tz = tw_tz p\<rparr>)"

fun tighten_rate :: "rate_limit option \<Rightarrow> rate_limit option \<Rightarrow> rate_limit option" where
  "tighten_rate None c = c"
| "tighten_rate (Some p) None = Some p"
| "tighten_rate (Some p) (Some c) =
     (let m = rl_max_per_hour p
      in Some \<lparr>rl_max_per_hour = (if rl_max_per_hour c < m then rl_max_per_hour c else m)\<rparr>)"

fun tighten_amount :: "f64 option \<Rightarrow> f64 option \<Rightarrow> f64 option" where
  "tighten_amount None c = c"
| "tighten_amount (Some p) None = Some p"
| "tighten_amount (Some p) (Some c) = (if f64_less c p then Some c else Some p)"

definition tighten :: "constraints \<Rightarrow> constraints \<Rightarrow> constraints" where
  "tighten p c =
     \<lparr>cn_max_amount = tighten_amount (cn_max_amount p) (cn_max_amount c),
      cn_categories = intersect_allow (cn_categories p) (cn_categories c),
      cn_tools = intersect_allow (cn_tools p) (cn_tools c),
      cn_resources = intersect_allow (cn_resources p) (cn_resources c),
      cn_time_window = tighten_window (cn_time_window p) (cn_time_window c),
      cn_rate = tighten_rate (cn_rate p) (cn_rate c)\<rparr>"

subsection \<open>Scope attenuation\<close>

fun attenuate :: "string list \<Rightarrow> string list \<Rightarrow> string list" where
  "attenuate parent [] = []"
| "attenuate parent (s # requested) =
     (if contains parent s then s # attenuate parent requested else attenuate parent requested)"

fun is_subset :: "string list \<Rightarrow> string list \<Rightarrow> bool" where
  "is_subset [] parent = True"
| "is_subset (s # child) parent = (if \<not> contains parent s then False else is_subset child parent)"

definition has_scope :: "string \<Rightarrow> string \<Rightarrow> bool" where
  "has_scope scope_str scope = contains (go_fields scope_str) scope"

section \<open>Grants and delegation chains\<close>

datatype grant =
  Grant (g_delegator: string) (g_delegatee: string) (g_scopes: "string list")
        (g_constraints: constraints) (g_expires_at: instant) (g_parent: "grant option")

datatype delegate_error =
    ScopesExceed string "string list" "string list"
  | DepthExceeds string int
  | CycleDetected string

definition default_max_depth :: int where
  "default_max_depth = 5"

definition new_root_grant ::
    "string \<Rightarrow> string \<Rightarrow> string list \<Rightarrow> constraints \<Rightarrow> duration \<Rightarrow> instant \<Rightarrow> grant" where
  "new_root_grant user agent scopes c ttl now = Grant user agent scopes c (now + ttl) None"

text \<open>\<open>Grant.depth\<close>: the number of parents.\<close>

fun depth :: "grant \<Rightarrow> int" where
  "depth (Grant _ _ _ _ _ None) = 0"
| "depth (Grant _ _ _ _ _ (Some p)) = depth p + 1"

text \<open>The loop of \<open>Delegate\<close> that looks for the delegatee in the chain.\<close>

fun in_grant_chain :: "string \<Rightarrow> grant \<Rightarrow> bool" where
  "in_grant_chain x (Grant _ d _ _ _ None) = (d = x)"
| "in_grant_chain x (Grant _ d _ _ _ (Some p)) = (d = x \<or> in_grant_chain x p)"

definition delegate ::
    "grant \<Rightarrow> string \<Rightarrow> string list \<Rightarrow> constraints \<Rightarrow> duration \<Rightarrow> instant \<Rightarrow> int \<Rightarrow> delegate_error + grant"
where
  "delegate parent delegatee scopes c ttl now max_depth =
     (if \<not> is_subset scopes (g_scopes parent) then Inl (ScopesExceed delegatee scopes (g_scopes parent))
      else if depth parent + 1 \<ge> max_depth then Inl (DepthExceeds delegatee max_depth)
      else if in_grant_chain delegatee parent then Inl (CycleDetected delegatee)
      else let ex = (if now + ttl > g_expires_at parent then g_expires_at parent else now + ttl)
           in Inr (Grant (g_delegatee parent) delegatee scopes (tighten (g_constraints parent) c) ex
                     (Some parent)))"

fun root_delegator :: "grant \<Rightarrow> string" where
  "root_delegator (Grant d _ _ _ _ None) = d"
| "root_delegator (Grant _ _ _ _ _ (Some p)) = root_delegator p"

text \<open>
  \<open>ActorChainRootToLeaf\<close> collects the delegatees leaf first and reverses the slice in place.
\<close>

fun actors_leaf_first :: "grant \<Rightarrow> string list" where
  "actors_leaf_first (Grant _ d _ _ _ None) = [d]"
| "actors_leaf_first (Grant _ d _ _ _ (Some p)) = d # actors_leaf_first p"

definition actor_chain_root_to_leaf :: "grant \<Rightarrow> string list" where
  "actor_chain_root_to_leaf g = rev (actors_leaf_first g)"

definition effective_scopes :: "grant \<Rightarrow> string list \<Rightarrow> string list" where
  "effective_scopes g requested = attenuate (g_scopes g) requested"

section \<open>What Permit accepts\<close>

definition amount_ok :: "f64 option \<Rightarrow> f64 \<Rightarrow> bool" where
  "amount_ok m x \<longleftrightarrow> (case m of None \<Rightarrow> True | Some v \<Rightarrow> \<not> f64_less v x)"

definition window_ok :: "tzdb \<Rightarrow> instant \<Rightarrow> time_window option \<Rightarrow> instant \<Rightarrow> bool" where
  "window_ok tzdb now w t \<longleftrightarrow>
     (case w of None \<Rightarrow> True | Some w' \<Rightarrow> allows tzdb w' (if t = zero_time then now else t))"

lemma permit_None_iff:
  "permit tzdb now c a = None \<longleftrightarrow>
     amount_ok (cn_max_amount c) (ac_amount a)
   \<and> permit_list ''category'' (cn_categories c) (ac_category a) = None
   \<and> permit_list ''tool'' (cn_tools c) (ac_tool a) = None
   \<and> permit_list ''resource'' (cn_resources c) (ac_resource a) = None
   \<and> window_ok tzdb now (cn_time_window c) (ac_at a)"
  by (auto simp: permit_def amount_ok_def window_ok_def Let_def split: option.splits if_splits)

lemma permit_list_None_iff:
  "permit_list dm xs v = None \<longleftrightarrow> xs = [] \<or> deny_all \<notin> set xs \<and> (v = [] \<or> v \<in> set xs)"
  by (auto simp: permit_list_def)

section \<open>The contract of attenuation\<close>

text \<open>
  \<open>Tighten\<close> is assembled from combinators that share one contract: combining a parent's limit with a
  child's never permits what the parent refuses, and keeps the limit well formed. The locale states it
  over any limit; \<open>meet_attenuation\<close> adds that the child's limit binds as well, which holds of the
  allow-lists and the weekdays, and not of \<open>tightenWindow\<close> (a window in another zone is dropped).
\<close>

locale attenuation =
  fixes ok :: "'c \<Rightarrow> bool"
    and permits :: "'c \<Rightarrow> 'a \<Rightarrow> bool"
    and tight :: "'c \<Rightarrow> 'c \<Rightarrow> 'c"
  assumes ok_tight: "ok p \<Longrightarrow> ok c \<Longrightarrow> ok (tight p c)"
    and tight_parent: "ok p \<Longrightarrow> permits (tight p c) a \<Longrightarrow> permits p a"
begin

lemma ok_foldl: "ok p \<Longrightarrow> \<forall>c \<in> set cs. ok c \<Longrightarrow> ok (foldl tight p cs)"
  by (induction cs arbitrary: p) (auto intro: ok_tight)

lemma foldl_parent:
  "ok p \<Longrightarrow> \<forall>c \<in> set cs. ok c \<Longrightarrow> permits (foldl tight p cs) a \<Longrightarrow> permits p a"
proof (induction cs arbitrary: p)
  case (Cons c cs)
  then show ?case using ok_tight [of p c] tight_parent [of p c a] by auto
qed simp

end

locale meet_attenuation = attenuation +
  assumes tight_child: "ok p \<Longrightarrow> ok c \<Longrightarrow> permits (tight p c) a \<Longrightarrow> permits c a"
begin

lemma foldl_member:
  "ok p \<Longrightarrow> \<forall>c \<in> set cs. ok c \<Longrightarrow> permits (foldl tight p cs) a \<Longrightarrow> c \<in> set (p # cs) \<Longrightarrow> permits c a"
proof (induction cs arbitrary: p)
  case (Cons d cs)
  have ok: "ok (tight p d)" using Cons.prems ok_tight by simp
  have "permits (tight p d) a" using Cons.prems ok foldl_parent [of "tight p d" cs a] by simp
  moreover have "permits c a" if "c \<in> set (tight p d # cs)"
    using Cons.IH [OF ok] Cons.prems that by simp
  ultimately show ?case using Cons.prems tight_parent tight_child by auto
qed simp

end

text \<open>The sentinel stands alone in its list: \<open>intersectAllow\<close> puts it nowhere else.\<close>

definition wf_allow :: "string list \<Rightarrow> bool" where
  "wf_allow xs \<longleftrightarrow> (deny_all \<in> set xs \<longrightarrow> xs = [deny_all])"

lemma wf_allow_intersect: "wf_allow a \<Longrightarrow> wf_allow b \<Longrightarrow> wf_allow (intersect_allow a b)"
  by (auto simp: wf_allow_def Let_def)

interpretation allow: meet_attenuation wf_allow "\<lambda>xs v. permit_list dm xs v = None" intersect_allow for dm
proof
  fix p c :: "string list" and v
  show "wf_allow p \<Longrightarrow> wf_allow c \<Longrightarrow> wf_allow (intersect_allow p c)"
    by (rule wf_allow_intersect)
  show "wf_allow p \<Longrightarrow> permit_list dm (intersect_allow p c) v = None \<Longrightarrow> permit_list dm p v = None"
    by (auto simp: wf_allow_def permit_list_None_iff Let_def split: if_splits)
  show "wf_allow p \<Longrightarrow> wf_allow c \<Longrightarrow> permit_list dm (intersect_allow p c) v = None \<Longrightarrow>
        permit_list dm c v = None"
    by (auto simp: wf_allow_def permit_list_None_iff Let_def split: if_splits)
qed

interpretation weekdays: meet_attenuation "\<lambda>_. True"
  "\<lambda>xs d. xs = [] \<or> (0::int) \<le> d \<and> d \<in> set xs" intersect_ints
  by unfold_locales (auto simp: Let_def split: if_splits)

interpretation amount: attenuation "\<lambda>_. True" amount_ok tighten_amount
proof
  fix p c a
  show "amount_ok (tighten_amount p c) a \<Longrightarrow> amount_ok p a"
    by (cases p; cases c) (auto simp: amount_ok_def dest: f64_not_less_trans split: if_splits)
qed simp

lemma intersect_ints_parent:
  "0 \<le> d \<Longrightarrow> intersect_ints p c = [] \<or> d \<in> set (intersect_ints p c) \<Longrightarrow> p = [] \<or> d \<in> set p"
  using weekdays.tight_parent [of p c d] by auto

lemma allows_iff:
  "allows tzdb w t \<longleftrightarrow>
     (\<exists>loc. (if tw_tz w \<noteq> [] then tzdb (tw_tz w) else Some utc) = Some loc
        \<and> (tw_weekdays w = [] \<or> weekday loc t \<in> set (tw_weekdays w))
        \<and> tw_start_min w \<le> minute_of_day loc t \<and> minute_of_day loc t \<le> tw_end_min w)"
  by (auto simp: allows_def Let_def split: option.splits)

lemma allows_tighten:
  "tz = tw_tz p \<Longrightarrow>
   allows tzdb \<lparr>tw_weekdays = intersect_ints (tw_weekdays p) (tw_weekdays c),
                 tw_start_min = max (tw_start_min p) (tw_start_min c),
                 tw_end_min = min (tw_end_min p) (tw_end_min c), tw_tz = tz\<rparr> t \<Longrightarrow> allows tzdb p t"
  unfolding allows_iff using weekday_range intersect_ints_parent
  by (fastforce simp del: intersect_ints.simps)

interpretation window: attenuation "\<lambda>_. True" "\<lambda>w (tzdb, now, t). window_ok tzdb now w t" tighten_window
proof
  fix p c and x :: "tzdb \<times> instant \<times> instant"
  assume *: "case x of (tzdb, now, t) \<Rightarrow> window_ok tzdb now (tighten_window p c) t"
  then show "case x of (tzdb, now, t) \<Rightarrow> window_ok tzdb now p t"
    by (cases p; cases c) (auto simp: window_ok_def simp del: intersect_ints.simps dest: allows_tighten [rotated] split: if_splits)
qed simp

definition wf_constraints :: "constraints \<Rightarrow> bool" where
  "wf_constraints c \<longleftrightarrow> wf_allow (cn_categories c) \<and> wf_allow (cn_tools c) \<and> wf_allow (cn_resources c)"

lemma wf_tighten: "wf_constraints p \<Longrightarrow> wf_constraints c \<Longrightarrow> wf_constraints (tighten p c)"
  by (simp add: wf_constraints_def tighten_def wf_allow_intersect del: intersect_allow.simps)

lemma tighten_refines_parent:
  assumes "wf_constraints p" and "permit tzdb now (tighten p c) a = None"
  shows "permit tzdb now p a = None"
  using assms window.tight_parent [of "cn_time_window p" "cn_time_window c" "(tzdb, now, ac_at a)"]
  by (auto simp: permit_None_iff tighten_def wf_constraints_def simp del: intersect_allow.simps
      dest: allow.tight_parent amount.tight_parent [OF TrueI])

interpretation policy: attenuation wf_constraints "\<lambda>c (tzdb, now, a). permit tzdb now c a = None" tighten
  by unfold_locales (auto intro: wf_tighten tighten_refines_parent)

section \<open>Grants built by the code\<close>

fun ancestors :: "grant \<Rightarrow> grant list" where
  "ancestors (Grant _ _ _ _ _ None) = []"
| "ancestors (Grant _ _ _ _ _ (Some p)) = p # ancestors p"

text \<open>The grants \<open>NewRootGrant\<close> and \<open>Delegate\<close> build, with the depth bound \<open>m\<close> given to each call.\<close>

inductive derived :: "int \<Rightarrow> grant \<Rightarrow> bool" for m where
  root: "wf_constraints c \<Longrightarrow> derived m (new_root_grant u a s c ttl now)"
| child: "derived m p \<Longrightarrow> wf_constraints c \<Longrightarrow> delegate p d s c ttl now m = Inr g \<Longrightarrow> derived m g"

lemma is_subset_iff: "is_subset xs ys \<longleftrightarrow> set xs \<subseteq> set ys"
  by (induction xs) auto

lemma attenuate_eq: "attenuate parent requested = filter (\<lambda>s. s \<in> set parent) requested"
  by (induction requested) auto

lemma in_grant_chain_iff: "in_grant_chain x g \<longleftrightarrow> x \<in> set (actors_leaf_first g)"
  by (induction g rule: actors_leaf_first.induct) auto

lemma length_actors: "int (length (actors_leaf_first g)) = depth g + 1"
  by (induction g rule: actors_leaf_first.induct) auto

lemma delegate_Inr_iff:
  "delegate p d s c ttl now m = Inr g \<longleftrightarrow>
     set s \<subseteq> set (g_scopes p) \<and> depth p + 1 < m \<and> d \<notin> set (actors_leaf_first p) \<and>
     g = Grant (g_delegatee p) d s (tighten (g_constraints p) c) (min (now + ttl) (g_expires_at p)) (Some p)"
  by (auto simp: delegate_def is_subset_iff in_grant_chain_iff Let_def)

lemma derived_wf: "derived m g \<Longrightarrow> wf_constraints (g_constraints g)"
  by (induction rule: derived.induct) (auto simp: new_root_grant_def delegate_Inr_iff wf_tighten)

lemma ancestors_parent: "g_parent g = Some p \<Longrightarrow> ancestors g = p # ancestors p"
  by (cases g) auto

inductive_cases derived_GrantE: "derived m (Grant dr de s c ex (Some p))"

lemma amount_ok_tighten:
  "x \<noteq> Some NaN \<Longrightarrow> y \<noteq> Some NaN \<Longrightarrow> amount_ok (tighten_amount x y) v \<longleftrightarrow> amount_ok x v \<and> amount_ok y v"
  by (cases x; cases y) (auto simp: amount_ok_def dest: f64_not_less_trans f64_less_linear)

lemma permit_list_intersect:
  "wf_allow x \<Longrightarrow> wf_allow y \<Longrightarrow> v \<noteq> [] \<Longrightarrow>
   permit_list dm (intersect_allow x y) v = None \<longleftrightarrow>
   permit_list dm x v = None \<and> permit_list dm y v = None"
  by (auto simp: permit_list_None_iff wf_allow_def Let_def filter_empty_conv split: if_splits)

lemma weekday_intersect:
  "0 \<le> d \<Longrightarrow> (intersect_ints p c = [] \<or> d \<in> set (intersect_ints p c)) \<longleftrightarrow>
   (p = [] \<or> d \<in> set p) \<and> (c = [] \<or> d \<in> set c)"
  by (auto simp: Let_def filter_empty_conv split: if_splits)

lemma window_ok_tighten:
  assumes "\<And>v w. p = Some v \<Longrightarrow> c = Some w \<Longrightarrow> tw_tz v = tw_tz w"
  shows "window_ok tzdb now (tighten_window p c) t \<longleftrightarrow> window_ok tzdb now p t \<and> window_ok tzdb now c t"
proof (cases p)
  case None
  then show ?thesis by (simp add: window_ok_def)
next
  case (Some v)
  show ?thesis
  proof (cases c)
    case None
    with Some show ?thesis by (simp add: window_ok_def)
  next
    case (Some w)
    with \<open>p = Some v\<close> assms have "tw_tz v = tw_tz w" by simp
    then show ?thesis
      using \<open>p = Some v\<close> Some weekday_range
      by (auto simp: window_ok_def allows_iff weekday_intersect simp del: intersect_ints.simps)
  qed
qed

text \<open>Every ancestor bounds a built grant.\<close>

lemma derived_bound:
  assumes "derived m g" and "h \<in> set (ancestors g)"
  shows "set (g_scopes g) \<subseteq> set (g_scopes h) \<and> g_expires_at g \<le> g_expires_at h \<and>
         root_delegator g = root_delegator h \<and>
         (\<forall>tzdb now a. permit tzdb now (g_constraints g) a = None \<longrightarrow>
                       permit tzdb now (g_constraints h) a = None)"
  using assms
proof (induction rule: derived.induct)
  case (child p c d s ttl now g)
  from child.hyps(3) have g: "g_parent g = Some p" "set (g_scopes g) \<subseteq> set (g_scopes p)"
    "g_expires_at g \<le> g_expires_at p" "g_constraints g = tighten (g_constraints p) c"
    "root_delegator g = root_delegator p"
    by (auto simp: delegate_Inr_iff)
  have step: "permit tzdb now (g_constraints g) a = None \<Longrightarrow> permit tzdb now (g_constraints p) a = None"
    for tzdb now a
    using tighten_refines_parent [OF derived_wf [OF child.hyps(1)]] g(4) by simp
  show ?case
  proof (cases "h = p")
    case True
    with g step show ?thesis by auto
  next
    case False
    with child.prems g(1) have "h \<in> set (ancestors p)" by (simp add: ancestors_parent)
    from child.IH [OF this] g step show ?thesis by (auto intro: order_trans)
  qed
qed (simp add: new_root_grant_def)

section \<open>Properties\<close>

text \<open>
  C4: tightening never widens. Whatever the constraints a child asks for, an action the tightened set
  permits is one the parent's set permits: at the same clock, with the same time-zone database, for
  every amount, \<open>NaN\<close> included, and for windows in any zones.
\<close>

theorem tighten_never_widens:
  assumes "wf_constraints p" and "permit tzdb now (tighten p c) a = None"
  shows "permit tzdb now p a = None"
  using assms by (rule policy.tight_parent [where a = "(tzdb, now, a)", simplified])

definition sample_parent :: constraints where
  "sample_parent = no_constraints\<lparr>cn_max_amount := Some (Fin 100), cn_tools := [''read'', ''write''],
     cn_time_window := Some \<lparr>tw_weekdays = [1, 2, 3, 4, 5], tw_start_min = 480, tw_end_min = 1080,
       tw_tz = ''UTC''\<rparr>\<rparr>"

definition sample_child :: constraints where
  "sample_child = no_constraints\<lparr>cn_max_amount := Some (Fin 40), cn_tools := [''write'', ''delete''],
     cn_time_window := Some \<lparr>tw_weekdays = [4], tw_start_min = 0, tw_end_min = 720,
       tw_tz = ''UTC''\<rparr>\<rparr>"

definition sample_action :: action where
  "sample_action = \<lparr>ac_scope = ''pay'', ac_amount = Fin 30, ac_category = [], ac_tool = ''write'',
     ac_resource = [], ac_at = 36000 * nanos\<rparr>"

definition utc_only :: tzdb where
  "utc_only z = (if z = ''UTC'' then Some utc else None)"

lemmas sample_defs = sample_parent_def sample_child_def sample_action_def utc_only_def no_constraints_def
  deny_all_def wf_constraints_def wf_allow_def nanos_def zero_time_def utc_def

lemma sample_permits: "permit utc_only 0 (tighten sample_parent sample_child) sample_action = None"
  by (simp add: permit_None_iff permit_list_None_iff tighten_def sample_defs amount_ok_def window_ok_def
      allows_iff weekday_def minute_of_day_def local_seconds_def)

lemma sample_wf: "wf_constraints sample_parent" "wf_constraints sample_child"
  by (simp_all add: sample_defs)

theorem tighten_never_widens_witness: "permit utc_only 0 sample_parent sample_action = None"
  by (rule tighten_never_widens [OF sample_wf(1) sample_permits])

text \<open>
  \<open>Tighten\<close> takes the strictest combination of both sets when their time windows name the same
  zone and their limits are numbers: for an action that names its category, its tool and its resource,
  the tightened set permits exactly what both sets permit.
\<close>

theorem tighten_strictest:
  assumes "wf_constraints p" and "wf_constraints c"
    and "cn_max_amount p \<noteq> Some NaN" and "cn_max_amount c \<noteq> Some NaN"
    and "\<And>v w. cn_time_window p = Some v \<Longrightarrow> cn_time_window c = Some w \<Longrightarrow> tw_tz v = tw_tz w"
    and "ac_category a \<noteq> []" and "ac_tool a \<noteq> []" and "ac_resource a \<noteq> []"
  shows "permit tzdb now (tighten p c) a = None \<longleftrightarrow>
         permit tzdb now p a = None \<and> permit tzdb now c a = None"
proof -
  have amount: "amount_ok (tighten_amount x y) v \<longleftrightarrow> amount_ok x v \<and> amount_ok y v"
    if "x \<noteq> Some NaN" "y \<noteq> Some NaN" for x y v
    using that by (rule amount_ok_tighten)
  have lists: "permit_list dm (intersect_allow x y) v = None \<longleftrightarrow>
      permit_list dm x v = None \<and> permit_list dm y v = None"
    if "wf_allow x" "wf_allow y" "v \<noteq> []" for dm x y v
    using that by (rule permit_list_intersect)
  have window: "window_ok tzdb now (tighten_window (cn_time_window p) (cn_time_window c)) t \<longleftrightarrow>
      window_ok tzdb now (cn_time_window p) t \<and> window_ok tzdb now (cn_time_window c) t" for t
    using assms(5) by (rule window_ok_tighten)
  show ?thesis
    using assms by (auto simp: permit_None_iff tighten_def wf_constraints_def amount lists window
        simp del: intersect_allow.simps)
qed

definition full_action :: action where
  "full_action = sample_action\<lparr>ac_category := ''meals'', ac_resource := ''api''\<rparr>"

theorem tighten_strictest_witness:
  "permit utc_only 0 (tighten sample_parent sample_child) full_action = None \<longleftrightarrow>
   permit utc_only 0 sample_parent full_action = None \<and> permit utc_only 0 sample_child full_action = None"
  by (rule tighten_strictest) (auto simp: full_action_def sample_defs)

text \<open>
  Two windows in different zones are not combined: the child's window is dropped, also when the
  two names mean the same zone. A child set in zone \<open>UTC\<close> that refuses an action on a Thursday (and would
  refuse it under the empty zone name too) is tightened under a parent with the empty zone name, and the
  result permits that action.
\<close>

theorem tighten_drops_foreign_window:
  "\<exists>p c a. wf_constraints p \<and> wf_constraints c \<and>
     permit utc_only 0 (tighten p c) a = None \<and> permit utc_only 0 c a \<noteq> None \<and>
     permit utc_only 0 c a = permit utc_only 0 (c\<lparr>cn_time_window := map_option (tw_tz_update (\<lambda>_. [])) (cn_time_window c)\<rparr>) a"
proof (intro exI conjI)
  let ?w = "\<lambda>days tz. \<lparr>tw_weekdays = days, tw_start_min = 0, tw_end_min = 1439, tw_tz = tz\<rparr>"
  let ?p = "no_constraints\<lparr>cn_time_window := Some (?w [] [])\<rparr>"
  let ?c = "no_constraints\<lparr>cn_time_window := Some (?w [1, 2, 3] ''UTC'')\<rparr>"
  show "wf_constraints ?p" "wf_constraints ?c" by (simp_all add: sample_defs)
  show "permit utc_only 0 (tighten ?p ?c) sample_action = None"
    by (simp add: permit_None_iff permit_list_None_iff tighten_def sample_defs amount_ok_def window_ok_def
        allows_iff weekday_def minute_of_day_def local_seconds_def)
  show "permit utc_only 0 ?c sample_action \<noteq> None"
    by (simp add: permit_None_iff permit_list_None_iff sample_defs amount_ok_def window_ok_def
        allows_iff weekday_def minute_of_day_def local_seconds_def)
  show "permit utc_only 0 ?c sample_action = permit utc_only 0
     (?c\<lparr>cn_time_window := map_option (tw_tz_update (\<lambda>_. [])) (cn_time_window ?c)\<rparr>) sample_action"
    by (simp add: permit_def permit_list_def sample_defs allows_def)
qed

text \<open>
  What \<open>Delegate\<close> returns, branch by branch in the code's order: an error naming the scopes if
  they exceed the parent's, then one for the depth, then one for a delegatee already in the chain;
  otherwise the child, whose delegator is the parent's delegatee, whose constraints are the parent's
  tightened, and whose expiry is the earlier of its own and the parent's.
\<close>

theorem delegate_outcomes:
  "delegate p d s c ttl now m =
     (if \<not> set s \<subseteq> set (g_scopes p) then Inl (ScopesExceed d s (g_scopes p))
      else if m \<le> int (length (actor_chain_root_to_leaf p)) then Inl (DepthExceeds d m)
      else if d \<in> set (actor_chain_root_to_leaf p) then Inl (CycleDetected d)
      else Inr (Grant (g_delegatee p) d s (tighten (g_constraints p) c)
                  (min (now + ttl) (g_expires_at p)) (Some p)))"
  by (auto simp: delegate_def is_subset_iff in_grant_chain_iff actor_chain_root_to_leaf_def length_actors Let_def)

text \<open>
  C7: a grant built by \<open>NewRootGrant\<close> and \<open>Delegate\<close> is bounded by each of its ancestors: it holds
  no scope an ancestor lacks, expires no later, permits no action the ancestor refuses, and speaks for
  the same user.
\<close>

theorem derived_bounded:
  assumes "derived m g" and "h \<in> set (ancestors g)"
  shows "set (g_scopes g) \<subseteq> set (g_scopes h) \<and> g_expires_at g \<le> g_expires_at h \<and>
         root_delegator g = root_delegator h \<and>
         (\<forall>tzdb now a. permit tzdb now (g_constraints g) a = None \<longrightarrow>
                       permit tzdb now (g_constraints h) a = None)"
  using assms by (rule derived_bound)

definition sample_root :: grant where
  "sample_root = new_root_grant ''user:alice'' ''agent:a'' [''pay'', ''read''] sample_parent (100 * nanos) 0"

definition sample_leaf :: grant where
  "sample_leaf = Grant ''agent:a'' ''agent:b'' [''pay''] (tighten sample_parent sample_child) (50 * nanos)
     (Some sample_root)"

lemma sample_derived: "derived 5 sample_leaf"
proof (rule derived.child)
  show "derived 5 sample_root" unfolding sample_root_def by (rule derived.root) (rule sample_wf)
  show "wf_constraints sample_child" by (rule sample_wf)
  show "delegate sample_root ''agent:b'' [''pay''] sample_child (50 * nanos) 0 5 = Inr sample_leaf"
    by (simp add: delegate_Inr_iff sample_root_def new_root_grant_def sample_leaf_def nanos_def)
qed

theorem derived_bounded_witness:
  "root_delegator sample_leaf = ''user:alice'' \<and> permit utc_only 0 sample_parent sample_action = None"
  using derived_bounded [OF sample_derived, of sample_root] sample_permits
  by (simp add: sample_leaf_def sample_root_def new_root_grant_def)

text \<open>
  The chain of a built grant is short and has no cycle: no actor occurs twice in it, it
  ends with the grant's own delegatee, its length is the depth plus
  one, and a grant made by \<open>Delegate\<close> stays below the depth bound.
\<close>

theorem derived_chain_shape:
  assumes "derived m g"
  shows "distinct (actor_chain_root_to_leaf g) \<and>
         last (actor_chain_root_to_leaf g) = g_delegatee g \<and>
         int (length (actor_chain_root_to_leaf g)) = depth g + 1 \<and>
         (g_parent g = None \<or> int (length (actor_chain_root_to_leaf g)) \<le> m)"
  using assms
  by (induction rule: derived.induct)
     (auto simp: new_root_grant_def delegate_Inr_iff actor_chain_root_to_leaf_def length_actors
        simp flip: length_actors split: option.splits)

theorem derived_chain_shape_witness: "actor_chain_root_to_leaf sample_leaf = [''agent:a'', ''agent:b'']
   \<and> last (actor_chain_root_to_leaf sample_leaf) = ''agent:b''"
  using derived_chain_shape [OF sample_derived]
  by (simp add: sample_leaf_def sample_root_def new_root_grant_def actor_chain_root_to_leaf_def)

end
