(* ===== verification/Jwt.thy ===== *)
theory Jwt
  imports GoPrelude
begin

text \<open>
  The boundary to \<open>github.com/golang-jwt/jwt/v5\<close>, which is not part of the repository. A
  \<open>jwt_lib\<close> is the library as the code calls it: signing a claims struct under a \<open>kid\<close> header, and
  \<open>ParseWithClaims\<close> with a key function and the options \<open>WithValidMethods(RS256)\<close>,
  \<open>WithIssuer\<close>, \<open>WithAudience\<close> (optional) and \<open>WithExpirationRequired\<close>. What the code relies on is
  \<open>jwt_laws\<close>: a parse succeeds exactly when the signature verifies under the key the key function
  returns for the token's own \<open>kid\<close>, and the claims name the issuer and the audience, carry an expiry
  in the future and no \<open>nbf\<close> in the future; a signed token verifies under the public half of the key
  and carries the claims it was given. Empty option values are outside the laws.

  \<open>registered\<close> is \<open>jwt.RegisteredClaims\<close>; the claims structs of the program extend it.
\<close>

record registered =
  rc_iss :: string
  rc_sub :: string
  rc_aud :: "string list"
  rc_exp :: "instant option"
  rc_nbf :: "instant option"
  rc_iat :: "instant option"
  rc_jti :: string

text \<open>The \<open>kid\<close> of \<open>t.Header["kid"].(string)\<close>: the empty string when the header is absent or no string.\<close>

datatype key_error = MissingKid | UnknownKey string

datatype jwt_error = KeyError key_error | Malformed | BadSignature | BadClaims

record ('k, 'p, 'm) jwt_lib =
  jl_numeric_date :: "instant \<Rightarrow> instant"
  jl_public :: "'k \<Rightarrow> 'p"
  jl_exact :: "'m registered_scheme \<Rightarrow> bool"
    \<comment> \<open>claims that their JSON form gives back unchanged (valid UTF-8, instants the wire can hold)\<close>
  jl_sign :: "string \<Rightarrow> 'k \<Rightarrow> 'm registered_scheme \<Rightarrow> string option"
  jl_kid :: "string \<Rightarrow> string"
  jl_sig :: "'p \<Rightarrow> string \<Rightarrow> bool"
  jl_claims :: "string \<Rightarrow> 'm registered_scheme option"
  jl_parse :: "(string \<Rightarrow> key_error + 'p) \<Rightarrow> string \<Rightarrow> string option \<Rightarrow> instant \<Rightarrow> string
                 \<Rightarrow> jwt_error + 'm registered_scheme"

definition claims_current :: "string \<Rightarrow> string option \<Rightarrow> instant \<Rightarrow> 'm registered_scheme \<Rightarrow> bool" where
  "claims_current iss aud now c \<longleftrightarrow>
     rc_iss c = iss \<and> (case aud of None \<Rightarrow> True | Some a \<Rightarrow> a \<in> set (rc_aud c))
   \<and> (case rc_exp c of None \<Rightarrow> False | Some e \<Rightarrow> now < e)
   \<and> (case rc_nbf c of None \<Rightarrow> True | Some n \<Rightarrow> n \<le> now)"

definition jwt_accepts ::
    "('k, 'p, 'm) jwt_lib \<Rightarrow> (string \<Rightarrow> key_error + 'p) \<Rightarrow> string \<Rightarrow> string option \<Rightarrow> instant \<Rightarrow> string
       \<Rightarrow> 'm registered_scheme \<Rightarrow> bool" where
  "jwt_accepts lib kf iss aud now tok c \<longleftrightarrow>
     (case kf (jl_kid lib tok) of Inl _ \<Rightarrow> False | Inr p \<Rightarrow> jl_sig lib p tok)
   \<and> jl_claims lib tok = Some c \<and> claims_current iss aud now c"

definition jwt_laws :: "('k, 'p, 'm) jwt_lib \<Rightarrow> bool" where
  "jwt_laws lib \<longleftrightarrow>
     (\<forall>t. jl_numeric_date lib t \<le> t \<and> t < jl_numeric_date lib t + nanos) \<and>
     (\<forall>kf iss aud now tok c. iss \<noteq> [] \<longrightarrow> aud \<noteq> Some [] \<longrightarrow>
        (jl_parse lib kf iss aud now tok = Inr c \<longleftrightarrow> jwt_accepts lib kf iss aud now tok c)) \<and>
     (\<forall>kid k c tok. jl_exact lib c \<longrightarrow> jl_sign lib kid k c = Some tok \<longrightarrow>
        jl_kid lib tok = kid \<and> jl_sig lib (jl_public lib k) tok \<and> jl_claims lib tok = Some c)"

lemma jwt_parse_iff:
  "jwt_laws lib \<Longrightarrow> iss \<noteq> [] \<Longrightarrow> aud \<noteq> Some [] \<Longrightarrow>
   jl_parse lib kf iss aud now tok = Inr c \<longleftrightarrow> jwt_accepts lib kf iss aud now tok c"
  by (simp add: jwt_laws_def)

lemma jwt_sign:
  "jwt_laws lib \<Longrightarrow> jl_exact lib c \<Longrightarrow> jl_sign lib kid k c = Some tok \<Longrightarrow>
   jl_kid lib tok = kid \<and> jl_sig lib (jl_public lib k) tok \<and> jl_claims lib tok = Some c"
  by (simp add: jwt_laws_def)

lemma jwt_numeric_date: "jwt_laws lib \<Longrightarrow> jl_numeric_date lib t \<le> t"
  by (simp add: jwt_laws_def)

section \<open>The key ring\<close>

text \<open>
  \<open>Verifier.keyFunc\<close>, which \<open>sdk/verifier.go\<close>, \<open>sdk/revocation.go\<close> and the ID-token verifier
  repeat: the key is selected by the token's own \<open>kid\<close>, and a missing or unknown one is an error.
\<close>

definition key_func :: "(string \<rightharpoonup> 'p) \<Rightarrow> string \<Rightarrow> key_error + 'p" where
  "key_func keys kid =
     (if kid = [] then Inl MissingKid
      else case keys kid of None \<Rightarrow> Inl (UnknownKey kid) | Some pub \<Rightarrow> Inr pub)"

lemma key_func_Inr_iff: "key_func keys kid = Inr p \<longleftrightarrow> kid \<noteq> [] \<and> keys kid = Some p"
  by (auto simp: key_func_def split: option.splits)

lemma accepts_key_func:
  "jwt_accepts lib (key_func keys) iss aud now tok c \<longleftrightarrow>
     (\<exists>p. jl_kid lib tok \<noteq> [] \<and> keys (jl_kid lib tok) = Some p \<and> jl_sig lib p tok)
   \<and> jl_claims lib tok = Some c \<and> claims_current iss aud now c"
  by (auto simp: jwt_accepts_def key_func_def split: option.splits)

section \<open>A library with one signable token\<close>

text \<open>
  The laws are satisfiable: a library that can sign the claims \<open>c0\<close>, under the \<open>kid\<close> \<open>k0\<close> with the
  key \<open>()\<close>, as the token \<open>t0\<close>, and accepts nothing else.
\<close>

definition one_token_lib :: "string \<Rightarrow> 'm registered_scheme \<Rightarrow> string \<Rightarrow> (unit, unit, 'm) jwt_lib" where
  "one_token_lib k0 c0 t0 =
     \<lparr>jl_numeric_date = (\<lambda>t. t div nanos * nanos), jl_public = id, jl_exact = (\<lambda>_. True),
      jl_sign = (\<lambda>kid k c. if kid = k0 \<and> c = c0 then Some t0 else None),
      jl_kid = (\<lambda>tok. if tok = t0 then k0 else []),
      jl_sig = (\<lambda>p tok. tok = t0),
      jl_claims = (\<lambda>tok. if tok = t0 then Some c0 else None),
      jl_parse = (\<lambda>kf iss aud now tok.
        if tok \<noteq> t0 then Inl Malformed
        else case kf k0 of Inl e \<Rightarrow> Inl (KeyError e)
             | Inr p \<Rightarrow> if claims_current iss aud now c0 then Inr c0 else Inl BadClaims)\<rparr>"

lemma whole_seconds: "t div nanos * nanos \<le> t \<and> t < t div nanos * nanos + nanos"
proof -
  have "nanos > 0" by (simp add: nanos_def)
  then show ?thesis
    by (metis div_mult_mod_eq le_add_same_cancel1 pos_mod_sign add_strict_left_mono pos_mod_bound)
qed

lemma one_token_laws: "jwt_laws (one_token_lib k0 c0 t0)"
  using whole_seconds
  by (auto simp: jwt_laws_def one_token_lib_def jwt_accepts_def split: sum.splits if_splits)

text \<open>A library that signs the claims of a table as the tokens of the table, all under the \<open>kid\<close> \<open>k0\<close>.\<close>

definition table_lib :: "string \<Rightarrow> (string \<times> 'm registered_scheme) list \<Rightarrow> (unit, unit, 'm) jwt_lib" where
  "table_lib k0 tbl =
     \<lparr>jl_numeric_date = (\<lambda>t. t div nanos * nanos), jl_public = id, jl_exact = (\<lambda>_. True),
      jl_sign = (\<lambda>kid k c. if kid = k0 then map_option fst (find (\<lambda>(t, d). d = c) tbl) else None),
      jl_kid = (\<lambda>tok. if map_of tbl tok \<noteq> None then k0 else []),
      jl_sig = (\<lambda>p tok. map_of tbl tok \<noteq> None),
      jl_claims = map_of tbl,
      jl_parse = (\<lambda>kf iss aud now tok.
        case map_of tbl tok of
          None \<Rightarrow> Inl Malformed
        | Some c \<Rightarrow> (case kf k0 of Inl e \<Rightarrow> Inl (KeyError e)
             | Inr p \<Rightarrow> if claims_current iss aud now c then Inr c else Inl BadClaims))\<rparr>"

lemma table_laws:
  assumes "distinct (map fst tbl)"
  shows "jwt_laws (table_lib k0 tbl)"
proof -
  have found: "map_of tbl t = Some c" if "find (\<lambda>(t, d). d = c) tbl = Some (t, d)" for t d c
    using that assms by (auto simp: find_Some_iff map_of_eq_Some_iff) (metis nth_mem)
  show ?thesis
    unfolding jwt_laws_def
    by (auto simp: whole_seconds table_lib_def jwt_accepts_def dest: found split: sum.splits option.splits if_splits)
qed

end
