(* ===== verification/Tokens.thy ===== *)
theory Tokens
  imports Delegation Jwt
begin

text \<open>
  The second half of \<open>internal/delegation/delegation.go\<close>: the claims of a composite delegation token,
  the signer that mints one for a grant, the resource-server verifier, and the decision point
  \<open>DelegationClaims.Authorize\<close>. The JWT library is the \<open>jwt_lib\<close> of theory \<open>Jwt\<close>; the token id comes
  from \<open>crypto/rand\<close> and is an argument (\<^const>\<open>None\<close> when the read fails).

  The properties take a token from the grant to the decision: what a signer mints for a built grant
  verifies to the attenuated scopes, the grant's constraints and its actor chain, and whatever such a
  token authorizes, every ancestor of the grant allows.
\<close>

section \<open>Claims\<close>

datatype act_claim = ActClaim (ac_sub: string) (ac_act: "act_claim option")

record claims = registered +
  cl_scope :: string
  cl_act :: "act_claim option"
  cl_constraints :: "constraints option"

type_synonym ('k, 'p) delegation_jwt =
  "('k, 'p, \<lparr>cl_scope :: string, cl_act :: act_claim option, cl_constraints :: constraints option\<rparr>) jwt_lib"

section \<open>Signer\<close>

record 'k signer =
  sg_issuer :: string
  sg_kid :: string
  sg_key :: 'k

datatype issue_error =
    NoEffectiveScopes "string list" "string list"
  | AudienceNotPermitted string constraints
  | RandomFailed
  | SignFailed

text \<open>The loop that nests the \<open>act\<close> claims, root first, so the leaf ends up on top.\<close>

fun nest_actors :: "act_claim option \<Rightarrow> string list \<Rightarrow> act_claim option" where
  "nest_actors act [] = act"
| "nest_actors act (a # as) = nest_actors (Some (ActClaim a act)) as"

definition token_claims ::
    "('k, 'p) delegation_jwt \<Rightarrow> 'k signer \<Rightarrow> string \<Rightarrow> act_claim option \<Rightarrow> string list \<Rightarrow> string
       \<Rightarrow> constraints option \<Rightarrow> instant \<Rightarrow> instant \<Rightarrow> string \<Rightarrow> claims" where
  "token_claims lib s subject act scopes aud cn ex now jti =
     \<lparr>rc_iss = sg_issuer s, rc_sub = subject, rc_aud = [aud],
      rc_exp = Some (jl_numeric_date lib ex), rc_nbf = None, rc_iat = Some (jl_numeric_date lib now),
      rc_jti = jti, cl_scope = join '' '' scopes, cl_act = act, cl_constraints = cn\<rparr>"

definition sign_claims :: "('k, 'p) delegation_jwt \<Rightarrow> 'k signer \<Rightarrow> claims \<Rightarrow> issue_error + string" where
  "sign_claims lib s c =
     (case jl_sign lib (sg_kid s) (sg_key s) c of None \<Rightarrow> Inl SignFailed | Some tok \<Rightarrow> Inr tok)"

text \<open>\<open>Signer.IssueForGrant\<close>; \<open>rnd\<close> is what \<open>RandomHex(16)\<close> returns.\<close>

definition issue_for_grant ::
    "('k, 'p) delegation_jwt \<Rightarrow> 'k signer \<Rightarrow> string option \<Rightarrow> grant \<Rightarrow> string list \<Rightarrow> string \<Rightarrow> instant
       \<Rightarrow> issue_error + string" where
  "issue_for_grant lib s rnd g requested aud now =
     (let effective = effective_scopes g requested in
      if effective = [] then Inl (NoEffectiveScopes requested (g_scopes g))
      else if cn_resources (g_constraints g) \<noteq> [] \<and> \<not> contains (cn_resources (g_constraints g)) aud
      then Inl (AudienceNotPermitted aud (g_constraints g))
      else let act = nest_actors None (actor_chain_root_to_leaf g)
           in case rnd of
                None \<Rightarrow> Inl RandomFailed
              | Some jti \<Rightarrow>
                  sign_claims lib s (token_claims lib s (root_delegator g) act effective aud
                    (Some (g_constraints g)) (g_expires_at g) now jti))"

text \<open>\<open>Signer.IssueClaims\<close>.\<close>

definition issue_claims ::
    "('k, 'p) delegation_jwt \<Rightarrow> 'k signer \<Rightarrow> string option \<Rightarrow> string \<Rightarrow> act_claim option \<Rightarrow> string list
       \<Rightarrow> string \<Rightarrow> constraints option \<Rightarrow> instant \<Rightarrow> instant \<Rightarrow> issue_error + string" where
  "issue_claims lib s rnd subject act scopes aud cn ex now =
     (case rnd of
        None \<Rightarrow> Inl RandomFailed
      | Some jti \<Rightarrow> sign_claims lib s (token_claims lib s subject act scopes aud cn ex now jti))"

section \<open>Verifier\<close>

record 'p verifier =
  vf_issuer :: string
  vf_keys :: "string \<rightharpoonup> 'p"

definition new_single_key_verifier :: "string \<Rightarrow> string \<Rightarrow> 'p \<Rightarrow> 'p verifier" where
  "new_single_key_verifier iss kid pub = \<lparr>vf_issuer = iss, vf_keys = [kid \<mapsto> pub]\<rparr>"

definition verify ::
    "('k, 'p) delegation_jwt \<Rightarrow> 'p verifier \<Rightarrow> instant \<Rightarrow> string \<Rightarrow> string \<Rightarrow> jwt_error + claims" where
  "verify lib v now tok expected_aud =
     jl_parse lib (key_func (vf_keys v)) (vf_issuer v) (Some expected_aud) now tok"

definition verify_any ::
    "('k, 'p) delegation_jwt \<Rightarrow> 'p verifier \<Rightarrow> instant \<Rightarrow> string \<Rightarrow> jwt_error + claims" where
  "verify_any lib v now tok = jl_parse lib (key_func (vf_keys v)) (vf_issuer v) None now tok"

section \<open>The decision point\<close>

definition authorize :: "tzdb \<Rightarrow> instant \<Rightarrow> claims \<Rightarrow> action \<Rightarrow> deny option" where
  "authorize tzdb now c a =
     (if \<not> has_scope (cl_scope c) (ac_scope a) then Some (MissingScope (ac_scope a) (cl_scope c))
      else case cl_constraints c of None \<Rightarrow> None | Some cn \<Rightarrow> permit tzdb now cn a)"

fun act_chain :: "act_claim option \<Rightarrow> string list" where
  "act_chain None = []"
| "act_chain (Some (ActClaim s a)) = s # act_chain a"

definition actor_chain :: "claims \<Rightarrow> string list" where
  "actor_chain c = act_chain (cl_act c)"

definition arrow :: string where
  "arrow = '' -> ''"

definition provenance :: "claims \<Rightarrow> string" where
  "provenance c = join arrow (rc_sub c # rev (actor_chain c))"

section \<open>Lemmas\<close>

lemma act_chain_nest: "act_chain (nest_actors act as) = rev as @ act_chain act"
  by (induction as arbitrary: act) auto

lemma effective_scopes_eq: "effective_scopes g req = filter (\<lambda>s. s \<in> set (g_scopes g)) req"
  by (simp add: effective_scopes_def attenuate_eq)

lemma authorize_None_iff:
  "authorize tzdb now c a = None \<longleftrightarrow>
     ac_scope a \<in> set (go_fields (cl_scope c)) \<and>
     (\<forall>cn. cl_constraints c = Some cn \<longrightarrow> permit tzdb now cn a = None)"
  by (auto simp: authorize_def has_scope_def split: option.splits)

text \<open>The claims a successful \<open>IssueForGrant\<close> signs.\<close>

definition grant_claims ::
    "('k, 'p) delegation_jwt \<Rightarrow> 'k signer \<Rightarrow> string \<Rightarrow> grant \<Rightarrow> string list \<Rightarrow> string \<Rightarrow> instant \<Rightarrow> claims" where
  "grant_claims lib s jti g requested aud now =
     token_claims lib s (root_delegator g) (nest_actors None (actor_chain_root_to_leaf g))
       (effective_scopes g requested) aud (Some (g_constraints g)) (g_expires_at g) now jti"

lemma issue_for_grant_Inr_iff:
  "issue_for_grant lib s rnd g requested aud now = Inr tok \<longleftrightarrow>
     effective_scopes g requested \<noteq> [] \<and>
     (cn_resources (g_constraints g) = [] \<or> aud \<in> set (cn_resources (g_constraints g))) \<and>
     (\<exists>jti. rnd = Some jti \<and>
        jl_sign lib (sg_kid s) (sg_key s) (grant_claims lib s jti g requested aud now) = Some tok)"
  by (auto simp: issue_for_grant_def Let_def sign_claims_def grant_claims_def split: option.splits)

lemma verify_iff:
  "jwt_laws lib \<Longrightarrow> vf_issuer v \<noteq> [] \<Longrightarrow> aud \<noteq> [] \<Longrightarrow>
   verify lib v now tok aud = Inr c \<longleftrightarrow>
     (\<exists>p. jl_kid lib tok \<noteq> [] \<and> vf_keys v (jl_kid lib tok) = Some p \<and> jl_sig lib p tok)
   \<and> jl_claims lib tok = Some c \<and> claims_current (vf_issuer v) (Some aud) now c"
  by (simp add: verify_def jwt_parse_iff accepts_key_func)

lemma verify_any_iff:
  "jwt_laws lib \<Longrightarrow> vf_issuer v \<noteq> [] \<Longrightarrow>
   verify_any lib v now tok = Inr c \<longleftrightarrow>
     (\<exists>p. jl_kid lib tok \<noteq> [] \<and> vf_keys v (jl_kid lib tok) = Some p \<and> jl_sig lib p tok)
   \<and> jl_claims lib tok = Some c \<and> claims_current (vf_issuer v) None now c"
  by (simp add: verify_any_def jwt_parse_iff accepts_key_func)

lemma grant_claims_scopes:
  "\<forall>w \<in> set requested. solid w \<Longrightarrow>
   go_fields (cl_scope (grant_claims lib s jti g requested aud now)) = effective_scopes g requested"
  by (simp add: grant_claims_def token_claims_def fields_join effective_scopes_eq)

lemma grant_claims_chain:
  "actor_chain (grant_claims lib s jti g requested aud now) = rev (actor_chain_root_to_leaf g)"
  by (simp add: grant_claims_def token_claims_def actor_chain_def act_chain_nest)

text \<open>A token the signer minted for a grant carries that grant's claims, whatever verifies it.\<close>

lemma minted_claims:
  assumes "jwt_laws lib" and "vf_issuer v \<noteq> []" and "aud' \<noteq> []"
    and "\<And>jti. jl_exact lib (grant_claims lib s jti g requested aud now)"
    and "issue_for_grant lib s rnd g requested aud now = Inr tok"
    and "verify lib v now' tok aud' = Inr c"
  obtains jti where "rnd = Some jti" and "c = grant_claims lib s jti g requested aud now" and "aud' = aud"
proof -
  from assms(5) obtain jti where jti: "rnd = Some jti"
    "jl_sign lib (sg_kid s) (sg_key s) (grant_claims lib s jti g requested aud now) = Some tok"
    by (auto simp: issue_for_grant_Inr_iff)
  with assms(1,4) have "jl_claims lib tok = Some (grant_claims lib s jti g requested aud now)"
    by (auto dest: jwt_sign)
  with assms have "c = grant_claims lib s jti g requested aud now" "aud' \<in> set (rc_aud c)"
    by (auto simp: verify_iff claims_current_def)
  with jti that show thesis by (auto simp: grant_claims_def token_claims_def)
qed

section \<open>Properties\<close>

text \<open>
  C20: a delegation token survives the trip. A token \<open>IssueForGrant\<close> mints for a grant is accepted by
  every verifier that holds the signer's public key under its \<open>kid\<close> and the signer's issuer, for the
  audience it was minted for, until the grant expires (to the precision of a numeric date); and the
  claims it reads back name the human who granted, exactly the requested scopes the grant holds, in the
  order of the request, the grant's constraints, and the grant's actors, most recent first.
\<close>

theorem issued_token_verifies:
  assumes "jwt_laws lib" and "sg_issuer s \<noteq> []" and "sg_kid s \<noteq> []" and "aud \<noteq> []"
    and "\<And>jti. jl_exact lib (grant_claims lib s jti g requested aud now)"
    and "\<forall>w \<in> set requested. solid w"
    and "issue_for_grant lib s rnd g requested aud now = Inr tok"
    and "vf_issuer v = sg_issuer s" and "vf_keys v (sg_kid s) = Some (jl_public lib (sg_key s))"
    and "now' < jl_numeric_date lib (g_expires_at g)"
  shows "\<exists>c. verify lib v now' tok aud = Inr c \<and> rc_sub c = root_delegator g \<and>
             go_fields (cl_scope c) = filter (\<lambda>w. w \<in> set (g_scopes g)) requested \<and>
             cl_constraints c = Some (g_constraints g) \<and>
             actor_chain c = rev (actor_chain_root_to_leaf g) \<and>
             provenance c = join arrow (root_delegator g # actor_chain_root_to_leaf g)"
proof -
  from assms(7) obtain jti where
    sign: "jl_sign lib (sg_kid s) (sg_key s) (grant_claims lib s jti g requested aud now) = Some tok"
    by (auto simp: issue_for_grant_Inr_iff)
  let ?c = "grant_claims lib s jti g requested aud now"
  have "claims_current (sg_issuer s) (Some aud) now' ?c"
    using assms(10) by (simp add: claims_current_def grant_claims_def token_claims_def)
  with jwt_sign [OF assms(1,5) sign] assms have "verify lib v now' tok aud = Inr ?c"
    by (simp add: verify_iff)
  moreover have "rc_sub ?c = root_delegator g" "cl_constraints ?c = Some (g_constraints g)"
    by (simp_all add: grant_claims_def token_claims_def)
  ultimately show ?thesis
    using grant_claims_scopes [OF assms(6)] grant_claims_chain [of lib s jti g requested aud now]
    by (auto simp: effective_scopes_eq provenance_def)
qed

text \<open>
  C3: a token never authorizes more than any link of its chain allows. If a token minted for a built
  grant verifies and \<open>Authorize\<close> accepts an action under it, then every ancestor of the grant, up to
  the human's, holds the scope the action requires, permits the action and has not expired.
\<close>

theorem authorized_within_chain:
  assumes "jwt_laws lib" and "vf_issuer v \<noteq> []" and "aud' \<noteq> []"
    and "\<And>jti. jl_exact lib (grant_claims lib s jti g requested aud now)"
    and "\<forall>w \<in> set requested. solid w"
    and "derived m g"
    and "issue_for_grant lib s rnd g requested aud now = Inr tok"
    and "verify lib v now' tok aud' = Inr c"
    and "authorize tzdb now' c a = None"
    and "h \<in> set (g # ancestors g)"
  shows "ac_scope a \<in> set (g_scopes h) \<and> permit tzdb now' (g_constraints h) a = None \<and>
         now' < g_expires_at h \<and> rc_sub c = root_delegator h"
proof -
  obtain jti where c: "c = grant_claims lib s jti g requested aud now"
    by (rule minted_claims [OF assms(1-4,7,8)])
  have cn: "cl_constraints c = Some (g_constraints g)" "rc_sub c = root_delegator g"
    "rc_exp c = Some (jl_numeric_date lib (g_expires_at g))"
    by (simp_all add: c grant_claims_def token_claims_def)
  have "now' < jl_numeric_date lib (g_expires_at g)"
    using assms(1-3,8) cn(3) by (auto simp: verify_iff claims_current_def)
  then have ex: "now' < g_expires_at g"
    using jwt_numeric_date [OF assms(1)] by (rule less_le_trans)
  have "ac_scope a \<in> set (g_scopes g)" "permit tzdb now' (g_constraints g) a = None"
    using assms(9) cn(1) by (auto simp: authorize_None_iff c grant_claims_scopes [OF assms(5)] effective_scopes_eq)
  with cn(2) ex show ?thesis
    using assms(10) derived_bound [OF assms(6), of h] by auto
qed

text \<open>
  Verification fails closed on keys. A token whose header names no key, or names a key the
  verifier does not hold (one that was retired, for instance), is rejected by \<open>Verify\<close> and by
  \<open>VerifyAny\<close>; and what \<open>Verify\<close> accepts, \<open>VerifyAny\<close> accepts with the same claims.
\<close>

theorem verify_fails_closed:
  assumes "jwt_laws lib" and "vf_issuer v \<noteq> []" and "aud \<noteq> []"
  shows "(jl_kid lib tok = [] \<or> vf_keys v (jl_kid lib tok) = None \<longrightarrow>
            (\<forall>c. verify lib v now tok aud \<noteq> Inr c \<and> verify_any lib v now tok \<noteq> Inr c)) \<and>
         (\<forall>c. verify lib v now tok aud = Inr c \<longleftrightarrow>
              verify_any lib v now tok = Inr c \<and> aud \<in> set (rc_aud c))"
  using assms by (auto simp: verify_iff verify_any_iff claims_current_def)

definition sample_claims :: claims where
  "sample_claims = \<lparr>rc_iss = ''https://legant'', rc_sub = ''user:alice'', rc_aud = [''api''],
     rc_exp = Some (50 * nanos), rc_nbf = None, rc_iat = Some 0, rc_jti = ''j1'', cl_scope = ''pay'',
     cl_act = Some (ActClaim ''agent:b'' (Some (ActClaim ''agent:a'' None))),
     cl_constraints = Some (tighten sample_parent sample_child)\<rparr>"

definition sample_lib :: "(unit, unit) delegation_jwt" where
  "sample_lib = one_token_lib ''k1'' sample_claims ''tok''"

definition sample_signer :: "unit signer" where
  "sample_signer = \<lparr>sg_issuer = ''https://legant'', sg_kid = ''k1'', sg_key = ()\<rparr>"

definition sample_verifier :: "unit verifier" where
  "sample_verifier = new_single_key_verifier ''https://legant'' ''k1'' ()"

lemma sample_laws: "jwt_laws sample_lib"
  by (simp add: sample_lib_def one_token_laws)

lemma sample_exact: "jl_exact sample_lib c"
  by (simp add: sample_lib_def one_token_lib_def)

lemma sample_grant_claims:
  "grant_claims sample_lib sample_signer ''j1'' sample_leaf [''read'', ''pay''] ''api'' 0 = sample_claims"
  by (simp add: grant_claims_def token_claims_def sample_claims_def sample_lib_def one_token_lib_def
      sample_signer_def sample_leaf_def sample_root_def new_root_grant_def effective_scopes_eq
      actor_chain_root_to_leaf_def nanos_def)

lemma sample_issued:
  "issue_for_grant sample_lib sample_signer (Some ''j1'') sample_leaf [''read'', ''pay''] ''api'' 0 = Inr ''tok''"
  unfolding issue_for_grant_Inr_iff using sample_grant_claims
  by (simp add: sample_lib_def one_token_lib_def sample_signer_def sample_leaf_def effective_scopes_eq
      tighten_def sample_defs)

lemma sample_solid: "\<forall>w \<in> set [''read'', ''pay'']. solid w"
  by (simp add: solid_def space_len_def ascii_spaces_def wide_spaces_def has_prefix_def)

theorem issued_token_verifies_witness:
  "\<exists>c. verify sample_lib sample_verifier 0 ''tok'' ''api'' = Inr c \<and> go_fields (cl_scope c) = [''pay'']
       \<and> provenance c = ''user:alice -> agent:a -> agent:b''"
proof -
  have "\<exists>c. verify sample_lib sample_verifier 0 ''tok'' ''api'' = Inr c \<and> rc_sub c = root_delegator sample_leaf \<and>
     go_fields (cl_scope c) = filter (\<lambda>w. w \<in> set (g_scopes sample_leaf)) [''read'', ''pay''] \<and>
     cl_constraints c = Some (g_constraints sample_leaf) \<and>
     actor_chain c = rev (actor_chain_root_to_leaf sample_leaf) \<and>
     provenance c = join arrow (root_delegator sample_leaf # actor_chain_root_to_leaf sample_leaf)"
    by (rule issued_token_verifies [OF sample_laws _ _ _ sample_exact sample_solid sample_issued])
       (simp_all add: sample_signer_def sample_verifier_def new_single_key_verifier_def sample_lib_def
          one_token_lib_def sample_leaf_def nanos_def)
  then show ?thesis
    by (auto simp: sample_leaf_def sample_root_def new_root_grant_def actor_chain_root_to_leaf_def arrow_def)
qed

lemma sample_verified: "verify sample_lib sample_verifier 0 ''tok'' ''api'' = Inr sample_claims"
  by (simp add: verify_def key_func_def sample_verifier_def new_single_key_verifier_def sample_lib_def
      one_token_lib_def claims_current_def sample_claims_def nanos_def)

theorem authorized_within_chain_witness:
  "permit utc_only 0 sample_parent sample_action = None \<and> ''pay'' \<in> set (g_scopes sample_root)"
proof -
  have auth: "authorize utc_only 0 sample_claims sample_action = None"
    unfolding authorize_None_iff using sample_permits
    by (simp add: sample_claims_def sample_action_def go_fields_def space_len_def ascii_spaces_def
        wide_spaces_def has_prefix_def)
  have "ac_scope sample_action \<in> set (g_scopes sample_root) \<and>
      permit utc_only 0 (g_constraints sample_root) sample_action = None \<and>
      0 < g_expires_at sample_root \<and> rc_sub sample_claims = root_delegator sample_root"
    by (rule authorized_within_chain [OF sample_laws _ _ sample_exact sample_solid sample_derived
          sample_issued sample_verified auth])
       (simp_all add: sample_verifier_def new_single_key_verifier_def sample_leaf_def)
  then show ?thesis by (simp add: sample_root_def new_root_grant_def sample_action_def)
qed

theorem verify_fails_closed_witness:
  "\<forall>c. verify sample_lib \<lparr>vf_issuer = ''https://legant'', vf_keys = (\<lambda>_. None)\<rparr> 0 ''tok'' ''api'' \<noteq> Inr c"
  using verify_fails_closed [OF sample_laws, of "\<lparr>vf_issuer = ''https://legant'', vf_keys = (\<lambda>_. None)\<rparr>" "''api''"]
  by simp

end
