(* ===== verification/Store.thy ===== *)
theory Store
  imports Tokens
begin

text \<open>
  The tables the issuer keeps in Postgres, as far as delegations and the tokens minted from them go, and
  the revocation store over them (\<open>internal/revocation/store.go\<close>): every minted token has a row, and a
  token counts as active only while its row exists, is not revoked and has not expired.

  A table is the list of its rows, and a query its meaning on that list. What Postgres adds is written
  out where the code depends on it: a primary key refuses a second row, \<open>gen_random_uuid()\<close> is an
  argument, \<open>now()\<close> and \<open>time.Now()\<close> within one call are the same reading of the clock, a transaction
  that fails changes nothing. The effects on the metrics registry and the live console are appended to
  a log.
\<close>

section \<open>Tables\<close>

text \<open>
  A stored constraint set: what \<open>json.Unmarshal\<close> leaves in the struct, and whether it succeeded (on a
  type mismatch it decodes the rest and returns an error).
\<close>

record stored_constraints =
  sc_decoded :: constraints
  sc_ok :: bool

record delegation_row =
  dr_id :: string
  dr_delegator_type :: string
  dr_delegator :: string
  dr_delegatee :: string
  dr_scopes :: "string list"
  dr_constraints :: stored_constraints
  dr_active :: bool
  dr_created_at :: instant
  dr_expires_at :: "instant option"
  dr_org :: "string option"
  dr_consent :: "string option"
  dr_parent :: "string option"
  dr_depth :: int

record token_row =
  tr_jti :: string
  tr_delegation :: "string option"
  tr_subject :: string
  tr_agent :: "string option"
  tr_actor_chain :: "string list"
  tr_audience :: string
  tr_scopes :: "string list"
  tr_issued_at :: instant
  tr_expires_at :: instant
  tr_revoked_at :: "instant option"

record user_row =
  us_id :: string
  us_superadmin :: bool
  us_status :: string

record member_row =
  me_user :: string
  me_org :: string
  me_role :: string

text \<open>\<open>metadata\<close> and \<open>permissions\<close> are kept as the JSON text of the column.\<close>

record agent_row =
  ag_id :: string
  ag_org :: "string option"
  ag_name :: string
  ag_description :: string
  ag_type :: string
  ag_owner :: "string option"
  ag_status :: string
  ag_metadata :: string
  ag_created_at :: instant
  ag_updated_at :: instant

record agent_token_row =
  at_id :: string
  at_agent :: string
  at_hash :: string
  at_name :: string
  at_scopes :: "string list"
  at_permissions :: string
  at_expires_at :: "instant option"
  at_last_used :: "instant option"
  at_created_at :: instant

record consent_row =
  co_id :: string
  co_user :: string
  co_agent :: string
  co_org :: "string option"
  co_scopes :: "string list"
  co_constraints :: stored_constraints
  co_resource :: string

record audit_entry =
  ae_actor_type :: string
  ae_actor :: string
  ae_action :: string
  ae_resource :: string
  ae_subject :: string
  ae_actor_chain :: "string list"
  ae_delegation :: "string option"
  ae_jti :: string
  ae_org :: "string option"
  ae_metadata :: string

record live_event =
  le_type :: string
  le_decision :: string
  le_subject :: string
  le_actor :: string
  le_provenance :: string
  le_tool :: string
  le_upstream :: string
  le_delegation :: string
  le_reason :: string
  le_count :: int

definition no_event :: live_event where
  "no_event = \<lparr>le_type = [], le_decision = [], le_subject = [], le_actor = [], le_provenance = [], le_tool = [],
     le_upstream = [], le_delegation = [], le_reason = [], le_count = 0\<rparr>"

datatype side_effect = Metric string string int | Publish live_event

record db =
  db_users :: "user_row list"
  db_members :: "member_row list"
  db_agents :: "agent_row list"
  db_agent_tokens :: "agent_token_row list"
  db_consents :: "consent_row list"
  db_delegations :: "delegation_row list"
  db_tokens :: "token_row list"
  db_audit :: "audit_entry list"
  db_feed_version :: int
  db_effects :: "side_effect list"

text \<open>The condition \<open>expires_at IS NULL OR expires_at > now()\<close>.\<close>

definition not_expired :: "instant \<Rightarrow> instant option \<Rightarrow> bool" where
  "not_expired now x = (case x of None \<Rightarrow> True | Some e \<Rightarrow> e > now)"

section \<open>The revocation store\<close>

record token_record =
  re_jti :: string
  re_delegation :: "string option"
  re_subject :: string
  re_agent :: "string option"
  re_actor_chain :: "string list"
  re_audience :: string
  re_scopes :: "string list"
  re_expires_at :: instant

definition emit :: "side_effect list \<Rightarrow> db \<Rightarrow> db" where
  "emit es s = s\<lparr>db_effects := db_effects s @ es\<rparr>"

text \<open>\<open>Store.RecordTx\<close>: \<^const>\<open>None\<close> when the insert fails on the primary key.\<close>

definition record_tx :: "instant \<Rightarrow> token_record \<Rightarrow> db \<Rightarrow> db option" where
  "record_tx now r s =
     (if re_jti r \<in> tr_jti ` set (db_tokens s) then None
      else Some (s\<lparr>db_tokens := db_tokens s @
             [\<lparr>tr_jti = re_jti r, tr_delegation = re_delegation r, tr_subject = re_subject r,
               tr_agent = re_agent r, tr_actor_chain = re_actor_chain r, tr_audience = re_audience r,
               tr_scopes = re_scopes r, tr_issued_at = now, tr_expires_at = re_expires_at r,
               tr_revoked_at = None\<rparr>]\<rparr>))"

text \<open>\<open>Store.IsActive\<close>; \<open>up\<close> says whether the query reaches the database.\<close>

datatype query_error = QueryFailed

definition is_active :: "bool \<Rightarrow> instant \<Rightarrow> db \<Rightarrow> string \<Rightarrow> query_error + bool" where
  "is_active up now s jti =
     (if \<not> up then Inl QueryFailed
      else case find (\<lambda>r. tr_jti r = jti) (db_tokens s) of
             None \<Rightarrow> Inr False
           | Some r \<Rightarrow> if tr_revoked_at r \<noteq> None \<or> now > tr_expires_at r then Inr False else Inr True)"

definition mark_revoked :: "(token_row \<Rightarrow> bool) \<Rightarrow> instant \<Rightarrow> db \<Rightarrow> int \<times> db" where
  "mark_revoked sel now s =
     (let hit = (\<lambda>r. sel r \<and> tr_revoked_at r = None)
      in (int (length (filter hit (db_tokens s))),
          s\<lparr>db_tokens := map (\<lambda>r. if hit r then r\<lparr>tr_revoked_at := Some now\<rparr> else r) (db_tokens s)\<rparr>))"

definition revoke_token :: "instant \<Rightarrow> string \<Rightarrow> db \<Rightarrow> int \<times> db" where
  "revoke_token now jti s =
     (let (n, s') = mark_revoked (\<lambda>r. tr_jti r = jti) now s
      in (n, if n > 0
             then emit [Metric ''revocations'' ''token'' n,
                        Publish (no_event\<lparr>le_type := ''revoke'', le_decision := ''REVOKE'',
                          le_reason := ''token revoked'', le_count := n\<rparr>)] s'
             else s'))"

definition revoke_by_delegation :: "instant \<Rightarrow> string \<Rightarrow> db \<Rightarrow> int \<times> db" where
  "revoke_by_delegation now did s =
     (let (n, s') = mark_revoked (\<lambda>r. tr_delegation r = Some did) now s
      in (n, if n > 0
             then emit [Metric ''revocations'' ''delegation'' n,
                        Publish (no_event\<lparr>le_type := ''revoke'', le_decision := ''REVOKE'',
                          le_delegation := did, le_reason := ''delegation revoked'', le_count := n\<rparr>)] s'
             else s'))"

section \<open>What the operations do to the table of tokens\<close>

text \<open>
  Every statement of the program that writes the table: the insert of an exchange, with a \<open>jti\<close> of \<open>J\<close>;
  the two revocations of this file; the UPDATE of a tree revocation, which marks any set of rows; the
  retention sweep, whose cutoff lies before \<open>hi\<close>. Nothing else writes it or draws a feed version, whatever
  it does to the other tables.
\<close>

definition prune_tokens :: "instant \<Rightarrow> db \<Rightarrow> db" where
  "prune_tokens cutoff s = s\<lparr>db_tokens := filter (\<lambda>t. \<not> tr_expires_at t < cutoff) (db_tokens s)\<rparr>"

inductive token_step :: "string set \<Rightarrow> instant \<Rightarrow> db \<Rightarrow> db \<Rightarrow> bool" for J hi where
  minted: "re_jti r \<in> J \<Longrightarrow> record_tx now r s = Some t \<Longrightarrow> token_step J hi s t"
| revoke: "token_step J hi s (snd (revoke_token now jti s))"
| revoke_delegation: "token_step J hi s (snd (revoke_by_delegation now did s))"
| marks: "token_step J hi s (snd (mark_revoked sel now s))"
| pruned: "cutoff \<le> hi \<Longrightarrow> token_step J hi s (prune_tokens cutoff s)"
| elsewhere: "db_tokens t = db_tokens s \<Longrightarrow> db_feed_version t = db_feed_version s \<Longrightarrow> token_step J hi s t"

lemma mark_revoked_tokens:
  "db_tokens (snd (mark_revoked sel now s)) =
     map (\<lambda>r. if sel r \<and> tr_revoked_at r = None then r\<lparr>tr_revoked_at := Some now\<rparr> else r) (db_tokens s)"
  by (simp add: mark_revoked_def Let_def)

lemma mark_revoked_frame [simp]:
  "db_delegations (snd (mark_revoked sel now s)) = db_delegations s"
  "db_agents (snd (mark_revoked sel now s)) = db_agents s"
  "db_users (snd (mark_revoked sel now s)) = db_users s"
  "db_effects (snd (mark_revoked sel now s)) = db_effects s"
  "db_feed_version (snd (mark_revoked sel now s)) = db_feed_version s"
  by (simp_all add: mark_revoked_def Let_def)

lemma mark_revoked_count:
  "fst (mark_revoked sel now s) = int (length (filter (\<lambda>r. sel r \<and> tr_revoked_at r = None) (db_tokens s)))"
  by (simp add: mark_revoked_def Let_def)

lemma emit_frame [simp]:
  "db_tokens (emit es s) = db_tokens s" "db_delegations (emit es s) = db_delegations s"
  "db_agents (emit es s) = db_agents s" "db_users (emit es s) = db_users s"
  "db_feed_version (emit es s) = db_feed_version s" "db_audit (emit es s) = db_audit s"
  by (simp_all add: emit_def)

lemma revoke_token_tokens:
  "db_tokens (snd (revoke_token now jti s)) =
     map (\<lambda>r. if tr_jti r = jti \<and> tr_revoked_at r = None then r\<lparr>tr_revoked_at := Some now\<rparr> else r) (db_tokens s)"
  using mark_revoked_tokens [of "\<lambda>r. tr_jti r = jti" now s]
  by (auto simp: revoke_token_def Let_def split: prod.splits)

lemma revoke_by_delegation_tokens:
  "db_tokens (snd (revoke_by_delegation now did s)) =
     map (\<lambda>r. if tr_delegation r = Some did \<and> tr_revoked_at r = None then r\<lparr>tr_revoked_at := Some now\<rparr> else r)
       (db_tokens s)"
  using mark_revoked_tokens [of "\<lambda>r. tr_delegation r = Some did" now s]
  by (auto simp: revoke_by_delegation_def Let_def split: prod.splits)

text \<open>A token is dead when every row of it is revoked, and no new token gets its id.\<close>

definition dead :: "string set \<Rightarrow> string \<Rightarrow> db \<Rightarrow> bool" where
  "dead J jti s \<longleftrightarrow> jti \<notin> J \<and> (\<forall>r \<in> set (db_tokens s). tr_jti r = jti \<longrightarrow> tr_revoked_at r \<noteq> None)"

lemma dead_step: "token_step J hi s t \<Longrightarrow> dead J jti s \<Longrightarrow> dead J jti t"
  by (induction rule: token_step.induct)
     (auto simp: dead_def record_tx_def revoke_token_tokens revoke_by_delegation_tokens mark_revoked_tokens prune_tokens_def
       split: if_splits)

interpretation dead: one_way "token_step J hi" "dead J jti" for J hi jti
  by unfold_locales (rule dead_step)

lemma is_active_iff:
  "is_active True now s jti = Inr True \<longleftrightarrow>
     (\<exists>r. find (\<lambda>r. tr_jti r = jti) (db_tokens s) = Some r \<and> tr_revoked_at r = None \<and> now \<le> tr_expires_at r)"
  by (auto simp: is_active_def split: option.splits)

lemma dead_inactive: "dead J jti s \<Longrightarrow> is_active up now s jti \<noteq> Inr True"
  by (auto simp: dead_def is_active_def find_Some_iff split: option.splits dest: nth_mem)

lemma revoke_token_jtis:
  "map tr_jti (db_tokens (snd (revoke_token now jti s))) = map tr_jti (db_tokens s)"
  by (simp add: revoke_token_tokens)

lemma revoked_marks:
  "\<forall>r \<in> set (db_tokens (snd (revoke_token now jti s))). tr_jti r = jti \<longrightarrow> tr_revoked_at r \<noteq> None"
proof -
  have "tr_jti (if tr_jti r = jti \<and> tr_revoked_at r = None then r\<lparr>tr_revoked_at := Some now\<rparr> else r) = jti \<longrightarrow>
      tr_revoked_at (if tr_jti r = jti \<and> tr_revoked_at r = None then r\<lparr>tr_revoked_at := Some now\<rparr> else r) \<noteq> None" for r
    by (cases "tr_jti r = jti") simp_all
  then show ?thesis by (simp only: revoke_token_tokens set_map ball_simps) blast
qed

lemma revoke_token_dead: "jti \<notin> J \<Longrightarrow> dead J jti (snd (revoke_token now jti s))"
  using revoked_marks by (simp only: dead_def not_False_eq_True simp_thms)

lemma filter_map_other:
  "(\<And>x. P (f x) = P x) \<Longrightarrow> (\<And>x. P x \<Longrightarrow> f x = x) \<Longrightarrow> filter P (map f xs) = filter P xs"
  by (induction xs) auto

lemma revoke_token_count:
  "fst (revoke_token now jti s) = int (length (filter (\<lambda>r. tr_jti r = jti \<and> tr_revoked_at r = None) (db_tokens s)))"
  using mark_revoked_count [of "\<lambda>r. tr_jti r = jti" now s]
  by (auto simp: revoke_token_def Let_def split: prod.splits)

lemma revoke_by_delegation_count:
  "fst (revoke_by_delegation now did s) =
     int (length (filter (\<lambda>r. tr_delegation r = Some did \<and> tr_revoked_at r = None) (db_tokens s)))"
  using mark_revoked_count [of "\<lambda>r. tr_delegation r = Some did" now s]
  by (auto simp: revoke_by_delegation_def Let_def split: prod.splits)

lemma mark_revoked_none:
  "\<forall>r \<in> set (db_tokens s). \<not> (sel r \<and> tr_revoked_at r = None) \<Longrightarrow> mark_revoked sel now s = (0, s)"
  by (simp add: mark_revoked_def Let_def filter_empty_conv map_idI)

lemma revoke_token_again:
  "revoke_token later jti (snd (revoke_token now jti s)) = (0, snd (revoke_token now jti s))"
proof -
  have "mark_revoked (\<lambda>r. tr_jti r = jti) later (snd (revoke_token now jti s)) =
      (0, snd (revoke_token now jti s))"
    using revoked_marks by (intro mark_revoked_none) blast
  then show ?thesis by (simp add: revoke_token_def [of later])
qed

section \<open>Properties\<close>

text \<open>
  revocation is final. After \<open>Revoke\<close> of a token, no sequence of later operations on the table, at any
  times, makes \<open>IsActive\<close> answer true for it again, whether the query succeeds or not: other tokens
  minted, delegations and trees revoked, rows pruned. The ids of tokens are random UUIDs; \<open>jti \<notin> J\<close> says
  that no later token gets this one's.
\<close>

theorem revoke_is_final:
  assumes "jti \<notin> J" and "(token_step J hi)\<^sup>*\<^sup>* (snd (revoke_token now jti s)) t"
  shows "is_active up later t jti \<noteq> Inr True"
  by (rule dead_inactive [OF dead.steps_keep [OF assms(2) revoke_token_dead [OF assms(1)]]])

definition empty_db :: db where
  "empty_db = \<lparr>db_users = [], db_members = [], db_agents = [], db_agent_tokens = [], db_consents = [], db_delegations = [], db_tokens = [],
     db_audit = [], db_feed_version = 0, db_effects = []\<rparr>"

definition sample_record :: token_record where
  "sample_record = \<lparr>re_jti = ''j1'', re_delegation = Some ''d1'', re_subject = ''user:alice'',
     re_agent = Some ''b'', re_actor_chain = [''agent:b''], re_audience = ''api'', re_scopes = [''pay''],
     re_expires_at = 100\<rparr>"

definition sample_db :: db where
  "sample_db = the (record_tx 0 sample_record empty_db)"

theorem revoke_is_final_witness:
  "is_active True 1 sample_db ''j1'' = Inr True \<and>
   is_active True 3 (snd (revoke_by_delegation 2 ''d2'' (snd (revoke_token 1 ''j1'' sample_db)))) ''j1'' \<noteq> Inr True"
proof
  show "is_active True 1 sample_db ''j1'' = Inr True"
    by (simp add: is_active_def sample_db_def sample_record_def empty_db_def record_tx_def)
  show "is_active True 3 (snd (revoke_by_delegation 2 ''d2'' (snd (revoke_token 1 ''j1'' sample_db)))) ''j1'' \<noteq> Inr True"
  proof (rule revoke_is_final)
    show "''j1'' \<notin> {''j2''}" by simp
    show "(token_step {''j2''} 1)\<^sup>*\<^sup>* (snd (revoke_token 1 ''j1'' sample_db))
        (snd (revoke_by_delegation 2 ''d2'' (snd (revoke_token 1 ''j1'' sample_db))))"
      by (intro r_into_rtranclp token_step.revoke_delegation)
  qed
qed

text \<open>
  What \<open>IsActive\<close>, \<open>Revoke\<close> and \<open>RevokeByDelegation\<close> do. An unknown token is not active, and a
  failed query is an error, never an answer; the two revocations report how many unrevoked rows they
  matched, change no other row, and revoking a second time changes nothing and reports 0.
\<close>

theorem revocation_store_behaviour:
  "(jti \<notin> tr_jti ` set (db_tokens s) \<longrightarrow> is_active True now s jti = Inr False) \<and>
   is_active False now s jti = Inl QueryFailed \<and>
   fst (revoke_token now jti s) = int (length (filter (\<lambda>r. tr_jti r = jti \<and> tr_revoked_at r = None) (db_tokens s))) \<and>
   filter (\<lambda>r. tr_jti r \<noteq> jti) (db_tokens (snd (revoke_token now jti s))) = filter (\<lambda>r. tr_jti r \<noteq> jti) (db_tokens s) \<and>
   fst (revoke_by_delegation now did s) =
     int (length (filter (\<lambda>r. tr_delegation r = Some did \<and> tr_revoked_at r = None) (db_tokens s))) \<and>
   revoke_token later jti (snd (revoke_token now jti s)) = (0, snd (revoke_token now jti s))"
proof (intro conjI)
  show "jti \<notin> tr_jti ` set (db_tokens s) \<longrightarrow> is_active True now s jti = Inr False"
    by (auto simp: is_active_def find_None_iff split: option.split dest: find_Some_iff [THEN iffD1])
  show "filter (\<lambda>r. tr_jti r \<noteq> jti) (db_tokens (snd (revoke_token now jti s))) =
      filter (\<lambda>r. tr_jti r \<noteq> jti) (db_tokens s)"
    unfolding revoke_token_tokens by (rule filter_map_other) auto
qed (simp_all only: is_active_def revoke_token_again revoke_by_delegation_count revoke_token_count not_True_eq_False
      not_False_eq_True if_True)

theorem revocation_store_behaviour_witness:
  "is_active True 1 sample_db ''j2'' = Inr False"
  using revocation_store_behaviour [of "''j2''" sample_db]
  by (simp add: sample_db_def sample_record_def empty_db_def record_tx_def)

end
