(* ===== verification/Authz.thy ===== *)
theory Authz
  imports Store "HOL-Library.AList"
begin

text \<open>
  \<open>internal/authz\<close>: the principal behind a request, how it is resolved from a session cookie, an agent
  token or an OAuth access token, and the middleware that lets it through. The resolvers the server
  injects are arguments; membership and superadmin status come from the tables of theory \<open>Store\<close>. The
  lemmas show that every power of an authenticated principal is backed by a row.
\<close>

section \<open>Principals\<close>

datatype principal_type = TypeUser | TypeAgent

text \<open>\<open>OrgRoles\<close> is a Go map, kept as the list of its entries, one per key.\<close>

record principal =
  pr_type :: principal_type
  pr_id :: string
  pr_org_roles :: "(string \<times> string) list"
  pr_superadmin :: bool
  pr_scopes :: "string list"
  pr_auth_method :: string

definition org_ids :: "principal \<Rightarrow> string list" where
  "org_ids p = map fst (pr_org_roles p)"

definition role_in :: "principal \<Rightarrow> string \<Rightarrow> string option" where
  "role_in p org = map_of (pr_org_roles p) org"

definition can_access_org :: "principal \<Rightarrow> string \<Rightarrow> bool" where
  "can_access_org p org =
     (if pr_superadmin p then True
      else if org = [] then False
      else map_of (pr_org_roles p) org \<noteq> None)"

definition is_org_admin :: "principal \<Rightarrow> string \<Rightarrow> bool" where
  "is_org_admin p org =
     (if pr_superadmin p then True
      else case map_of (pr_org_roles p) org of
             None \<Rightarrow> False
           | Some role \<Rightarrow> role = ''owner'' \<or> role = ''admin'')"

fun some_admin_role :: "(string \<times> string) list \<Rightarrow> bool" where
  "some_admin_role [] = False"
| "some_admin_role ((_, role) # rs) =
     (if role = ''owner'' \<or> role = ''admin'' then True else some_admin_role rs)"

definition admin_capable :: "principal \<Rightarrow> bool" where
  "admin_capable p = (if pr_superadmin p then True else some_admin_role (pr_org_roles p))"

section \<open>Loading a principal\<close>

definition add_role :: "string \<times> string \<Rightarrow> (string \<times> string) list \<Rightarrow> (string \<times> string) list" where
  "add_role r m = AList.update (fst r) (snd r) m"

text \<open>\<open>userPrincipal\<close>: \<^const>\<open>None\<close> for an error (no such user, or one that is not active).\<close>

definition user_principal :: "db \<Rightarrow> string \<Rightarrow> string \<Rightarrow> principal option" where
  "user_principal s uid mthd =
     (case find (\<lambda>u. us_id u = uid \<and> us_status u = ''active'') (db_users s) of
        None \<Rightarrow> None
      | Some u \<Rightarrow>
          Some \<lparr>pr_type = TypeUser, pr_id = uid,
            pr_org_roles = fold add_role
              (map (\<lambda>m. (me_org m, me_role m)) (filter (\<lambda>m. me_user m = uid) (db_members s))) [],
            pr_superadmin = us_superadmin u, pr_scopes = [], pr_auth_method = mthd\<rparr>)"

definition agent_principal :: "db \<Rightarrow> string \<Rightarrow> string list \<Rightarrow> string \<Rightarrow> principal option" where
  "agent_principal s aid scopes token_id =
     (case find (\<lambda>a. ag_id a = aid) (db_agents s) of
        None \<Rightarrow> None
      | Some a \<Rightarrow>
          Some \<lparr>pr_type = TypeAgent, pr_id = aid,
            pr_org_roles = (case ag_org a of None \<Rightarrow> [] | Some org \<Rightarrow> add_role (org, ''agent'') []),
            pr_superadmin = False, pr_scopes = scopes, pr_auth_method = ''agent_token''\<rparr>)"

section \<open>Authentication\<close>

definition agent_token_prefix :: string where
  "agent_token_prefix = ''legant_at_''"

text \<open>The injected resolvers; each may be \<open>nil\<close>.\<close>

record 'req authenticator =
  au_session :: "('req \<Rightarrow> string option) option"
  au_agent :: "(string \<Rightarrow> (string \<times> string list \<times> string) option) option"
  au_bearer :: "(string \<Rightarrow> (string \<times> string list) option) option"

definition session_principal :: "'req authenticator \<Rightarrow> db \<Rightarrow> 'req \<Rightarrow> principal option" where
  "session_principal a s r =
     (case au_session a of
        None \<Rightarrow> None
      | Some session \<Rightarrow> (case session r of None \<Rightarrow> None | Some uid \<Rightarrow> user_principal s uid ''session''))"

definition bearer_principal :: "'req authenticator \<Rightarrow> db \<Rightarrow> string \<Rightarrow> principal option" where
  "bearer_principal a s authz =
     (if \<not> has_prefix ''Bearer '' authz then None
      else let token = trim_space (trim_prefix ''Bearer '' authz) in
        if has_prefix agent_token_prefix token then
          (case au_agent a of
             None \<Rightarrow> None
           | Some agent \<Rightarrow>
               (case agent token of
                  None \<Rightarrow> None
                | Some (aid, scopes, tid) \<Rightarrow> agent_principal s aid scopes tid))
        else
          (case au_bearer a of
             None \<Rightarrow> None
           | Some bear \<Rightarrow>
               (case bear token of
                  None \<Rightarrow> None
                | Some (uid, scopes) \<Rightarrow>
                    map_option (\<lambda>p. p\<lparr>pr_scopes := scopes\<rparr>) (user_principal s uid ''bearer''))))"

text \<open>\<open>Authenticate\<close>: the session first, then the \<open>Authorization\<close> header.\<close>

definition authenticate_request :: "'req authenticator \<Rightarrow> db \<Rightarrow> 'req \<Rightarrow> string \<Rightarrow> principal option" where
  "authenticate_request a s r authz =
     (case session_principal a s r of
        Some p \<Rightarrow> Some p
      | None \<Rightarrow> bearer_principal a s authz)"

definition authenticate_actor :: "'req authenticator \<Rightarrow> db \<Rightarrow> string \<Rightarrow> principal option" where
  "authenticate_actor a s token =
     (case au_agent a of
        None \<Rightarrow> None
      | Some agent \<Rightarrow>
          (case agent token of
             None \<Rightarrow> None
           | Some (aid, scopes, tid) \<Rightarrow> agent_principal s aid scopes tid))"

section \<open>Middleware\<close>

datatype gate = Unauthenticated | Forbidden | Proceed principal

definition require :: "'req authenticator \<Rightarrow> db \<Rightarrow> 'req \<Rightarrow> string \<Rightarrow> gate" where
  "require a s r authz =
     (case authenticate_request a s r authz of None \<Rightarrow> Unauthenticated | Some p \<Rightarrow> Proceed p)"

text \<open>The two middlewares placed after \<open>Require\<close>, on the principal the context holds.\<close>

definition require_superadmin :: "principal option \<Rightarrow> gate" where
  "require_superadmin ctx =
     (case ctx of
        None \<Rightarrow> Unauthenticated
      | Some p \<Rightarrow> if \<not> pr_superadmin p then Forbidden else Proceed p)"

definition require_admin :: "principal option \<Rightarrow> gate" where
  "require_admin ctx =
     (case ctx of
        None \<Rightarrow> Unauthenticated
      | Some p \<Rightarrow> if \<not> admin_capable p then Forbidden else Proceed p)"

section \<open>Lemmas\<close>

lemma some_admin_role_iff: "some_admin_role rs \<longleftrightarrow> (\<exists>org role. (org, role) \<in> set rs \<and> role \<in> {''owner'', ''admin''})"
  by (induction rs rule: some_admin_role.induct) auto

lemma fold_add_role:
  "map_of (fold add_role rs m) org = Some role \<Longrightarrow> (org, role) \<in> set rs \<or> map_of m org = Some role"
proof (induction rs arbitrary: m)
  case (Cons r rs)
  from Cons.IH [of "add_role r m"] Cons.prems show ?case
    by (cases r) (auto simp: add_role_def update_conv' split: if_splits)
qed simp

lemma fold_add_role_distinct: "distinct (map fst m) \<Longrightarrow> distinct (map fst (fold add_role rs m))"
  by (induction rs arbitrary: m) (auto simp: add_role_def distinct_update)

text \<open>What the rows of the tables say of a principal.\<close>

definition backed :: "db \<Rightarrow> principal \<Rightarrow> bool" where
  "backed s p \<longleftrightarrow>
     (case pr_type p of
        TypeUser \<Rightarrow>
          (\<exists>u \<in> set (db_users s). us_id u = pr_id p \<and> us_status u = ''active'' \<and> us_superadmin u = pr_superadmin p) \<and>
          (\<forall>org role. role_in p org = Some role \<longrightarrow>
             (\<exists>m \<in> set (db_members s). me_user m = pr_id p \<and> me_org m = org \<and> me_role m = role))
      | TypeAgent \<Rightarrow>
          \<not> pr_superadmin p \<and>
          (\<exists>a \<in> set (db_agents s). ag_id a = pr_id p \<and>
             (\<forall>org role. role_in p org = Some role \<longrightarrow> ag_org a = Some org \<and> role = ''agent'')))"

lemma user_principal_backed:
  "user_principal s uid mthd = Some p \<Longrightarrow> backed s p \<and> pr_type p = TypeUser \<and> distinct (map fst (pr_org_roles p))"
proof -
  assume *: "user_principal s uid mthd = Some p"
  then obtain u where u: "find (\<lambda>u. us_id u = uid \<and> us_status u = ''active'') (db_users s) = Some u"
    by (auto simp: user_principal_def split: option.splits)
  let ?rs = "map (\<lambda>m. (me_org m, me_role m)) (filter (\<lambda>m. me_user m = uid) (db_members s))"
  from * u have p: "pr_type p = TypeUser" "pr_id p = uid" "pr_org_roles p = fold add_role ?rs []"
    "pr_superadmin p = us_superadmin u"
    by (auto simp: user_principal_def)
  have "\<exists>m \<in> set (db_members s). me_user m = uid \<and> me_org m = org \<and> me_role m = role"
    if "role_in p org = Some role" for org role
    using that fold_add_role [of ?rs "[]" org role] by (auto simp: role_in_def p)
  with u p show ?thesis
    by (auto simp: backed_def fold_add_role_distinct dest!: find_SomeD)
qed

lemma agent_principal_backed:
  "agent_principal s aid scopes tid = Some p \<Longrightarrow>
   backed s p \<and> pr_type p = TypeAgent \<and> pr_id p = aid \<and> distinct (map fst (pr_org_roles p))"
  by (force simp: agent_principal_def backed_def role_in_def add_role_def update_conv' dest!: find_SomeD
      split: option.splits if_splits)

lemma backed_scopes [simp]: "backed s (p\<lparr>pr_scopes := x\<rparr>) = backed s p"
  by (cases "pr_type p") (simp_all add: backed_def role_in_def)

lemma authenticate_backed:
  "authenticate_request a s r authz = Some p \<Longrightarrow> backed s p \<and> distinct (map fst (pr_org_roles p))"
  by (auto simp: authenticate_request_def session_principal_def bearer_principal_def Let_def
      dest!: user_principal_backed agent_principal_backed split: option.splits if_splits prod.splits)

lemma is_org_admin_iff:
  "is_org_admin p org \<longleftrightarrow>
     pr_superadmin p \<or> (\<exists>role. map_of (pr_org_roles p) org = Some role \<and> role \<in> {''owner'', ''admin''})"
  by (simp add: is_org_admin_def split: option.split)

lemma admin_capable_iff:
  "distinct (map fst (pr_org_roles p)) \<Longrightarrow>
   admin_capable p \<longleftrightarrow> pr_superadmin p \<or> (\<exists>org. is_org_admin p org)"
  unfolding admin_capable_def is_org_admin_iff some_admin_role_iff
  by (cases "pr_superadmin p") (simp_all only: map_of_eq_Some_iff if_True if_False simp_thms)

section \<open>Properties\<close>

text \<open>
  an authenticated principal has no power without a row behind it. Whatever the resolvers answer,
  if a request authenticates, then a superadmin is an active user whose row says so, access to an
  organization means superadmin status, a membership of that user or, for an agent, that the agent's
  row is in it, administering one means superadmin status or an owner or admin membership, and an agent
  administers nothing.
\<close>

theorem authenticated_powers_backed:
  assumes "authenticate_request a s r authz = Some p"
  shows "(pr_superadmin p \<longrightarrow> pr_type p = TypeUser \<and>
            (\<exists>u \<in> set (db_users s). us_id u = pr_id p \<and> us_status u = ''active'' \<and> us_superadmin u)) \<and>
    (can_access_org p org \<longrightarrow> pr_superadmin p \<or>
       pr_type p = TypeUser \<and> (\<exists>m \<in> set (db_members s). me_user m = pr_id p \<and> me_org m = org) \<or>
       pr_type p = TypeAgent \<and> (\<exists>g \<in> set (db_agents s). ag_id g = pr_id p \<and> ag_org g = Some org)) \<and>
    (is_org_admin p org \<longrightarrow> pr_superadmin p \<or>
       (\<exists>m \<in> set (db_members s). me_user m = pr_id p \<and> me_org m = org \<and> me_role m \<in> {''owner'', ''admin''})) \<and>
    (pr_type p = TypeAgent \<longrightarrow> require_admin (Some p) = Forbidden)"
proof -
  from authenticate_backed [OF assms] have b: "backed s p" and d: "distinct (map fst (pr_org_roles p))" by auto
  show ?thesis
  proof (cases "pr_type p")
    case TypeUser
    with b show ?thesis
      by (auto simp: backed_def role_in_def can_access_org_def is_org_admin_iff split: if_splits)
  next
    case TypeAgent
    with b have "\<not> is_org_admin p g" for g
      by (auto simp: backed_def role_in_def is_org_admin_iff)
    with TypeAgent b d show ?thesis
      by (auto simp: backed_def role_in_def can_access_org_def require_admin_def admin_capable_iff split: if_splits)
  qed
qed

definition sample_users :: db where
  "sample_users = empty_db\<lparr>db_users := [\<lparr>us_id = ''u1'', us_superadmin = False, us_status = ''active''\<rparr>],
     db_members := [\<lparr>me_user = ''u1'', me_org = ''o1'', me_role = ''admin''\<rparr>]\<rparr>"

definition session_only :: "unit authenticator" where
  "session_only = \<lparr>au_session = Some (\<lambda>_. Some ''u1''), au_agent = None, au_bearer = None\<rparr>"

theorem authenticated_powers_backed_witness:
  "is_org_admin (the (authenticate_request session_only sample_users () [])) ''o1'' \<and>
   (\<exists>m \<in> set (db_members sample_users). me_user m = ''u1'' \<and> me_org m = ''o1'' \<and> me_role m \<in> {''owner'', ''admin''})"
proof -
  let ?p = "\<lparr>pr_type = TypeUser, pr_id = ''u1'', pr_org_roles = [(''o1'', ''admin'')], pr_superadmin = False,
    pr_scopes = [], pr_auth_method = ''session''\<rparr>"
  have p: "authenticate_request session_only sample_users () [] = Some ?p"
    by (simp add: authenticate_request_def session_principal_def session_only_def user_principal_def
        sample_users_def empty_db_def add_role_def)
  have "is_org_admin ?p ''o1''" by (simp add: is_org_admin_def)
  with authenticated_powers_backed [OF p, of "''o1''"] p show ?thesis by simp
qed

end
