(* ===== verification/Agents.thy ===== *)
theory Agents
  imports Authz
begin

text \<open>
  \<open>internal/agent\<close>: agents, their long-lived tokens and the delegations users create for them through the
  REST API (\<open>service.go\<close>), and the handler that authorizes each request (\<open>handler.go\<close>). The lemmas show
  that the handler keeps tenants apart and that a token validates only for an active agent.

  \<open>uuid.Parse\<close>, SHA-256, the random token, the generated row id and the clock are fields of an
  environment. A foreign key that does not refer to a table of theory \<open>Store\<close> is not checked.
\<close>

record agent_env =
  en_uuid_ok :: "string \<Rightarrow> bool"
  en_hash :: "string \<Rightarrow> string"
  en_now :: instant
  en_new_id :: string
  en_random :: "string option"
  en_revoker :: bool

datatype agent_error =
    NameRequired
  | BadAgentType
  | AgentInsertFailed
  | InvalidAgentID
  | AgentNotFound
  | AgentStatus string
  | AgentRandomFailed
  | TokenInsertFailed
  | InvalidToken
  | DelegateeAndScopesRequired
  | DelegationInsertFailed

section \<open>Agents\<close>

record create_agent_request =
  car_org :: "string option"
  car_name :: string
  car_description :: string
  car_type :: string
  car_owner :: "string option"
  car_metadata :: "string option"

record update_agent_request =
  uar_name :: "string option"
  uar_description :: "string option"
  uar_metadata :: "string option"

definition create_agent :: "agent_env \<Rightarrow> create_agent_request \<Rightarrow> db \<Rightarrow> agent_error + agent_row \<times> db" where
  "create_agent e req s =
     (if car_name req = [] then Inl NameRequired
      else if car_type req \<noteq> ''service'' \<and> car_type req \<noteq> ''ai_agent'' \<and> car_type req \<noteq> ''mcp_server''
      then Inl BadAgentType
      else if en_new_id e \<in> ag_id ` set (db_agents s) \<or> car_org req = Some [] then Inl AgentInsertFailed
      else let a = \<lparr>ag_id = en_new_id e, ag_org = car_org req, ag_name = car_name req,
                    ag_description = car_description req, ag_type = car_type req, ag_owner = car_owner req,
                    ag_status = ''active'',
                    ag_metadata = (case car_metadata req of None \<Rightarrow> ''{}'' | Some m \<Rightarrow> m),
                    ag_created_at = en_now e, ag_updated_at = en_now e\<rparr>
           in Inr (a, s\<lparr>db_agents := db_agents s @ [a]\<rparr>))"

definition get_agent :: "agent_env \<Rightarrow> db \<Rightarrow> string \<Rightarrow> agent_error + agent_row" where
  "get_agent e s aid =
     (if \<not> en_uuid_ok e aid then Inl InvalidAgentID
      else case find (\<lambda>a. ag_id a = aid) (db_agents s) of None \<Rightarrow> Inl AgentNotFound | Some a \<Rightarrow> Inr a)"

text \<open>\<open>List\<close>: the page of visible agents and their total number; a negative offset fails in SQL.\<close>

definition visible_agents :: "string list \<Rightarrow> bool \<Rightarrow> db \<Rightarrow> agent_row list" where
  "visible_agents orgs include_all s =
     filter (\<lambda>a. ag_status a \<noteq> ''revoked'' \<and>
        (include_all \<or> (case ag_org a of None \<Rightarrow> False | Some org \<Rightarrow> contains orgs org))) (db_agents s)"

definition list_agents :: "string list \<Rightarrow> bool \<Rightarrow> int \<Rightarrow> int \<Rightarrow> db \<Rightarrow> (agent_row list \<times> nat) option" where
  "list_agents orgs include_all limit offset s =
     (let limit1 = (if limit \<le> 0 then 50 else limit);
          limit2 = (if limit1 > 100 then 100 else limit1);
          rows = visible_agents orgs include_all s
      in if offset < 0 then None
         else Some (take (nat limit2) (drop (nat offset) (sort_key (\<lambda>a. - ag_created_at a) rows)), length rows))"

definition update_agent :: "agent_env \<Rightarrow> string \<Rightarrow> update_agent_request \<Rightarrow> db \<Rightarrow> agent_error + agent_row \<times> db" where
  "update_agent e aid req s =
     and_then (get_agent e s aid) (\<lambda>existing.
       let upd = (\<lambda>a. a\<lparr>
             ag_name := (case uar_name req of None \<Rightarrow> ag_name existing | Some n \<Rightarrow> n),
             ag_description := (case uar_description req of None \<Rightarrow> ag_description existing | Some d \<Rightarrow> d),
             ag_metadata := (case uar_metadata req of None \<Rightarrow> ag_metadata existing | Some m \<Rightarrow> m),
             ag_updated_at := en_now e\<rparr>)
       in Inr (upd existing, s\<lparr>db_agents := map (\<lambda>a. if ag_id a = aid then upd a else a) (db_agents s)\<rparr>))"

definition revoke_agent :: "agent_env \<Rightarrow> string \<Rightarrow> db \<Rightarrow> db" where
  "revoke_agent e aid s =
     s\<lparr>db_agents := map (\<lambda>a. if ag_id a = aid then a\<lparr>ag_status := ''revoked'', ag_updated_at := en_now e\<rparr> else a)
        (db_agents s)\<rparr>"

section \<open>Agent tokens\<close>

record create_token_request =
  ctr_name :: string
  ctr_scopes :: "string list"
  ctr_permissions :: "string option"
  ctr_expires_at :: "instant option"

definition create_agent_token ::
    "agent_env \<Rightarrow> string \<Rightarrow> create_token_request \<Rightarrow> db \<Rightarrow> agent_error + (agent_token_row \<times> string) \<times> db" where
  "create_agent_token e aid req s =
     and_then (get_agent e s aid) (\<lambda>agent.
       if ag_status agent \<noteq> ''active'' then Inl (AgentStatus (ag_status agent))
       else case en_random e of
         None \<Rightarrow> Inl AgentRandomFailed
       | Some random \<Rightarrow>
           let plain = agent_token_prefix @ random;
               t = \<lparr>at_id = en_new_id e, at_agent = aid, at_hash = en_hash e plain, at_name = ctr_name req,
                    at_scopes = ctr_scopes req,
                    at_permissions = (case ctr_permissions req of None \<Rightarrow> ''{}'' | Some p \<Rightarrow> p),
                    at_expires_at = ctr_expires_at req, at_last_used = None, at_created_at = en_now e\<rparr>
           in if at_id t \<in> at_id ` set (db_agent_tokens s) \<or> at_hash t \<in> at_hash ` set (db_agent_tokens s)
              then Inl TokenInsertFailed
              else Inr ((t, plain), s\<lparr>db_agent_tokens := db_agent_tokens s @ [t]\<rparr>))"

definition list_agent_tokens :: "string \<Rightarrow> db \<Rightarrow> agent_token_row list" where
  "list_agent_tokens aid s =
     sort_key (\<lambda>t. - at_created_at t) (filter (\<lambda>t. at_agent t = aid) (db_agent_tokens s))"

definition revoke_agent_token :: "string \<Rightarrow> string \<Rightarrow> db \<Rightarrow> db" where
  "revoke_agent_token aid tid s =
     s\<lparr>db_agent_tokens := filter (\<lambda>t. \<not> (at_id t = tid \<and> at_agent t = aid)) (db_agent_tokens s)\<rparr>"

text \<open>\<open>ValidateToken\<close>: also when the agent turns out to be unusable, \<open>last_used_at\<close> has been set.\<close>

definition validate_agent_token ::
    "agent_env \<Rightarrow> string \<Rightarrow> db \<Rightarrow> (agent_error + agent_row \<times> agent_token_row) \<times> db" where
  "validate_agent_token e plain s =
     (case find (\<lambda>t. at_hash t = en_hash e plain \<and> not_expired (en_now e) (at_expires_at t)) (db_agent_tokens s) of
        None \<Rightarrow> (Inl InvalidToken, s)
      | Some t \<Rightarrow>
          let s' = s\<lparr>db_agent_tokens :=
                map (\<lambda>r. if at_id r = at_id t then r\<lparr>at_last_used := Some (en_now e)\<rparr> else r) (db_agent_tokens s)\<rparr>
          in (case get_agent e s' (at_agent t) of
                Inl err \<Rightarrow> (Inl err, s')
              | Inr a \<Rightarrow> if ag_status a \<noteq> ''active'' then (Inl (AgentStatus (ag_status a)), s')
                         else (Inr (a, t), s')))"

section \<open>Delegations created through the API\<close>

text \<open>
  The constraints of the request are an arbitrary JSON object; \<open>cdr_constraints\<close> is what the column will
  decode to, with \<^const>\<open>None\<close> for an absent object.
\<close>

record create_delegation_request =
  cdr_delegatee :: string
  cdr_scopes :: "string list"
  cdr_constraints :: "stored_constraints option"
  cdr_expires_at :: "instant option"

definition create_delegation ::
    "agent_env \<Rightarrow> string \<Rightarrow> string \<Rightarrow> create_delegation_request \<Rightarrow> db \<Rightarrow> agent_error + delegation_row \<times> db" where
  "create_delegation e delegator org req s =
     (if cdr_delegatee req = [] \<or> cdr_scopes req = [] then Inl DelegateeAndScopesRequired
      else and_then (get_agent e s (cdr_delegatee req)) (\<lambda>_.
        if en_new_id e \<in> dr_id ` set (db_delegations s) then Inl DelegationInsertFailed
        else let d = \<lparr>dr_id = en_new_id e, dr_delegator_type = ''user'', dr_delegator = delegator,
                      dr_delegatee = cdr_delegatee req, dr_scopes = cdr_scopes req,
                      dr_constraints = (case cdr_constraints req of
                          None \<Rightarrow> \<lparr>sc_decoded = no_constraints, sc_ok = True\<rparr> | Some c \<Rightarrow> c),
                      dr_active = True, dr_created_at = en_now e, dr_expires_at = cdr_expires_at req,
                      dr_org = (if org \<noteq> [] then Some org else None), dr_consent = None, dr_parent = None,
                      dr_depth = 0\<rparr>
             in Inr (d, s\<lparr>db_delegations := db_delegations s @ [d]\<rparr>)))"

definition list_delegations_by_agent :: "string \<Rightarrow> db \<Rightarrow> delegation_row list" where
  "list_delegations_by_agent aid s =
     sort_key (\<lambda>d. - dr_created_at d) (filter (\<lambda>d. dr_delegatee d = aid \<and> dr_active d) (db_delegations s))"

definition deactivate :: "(delegation_row \<Rightarrow> bool) \<Rightarrow> db \<Rightarrow> int \<times> db" where
  "deactivate sel s =
     (int (length (filter sel (db_delegations s))),
      s\<lparr>db_delegations := map (\<lambda>d. if sel d then d\<lparr>dr_active := False\<rparr> else d) (db_delegations s)\<rparr>)"

definition revoke_delegation :: "string \<Rightarrow> string \<Rightarrow> db \<Rightarrow> int \<times> db" where
  "revoke_delegation did delegator_filter s =
     (if delegator_filter \<noteq> []
      then deactivate (\<lambda>d. dr_id d = did \<and> dr_delegator d = delegator_filter) s
      else deactivate (\<lambda>d. dr_id d = did) s)"

section \<open>The handler\<close>

text \<open>
  A request is a route with its path parameters and its decoded body (\<^const>\<open>None\<close> when it does not
  decode). The answer is the status code; the bodies of the answers are left out.
\<close>

datatype agent_request =
    ListAgents int int
  | CreateAgent "create_agent_request option"
  | GetAgent string
  | UpdateAgent string "update_agent_request option"
  | RevokeAgent string
  | ListAgentTokens string
  | CreateAgentToken string "create_token_request option"
  | RevokeAgentToken string string
  | ListAgentDelegations string
  | CreateDelegation "create_delegation_request option"
  | RevokeDelegation string

definition org_of :: "agent_row \<Rightarrow> string" where
  "org_of a = (case ag_org a of None \<Rightarrow> [] | Some org \<Rightarrow> org)"

text \<open>\<open>requireAgentAccess\<close>: the status it refuses with, if it does.\<close>

definition agent_access :: "agent_env \<Rightarrow> principal option \<Rightarrow> bool \<Rightarrow> string \<Rightarrow> db \<Rightarrow> int option" where
  "agent_access e ctx is_get aid s =
     (case ctx of
        None \<Rightarrow> Some 401
      | Some p \<Rightarrow>
          (case get_agent e s aid of
             Inl _ \<Rightarrow> Some 404
           | Inr ag \<Rightarrow>
               if \<not> can_access_org p (org_of ag) then Some 404
               else if \<not> is_get \<and> \<not> is_org_admin p (org_of ag) then Some 403
               else None))"

definition guarded :: "int option \<Rightarrow> int \<times> db \<Rightarrow> db \<Rightarrow> int \<times> db" where
  "guarded refusal result s = (case refusal of Some st \<Rightarrow> (st, s) | None \<Rightarrow> result)"

definition handle_create_agent :: "agent_env \<Rightarrow> principal option \<Rightarrow> create_agent_request option \<Rightarrow> db \<Rightarrow> int \<times> db" where
  "handle_create_agent e ctx body s =
     (case ctx of
        None \<Rightarrow> (401, s)
      | Some p \<Rightarrow>
          (case body of
             None \<Rightarrow> (400, s)
           | Some req \<Rightarrow>
               let create = (case create_agent e req s of Inl _ \<Rightarrow> (400, s) | Inr (_, s') \<Rightarrow> (201, s'))
               in (case car_org req of
                     None \<Rightarrow> if \<not> pr_superadmin p then (403, s) else create
                   | Some org \<Rightarrow>
                       if org = [] then (if \<not> pr_superadmin p then (403, s) else create)
                       else if \<not> is_org_admin p org then (403, s) else create)))"

definition handle_create_delegation ::
    "agent_env \<Rightarrow> principal option \<Rightarrow> create_delegation_request option \<Rightarrow> db \<Rightarrow> int \<times> db" where
  "handle_create_delegation e ctx body s =
     (case body of
        None \<Rightarrow> (400, s)
      | Some req \<Rightarrow>
          (case ctx of
             None \<Rightarrow> (403, s)
           | Some p \<Rightarrow>
               if pr_type p \<noteq> TypeUser then (403, s)
               else case get_agent e s (cdr_delegatee req) of
                 Inl _ \<Rightarrow> (404, s)
               | Inr ag \<Rightarrow>
                   if \<not> can_access_org p (org_of ag) then (404, s)
                   else case create_delegation e (pr_id p) (org_of ag) req s of
                          Inl _ \<Rightarrow> (400, s)
                        | Inr (_, s') \<Rightarrow> (201, s')))"

definition handle_revoke_delegation :: "agent_env \<Rightarrow> principal option \<Rightarrow> string \<Rightarrow> db \<Rightarrow> int \<times> db" where
  "handle_revoke_delegation e ctx did s =
     (case ctx of
        None \<Rightarrow> (401, s)
      | Some p \<Rightarrow>
          if \<not> pr_superadmin p \<and> pr_type p \<noteq> TypeUser then (403, s)
          else let (n, s') = revoke_delegation did (if \<not> pr_superadmin p then pr_id p else []) s
               in if n = 0 then (404, s')
                  else (204, if en_revoker e then snd (revoke_by_delegation (en_now e) did s') else s'))"

fun handle_agent :: "agent_env \<Rightarrow> principal option \<Rightarrow> agent_request \<Rightarrow> db \<Rightarrow> int \<times> db" where
  "handle_agent e ctx (ListAgents limit offset) s =
     (case ctx of
        None \<Rightarrow> (401, s)
      | Some p \<Rightarrow> (case list_agents (org_ids p) (pr_superadmin p) limit offset s of
                     None \<Rightarrow> (500, s) | Some _ \<Rightarrow> (200, s)))"
| "handle_agent e ctx (CreateAgent body) s = handle_create_agent e ctx body s"
| "handle_agent e ctx (GetAgent aid) s =
     guarded (agent_access e ctx True aid s)
       (case get_agent e s aid of Inl _ \<Rightarrow> (404, s) | Inr _ \<Rightarrow> (200, s)) s"
| "handle_agent e ctx (UpdateAgent aid body) s =
     guarded (agent_access e ctx False aid s)
       (case body of
          None \<Rightarrow> (400, s)
        | Some req \<Rightarrow> (case update_agent e aid req s of Inl _ \<Rightarrow> (500, s) | Inr (_, s') \<Rightarrow> (200, s'))) s"
| "handle_agent e ctx (RevokeAgent aid) s =
     guarded (agent_access e ctx False aid s) (204, revoke_agent e aid s) s"
| "handle_agent e ctx (ListAgentTokens aid) s = guarded (agent_access e ctx True aid s) (200, s) s"
| "handle_agent e ctx (CreateAgentToken aid body) s =
     guarded (agent_access e ctx False aid s)
       (case body of
          None \<Rightarrow> (400, s)
        | Some req \<Rightarrow> (case create_agent_token e aid req s of Inl _ \<Rightarrow> (400, s) | Inr (_, s') \<Rightarrow> (201, s'))) s"
| "handle_agent e ctx (RevokeAgentToken aid tid) s =
     guarded (agent_access e ctx False aid s) (204, revoke_agent_token aid tid s) s"
| "handle_agent e ctx (ListAgentDelegations aid) s = guarded (agent_access e ctx True aid s) (200, s) s"
| "handle_agent e ctx (CreateDelegation body) s = handle_create_delegation e ctx body s"
| "handle_agent e ctx (RevokeDelegation did) s = handle_revoke_delegation e ctx did s"

section \<open>Lemmas\<close>

lemma get_agent_Inr: "get_agent e s aid = Inr a \<Longrightarrow> a \<in> set (db_agents s) \<and> ag_id a = aid"
  by (auto simp: get_agent_def dest!: find_SomeD split: if_splits option.splits)

lemma agent_access_None:
  assumes "agent_access e ctx is_get aid s = None"
  shows "\<exists>p a. ctx = Some p \<and> a \<in> set (db_agents s) \<and> ag_id a = aid \<and> get_agent e s aid = Inr a \<and>
     can_access_org p (org_of a) \<and> (is_get \<or> is_org_admin p (org_of a))"
  using assms get_agent_Inr [of e s aid]
  by (auto simp: agent_access_def split: option.splits sum.splits if_splits)

lemma guarded_cases:
  "guarded refusal result s = (st, t) \<Longrightarrow> refusal = None \<and> result = (st, t) \<or> refusal = Some st \<and> t = s"
  by (auto simp: guarded_def split: option.splits)

text \<open>What each operation changes.\<close>

definition only_agents :: "db \<Rightarrow> db \<Rightarrow> bool" where
  "only_agents s t \<longleftrightarrow> db_agent_tokens t = db_agent_tokens s \<and> db_delegations t = db_delegations s"

definition only_agent_tokens :: "db \<Rightarrow> db \<Rightarrow> bool" where
  "only_agent_tokens s t \<longleftrightarrow> db_agents t = db_agents s \<and> db_delegations t = db_delegations s"

definition only_delegations :: "db \<Rightarrow> db \<Rightarrow> bool" where
  "only_delegations s t \<longleftrightarrow> db_agents t = db_agents s \<and> db_agent_tokens t = db_agent_tokens s"

lemma create_agent_effect:
  "create_agent e req s = Inr (a, t) \<Longrightarrow>
   only_agents s t \<and> set (db_agents t) = insert a (set (db_agents s)) \<and> ag_org a = car_org req \<and> car_org req \<noteq> Some []"
  by (auto simp: create_agent_def only_agents_def Let_def split: if_splits)

lemma update_agent_effect:
  "update_agent e aid req s = Inr (a, t) \<Longrightarrow>
   only_agents s t \<and> list_all2 (\<lambda>x y. ag_org y = ag_org x \<and> ag_id y = ag_id x \<and> (ag_id x \<noteq> aid \<longrightarrow> y = x))
     (db_agents s) (db_agents t)"
  by (auto simp: update_agent_def only_agents_def and_then_eq_Inr_iff Let_def list_all2_map2 list_all2_same)

lemma revoke_agent_effect:
  "only_agents s (revoke_agent e aid s) \<and>
   list_all2 (\<lambda>x y. ag_org y = ag_org x \<and> ag_id y = ag_id x \<and> (ag_id x \<noteq> aid \<longrightarrow> y = x))
     (db_agents s) (db_agents (revoke_agent e aid s))"
  by (auto simp: revoke_agent_def only_agents_def list_all2_map2 list_all2_same)

lemma create_agent_token_effect:
  "create_agent_token e aid req s = Inr (x, t) \<Longrightarrow>
   only_agent_tokens s t \<and>
   (\<forall>k. k \<in> set (db_agent_tokens s) - set (db_agent_tokens t) \<or> k \<in> set (db_agent_tokens t) - set (db_agent_tokens s) \<longrightarrow>
      at_agent k = aid)"
  by (auto simp: create_agent_token_def only_agent_tokens_def and_then_eq_Inr_iff Let_def
      split: if_splits option.splits)

lemma revoke_agent_token_effect:
  "only_agent_tokens s (revoke_agent_token aid tid s) \<and>
   (\<forall>k. k \<in> set (db_agent_tokens s) - set (db_agent_tokens (revoke_agent_token aid tid s)) \<or>
        k \<in> set (db_agent_tokens (revoke_agent_token aid tid s)) - set (db_agent_tokens s) \<longrightarrow> at_agent k = aid)"
  by (auto simp: revoke_agent_token_def only_agent_tokens_def)

lemma create_delegation_effect:
  "create_delegation e who org req s = Inr (d, t) \<Longrightarrow>
   only_delegations s t \<and> set (db_delegations t) = insert d (set (db_delegations s)) \<and> dr_delegator d = who"
  by (auto simp: create_delegation_def only_delegations_def and_then_eq_Inr_iff Let_def split: if_splits)

lemma revoke_delegation_effect:
  "revoke_delegation did who s = (n, t) \<Longrightarrow>
   only_delegations s t \<and>
   (\<forall>d \<in> set (db_delegations t) - set (db_delegations s). who = [] \<or> dr_delegator d = who)"
  by (auto simp: revoke_delegation_def deactivate_def only_delegations_def split: if_splits)

lemma revoke_by_delegation_frame [simp]:
  "db_agents (snd (revoke_by_delegation now did s)) = db_agents s"
  "db_agent_tokens (snd (revoke_by_delegation now did s)) = db_agent_tokens s"
  "db_delegations (snd (revoke_by_delegation now did s)) = db_delegations s"
  by (simp_all add: revoke_by_delegation_def mark_revoked_def emit_def Let_def)

text \<open>The rows an operation on one agent touches belong to that agent.\<close>

lemma changed_agent:
  assumes "list_all2 (\<lambda>x y. ag_org y = ag_org x \<and> ag_id y = ag_id x \<and> (ag_id x \<noteq> aid \<longrightarrow> y = x)) xs ys"
    and "distinct (map ag_id xs)" and "a \<in> set xs" and "ag_id a = aid"
  shows "(b \<in> set xs - set ys \<longrightarrow> ag_org b = ag_org a) \<and> (b \<in> set ys - set xs \<longrightarrow> ag_org b = ag_org a)"
proof -
  have one: "x = a" if "x \<in> set xs" "ag_id x = aid" for x
    using assms(2,3,4) that by (metis distinct_map inj_onD)
  have "\<exists>x \<in> set xs. ag_org y = ag_org x \<and> (ag_id x \<noteq> aid \<longrightarrow> y = x)" if "y \<in> set ys" for y
    using list_all2_right [OF assms(1) that] by blast
  moreover have "\<exists>y \<in> set ys. ag_id x \<noteq> aid \<longrightarrow> y = x" if "x \<in> set xs" for x
    using list_all2_left [OF assms(1) that] by blast
  ultimately show ?thesis using one by blast
qed

lemma org_of_cong: "ag_org b = ag_org a \<Longrightarrow> org_of b = org_of a"
  by (simp add: org_of_def)

text \<open>
  A change of state that the caller may make: a changed or created agent row belongs to an organization
  the caller administers, a created or deleted agent token to an agent of such an organization, and a
  created or changed delegation has the calling user as its delegator, unless the caller is a superadmin.
\<close>

definition tenant_safe :: "principal option \<Rightarrow> db \<Rightarrow> db \<Rightarrow> bool" where
  "tenant_safe ctx s t \<longleftrightarrow>
     (\<forall>a. a \<in> set (db_agents s) - set (db_agents t) \<or> a \<in> set (db_agents t) - set (db_agents s) \<longrightarrow>
        (\<exists>p. ctx = Some p \<and> is_org_admin p (org_of a))) \<and>
     (\<forall>k. k \<in> set (db_agent_tokens s) - set (db_agent_tokens t) \<or> k \<in> set (db_agent_tokens t) - set (db_agent_tokens s) \<longrightarrow>
        (\<exists>p b. ctx = Some p \<and> b \<in> set (db_agents s) \<and> ag_id b = at_agent k \<and> is_org_admin p (org_of b))) \<and>
     (\<forall>d. d \<in> set (db_delegations t) - set (db_delegations s) \<longrightarrow>
        (\<exists>p. ctx = Some p \<and> (pr_superadmin p \<or> pr_type p = TypeUser \<and> dr_delegator d = pr_id p))) \<and>
     (ctx = None \<longrightarrow> t = s)"

lemma tenant_safe_same: "tenant_safe ctx s s"
  by (simp add: tenant_safe_def)

lemma tenant_safe_agents:
  assumes "only_agents s t" and "agent_access e ctx False aid s = None" and "distinct (map ag_id (db_agents s))"
    and "list_all2 (\<lambda>x y. ag_org y = ag_org x \<and> ag_id y = ag_id x \<and> (ag_id x \<noteq> aid \<longrightarrow> y = x)) (db_agents s) (db_agents t)"
  shows "tenant_safe ctx s t"
proof -
  from agent_access_None [OF assms(2)] obtain p b where
    pb: "ctx = Some p" "b \<in> set (db_agents s)" "ag_id b = aid" "is_org_admin p (org_of b)" by blast
  have "is_org_admin p (org_of c)"
    if "c \<in> set (db_agents s) - set (db_agents t) \<or> c \<in> set (db_agents t) - set (db_agents s)" for c
  proof -
    have "ag_org c = ag_org b" using changed_agent [OF assms(4,3) pb(2,3), of c] that by blast
    then show ?thesis using pb(4) by (simp only: org_of_cong [of c b])
  qed
  with pb(1) assms(1) show ?thesis by (auto simp: only_agents_def tenant_safe_def)
qed

lemma tenant_safe_tokens:
  assumes "only_agent_tokens s t" and "agent_access e ctx False aid s = None"
    and "\<forall>k. k \<in> set (db_agent_tokens s) - set (db_agent_tokens t) \<or> k \<in> set (db_agent_tokens t) - set (db_agent_tokens s) \<longrightarrow>
           at_agent k = aid"
  shows "tenant_safe ctx s t"
  using agent_access_None [OF assms(2)] assms(1,3) by (auto simp: only_agent_tokens_def tenant_safe_def)

section \<open>Properties\<close>

text \<open>
  the agent API keeps tenants apart. Whatever the request, a change of state is backed by the
  caller's authority: a changed or created agent row belongs to an organization the caller administers,
  a created or deleted agent token to an agent of such an organization, and a created or deactivated
  delegation has the calling user as its delegator, unless the caller is a superadmin. Without a
  principal nothing changes.
\<close>

theorem agent_api_isolation:
  assumes "handle_agent e ctx req s = (st, t)" and "distinct (map ag_id (db_agents s))"
    and "\<And>p. ctx = Some p \<Longrightarrow> pr_id p \<noteq> []"
  shows "tenant_safe ctx s t"
proof (cases req)
    case (CreateAgent body)
  then show ?thesis
    using assms(1)
    by (auto simp: handle_create_agent_def Let_def tenant_safe_def only_agents_def org_of_def is_org_admin_def[of _ "[]"]
        dest!: create_agent_effect split: option.splits if_splits sum.splits)
next
  case (UpdateAgent aid body)
  then show ?thesis
    using assms(1) tenant_safe_agents [OF _ _ assms(2), of t e ctx aid] tenant_safe_same
    by (auto dest!: guarded_cases dest: update_agent_effect split: option.splits sum.splits)
next
  case (RevokeAgent aid)
  then show ?thesis
    using assms(1) tenant_safe_agents [OF _ _ assms(2), of t e ctx aid] tenant_safe_same revoke_agent_effect [of s e aid] by (auto dest!: guarded_cases)
next
  case (CreateAgentToken aid body)
  show ?thesis
  proof (cases "t = s")
    case False
    with CreateAgentToken assms(1) obtain r x where
      *: "agent_access e ctx False aid s = None" "create_agent_token e aid r s = Inr (x, t)"
      by (auto dest!: guarded_cases split: option.splits sum.splits)
    from create_agent_token_effect [OF *(2)] *(1) show ?thesis by (intro tenant_safe_tokens [of s t e ctx aid]) simp_all
  qed (simp add: tenant_safe_same)
next
  case (RevokeAgentToken aid tid)
  show ?thesis
  proof (cases "t = s")
    case False
    with RevokeAgentToken assms(1) have
      *: "agent_access e ctx False aid s = None" "t = revoke_agent_token aid tid s"
      by (auto dest!: guarded_cases)
    from revoke_agent_token_effect [of s aid tid] * show ?thesis by (intro tenant_safe_tokens [of s t e ctx aid]) simp_all
  qed (simp add: tenant_safe_same)
next
  case (CreateDelegation body)
  then show ?thesis
    using assms(1)
    by (auto simp: tenant_safe_def handle_create_delegation_def only_delegations_def dest!: create_delegation_effect
        split: option.splits if_splits sum.splits)
next
  case (RevokeDelegation did)
  then show ?thesis
    using assms(1,3)
    by (auto simp: tenant_safe_def handle_revoke_delegation_def only_delegations_def dest!: revoke_delegation_effect
        split: option.splits if_splits prod.splits)
qed (use assms(1) tenant_safe_same in \<open>auto dest!: guarded_cases split: option.splits sum.splits\<close>)

definition sample_env :: agent_env where
  "sample_env = \<lparr>en_uuid_ok = (\<lambda>_. True), en_hash = id, en_now = 10, en_new_id = ''n1'', en_random = Some ''ff'',
     en_revoker = True\<rparr>"

definition sample_agent :: agent_row where
  "sample_agent = \<lparr>ag_id = ''a1'', ag_org = Some ''o1'', ag_name = ''bot'', ag_description = [], ag_type = ''service'',
     ag_owner = None, ag_status = ''active'', ag_metadata = ''{}'', ag_created_at = 0, ag_updated_at = 0\<rparr>"

definition sample_agents :: db where
  "sample_agents = sample_users\<lparr>db_agents := [sample_agent]\<rparr>"

definition sample_principal :: principal where
  "sample_principal = \<lparr>pr_type = TypeUser, pr_id = ''u1'', pr_org_roles = [(''o1'', ''admin'')],
     pr_superadmin = False, pr_scopes = [], pr_auth_method = ''session''\<rparr>"

theorem agent_api_isolation_witness:
  "is_org_admin sample_principal ''o1'' \<and>
   sample_agent \<notin> set (db_agents (snd (handle_agent sample_env (Some sample_principal) (RevokeAgent ''a1'') sample_agents)))"
proof -
  let ?t = "revoke_agent sample_env ''a1'' sample_agents"
  have run: "handle_agent sample_env (Some sample_principal) (RevokeAgent ''a1'') sample_agents = (204, ?t)"
    by (simp add: guarded_def agent_access_def get_agent_def sample_env_def sample_agents_def sample_agent_def
        can_access_org_def is_org_admin_def sample_principal_def org_of_def)
  have gone: "sample_agent \<in> set (db_agents sample_agents) - set (db_agents ?t)"
    by (simp add: revoke_agent_def sample_agents_def sample_agent_def)
  have "distinct (map ag_id (db_agents sample_agents))" by (simp add: sample_agents_def)
  from agent_api_isolation [OF run this] gone have "is_org_admin sample_principal (org_of sample_agent)"
    by (auto simp: sample_principal_def tenant_safe_def)
  with run gone show ?thesis by (simp add: org_of_def sample_agent_def)
qed

text \<open>
  An agent token works for as long as it should. A token that validates has an unexpired row with
  its hash, whose agent exists and is active, and validation changes nothing but the time of last use.
  After \<open>Revoke\<close> of an agent no token of that agent validates, whatever the clock; after
  \<open>RevokeToken\<close> of a token (hashes are unique) that token does not.
\<close>

theorem agent_token_validation:
  assumes "distinct (map at_hash (db_agent_tokens s))"
  shows "(validate_agent_token e plain s = (Inr (a, t), s') \<longrightarrow>
            t \<in> set (db_agent_tokens s) \<and> at_hash t = en_hash e plain \<and> a \<in> set (db_agents s) \<and>
            ag_id a = at_agent t \<and> ag_status a = ''active'' \<and>
            (\<forall>x. at_expires_at t = Some x \<longrightarrow> x > en_now e) \<and>
            db_agents s' = db_agents s \<and> map at_hash (db_agent_tokens s') = map at_hash (db_agent_tokens s)) \<and>
    (fst (validate_agent_token e plain (revoke_agent e' aid s)) = Inr (a, t) \<longrightarrow> at_agent t \<noteq> aid) \<and>
    (k \<in> set (db_agent_tokens s) \<longrightarrow> en_hash e plain = at_hash k \<longrightarrow>
       fst (validate_agent_token e plain (revoke_agent_token (at_agent k) (at_id k) s)) \<noteq> Inr (a, t))"
proof (intro conjI impI)
  assume "validate_agent_token e plain s = (Inr (a, t), s')"
  then have find: "find (\<lambda>t. at_hash t = en_hash e plain \<and> not_expired (en_now e) (at_expires_at t)) (db_agent_tokens s) = Some t"
    and s': "s' = s\<lparr>db_agent_tokens :=
       map (\<lambda>r. if at_id r = at_id t then r\<lparr>at_last_used := Some (en_now e)\<rparr> else r) (db_agent_tokens s)\<rparr>"
    and a: "get_agent e s' (at_agent t) = Inr a" "ag_status a = ''active''"
    by (auto simp: validate_agent_token_def Let_def split: option.splits sum.splits if_splits)
  from find_SomeD [OF find] show "t \<in> set (db_agent_tokens s)" "at_hash t = en_hash e plain" by auto
  from find_SomeD [OF find] show "\<forall>x. at_expires_at t = Some x \<longrightarrow> x > en_now e" by (auto simp: not_expired_def)
  from a get_agent_Inr [OF a(1)] s' show "a \<in> set (db_agents s)" "ag_id a = at_agent t" "ag_status a = ''active''"
    "db_agents s' = db_agents s" "map at_hash (db_agent_tokens s') = map at_hash (db_agent_tokens s)"
    by auto
next
  assume "fst (validate_agent_token e plain (revoke_agent e' aid s)) = Inr (a, t)"
  then obtain s'' where "get_agent e s'' (at_agent t) = Inr a" "ag_status a = ''active''"
    "db_agents s'' = db_agents (revoke_agent e' aid s)"
    by (auto simp: validate_agent_token_def Let_def split: option.splits sum.splits if_splits)
  with get_agent_Inr [of e s'' "at_agent t" a] have "a \<in> set (db_agents (revoke_agent e' aid s))"
    "ag_id a = at_agent t" "ag_status a = ''active''" by auto
  then show "at_agent t \<noteq> aid" by (auto simp: revoke_agent_def split: if_splits)
next
  assume k: "k \<in> set (db_agent_tokens s)" "en_hash e plain = at_hash k"
  have "find (\<lambda>t. at_hash t = at_hash k \<and> not_expired (en_now e) (at_expires_at t))
       (db_agent_tokens (revoke_agent_token (at_agent k) (at_id k) s)) = None"
    using assms k(1) by (auto simp: find_None_iff revoke_agent_token_def distinct_map inj_on_def)
  with k(2) show "fst (validate_agent_token e plain (revoke_agent_token (at_agent k) (at_id k) s)) \<noteq> Inr (a, t)"
    by (simp add: validate_agent_token_def)
qed

definition sample_agent_token :: agent_token_row where
  "sample_agent_token = \<lparr>at_id = ''t1'', at_agent = ''a1'', at_hash = ''legant_at_ff'', at_name = [], at_scopes = [],
     at_permissions = ''{}'', at_expires_at = Some 20, at_last_used = None, at_created_at = 0\<rparr>"

theorem agent_token_validation_witness:
  "\<exists>a t s'. validate_agent_token sample_env ''legant_at_ff'' (sample_agents\<lparr>db_agent_tokens := [sample_agent_token]\<rparr>) =
     (Inr (a, t), s') \<and> ag_status a = ''active'' \<and> at_agent t = ''a1''"
proof -
  let ?s = "sample_agents\<lparr>db_agent_tokens := [sample_agent_token]\<rparr>"
  let ?s' = "sample_agents\<lparr>db_agent_tokens := [sample_agent_token\<lparr>at_last_used := Some 10\<rparr>]\<rparr>"
  have run: "validate_agent_token sample_env ''legant_at_ff'' ?s = (Inr (sample_agent, sample_agent_token), ?s')"
    by (simp add: validate_agent_token_def get_agent_def sample_env_def sample_agents_def sample_agent_def
        sample_agent_token_def not_expired_def)
  have "distinct (map at_hash (db_agent_tokens ?s))" by simp
  from agent_token_validation [OF this] run have "ag_status sample_agent = ''active''" by blast
  with run show ?thesis by (auto simp: sample_agent_token_def)
qed

end
