(* ===== verification/Resources.thy ===== *)
theory Resources
  imports GoPrelude
begin

text \<open>
  RFC 8707 resource indicators: \<open>CanonicalizeResource\<close> and \<open>ResourceMatches\<close>
  (\<open>internal/mcpauth/resource.go\<close>), which the issuer applies to the resource a token is minted for, and
  \<open>canonicalizeAudience\<close> and \<open>audienceMatches\<close> (\<open>sdk/verifier.go\<close>), which a resource server applies to
  the audience of the token. The lemmas show that the two sides agree.

  \<open>net/url\<close> and the Unicode tables behind \<open>strings.ToLower\<close> are not part of the repository: a
  \<open>url_lib\<close> holds \<open>url.Parse\<close> (\<^const>\<open>None\<close> for an error), \<open>URL.String\<close> and \<open>strings.ToLower\<close>;
  the parts of a URL the code does not look at are in \<open>u_rest\<close>. \<open>URL.Hostname\<close> is written out.
\<close>

record 'r url =
  u_scheme :: string
  u_user :: "string option"
  u_host :: string
  u_path :: string
  u_fragment :: string
  u_rest :: 'r

record 'r url_lib =
  ul_parse :: "string \<Rightarrow> 'r url option"
  ul_string :: "'r url \<Rightarrow> string"
  ul_lower :: "string \<Rightarrow> string"

definition is_abs :: "'r url \<Rightarrow> bool" where
  "is_abs u \<longleftrightarrow> u_scheme u \<noteq> []"

section \<open>The host part\<close>

definition is_digit :: "char \<Rightarrow> bool" where
  "is_digit c \<longleftrightarrow> c \<in> set ''0123456789''"

text \<open>The text after the last colon, if there is a colon: \<open>strings.LastIndexByte(host, ':')\<close>.\<close>

definition split_last_colon :: "string \<Rightarrow> (string \<times> string) option" where
  "split_last_colon s =
     (if CHR '':'' \<in> set s
      then Some (rev (tl (dropWhile (\<lambda>c. c \<noteq> CHR '':'') (rev s))), rev (takeWhile (\<lambda>c. c \<noteq> CHR '':'') (rev s)))
      else None)"

definition hostname :: "'r url \<Rightarrow> string" where
  "hostname u =
     (let h = u_host u;
          host = (case split_last_colon h of
                    None \<Rightarrow> h
                  | Some (pre, port) \<Rightarrow> if list_all is_digit port then pre else h)
      in if has_prefix ''['' host \<and> has_suffix '']'' host then butlast (tl host) else host)"

definition is_loopback :: "string \<Rightarrow> bool" where
  "is_loopback host \<longleftrightarrow> host = ''localhost'' \<or> host = ''127.0.0.1'' \<or> host = ''::1''"

definition strip_default_port :: "string \<Rightarrow> string \<Rightarrow> string" where
  "strip_default_port scheme host =
     (if scheme = ''https'' \<and> has_suffix '':443'' host then trim_suffix '':443'' host
      else if scheme = ''http'' \<and> has_suffix '':80'' host then trim_suffix '':80'' host
      else host)"

section \<open>The issuer's side\<close>

datatype resource_error =
    ResourceRequired
  | InvalidURI
  | NotAbsolute
  | HasFragment
  | HasUserinfo
  | NotHttps

definition canonicalize_resource :: "'r url_lib \<Rightarrow> string \<Rightarrow> resource_error + string" where
  "canonicalize_resource lib raw =
     (if raw = [] then Inl ResourceRequired
      else case ul_parse lib raw of
        None \<Rightarrow> Inl InvalidURI
      | Some u \<Rightarrow>
          if \<not> is_abs u \<or> u_host u = [] then Inl NotAbsolute
          else if u_fragment u \<noteq> [] then Inl HasFragment
          else if u_user u \<noteq> None then Inl HasUserinfo
          else let scheme = ul_lower lib (u_scheme u); host = ul_lower lib (u_host u) in
            if scheme \<noteq> ''https'' \<and> \<not> (scheme = ''http'' \<and> is_loopback (hostname u)) then Inl NotHttps
            else Inr (ul_string lib (u\<lparr>u_scheme := scheme, u_host := strip_default_port scheme host,
                        u_path := (if u_path u = [] then ''/'' else u_path u)\<rparr>)))"

definition resource_matches :: "'r url_lib \<Rightarrow> string \<Rightarrow> string \<Rightarrow> bool" where
  "resource_matches lib requested allowed =
     (case canonicalize_resource lib requested of
        Inl _ \<Rightarrow> False
      | Inr rc \<Rightarrow> (case canonicalize_resource lib allowed of Inl _ \<Rightarrow> False | Inr ac \<Rightarrow> rc = ac))"

section \<open>The resource server's side\<close>

definition canonicalize_audience :: "'r url_lib \<Rightarrow> string \<Rightarrow> string" where
  "canonicalize_audience lib raw =
     (case ul_parse lib raw of
        None \<Rightarrow> raw
      | Some u \<Rightarrow>
          if \<not> is_abs u \<or> u_host u = [] then raw
          else let scheme = ul_lower lib (u_scheme u);
                   host = ul_lower lib (u_host u);
                   host' = (if scheme = ''https'' \<and> has_suffix '':443'' host then trim_suffix '':443'' host
                            else if scheme = ''http'' \<and> has_suffix '':80'' host then trim_suffix '':80'' host
                            else host)
               in ul_string lib (u\<lparr>u_scheme := scheme, u_host := host', u_user := None, u_fragment := [],
                    u_path := (if u_path u = [] then ''/'' else u_path u)\<rparr>))"

fun audience_matches :: "'r url_lib \<Rightarrow> string list \<Rightarrow> string \<Rightarrow> bool" where
  "audience_matches lib [] want = False"
| "audience_matches lib (a # auds) want =
     (if canonicalize_audience lib a = canonicalize_audience lib want then True
      else audience_matches lib auds want)"

lemma audience_matches_iff:
  "audience_matches lib auds want \<longleftrightarrow>
     (\<exists>a \<in> set auds. canonicalize_audience lib a = canonicalize_audience lib want)"
  by (induction auds) auto

section \<open>What is relied on\<close>

text \<open>
  \<open>url.Parse\<close> gives no absolute URL for the empty string; the string of an absolute URL is not empty;
  \<open>strings.ToLower\<close> keeps the empty string apart, changes nothing the second time, and leaves the
  digits of a port alone.
\<close>

definition url_laws :: "'r url_lib \<Rightarrow> bool" where
  "url_laws lib \<longleftrightarrow>
     (\<forall>u. ul_parse lib [] = Some u \<longrightarrow> \<not> is_abs u) \<and>
     (\<forall>u. is_abs u \<longrightarrow> ul_string lib u \<noteq> []) \<and>
     (\<forall>s. (ul_lower lib s = [] \<longleftrightarrow> s = []) \<and> ul_lower lib (ul_lower lib s) = ul_lower lib s) \<and>
     (\<forall>s. ul_lower lib (s @ '':443'') = ul_lower lib s @ '':443'' \<and> ul_lower lib (s @ '':80'') = ul_lower lib s @ '':80'')"

lemma canonicalize_audience_empty_iff:
  assumes "url_laws lib"
  shows "canonicalize_audience lib s = [] \<longleftrightarrow> s = []"
proof (cases "ul_parse lib s")
  case None
  then show ?thesis by (simp add: canonicalize_audience_def)
next
  case (Some u)
  with assms show ?thesis
    by (cases "s = []") (auto simp: canonicalize_audience_def url_laws_def is_abs_def Let_def)
qed

text \<open>
  The canonical form of a URL, and what makes it final: its printed form parses back to it, as
  \<open>net/url\<close> gives for a URL that came out of the parser with a host, and its host does not end in
  the default port a second time.
\<close>

definition canonical_url :: "'r url_lib \<Rightarrow> 'r url \<Rightarrow> 'r url" where
  "canonical_url lib u = u\<lparr>u_scheme := ul_lower lib (u_scheme u),
     u_host := strip_default_port (ul_lower lib (u_scheme u)) (ul_lower lib (u_host u)),
     u_path := (if u_path u = [] then ''/'' else u_path u)\<rparr>"

definition final_url :: "'r url_lib \<Rightarrow> 'r url \<Rightarrow> bool" where
  "final_url lib u \<longleftrightarrow>
     ul_parse lib (ul_string lib (canonical_url lib u)) = Some (canonical_url lib u) \<and>
     u_host (canonical_url lib u) \<noteq> [] \<and>
     strip_default_port (u_scheme (canonical_url lib u)) (u_host (canonical_url lib u)) =
       u_host (canonical_url lib u)"

lemma canonicalize_resource_Inr:
  assumes "canonicalize_resource lib raw = Inr c"
  shows "\<exists>u. ul_parse lib raw = Some u \<and> is_abs u \<and> u_host u \<noteq> [] \<and> u_fragment u = [] \<and> u_user u = None \<and>
             c = ul_string lib (canonical_url lib u)"
  using assms
  by (auto simp: canonicalize_resource_def canonical_url_def Let_def split: if_splits option.splits)

text \<open>On a resource the issuer accepts, the resource server's form is the issuer's.\<close>

lemma audience_of_url:
  "ul_parse lib raw = Some u \<Longrightarrow> is_abs u \<Longrightarrow> u_host u \<noteq> [] \<Longrightarrow> u_fragment u = [] \<Longrightarrow> u_user u = None \<Longrightarrow>
   canonicalize_audience lib raw = ul_string lib (canonical_url lib u)"
  by (cases u) (auto simp: canonicalize_audience_def canonical_url_def strip_default_port_def Let_def)

lemma canonicalize_agree:
  "canonicalize_resource lib raw = Inr c \<Longrightarrow> canonicalize_audience lib raw = c"
  by (auto dest!: canonicalize_resource_Inr simp: audience_of_url)

lemma trim_suffix_split: "has_suffix p s \<Longrightarrow> s = trim_suffix p s @ p"
  unfolding has_suffix_def trim_suffix_def
  by (auto simp: has_prefix_iff) (metis append_eq_conv_conj length_append length_rev rev_append rev_rev_ident add_diff_cancel_right' diff_add_inverse2)

lemma lower_strip:
  assumes "url_laws lib"
  shows "ul_lower lib (strip_default_port sc (ul_lower lib h)) = strip_default_port sc (ul_lower lib h)"
proof -
  have step: "ul_lower lib (trim_suffix p (ul_lower lib h)) = trim_suffix p (ul_lower lib h)"
    if "has_suffix p (ul_lower lib h)" "\<And>s. ul_lower lib (s @ p) = ul_lower lib s @ p" for p
    using trim_suffix_split [OF that(1)] that(2) assms unfolding url_laws_def
    by (metis append_same_eq)
  show ?thesis
    using assms step by (auto simp: strip_default_port_def url_laws_def)
qed

lemma canonicalize_audience_final:
  assumes "url_laws lib" and "is_abs u" and "u_fragment u = []" and "u_user u = None" and "final_url lib u"
  shows "canonicalize_audience lib (ul_string lib (canonical_url lib u)) = ul_string lib (canonical_url lib u)"
proof -
  let ?v = "canonical_url lib u"
  have "canonical_url lib ?v = ?v"
    using assms lower_strip [OF assms(1), of "ul_lower lib (u_scheme u)" "u_host u"]
    by (cases u) (auto simp: final_url_def url_laws_def canonical_url_def)
  moreover have "canonicalize_audience lib (ul_string lib ?v) = ul_string lib (canonical_url lib ?v)"
    using assms by (intro audience_of_url) (auto simp: final_url_def is_abs_def url_laws_def canonical_url_def)
  ultimately show ?thesis by simp
qed

section \<open>Properties\<close>

text \<open>
  Issuer and resource server agree on audiences. If a client asks for a resource that the issuer
  canonicalizes to \<open>c\<close>, the audience it writes into the token, then a resource server accepts that
  audience when it was configured with any spelling of the same resource: the requested one, \<open>c\<close>
  itself, or any other the issuer's \<open>ResourceMatches\<close> identifies with it.
\<close>

theorem audience_agreement:
  assumes "url_laws lib" and "canonicalize_resource lib raw = Inr c"
    and "\<And>u. ul_parse lib raw = Some u \<Longrightarrow> final_url lib u"
  shows "audience_matches lib [c] raw \<and> audience_matches lib [c] c \<and>
         (\<forall>config. resource_matches lib raw config \<longrightarrow> audience_matches lib [c] config)"
proof -
  obtain u where "ul_parse lib raw = Some u" "is_abs u" "u_fragment u = []" "u_user u = None"
    "c = ul_string lib (canonical_url lib u)"
    using canonicalize_resource_Inr [OF assms(2)] by auto
  then have "canonicalize_audience lib c = c"
    using canonicalize_audience_final assms by metis
  then show ?thesis
    using assms(2) by (auto simp: canonicalize_agree resource_matches_def split: sum.splits
        dest: canonicalize_agree)
qed

text \<open>A library that knows one resource, in two spellings.\<close>

definition two_url_lib :: "unit url_lib" where
  "two_url_lib = (let u = \<lparr>u_scheme = ''https'', u_user = None, u_host = ''api'', u_path = ''/'',
       u_fragment = [], u_rest = ()\<rparr> in
     \<lparr>ul_parse = (\<lambda>s. if s = ''https://api/'' then Some u
                      else if s = ''https://api:443'' then Some (u\<lparr>u_host := ''api:443'', u_path := []\<rparr>) else None),
      ul_string = (\<lambda>v. if v = u then ''https://api/'' else ''x''), ul_lower = id\<rparr>)"

lemma two_url_laws: "url_laws two_url_lib"
  by (auto simp: url_laws_def two_url_lib_def Let_def)

theorem audience_agreement_witness:
  "audience_matches two_url_lib [''https://api/''] ''https://api:443''"
proof -
  have "canonicalize_resource two_url_lib ''https://api:443'' = Inr ''https://api/''"
    by code_simp
  moreover have "case ul_parse two_url_lib ''https://api:443'' of None \<Rightarrow> False | Some u \<Rightarrow> final_url two_url_lib u"
    by code_simp
  then have "final_url two_url_lib u" if "ul_parse two_url_lib ''https://api:443'' = Some u" for u
    using that by simp
  ultimately show ?thesis
    using audience_agreement [OF two_url_laws] by blast
qed

end
