(* ===== verification/Chains.thy ===== *)
theory Chains
  imports Agents Resources
begin

text \<open>
  \<open>internal/delegation/chains/service.go\<close>: delegations in the database. A user's consent creates a root
  row, an agent re-delegates to a child row that points to its parent, and a token exchange resolves the
  chain from the latest row of an agent back to the user and rebuilds the grants of theory
  \<open>Delegation\<close> from it.

  \<open>ch_jsonb\<close> is what a JSONB column holds of a constraint set (\<^const>\<open>None\<close> when the insert is refused),
  and \<open>ch_new_id\<close>, \<open>ch_new_id2\<close> are the ids \<open>gen_random_uuid()\<close> returns. Ids are UUID columns: \<open>ch_uuid\<close> is
  the text under which the database stores an id that arrives in another spelling (upper case, braces), \<^const>\<open>None\<close>
  when it is no UUID and the statement fails. Rows hold that text, and so do principals and sessions, which come from
  rows; ids from a request body are as the client spells them.
\<close>

record 'r chain_env =
  ch_now :: instant
  ch_tzdb :: tzdb
  ch_urls :: "'r url_lib"
  ch_jsonb :: "constraints \<Rightarrow> stored_constraints option"
  ch_new_id :: string
  ch_new_id2 :: string
  ch_uuid :: "string \<Rightarrow> string option"

datatype chain_error =
    BadWindow window_error
  | NegativeRate
  | NegativeAmount
  | InvalidResource string resource_error
  | NoActiveDelegation
  | ChainBroken
  | NotRootedAtUser
  | ConstraintDecodeFailed
  | EmptyChain
  | DelegateeRequired
  | ParentNotFound
  | NotHolder
  | ScopesExceedParent
  | MaxDepthExceeded
  | ChainLookupFailed
  | ChainCycle
  | DelegateeNotInOrg
  | CreateFailed
  | UserAgentScopesRequired
  | ConsentFailed
  | NotYours
  | BadUuid

section \<open>Validation\<close>

fun canonicalize_all :: "'r url_lib \<Rightarrow> string list \<Rightarrow> chain_error + string list" where
  "canonicalize_all urls [] = Inr []"
| "canonicalize_all urls (r # rs) =
     (case canonicalize_resource urls r of
        Inl e \<Rightarrow> Inl (InvalidResource r e)
      | Inr canon \<Rightarrow> and_then (canonicalize_all urls rs) (\<lambda>cs. Inr (canon # cs)))"

definition validate_and_canonicalize :: "'r chain_env \<Rightarrow> constraints \<Rightarrow> chain_error + constraints" where
  "validate_and_canonicalize e c =
     (case (case cn_time_window c of None \<Rightarrow> None | Some w \<Rightarrow> validate_window (ch_tzdb e) w) of
        Some err \<Rightarrow> Inl (BadWindow err)
      | None \<Rightarrow>
          if (case cn_rate c of None \<Rightarrow> False | Some r \<Rightarrow> rl_max_per_hour r < 0) then Inl NegativeRate
          else if (case cn_max_amount c of None \<Rightarrow> False | Some m \<Rightarrow> f64_less m (Fin 0)) then Inl NegativeAmount
          else and_then (canonicalize_all (ch_urls e) (cn_resources c)) (\<lambda>rs. Inr (c\<lparr>cn_resources := rs\<rparr>)))"

section \<open>Resolving a chain\<close>

definition max_chain_walk :: nat where
  "max_chain_walk = 32"

definition live :: "instant \<Rightarrow> delegation_row \<Rightarrow> bool" where
  "live now r \<longleftrightarrow> dr_active r \<and> not_expired now (dr_expires_at r)"

text \<open>\<open>ORDER BY created_at DESC, id DESC LIMIT 1\<close>.\<close>

definition newer :: "delegation_row \<Rightarrow> delegation_row \<Rightarrow> bool" where
  "newer m r \<longleftrightarrow> dr_created_at m > dr_created_at r \<or> dr_created_at m = dr_created_at r \<and> dr_id m > dr_id r"

fun latest :: "delegation_row list \<Rightarrow> delegation_row option" where
  "latest [] = None"
| "latest (r # rs) = (case latest rs of None \<Rightarrow> Some r | Some m \<Rightarrow> if newer m r then Some m else Some r)"

definition parent_id :: "delegation_row \<Rightarrow> string" where
  "parent_id r = (case dr_parent r of None \<Rightarrow> [] | Some p \<Rightarrow> p)"

text \<open>The walk from the leaf to the root, bounded by the first argument.\<close>

fun walk :: "nat \<Rightarrow> instant \<Rightarrow> db \<Rightarrow> string \<Rightarrow> chain_error + delegation_row list" where
  "walk 0 now s rid = Inr []"
| "walk (Suc n) now s rid =
     (if rid = [] then Inr []
      else case find (\<lambda>r. dr_id r = rid \<and> live now r) (db_delegations s) of
             None \<Rightarrow> Inl ChainBroken
           | Some r \<Rightarrow> and_then (walk n now s (parent_id r)) (\<lambda>rs. Inr (r # rs)))"

definition one_year :: duration where
  "one_year = 365 * 24 * 3600 * nanos"

definition row_grant :: "instant \<Rightarrow> delegation_row \<Rightarrow> grant option \<Rightarrow> grant" where
  "row_grant now l parent =
     Grant (dr_delegator_type l @ '':'' @ dr_delegator l) (''agent:'' @ dr_delegatee l) (dr_scopes l)
       (sc_decoded (dr_constraints l))
       (case dr_expires_at l of Some x \<Rightarrow> x | None \<Rightarrow> now + one_year) parent"

text \<open>The reconstruction, over the links in the order root to leaf.\<close>

fun build_grants :: "instant \<Rightarrow> delegation_row list \<Rightarrow> grant option \<Rightarrow> chain_error + grant option" where
  "build_grants now [] parent = Inr parent"
| "build_grants now (l # ls) parent =
     (if \<not> sc_ok (dr_constraints l) then Inl ConstraintDecodeFailed
      else build_grants now ls (Some (row_grant now l parent)))"

definition resolve_grant_chain :: "instant \<Rightarrow> db \<Rightarrow> string \<Rightarrow> string \<Rightarrow> chain_error + grant \<times> string" where
  "resolve_grant_chain now s agent user =
     (case latest (filter (\<lambda>r. dr_delegatee r = agent \<and> live now r) (db_delegations s)) of
        None \<Rightarrow> Inl NoActiveDelegation
      | Some leaf \<Rightarrow>
          and_then (walk max_chain_walk now s (dr_id leaf)) (\<lambda>chain.
            if chain = [] then Inl EmptyChain
            else if dr_delegator_type (last chain) \<noteq> ''user'' \<or> dr_delegator (last chain) \<noteq> user
            then Inl NotRootedAtUser
            else and_then (build_grants now (rev chain) None) (\<lambda>g.
              case g of None \<Rightarrow> Inl EmptyChain | Some gr \<Rightarrow> Inr (gr, dr_id leaf))))"

section \<open>Re-delegation\<close>

fun agent_in_chain :: "nat \<Rightarrow> db \<Rightarrow> string \<Rightarrow> string \<Rightarrow> chain_error + bool" where
  "agent_in_chain 0 s rid cand = Inr False"
| "agent_in_chain (Suc n) s rid cand =
     (if rid = [] then Inr False
      else case find (\<lambda>r. dr_id r = rid) (db_delegations s) of
             None \<Rightarrow> Inl ChainLookupFailed
           | Some r \<Rightarrow> if dr_delegatee r = cand then Inr True else agent_in_chain n s (parent_id r) cand)"

definition active_agent_in :: "db \<Rightarrow> string \<Rightarrow> string option \<Rightarrow> bool" where
  "active_agent_in s aid org \<longleftrightarrow>
     list_ex (\<lambda>a. ag_id a = aid \<and> ag_status a = ''active'' \<and> ag_org a = org) (db_agents s)"

definition insert_delegation :: "delegation_row \<Rightarrow> db \<Rightarrow> db option" where
  "insert_delegation d s =
     (if dr_id d \<in> dr_id ` set (db_delegations s) \<or> dr_delegatee d \<notin> ag_id ` set (db_agents s) then None
      else Some (s\<lparr>db_delegations := db_delegations s @ [d]\<rparr>))"

text \<open>The row of the child.\<close>

definition child_row ::
    "'r chain_env \<Rightarrow> delegation_row \<Rightarrow> string \<Rightarrow> string list \<Rightarrow> stored_constraints \<Rightarrow> duration \<Rightarrow> delegation_row" where
  "child_row e p delegatee scopes stored ttl =
     (let own = ch_now e + ttl;
          ex = (case dr_expires_at p of None \<Rightarrow> own | Some x \<Rightarrow> if own > x then x else own)
      in \<lparr>dr_id = ch_new_id e, dr_delegator_type = ''agent'', dr_delegator = dr_delegatee p,
          dr_delegatee = delegatee, dr_scopes = scopes, dr_constraints = stored, dr_active = True,
          dr_created_at = ch_now e, dr_expires_at = Some ex, dr_org = dr_org p, dr_consent = None,
          dr_parent = Some (dr_id p), dr_depth = dr_depth p + 1\<rparr>)"

text \<open>
  \<open>Redelegate\<close> is several statements outside a transaction. \<open>sp\<close> is the database when the parent's row is read and its
  chain walked (the walk reads only what no statement changes), \<open>sa\<close> when the agent is checked, \<open>s\<close> when the child is
  inserted. The walk compares the agents it reads with the delegatee as the client spells it; the two statements after it
  compare and store UUIDs. What follows once the parent's row \<open>p\<close> has been found:
\<close>

definition redelegate_from ::
    "'r chain_env \<Rightarrow> delegation_row \<Rightarrow> string \<Rightarrow> string \<Rightarrow> string list \<Rightarrow> constraints \<Rightarrow> duration \<Rightarrow> db \<Rightarrow> db \<Rightarrow> db
       \<Rightarrow> chain_error + string \<times> db" where
  "redelegate_from e p delegator delegatee scopes c ttl sp sa s =
     (if dr_delegatee p \<noteq> delegator then Inl NotHolder
      else if \<not> is_subset scopes (dr_scopes p) then Inl ScopesExceedParent
      else if dr_depth p + 1 \<ge> default_max_depth then Inl MaxDepthExceeded
      else case agent_in_chain max_chain_walk sp (dr_id p) delegatee of
             Inl err \<Rightarrow> Inl err
           | Inr in_chain \<Rightarrow>
               if in_chain then Inl ChainCycle
               else case ch_uuid e delegatee of
                      None \<Rightarrow> Inl BadUuid
                    | Some aid \<Rightarrow>
                        if \<not> active_agent_in sa aid (dr_org p) then Inl DelegateeNotInOrg
                        else case ch_jsonb e (tighten (sc_decoded (dr_constraints p)) c) of
                               None \<Rightarrow> Inl CreateFailed
                             | Some stored \<Rightarrow>
                                 (case insert_delegation (child_row e p aid scopes stored ttl) s of
                                    None \<Rightarrow> Inl CreateFailed
                                  | Some s' \<Rightarrow>
                                      Inr (ch_new_id e, emit [Metric ''delegations'' ''redelegate'' 1] s')))"

definition redelegate ::
    "'r chain_env \<Rightarrow> string \<Rightarrow> string \<Rightarrow> string \<Rightarrow> string list \<Rightarrow> constraints \<Rightarrow> duration \<Rightarrow> db \<Rightarrow> db \<Rightarrow> db
       \<Rightarrow> chain_error + string \<times> db"
where
  "redelegate e parent_did delegator delegatee scopes c0 ttl sp sa s =
     (if delegatee = [] \<or> scopes = [] then Inl DelegateeRequired
      else and_then (validate_and_canonicalize e c0) (\<lambda>c.
        case ch_uuid e parent_did of
          None \<Rightarrow> Inl BadUuid
        | Some pid \<Rightarrow>
            (case find (\<lambda>r. dr_id r = pid \<and> live (ch_now e) r) (db_delegations sp) of
               None \<Rightarrow> Inl ParentNotFound
             | Some p \<Rightarrow> redelegate_from e p delegator delegatee scopes c ttl sp sa s)))"

section \<open>Consent\<close>

record consent_request =
  cq_user :: string
  cq_agent :: string
  cq_org :: string
  cq_scopes :: "string list"
  cq_constraints :: constraints
  cq_resource :: string
  cq_ttl :: duration

text \<open>The transaction: the consent, then the root delegation that names it; \<open>user\<close>, \<open>agent\<close> and \<open>org\<close> as stored.\<close>

definition consent_tx ::
    "'r chain_env \<Rightarrow> consent_request \<Rightarrow> stored_constraints \<Rightarrow> string \<Rightarrow> string \<Rightarrow> string option \<Rightarrow> db
       \<Rightarrow> chain_error + (string \<times> string) \<times> db" where
  "consent_tx e req stored user agent org s =
     (let ex = (if cq_ttl req > 0 then Some (ch_now e + cq_ttl req) else None)
      in if ch_new_id e \<in> co_id ` set (db_consents s) \<or> user \<notin> us_id ` set (db_users s)
            \<or> agent \<notin> ag_id ` set (db_agents s)
         then Inl ConsentFailed
         else case insert_delegation
                \<lparr>dr_id = ch_new_id2 e, dr_delegator_type = ''user'', dr_delegator = user,
                 dr_delegatee = agent, dr_scopes = cq_scopes req, dr_constraints = stored,
                 dr_active = True, dr_created_at = ch_now e, dr_expires_at = ex, dr_org = org,
                 dr_consent = Some (ch_new_id e), dr_parent = None, dr_depth = 0\<rparr>
                (s\<lparr>db_consents := db_consents s @
                   [\<lparr>co_id = ch_new_id e, co_user = user, co_agent = agent, co_org = org,
                     co_scopes = cq_scopes req, co_constraints = stored, co_resource = cq_resource req\<rparr>]\<rparr>) of
                None \<Rightarrow> Inl CreateFailed
              | Some s' \<Rightarrow> Inr ((ch_new_id e, ch_new_id2 e), emit [Metric ''delegations'' ''consent'' 1] s'))"

text \<open>An id that may be absent: the argument of a column that may be NULL.\<close>

definition uuid_arg :: "'r chain_env \<Rightarrow> string \<Rightarrow> string option option" where
  "uuid_arg e x = (if x = [] then Some None else map_option Some (ch_uuid e x))"

definition grant_consent :: "'r chain_env \<Rightarrow> consent_request \<Rightarrow> db \<Rightarrow> chain_error + (string \<times> string) \<times> db" where
  "grant_consent e req s =
     (if cq_user req = [] \<or> cq_agent req = [] \<or> cq_scopes req = [] then Inl UserAgentScopesRequired
      else and_then (validate_and_canonicalize e
               (if cn_resources (cq_constraints req) = [] \<and> cq_resource req \<noteq> []
                then (cq_constraints req)\<lparr>cn_resources := [cq_resource req]\<rparr> else cq_constraints req)) (\<lambda>c.
        case (ch_jsonb e c, ch_uuid e (cq_user req), ch_uuid e (cq_agent req), uuid_arg e (cq_org req)) of
          (Some stored, Some user, Some agent, Some org) \<Rightarrow> consent_tx e req stored user agent org s
        | _ \<Rightarrow> Inl ConsentFailed))"

text \<open>\<open>ListUserDelegations\<close>: a row of the answer is the delegation with the name of its agent.\<close>

definition list_user_delegations :: "db \<Rightarrow> string \<Rightarrow> (delegation_row \<times> string) list" where
  "list_user_delegations s user =
     concat (map (\<lambda>d. map (\<lambda>a. (d, ag_name a)) (filter (\<lambda>a. ag_id a = dr_delegatee d) (db_agents s)))
       (sort_key (\<lambda>d. - dr_created_at d)
         (filter (\<lambda>d. dr_delegator d = user \<and> dr_delegator_type d = ''user'') (db_delegations s))))"

section \<open>Revoking a tree\<close>

text \<open>
  The recursive query: the rows of one level give the ids of the next. The number of rows bounds the
  number of levels, because a row's parent exists before it.
\<close>

fun tree_ids :: "nat \<Rightarrow> delegation_row list \<Rightarrow> string list \<Rightarrow> string list" where
  "tree_ids 0 rows ids = []"
| "tree_ids (Suc n) rows ids =
     (if ids = [] then []
      else ids @ tree_ids n rows
        (map dr_id (filter (\<lambda>r. case dr_parent r of None \<Rightarrow> False | Some p \<Rightarrow> p \<in> set ids) rows)))"

definition subtree :: "db \<Rightarrow> string \<Rightarrow> string list" where
  "subtree s did =
     tree_ids (length (db_delegations s)) (db_delegations s)
       (map dr_id (filter (\<lambda>r. dr_id r = did) (db_delegations s)))"

definition revoke_delegation_tree :: "instant \<Rightarrow> string \<Rightarrow> string \<Rightarrow> db \<Rightarrow> chain_error + (int \<times> int) \<times> db" where
  "revoke_delegation_tree now did user s =
     (if \<not> list_ex (\<lambda>r. dr_id r = did \<and> dr_delegator r = user \<and> dr_delegator_type r = ''user'') (db_delegations s)
      then Inl NotYours
      else let ids = subtree s did;
               (nd, s1) = deactivate (\<lambda>r. dr_id r \<in> set ids \<and> dr_active r) s;
               (nt, s2) = mark_revoked (\<lambda>t. case tr_delegation t of None \<Rightarrow> False | Some d \<Rightarrow> d \<in> set ids) now s1;
               s3 = s2\<lparr>db_audit := db_audit s2 @
                 [\<lparr>ae_actor_type = ''user'', ae_actor = user, ae_action = ''delegation.revoked'',
                   ae_resource = did, ae_subject = [], ae_actor_chain = [], ae_delegation = None, ae_jti = [],
                   ae_org = None,
                   ae_metadata = ''{\"delegations_revoked\":'' @ int_str nd @ '',\"tokens_revoked\":'' @ int_str nt @ ''}''\<rparr>]\<rparr>
      in Inr ((nd, nt),
              emit ((if nt > 0 then [Metric ''revocations'' ''delegation'' nt] else []) @
                    [Publish (no_event\<lparr>le_type := ''revoke'', le_decision := ''REVOKE'', le_delegation := did,
                       le_reason := int_str nd @ '' delegation(s), '' @ int_str nt @ '' token(s) killed'', le_count := nt\<rparr>)]) s3))"

section \<open>The shape of the table\<close>

text \<open>A root row, and a row that is a legitimate child of another.\<close>

definition root_row :: "delegation_row \<Rightarrow> bool" where
  "root_row r \<longleftrightarrow> dr_parent r = None \<and> dr_delegator_type r = ''user'' \<and> dr_depth r = 0"

definition child_of :: "delegation_row \<Rightarrow> delegation_row \<Rightarrow> bool" where
  "child_of q r \<longleftrightarrow>
     dr_parent r = Some (dr_id q) \<and> dr_delegator_type r = ''agent'' \<and> dr_delegator r = dr_delegatee q \<and>
     set (dr_scopes r) \<subseteq> set (dr_scopes q) \<and> dr_depth r = dr_depth q + 1 \<and> dr_depth r < default_max_depth \<and>
     dr_org r = dr_org q \<and>
     (\<forall>x. dr_expires_at q = Some x \<longrightarrow> (\<exists>y. dr_expires_at r = Some y \<and> y \<le> x)) \<and>
     (\<forall>tzdb now a. permit tzdb now (sc_decoded (dr_constraints r)) a = None \<longrightarrow>
                   permit tzdb now (sc_decoded (dr_constraints q)) a = None)"

text \<open>A path from a row up to its root.\<close>

fun chain_path :: "delegation_row list \<Rightarrow> delegation_row list \<Rightarrow> bool" where
  "chain_path rows [] = False"
| "chain_path rows [r] = (r \<in> set rows \<and> root_row r)"
| "chain_path rows (r # q # cs) = (r \<in> set rows \<and> child_of q r \<and> chain_path rows (q # cs))"

text \<open>JSONB strings hold no NUL, so the sentinel is never stored.\<close>

definition plain :: "constraints \<Rightarrow> bool" where
  "plain c \<longleftrightarrow> deny_all \<notin> set (cn_categories c) \<union> set (cn_tools c) \<union> set (cn_resources c)"

definition rows_inv :: "delegation_row list \<Rightarrow> bool" where
  "rows_inv rows \<longleftrightarrow>
     distinct (map dr_id rows) \<and> (\<forall>r \<in> set rows. dr_id r \<noteq> []) \<and>
     (\<forall>r \<in> set rows. plain (sc_decoded (dr_constraints r)) \<and> (\<exists>cs. chain_path rows (r # cs)))"

lemma plain_wf: "plain c \<Longrightarrow> wf_constraints c"
  by (auto simp: plain_def wf_constraints_def wf_allow_def)

lemma rows_inv_facts:
  assumes "rows_inv rows"
  shows "distinct (map dr_id rows)"
    and "r \<in> set rows \<Longrightarrow> dr_id r \<noteq> []"
    and "r \<in> set rows \<Longrightarrow> plain (sc_decoded (dr_constraints r))"
    and "r \<in> set rows \<Longrightarrow> \<exists>cs. chain_path rows (r # cs)"
  using assms by (auto simp: rows_inv_def)

lemma child_depth: "child_of q r \<Longrightarrow> dr_depth r = dr_depth q + 1 \<and> dr_depth r < default_max_depth"
  by (simp add: child_of_def)

lemma child_parent: "child_of q r \<Longrightarrow> parent_id r = dr_id q"
  by (simp add: child_of_def parent_id_def)

lemma root_parent: "root_row r \<Longrightarrow> parent_id r = [] \<and> dr_depth r = 0"
  by (simp add: root_row_def parent_id_def)

lemma root_row_no_child: "root_row r \<Longrightarrow> \<not> child_of q r"
  by (simp add: root_row_def child_of_def)

lemma chain_path_one: "chain_path rows [r] \<Longrightarrow> r \<in> set rows \<and> root_row r"
  by simp

lemma chain_path_more: "chain_path rows (r # q # cs) \<Longrightarrow> r \<in> set rows \<and> child_of q r \<and> chain_path rows (q # cs)"
  by simp

lemma chain_path_rows: "chain_path rows chain \<Longrightarrow> set chain \<subseteq> set rows"
  by (induction rows chain rule: chain_path.induct) auto

lemma chain_path_mono: "chain_path rows chain \<Longrightarrow> set rows \<subseteq> set rows' \<Longrightarrow> chain_path rows' chain"
  by (induction rows chain rule: chain_path.induct) auto

lemma chain_path_depth: "chain_path rows (r # cs) \<Longrightarrow> dr_depth r = int (length cs)"
proof (induction cs arbitrary: r)
  case Nil
  from root_parent [OF conjunct2 [OF chain_path_one [OF Nil]]] show ?case by simp
next
  case (Cons q cs)
  from chain_path_more [OF Cons.prems] have "child_of q r" "chain_path rows (q # cs)" by blast+
  with child_depth [of q r] Cons.IH [of q] show ?case by simp
qed

lemma chain_path_short: "chain_path rows (r # cs) \<Longrightarrow> length cs < 5"
proof (cases cs)
  case (Cons q cs')
  assume path: "chain_path rows (r # cs)"
  with Cons have "dr_depth r < default_max_depth" using chain_path_more child_depth by blast
  with chain_path_depth [OF path] show ?thesis by (simp add: default_max_depth_def)
qed simp

lemma chain_path_suffix: "chain_path rows (pre @ r # cs) \<Longrightarrow> chain_path rows (r # cs)"
proof (induction pre)
  case (Cons x pre)
  then have "chain_path rows (pre @ r # cs)" by (cases "pre @ r # cs") auto
  then show ?case by (rule Cons.IH)
qed simp

lemma chain_path_distinct: "chain_path rows chain \<Longrightarrow> distinct chain"
proof (induction chain)
  case (Cons r cs)
  have "r \<notin> set cs"
  proof
    assume "r \<in> set cs"
    then obtain pre post where cs: "cs = pre @ r # post" by (auto simp: in_set_conv_decomp)
    from Cons.prems have "chain_path rows ((r # pre) @ r # post)" by (simp add: cs)
    from chain_path_depth [OF chain_path_suffix [OF this]] chain_path_depth [OF Cons.prems] cs
    show False by simp
  qed
  moreover have "distinct cs" using Cons by (cases cs) (auto dest: chain_path_more)
  ultimately show ?case by simp
qed simp

lemma chain_path_length: "chain_path rows chain \<Longrightarrow> length chain \<le> length rows"
  by (metis chain_path_distinct chain_path_rows distinct_card card_mono List.finite_set card_length le_trans)

lemma chain_path_root: "chain_path rows chain \<Longrightarrow> root_row (last chain)"
  by (induction rows chain rule: chain_path.induct) auto

lemma row_by_id: "distinct (map dr_id rows) \<Longrightarrow> r \<in> set rows \<Longrightarrow> q \<in> set rows \<Longrightarrow> dr_id r = dr_id q \<Longrightarrow> r = q"
  by (metis distinct_map inj_onD)

lemma find_id_row:
  "distinct (map dr_id rows) \<Longrightarrow> r \<in> set rows \<Longrightarrow> find (\<lambda>q. dr_id q = dr_id r) rows = Some r"
  by (induction rows) auto

lemma find_live_row:
  "distinct (map dr_id rows) \<Longrightarrow> r \<in> set rows \<Longrightarrow>
   find (\<lambda>q. dr_id q = dr_id r \<and> live now q) rows = (if live now r then Some r else None)"
proof (cases "live now r")
  assume "distinct (map dr_id rows)" "r \<in> set rows"
  moreover case True
  ultimately show ?thesis by (induction rows) auto
next
  assume "distinct (map dr_id rows)" "r \<in> set rows"
  moreover case False
  ultimately show ?thesis using row_by_id by (fastforce simp: find_None_iff)
qed

text \<open>The upward walks follow the path.\<close>

lemma walk_root: "walk n now s [] = Inr []"
  by (cases n) auto

lemma walk_path:
  assumes "rows_inv (db_delegations s)"
  shows "chain_path (db_delegations s) (r # cs) \<Longrightarrow> length cs < n \<Longrightarrow>
    walk n now s (dr_id r) = (if \<forall>q \<in> set (r # cs). live now q then Inr (r # cs) else Inl ChainBroken)"
proof (induction cs arbitrary: r n)
  case Nil
  then have r: "r \<in> set (db_delegations s)" "parent_id r = []" using chain_path_one root_parent by blast+
  from Nil.prems(2) obtain m where "n = Suc m" by (cases n) auto
  with r rows_inv_facts(1,2) [OF assms] show ?case by (simp add: find_live_row walk_root)
next
  case (Cons q cs)
  then have r: "r \<in> set (db_delegations s)" "parent_id r = dr_id q" "chain_path (db_delegations s) (q # cs)"
    using chain_path_more child_parent by blast+
  from Cons.prems(2) obtain m where m: "n = Suc m" "length cs < m" by (cases n) auto
  from Cons.IH [OF r(3) m(2)] m(1) r(1,2) rows_inv_facts(1,2) [OF assms] show ?case
    by (simp add: find_live_row)
qed

lemma agent_in_chain_path:
  assumes "rows_inv (db_delegations s)"
  shows "chain_path (db_delegations s) (r # cs) \<Longrightarrow> length cs < n \<Longrightarrow>
         agent_in_chain n s (dr_id r) cand = Inr (cand \<in> dr_delegatee ` set (r # cs))"
proof (induction cs arbitrary: r n)
  case Nil
  then have r: "r \<in> set (db_delegations s)" "parent_id r = []" using chain_path_one root_parent by blast+
  from Nil.prems(2) obtain m where "n = Suc m" by (cases n) auto
  with r rows_inv_facts(1,2) [OF assms] show ?case by (cases m) (auto simp: find_id_row)
next
  case (Cons q cs)
  then have r: "r \<in> set (db_delegations s)" "parent_id r = dr_id q" "chain_path (db_delegations s) (q # cs)"
    using chain_path_more child_parent by blast+
  from Cons.prems(2) obtain m where m: "n = Suc m" "length cs < m" by (cases n) auto
  from Cons.IH [OF r(3) m(2)] m(1) r(1,2) rows_inv_facts(1,2) [OF assms] show ?case
    by (auto simp: find_id_row)
qed

section \<open>The operations keep the shape\<close>

text \<open>What is relied on of a JSONB column: it gives back what was stored, and refuses a NUL in a string.\<close>

definition jsonb_laws :: "(constraints \<Rightarrow> stored_constraints option) \<Rightarrow> bool" where
  "jsonb_laws jb \<longleftrightarrow> (\<forall>c st. jb c = Some st \<longrightarrow> st = \<lparr>sc_decoded = c, sc_ok = True\<rparr> \<and> plain c)"

lemma jsonb_lawsD: "jsonb_laws jb \<Longrightarrow> jb c = Some st \<Longrightarrow> sc_decoded st = c \<and> sc_ok st \<and> plain c"
proof -
  assume "jsonb_laws jb" "jb c = Some st"
  then have "st = \<lparr>sc_decoded = c, sc_ok = True\<rparr> \<and> plain c" unfolding jsonb_laws_def by blast
  then show ?thesis by simp
qed

lemma insert_delegation_Some:
  "insert_delegation d s = Some t \<Longrightarrow>
   dr_id d \<notin> dr_id ` set (db_delegations s) \<and> db_delegations t = db_delegations s @ [d] \<and> db_tokens t = db_tokens s"
  by (auto simp: insert_delegation_def split: if_splits)

lemma rows_inv_insert:
  assumes "rows_inv rows" and "dr_id d \<notin> dr_id ` set rows" and "dr_id d \<noteq> []"
    and "plain (sc_decoded (dr_constraints d))" and "chain_path (rows @ [d]) (d # cs)"
  shows "rows_inv (rows @ [d])"
proof -
  have "\<exists>cs. chain_path (rows @ [d]) (r # cs)" if "r \<in> set rows" for r
    using rows_inv_facts(4) [OF assms(1) that] chain_path_mono [of rows _ "rows @ [d]"] by auto
  with assms show ?thesis by (auto simp: rows_inv_def)
qed

lemma redelegate_Inr:
  assumes "redelegate e parent_did delegator delegatee scopes c0 ttl sp sa s = Inr (cid, t)"
  obtains p c where "p \<in> set (db_delegations sp)" and "ch_uuid e parent_did = Some (dr_id p)" and "live (ch_now e) p"
    and "validate_and_canonicalize e c0 = Inr c"
    and "redelegate_from e p delegator delegatee scopes c ttl sp sa s = Inr (cid, t)"
proof -
  from assms obtain pid p c where c: "validate_and_canonicalize e c0 = Inr c" and pid: "ch_uuid e parent_did = Some pid"
    and find: "find (\<lambda>r. dr_id r = pid \<and> live (ch_now e) r) (db_delegations sp) = Some p"
    and rest: "redelegate_from e p delegator delegatee scopes c ttl sp sa s = Inr (cid, t)"
    by (auto simp: redelegate_def and_then_eq_Inr_iff split: if_splits option.splits)
  from find_SomeD [OF find] that [OF _ _ _ c rest] pid show thesis by blast
qed

lemma child_row_id [simp]: "dr_id (child_row e p delegatee scopes stored ttl) = ch_new_id e"
  by (simp add: child_row_def Let_def)

lemma redelegate_from_Inr:
  assumes "redelegate_from e p delegator delegatee scopes c ttl sp sa s = Inr (cid, t)"
  obtains aid stored where "dr_delegatee p = delegator" and "set scopes \<subseteq> set (dr_scopes p)"
    and "dr_depth p + 1 < default_max_depth"
    and "agent_in_chain max_chain_walk sp (dr_id p) delegatee = Inr False"
    and "ch_uuid e delegatee = Some aid" and "active_agent_in sa aid (dr_org p)"
    and "ch_jsonb e (tighten (sc_decoded (dr_constraints p)) c) = Some stored"
    and "ch_new_id e \<notin> dr_id ` set (db_delegations s)" and "cid = ch_new_id e"
    and "db_delegations t = db_delegations s @ [child_row e p aid scopes stored ttl]"
    and "db_tokens t = db_tokens s"
proof -
  from assms have c: "dr_delegatee p = delegator" "set scopes \<subseteq> set (dr_scopes p)" "dr_depth p + 1 < default_max_depth"
    "agent_in_chain max_chain_walk sp (dr_id p) delegatee = Inr False"
    by (auto simp: redelegate_from_def is_subset_iff split: if_splits sum.splits)
  with assms obtain aid stored s' where
    aid: "ch_uuid e delegatee = Some aid" "active_agent_in sa aid (dr_org p)"
    and st: "ch_jsonb e (tighten (sc_decoded (dr_constraints p)) c) = Some stored"
    and ins: "insert_delegation (child_row e p aid scopes stored ttl) s = Some s'"
    and t: "cid = ch_new_id e" "t = emit [Metric ''delegations'' ''redelegate'' 1] s'"
    by (auto simp: redelegate_from_def is_subset_iff split: option.splits if_splits)
  from insert_delegation_Some [OF ins] t that [OF c aid st] show thesis by simp
qed

text \<open>
  What a statement that ran earlier read: rows that are still there, though perhaps inactive since. No operation changes
  anything else of a row.
\<close>

definition earlier :: "db \<Rightarrow> db \<Rightarrow> bool" where
  "earlier d s \<longleftrightarrow> (\<forall>r \<in> set (db_delegations d). \<exists>b. r\<lparr>dr_active := b\<rparr> \<in> set (db_delegations s))"

lemma child_row_inactive [simp]: "child_row e (p\<lparr>dr_active := b\<rparr>) = child_row e p"
  by (simp add: child_row_def fun_eq_iff)

lemma rows_inv_redelegate:
  assumes "rows_inv (db_delegations s)" and "jsonb_laws (ch_jsonb e)" and "ch_new_id e \<noteq> []" and "earlier sp s"
    and "redelegate e parent_did delegator delegatee scopes c0 ttl sp sa s = Inr (cid, t)"
  shows "rows_inv (db_delegations t)"
proof -
  from redelegate_Inr [OF assms(5)] obtain p0 c where p0: "p0 \<in> set (db_delegations sp)"
    and rf: "redelegate_from e p0 delegator delegatee scopes c ttl sp sa s = Inr (cid, t)" by blast
  from assms(4) p0 obtain b where "p0\<lparr>dr_active := b\<rparr> \<in> set (db_delegations s)" unfolding earlier_def by blast
  moreover define p where "p = p0\<lparr>dr_active := b\<rparr>"
  ultimately have p: "p \<in> set (db_delegations s)" by simp
  have same: "dr_scopes p0 = dr_scopes p" "dr_depth p0 = dr_depth p" "dr_constraints p0 = dr_constraints p"
    "child_row e p0 = child_row e p" by (simp_all add: p_def)
  obtain aid stored where "dr_delegatee p0 = delegator" and r: "set scopes \<subseteq> set (dr_scopes p)" "dr_depth p + 1 < default_max_depth"
    and "agent_in_chain max_chain_walk sp (dr_id p0) delegatee = Inr False" and "ch_uuid e delegatee = Some aid"
    and "active_agent_in sa aid (dr_org p0)"
    and j: "ch_jsonb e (tighten (sc_decoded (dr_constraints p)) c) = Some stored"
      "ch_new_id e \<notin> dr_id ` set (db_delegations s)"
    and "cid = ch_new_id e"
    and t: "db_delegations t = db_delegations s @ [child_row e p aid scopes stored ttl]"
    and "db_tokens t = db_tokens s"
    by (rule redelegate_from_Inr [OF rf, unfolded same])
  let ?d = "child_row e p aid scopes stored ttl"
  obtain cs where path: "chain_path (db_delegations s) (p # cs)"
    using rows_inv_facts(4) [OF assms(1) p] by blast
  have wf: "wf_constraints (sc_decoded (dr_constraints p))"
    by (rule plain_wf [OF rows_inv_facts(3) [OF assms(1) p]])
  from jsonb_lawsD [OF assms(2) j(1)] have st: "sc_decoded stored = tighten (sc_decoded (dr_constraints p)) c"
    "plain (sc_decoded stored)" by auto
  have "child_of p ?d"
    using r(1,2) st tighten_refines_parent [OF wf]
    by (auto simp: child_of_def child_row_def Let_def split: option.splits)
  moreover have "chain_path (db_delegations s @ [?d]) (p # cs)"
    by (rule chain_path_mono [OF path]) auto
  ultimately have "chain_path (db_delegations s @ [?d]) (?d # p # cs)" by simp
  moreover have "plain (sc_decoded (dr_constraints ?d))" using st(2) by (simp add: child_row_def Let_def)
  ultimately show ?thesis
    unfolding t using j(2) assms(1,3) by (intro rows_inv_insert [where d = ?d and cs = "p # cs"]) simp_all
qed

lemma rows_inv_root:
  assumes "rows_inv rows" and "root_row d" and "dr_id d \<notin> dr_id ` set rows" and "dr_id d \<noteq> []"
    and "plain (sc_decoded (dr_constraints d))"
  shows "rows_inv (rows @ [d])"
  using assms by (intro rows_inv_insert [where cs = "[]"]) auto

lemma consent_tx_Inr:
  assumes "consent_tx e req stored user agent org s = Inr (ids, t)"
  shows "\<exists>d. db_delegations t = db_delegations s @ [d] \<and> dr_id d \<notin> dr_id ` set (db_delegations s) \<and> root_row d
     \<and> dr_id d = ch_new_id2 e \<and> dr_id d = snd ids \<and> dr_constraints d = stored \<and> dr_delegator d = user
     \<and> dr_delegatee d = agent \<and> dr_scopes d = cq_scopes req
     \<and> dr_expires_at d = (if cq_ttl req > 0 then Some (ch_now e + cq_ttl req) else None)
     \<and> db_tokens t = db_tokens s"
proof -
  obtain d s0 s' where ins: "insert_delegation d s0 = Some s'" and t: "t = emit [Metric ''delegations'' ''consent'' 1] s'"
    and d: "root_row d" "dr_id d = ch_new_id2 e" "dr_id d = snd ids" "dr_constraints d = stored" "dr_delegator d = user"
      "dr_delegatee d = agent" "dr_scopes d = cq_scopes req"
      "dr_expires_at d = (if cq_ttl req > 0 then Some (ch_now e + cq_ttl req) else None)"
    and s0: "db_delegations s0 = db_delegations s" "db_tokens s0 = db_tokens s"
    using assms unfolding consent_tx_def Let_def
    by (auto simp: root_row_def split: if_split_asm option.split_asm)
  from insert_delegation_Some [OF ins] t d s0 show ?thesis by (intro exI [of _ d]) simp
qed

lemma grant_consent_Inr:
  assumes "grant_consent e req s = Inr (ids, t)"
  obtains c st user agent org where "ch_jsonb e c = Some st" and "ch_uuid e (cq_user req) = Some user"
    and "ch_uuid e (cq_agent req) = Some agent" and "consent_tx e req st user agent org s = Inr (ids, t)"
proof -
  from assms obtain c where "(case (ch_jsonb e c, ch_uuid e (cq_user req), ch_uuid e (cq_agent req), uuid_arg e (cq_org req)) of
      (Some stored, Some user, Some agent, Some org) \<Rightarrow> consent_tx e req stored user agent org s
    | _ \<Rightarrow> Inl ConsentFailed) = Inr (ids, t)"
    unfolding grant_consent_def and_then_eq_Inr_iff by (auto simp: and_then_eq_Inr_iff split: if_split_asm)
  then show thesis by (cases "ch_jsonb e c") (auto intro: that split: option.split_asm)
qed

lemma rows_inv_consent:
  assumes "rows_inv (db_delegations s)" and "jsonb_laws (ch_jsonb e)" and "ch_new_id2 e \<noteq> []"
    and "grant_consent e req s = Inr (x, t)"
  shows "rows_inv (db_delegations t)"
proof -
  obtain c st user agent org where c: "ch_jsonb e c = Some st" and "ch_uuid e (cq_user req) = Some user"
    and "ch_uuid e (cq_agent req) = Some agent" and tx: "consent_tx e req st user agent org s = Inr (x, t)"
    by (rule grant_consent_Inr [OF assms(4)])
  from consent_tx_Inr [OF tx] obtain d where "root_row d" "dr_id d = ch_new_id2 e" "dr_constraints d = st"
    "dr_id d \<notin> dr_id ` set (db_delegations s)" "db_delegations t = db_delegations s @ [d]" by blast
  with assms(1,3) jsonb_lawsD [OF assms(2) c] rows_inv_root [of "db_delegations s" d] show ?thesis by simp
qed

text \<open>Deactivation touches nothing the shape depends on.\<close>

definition switch_off :: "(delegation_row \<Rightarrow> bool) \<Rightarrow> delegation_row \<Rightarrow> delegation_row" where
  "switch_off sel d = (if sel d then d\<lparr>dr_active := False\<rparr> else d)"

lemma switch_off_fields [simp]:
  "dr_id (switch_off sel d) = dr_id d" "dr_delegatee (switch_off sel d) = dr_delegatee d"
  "dr_constraints (switch_off sel d) = dr_constraints d" "dr_parent (switch_off sel d) = dr_parent d"
  "root_row (switch_off sel d) = root_row d" "child_of (switch_off sel q) (switch_off sel r) = child_of q r"
  by (simp_all add: switch_off_def root_row_def child_of_def)

lemma switch_off_comp [simp]:
  "dr_id \<circ> switch_off sel = dr_id" "dr_delegatee \<circ> switch_off sel = dr_delegatee"
  by (simp_all add: fun_eq_iff)

lemma chain_path_switch_off:
  "chain_path rows chain \<Longrightarrow> chain_path (map (switch_off sel) rows) (map (switch_off sel) chain)"
  by (induction rows chain rule: chain_path.induct) auto

lemma rows_inv_switch_off:
  assumes "rows_inv rows"
  shows "rows_inv (map (switch_off sel) rows)"
proof -
  have "\<exists>cs. chain_path (map (switch_off sel) rows) (switch_off sel r # cs)" if r: "r \<in> set rows" for r
  proof -
    from rows_inv_facts(4) [OF assms r] obtain cs where "chain_path rows (r # cs)" by blast
    from chain_path_switch_off [OF this, of sel] show ?thesis by auto
  qed
  moreover have "map dr_id (map (switch_off sel) rows) = map dr_id rows" by simp
  ultimately show ?thesis using rows_inv_facts(1,2,3) [OF assms] unfolding rows_inv_def by auto
qed

lemma deactivate_rows:
  "db_delegations (snd (deactivate sel s)) = map (switch_off sel) (db_delegations s)"
  "db_tokens (snd (deactivate sel s)) = db_tokens s"
  by (simp_all add: deactivate_def switch_off_def [abs_def])

section \<open>Reachable tables\<close>

text \<open>
  Everything that writes the table of delegations: consent, re-delegation, the user's tree revocation, and
  the agent API. The request body of the API is any JSON object; only the NUL that JSONB refuses is
  excluded from it. Between the statements of a re-delegation the others may run.
\<close>

definition plain_request :: "agent_request \<Rightarrow> bool" where
  "plain_request req \<longleftrightarrow>
     (\<forall>b c. req = CreateDelegation (Some b) \<longrightarrow> cdr_constraints b = Some c \<longrightarrow> plain (sc_decoded c))"

inductive chain_step :: "'r url_lib \<Rightarrow> db \<Rightarrow> db \<Rightarrow> bool" for urls where
  redelegates: "ch_urls e = urls \<Longrightarrow> jsonb_laws (ch_jsonb e) \<Longrightarrow> ch_new_id e \<noteq> [] \<Longrightarrow> earlier sp s \<Longrightarrow>
     redelegate e pid delegator delegatee scopes c ttl sp sa s = Inr (cid, t) \<Longrightarrow> chain_step urls s t"
| consents: "ch_urls e = urls \<Longrightarrow> jsonb_laws (ch_jsonb e) \<Longrightarrow> ch_new_id2 e \<noteq> [] \<Longrightarrow> grant_consent e req s = Inr (ids, t) \<Longrightarrow>
     chain_step urls s t"
| revokes_tree: "revoke_delegation_tree now did user s = Inr (n, t) \<Longrightarrow> chain_step urls s t"
| api: "en_new_id e \<noteq> [] \<Longrightarrow> plain_request req \<Longrightarrow> handle_agent e ctx req s = (st, t) \<Longrightarrow> chain_step urls s t"
| elsewhere: "db_delegations t = db_delegations s \<Longrightarrow> chain_step urls s t"

lemma revoke_tree_succeeds:
  "list_ex (\<lambda>r. dr_id r = did \<and> dr_delegator r = user \<and> dr_delegator_type r = ''user'') (db_delegations s) \<Longrightarrow>
   \<exists>n t. revoke_delegation_tree now did user s = Inr (n, t)"
  by (simp add: revoke_delegation_tree_def Let_def case_prod_unfold)

lemma revoke_tree_rows:
  assumes "revoke_delegation_tree now did user s = Inr (n, t)"
  shows "db_delegations t = map (switch_off (\<lambda>r. dr_id r \<in> set (subtree s did) \<and> dr_active r)) (db_delegations s)"
    and "db_tokens t = map (\<lambda>r. if (case tr_delegation r of None \<Rightarrow> False | Some d \<Rightarrow> d \<in> set (subtree s did)) \<and>
             tr_revoked_at r = None then r\<lparr>tr_revoked_at := Some now\<rparr> else r) (db_tokens s)"
    and "list_ex (\<lambda>r. dr_id r = did \<and> dr_delegator r = user \<and> dr_delegator_type r = ''user'') (db_delegations s)"
proof -
  let ?sel = "\<lambda>r. dr_id r \<in> set (subtree s did) \<and> dr_active r"
  let ?tok = "\<lambda>t. case tr_delegation t of None \<Rightarrow> False | Some d \<Rightarrow> d \<in> set (subtree s did)"
  from assms show "list_ex (\<lambda>r. dr_id r = did \<and> dr_delegator r = user \<and> dr_delegator_type r = ''user'') (db_delegations s)"
    by (auto simp: revoke_delegation_tree_def split: if_splits)
  from assms have t: "db_delegations t = db_delegations (snd (deactivate ?sel s))"
    "db_tokens t = db_tokens (snd (mark_revoked ?tok now (snd (deactivate ?sel s))))"
    by (auto simp: revoke_delegation_tree_def Let_def mark_revoked_def split: if_splits prod.splits)
  show "db_delegations t = map (switch_off ?sel) (db_delegations s)"
    by (simp only: t(1) deactivate_rows)
  show "db_tokens t = map (\<lambda>r. if ?tok r \<and> tr_revoked_at r = None then r\<lparr>tr_revoked_at := Some now\<rparr> else r) (db_tokens s)"
    by (simp only: t(2) mark_revoked_tokens deactivate_rows)
qed

text \<open>To the table of tokens the revocation of a tree is one of its steps.\<close>

lemma revoke_tree_token_steps:
  assumes "revoke_delegation_tree now did user s = Inr (n, t)"
  shows "(token_step J hi)\<^sup>*\<^sup>* s t"
proof -
  let ?tok = "\<lambda>t. case tr_delegation t of None \<Rightarrow> False | Some d \<Rightarrow> d \<in> set (subtree s did)"
  have "db_tokens t = db_tokens (snd (mark_revoked ?tok now s))"
    by (simp only: revoke_tree_rows(2) [OF assms] mark_revoked_tokens)
  moreover have "db_feed_version t = db_feed_version (snd (mark_revoked ?tok now s))"
    using assms by (auto simp: revoke_delegation_tree_def Let_def mark_revoked_def deactivate_def split: if_splits prod.splits)
  ultimately have "token_step J hi (snd (mark_revoked ?tok now s)) t" by (rule token_step.elsewhere)
  with token_step.marks show ?thesis by (meson converse_rtranclp_into_rtranclp rtranclp.rtrancl_refl)
qed

lemma create_delegation_row:
  "create_delegation e who org req s = Inr (d, t) \<Longrightarrow>
   db_delegations t = db_delegations s @ [d] \<and> root_row d \<and> dr_id d = en_new_id e \<and>
   dr_id d \<notin> dr_id ` set (db_delegations s) \<and>
   dr_constraints d = (case cdr_constraints req of None \<Rightarrow> \<lparr>sc_decoded = no_constraints, sc_ok = True\<rparr> | Some c \<Rightarrow> c)"
  by (auto simp: create_delegation_def and_then_eq_Inr_iff Let_def root_row_def split: if_splits)

lemma api_rows:
  assumes "handle_agent e ctx req s = (st, t)"
  shows "db_delegations t = db_delegations s \<or>
    (\<exists>sel. db_delegations t = map (switch_off sel) (db_delegations s)) \<or>
    (\<exists>b d who org. req = CreateDelegation (Some b) \<and> create_delegation e who org b s = Inr (d, t))"
proof (cases req)
  case (CreateAgent body)
  with assms show ?thesis
    by (auto simp: handle_create_agent_def Let_def only_agents_def dest!: create_agent_effect
        split: option.splits if_splits sum.splits)
next
  case (UpdateAgent aid body)
  with assms show ?thesis
    by (auto simp: only_agents_def dest!: guarded_cases update_agent_effect split: option.splits sum.splits)
next
  case (RevokeAgent aid)
  with assms show ?thesis by (auto simp: revoke_agent_def dest!: guarded_cases)
next
  case (CreateAgentToken aid body)
  with assms show ?thesis
    by (auto simp: only_agent_tokens_def dest!: guarded_cases create_agent_token_effect split: option.splits sum.splits)
next
  case (RevokeAgentToken aid tid)
  with assms show ?thesis by (auto simp: revoke_agent_token_def dest!: guarded_cases)
next
  case (CreateDelegation body)
  with assms show ?thesis
    by (auto simp: handle_create_delegation_def split: option.splits if_splits sum.splits)
next
  case (RevokeDelegation did)
  have "\<exists>sel. db_delegations (snd (revoke_delegation did who s)) = map (switch_off sel) (db_delegations s)" for who
    by (auto simp: revoke_delegation_def deactivate_rows)
  with assms RevokeDelegation show ?thesis
    by (auto simp: handle_revoke_delegation_def split: option.splits if_splits prod.splits) (metis snd_conv)+
qed (use assms in \<open>auto dest!: guarded_cases split: option.splits sum.splits\<close>)

lemma plain_no_constraints: "plain no_constraints"
  by (simp add: plain_def no_constraints_def)

lemma chain_step_inv: "chain_step urls s t \<Longrightarrow> rows_inv (db_delegations s) \<Longrightarrow> rows_inv (db_delegations t)"
proof (induction rule: chain_step.induct)
  case (redelegates e sp s pid delegator delegatee scopes c ttl sa cid t)
  show ?case by (rule rows_inv_redelegate [OF redelegates(6,2,3,4,5)])
next
  case (consents e req s ids t)
  show ?case by (rule rows_inv_consent [OF consents(5,2,3,4)])
next
  case (revokes_tree now did user s n t)
  show ?case unfolding revoke_tree_rows(1) [OF revokes_tree(1)] by (rule rows_inv_switch_off [OF revokes_tree(2)])
next
  case (api e req ctx s st t)
  from api_rows [OF api(3)] show ?case
  proof (elim disjE exE conjE)
    fix b d who org
    assume "req = CreateDelegation (Some b)" and d: "create_delegation e who org b s = Inr (d, t)"
    with api(2) have "\<And>c. cdr_constraints b = Some c \<Longrightarrow> plain (sc_decoded c)" by (simp add: plain_request_def)
    with create_delegation_row [OF d] api(1) plain_no_constraints rows_inv_root [OF api(4), of d] show ?thesis
      by (auto split: option.splits)
  qed (use api(4) rows_inv_switch_off in auto)
qed simp

text \<open>What was read at any moment of a run is \<^const>\<open>earlier\<close> at any later one.\<close>

lemma earlier_refl [simp]: "earlier s s"
proof -
  have "r\<lparr>dr_active := dr_active r\<rparr> = r" for r :: delegation_row by simp
  then show ?thesis unfolding earlier_def by metis
qed

lemma earlier_trans: "earlier d s \<Longrightarrow> earlier s t \<Longrightarrow> earlier d t"
  unfolding earlier_def by fastforce

lemma earlier_append: "db_delegations t = db_delegations s @ ds \<Longrightarrow> earlier s t"
  using earlier_refl [of s] unfolding earlier_def by fastforce

lemma earlier_switch_off: "db_delegations t = map (switch_off sel) (db_delegations s) \<Longrightarrow> earlier s t"
  unfolding earlier_def
proof
  fix r assume t: "db_delegations t = map (switch_off sel) (db_delegations s)" and r: "r \<in> set (db_delegations s)"
  have "switch_off sel r = r\<lparr>dr_active := dr_active r \<and> \<not> sel r\<rparr>" by (cases r) (simp add: switch_off_def)
  with t r show "\<exists>b. r\<lparr>dr_active := b\<rparr> \<in> set (db_delegations t)" by (metis image_eqI set_map)
qed

lemma chain_step_earlier: "chain_step urls s t \<Longrightarrow> earlier s t"
proof (induction rule: chain_step.induct)
  case (redelegates e sp s pid delegator delegatee scopes c ttl sa cid t)
  from redelegate_Inr [OF redelegates(5)] show ?case by (metis redelegate_from_Inr earlier_append)
next
  case (consents e req s ids t)
  then show ?case by (metis grant_consent_Inr consent_tx_Inr earlier_append)
next
  case (revokes_tree now did user s n t)
  show ?case by (rule earlier_switch_off [OF revoke_tree_rows(1) [OF revokes_tree]])
next
  case (api e req ctx s st t)
  from api_rows [OF api(3)] show ?case
    using earlier_append [of t s "[]"] earlier_switch_off create_delegation_row earlier_append by (elim disjE exE conjE) auto
qed (use earlier_append [of _ _ "[]"] in simp)

lemma earlier_steps: "(chain_step urls)\<^sup>*\<^sup>* s t \<Longrightarrow> earlier s t"
  by (induction rule: rtranclp_induct) (auto intro: earlier_trans chain_step_earlier)

interpretation chain_table: one_way "chain_step urls" "\<lambda>s. rows_inv (db_delegations s)" for urls
  by unfold_locales (rule chain_step_inv)

lemma reachable_inv: "(chain_step urls)\<^sup>*\<^sup>* s t \<Longrightarrow> db_delegations s = [] \<Longrightarrow> rows_inv (db_delegations t)"
  by (rule chain_table.steps_keep) (auto simp: rows_inv_def)

section \<open>Resolution follows the path\<close>

text \<open>The grants of a path, leaf first.\<close>

fun grants_of :: "instant \<Rightarrow> delegation_row list \<Rightarrow> grant option" where
  "grants_of now [] = None"
| "grants_of now (r # cs) = Some (row_grant now r (grants_of now cs))"

lemma build_grants_Inr:
  "build_grants now ls p = Inr g \<Longrightarrow>
   g = foldl (\<lambda>p l. Some (row_grant now l p)) p ls \<and> (\<forall>l \<in> set ls. sc_ok (dr_constraints l))"
  by (induction now ls p rule: build_grants.induct) (auto split: if_splits)

lemma grants_of_foldl: "foldl (\<lambda>p l. Some (row_grant now l p)) None (rev chain) = grants_of now chain"
  by (induction chain) (simp_all add: foldl_conv_foldr)

lemma latest_in: "latest rs = Some r \<Longrightarrow> r \<in> set rs"
  by (induction rs arbitrary: r) (auto split: option.splits if_splits)

lemma resolve_Inr:
  assumes "rows_inv (db_delegations s)" and "resolve_grant_chain now s agent user = Inr (g, did)"
  obtains leaf cs where "chain_path (db_delegations s) (leaf # cs)" and "dr_id leaf = did" and "dr_delegatee leaf = agent"
    and "\<forall>r \<in> set (leaf # cs). live now r \<and> sc_ok (dr_constraints r)"
    and "dr_delegator (last (leaf # cs)) = user" and "grants_of now (leaf # cs) = Some g"
proof -
  from assms(2) obtain leaf chain where
    leaf: "latest (filter (\<lambda>r. dr_delegatee r = agent \<and> live now r) (db_delegations s)) = Some leaf"
    and w: "walk max_chain_walk now s (dr_id leaf) = Inr chain" and root: "dr_delegator (last chain) = user"
    and b: "build_grants now (rev chain) None = Inr (Some g)" and did: "dr_id leaf = did"
    by (auto simp: resolve_grant_chain_def and_then_eq_Inr_iff split: option.splits if_splits)
  from latest_in [OF leaf] have l: "leaf \<in> set (db_delegations s)" "dr_delegatee leaf = agent" by auto
  obtain cs where path: "chain_path (db_delegations s) (leaf # cs)"
    using rows_inv_facts(4) [OF assms(1) l(1)] by blast
  have "length cs < max_chain_walk" using chain_path_short [OF path] by (simp add: max_chain_walk_def)
  from walk_path [OF assms(1) path this, of now] w
  have chain: "chain = leaf # cs" "\<forall>r \<in> set (leaf # cs). live now r" by (auto split: if_splits)
  from build_grants_Inr [OF b] have "grants_of now chain = Some g" "\<forall>r \<in> set chain. sc_ok (dr_constraints r)"
    by (simp_all add: grants_of_foldl)
  with that [OF path did l(2)] chain root show thesis by simp
qed

lemma grants_of_root:
  "grants_of now (r # cs) = Some g \<Longrightarrow>
   root_delegator g = dr_delegator_type (last (r # cs)) @ '':'' @ dr_delegator (last (r # cs)) \<and>
   actors_leaf_first g = map (\<lambda>r. ''agent:'' @ dr_delegatee r) (r # cs)"
proof (induction cs arbitrary: r g)
  case (Cons q cs)
  from Cons.prems obtain h where "grants_of now (q # cs) = Some h" "g = row_grant now r (Some h)" by simp
  with Cons.IH [of q h] show ?case by (simp add: row_grant_def)
qed (auto simp: row_grant_def)

lemma child_scopes: "child_of q r \<Longrightarrow> set (dr_scopes r) \<subseteq> set (dr_scopes q)"
  by (simp add: child_of_def)

lemma child_permit:
  "child_of q r \<Longrightarrow> permit tzdb t (sc_decoded (dr_constraints r)) a = None \<Longrightarrow>
   permit tzdb t (sc_decoded (dr_constraints q)) a = None"
  by (simp add: child_of_def)

lemma child_expiry: "child_of q r \<Longrightarrow> dr_expires_at q = Some x \<Longrightarrow> \<exists>y. dr_expires_at r = Some y \<and> y \<le> x"
  by (simp add: child_of_def)

lemma row_grant_fields [simp]:
  "g_scopes (row_grant now r p) = dr_scopes r" "g_constraints (row_grant now r p) = sc_decoded (dr_constraints r)"
  "g_expires_at (row_grant now r p) = (case dr_expires_at r of Some x \<Rightarrow> x | None \<Rightarrow> now + one_year)"
  "g_parent (row_grant now r p) = p" "ancestors (row_grant now r (Some h)) = h # ancestors h"
  "ancestors (row_grant now r None) = []"
  by (simp_all add: row_grant_def)

lemma grants_of_bounded:
  "chain_path rows (r # cs) \<Longrightarrow> grants_of now (r # cs) = Some g \<Longrightarrow> h \<in> set (g # ancestors g) \<Longrightarrow>
   set (g_scopes g) \<subseteq> set (g_scopes h) \<and>
   (\<forall>tzdb t a. permit tzdb t (g_constraints g) a = None \<longrightarrow> permit tzdb t (g_constraints h) a = None)"
proof (induction cs arbitrary: r g)
  case Nil
  then show ?case by auto
next
  case (Cons q cs)
  from Cons.prems(2) obtain k where k: "grants_of now (q # cs) = Some k" "g = row_grant now r (Some k)" by simp
  from chain_path_more [OF Cons.prems(1)] have q: "child_of q r" "chain_path rows (q # cs)" by blast+
  from k have kq: "g_scopes k = dr_scopes q" "g_constraints k = sc_decoded (dr_constraints q)" by auto
  show ?case
  proof (cases "h = g")
    case False
    with Cons.prems(3) k(2) have "h \<in> set (k # ancestors k)" by auto
    from Cons.IH [OF q(2) k(1) this] child_scopes [OF q(1)] child_permit [OF q(1)] k(2) kq show ?thesis by auto
  qed auto
qed

lemma path_expiry:
  "chain_path rows (r # cs) \<Longrightarrow> q \<in> set (r # cs) \<Longrightarrow> dr_expires_at q = Some x \<Longrightarrow>
   \<exists>y. dr_expires_at r = Some y \<and> y \<le> x"
proof (induction cs arbitrary: r)
  case Nil
  then show ?case by simp
next
  case (Cons p cs)
  from chain_path_more [OF Cons.prems(1)] have p: "child_of p r" "chain_path rows (p # cs)" by blast+
  show ?case
  proof (cases "q = r")
    case False
    with Cons.prems(2) have "q \<in> set (p # cs)" by simp
    from Cons.IH [OF p(2) this Cons.prems(3)] obtain y where "dr_expires_at p = Some y" "y \<le> x" by blast
    with child_expiry [OF p(1)] show ?thesis by fastforce
  qed (use Cons.prems(3) in auto)
qed

text \<open>A row has one path.\<close>

lemma path_unique:
  assumes "rows_inv rows"
  shows "chain_path rows (r # cs) \<Longrightarrow> chain_path rows (r # ds) \<Longrightarrow> cs = ds"
proof (induction cs arbitrary: r ds)
  case Nil
  from root_row_no_child [OF conjunct2 [OF chain_path_one [OF Nil(1)]]] Nil(2) show ?case by (cases ds) auto
next
  case (Cons q cs)
  from chain_path_more [OF Cons.prems(1)] have q: "child_of q r" "chain_path rows (q # cs)" by blast+
  from Cons.prems(2) root_row_no_child q(1) obtain p ds' where
    p: "ds = p # ds'" "child_of p r" "chain_path rows (p # ds')"
    by (cases ds) (auto dest: chain_path_one)
  have "q = p"
    using q p row_by_id [OF rows_inv_facts(1) [OF assms]] chain_path_rows child_parent
    by (metis list.set_intros(1) subsetD)
  with Cons.IH [OF q(2)] p show ?case by simp
qed

section \<open>The subtree query finds every descendant\<close>

lemma tree_ids_complete:
  "chain_path rows (pre @ d # post) \<Longrightarrow> length pre < n \<Longrightarrow> dr_id d \<in> set ids \<Longrightarrow>
   dr_id (hd (pre @ [d])) \<in> set (tree_ids n rows ids)"
proof (induction pre arbitrary: d post n ids rule: rev_induct)
  case Nil
  then show ?case by (cases n) auto
next
  case (snoc x pre)
  from snoc.prems(2) obtain m where m: "n = Suc m" "length pre < m" by (cases n) auto
  from snoc.prems(1) have path: "chain_path rows (pre @ x # d # post)" by simp
  from chain_path_more [OF chain_path_suffix [OF path]] have x: "x \<in> set rows" "dr_parent x = Some (dr_id d)"
    by (auto simp: child_of_def)
  with snoc.prems(3) have "dr_id x \<in> set (map dr_id (filter (\<lambda>r. case dr_parent r of None \<Rightarrow> False | Some p \<Rightarrow> p \<in> set ids) rows))"
    by force
  from snoc.IH [OF path m(2) this] snoc.prems(3) m(1) show ?case
    by (cases pre) auto
qed

lemma subtree_complete:
  assumes "chain_path (db_delegations s) (r # cs)" and "did \<in> dr_id ` set (r # cs)"
  shows "dr_id r \<in> set (subtree s did)"
proof -
  from assms(2) obtain pre d post where split: "r # cs = pre @ d # post" "dr_id d = did"
    by (metis (no_types, lifting) imageE in_set_conv_decomp)
  with assms(1) have path: "chain_path (db_delegations s) (pre @ d # post)" by simp
  from chain_path_length [OF path] have "length pre < length (db_delegations s)" by simp
  moreover have "dr_id d \<in> set (map dr_id (filter (\<lambda>r. dr_id r = did) (db_delegations s)))"
    using chain_path_rows [OF path] split(2) by auto
  ultimately have "dr_id (hd (pre @ [d])) \<in> set (subtree s did)"
    unfolding subtree_def using tree_ids_complete [OF path] by blast
  moreover have "hd (pre @ [d]) = r" using split(1) by (cases pre) auto
  ultimately show ?thesis by simp
qed

section \<open>Properties\<close>

text \<open>
  C6: what a token exchange mints from is a genuine chain. In every table the code can reach, if
  \<open>ResolveGrantChain\<close> returns a grant, then its links are rows that are active and unexpired, at most
  five, from the agent back to the user, each the child of the next and none twice; the grant's actor chain lists
  their agents, and the grant has no scope, permits no action and lives no longer than any of its links does.
\<close>

theorem resolved_chain_sound:
  assumes "(chain_step urls)\<^sup>*\<^sup>* s0 s" and "db_delegations s0 = []"
    and "resolve_grant_chain now s agent user = Inr (g, did)"
  shows "\<exists>chain. chain \<noteq> [] \<and> length chain \<le> 5 \<and> set chain \<subseteq> set (db_delegations s) \<and> dr_id (hd chain) = did \<and>
    dr_delegatee (hd chain) = agent \<and> distinct chain \<and> chain_path (db_delegations s) chain \<and>
    (\<forall>r \<in> set chain. live now r \<and> (\<forall>x. dr_expires_at r = Some x \<longrightarrow> g_expires_at g \<le> x)) \<and>
    actor_chain_root_to_leaf g = map (\<lambda>r. ''agent:'' @ dr_delegatee r) (rev chain) \<and>
    root_delegator g = ''user:'' @ user \<and>
    (\<forall>h \<in> set (g # ancestors g). set (g_scopes g) \<subseteq> set (g_scopes h) \<and>
       (\<forall>tzdb t a. permit tzdb t (g_constraints g) a = None \<longrightarrow> permit tzdb t (g_constraints h) a = None))"
proof -
  have inv: "rows_inv (db_delegations s)" by (rule reachable_inv [OF assms(1,2)])
  obtain leaf cs where path: "chain_path (db_delegations s) (leaf # cs)"
    and leaf: "dr_id leaf = did" "dr_delegatee leaf = agent"
    and live: "\<forall>r \<in> set (leaf # cs). live now r \<and> sc_ok (dr_constraints r)"
    and root: "dr_delegator (last (leaf # cs)) = user" and g: "grants_of now (leaf # cs) = Some g"
    by (rule resolve_Inr [OF inv assms(3)])
  have "dr_delegator_type (last (leaf # cs)) = ''user''"
    using chain_path_root [OF path] by (simp only: root_row_def)
  with grants_of_root [OF g] root have
    "root_delegator g = ''user:'' @ user"
    "actor_chain_root_to_leaf g = map (\<lambda>r. ''agent:'' @ dr_delegatee r) (rev (leaf # cs))"
    by (simp_all add: actor_chain_root_to_leaf_def rev_map)
  moreover have "g_expires_at g \<le> x" if "r \<in> set (leaf # cs)" "dr_expires_at r = Some x" for r x
    using path_expiry [OF path that] g by auto
  ultimately show ?thesis
    using live leaf path chain_path_short [OF path] chain_path_distinct [OF path] chain_path_rows [OF path] grants_of_bounded [OF path g]
    by (intro exI [of _ "leaf # cs"]) (simp del: chain_path.simps)
qed

text \<open>
  C38: revoking a tree leaves nothing alive in it. In every table the code can reach, after
  \<open>RevokeDelegationTree\<close> succeeds on a delegation, every delegation whose chain passes through it is
  inactive, every token minted from one of those is revoked, and from then on no resolution, for any
  agent and user, goes through it.
\<close>

theorem revoke_tree_complete:
  assumes "(chain_step urls)\<^sup>*\<^sup>* s0 s" and "db_delegations s0 = []"
    and "revoke_delegation_tree now did user s = Inr (n, t)"
    and "chain_path (db_delegations t) (r # cs)" and "did \<in> dr_id ` set (r # cs)"
  shows "\<not> dr_active r \<and>
    (\<forall>k \<in> set (db_tokens t). tr_delegation k = Some (dr_id r) \<longrightarrow> tr_revoked_at k \<noteq> None) \<and>
    resolve_grant_chain later t agent u \<noteq> Inr (g, dr_id r)"
proof -
  have inv: "rows_inv (db_delegations s)" by (rule reachable_inv [OF assms(1,2)])
  have inv_t: "rows_inv (db_delegations t)"
    by (rule chain_step_inv [OF chain_step.revokes_tree [OF assms(3)] inv])
  let ?f = "switch_off (\<lambda>r. dr_id r \<in> set (subtree s did) \<and> dr_active r)"
  note rows = revoke_tree_rows [OF assms(3)]
  from chain_path_rows [OF assms(4)] rows(1) obtain r0 where r0: "r0 \<in> set (db_delegations s)" "r = ?f r0" by auto
  obtain cs0 where path0: "chain_path (db_delegations s) (r0 # cs0)"
    using rows_inv_facts(4) [OF inv r0(1)] by blast
  have same: "map dr_id (r # cs) = map dr_id (r0 # cs0)"
    using path_unique [OF inv_t assms(4), of "map ?f cs0"] chain_path_switch_off [OF path0] rows(1) r0(2) by simp
  then have "did \<in> dr_id ` set (r0 # cs0)" using assms(5) by (metis set_map)
  from subtree_complete [OF path0 this] have sub: "dr_id r0 \<in> set (subtree s did)" .
  then have off: "\<not> dr_active r" by (simp add: r0(2) switch_off_def)
  moreover have "tr_revoked_at k \<noteq> None" if "k \<in> set (db_tokens t)" "tr_delegation k = Some (dr_id r)" for k
    using that sub by (auto simp: rows(2) r0(2) split: if_splits)
  moreover have "resolve_grant_chain later t agent u \<noteq> Inr (g, dr_id r)"
  proof
    assume *: "resolve_grant_chain later t agent u = Inr (g, dr_id r)"
    obtain leaf ds where "chain_path (db_delegations t) (leaf # ds)" "dr_id leaf = dr_id r"
      and "dr_delegatee leaf = agent" and live: "\<forall>q \<in> set (leaf # ds). live later q \<and> sc_ok (dr_constraints q)"
      and "dr_delegator (last (leaf # ds)) = u" and "grants_of later (leaf # ds) = Some g"
      by (rule resolve_Inr [OF inv_t *])
    then have "leaf = r"
      using row_by_id [OF rows_inv_facts(1) [OF inv_t]] chain_path_rows assms(4)
      by (metis list.set_intros(1) subsetD)
    with live off show False by (simp add: live_def)
  qed
  ultimately show ?thesis by blast
qed

text \<open>Alice (\<open>u1\<close>) consents to agent \<open>a1\<close>, which re-delegates to \<open>a2\<close>.\<close>

definition chain_env_at :: "instant \<Rightarrow> string \<Rightarrow> string \<Rightarrow> unit chain_env" where
  "chain_env_at now i j = \<lparr>ch_now = now, ch_tzdb = utc_only, ch_urls = two_url_lib,
     ch_jsonb = (\<lambda>c. if plain c then Some \<lparr>sc_decoded = c, sc_ok = True\<rparr> else None),
     ch_new_id = i, ch_new_id2 = j, ch_uuid = Some\<rparr>"

definition two_agents :: db where
  "two_agents = sample_agents\<lparr>db_agents := [sample_agent, sample_agent\<lparr>ag_id := ''a2''\<rparr>]\<rparr>"

definition sample_consent :: consent_request where
  "sample_consent = \<lparr>cq_user = ''u1'', cq_agent = ''a1'', cq_org = ''o1'', cq_scopes = [''pay'', ''read''],
     cq_constraints = no_constraints, cq_resource = [], cq_ttl = 100\<rparr>"

definition root_d1 :: delegation_row where
  "root_d1 = \<lparr>dr_id = ''d1'', dr_delegator_type = ''user'', dr_delegator = ''u1'', dr_delegatee = ''a1'',
     dr_scopes = [''pay'', ''read''], dr_constraints = \<lparr>sc_decoded = no_constraints, sc_ok = True\<rparr>,
     dr_active = True, dr_created_at = 0, dr_expires_at = Some 100, dr_org = Some ''o1'',
     dr_consent = Some ''c1'', dr_parent = None, dr_depth = 0\<rparr>"

definition child_d2 :: delegation_row where
  "child_d2 = \<lparr>dr_id = ''d2'', dr_delegator_type = ''agent'', dr_delegator = ''a1'', dr_delegatee = ''a2'',
     dr_scopes = [''pay''], dr_constraints = \<lparr>sc_decoded = no_constraints, sc_ok = True\<rparr>,
     dr_active = True, dr_created_at = 1, dr_expires_at = Some 51, dr_org = Some ''o1'',
     dr_consent = None, dr_parent = Some ''d1'', dr_depth = 1\<rparr>"

lemmas chain_samples = chain_env_at_def two_agents_def sample_consent_def root_d1_def child_d2_def sample_agents_def
  sample_users_def sample_agent_def empty_db_def

lemma plain_tighten_none: "tighten no_constraints no_constraints = no_constraints"
  by (simp add: tighten_def no_constraints_def)

lemma sample_jsonb: "jsonb_laws (ch_jsonb (chain_env_at now i j))"
  by (simp add: jsonb_laws_def chain_env_at_def)

definition consented :: db where
  "consented = snd (projr (grant_consent (chain_env_at 0 ''c1'' ''d1'') sample_consent two_agents))"

lemma consent_run:
  "grant_consent (chain_env_at 0 ''c1'' ''d1'') sample_consent two_agents = Inr ((''c1'', ''d1''), consented) \<and>
   db_delegations consented = [root_d1] \<and> db_agents consented = db_agents two_agents \<and> db_tokens consented = []"
  by (simp add: consented_def grant_consent_def consent_tx_def uuid_arg_def validate_and_canonicalize_def insert_delegation_def
      chain_samples plain_def no_constraints_def emit_def Let_def)

lemma consent_step: "chain_step two_url_lib two_agents consented"
  by (rule chain_step.consents [OF _ sample_jsonb _ conjunct1 [OF consent_run]]) (simp_all add: chain_env_at_def)

definition redelegated :: db where
  "redelegated = snd (projr (redelegate (chain_env_at 1 ''d2'' []) ''d1'' ''a1'' ''a2'' [''pay''] no_constraints 50 consented consented consented))"

lemma redelegate_run:
  "redelegate (chain_env_at 1 ''d2'' []) ''d1'' ''a1'' ''a2'' [''pay''] no_constraints 50 consented consented consented =
     Inr (''d2'', redelegated) \<and> db_delegations redelegated = [root_d1, child_d2] \<and>
   db_agents redelegated = db_agents two_agents \<and> db_tokens redelegated = []"
  using consent_run
  by (simp add: redelegated_def redelegate_def redelegate_from_def child_row_def validate_and_canonicalize_def
      insert_delegation_def chain_samples plain_def no_constraints_def emit_def live_def not_expired_def
      default_max_depth_def max_chain_walk_def parent_id_def active_agent_in_def tighten_def numeral_eq_Suc Let_def)

lemma redelegate_step: "chain_step two_url_lib consented redelegated"
  by (rule chain_step.redelegates [OF _ sample_jsonb _ earlier_refl conjunct1 [OF redelegate_run]]) (simp_all add: chain_env_at_def)

lemma redelegated_reachable: "(chain_step two_url_lib)\<^sup>*\<^sup>* two_agents redelegated"
  using consent_step redelegate_step by (meson r_into_rtranclp rtranclp.rtrancl_into_rtrancl)

lemma two_agents_empty: "db_delegations two_agents = []"
  by (simp add: chain_samples)

lemma resolve_run:
  "\<exists>g. resolve_grant_chain 2 redelegated ''a2'' ''u1'' = Inr (g, ''d2'')"
  using redelegate_run
  by (simp add: resolve_grant_chain_def max_chain_walk_def numeral_eq_Suc parent_id_def live_def not_expired_def
      root_d1_def child_d2_def)

theorem resolved_chain_sound_witness:
  "\<exists>g. resolve_grant_chain 2 redelegated ''a2'' ''u1'' = Inr (g, ''d2'') \<and> root_delegator g = ''user:u1'' \<and>
     length (actor_chain_root_to_leaf g) \<le> 5"
proof -
  obtain g where g: "resolve_grant_chain 2 redelegated ''a2'' ''u1'' = Inr (g, ''d2'')" using resolve_run by blast
  from resolved_chain_sound [OF redelegated_reachable two_agents_empty g] g show ?thesis by auto
qed

definition tree_revoked :: db where
  "tree_revoked = snd (projr (revoke_delegation_tree 3 ''d1'' ''u1'' redelegated))"

lemma revoke_tree_run:
  "\<exists>n. revoke_delegation_tree 3 ''d1'' ''u1'' redelegated = Inr (n, tree_revoked)"
  using redelegate_run
  by (simp add: tree_revoked_def revoke_delegation_tree_def root_d1_def child_d2_def Let_def case_prod_unfold)

theorem revoke_tree_complete_witness:
  "\<exists>r \<in> set (db_delegations tree_revoked). dr_id r = ''d2'' \<and> \<not> dr_active r"
proof -
  obtain n where n: "revoke_delegation_tree 3 ''d1'' ''u1'' redelegated = Inr (n, tree_revoked)"
    using revoke_tree_run by blast
  let ?f = "switch_off (\<lambda>r. dr_id r \<in> set (subtree redelegated ''d1'') \<and> dr_active r)"
  have rows: "db_delegations tree_revoked = map ?f [root_d1, child_d2]"
    using revoke_tree_rows(1) [OF n] redelegate_run by simp
  have "chain_path [root_d1, child_d2] [child_d2, root_d1]"
    by (simp add: root_row_def child_of_def root_d1_def child_d2_def default_max_depth_def)
  from chain_path_switch_off [OF this] have "chain_path (db_delegations tree_revoked) (?f child_d2 # [?f root_d1])"
    by (simp add: rows)
  from revoke_tree_complete [OF redelegated_reachable two_agents_empty n this]
  have "\<not> dr_active (?f child_d2)" by (simp add: root_d1_def)
  with rows show ?thesis by (auto simp: child_d2_def)
qed

text \<open>
  the agent API revokes one delegation, not its subtree. There is a reachable table, and a token minted
  from a re-delegation of a user's delegation, such that the user's \<open>DELETE\<close> of that delegation succeeds
  and the token stays active, although no chain through it resolves any more; \<open>RevokeDelegationTree\<close>
  on the same state kills the token.
\<close>

theorem api_revoke_leaves_subtree_tokens:
  "\<exists>s p did jti. (chain_step two_url_lib)\<^sup>*\<^sup>* two_agents s \<and>
     fst (handle_agent sample_env (Some p) (RevokeDelegation did) s) = 204 \<and>
     is_active True 10 (snd (handle_agent sample_env (Some p) (RevokeDelegation did) s)) jti = Inr True \<and>
     (case revoke_delegation_tree 10 did (pr_id p) s of
        Inl _ \<Rightarrow> False | Inr (_, t) \<Rightarrow> is_active True 10 t jti = Inr False)"
proof -
  let ?r = "\<lparr>re_jti = ''j2'', re_delegation = Some ''d2'', re_subject = ''user:u1'', re_agent = Some ''a2'',
     re_actor_chain = [''agent:a2'', ''agent:a1''], re_audience = ''api'', re_scopes = [''pay''], re_expires_at = 51\<rparr>"
  let ?s = "the (record_tx 5 ?r redelegated)"
  have s: "record_tx 5 ?r redelegated = Some ?s" "db_delegations ?s = [root_d1, child_d2]"
    "db_tokens ?s = [\<lparr>tr_jti = ''j2'', tr_delegation = Some ''d2'', tr_subject = ''user:u1'', tr_agent = Some ''a2'',
       tr_actor_chain = [''agent:a2'', ''agent:a1''], tr_audience = ''api'', tr_scopes = [''pay''], tr_issued_at = 5,
       tr_expires_at = 51, tr_revoked_at = None\<rparr>]"
    using redelegate_run by (simp_all add: record_tx_def)
  have "chain_step two_url_lib redelegated ?s"
    by (rule chain_step.elsewhere) (simp add: s(2) redelegate_run)
  with redelegated_reachable have "(chain_step two_url_lib)\<^sup>*\<^sup>* two_agents ?s" by (rule rtranclp.rtrancl_into_rtrancl)
  moreover have "fst (handle_agent sample_env (Some sample_principal) (RevokeDelegation ''d1'') ?s) = 204"
    "is_active True 10 (snd (handle_agent sample_env (Some sample_principal) (RevokeDelegation ''d1'') ?s)) ''j2'' = Inr True"
    using s(2,3) by (simp_all add: handle_revoke_delegation_def sample_principal_def revoke_delegation_def
        deactivate_def sample_env_def is_active_def revoke_by_delegation_tokens root_d1_def child_d2_def)
  moreover obtain n t where run: "revoke_delegation_tree 10 ''d1'' (pr_id sample_principal) ?s = Inr (n, t)"
    using s(2) revoke_tree_succeeds [of "''d1''" "pr_id sample_principal" ?s 10]
    by (auto simp: sample_principal_def root_d1_def)
  have "is_active True 10 t ''j2'' = Inr False"
    using revoke_tree_rows(2) [OF run] s(2,3)
    by (simp add: is_active_def subtree_def root_d1_def child_d2_def)
  with run have "case revoke_delegation_tree 10 ''d1'' (pr_id sample_principal) ?s of
      Inl _ \<Rightarrow> False | Inr (_, t) \<Rightarrow> is_active True 10 t ''j2'' = Inr False" by simp
  ultimately show ?thesis by blast
qed

text \<open>
  a successful re-delegation adds one row, and that row is a proper child. It comes from the holder of
  a delegation that was active and unexpired when it was read; the new row's scopes, expiry, depth, organization and
  constraints are within the parent's; the sub-agent was an active agent of the delegation's organization, and the text that
  names it occurs nowhere in the chain; and nothing else in the tables of delegations and tokens changes.
\<close>

theorem redelegate_adds_child:
  assumes "(chain_step urls)\<^sup>*\<^sup>* s0 sp" and "db_delegations s0 = []" and "jsonb_laws (ch_jsonb e)"
    and "redelegate e pid delegator delegatee scopes c ttl sp sa s = Inr (cid, t)"
  shows "\<exists>p d aid. p \<in> set (db_delegations sp) \<and> ch_uuid e pid = Some (dr_id p) \<and> live (ch_now e) p \<and> dr_delegatee p = delegator \<and>
    db_delegations t = db_delegations s @ [d] \<and> dr_id d = cid \<and> ch_uuid e delegatee = Some aid \<and> dr_delegatee d = aid \<and>
    dr_scopes d = scopes \<and> child_of p d \<and> active_agent_in sa aid (dr_org p) \<and>
    (\<forall>cs. chain_path (db_delegations sp) (p # cs) \<longrightarrow> delegatee \<notin> dr_delegatee ` set (p # cs)) \<and> db_tokens t = db_tokens s"
proof -
  have inv: "rows_inv (db_delegations sp)" by (rule reachable_inv [OF assms(1,2)])
  obtain p c' where p: "p \<in> set (db_delegations sp)" "ch_uuid e pid = Some (dr_id p)" "live (ch_now e) p"
    and "validate_and_canonicalize e c = Inr c'"
    and rf: "redelegate_from e p delegator delegatee scopes c' ttl sp sa s = Inr (cid, t)"
    by (rule redelegate_Inr [OF assms(4)])
  obtain aid stored where r: "dr_delegatee p = delegator" "set scopes \<subseteq> set (dr_scopes p)"
      "dr_depth p + 1 < default_max_depth" and chk: "agent_in_chain max_chain_walk sp (dr_id p) delegatee = Inr False"
    and a: "ch_uuid e delegatee = Some aid" "active_agent_in sa aid (dr_org p)"
    and j: "ch_jsonb e (tighten (sc_decoded (dr_constraints p)) c') = Some stored"
    and "ch_new_id e \<notin> dr_id ` set (db_delegations s)" and t: "cid = ch_new_id e"
      "db_delegations t = db_delegations s @ [child_row e p aid scopes stored ttl]"
      "db_tokens t = db_tokens s"
    by (rule redelegate_from_Inr [OF rf])
  have wf: "wf_constraints (sc_decoded (dr_constraints p))"
    by (rule plain_wf [OF rows_inv_facts(3) [OF inv p(1)]])
  have "child_of p (child_row e p aid scopes stored ttl)"
    using r jsonb_lawsD [OF assms(3) j] tighten_refines_parent [OF wf]
    by (auto simp: child_of_def child_row_def Let_def split: option.splits)
  moreover have "dr_delegatee (child_row e p aid scopes stored ttl) = aid"
    "dr_scopes (child_row e p aid scopes stored ttl) = scopes"
    by (simp_all add: child_row_def Let_def)
  moreover have "delegatee \<notin> dr_delegatee ` set (p # cs)" if "chain_path (db_delegations sp) (p # cs)" for cs
    using agent_in_chain_path [OF inv that, of max_chain_walk delegatee] chain_path_short [OF that] chk
    by (simp add: max_chain_walk_def)
  ultimately show ?thesis using p r a t
    by (intro exI [of _ p] exI [of _ "child_row e p aid scopes stored ttl"] exI [of _ aid]) simp
qed

lemma consented_reachable: "(chain_step two_url_lib)\<^sup>*\<^sup>* two_agents consented"
  by (rule r_into_rtranclp) (rule consent_step)

theorem redelegate_adds_child_witness:
  "\<exists>p d. db_delegations redelegated = db_delegations consented @ [d] \<and> child_of p d \<and> dr_id p = ''d1''"
  using redelegate_adds_child [OF consented_reachable two_agents_empty sample_jsonb
      conjunct1 [OF redelegate_run]] by (auto simp: chain_env_at_def)

text \<open>
  Disjoint allow-lists cannot be re-delegated. The deny-all sentinel that \<open>Tighten\<close> puts into an
  allow-list contains a NUL, which a JSONB column refuses: where the parent and the request both restrict
  the tools and share none, \<open>Redelegate\<close> always fails.
\<close>

theorem disjoint_redelegation_refused:
  assumes "jsonb_laws (ch_jsonb e)" and "ch_uuid e pid = Some i"
    and "find (\<lambda>r. dr_id r = i \<and> live (ch_now e) r) (db_delegations sp) = Some p"
    and "cn_tools (sc_decoded (dr_constraints p)) \<noteq> []" and "cn_tools c \<noteq> []"
    and "set (cn_tools (sc_decoded (dr_constraints p))) \<inter> set (cn_tools c) = {}"
  shows "redelegate e pid delegator delegatee scopes c ttl sp sa s \<noteq> Inr (cid, t)"
proof
  assume *: "redelegate e pid delegator delegatee scopes c ttl sp sa s = Inr (cid, t)"
  then obtain c' where v: "validate_and_canonicalize e c = Inr c'"
    and rf: "redelegate_from e p delegator delegatee scopes c' ttl sp sa s = Inr (cid, t)"
    by (auto simp: redelegate_def and_then_eq_Inr_iff assms(2,3) split: if_splits)
  from v have "cn_tools c' = cn_tools c"
    by (auto simp: validate_and_canonicalize_def and_then_eq_Inr_iff split: option.splits if_splits)
  with assms(4-6) have "deny_all \<in> set (cn_tools (tighten (sc_decoded (dr_constraints p)) c'))"
    by (auto simp: tighten_def Let_def filter_empty_conv)
  then have "\<not> plain (tighten (sc_decoded (dr_constraints p)) c')" by (simp add: plain_def)
  then have "ch_jsonb e (tighten (sc_decoded (dr_constraints p)) c') = None"
    using jsonb_lawsD [OF assms(1)] by (metis not_None_eq)
  with rf show False by (auto simp: redelegate_from_def split: if_splits sum.splits option.splits)
qed

theorem disjoint_redelegation_refused_witness:
  "redelegate (chain_env_at 1 ''d2'' []) ''d1'' ''a1'' ''a2'' [''pay''] (no_constraints\<lparr>cn_tools := [''write'']\<rparr>) 50
     (empty_db\<lparr>db_delegations := [root_d1\<lparr>dr_constraints := \<lparr>sc_decoded = no_constraints\<lparr>cn_tools := [''read'']\<rparr>, sc_ok = True\<rparr>\<rparr>]\<rparr>)
     two_agents two_agents \<noteq> Inr (''d2'', empty_db)"
  by (rule disjoint_redelegation_refused [OF sample_jsonb, where i = "''d1''" and
        p = "root_d1\<lparr>dr_constraints := \<lparr>sc_decoded = no_constraints\<lparr>cn_tools := [''read'']\<rparr>, sc_ok = True\<rparr>\<rparr>"])
     (simp_all add: root_d1_def chain_env_at_def live_def not_expired_def)

text \<open>
  An agent named in another spelling closes a cycle. The walk compares the text of the request with the ids it reads, so
  \<open>A1\<close> is not found in the chain; the database takes it for the agent \<open>a1\<close>, which becomes its own delegate.
\<close>

lemma respelled_agent_closes_cycle:
  "case redelegate ((chain_env_at 1 ''d2'' [])\<lparr>ch_uuid := (\<lambda>x. Some (if x = ''A1'' then ''a1'' else x))\<rparr>) ''d1'' ''a1'' ''A1'' [''pay'']
          no_constraints 50 consented consented consented of
     Inl _ \<Rightarrow> False | Inr (_, t) \<Rightarrow> map dr_delegatee (db_delegations t) = [''a1'', ''a1'']"
  using consent_run
  by (simp add: redelegate_def redelegate_from_def child_row_def validate_and_canonicalize_def
      insert_delegation_def chain_samples plain_def no_constraints_def emit_def live_def not_expired_def
      default_max_depth_def max_chain_walk_def parent_id_def active_agent_in_def tighten_def numeral_eq_Suc Let_def)

end
