(* ===== verification/TokenExchange.thy ===== *)
theory TokenExchange
  imports Chains
begin

text \<open>
  The RFC 8693 token-exchange grant (\<open>internal/auth/token_exchange.go\<close>): a user's subject token and an
  agent's actor token become a short-lived delegation token, bounded by the delegation chain, recorded for
  revocation and audited, in one transaction with the rate check; and the introspection of such tokens.

  The resolvers of the two input tokens and the keystore's keys are fields of the exchanger, the token id
  is an argument (theory \<open>Tokens\<close>), and one reading of the clock serves the whole request.
\<close>

definition access_token_type :: string where
  "access_token_type = ''urn:ietf:params:oauth:token-type:access_token''"

definition agent_token_type :: string where
  "agent_token_type = ''urn:legant:params:oauth:token-type:agent-token''"

record ('k, 'p) exchanger =
  tx_issuer :: string
  tx_ttl :: duration
  tx_kid :: string
  tx_key :: 'k
  tx_verifier_keys :: "string \<rightharpoonup> 'p"
  tx_resolve_actor :: "string \<Rightarrow> string option"
  tx_resolve_subject :: "string \<Rightarrow> (string \<times> string list) option"

text \<open>\<open>form.Get\<close> gives the empty string for an absent field.\<close>

record exchange_form =
  fo_subject_token :: string
  fo_actor_token :: string
  fo_subject_token_type :: string
  fo_actor_token_type :: string
  fo_resources :: "string list"
  fo_scope :: string

datatype oauth_error = OauthError int string string

datatype exchange_reply =
    Failed oauth_error
  | Issued (is_token: string) (is_expires_in: int) (is_scope: string)

definition signer_of :: "('k, 'p) exchanger \<Rightarrow> 'k signer" where
  "signer_of x = \<lparr>sg_issuer = tx_issuer x, sg_kid = tx_kid x, sg_key = tx_key x\<rparr>"

definition verifier_of :: "('k, 'p) exchanger \<Rightarrow> 'p verifier" where
  "verifier_of x = \<lparr>vf_issuer = tx_issuer x, vf_keys = tx_verifier_keys x\<rparr>"

text \<open>\<open>grant.ExpiresAt = exp; grant.Scopes = effective\<close>.\<close>

fun narrow_grant :: "grant \<Rightarrow> string list \<Rightarrow> instant \<Rightarrow> grant" where
  "narrow_grant (Grant dr de _ c _ p) scopes ex = Grant dr de scopes c ex p"

fun any_resource_matches :: "'r url_lib \<Rightarrow> string \<Rightarrow> string list \<Rightarrow> bool" where
  "any_resource_matches urls canon [] = False"
| "any_resource_matches urls canon (r # rs) =
     (if resource_matches urls canon r then True else any_resource_matches urls canon rs)"

section \<open>The recording transaction\<close>

definition one_hour :: duration where
  "one_hour = 3600 * nanos"

definition minted_within_hour :: "instant \<Rightarrow> string \<Rightarrow> db \<Rightarrow> nat" where
  "minted_within_hour now did s =
     length (filter (\<lambda>r. tr_delegation r = Some did \<and> tr_issued_at r > now - one_hour) (db_tokens s))"

datatype record_outcome = RateLimited | RecordFailed | Recorded db

definition record_exchange ::
    "instant \<Rightarrow> constraints \<Rightarrow> string \<Rightarrow> string \<Rightarrow> string \<Rightarrow> string list \<Rightarrow> instant \<Rightarrow> claims \<Rightarrow> db \<Rightarrow> record_outcome" where
  "record_exchange now cn did agent aud scopes ex c s =
     (if (case cn_rate cn of None \<Rightarrow> False
            | Some r \<Rightarrow> rl_max_per_hour r > 0 \<and> int (minted_within_hour now did s) \<ge> rl_max_per_hour r)
      then RateLimited
      else case record_tx now \<lparr>re_jti = rc_jti c, re_delegation = Some did, re_subject = rc_sub c,
                 re_agent = Some agent, re_actor_chain = actor_chain c, re_audience = aud, re_scopes = scopes,
                 re_expires_at = ex\<rparr> s of
             None \<Rightarrow> RecordFailed
           | Some s' \<Rightarrow>
               Recorded (s'\<lparr>db_audit := db_audit s' @
                 [\<lparr>ae_actor_type = ''agent'', ae_actor = agent, ae_action = ''token.exchanged'',
                   ae_resource = rc_jti c, ae_subject = rc_sub c, ae_actor_chain = actor_chain c,
                   ae_delegation = Some did, ae_jti = rc_jti c,
                   ae_org = (case find (\<lambda>r. dr_id r = did) (db_delegations s') of None \<Rightarrow> None | Some r \<Rightarrow> dr_org r),
                   ae_metadata = ''{}''\<rparr>]\<rparr>))"

section \<open>The handler\<close>

text \<open>The checks on the form, in order; the answer is the resource.\<close>

definition check_form :: "exchange_form \<Rightarrow> oauth_error + string" where
  "check_form f =
     (if fo_subject_token f = [] \<or> fo_actor_token f = []
      then Inl (OauthError 400 ''invalid_request'' ''subject_token and actor_token are required'')
      else if fo_subject_token_type f \<noteq> [] \<and> fo_subject_token_type f \<noteq> access_token_type
      then Inl (OauthError 400 ''invalid_request'' ''unsupported subject_token_type'')
      else if fo_actor_token_type f \<noteq> [] \<and> fo_actor_token_type f \<noteq> agent_token_type
      then Inl (OauthError 400 ''invalid_request'' ''unsupported actor_token_type'')
      else case fo_resources f of
             [] \<Rightarrow> Inl (OauthError 400 ''invalid_target'' ''a single resource indicator is required'')
           | [r] \<Rightarrow> if r = [] then Inl (OauthError 400 ''invalid_target'' ''a single resource indicator is required'')
                    else Inr r
           | _ \<Rightarrow> Inl (OauthError 400 ''invalid_target'' ''only a single resource indicator is supported''))"

text \<open>What the request is entitled to: the grant to mint from, its delegation, scopes, audience and expiry.\<close>

record entitlement =
  ent_agent :: string
  ent_grant :: grant
  ent_delegation :: string
  ent_scopes :: "string list"
  ent_audience :: string
  ent_expiry :: instant

definition entitle_from ::
    "('k, 'p) exchanger \<Rightarrow> 'r url_lib \<Rightarrow> instant \<Rightarrow> exchange_form \<Rightarrow> string \<Rightarrow> string \<Rightarrow> string list \<Rightarrow> grant \<Rightarrow> string
       \<Rightarrow> oauth_error + entitlement" where
  "entitle_from x urls now f resource agent subject_scopes g did =
     (let effective = attenuate subject_scopes (attenuate (g_scopes g) (go_fields (fo_scope f)));
          own = now + tx_ttl x;
          ex = (if g_expires_at g < own then g_expires_at g else own) in
      reject (effective = [])
        (OauthError 400 ''invalid_scope'' ''requested scopes exceed the delegation or the subject token'')
      (and_then (err_as (OauthError 400 ''invalid_target'' ''invalid resource indicator'')
                   (canonicalize_resource urls resource)) (\<lambda>canon.
       reject (\<not> any_resource_matches urls canon (cn_resources (g_constraints g)))
         (OauthError 400 ''invalid_target'' ''resource not permitted by the delegation'')
      (reject (\<not> ex > now) (OauthError 403 ''invalid_grant'' ''delegation has expired'')
         (Inr \<lparr>ent_agent = agent, ent_grant = narrow_grant g effective ex, ent_delegation = did,
               ent_scopes = effective, ent_audience = canon, ent_expiry = ex\<rparr>)))))"

definition entitle ::
    "('k, 'p) exchanger \<Rightarrow> 'r url_lib \<Rightarrow> instant \<Rightarrow> exchange_form \<Rightarrow> db \<Rightarrow> oauth_error + entitlement" where
  "entitle x urls now f s =
     and_then (check_form f) (\<lambda>resource.
     and_then (need (OauthError 401 ''invalid_client'' ''invalid actor token'')
                 (tx_resolve_actor x (fo_actor_token f))) (\<lambda>agent.
     and_then (need (OauthError 400 ''invalid_grant'' ''invalid subject token'')
                 (tx_resolve_subject x (fo_subject_token f))) (\<lambda>subject.
     and_then (err_as (OauthError 403 ''invalid_grant'' ''no delegation authorizes this agent to act for this user'')
                 (resolve_grant_chain now s agent (fst subject))) (\<lambda>chain.
       entitle_from x urls now f resource agent (snd subject) (fst chain) (snd chain)))))"

text \<open>Minting, self-verification and recording.\<close>

definition mint_and_record ::
    "('k, 'p) delegation_jwt \<Rightarrow> ('k, 'p) exchanger \<Rightarrow> instant \<Rightarrow> string option \<Rightarrow> entitlement \<Rightarrow> db
       \<Rightarrow> exchange_reply \<times> db" where
  "mint_and_record lib x now rnd en s =
     (case issue_for_grant lib (signer_of x) rnd (ent_grant en) (ent_scopes en) (ent_audience en) now of
        Inl _ \<Rightarrow> (Failed (OauthError 500 ''server_error'' ''could not mint token''), s)
      | Inr token \<Rightarrow>
          (case verify lib (verifier_of x) now token (ent_audience en) of
             Inl _ \<Rightarrow> (Failed (OauthError 500 ''server_error'' ''minted token failed self-verification''), s)
           | Inr c \<Rightarrow>
               (case record_exchange now (g_constraints (ent_grant en)) (ent_delegation en) (ent_agent en)
                       (ent_audience en) (ent_scopes en) (ent_expiry en) c s of
                  RateLimited \<Rightarrow> (Failed (OauthError 429 ''invalid_grant'' ''delegation rate limit exceeded; retry later''), s)
                | RecordFailed \<Rightarrow> (Failed (OauthError 500 ''server_error'' ''could not record minted token''), s)
                | Recorded s' \<Rightarrow>
                    (Issued token ((ent_expiry en - now) div nanos) (join '' '' (ent_scopes en)),
                     emit [Metric ''tokens_minted'' ''exchange'' 1,
                           Publish (no_event\<lparr>le_type := ''mint'', le_decision := ''MINT'', le_subject := rc_sub c,
                             le_actor := (case actor_chain c of [] \<Rightarrow> [] | a # _ \<Rightarrow> a),
                             le_provenance := provenance c, le_upstream := ent_audience en,
                             le_delegation := ent_delegation en\<rparr>)] s'))))"

text \<open>\<open>Handle\<close>; the deferred metric counts the outcome.\<close>

definition handle_exchange ::
    "('k, 'p) delegation_jwt \<Rightarrow> ('k, 'p) exchanger \<Rightarrow> 'r url_lib \<Rightarrow> instant \<Rightarrow> string option \<Rightarrow> exchange_form \<Rightarrow> db
       \<Rightarrow> exchange_reply \<times> db" where
  "handle_exchange lib x urls now rnd f s =
     (let (reply, s') = (case entitle x urls now f s of
                           Inl err \<Rightarrow> (Failed err, s)
                         | Inr en \<Rightarrow> mint_and_record lib x now rnd en s)
      in (reply, emit [Metric ''token_exchanges''
            (case reply of Issued _ _ _ \<Rightarrow> ''success'' | Failed _ \<Rightarrow> ''error'') 1] s'))"

section \<open>Introspection\<close>

record introspection =
  it_sub :: string
  it_scope :: string
  it_aud :: "string list"
  it_exp :: "instant option"
  it_jti :: string
  it_act :: "act_claim option"
  it_client_id :: string

fun actor_of :: "act_claim option \<Rightarrow> string" where
  "actor_of None = []"
| "actor_of (Some a) = ac_sub a"

datatype introspect_reply = NotOurs | Inactive | ActiveToken introspection

text \<open>\<open>IntrospectDelegation\<close>; \<open>up\<close> says whether the revocation check reaches the database.\<close>

definition introspect_delegation ::
    "('k, 'p) delegation_jwt \<Rightarrow> ('k, 'p) exchanger \<Rightarrow> bool \<Rightarrow> instant \<Rightarrow> string \<Rightarrow> db \<Rightarrow> introspect_reply \<times> db" where
  "introspect_delegation lib x up now token s =
     (case verify_any lib (verifier_of x) now token of
        Inl _ \<Rightarrow> (NotOurs, s)
      | Inr c \<Rightarrow>
          if cl_act c = None then (NotOurs, s)
          else case is_active up now s (rc_jti c) of
                 Inl _ \<Rightarrow> (Inactive, emit [Metric ''revocation_check_errors'' ''introspection'' 1] s)
               | Inr active \<Rightarrow>
                   if active
                   then (ActiveToken \<lparr>it_sub = rc_sub c, it_scope = cl_scope c, it_aud = rc_aud c, it_exp = rc_exp c,
                           it_jti = rc_jti c, it_act = cl_act c, it_client_id = actor_of (cl_act c)\<rparr>, s)
                   else (Inactive, s))"

section \<open>Lemmas\<close>

lemma narrow_grant_fields [simp]:
  "g_scopes (narrow_grant g sc ex) = sc" "g_constraints (narrow_grant g sc ex) = g_constraints g"
  "g_expires_at (narrow_grant g sc ex) = ex" "root_delegator (narrow_grant g sc ex) = root_delegator g"
  "actor_chain_root_to_leaf (narrow_grant g sc ex) = actor_chain_root_to_leaf g"
  by (cases g; cases "g_parent g"; simp add: actor_chain_root_to_leaf_def)+

lemma any_resource_matches_iff: "any_resource_matches urls canon rs \<longleftrightarrow> (\<exists>r \<in> set rs. resource_matches urls canon r)"
  by (induction rs) auto

lemma entitle_Inr:
  assumes "entitle x urls now f s = Inr en"
  obtains resource agent user subj g did where "check_form f = Inr resource"
    and "tx_resolve_actor x (fo_actor_token f) = Some agent"
    and "tx_resolve_subject x (fo_subject_token f) = Some (user, subj)"
    and "resolve_grant_chain now s agent user = Inr (g, did)"
    and "canonicalize_resource urls resource = Inr (ent_audience en)"
    and "any_resource_matches urls (ent_audience en) (cn_resources (g_constraints g))"
    and "ent_scopes en = filter (\<lambda>w. w \<in> set subj \<and> w \<in> set (g_scopes g)) (go_fields (fo_scope f))"
    and "ent_scopes en \<noteq> []"
    and "ent_expiry en = min (g_expires_at g) (now + tx_ttl x)" and "now < ent_expiry en"
    and "ent_grant en = narrow_grant g (ent_scopes en) (ent_expiry en)"
    and "ent_agent en = agent" and "ent_delegation en = did"
proof -
  from assms obtain resource agent user subj g did where
    a: "check_form f = Inr resource" "tx_resolve_actor x (fo_actor_token f) = Some agent"
      "tx_resolve_subject x (fo_subject_token f) = Some (user, subj)"
      "resolve_grant_chain now s agent user = Inr (g, did)"
    and e: "entitle_from x urls now f resource agent subj g did = Inr en"
    by (auto simp: entitle_def step_Inr_iff)
  let ?eff = "attenuate subj (attenuate (g_scopes g) (go_fields (fo_scope f)))"
  let ?ex = "if g_expires_at g < now + tx_ttl x then g_expires_at g else now + tx_ttl x"
  from e obtain canon where c: "canonicalize_resource urls resource = Inr canon" and en: "?eff \<noteq> []" "any_resource_matches urls canon (cn_resources (g_constraints g))" "now < ?ex"
    "en = \<lparr>ent_agent = agent, ent_grant = narrow_grant g ?eff ?ex, ent_delegation = did, ent_scopes = ?eff,
           ent_audience = canon, ent_expiry = ?ex\<rparr>"
    by (simp only: entitle_from_def Let_def step_Inr_iff) (elim conjE exE, simp)
  have "?eff = filter (\<lambda>w. w \<in> set subj \<and> w \<in> set (g_scopes g)) (go_fields (fo_scope f))"
    by (simp add: attenuate_eq conj_commute)
  with c en that [OF a] show thesis by (simp add: min_def)
qed

lemma record_exchange_Recorded:
  assumes "record_exchange now cn did agent aud scopes ex c s = Recorded t"
  shows "rc_jti c \<notin> tr_jti ` set (db_tokens s)"
    and "db_tokens t = db_tokens s @ [\<lparr>tr_jti = rc_jti c, tr_delegation = Some did, tr_subject = rc_sub c,
           tr_agent = Some agent, tr_actor_chain = actor_chain c, tr_audience = aud, tr_scopes = scopes,
           tr_issued_at = now, tr_expires_at = ex, tr_revoked_at = None\<rparr>]"
    and "\<exists>a. db_audit t = db_audit s @ [a] \<and> ae_jti a = rc_jti c \<and> ae_actor_chain a = actor_chain c \<and>
           ae_subject a = rc_sub c \<and> ae_delegation a = Some did"
    and "db_delegations t = db_delegations s"
    and "\<And>r. cn_rate cn = Some r \<Longrightarrow> rl_max_per_hour r > 0 \<Longrightarrow>
           int (minted_within_hour now did s) < rl_max_per_hour r"
  using assms by (auto simp: record_exchange_def record_tx_def split: if_splits option.splits)

lemma handle_exchange_Issued:
  assumes "handle_exchange lib x urls now rnd f s = (Issued tok n sc, t)"
  obtains en c u where "entitle x urls now f s = Inr en"
    and "issue_for_grant lib (signer_of x) rnd (ent_grant en) (ent_scopes en) (ent_audience en) now = Inr tok"
    and "verify lib (verifier_of x) now tok (ent_audience en) = Inr c"
    and "record_exchange now (g_constraints (ent_grant en)) (ent_delegation en) (ent_agent en)
           (ent_audience en) (ent_scopes en) (ent_expiry en) c s = Recorded u"
    and "db_tokens t = db_tokens u" and "db_audit t = db_audit u" and "db_delegations t = db_delegations u"
  using assms
  by (auto simp: handle_exchange_def mint_and_record_def intro: that
      split: prod.splits sum.splits record_outcome.splits)

lemma canonicalize_nonempty:
  assumes "url_laws urls" and "canonicalize_resource urls raw = Inr c"
  shows "c \<noteq> []"
proof -
  from canonicalize_resource_Inr [OF assms(2)] obtain u where "is_abs u" "c = ul_string urls (canonical_url urls u)"
    by blast
  moreover from this(1) assms(1) have "is_abs (canonical_url urls u)"
    by (simp add: is_abs_def canonical_url_def url_laws_def)
  ultimately show ?thesis using assms(1) by (simp add: url_laws_def)
qed

text \<open>Everything a successful exchange establishes.\<close>

lemma exchange_facts:
  assumes "jwt_laws lib" and "url_laws urls" and "tx_issuer x \<noteq> []"
    and "entitle x urls now f s = Inr en"
    and "\<And>jti. jl_exact lib (grant_claims lib (signer_of x) jti (ent_grant en) (ent_scopes en) (ent_audience en) now)"
    and "handle_exchange lib x urls now rnd f s = (Issued tok n sc, t)"
  obtains c jti u where "rnd = Some jti"
    and "c = grant_claims lib (signer_of x) jti (ent_grant en) (ent_scopes en) (ent_audience en) now"
    and "verify lib (verifier_of x) now tok (ent_audience en) = Inr c" and "jl_claims lib tok = Some c"
    and "record_exchange now (g_constraints (ent_grant en)) (ent_delegation en) (ent_agent en)
           (ent_audience en) (ent_scopes en) (ent_expiry en) c s = Recorded u"
    and "db_tokens t = db_tokens u" and "db_audit t = db_audit u" and "db_delegations t = db_delegations u"
proof -
  obtain en' c u where h: "entitle x urls now f s = Inr en'"
    "issue_for_grant lib (signer_of x) rnd (ent_grant en') (ent_scopes en') (ent_audience en') now = Inr tok"
    "verify lib (verifier_of x) now tok (ent_audience en') = Inr c"
    and r: "record_exchange now (g_constraints (ent_grant en')) (ent_delegation en') (ent_agent en')
           (ent_audience en') (ent_scopes en') (ent_expiry en') c s = Recorded u"
    "db_tokens t = db_tokens u" "db_audit t = db_audit u" "db_delegations t = db_delegations u"
    by (rule handle_exchange_Issued [OF assms(6)])
  with assms(4) have en: "en' = en" by simp
  have iss: "vf_issuer (verifier_of x) \<noteq> []" using assms(3) by (simp add: verifier_of_def)
  have aud: "ent_audience en \<noteq> []"
    by (rule entitle_Inr [OF assms(4)]) (use canonicalize_nonempty [OF assms(2)] in blast)
  obtain jti where "rnd = Some jti"
    "c = grant_claims lib (signer_of x) jti (ent_grant en) (ent_scopes en) (ent_audience en) now"
    using minted_claims [OF assms(1) iss aud assms(5) h(2) [unfolded en] h(3) [unfolded en]] by blast
  moreover have "jl_claims lib tok = Some c"
    using h(3) verify_iff [OF assms(1) iss aud] by (simp add: en)
  ultimately show thesis using that h r by (simp add: en)
qed

lemma recorded_active:
  assumes "record_exchange now cn did agent aud scopes ex c s = Recorded t" and "now \<le> ex"
  shows "is_active True now t (rc_jti c) = Inr True"
proof -
  have "find (\<lambda>r. tr_jti r = rc_jti c) (db_tokens s) = None"
    using record_exchange_Recorded(1) [OF assms(1)] unfolding find_None_iff image_iff by metis
  then have "find (\<lambda>r. tr_jti r = rc_jti c) (db_tokens s @ [y]) = (if tr_jti y = rc_jti c then Some y else None)" for y
    by (simp add: find_append)
  with assms(2) show ?thesis by (simp add: is_active_def record_exchange_Recorded(2) [OF assms(1)])
qed

lemma path_bound:
  "chain_path rows (r # cs) \<Longrightarrow> q \<in> set (r # cs) \<Longrightarrow>
   set (dr_scopes r) \<subseteq> set (dr_scopes q) \<and>
   (permit tzdb t (sc_decoded (dr_constraints r)) a = None \<longrightarrow> permit tzdb t (sc_decoded (dr_constraints q)) a = None)"
proof (induction cs arbitrary: r)
  case (Cons p cs)
  from chain_path_more [OF Cons.prems(1)] have p: "child_of p r" "chain_path rows (p # cs)" by blast+
  show ?case
  proof (cases "q = r")
    case False
    with Cons.prems(2) have "q \<in> set (p # cs)" by simp
    from Cons.IH [OF p(2) this] child_scopes [OF p(1)] child_permit [OF p(1)] show ?thesis by auto
  qed simp
qed simp

text \<open>What an entitlement is made of, and the chain it rests on.\<close>

lemma entitled_grant:
  assumes "entitle x urls now f s = Inr en"
  shows "g_scopes (ent_grant en) = ent_scopes en" and "g_expires_at (ent_grant en) = ent_expiry en"
    and "\<forall>w \<in> set (ent_scopes en). solid w" and "now < ent_expiry en" and "ent_expiry en \<le> now + tx_ttl x"
  by (rule entitle_Inr [OF assms], use fields_solid in auto)+

lemma entitled_chain:
  assumes "rows_inv (db_delegations s)" and "entitle x urls now f s = Inr en"
  obtains leaf cs user subj where "chain_path (db_delegations s) (leaf # cs)"
    and "tx_resolve_actor x (fo_actor_token f) = Some (dr_delegatee leaf)"
    and "tx_resolve_subject x (fo_subject_token f) = Some (user, subj)" and "dr_delegator (last (leaf # cs)) = user"
    and "root_delegator (ent_grant en) = ''user:'' @ user"
    and "set (ent_scopes en) \<subseteq> set subj \<inter> set (dr_scopes leaf)"
    and "g_constraints (ent_grant en) = sc_decoded (dr_constraints leaf)"
    and "\<And>r e. r \<in> set (leaf # cs) \<Longrightarrow> dr_expires_at r = Some e \<Longrightarrow> ent_expiry en \<le> e"
proof (rule entitle_Inr [OF assms(2)])
  fix resource agent user subj g did
  assume ids: "tx_resolve_actor x (fo_actor_token f) = Some agent" "tx_resolve_subject x (fo_subject_token f) = Some (user, subj)"
    and res: "resolve_grant_chain now s agent user = Inr (g, did)"
    and sc: "ent_scopes en = filter (\<lambda>w. w \<in> set subj \<and> w \<in> set (g_scopes g)) (go_fields (fo_scope f))"
    and ex: "ent_expiry en = min (g_expires_at g) (now + tx_ttl x)"
    and g': "ent_grant en = narrow_grant g (ent_scopes en) (ent_expiry en)"
  obtain leaf cs where path: "chain_path (db_delegations s) (leaf # cs)" and "dr_id leaf = did"
    and agent: "dr_delegatee leaf = agent" and "\<forall>r \<in> set (leaf # cs). live now r \<and> sc_ok (dr_constraints r)"
    and user: "dr_delegator (last (leaf # cs)) = user" and gr: "grants_of now (leaf # cs) = Some g"
    by (rule resolve_Inr [OF assms(1) res])
  have "dr_delegator_type (last (leaf # cs)) = ''user''"
    using chain_path_root [OF path] by (simp only: root_row_def)
  with grants_of_root [OF gr] user have root: "root_delegator g = ''user:'' @ user" by simp
  from gr have g: "g_scopes g = dr_scopes leaf" "g_constraints g = sc_decoded (dr_constraints leaf)" by auto
  have "ent_expiry en \<le> e" if "r \<in> set (leaf # cs)" "dr_expires_at r = Some e" for r e
    using path_expiry [OF path that] gr ex by auto
  with that [OF path _ ids(2) user] ids agent root sc g show thesis by (auto simp: g')
qed

text \<open>What an issued token authorizes is what was entitled.\<close>

lemma authorized_entitled:
  assumes "jwt_laws lib" and "entitle x urls now f s = Inr en"
    and "c0 = grant_claims lib sg jti (ent_grant en) (ent_scopes en) (ent_audience en) now" and "jl_claims lib tok = Some c0"
    and "vf_issuer v \<noteq> []" and "aud \<noteq> []" and "verify lib v later tok aud = Inr c" and "authorize tzdb later c a = None"
  shows "rc_sub c = root_delegator (ent_grant en)" and "ac_scope a \<in> set (ent_scopes en)"
    and "permit tzdb later (g_constraints (ent_grant en)) a = None" and "later < ent_expiry en"
proof -
  note en = entitled_grant [OF assms(2)]
  from assms(3-7) have c: "c = c0" and cur: "later < jl_numeric_date lib (ent_expiry en)"
    by (auto simp: verify_iff [OF assms(1)] claims_current_def grant_claims_def token_claims_def en)
  show "later < ent_expiry en" using cur jwt_numeric_date [OF assms(1)] by (rule less_le_trans)
  show "rc_sub c = root_delegator (ent_grant en)" by (simp add: c assms(3) grant_claims_def token_claims_def)
  show "ac_scope a \<in> set (ent_scopes en)" "permit tzdb later (g_constraints (ent_grant en)) a = None"
    using assms(8) by (auto simp: authorize_None_iff c assms(3) grant_claims_scopes [OF en(3)] effective_scopes_eq en)
      (simp add: grant_claims_def token_claims_def)
qed

text \<open>The row and the audit line of an issued token.\<close>

lemma recorded_row:
  assumes "entitle x urls now f s = Inr en"
    and "c = grant_claims lib sg jti (ent_grant en) (ent_scopes en) (ent_audience en) now"
    and rec: "record_exchange now (g_constraints (ent_grant en)) (ent_delegation en) (ent_agent en)
           (ent_audience en) (ent_scopes en) (ent_expiry en) c s = Recorded u"
  obtains row entry where "db_tokens u = db_tokens s @ [row]" and "db_audit u = db_audit s @ [entry]"
    and "tr_jti row = rc_jti c \<and> tr_subject row = rc_sub c \<and> rc_aud c = [tr_audience row] \<and>
        tr_actor_chain row = actor_chain c \<and> go_fields (cl_scope c) = tr_scopes row"
    and "ae_jti entry = rc_jti c \<and> ae_actor_chain entry = actor_chain c \<and> ae_delegation entry = tr_delegation row"
    and "now < tr_expires_at row \<and> tr_expires_at row \<le> now + tx_ttl x"
    and "tr_delegation row = Some (ent_delegation en)"
proof -
  note en = entitled_grant [OF assms(1)]
  have scopes: "go_fields (cl_scope c) = ent_scopes en" "rc_aud c = [ent_audience en]"
    by (simp_all add: assms(2) grant_claims_scopes [OF en(3)] effective_scopes_eq en)
       (simp add: grant_claims_def token_claims_def)
  obtain entry where e: "db_audit u = db_audit s @ [entry]" "ae_jti entry = rc_jti c"
    "ae_actor_chain entry = actor_chain c" "ae_delegation entry = Some (ent_delegation en)"
    using record_exchange_Recorded(3) [OF rec] by blast
  show thesis
    by (rule that [OF record_exchange_Recorded(2) [OF rec] e(1)]) (use scopes e en in simp_all)
qed

lemma recorded_rate:
  assumes "record_exchange now cn did agent aud scopes ex c s = Recorded t"
    and "cn_rate cn = Some r" and "rl_max_per_hour r > 0"
  shows "int (minted_within_hour now did t) \<le> rl_max_per_hour r"
  using record_exchange_Recorded(5) [OF assms] record_exchange_Recorded(2) [OF assms(1)]
  by (auto simp: minted_within_hour_def one_hour_def nanos_def)

section \<open>Properties\<close>

text \<open>
  C1: a token exchange never widens. In every table the code can reach, whatever an issued token
  authorizes (at any verifier that accepts it, at any later time) lies within the subject token's scopes
  and within every link of one chain of delegations from the authenticated agent back to the
  authenticated user: each link holds the scope, permits the action and has not expired.
\<close>

theorem exchange_bounded_by_chain:
  assumes "jwt_laws lib" and "url_laws urls" and "tx_issuer x \<noteq> []"
    and "(chain_step urls')\<^sup>*\<^sup>* s0 s" and "db_delegations s0 = []"
    and "entitle x urls now f s = Inr en"
    and "\<And>jti. jl_exact lib (grant_claims lib (signer_of x) jti (ent_grant en) (ent_scopes en) (ent_audience en) now)"
    and "handle_exchange lib x urls now rnd f s = (Issued tok n sc, t)"
  shows "\<exists>chain user subj. chain_path (db_delegations s) chain \<and>
    tx_resolve_actor x (fo_actor_token f) = Some (dr_delegatee (hd chain)) \<and>
    tx_resolve_subject x (fo_subject_token f) = Some (user, subj) \<and> dr_delegator (last chain) = user \<and>
    (\<forall>v tzdb later aud c a. vf_issuer v \<noteq> [] \<longrightarrow> aud \<noteq> [] \<longrightarrow> verify lib v later tok aud = Inr c \<longrightarrow>
       authorize tzdb later c a = None \<longrightarrow>
       rc_sub c = ''user:'' @ user \<and> ac_scope a \<in> set subj \<and>
       (\<forall>r \<in> set chain. ac_scope a \<in> set (dr_scopes r) \<and>
          permit tzdb later (sc_decoded (dr_constraints r)) a = None \<and>
          (\<forall>e. dr_expires_at r = Some e \<longrightarrow> later < e)))"
proof -
  have inv: "rows_inv (db_delegations s)" by (rule reachable_inv [OF assms(4,5)])
  obtain leaf cs user subj where path: "chain_path (db_delegations s) (leaf # cs)"
    and ids: "tx_resolve_actor x (fo_actor_token f) = Some (dr_delegatee leaf)"
      "tx_resolve_subject x (fo_subject_token f) = Some (user, subj)" "dr_delegator (last (leaf # cs)) = user"
    and en: "root_delegator (ent_grant en) = ''user:'' @ user" "set (ent_scopes en) \<subseteq> set subj \<inter> set (dr_scopes leaf)"
      "g_constraints (ent_grant en) = sc_decoded (dr_constraints leaf)"
    and ex: "\<And>r e. r \<in> set (leaf # cs) \<Longrightarrow> dr_expires_at r = Some e \<Longrightarrow> ent_expiry en \<le> e"
    by (rule entitled_chain [OF inv assms(6)]) blast
  obtain c0 jti where c0: "c0 = grant_claims lib (signer_of x) jti (ent_grant en) (ent_scopes en) (ent_audience en) now"
    "jl_claims lib tok = Some c0"
    by (rule exchange_facts [OF assms(1-3,6-8)])
  have "rc_sub c = ''user:'' @ user \<and> ac_scope a \<in> set subj \<and>
       (\<forall>r \<in> set (leaf # cs). ac_scope a \<in> set (dr_scopes r) \<and>
          permit tzdb later (sc_decoded (dr_constraints r)) a = None \<and> (\<forall>e. dr_expires_at r = Some e \<longrightarrow> later < e))"
    if v: "vf_issuer v \<noteq> []" "aud \<noteq> []" "verify lib v later tok aud = Inr c" "authorize tzdb later c a = None"
    for v tzdb later aud c a
  proof -
    note auth = authorized_entitled [OF assms(1,6) c0 v]
    have "ac_scope a \<in> set (dr_scopes r) \<and> permit tzdb later (sc_decoded (dr_constraints r)) a = None \<and>
        (\<forall>e. dr_expires_at r = Some e \<longrightarrow> later < e)" if r: "r \<in> set (leaf # cs)" for r
      using path_bound [OF path r, of tzdb later a] auth(2-4) en ex [OF r] by force
    then show ?thesis using auth(1,2) en by auto
  qed
  then show ?thesis
    by (intro exI [of _ "leaf # cs"] exI [of _ user] exI [of _ subj]) (use path ids in auto)
qed


text \<open>
  a token exchange is all or nothing. A refused exchange changes no table and counts one error. An
  issued token has a fresh id, one new row that names its delegation, subject, audience, scopes and
  expiry, and one audit line with the token's own actor chain; it lives no longer than the configured
  lifetime, is active at once, and the delegation's hourly cap still holds with it counted.
\<close>

theorem exchange_all_or_nothing:
  assumes "jwt_laws lib" and "url_laws urls" and "tx_issuer x \<noteq> []"
    and "\<And>en jti. entitle x urls now f s = Inr en \<Longrightarrow>
           jl_exact lib (grant_claims lib (signer_of x) jti (ent_grant en) (ent_scopes en) (ent_audience en) now)"
    and "handle_exchange lib x urls now rnd f s = (reply, t)"
  shows "case reply of
      Failed e \<Rightarrow> t = emit [Metric ''token_exchanges'' ''error'' 1] s
    | Issued tok n sc \<Rightarrow> \<exists>c row entry. jl_claims lib tok = Some c \<and>
        rc_jti c \<notin> tr_jti ` set (db_tokens s) \<and> db_tokens t = db_tokens s @ [row] \<and> db_audit t = db_audit s @ [entry] \<and>
        db_delegations t = db_delegations s \<and>
        tr_jti row = rc_jti c \<and> tr_subject row = rc_sub c \<and> rc_aud c = [tr_audience row] \<and>
        tr_actor_chain row = actor_chain c \<and> go_fields (cl_scope c) = tr_scopes row \<and>
        ae_jti entry = rc_jti c \<and> ae_actor_chain entry = actor_chain c \<and> ae_delegation entry = tr_delegation row \<and>
        now < tr_expires_at row \<and> tr_expires_at row \<le> now + tx_ttl x \<and>
        is_active True now t (rc_jti c) = Inr True \<and>
        (\<forall>cn r did. cl_constraints c = Some cn \<longrightarrow> cn_rate cn = Some r \<longrightarrow> rl_max_per_hour r > 0 \<longrightarrow>
           tr_delegation row = Some did \<longrightarrow> int (minted_within_hour now did t) \<le> rl_max_per_hour r)"
proof (cases reply)
  case (Failed e)
  with assms(5) have "t = emit [Metric ''token_exchanges'' ''error'' 1] s"
    by (auto simp: handle_exchange_def mint_and_record_def
        split: prod.splits sum.splits record_outcome.splits exchange_reply.splits)
  with Failed show ?thesis by simp
next
  case (Issued tok n sc)
  with assms(5) obtain en where en: "entitle x urls now f s = Inr en"
    by (metis handle_exchange_Issued)
  obtain c jti u where c: "c = grant_claims lib (signer_of x) jti (ent_grant en) (ent_scopes en) (ent_audience en) now"
    and tok: "jl_claims lib tok = Some c"
    and rec: "record_exchange now (g_constraints (ent_grant en)) (ent_delegation en) (ent_agent en)
           (ent_audience en) (ent_scopes en) (ent_expiry en) c s = Recorded u"
    and t: "db_tokens t = db_tokens u" "db_audit t = db_audit u" "db_delegations t = db_delegations u"
    by (rule exchange_facts [OF assms(1-3) en assms(4) [OF en] assms(5) [unfolded Issued]])
  obtain row entry where row: "db_tokens u = db_tokens s @ [row]" "db_audit u = db_audit s @ [entry]"
    and fields: "tr_jti row = rc_jti c \<and> tr_subject row = rc_sub c \<and> rc_aud c = [tr_audience row] \<and>
        tr_actor_chain row = actor_chain c \<and> go_fields (cl_scope c) = tr_scopes row"
      "ae_jti entry = rc_jti c \<and> ae_actor_chain entry = actor_chain c \<and> ae_delegation entry = tr_delegation row"
      "now < tr_expires_at row \<and> tr_expires_at row \<le> now + tx_ttl x" "tr_delegation row = Some (ent_delegation en)"
    by (rule recorded_row [OF en c rec])
  have active: "is_active True now t (rc_jti c) = Inr True"
    using recorded_active [OF rec] entitled_grant(4) [OF en] t by (simp add: is_active_def)
  have "cl_constraints c = Some (g_constraints (ent_grant en))" by (simp add: c grant_claims_def token_claims_def)
  then have rate: "int (minted_within_hour now (ent_delegation en) t) \<le> rl_max_per_hour r"
    if "cl_constraints c = Some cn" "cn_rate cn = Some r" "rl_max_per_hour r > 0" for cn r
    using recorded_rate [OF rec] that t(1) by (simp add: minted_within_hour_def)
  show ?thesis
    unfolding Issued exchange_reply.case
    by (rule exI [of _ c], rule exI [of _ row], rule exI [of _ entry])
      (use tok record_exchange_Recorded(1,4) [OF rec] row fields active rate t in simp)
qed

text \<open>
  C40: introspection of delegation tokens fails closed. \<open>IntrospectDelegation\<close> reports a token active only
  if its signature and claims verify, it carries an actor, and its row is there, unrevoked and unexpired;
  never when the database cannot be read, and never after the token was revoked, whatever is done to the
  store afterwards (no later token gets the same random id).
\<close>

theorem introspection_fails_closed:
  assumes "jwt_laws lib" and "tx_issuer x \<noteq> []" and "jl_claims lib token = Some c"
  shows "(\<forall>i. fst (introspect_delegation lib x up now token s) = ActiveToken i \<longrightarrow>
            up \<and> verify_any lib (verifier_of x) now token = Inr c \<and> cl_act c \<noteq> None \<and> is_active True now s (rc_jti c) = Inr True \<and>
            it_sub i = rc_sub c \<and> it_scope i = cl_scope c \<and> it_client_id i = hd (actor_chain c)) \<and>
         (rc_jti c \<notin> J \<and> (token_step J hi)\<^sup>*\<^sup>* (snd (revoke_token when (rc_jti c) s)) t \<longrightarrow>
            (\<forall>i. fst (introspect_delegation lib x up now token t) \<noteq> ActiveToken i))"
proof (intro conjI impI allI)
  have iss: "vf_issuer (verifier_of x) \<noteq> []" using assms(2) by (simp add: verifier_of_def)
  have act: "up \<and> verify_any lib (verifier_of x) now token = Inr c \<and> cl_act c \<noteq> None \<and>
      is_active True now s' (rc_jti c) = Inr True \<and>
      it_sub i = rc_sub c \<and> it_scope i = cl_scope c \<and> it_client_id i = hd (actor_chain c)"
    if "fst (introspect_delegation lib x up now token s') = ActiveToken i" for i s'
  proof -
    from that obtain d where d: "verify_any lib (verifier_of x) now token = Inr d" "cl_act d \<noteq> None"
      "is_active up now s' (rc_jti d) = Inr True" "it_sub i = rc_sub d" "it_scope i = cl_scope d"
      "it_client_id i = actor_of (cl_act d)"
      by (auto simp: introspect_delegation_def split: sum.splits if_splits)
    moreover from d(1) assms(3) have "d = c" by (simp add: verify_any_iff [OF assms(1) iss])
    moreover from d(3) have "up" by (auto simp: is_active_def split: if_splits)
    moreover have "actor_of (cl_act c) = hd (actor_chain c)" if "cl_act c \<noteq> None"
      using that by (cases "cl_act c"; cases "the (cl_act c)") (auto simp: actor_chain_def)
    ultimately show ?thesis by simp
  qed
  fix i
  { assume *: "fst (introspect_delegation lib x up now token s) = ActiveToken i"
    from act [OF *] show "up" "verify_any lib (verifier_of x) now token = Inr c" "cl_act c \<noteq> None"
      "is_active True now s (rc_jti c) = Inr True" "it_sub i = rc_sub c" "it_scope i = cl_scope c"
      "it_client_id i = hd (actor_chain c)" by blast+ }
  assume "rc_jti c \<notin> J \<and> (token_step J hi)\<^sup>*\<^sup>* (snd (revoke_token when (rc_jti c) s)) t"
  then have "dead J (rc_jti c) t" using dead.steps_keep revoke_token_dead by blast
  then have "is_active True now t (rc_jti c) \<noteq> Inr True" by (rule dead_inactive)
  then show "fst (introspect_delegation lib x up now token t) \<noteq> ActiveToken i" using act [of t i] by blast
qed

text \<open>Alice's agent \<open>a1\<close> exchanges for the resource her consent names.\<close>

definition api_consent :: consent_request where
  "api_consent = sample_consent\<lparr>cq_resource := ''https://api:443'', cq_ttl := 100 * nanos\<rparr>"

definition api_root :: delegation_row where
  "api_root = root_d1\<lparr>dr_constraints := \<lparr>sc_decoded = no_constraints\<lparr>cn_resources := [''https://api/'']\<rparr>, sc_ok = True\<rparr>,
     dr_expires_at := Some (100 * nanos)\<rparr>"

definition api_db :: db where
  "api_db = snd (projr (grant_consent (chain_env_at 0 ''c1'' ''d1'') api_consent two_agents))"

lemma two_url_canonical: "canonicalize_resource two_url_lib ''https://api:443'' = Inr ''https://api/''"
  "canonicalize_resource two_url_lib ''https://api/'' = Inr ''https://api/''"
  by (simp_all add: canonicalize_resource_def two_url_lib_def is_abs_def strip_default_port_def has_suffix_def
      has_prefix_def trim_suffix_def Let_def)

lemma api_run:
  "grant_consent (chain_env_at 0 ''c1'' ''d1'') api_consent two_agents = Inr ((''c1'', ''d1''), api_db) \<and>
   db_delegations api_db = [api_root] \<and> db_tokens api_db = []"
  by (simp add: api_db_def api_consent_def api_root_def grant_consent_def consent_tx_def uuid_arg_def validate_and_canonicalize_def
      insert_delegation_def chain_samples plain_def no_constraints_def emit_def two_url_canonical deny_all_def nanos_def Let_def)

lemma api_reachable: "(chain_step two_url_lib)\<^sup>*\<^sup>* two_agents api_db"
  by (rule r_into_rtranclp, rule chain_step.consents [OF _ sample_jsonb _ conjunct1 [OF api_run]])
     (simp_all add: chain_env_at_def)

definition api_claims :: claims where
  "api_claims = \<lparr>rc_iss = ''https://legant'', rc_sub = ''user:u1'', rc_aud = [''https://api/''],
     rc_exp = Some (50 * nanos), rc_nbf = None, rc_iat = Some 0, rc_jti = ''j1'', cl_scope = ''pay'',
     cl_act = Some (ActClaim ''agent:a1'' None),
     cl_constraints = Some (no_constraints\<lparr>cn_resources := [''https://api/'']\<rparr>)\<rparr>"

definition api_lib :: "(unit, unit) delegation_jwt" where
  "api_lib = one_token_lib ''k1'' api_claims ''tok''"

definition api_exchanger :: "(unit, unit) exchanger" where
  "api_exchanger = \<lparr>tx_issuer = ''https://legant'', tx_ttl = 50 * nanos, tx_kid = ''k1'', tx_key = (),
     tx_verifier_keys = [''k1'' \<mapsto> ()], tx_resolve_actor = [''agent-token'' \<mapsto> ''a1''],
     tx_resolve_subject = [''user-token'' \<mapsto> (''u1'', [''pay''])]\<rparr>"

definition api_form :: exchange_form where
  "api_form = \<lparr>fo_subject_token = ''user-token'', fo_actor_token = ''agent-token'', fo_subject_token_type = [],
     fo_actor_token_type = [], fo_resources = [''https://api:443''], fo_scope = ''pay read''\<rparr>"

definition api_entitled :: entitlement where
  "api_entitled = \<lparr>ent_agent = ''a1'', ent_grant = Grant ''user:u1'' ''agent:a1'' [''pay'']
       (no_constraints\<lparr>cn_resources := [''https://api/'']\<rparr>) (50 * nanos) None,
     ent_delegation = ''d1'', ent_scopes = [''pay''], ent_audience = ''https://api/'', ent_expiry = 50 * nanos\<rparr>"

definition exchanged :: db where
  "exchanged = snd (handle_exchange api_lib api_exchanger two_url_lib 0 (Some ''j1'') api_form api_db)"

lemma api_fields: "go_fields ''pay read'' = [''pay'', ''read'']"
  by (simp add: go_fields_def space_len_def ascii_spaces_def wide_spaces_def has_prefix_def)

lemma api_resolved:
  "resolve_grant_chain 0 api_db ''a1'' ''u1'' = Inr (Grant ''user:u1'' ''agent:a1'' [''pay'', ''read'']
     (no_constraints\<lparr>cn_resources := [''https://api/'']\<rparr>) (100 * nanos) None, ''d1'')"
  using api_run
  by (simp add: resolve_grant_chain_def max_chain_walk_def numeral_eq_Suc parent_id_def live_def not_expired_def
      api_root_def root_d1_def row_grant_def nanos_def)

lemma api_entitle: "entitle api_exchanger two_url_lib 0 api_form api_db = Inr api_entitled"
  by (simp add: entitle_def check_form_def api_form_def api_exchanger_def api_resolved entitle_from_def api_fields
      two_url_canonical resource_matches_def api_entitled_def nanos_def access_token_type_def agent_token_type_def Let_def)

lemma api_exact: "jl_exact api_lib c"
  by (simp add: api_lib_def one_token_lib_def)

lemma api_laws: "jwt_laws api_lib"
  by (simp add: api_lib_def one_token_laws)

lemma api_issued:
  "issue_for_grant api_lib (signer_of api_exchanger) (Some ''j1'') (ent_grant api_entitled) (ent_scopes api_entitled)
     (ent_audience api_entitled) 0 = Inr ''tok''"
  by (simp add: issue_for_grant_Inr_iff grant_claims_def token_claims_def api_lib_def one_token_lib_def signer_of_def
      api_exchanger_def api_entitled_def effective_scopes_eq api_claims_def actor_chain_root_to_leaf_def nanos_def)

lemma api_verified: "verify api_lib (verifier_of api_exchanger) 0 ''tok'' ''https://api/'' = Inr api_claims"
  by (simp add: verify_def key_func_def verifier_of_def api_exchanger_def api_lib_def
      one_token_lib_def claims_current_def api_claims_def nanos_def)

lemma api_exchange:
  "handle_exchange api_lib api_exchanger two_url_lib 0 (Some ''j1'') api_form api_db = (Issued ''tok'' 50 ''pay'', exchanged)"
  using api_run
  by (simp add: exchanged_def handle_exchange_def api_entitle mint_and_record_def api_issued)
     (simp add: api_entitled_def api_verified record_exchange_def no_constraints_def record_tx_def nanos_def)

theorem exchange_bounded_by_chain_witness:
  "\<exists>chain. chain_path (db_delegations api_db) chain \<and> dr_delegatee (hd chain) = ''a1'' \<and> dr_delegator (last chain) = ''u1''"
proof -
  have iss: "tx_issuer api_exchanger \<noteq> []" by (simp add: api_exchanger_def)
  from exchange_bounded_by_chain [OF api_laws two_url_laws iss api_reachable two_agents_empty api_entitle api_exact api_exchange]
  obtain chain user subj where "chain_path (db_delegations api_db) chain"
    "tx_resolve_actor api_exchanger (fo_actor_token api_form) = Some (dr_delegatee (hd chain))"
    "tx_resolve_subject api_exchanger (fo_subject_token api_form) = Some (user, subj)" "dr_delegator (last chain) = user"
    by blast
  then show ?thesis by (intro exI [of _ chain]) (simp add: api_exchanger_def api_form_def)
qed

theorem exchange_all_or_nothing_witness:
  "\<exists>row. db_tokens exchanged = [row] \<and> tr_expires_at row \<le> 50 * nanos"
proof -
  have iss: "tx_issuer api_exchanger \<noteq> []" by (simp add: api_exchanger_def)
  from exchange_all_or_nothing [OF api_laws two_url_laws iss api_exact api_exchange, unfolded exchange_reply.case]
  obtain row where "db_tokens exchanged = db_tokens api_db @ [row]" "tr_expires_at row \<le> 0 + tx_ttl api_exchanger"
    by blast
  then show ?thesis using api_run by (simp add: api_exchanger_def)
qed

theorem introspection_fails_closed_witness:
  "fst (introspect_delegation api_lib api_exchanger True 0 ''tok'' exchanged) \<noteq> NotOurs \<and>
   (\<forall>i. fst (introspect_delegation api_lib api_exchanger False 0 ''tok'' exchanged) \<noteq> ActiveToken i)"
proof
  have "verify_any api_lib (verifier_of api_exchanger) 0 ''tok'' = Inr api_claims"
    by (simp add: verify_any_def key_func_def verifier_of_def api_exchanger_def api_lib_def
        one_token_lib_def claims_current_def api_claims_def nanos_def)
  then show "fst (introspect_delegation api_lib api_exchanger True 0 ''tok'' exchanged) \<noteq> NotOurs"
    by (simp add: introspect_delegation_def api_claims_def split: sum.split)
  have "tx_issuer api_exchanger \<noteq> []" "jl_claims api_lib ''tok'' = Some api_claims"
    by (simp_all add: api_exchanger_def api_lib_def one_token_lib_def)
  from introspection_fails_closed [OF api_laws this, of False]
  show "\<forall>i. fst (introspect_delegation api_lib api_exchanger False 0 ''tok'' exchanged) \<noteq> ActiveToken i"
    by blast
qed

end
