(* ===== verification/Json.thy ===== *)
theory Json
  imports GoPrelude
begin

text \<open>
  JSON as \<open>encoding/json\<close> presents it to the code: the tree of a document, the tokens \<open>Decoder.Token\<close>
  yields for it, and the rules by which \<open>Unmarshal\<close> fills a struct or a map. Reading the text of a document
  is \<open>encoding/json\<close>'s own work; a \<open>body\<close> holds what it makes of one.

  The scan for duplicate keys (\<open>scanDuplicateKeys\<close> of \<open>internal/mcpgw/gateway.go\<close>) works on the tokens; its
  lemma says that on a well-formed document it finds exactly the objects with a repeated key.
\<close>

datatype json =
    JNull
  | JBool bool
  | JNum string
  | JStr string
  | JArr "json list"
  | JObj "(string \<times> json) list"

datatype jtoken = Delim char | StrTok string | Scalar

fun tokens_of :: "json \<Rightarrow> jtoken list" where
  "tokens_of (JStr s) = [StrTok s]"
| "tokens_of (JArr vs) = Delim CHR ''['' # concat (map tokens_of vs) @ [Delim CHR '']'']"
| "tokens_of (JObj kvs) = Delim CHR ''{'' # concat (map (\<lambda>(k, v). StrTok k # tokens_of v) kvs) @ [Delim CHR ''}'']"
| "tokens_of _ = [Scalar]"

text \<open>
  A body: its bytes, the tokens read from it up to the end or the first error, and the tree when the whole
  text is one JSON document.
\<close>

record body =
  bd_bytes :: string
  bd_tokens :: "jtoken list"
  bd_doc :: "json option"

definition body_law :: "body \<Rightarrow> bool" where
  "body_law b \<longleftrightarrow> (case bd_doc b of None \<Rightarrow> True | Some v \<Rightarrow> bd_tokens b = tokens_of v)"

section \<open>Struct fields and maps\<close>

text \<open>
  \<open>Unmarshal\<close> finds the field of a key by its exact name or else under \<open>bytes.EqualFold\<close>. Besides the
  ASCII letters two code points fold to one: the long s and the Kelvin sign.
\<close>

fun fold_wide :: "string \<Rightarrow> string" where
  "fold_wide [] = []"
| "fold_wide (c # cs) =
     (if c = CHR 0xC5 \<and> take 1 cs = [CHR 0xBF] then CHR ''s'' # fold_wide (drop 1 cs)
      else if c = CHR 0xE2 \<and> take 2 cs = [CHR 0x84, CHR 0xAA] then CHR ''k'' # fold_wide (drop 2 cs)
      else c # fold_wide cs)"

definition fold_name :: "string \<Rightarrow> string" where
  "fold_name s = ascii_lower (fold_wide s)"

text \<open>A string field: \<open>null\<close> leaves it, anything but a string is an error.\<close>

fun assign_string :: "string \<Rightarrow> json \<Rightarrow> string option" where
  "assign_string acc (JStr s) = Some s"
| "assign_string acc JNull = Some acc"
| "assign_string acc _ = None"

text \<open>A struct with the one string field \<open>name\<close>; the members are assigned in the order of the document.\<close>

fun decode_string_field :: "string \<Rightarrow> string \<Rightarrow> (string \<times> json) list \<Rightarrow> string option" where
  "decode_string_field name acc [] = Some acc"
| "decode_string_field name acc ((k, v) # kvs) =
     (if fold_name k = name
      then (case assign_string acc v of None \<Rightarrow> None | Some s \<Rightarrow> decode_string_field name s kvs)
      else decode_string_field name acc kvs)"

fun decode_name_struct :: "string \<Rightarrow> json \<Rightarrow> string option" where
  "decode_name_struct acc (JObj kvs) = decode_string_field ''name'' acc kvs"
| "decode_name_struct acc JNull = Some acc"
| "decode_name_struct acc _ = None"

text \<open>
  A \<open>map[string]json.RawMessage\<close>: the last of equal keys counts. Marshalling a map sorts its keys.
\<close>

fun decode_map :: "json \<Rightarrow> (string \<times> json) list option" where
  "decode_map (JObj kvs) = Some (map (\<lambda>k. (k, the (map_of (rev kvs) k))) (sort (remdups (map fst kvs))))"
| "decode_map JNull = Some []"
| "decode_map _ = None"

definition set_member :: "string \<Rightarrow> json \<Rightarrow> (string \<times> json) list \<Rightarrow> (string \<times> json) list" where
  "set_member k v m = map (\<lambda>(k', v'). if k' = k then (k', v) else (k', v')) m"

fun decode_list :: "json \<Rightarrow> json list option" where
  "decode_list (JArr vs) = Some vs"
| "decode_list JNull = Some []"
| "decode_list _ = None"

section \<open>The scan for duplicate keys\<close>

datatype scan = ScanOk "jtoken list" | ScanErr | ScanDup | OutOfFuel

text \<open>\<open>dec.More()\<close>.\<close>

fun more :: "jtoken list \<Rightarrow> bool" where
  "more [] = False"
| "more (Delim c # _) = (c \<noteq> CHR '']'' \<and> c \<noteq> CHR ''}'')"
| "more _ = True"

fun close_token :: "jtoken list \<Rightarrow> scan" where
  "close_token [] = ScanErr"
| "close_token (_ # ts) = ScanOk ts"

definition scan_then :: "scan \<Rightarrow> (jtoken list \<Rightarrow> scan) \<Rightarrow> scan" where
  "scan_then r k = (case r of ScanOk ts \<Rightarrow> k ts | e \<Rightarrow> e)"

fun key_name :: "jtoken \<Rightarrow> string" where
  "key_name (StrTok s) = s"
| "key_name _ = []"

fun scan_value :: "nat \<Rightarrow> jtoken list \<Rightarrow> scan"
  and scan_members :: "nat \<Rightarrow> string set \<Rightarrow> jtoken list \<Rightarrow> scan"
  and scan_elements :: "nat \<Rightarrow> jtoken list \<Rightarrow> scan" where
  "scan_value 0 ts = OutOfFuel"
| "scan_value (Suc n) [] = ScanErr"
| "scan_value (Suc n) (Delim c # ts) =
     (if c = CHR ''{'' then scan_members n {} ts
      else if c = CHR ''['' then scan_elements n ts
      else ScanOk ts)"
| "scan_value (Suc n) (_ # ts) = ScanOk ts"
| "scan_members 0 seen ts = OutOfFuel"
| "scan_members (Suc n) seen ts =
     (if more ts
      then (if key_name (hd ts) \<in> seen then ScanDup
            else scan_then (scan_value n (tl ts)) (scan_members n (insert (key_name (hd ts)) seen)))
      else close_token ts)"
| "scan_elements 0 ts = OutOfFuel"
| "scan_elements (Suc n) ts =
     (if more ts then scan_then (scan_value n ts) (scan_elements n) else close_token ts)"

definition scan_fuel :: "jtoken list \<Rightarrow> nat" where
  "scan_fuel ts = 2 * length ts + 2"

definition has_duplicate_keys :: "body \<Rightarrow> bool" where
  "has_duplicate_keys b \<longleftrightarrow> scan_value (scan_fuel (bd_tokens b)) (bd_tokens b) = ScanDup"

text \<open>The reference: an object with a repeated key, at any depth.\<close>

fun dup_json :: "json \<Rightarrow> bool" where
  "dup_json (JArr vs) = list_ex dup_json vs"
| "dup_json (JObj kvs) = (\<not> distinct (map fst kvs) \<or> list_ex (\<lambda>(k, v). dup_json v) kvs)"
| "dup_json _ = False"

subsection \<open>The fuel is enough\<close>

lemma scan_then_simps [simp]:
  "scan_then (ScanOk ts) k = k ts" "scan_then ScanErr k = ScanErr" "scan_then ScanDup k = ScanDup"
  "scan_then OutOfFuel k = OutOfFuel"
  by (simp_all add: scan_then_def)

lemma close_token_shorter: "close_token ts = ScanOk rs \<Longrightarrow> length rs < length ts"
  by (cases ts) auto

lemma more_Cons: "more ts \<Longrightarrow> \<exists>t us. ts = t # us"
  by (cases ts) auto

lemma scan_then_ScanOk: "scan_then r k = ScanOk rs \<longleftrightarrow> (\<exists>us. r = ScanOk us \<and> k us = ScanOk rs)"
  by (cases r) auto

lemma scan_shorter:
  "scan_value n ts = ScanOk rs \<Longrightarrow> length rs < length ts"
  "scan_members n seen ts = ScanOk rs \<Longrightarrow> length rs < length ts"
  "scan_elements n ts = ScanOk rs \<Longrightarrow> length rs < length ts"
proof (induction n ts and n seen ts and n ts arbitrary: rs and rs and rs rule: scan_value_scan_members_scan_elements.induct)
  case (6 n seen ts)
  show ?case
  proof (cases "more ts")
    case True
    with 6 show ?thesis
      by (auto simp: scan_then_ScanOk split: if_splits dest!: more_Cons) fastforce
  next
    case False
    with 6 show ?thesis by (simp add: close_token_shorter)
  qed
next
  case (8 n ts)
  then show ?case
    by (cases "more ts") (fastforce simp: scan_then_ScanOk close_token_shorter)+
qed (force split: if_splits)+

lemma scan_fuel_enough:
  "2 * length ts < n \<Longrightarrow> scan_value n ts \<noteq> OutOfFuel"
  "2 * length ts + 1 < n \<Longrightarrow> scan_members n seen ts \<noteq> OutOfFuel"
  "2 * length ts + 1 < n \<Longrightarrow> scan_elements n ts \<noteq> OutOfFuel"
proof (induction n ts and n seen ts and n ts rule: scan_value_scan_members_scan_elements.induct)
  case (6 n seen ts)
  show ?case
  proof (cases "more ts \<and> key_name (hd ts) \<notin> seen")
    case True
    then obtain t us where ts: "ts = t # us" using more_Cons by blast
    with 6 True have "scan_value n us \<noteq> OutOfFuel" by simp
    moreover have "scan_members n (insert (key_name t) seen) rs \<noteq> OutOfFuel" if "scan_value n us = ScanOk rs" for rs
      using 6 True ts scan_shorter(1) [OF that] by simp
    ultimately show ?thesis using True ts by (cases "scan_value n us") auto
  qed (cases ts; auto)
next
  case (8 n ts)
  show ?case
  proof (cases "more ts")
    case True
    with 8 have "scan_value n ts \<noteq> OutOfFuel" by simp
    moreover have "scan_elements n rs \<noteq> OutOfFuel" if "scan_value n ts = ScanOk rs" for rs
      using 8 True scan_shorter(1) [OF that] by simp
    ultimately show ?thesis using True by (cases "scan_value n ts") auto
  qed (cases ts; auto)
qed auto

subsection \<open>The scan of a document\<close>

lemma more_tokens [simp]: "more (tokens_of v @ ts)"
  by (cases v) auto

lemma scan_elements_of:
  assumes "\<And>v n rest. v \<in> set vs \<Longrightarrow> 2 * length (tokens_of v @ rest) < n \<Longrightarrow>
      scan_value n (tokens_of v @ rest) = (if dup_json v then ScanDup else ScanOk rest)"
    and "2 * length (concat (map tokens_of vs) @ Delim CHR '']'' # rest) + 1 < n"
  shows "scan_elements n (concat (map tokens_of vs) @ Delim CHR '']'' # rest) =
     (if list_ex dup_json vs then ScanDup else ScanOk rest)"
  using assms
proof (induction vs arbitrary: n)
  case Nil
  then show ?case by (cases n) auto
next
  case (Cons v vs)
  then obtain m where m: "n = Suc m" by (cases n) auto
  let ?r = "concat (map tokens_of vs) @ Delim CHR '']'' # rest"
  have "scan_value m (tokens_of v @ ?r) = (if dup_json v then ScanDup else ScanOk ?r)"
    by (rule Cons.prems(1)) (use Cons.prems(2) m in auto)
  moreover have "scan_elements m ?r = (if list_ex dup_json vs then ScanDup else ScanOk rest)"
  proof (rule Cons.IH)
    show "scan_value n (tokens_of u @ rest) = (if dup_json u then ScanDup else ScanOk rest)"
      if "u \<in> set vs" "2 * length (tokens_of u @ rest) < n" for u n rest
      by (rule Cons.prems(1)) (use that in auto)
    obtain t ts where "tokens_of v = t # ts" by (cases v) auto
    with Cons.prems(2) m show "2 * length ?r + 1 < m" by simp
  qed
  ultimately show ?case by (simp add: m)
qed

lemma scan_members_of:
  assumes "\<And>k v n rest. (k, v) \<in> set kvs \<Longrightarrow> 2 * length (tokens_of v @ rest) < n \<Longrightarrow>
      scan_value n (tokens_of v @ rest) = (if dup_json v then ScanDup else ScanOk rest)"
    and "2 * length (concat (map (\<lambda>(k, v). StrTok k # tokens_of v) kvs) @ Delim CHR ''}'' # rest) + 1 < n"
  shows "scan_members n seen (concat (map (\<lambda>(k, v). StrTok k # tokens_of v) kvs) @ Delim CHR ''}'' # rest) =
     (if seen \<inter> set (map fst kvs) \<noteq> {} \<or> dup_json (JObj kvs) then ScanDup else ScanOk rest)"
  using assms
proof (induction kvs arbitrary: n seen)
  case Nil
  then show ?case by (cases n) auto
next
  case (Cons kv kvs)
  obtain k v where kv: "kv = (k, v)" by (cases kv)
  from Cons.prems(2) obtain m where m: "n = Suc m" by (cases n) auto
  let ?r = "concat (map (\<lambda>(k, v). StrTok k # tokens_of v) kvs) @ Delim CHR ''}'' # rest"
  have "scan_value m (tokens_of v @ ?r) = (if dup_json v then ScanDup else ScanOk ?r)"
    by (rule Cons.prems(1) [of k]) (use Cons.prems(2) m kv in auto)
  moreover have "scan_members m (insert k seen) ?r =
      (if insert k seen \<inter> set (map fst kvs) \<noteq> {} \<or> dup_json (JObj kvs) then ScanDup else ScanOk rest)"
  proof (rule Cons.IH)
    show "scan_value n (tokens_of u @ rest) = (if dup_json u then ScanDup else ScanOk rest)"
      if "(j, u) \<in> set kvs" "2 * length (tokens_of u @ rest) < n" for j u n rest
      by (rule Cons.prems(1) [of j]) (use that in auto)
    show "2 * length ?r + 1 < m" using Cons.prems(2) m kv by simp
  qed
  ultimately show ?case by (auto simp: m kv)
qed

lemma scan_document:
  "2 * length (tokens_of v @ rest) < n \<Longrightarrow>
   scan_value n (tokens_of v @ rest) = (if dup_json v then ScanDup else ScanOk rest)"
proof (induction v arbitrary: n rest)
  case (JArr vs)
  then obtain m where m: "n = Suc m" by (cases n) auto
  have "scan_elements m (concat (map tokens_of vs) @ Delim CHR '']'' # rest) =
      (if list_ex dup_json vs then ScanDup else ScanOk rest)"
    by (rule scan_elements_of) (use JArr m in auto)
  then show ?case by (simp add: m)
next
  case (JObj kvs)
  then obtain m where m: "n = Suc m" by (cases n) auto
  have IH: "scan_value n (tokens_of v @ rest) = (if dup_json v then ScanDup else ScanOk rest)"
    if "(k, v) \<in> set kvs" "2 * length (tokens_of v @ rest) < n" for k v n rest
    by (rule JObj.IH [OF that(1)]) (use that(2) in auto)
  have "scan_members m {} (concat (map (\<lambda>(k, v). StrTok k # tokens_of v) kvs) @ Delim CHR ''}'' # rest) =
      (if {} \<inter> set (map fst kvs) \<noteq> {} \<or> dup_json (JObj kvs) then ScanDup else ScanOk rest)"
    by (rule scan_members_of [OF IH]) (use JObj.prems m in auto)
  then show ?case by (auto simp: m)
next
  case (JNull) then show ?case by (cases n) auto
next
  case (JBool b) then show ?case by (cases n) auto
next
  case (JNum b) then show ?case by (cases n) auto
next
  case (JStr b) then show ?case by (cases n) auto
qed

section \<open>Properties\<close>

text \<open>
  C39: the scan for duplicate keys ends and is exact. On any token stream, however broken, it returns
  within the fuel; and on the tokens of a well-formed document it reports a duplicate exactly when some
  object of the document, at any depth, has the same key twice.
\<close>

theorem duplicate_scan_exact:
  assumes "body_law b" and "bd_doc b = Some v"
  shows "scan_value (scan_fuel ts) ts \<noteq> OutOfFuel \<and> has_duplicate_keys b = dup_json v"
proof
  show "scan_value (scan_fuel ts) ts \<noteq> OutOfFuel"
    by (rule scan_fuel_enough) (simp add: scan_fuel_def)
  show "has_duplicate_keys b = dup_json v"
    using assms scan_document [of v "[]" "scan_fuel (tokens_of v)"]
    by (simp add: body_law_def has_duplicate_keys_def scan_fuel_def)
qed

definition json_body :: "json \<Rightarrow> body" where
  "json_body v = \<lparr>bd_bytes = [], bd_tokens = tokens_of v, bd_doc = Some v\<rparr>"

lemma json_body_law: "body_law (json_body v)" "bd_doc (json_body v) = Some v"
  by (simp_all add: body_law_def json_body_def)

theorem duplicate_scan_exact_witness:
  "has_duplicate_keys (json_body (JArr [JObj [(''a'', JNull), (''b'', JObj [(''c'', JNull), (''c'', JNull)])]])) \<and>
   \<not> has_duplicate_keys (json_body (JObj [(''a'', JNull), (''A'', JNull)]))"
  using duplicate_scan_exact [OF json_body_law, of "[]" "JArr [JObj [(''a'', JNull), (''b'', JObj [(''c'', JNull), (''c'', JNull)])]]"]
    duplicate_scan_exact [OF json_body_law, of "[]" "JObj [(''a'', JNull), (''A'', JNull)]"]
  by simp

end
