(* ===== verification/Gateway.thy ===== *)
theory Gateway
  imports Tokens Store Json "HOL-Library.AList"
begin

text \<open>
  The MCP gateway (\<open>internal/mcpgw\<close>): its registry of upstreams and their refresh, the two ways it checks
  revocation, and the handler, which verifies the inbound token, authorizes the tool, mints a narrower token
  for the upstream and forwards the call.

  The upstream server is a function from the request the gateway sends to the response, if one comes; the
  keystore's current keys are fields of the gateway; the streaming of a response is left out, its bytes are
  not. One reading of the clock serves a call.
\<close>

section \<open>Upstreams\<close>

record upstream =
  up_slug :: string
  up_inbound_audience :: string
  up_url :: string
  up_resource_id :: string
  up_tool_scopes :: "string \<rightharpoonup> string"

text \<open>The in-memory set of revoked tokens of the feed mode.\<close>

record revoked_cache =
  cache_set :: "string set"
  cache_loaded :: bool

text \<open>\<open>upstreams\<close> is a Go map, kept as an association list.\<close>

record ('k, 'p) gateway =
  gw_issuer :: string
  gw_kid :: string
  gw_key :: 'k
  gw_verifier_keys :: "string \<rightharpoonup> 'p"
  gw_upstreams :: "(string \<times> upstream) list"
  gw_static :: "upstream list"
  gw_downstream_ttl :: duration
  gw_max_body :: nat
  gw_rev_refresh :: duration
  gw_revoked :: "revoked_cache option"

datatype gateway_error =
    NoInboundAudience string
  | DuplicateInboundAudience string
  | RegistryFailed

fun index_upstreams ::
    "upstream list \<Rightarrow> string set \<Rightarrow> (string \<times> upstream) list \<Rightarrow> gateway_error + (string \<times> upstream) list" where
  "index_upstreams [] seen m = Inr m"
| "index_upstreams (u # us) seen m =
     (if up_inbound_audience u = [] then Inl (NoInboundAudience (up_slug u))
      else if up_inbound_audience u \<in> seen then Inl (DuplicateInboundAudience (up_inbound_audience u))
      else index_upstreams us (insert (up_inbound_audience u) seen) (AList.update (up_slug u) u m))"

definition build_upstream_map :: "upstream list \<Rightarrow> gateway_error + (string \<times> upstream) list" where
  "build_upstream_map us = index_upstreams us {} []"

datatype gateway_option = DownstreamTTL duration | RevocationRefresh duration

fun apply_option :: "gateway_option \<Rightarrow> ('k, 'p) gateway \<Rightarrow> ('k, 'p) gateway" where
  "apply_option (DownstreamTTL d) g = (if d > 0 then g\<lparr>gw_downstream_ttl := d\<rparr> else g)"
| "apply_option (RevocationRefresh d) g = g\<lparr>gw_rev_refresh := d\<rparr>"

definition new_gateway ::
    "string \<Rightarrow> string \<Rightarrow> 'k \<Rightarrow> (string \<rightharpoonup> 'p) \<Rightarrow> upstream list \<Rightarrow> gateway_option list \<Rightarrow> gateway_error + ('k, 'p) gateway" where
  "new_gateway iss kid key keys ups opts =
     and_then (build_upstream_map ups) (\<lambda>m.
       let g = fold apply_option opts
             \<lparr>gw_issuer = iss, gw_kid = kid, gw_key = key, gw_verifier_keys = keys, gw_upstreams = m,
              gw_static = ups, gw_downstream_ttl = 60 * nanos, gw_max_body = 1048576, gw_rev_refresh = 0,
              gw_revoked = None\<rparr>
       in Inr (if gw_rev_refresh g > 0 then g\<lparr>gw_revoked := Some \<lparr>cache_set = {}, cache_loaded = False\<rparr>\<rparr> else g))"

definition find_upstream :: "('k, 'p) gateway \<Rightarrow> string \<Rightarrow> upstream option" where
  "find_upstream g slug = map_of (gw_upstreams g) slug"

text \<open>The loop of \<open>RefreshUpstreams\<close> over the rows of the registry.\<close>

fun merge_upstreams ::
    "upstream list \<Rightarrow> string set \<Rightarrow> (string \<times> upstream) list \<Rightarrow> (string \<times> upstream) list" where
  "merge_upstreams [] seen m = m"
| "merge_upstreams (u # us) seen m =
     (if up_inbound_audience u = [] then merge_upstreams us seen m
      else if map_of m (up_slug u) \<noteq> None \<or> up_inbound_audience u \<in> seen then merge_upstreams us seen m
      else merge_upstreams us (insert (up_inbound_audience u) seen) (AList.update (up_slug u) u m))"

text \<open>\<open>RefreshUpstreams\<close>; the registry's answer is \<^const>\<open>None\<close> when its query fails.\<close>

definition refresh_upstreams ::
    "upstream list option \<Rightarrow> ('k, 'p) gateway \<Rightarrow> gateway_error + ('k, 'p) gateway" where
  "refresh_upstreams rows g =
     (case rows of
        None \<Rightarrow> Inl RegistryFailed
      | Some ups \<Rightarrow>
          and_then (build_upstream_map (gw_static g)) (\<lambda>m.
            Inr (g\<lparr>gw_upstreams := merge_upstreams ups (set (map (\<lambda>(_, u). up_inbound_audience u) m)) m\<rparr>)))"

text \<open>\<open>StartUpstreamRefresh\<close>: the first refresh must succeed, later failures keep the old set.\<close>

fun upstream_ticks :: "upstream list option list \<Rightarrow> ('k, 'p) gateway \<Rightarrow> ('k, 'p) gateway" where
  "upstream_ticks [] g = g"
| "upstream_ticks (r # rs) g =
     upstream_ticks rs (case refresh_upstreams r g of Inl _ \<Rightarrow> g | Inr g' \<Rightarrow> g')"

definition start_upstream_refresh ::
    "upstream list option list option \<Rightarrow> ('k, 'p) gateway \<Rightarrow> gateway_error + ('k, 'p) gateway" where
  "start_upstream_refresh store g =
     (case store of
        None \<Rightarrow> Inr g
      | Some [] \<Rightarrow> Inr g
      | Some (r # rs) \<Rightarrow> and_then (refresh_upstreams r g) (\<lambda>g'. Inr (upstream_ticks rs g')))"

subsection \<open>The registry and its API\<close>

definition list_upstreams :: "upstream list \<Rightarrow> upstream list" where
  "list_upstreams rows = sort_key up_slug rows"

text \<open>\<open>Upsert\<close>: \<^const>\<open>None\<close> when the audience belongs to another slug.\<close>

definition upsert_upstream :: "upstream \<Rightarrow> upstream list \<Rightarrow> upstream list option" where
  "upsert_upstream u rows =
     (if list_ex (\<lambda>r. up_inbound_audience r = up_inbound_audience u \<and> up_slug r \<noteq> up_slug u) rows then None
      else if up_slug u \<in> up_slug ` set rows then Some (map (\<lambda>r. if up_slug r = up_slug u then u else r) rows)
      else Some (rows @ [u]))"

definition delete_upstream :: "string \<Rightarrow> upstream list \<Rightarrow> bool \<times> upstream list" where
  "delete_upstream slug rows = (list_ex (\<lambda>r. up_slug r = slug) rows, filter (\<lambda>r. up_slug r \<noteq> slug) rows)"

datatype upstream_api = ListUpstreams | PutUpstream "upstream option" | DeleteUpstream string

text \<open>
  The handlers of the API: the status, the upstreams of the answer's body and the registry afterwards.
  \<open>up\<close> says whether the queries reach the database.
\<close>

fun handle_upstreams :: "bool \<Rightarrow> upstream_api \<Rightarrow> upstream list \<Rightarrow> int \<times> upstream list \<times> upstream list" where
  "handle_upstreams up ListUpstreams rows = (if up then (200, list_upstreams rows, rows) else (500, [], rows))"
| "handle_upstreams up (PutUpstream None) rows = (400, [], rows)"
| "handle_upstreams up (PutUpstream (Some u)) rows =
     (if up_slug u = [] \<or> up_inbound_audience u = [] \<or> up_url u = [] \<or> up_resource_id u = [] then (400, [], rows)
      else if \<not> up then (409, [], rows)
      else (case upsert_upstream u rows of None \<Rightarrow> (409, [], rows) | Some rows' \<Rightarrow> (200, [u], rows')))"
| "handle_upstreams up (DeleteUpstream slug) rows =
     (if \<not> up then (500, [], rows)
      else case delete_upstream slug rows of (removed, rows') \<Rightarrow> if \<not> removed then (404, [], rows') else (204, [], rows'))"

section \<open>Revocation checks\<close>

datatype active_error = CacheNotLoaded | ActiveQuery query_error

definition token_active ::
    "('k, 'p) gateway \<Rightarrow> bool \<Rightarrow> instant \<Rightarrow> db \<Rightarrow> string \<Rightarrow> active_error + bool" where
  "token_active g up now s jti =
     (case gw_revoked g of
        Some cache \<Rightarrow> if \<not> cache_loaded cache then Inl CacheNotLoaded else Inr (jti \<notin> cache_set cache)
      | None \<Rightarrow> (case is_active up now s jti of Inl e \<Rightarrow> Inl (ActiveQuery e) | Inr a \<Rightarrow> Inr a))"

definition revoked_now :: "instant \<Rightarrow> db \<Rightarrow> string list" where
  "revoked_now now s = map tr_jti (filter (\<lambda>r. tr_revoked_at r \<noteq> None \<and> tr_expires_at r > now) (db_tokens s))"

text \<open>\<open>refreshRevoked\<close>; \<^const>\<open>None\<close> when the query fails.\<close>

definition refresh_revoked :: "instant \<Rightarrow> db option \<Rightarrow> ('k, 'p) gateway \<Rightarrow> ('k, 'p) gateway option" where
  "refresh_revoked now q g =
     (case q of
        None \<Rightarrow> None
      | Some s \<Rightarrow> Some (g\<lparr>gw_revoked := Some \<lparr>cache_set = set (revoked_now now s), cache_loaded = True\<rparr>\<rparr>))"

text \<open>\<open>StartRevocationRefresh\<close>: \<^const>\<open>None\<close> when the first load fails; a later failure is counted.\<close>

fun revocation_ticks ::
    "(instant \<times> db option) list \<Rightarrow> ('k, 'p) gateway \<Rightarrow> side_effect list \<times> ('k, 'p) gateway" where
  "revocation_ticks [] g = ([], g)"
| "revocation_ticks ((now, q) # qs) g =
     (case refresh_revoked now q g of
        None \<Rightarrow> (case revocation_ticks qs g of (es, g') \<Rightarrow> (Metric ''revocation_check_errors'' ''gateway'' 1 # es, g'))
      | Some g' \<Rightarrow> revocation_ticks qs g')"

definition start_revocation_refresh ::
    "(instant \<times> db option) list \<Rightarrow> ('k, 'p) gateway \<Rightarrow> (side_effect list \<times> ('k, 'p) gateway) option" where
  "start_revocation_refresh qs g =
     (case gw_revoked g of
        None \<Rightarrow> Some ([], g)
      | Some _ \<Rightarrow>
          (case qs of
             [] \<Rightarrow> Some ([], g)
           | (now, q) # rest \<Rightarrow> map_option (revocation_ticks rest) (refresh_revoked now q g)))"

section \<open>The call\<close>

record gateway_request =
  gq_slug :: string
  gq_tls :: bool
  gq_host :: string
  gq_authorization :: string
  gq_accept :: string
  gq_session :: string
  gq_body :: "body option"
    \<comment> \<open>\<^const>\<open>None\<close> when it is larger than the limit or cannot be read\<close>

record upstream_request =
  ur_url :: string
  ur_token :: string
  ur_body :: body
  ur_accept :: string
  ur_session :: string

record upstream_response =
  rs_status :: int
  rs_headers :: "(string \<times> string) list"
  rs_body :: body

record gateway_env =
  ge_now :: instant
  ge_tzdb :: tzdb
  ge_rnd :: "string option"
  ge_store_up :: bool
  ge_audit_up :: bool
  ge_upstream :: "upstream_request \<Rightarrow> upstream_response option"

datatype reply_body = Verbatim string | Rewritten json

datatype gateway_reply =
    NoSuchUpstream
  | Unauthorized string string string
  | Refused int string
  | Proxied int "(string \<times> string) list" reply_body

record call_outcome =
  gc_reply :: gateway_reply
  gc_decision :: string
  gc_tool :: string
  gc_reason :: string
  gc_sent :: "upstream_request option"
  gc_db :: db

definition gateway_bearer :: "string \<Rightarrow> string" where
  "gateway_bearer a = (if length a > 7 \<and> take 7 a = ''Bearer '' then drop 7 a else [])"

definition metadata_url :: "bool \<Rightarrow> string \<Rightarrow> string \<Rightarrow> string" where
  "metadata_url tls host slug =
     (if tls then ''https'' else ''http'') @ ''://'' @ host @ ''/mcp/'' @ slug @ ''/.well-known/oauth-protected-resource''"

text \<open>The fields \<open>method\<close> and \<open>params.name\<close> of the JSON-RPC request.\<close>

fun decode_rpc_fields :: "string \<times> string \<Rightarrow> (string \<times> json) list \<Rightarrow> (string \<times> string) option" where
  "decode_rpc_fields acc [] = Some acc"
| "decode_rpc_fields (m, n) ((k, v) # kvs) =
     (if fold_name k = ''method''
      then (case assign_string m v of None \<Rightarrow> None | Some m' \<Rightarrow> decode_rpc_fields (m', n) kvs)
      else if fold_name k = ''params''
      then (case decode_name_struct n v of None \<Rightarrow> None | Some n' \<Rightarrow> decode_rpc_fields (m, n') kvs)
      else decode_rpc_fields (m, n) kvs)"

fun decode_rpc :: "json \<Rightarrow> (string \<times> string) option" where
  "decode_rpc (JObj kvs) = decode_rpc_fields ([], []) kvs"
| "decode_rpc JNull = Some ([], [])"
| "decode_rpc _ = None"

definition is_passthrough :: "string \<Rightarrow> bool" where
  "is_passthrough mthd \<longleftrightarrow>
     has_prefix ''notifications/'' mthd \<or>
     mthd \<in> {''initialize'', ''ping'', ''prompts/list'', ''resources/list'', ''resources/templates/list'', ''logging/setLevel''}"

definition downstream_constraints :: "constraints option \<Rightarrow> string \<Rightarrow> constraints option" where
  "downstream_constraints c tool = map_option (\<lambda>k. k\<lparr>cn_tools := [tool], cn_resources := []\<rparr>) c"

definition discovery_constraints :: "constraints option \<Rightarrow> constraints option" where
  "discovery_constraints c = map_option (\<lambda>k. k\<lparr>cn_resources := []\<rparr>) c"

definition downstream_expiry :: "('k, 'p) gateway \<Rightarrow> instant \<Rightarrow> claims \<Rightarrow> instant" where
  "downstream_expiry g now c =
     (let own = now + gw_downstream_ttl g
      in case rc_exp c of None \<Rightarrow> own | Some e \<Rightarrow> if own > e then e else own)"

definition gateway_signer :: "('k, 'p) gateway \<Rightarrow> 'k signer" where
  "gateway_signer g = \<lparr>sg_issuer = gw_issuer g, sg_kid = gw_kid g, sg_key = gw_key g\<rparr>"

definition gateway_verifier :: "('k, 'p) gateway \<Rightarrow> 'p verifier" where
  "gateway_verifier g = \<lparr>vf_issuer = gw_issuer g, vf_keys = gw_verifier_keys g\<rparr>"

text \<open>\<open>mint\<close>, which \<open>handle\<close> repeats for a tool call.\<close>

definition gateway_mint ::
    "('k, 'p) delegation_jwt \<Rightarrow> ('k, 'p) gateway \<Rightarrow> gateway_env \<Rightarrow> claims \<Rightarrow> string list \<Rightarrow> string \<Rightarrow> constraints option
       \<Rightarrow> issue_error + string" where
  "gateway_mint lib g env c scopes aud cn =
     issue_claims lib (gateway_signer g) (ge_rnd env) (rc_sub c) (cl_act c) scopes aud cn
       (downstream_expiry g (ge_now env) c) (ge_now env)"

definition forward_request ::
    "gateway_request \<Rightarrow> upstream \<Rightarrow> string \<Rightarrow> body \<Rightarrow> string \<Rightarrow> upstream_request" where
  "forward_request req up downstream b accept_override =
     \<lparr>ur_url = up_url up, ur_token = downstream, ur_body = b,
      ur_accept = (if accept_override \<noteq> [] then accept_override
                   else if gq_accept req \<noteq> [] then gq_accept req
                   else ''application/json, text/event-stream''),
      ur_session = gq_session req\<rparr>"

definition hop_by_hop :: "string set" where
  "hop_by_hop = {''connection'', ''proxy-connection'', ''keep-alive'', ''transfer-encoding'', ''te'', ''trailer'',
     ''upgrade'', ''content-length''}"

text \<open>Header names are ASCII.\<close>

definition copy_response_headers :: "(string \<times> string) list \<Rightarrow> (string \<times> string) list" where
  "copy_response_headers hs = filter (\<lambda>(k, _). ascii_lower k \<notin> hop_by_hop) hs"

definition token_org :: "db \<Rightarrow> string \<Rightarrow> string option" where
  "token_org s jti =
     (case find (\<lambda>t. tr_jti t = jti) (db_tokens s) of
        None \<Rightarrow> None
      | Some t \<Rightarrow> (case tr_delegation t of
            None \<Rightarrow> None
          | Some d \<Rightarrow> (case find (\<lambda>r. dr_id r = d) (db_delegations s) of None \<Rightarrow> None | Some r \<Rightarrow> dr_org r)))"

definition gateway_audit :: "gateway_env \<Rightarrow> claims \<Rightarrow> string \<Rightarrow> string \<Rightarrow> int \<Rightarrow> db \<Rightarrow> db" where
  "gateway_audit env c slug tool status s =
     (if \<not> ge_audit_up env then s
      else s\<lparr>db_audit := db_audit s @
        [\<lparr>ae_actor_type = ''agent'', ae_actor = [], ae_action = ''mcp.tool.call'', ae_resource = slug @ ''/'' @ tool,
          ae_subject = rc_sub c, ae_actor_chain = actor_chain c, ae_delegation = None, ae_jti = rc_jti c,
          ae_org = token_org s (rc_jti c),
          ae_metadata = ''{\"upstream_status\":'' @ int_str status @ ''}''\<rparr>]\<rparr>)"

definition tool_action :: "string \<Rightarrow> string \<Rightarrow> action" where
  "tool_action scope tool = \<lparr>ac_scope = scope, ac_amount = Fin 0, ac_category = [], ac_tool = tool,
     ac_resource = [], ac_at = zero_time\<rparr>"

definition refuse :: "int \<Rightarrow> string \<Rightarrow> string \<Rightarrow> string \<Rightarrow> string \<Rightarrow> db \<Rightarrow> call_outcome" where
  "refuse status msg decision tool reason s =
     \<lparr>gc_reply = Refused status msg, gc_decision = decision, gc_tool = tool, gc_reason = reason, gc_sent = None, gc_db = s\<rparr>"

subsection \<open>Filtering the list of tools\<close>

definition tool_listed :: "tzdb \<Rightarrow> instant \<Rightarrow> upstream \<Rightarrow> claims \<Rightarrow> json \<Rightarrow> bool" where
  "tool_listed tzdb now up c t =
     (case decode_name_struct [] t of
        None \<Rightarrow> False
      | Some name \<Rightarrow> (case up_tool_scopes up name of
            None \<Rightarrow> False
          | Some scope \<Rightarrow> authorize tzdb now c (tool_action scope name) = None))"

definition filter_tools_list :: "tzdb \<Rightarrow> instant \<Rightarrow> body \<Rightarrow> upstream \<Rightarrow> claims \<Rightarrow> reply_body option" where
  "filter_tools_list tzdb now b up c =
     (case bd_doc b of None \<Rightarrow> None
      | Some v \<Rightarrow> (case decode_map v of None \<Rightarrow> None
      | Some env \<Rightarrow> (case map_of env ''result'' of None \<Rightarrow> Some (Verbatim (bd_bytes b))
      | Some rv \<Rightarrow> (case decode_map rv of None \<Rightarrow> None
      | Some result \<Rightarrow> (case map_of result ''tools'' of None \<Rightarrow> Some (Verbatim (bd_bytes b))
      | Some tv \<Rightarrow> (case decode_list tv of None \<Rightarrow> None
      | Some tools \<Rightarrow>
          Some (Rewritten (JObj (set_member ''result''
            (JObj (set_member ''tools'' (JArr (filter (tool_listed tzdb now up c) tools)) result)) env)))))))))"

subsection \<open>The handler\<close>

definition gateway_tool_call ::
    "('k, 'p) delegation_jwt \<Rightarrow> ('k, 'p) gateway \<Rightarrow> gateway_env \<Rightarrow> gateway_request \<Rightarrow> upstream \<Rightarrow> claims \<Rightarrow> body \<Rightarrow> string
       \<Rightarrow> db \<Rightarrow> call_outcome" where
  "gateway_tool_call lib g env req up c b name s =
     (case up_tool_scopes up name of
        None \<Rightarrow> refuse 403 ''unknown or disallowed tool'' ''deny'' name ''tool not delegated'' s
      | Some scope \<Rightarrow>
          if authorize (ge_tzdb env) (ge_now env) c (tool_action scope name) \<noteq> None
          then refuse 403 ''forbidden'' ''deny'' name ''forbidden (scope/constraint)'' s
          else case gateway_mint lib g env c [scope] (up_resource_id up)
                      (downstream_constraints (cl_constraints c) name) of
                 Inl _ \<Rightarrow> refuse 500 ''could not mint downstream token'' ''error'' name [] s
               | Inr downstream \<Rightarrow>
                   let s1 = emit [Metric ''tokens_minted'' ''gateway'' 1] s;
                       ur = forward_request req up downstream b []
                   in (case ge_upstream env ur of
                         None \<Rightarrow> (refuse 502 ''upstream unreachable'' ''error'' name [] s1)\<lparr>gc_sent := Some ur\<rparr>
                       | Some rs \<Rightarrow>
                           \<lparr>gc_reply = Proxied (rs_status rs) (copy_response_headers (rs_headers rs))
                              (Verbatim (bd_bytes (rs_body rs))),
                            gc_decision = ''allow'', gc_tool = name, gc_reason = [], gc_sent = Some ur,
                            gc_db = gateway_audit env c (up_slug up) name (rs_status rs) s1\<rparr>))"

definition gateway_relay ::
    "gateway_env \<Rightarrow> ('k, 'p) gateway \<Rightarrow> upstream \<Rightarrow> claims \<Rightarrow> string \<Rightarrow> upstream_request \<Rightarrow> upstream_response \<Rightarrow> db \<Rightarrow> call_outcome" where
  "gateway_relay env g up c mthd ur rs s =
     (if mthd = ''tools/list''
      then if length (bd_bytes (rs_body rs)) > gw_max_body g
           then (refuse 502 ''upstream tools/list response too large'' ''error'' [] [] s)\<lparr>gc_sent := Some ur\<rparr>
           else (case filter_tools_list (ge_tzdb env) (ge_now env) (rs_body rs) up c of
                   None \<Rightarrow> (refuse 502 ''upstream returned an unfilterable tools/list'' ''error'' [] [] s)\<lparr>gc_sent := Some ur\<rparr>
                 | Some out \<Rightarrow>
                     \<lparr>gc_reply = Proxied (rs_status rs) (copy_response_headers (rs_headers rs)) out,
                      gc_decision = ''allow'', gc_tool = [], gc_reason = [], gc_sent = Some ur,
                      gc_db = gateway_audit env c (up_slug up) ''tools/list'' (rs_status rs) s\<rparr>)
      else \<lparr>gc_reply = Proxied (rs_status rs) (copy_response_headers (rs_headers rs)) (Verbatim (bd_bytes (rs_body rs))),
            gc_decision = ''allow'', gc_tool = [], gc_reason = [], gc_sent = Some ur,
            gc_db = gateway_audit env c (up_slug up) (''mcp:'' @ mthd) (rs_status rs) s\<rparr>)"

definition gateway_non_tool_call ::
    "('k, 'p) delegation_jwt \<Rightarrow> ('k, 'p) gateway \<Rightarrow> gateway_env \<Rightarrow> gateway_request \<Rightarrow> upstream \<Rightarrow> claims \<Rightarrow> body \<Rightarrow> string
       \<Rightarrow> db \<Rightarrow> call_outcome" where
  "gateway_non_tool_call lib g env req up c b mthd s =
     (if mthd \<noteq> ''tools/list'' \<and> \<not> is_passthrough mthd
      then refuse 403 ''method not permitted through the gateway'' ''deny'' [] [] s
      else case gateway_mint lib g env c (go_fields (cl_scope c)) (up_resource_id up)
                  (discovery_constraints (cl_constraints c)) of
             Inl _ \<Rightarrow> refuse 500 ''could not mint downstream token'' ''error'' [] [] s
           | Inr downstream \<Rightarrow>
               let s1 = emit [Metric ''tokens_minted'' ''gateway'' 1] s;
                   ur = forward_request req up downstream b (if mthd = ''tools/list'' then ''application/json'' else [])
               in (case ge_upstream env ur of
                     None \<Rightarrow> (refuse 502 ''upstream unreachable'' ''error'' [] [] s1)\<lparr>gc_sent := Some ur\<rparr>
                   | Some rs \<Rightarrow> gateway_relay env g up c mthd ur rs s1))"

text \<open>From the buffered body on, for a token that is verified and active.\<close>

definition gateway_dispatch ::
    "('k, 'p) delegation_jwt \<Rightarrow> ('k, 'p) gateway \<Rightarrow> gateway_env \<Rightarrow> gateway_request \<Rightarrow> upstream \<Rightarrow> claims \<Rightarrow> db \<Rightarrow> call_outcome" where
  "gateway_dispatch lib g env req up c s =
     (case gq_body req of
        None \<Rightarrow> refuse 413 ''request body too large or unreadable'' ''error'' [] [] s
      | Some b \<Rightarrow>
          if has_duplicate_keys b
          then refuse 400 ''duplicate JSON keys are not permitted'' ''deny'' [] ''duplicate JSON keys'' s
          else case (case bd_doc b of None \<Rightarrow> None | Some v \<Rightarrow> decode_rpc v) of
                 None \<Rightarrow> refuse 400 ''invalid JSON-RPC (a single tools/call object is required)'' ''error'' [] [] s
               | Some (mthd, name) \<Rightarrow>
                   if mthd \<noteq> ''tools/call'' then gateway_non_tool_call lib g env req up c b mthd s
                   else gateway_tool_call lib g env req up c b name s)"

text \<open>The deferred metric and live event of a call.\<close>

definition finish_call :: "upstream \<Rightarrow> string \<Rightarrow> string \<Rightarrow> call_outcome \<Rightarrow> gateway_reply \<times> upstream_request option \<times> db" where
  "finish_call up actor prov oc =
     (gc_reply oc, gc_sent oc,
      emit (Metric ''gateway_calls'' (up_slug up @ '','' @ gc_decision oc) 1 #
            (if prov = [] \<or> gc_decision oc = ''error'' \<or> gc_tool oc = [] \<and> gc_decision oc = ''allow'' then []
             else [Publish (no_event\<lparr>le_type := ''decision'',
                     le_decision := (if gc_decision oc = ''allow'' then ''ALLOW'' else ''DENY''),
                     le_tool := gc_tool oc, le_upstream := up_slug up, le_actor := actor, le_provenance := prov,
                     le_reason := gc_reason oc\<rparr>)])) (gc_db oc))"

definition leaf_actor :: "claims \<Rightarrow> string" where
  "leaf_actor c = (case actor_chain c of [] \<Rightarrow> [] | a # _ \<Rightarrow> a)"

definition unauthorized :: "string \<Rightarrow> string \<Rightarrow> string \<Rightarrow> string \<Rightarrow> db \<Rightarrow> call_outcome" where
  "unauthorized url code desc reason s =
     \<lparr>gc_reply = Unauthorized url code desc, gc_decision = ''unauthorized'', gc_tool = [], gc_reason = reason,
      gc_sent = None, gc_db = s\<rparr>"

definition gateway_handle ::
    "('k, 'p) delegation_jwt \<Rightarrow> ('k, 'p) gateway \<Rightarrow> gateway_env \<Rightarrow> gateway_request \<Rightarrow> db
       \<Rightarrow> gateway_reply \<times> upstream_request option \<times> db" where
  "gateway_handle lib g env req s =
     (case find_upstream g (gq_slug req) of
        None \<Rightarrow> (NoSuchUpstream, None, s)
      | Some up \<Rightarrow>
          let url = metadata_url (gq_tls req) (gq_host req) (up_slug up); token = gateway_bearer (gq_authorization req)
          in if token = [] then finish_call up [] [] (unauthorized url [] [] [] s)
             else case verify lib (gateway_verifier g) (ge_now env) token (up_inbound_audience up) of
                    Inl _ \<Rightarrow> finish_call up [] [] (unauthorized url ''invalid_token'' ''token verification failed'' [] s)
                  | Inr c \<Rightarrow>
                      finish_call up (leaf_actor c) (provenance c)
                        (case token_active g (ge_store_up env) (ge_now env) s (rc_jti c) of
                           Inl _ \<Rightarrow> unauthorized url ''invalid_token'' ''token revoked or unknown'' ''token revoked or unknown''
                                      (emit [Metric ''revocation_check_errors'' ''gateway'' 1] s)
                         | Inr active \<Rightarrow>
                             if \<not> active
                             then unauthorized url ''invalid_token'' ''token revoked or unknown'' ''token revoked or unknown'' s
                             else gateway_dispatch lib g env req up c s))"

section \<open>What is sent upstream\<close>

lemma refuse_fields [simp]:
  "gc_sent (refuse st msg d tool reason s) = None" "gc_db (refuse st msg d tool reason s) = s"
  "gc_decision (refuse st msg d tool reason s) = d"
  by (simp_all add: refuse_def)

lemma unauthorized_fields [simp]:
  "gc_sent (unauthorized url code desc reason s) = None" "gc_db (unauthorized url code desc reason s) = s"
  by (simp_all add: unauthorized_def)

lemma finish_call_eq:
  "finish_call up actor prov oc = (reply, sent, t) \<Longrightarrow> sent = gc_sent oc"
  by (simp add: finish_call_def)

lemma forward_request_fields [simp]:
  "ur_token (forward_request req up tok b acc) = tok" "ur_body (forward_request req up tok b acc) = b"
  "ur_url (forward_request req up tok b acc) = up_url up"
  by (simp_all add: forward_request_def)

lemma relay_sent [simp]: "gc_sent (gateway_relay env g up c mthd ur rs s) = Some ur"
  by (simp add: gateway_relay_def split: option.split)

text \<open>The two ways a call is forwarded.\<close>

definition tool_forward ::
    "('k, 'p) delegation_jwt \<Rightarrow> ('k, 'p) gateway \<Rightarrow> gateway_env \<Rightarrow> upstream \<Rightarrow> claims \<Rightarrow> string \<Rightarrow> string \<Rightarrow> string \<Rightarrow> bool" where
  "tool_forward lib g env up c name scope tok \<longleftrightarrow>
     up_tool_scopes up name = Some scope \<and> authorize (ge_tzdb env) (ge_now env) c (tool_action scope name) = None \<and>
     gateway_mint lib g env c [scope] (up_resource_id up) (downstream_constraints (cl_constraints c) name) = Inr tok"

definition discovery_forward ::
    "('k, 'p) delegation_jwt \<Rightarrow> ('k, 'p) gateway \<Rightarrow> gateway_env \<Rightarrow> upstream \<Rightarrow> claims \<Rightarrow> string \<Rightarrow> string \<Rightarrow> bool" where
  "discovery_forward lib g env up c mthd tok \<longleftrightarrow>
     (mthd = ''tools/list'' \<or> is_passthrough mthd) \<and>
     gateway_mint lib g env c (go_fields (cl_scope c)) (up_resource_id up) (discovery_constraints (cl_constraints c)) = Inr tok"

lemma tool_call_sent:
  assumes "gc_sent (gateway_tool_call lib g env req up c b name s) = Some ur"
  shows "ur_body ur = b \<and> ur_url ur = up_url up \<and> (\<exists>scope. tool_forward lib g env up c name scope (ur_token ur))"
  using assms by (auto simp: gateway_tool_call_def tool_forward_def Let_def split: option.splits if_splits sum.splits)

lemma non_tool_call_sent:
  assumes "gc_sent (gateway_non_tool_call lib g env req up c b mthd s) = Some ur"
  shows "ur_body ur = b \<and> ur_url ur = up_url up \<and> discovery_forward lib g env up c mthd (ur_token ur)"
  using assms
  by (auto simp: gateway_non_tool_call_def discovery_forward_def Let_def split: option.splits if_splits sum.splits)

lemma dispatch_sent:
  assumes "gc_sent (gateway_dispatch lib g env req up c s) = Some ur"
  obtains b v mthd name where "gq_body req = Some b" and "\<not> has_duplicate_keys b" and "bd_doc b = Some v"
    and "decode_rpc v = Some (mthd, name)" and "ur_body ur = b" and "ur_url ur = up_url up"
    and "if mthd = ''tools/call'' then \<exists>scope. tool_forward lib g env up c name scope (ur_token ur)
         else discovery_forward lib g env up c mthd (ur_token ur)"
proof -
  from assms obtain b v mthd name where b: "gq_body req = Some b" "\<not> has_duplicate_keys b" "bd_doc b = Some v"
    "decode_rpc v = Some (mthd, name)"
    and sent: "gc_sent (if mthd \<noteq> ''tools/call'' then gateway_non_tool_call lib g env req up c b mthd s
                        else gateway_tool_call lib g env req up c b name s) = Some ur"
    by (auto simp: gateway_dispatch_def split: option.splits if_splits)
  have "ur_body ur = b \<and> ur_url ur = up_url up \<and>
      (if mthd = ''tools/call'' then \<exists>scope. tool_forward lib g env up c name scope (ur_token ur)
       else discovery_forward lib g env up c mthd (ur_token ur))"
    using sent tool_call_sent [of lib g env req up c b name s ur] non_tool_call_sent [of lib g env req up c b mthd s ur]
    by (cases "mthd = ''tools/call''") simp_all
  with that [OF b] show thesis by blast
qed

lemma handle_sent:
  assumes "gateway_handle lib g env req s = (reply, Some ur, t)"
  obtains up c where "find_upstream g (gq_slug req) = Some up"
    and "verify lib (gateway_verifier g) (ge_now env) (gateway_bearer (gq_authorization req)) (up_inbound_audience up) = Inr c"
    and "token_active g (ge_store_up env) (ge_now env) s (rc_jti c) = Inr True"
    and "gc_sent (gateway_dispatch lib g env req up c s) = Some ur"
proof -
  from assms obtain up where up: "find_upstream g (gq_slug req) = Some up"
    by (auto simp: gateway_handle_def split: option.splits)
  with assms obtain c where c: "verify lib (gateway_verifier g) (ge_now env) (gateway_bearer (gq_authorization req)) (up_inbound_audience up) = Inr c"
    by (auto simp: gateway_handle_def Let_def split: if_splits sum.splits dest!: finish_call_eq)
  with assms up have "token_active g (ge_store_up env) (ge_now env) s (rc_jti c) = Inr True \<and>
      gc_sent (gateway_dispatch lib g env req up c s) = Some ur"
    by (auto simp: gateway_handle_def Let_def split: if_splits sum.splits dest!: finish_call_eq)
  with up c that show thesis by blast
qed

text \<open>The claims of the token it mints.\<close>

definition downstream_claims ::
    "('k, 'p) delegation_jwt \<Rightarrow> ('k, 'p) gateway \<Rightarrow> gateway_env \<Rightarrow> claims \<Rightarrow> string list \<Rightarrow> string \<Rightarrow> constraints option \<Rightarrow> string
       \<Rightarrow> claims" where
  "downstream_claims lib g env c scopes aud cn jti =
     token_claims lib (gateway_signer g) (rc_sub c) (cl_act c) scopes aud cn (downstream_expiry g (ge_now env) c) (ge_now env) jti"

lemma mint_claims:
  assumes "jwt_laws lib" and "\<And>jti. jl_exact lib (downstream_claims lib g env c scopes aud cn jti)"
    and "gateway_mint lib g env c scopes aud cn = Inr tok"
  shows "\<exists>jti. ge_rnd env = Some jti \<and> jl_claims lib tok = Some (downstream_claims lib g env c scopes aud cn jti)"
  using assms(3) jwt_sign [OF assms(1) assms(2)]
  by (auto simp: gateway_mint_def issue_claims_def sign_claims_def downstream_claims_def split: option.splits)

lemma downstream_claims_fields:
  "rc_sub (downstream_claims lib g env c scopes aud cn jti) = rc_sub c"
  "cl_act (downstream_claims lib g env c scopes aud cn jti) = cl_act c"
  "rc_aud (downstream_claims lib g env c scopes aud cn jti) = [aud]"
  "cl_scope (downstream_claims lib g env c scopes aud cn jti) = join '' '' scopes"
  "cl_constraints (downstream_claims lib g env c scopes aud cn jti) = cn"
  "rc_exp (downstream_claims lib g env c scopes aud cn jti) = Some (jl_numeric_date lib (downstream_expiry g (ge_now env) c))"
  by (simp_all add: downstream_claims_def token_claims_def)

lemma downstream_expiry_bound:
  "downstream_expiry g now c \<le> now + gw_downstream_ttl g"
  "rc_exp c = Some e \<Longrightarrow> downstream_expiry g now c \<le> e"
  by (auto simp: downstream_expiry_def Let_def split: option.splits)

text \<open>Dropping the list of resources costs nothing when the action names none and the list is not the sentinel.\<close>

lemma permit_drop_resources:
  assumes "permit tzdb now (k\<lparr>cn_resources := []\<rparr>) a = None" and "ac_resource a = []" and "deny_all \<notin> set (cn_resources k)"
  shows "permit tzdb now k a = None"
  using assms by (simp add: permit_None_iff permit_list_None_iff)

lemma permit_narrow_tool:
  assumes "permit tzdb now (k\<lparr>cn_tools := [tool], cn_resources := []\<rparr>) a = None" and "ac_resource a = []"
    and gate: "permit tzdb' then' k (tool_action scope tool) = None"
  shows "permit tzdb now k a = None"
  using assms by (auto simp: permit_None_iff permit_list_None_iff tool_action_def)

text \<open>An action without its resource, and what a list of resources adds.\<close>

lemma authorize_no_resource:
  "authorize tzdb now c a = None \<Longrightarrow> authorize tzdb now c (a\<lparr>ac_resource := []\<rparr>) = None"
  by (auto simp: authorize_None_iff permit_None_iff permit_list_None_iff)

lemma authorize_resource:
  "authorize tzdb now c (a\<lparr>ac_resource := []\<rparr>) = None \<Longrightarrow> authorize tzdb now c a = None \<or>
     ac_resource a \<noteq> [] \<and> (\<exists>k. cl_constraints c = Some k \<and> cn_resources k \<noteq> [] \<and> ac_resource a \<notin> set (cn_resources k))"
  by (auto simp: authorize_None_iff permit_None_iff permit_list_None_iff)

lemma discovery_authorize:
  assumes "authorize tzdb now d a = None" and "ac_resource a = []"
    and "cl_constraints d = discovery_constraints (cl_constraints c)" and "cl_scope d = join '' '' (go_fields (cl_scope c))"
    and "\<And>k. cl_constraints c = Some k \<Longrightarrow> deny_all \<notin> set (cn_resources k)"
  shows "authorize tzdb now c a = None"
proof -
  have "go_fields (cl_scope d) = go_fields (cl_scope c)" using assms(4) fields_solid by (simp add: fields_join)
  with assms(1-3,5) permit_drop_resources show ?thesis
    by (fastforce simp: authorize_None_iff discovery_constraints_def)
qed

lemma tool_authorize:
  assumes "authorize tzdb later d a = None" and "ac_resource a = []"
    and "cl_constraints d = downstream_constraints (cl_constraints c) name" and "cl_scope d = join '' '' [scope]"
    and "authorize tzdb' now c (tool_action scope name) = None"
  shows "authorize tzdb later c a = None" and "ac_scope a = scope"
    and "cl_constraints c \<noteq> None \<Longrightarrow> ac_tool a = [] \<or> ac_tool a = name"
proof -
  have sc: "scope \<in> set (go_fields (cl_scope c))" using assms(5) by (simp add: authorize_None_iff tool_action_def)
  then have "go_fields (join '' '' [scope]) = [scope]" by (intro fields_join) (simp add: fields_solid)
  with assms(1,4) show *: "ac_scope a = scope" by (simp add: authorize_None_iff)
  from assms(1,3) show "ac_tool a = [] \<or> ac_tool a = name" if "cl_constraints c \<noteq> None"
    using that by (auto simp: authorize_None_iff downstream_constraints_def permit_None_iff permit_list_None_iff)
  have "permit tzdb later k a = None" if "cl_constraints c = Some k" for k
    using that assms(1-3,5) permit_narrow_tool [where tzdb = tzdb and now = later and k = k and tool = name and a = a and tzdb' = tzdb' and then' = now and scope = scope]
    by (simp add: authorize_None_iff downstream_constraints_def)
  with sc * show "authorize tzdb later c a = None" by (simp add: authorize_None_iff)
qed

section \<open>The gate on tools\<close>

text \<open>Whatever a call does, the tables of tokens and delegations stay as they are.\<close>

lemma gateway_audit_frame [simp]:
  "db_tokens (gateway_audit env c slug tool st s) = db_tokens s"
  "db_delegations (gateway_audit env c slug tool st s) = db_delegations s"
  by (simp_all add: gateway_audit_def)

lemma tool_call_frame:
  "db_tokens (gc_db (gateway_tool_call lib g env req up c b name s)) = db_tokens s \<and>
   db_delegations (gc_db (gateway_tool_call lib g env req up c b name s)) = db_delegations s \<and>
   (gc_sent (gateway_tool_call lib g env req up c b name s) = None \<longrightarrow>
      gc_db (gateway_tool_call lib g env req up c b name s) = s)"
  by (simp add: gateway_tool_call_def Let_def refuse_def split: option.split sum.split)

lemma tool_call_sent_iff:
  "(\<exists>ur. gc_sent (gateway_tool_call lib g env req up c b name s) = Some ur) \<longleftrightarrow>
   (\<exists>scope tok. tool_forward lib g env up c name scope tok)"
proof
  assume "\<exists>scope tok. tool_forward lib g env up c name scope tok"
  then obtain scope tok where "up_tool_scopes up name = Some scope"
    "authorize (ge_tzdb env) (ge_now env) c (tool_action scope name) = None"
    "gateway_mint lib g env c [scope] (up_resource_id up) (downstream_constraints (cl_constraints c) name) = Inr tok"
    by (auto simp: tool_forward_def)
  then show "\<exists>ur. gc_sent (gateway_tool_call lib g env req up c b name s) = Some ur"
    by (simp add: gateway_tool_call_def Let_def split: option.split)
qed (use tool_call_sent in blast)

text \<open>A tools/call request with a body the gateway can read.\<close>

definition calls_tool :: "gateway_request \<Rightarrow> string \<Rightarrow> bool" where
  "calls_tool req name \<longleftrightarrow>
     (case gq_body req of None \<Rightarrow> False | Some b \<Rightarrow> \<not> has_duplicate_keys b \<and>
        (case bd_doc b of None \<Rightarrow> False | Some v \<Rightarrow> decode_rpc v = Some (''tools/call'', name)))"

lemma dispatch_tool_call:
  "calls_tool req name \<Longrightarrow> \<exists>b. gq_body req = Some b \<and>
     gateway_dispatch lib g env req up c s = gateway_tool_call lib g env req up c b name s"
  by (auto simp: calls_tool_def gateway_dispatch_def split: option.splits)

lemma dispatch_tool_sent:
  "calls_tool req name \<Longrightarrow>
   (\<exists>ur. gc_sent (gateway_dispatch lib g env req up c s) = Some ur) \<longleftrightarrow> (\<exists>scope tok. tool_forward lib g env up c name scope tok)"
proof -
  assume "calls_tool req name"
  then obtain b where "gateway_dispatch lib g env req up c s = gateway_tool_call lib g env req up c b name s"
    using dispatch_tool_call by blast
  then show ?thesis using tool_call_sent_iff [of lib g env req up c b name s] by simp
qed

lemma finish_call_sent [simp]: "fst (snd (finish_call up actor prov oc)) = gc_sent oc"
  by (simp add: finish_call_def)

section \<open>Isolation of upstreams\<close>

text \<open>What a map of upstreams must satisfy, for the audiences seen so far.\<close>

definition isolated :: "string set \<Rightarrow> (string \<times> upstream) list \<Rightarrow> bool" where
  "isolated seen m \<longleftrightarrow>
     (\<forall>k u. map_of m k = Some u \<longrightarrow> up_slug u = k \<and> up_inbound_audience u \<noteq> [] \<and> up_inbound_audience u \<in> seen) \<and>
     (\<forall>j k u v. map_of m j = Some u \<longrightarrow> map_of m k = Some v \<longrightarrow> up_inbound_audience u = up_inbound_audience v \<longrightarrow> j = k)"

lemma isolated_update:
  assumes "isolated seen m" and "up_inbound_audience u \<noteq> []" and "up_inbound_audience u \<notin> seen"
  shows "isolated (insert (up_inbound_audience u) seen) (AList.update (up_slug u) u m)"
  using assms unfolding isolated_def by (auto simp: update_conv' split: if_splits) metis+

lemma isolated_mono: "isolated seen m \<Longrightarrow> seen \<subseteq> seen' \<Longrightarrow> isolated seen' m"
  by (auto simp: isolated_def)

lemma index_upstreams_isolated:
  "isolated seen m \<Longrightarrow> index_upstreams us seen m = Inr m' \<Longrightarrow> isolated (seen \<union> up_inbound_audience ` set us) m'"
proof (induction us arbitrary: seen m)
  case (Cons u us)
  then show ?case using isolated_update [of seen m u] by (fastforce split: if_splits)
qed simp

lemma build_isolated: "build_upstream_map us = Inr m \<Longrightarrow> isolated (up_inbound_audience ` set us) m"
  using index_upstreams_isolated [of "{}" "[]" us m] by (simp add: build_upstream_map_def isolated_def)

lemma merge_isolated: "isolated seen m \<Longrightarrow> \<exists>seen'. isolated seen' (merge_upstreams us seen m)"
proof (induction us arbitrary: seen m)
  case (Cons u us)
  then show ?case using isolated_update [of seen m u] by (auto split: if_splits)
qed auto

lemma isolated_own_audiences:
  assumes "isolated seen m"
  shows "isolated (set (map (\<lambda>(_, u). up_inbound_audience u) m)) m"
  using assms by (force simp: isolated_def dest: map_of_SomeD)

lemma merge_keeps: "map_of m k = Some u \<Longrightarrow> map_of (merge_upstreams us seen m) k = Some u"
proof (induction us arbitrary: seen m)
  case (Cons w us)
  have "map_of (AList.update (up_slug w) w m) k = Some u" if "map_of m (up_slug w) = None"
    using that Cons.prems by (cases "k = up_slug w") (simp_all add: update_conv')
  with Cons show ?case by simp
qed simp

text \<open>The steps that change a running gateway.\<close>

inductive gateway_step :: "('k, 'p) gateway \<Rightarrow> ('k, 'p) gateway \<Rightarrow> bool" where
  upstreams: "refresh_upstreams rows g = Inr g' \<Longrightarrow> gateway_step g g'"
| revoked: "refresh_revoked now q g = Some g' \<Longrightarrow> gateway_step g g'"

definition gateway_isolated :: "('k, 'p) gateway \<Rightarrow> bool" where
  "gateway_isolated g \<longleftrightarrow> (\<exists>seen. isolated seen (gw_upstreams g)) \<and>
     (\<exists>m. build_upstream_map (gw_static g) = Inr m \<and>
        (\<forall>k u. map_of m k = Some u \<longrightarrow> find_upstream g k = Some u))"

lemma refresh_isolated:
  assumes "refresh_upstreams rows g = Inr g'"
  shows "gateway_isolated g'"
proof -
  from assms obtain ups m where m: "build_upstream_map (gw_static g) = Inr m"
    and g': "g' = g\<lparr>gw_upstreams := merge_upstreams ups (set (map (\<lambda>(_, u). up_inbound_audience u) m)) m\<rparr>"
    by (auto simp: refresh_upstreams_def and_then_eq_Inr_iff split: option.splits)
  have "\<exists>seen. isolated seen (gw_upstreams g')"
    unfolding g' by (simp del: set_map add: merge_isolated [OF isolated_own_audiences [OF build_isolated [OF m]]])
  moreover have "find_upstream g' k = Some u" if "map_of m k = Some u" for k u
    using merge_keeps [OF that] by (simp add: g' find_upstream_def)
  ultimately show ?thesis using m by (simp add: gateway_isolated_def g')
qed

lemma gateway_step_isolated: "gateway_step g g' \<Longrightarrow> gateway_isolated g \<Longrightarrow> gateway_isolated g'"
proof (induction rule: gateway_step.induct)
  case (upstreams rows g g')
  then show ?case by (simp add: refresh_isolated)
next
  case (revoked now q g g')
  then show ?case by (auto simp: refresh_revoked_def gateway_isolated_def find_upstream_def split: option.splits)
qed

interpretation gateway_isolation: one_way gateway_step gateway_isolated
  by unfold_locales (rule gateway_step_isolated)

lemma gateway_isolated_frame [simp]:
  "gateway_isolated (g\<lparr>gw_revoked := x\<rparr>) = gateway_isolated g"
  "gateway_isolated (fold apply_option opts g) = gateway_isolated g"
proof -
  show "gateway_isolated (g\<lparr>gw_revoked := x\<rparr>) = gateway_isolated g"
    by (simp add: gateway_isolated_def find_upstream_def)
  have opt: "gateway_isolated (apply_option opt g) = gateway_isolated g" for opt and g :: "('k, 'p) gateway"
    by (cases opt) (simp_all add: gateway_isolated_def find_upstream_def)
  show "gateway_isolated (fold apply_option opts g) = gateway_isolated g"
    by (induction opts arbitrary: g) (simp_all add: opt)
qed

lemma new_gateway_isolated:
  assumes "new_gateway iss kid key keys ups opts = Inr g"
  shows "gateway_isolated g"
proof -
  from assms obtain m where m: "build_upstream_map ups = Inr m"
    by (auto simp: new_gateway_def and_then_eq_Inr_iff)
  let ?g = "\<lparr>gw_issuer = iss, gw_kid = kid, gw_key = key, gw_verifier_keys = keys, gw_upstreams = m,
              gw_static = ups, gw_downstream_ttl = 60 * nanos, gw_max_body = 1048576, gw_rev_refresh = 0,
              gw_revoked = None\<rparr>"
  have "gateway_isolated ?g" using m build_isolated [OF m] by (auto simp: gateway_isolated_def find_upstream_def)
  with assms m show ?thesis by (auto simp: new_gateway_def Let_def)
qed

section \<open>Properties\<close>

text \<open>
  C2: the gateway extends authority in nothing but the resource. Whenever a call reaches an upstream, the
  inbound token verified for that upstream's own audience and was active, and the token sent along is a fresh
  one for the upstream, with the inbound subject and actors. Whatever action that token authorizes, wherever it
  is accepted, the inbound token authorizes too at that time, before the inbound token's expiry and within the
  gateway's own lifetime limit, when the action names no resource; when it names one, the inbound token
  authorizes it or refuses it only because its own list of resources lacks that one. (The gateway drops that
  list from the token it sends, below. An inbound token that may do nothing at all to any resource is left
  out.)
\<close>

theorem gateway_forwards_within_authority:
  assumes "jwt_laws lib" and "gw_issuer g \<noteq> []"
    and "\<And>up c scopes cn jti. find_upstream g (gq_slug req) = Some up \<Longrightarrow>
           verify lib (gateway_verifier g) (ge_now env) (gateway_bearer (gq_authorization req)) (up_inbound_audience up) = Inr c \<Longrightarrow>
           jl_exact lib (downstream_claims lib g env c scopes (up_resource_id up) cn jti)"
    and "gateway_handle lib g env req s = (reply, Some ur, t)"
  shows "\<exists>up c d. find_upstream g (gq_slug req) = Some up \<and> ur_url ur = up_url up \<and>
    verify lib (gateway_verifier g) (ge_now env) (gateway_bearer (gq_authorization req)) (up_inbound_audience up) = Inr c \<and>
    token_active g (ge_store_up env) (ge_now env) s (rc_jti c) = Inr True \<and>
    jl_claims lib (ur_token ur) = Some d \<and> rc_aud d = [up_resource_id up] \<and> rc_sub d = rc_sub c \<and> cl_act d = cl_act c \<and>
    (\<forall>v tzdb later aud d' a. vf_issuer v \<noteq> [] \<longrightarrow> aud \<noteq> [] \<longrightarrow> verify lib v later (ur_token ur) aud = Inr d' \<longrightarrow>
       authorize tzdb later d' a = None \<longrightarrow>
       (\<forall>k. cl_constraints c = Some k \<longrightarrow> deny_all \<notin> set (cn_resources k)) \<longrightarrow>
       authorize tzdb later c (a\<lparr>ac_resource := []\<rparr>) = None \<and>
       (authorize tzdb later c a = None \<or>
          ac_resource a \<noteq> [] \<and> (\<exists>k. cl_constraints c = Some k \<and> cn_resources k \<noteq> [] \<and> ac_resource a \<notin> set (cn_resources k))) \<and>
       later < ge_now env + gw_downstream_ttl g \<and> (\<forall>e. rc_exp c = Some e \<longrightarrow> later < e))"
proof -
  obtain up c where up: "find_upstream g (gq_slug req) = Some up"
    and c: "verify lib (gateway_verifier g) (ge_now env) (gateway_bearer (gq_authorization req)) (up_inbound_audience up) = Inr c"
    and act: "token_active g (ge_store_up env) (ge_now env) s (rc_jti c) = Inr True"
    and sent: "gc_sent (gateway_dispatch lib g env req up c s) = Some ur"
    by (rule handle_sent [OF assms(4)])
  obtain b v mthd name where url: "ur_url ur = up_url up"
    and fwd: "if mthd = ''tools/call'' then \<exists>scope. tool_forward lib g env up c name scope (ur_token ur)
         else discovery_forward lib g env up c mthd (ur_token ur)"
    by (rule dispatch_sent [OF sent])
  obtain scopes cn where m: "gateway_mint lib g env c scopes (up_resource_id up) cn = Inr (ur_token ur)"
    and how: "cn = discovery_constraints (cl_constraints c) \<and> scopes = go_fields (cl_scope c) \<or>
      (\<exists>scope. cn = downstream_constraints (cl_constraints c) name \<and> scopes = [scope] \<and>
         authorize (ge_tzdb env) (ge_now env) c (tool_action scope name) = None)"
    using fwd by (auto simp: tool_forward_def discovery_forward_def split: if_splits)
  obtain jti where d: "jl_claims lib (ur_token ur) = Some (downstream_claims lib g env c scopes (up_resource_id up) cn jti)"
    using mint_claims [OF assms(1) assms(3) [OF up c] m] by blast
  let ?d = "downstream_claims lib g env c scopes (up_resource_id up) cn jti"
  have "authorize tzdb later c (a\<lparr>ac_resource := []\<rparr>) = None \<and>
       (authorize tzdb later c a = None \<or>
          ac_resource a \<noteq> [] \<and> (\<exists>k. cl_constraints c = Some k \<and> cn_resources k \<noteq> [] \<and> ac_resource a \<notin> set (cn_resources k))) \<and>
       later < ge_now env + gw_downstream_ttl g \<and> (\<forall>e. rc_exp c = Some e \<longrightarrow> later < e)"
    if v: "vf_issuer v \<noteq> []" "aud \<noteq> []" "verify lib v later (ur_token ur) aud = Inr d'"
      and a: "authorize tzdb later d' a = None"
      and plain: "\<forall>k. cl_constraints c = Some k \<longrightarrow> deny_all \<notin> set (cn_resources k)" for v tzdb later aud d' a
  proof -
    from v d have d': "d' = ?d" and cur: "later < jl_numeric_date lib (downstream_expiry g (ge_now env) c)"
      by (auto simp: verify_iff [OF assms(1)] claims_current_def downstream_claims_fields)
    have ex: "later < downstream_expiry g (ge_now env) c" using cur jwt_numeric_date [OF assms(1)] by (rule less_le_trans)
    let ?a = "a\<lparr>ac_resource := []\<rparr>"
    have b: "authorize tzdb later d' ?a = None" "ac_resource ?a = []" using authorize_no_resource [OF a] by simp_all
    have "authorize tzdb later c ?a = None"
      using how discovery_authorize [OF b, of c] tool_authorize(1) [OF b, of c name] plain
      by (auto simp: d' downstream_claims_fields)
    with authorize_resource [OF this] ex downstream_expiry_bound [where g = g and now = "ge_now env" and c = c] show ?thesis by fastforce
  qed
  with up url c act d show ?thesis
    by (intro exI [of _ up] exI [of _ c] exI [of _ ?d]) (auto simp: downstream_claims_fields)
qed

text \<open>
  The list of resources is not carried over: an action on a resource the inbound constraints do not list is
  refused by them and permitted by those of the token sent upstream.
\<close>

lemma resource_list_dropped:
  assumes "cn_resources k = [r]" and "r \<noteq> r'" and "r' \<noteq> []" and "name \<noteq> deny_all"
    and "permit tzdb now (k\<lparr>cn_resources := []\<rparr>) (tool_action scope name) = None"
  shows "permit tzdb now k ((tool_action scope name)\<lparr>ac_resource := r'\<rparr>) \<noteq> None \<and>
     (\<exists>d. downstream_constraints (Some k) name = Some d \<and>
        permit tzdb now d ((tool_action scope name)\<lparr>ac_resource := r'\<rparr>) = None)"
  using assms by (auto simp: downstream_constraints_def permit_None_iff permit_list_None_iff tool_action_def deny_all_def)

text \<open>
  C9: the gate on tools. A readable \<open>tools/call\<close> is sent upstream exactly when the slug names an upstream,
  the bearer token verifies for the upstream's audience and is active, the tool is in the upstream's map,
  the token authorizes that tool with the scope the map requires, and the narrowed token can be minted.
  Otherwise nothing is sent and no audit line is written; in no case do tokens or delegations change.
\<close>

theorem gateway_tool_gate:
  assumes "calls_tool req name" and "gateway_handle lib g env req s = (reply, sent, t)"
  shows "(sent \<noteq> None \<longleftrightarrow>
      (\<exists>up c scope tok. find_upstream g (gq_slug req) = Some up \<and> gateway_bearer (gq_authorization req) \<noteq> [] \<and>
         verify lib (gateway_verifier g) (ge_now env) (gateway_bearer (gq_authorization req)) (up_inbound_audience up) = Inr c \<and>
         token_active g (ge_store_up env) (ge_now env) s (rc_jti c) = Inr True \<and>
         tool_forward lib g env up c name scope tok)) \<and>
    (sent = None \<longrightarrow> db_audit t = db_audit s) \<and> db_tokens t = db_tokens s \<and> db_delegations t = db_delegations s"
proof (cases "find_upstream g (gq_slug req)")
  case None
  with assms(2) show ?thesis by (simp add: gateway_handle_def)
next
  case (Some up)
  let ?tok = "gateway_bearer (gq_authorization req)"
  show ?thesis
  proof (cases "?tok \<noteq> [] \<and> (\<exists>c. verify lib (gateway_verifier g) (ge_now env) ?tok (up_inbound_audience up) = Inr c \<and>
      token_active g (ge_store_up env) (ge_now env) s (rc_jti c) = Inr True)")
    case False
    with Some assms(2) show ?thesis
      by (auto simp: gateway_handle_def finish_call_def Let_def split: if_splits sum.splits)
  next
    case True
    then obtain c where c: "?tok \<noteq> []" "verify lib (gateway_verifier g) (ge_now env) ?tok (up_inbound_audience up) = Inr c"
      "token_active g (ge_store_up env) (ge_now env) s (rc_jti c) = Inr True" by blast
    obtain b where d: "gateway_dispatch lib g env req up c s = gateway_tool_call lib g env req up c b name s"
      using dispatch_tool_call [OF assms(1)] by blast
    from assms(2) Some c d have "sent = gc_sent (gateway_tool_call lib g env req up c b name s)"
      "db_tokens t = db_tokens (gc_db (gateway_tool_call lib g env req up c b name s))"
      "db_delegations t = db_delegations (gc_db (gateway_tool_call lib g env req up c b name s))"
      "db_audit t = db_audit (gc_db (gateway_tool_call lib g env req up c b name s))"
      by (auto simp: gateway_handle_def finish_call_def Let_def)
    with Some c tool_call_sent_iff [of lib g env req up c b name s] tool_call_frame [of lib g env req up c b name s]
    show ?thesis by auto
  qed
qed

section \<open>Filtering and agreement\<close>

lemma map_of_rev_distinct: "distinct (map fst xs) \<Longrightarrow> map_of (rev xs) = map_of xs"
  by (rule map_of_eqI) (auto simp: map_of_eq_Some_iff distinct_map rev_map [symmetric])

lemma decode_map_keys: "decode_map v = Some m \<Longrightarrow> distinct (map fst m)"
  by (cases v) (auto simp: o_def)

lemma decode_map_obj: "distinct (map fst m) \<Longrightarrow> decode_map (JObj m) = Some m' \<Longrightarrow> map_of m' = map_of m"
proof
  fix k assume m: "distinct (map fst m)" "decode_map (JObj m) = Some m'"
  have "map_of (map (\<lambda>k. (k, the (map_of m k))) ks) k = (if k \<in> set ks then Some (the (map_of m k)) else None)" for ks
    by (induction ks) auto
  with m show "map_of m' k = map_of m k"
    by (auto simp: map_of_rev_distinct map_of_eq_None_iff dest: map_of_eq_Some_iff [THEN iffD2]) 
       (metis map_of_eq_None_iff option.collapse image_eqI fst_conv)
qed

lemma set_member_keys [simp]: "map fst (set_member k v m) = map fst m"
  by (induction m) (auto simp: set_member_def)

lemma set_member_lookup: "map_of m k = Some u \<Longrightarrow> map_of (set_member k v m) k = Some v"
  by (induction m) (auto simp: set_member_def split: if_splits)

text \<open>The tools a list response carries, under the exact keys.\<close>

definition doc_tools :: "json \<Rightarrow> json list option" where
  "doc_tools v =
     (case decode_map v of None \<Rightarrow> None
      | Some env \<Rightarrow> (case map_of env ''result'' of None \<Rightarrow> None
      | Some rv \<Rightarrow> (case decode_map rv of None \<Rightarrow> None
      | Some result \<Rightarrow> (case map_of result ''tools'' of None \<Rightarrow> None
      | Some tv \<Rightarrow> decode_list tv))))"

lemma doc_tools_rewritten:
  assumes "distinct (map fst env)" and "map_of env ''result'' = Some rv"
    and "distinct (map fst result)" and "map_of result ''tools'' = Some tv"
  shows "doc_tools (JObj (set_member ''result'' (JObj (set_member ''tools'' (JArr ts) result)) env)) = Some ts"
proof -
  obtain e r where e: "decode_map (JObj (set_member ''result'' (JObj (set_member ''tools'' (JArr ts) result)) env)) = Some e"
    and r: "decode_map (JObj (set_member ''tools'' (JArr ts) result)) = Some r" by simp
  have "map_of e ''result'' = Some (JObj (set_member ''tools'' (JArr ts) result))"
    using decode_map_obj [OF _ e] assms(1) set_member_lookup [OF assms(2)] by simp
  moreover have "map_of r ''tools'' = Some (JArr ts)"
    using decode_map_obj [OF _ r] assms(3) set_member_lookup [OF assms(4)] by simp
  ultimately show ?thesis by (simp only: doc_tools_def e r option.case decode_list.simps)
qed

text \<open>
  discovery shows exactly what can be called. If \<open>filterToolsList\<close> lets a response through unchanged,
  it carries no list of tools; otherwise the response it writes lists, in the upstream's order, precisely
  the tools of the upstream's list that the map knows and the token authorizes.
\<close>

theorem tools_list_filtered:
  assumes "bd_doc b = Some v" and "filter_tools_list tzdb now b up c = Some out"
  shows "case out of
      Verbatim text \<Rightarrow> text = bd_bytes b \<and> doc_tools v = None
    | Rewritten w \<Rightarrow> \<exists>ts. doc_tools v = Some ts \<and> doc_tools w = Some (filter (tool_listed tzdb now up c) ts)"
proof -
  from assms obtain env where env: "decode_map v = Some env" by (auto simp: filter_tools_list_def split: option.splits)
  show ?thesis
  proof (cases "map_of env ''result''")
    case None
    with assms env show ?thesis by (auto simp: filter_tools_list_def doc_tools_def)
  next
    case (Some rv)
    with assms env obtain result where r: "decode_map rv = Some result"
      by (auto simp: filter_tools_list_def split: option.splits)
    show ?thesis
    proof (cases "map_of result ''tools''")
      case None
      with assms env Some r show ?thesis by (auto simp: filter_tools_list_def doc_tools_def)
    next
      case tv: (Some tv)
      with assms env Some r obtain ts where "decode_list tv = Some ts"
        by (auto simp: filter_tools_list_def split: option.splits)
      with assms env Some r tv doc_tools_rewritten [OF decode_map_keys [OF env] Some decode_map_keys [OF r] tv]
      show ?thesis by (auto simp: filter_tools_list_def doc_tools_def)
    qed
  qed
qed

text \<open>
  The two ways of checking revocation agree. Right after the feed mode's set was loaded, a recorded,
  unexpired token is active in one mode exactly when it is in the other; a token that was never recorded is
  inactive in the store mode and active in the feed mode; and before the first load no token is active.
\<close>

theorem revocation_modes_agree:
  assumes "gw_revoked direct = None" and "refresh_revoked now (Some s) g = Some feed"
    and "distinct (map tr_jti (db_tokens s))"
  shows "(\<forall>r \<in> set (db_tokens s). now < tr_expires_at r \<longrightarrow>
            token_active feed up now s (tr_jti r) = token_active direct True now s (tr_jti r)) \<and>
         (jti \<notin> tr_jti ` set (db_tokens s) \<longrightarrow>
            token_active direct True now s jti = Inr False \<and> token_active feed up now s jti = Inr True) \<and>
         token_active (g\<lparr>gw_revoked := Some \<lparr>cache_set = {}, cache_loaded = False\<rparr>\<rparr>) up now s jti = Inl CacheNotLoaded"
proof -
  have feed: "gw_revoked feed = Some \<lparr>cache_set = set (revoked_now now s), cache_loaded = True\<rparr>"
    using assms(2) by (auto simp: refresh_revoked_def)
  have find: "find (\<lambda>q. tr_jti q = tr_jti r) (db_tokens s) = Some r" if "r \<in> set (db_tokens s)" for r
    using find_key [OF assms(3) that] .
  have "tr_jti r \<in> set (revoked_now now s) \<longleftrightarrow> tr_revoked_at r \<noteq> None"
    if "r \<in> set (db_tokens s)" "now < tr_expires_at r" for r
    using that assms(3) by (auto simp: revoked_now_def distinct_map dest: inj_onD)
  with find have "token_active feed up now s (tr_jti r) = token_active direct True now s (tr_jti r)"
    if "r \<in> set (db_tokens s)" "now < tr_expires_at r" for r
    using that by (auto simp: token_active_def feed assms(1) is_active_def)
  moreover have "token_active direct True now s jti = Inr False" "token_active feed up now s jti = Inr True"
    if "jti \<notin> tr_jti ` set (db_tokens s)"
    using that by (auto simp: token_active_def feed assms(1) is_active_def revoked_now_def find_None_iff split: option.split
        dest: find_SomeD)
  ultimately show ?thesis by (auto simp: token_active_def)
qed

text \<open>How a parser that knows no case folding reads the tool of a request.\<close>

definition exact_tool :: "json \<Rightarrow> string option" where
  "exact_tool v =
     (case v of
        JObj kvs \<Rightarrow>
          (case map_of kvs ''params'' of
             Some (JObj ps) \<Rightarrow> (case map_of ps ''name'' of Some (JStr n) \<Rightarrow> Some n | _ \<Rightarrow> None)
           | _ \<Rightarrow> None)
      | _ \<Rightarrow> None)"

text \<open>Keys that fold to one of the names are that name.\<close>

definition exact_keys :: "string set \<Rightarrow> (string \<times> json) list \<Rightarrow> bool" where
  "exact_keys names kvs \<longleftrightarrow> (\<forall>k \<in> fst ` set kvs. fold_name k \<in> names \<longrightarrow> k = fold_name k)"

definition exact_request :: "json \<Rightarrow> bool" where
  "exact_request v \<longleftrightarrow>
     (case v of JObj kvs \<Rightarrow> exact_keys {''method'', ''params''} kvs \<and>
        (\<forall>ps. (''params'', JObj ps) \<in> set kvs \<longrightarrow> exact_keys {''name''} ps) | _ \<Rightarrow> True)"

lemma fold_name_ascii: "fold_name ''name'' = ''name''" "fold_name ''params'' = ''params''" "fold_name ''method'' = ''method''"
  by (simp_all add: fold_name_def ascii_lower_def)

lemma decode_string_field_absent:
  "\<forall>k \<in> fst ` set kvs. fold_name k \<noteq> name \<Longrightarrow> decode_string_field name acc kvs = Some acc"
  by (induction kvs) auto

lemma decode_string_field_exact:
  assumes "distinct (map fst kvs)" and "exact_keys {name} kvs" and "fold_name name = name"
  shows "decode_string_field name acc kvs =
     (case map_of kvs name of None \<Rightarrow> Some acc | Some v \<Rightarrow> assign_string acc v)"
  using assms
proof (induction kvs)
  case (Cons kv kvs)
  obtain k v where kv: "kv = (k, v)" by (cases kv)
  from Cons.prems have keys: "exact_keys {name} kvs" by (simp add: exact_keys_def)
  show ?case
  proof (cases "k = name")
    case True
    with Cons.prems kv have "\<forall>j \<in> fst ` set kvs. fold_name j \<noteq> name"
      by (force simp: exact_keys_def)
    then show ?thesis using True Cons.prems kv by (auto simp: decode_string_field_absent split: option.split)
  next
    case False
    with Cons.prems kv have "fold_name k \<noteq> name" by (auto simp: exact_keys_def)
    with False Cons.IH [OF _ keys] Cons.prems kv show ?thesis by simp
  qed
qed simp

lemma decode_rpc_no_params:
  "\<forall>k \<in> fst ` set kvs. fold_name k \<noteq> ''params'' \<Longrightarrow> decode_rpc_fields (m, n) kvs = Some (m', n') \<Longrightarrow> n' = n"
  by (induction kvs arbitrary: m) (auto split: if_splits option.splits)

lemma decode_rpc_params:
  assumes "distinct (map fst kvs)" and "exact_keys {''method'', ''params''} kvs"
    and "decode_rpc_fields (m, n) kvs = Some (m', n')"
  shows "case map_of kvs ''params'' of None \<Rightarrow> n' = n | Some v \<Rightarrow> decode_name_struct n v = Some n'"
  using assms
proof (induction kvs arbitrary: m n)
  case (Cons kv kvs)
  obtain k v where kv: "kv = (k, v)" by (cases kv)
  from Cons.prems have keys: "distinct (map fst kvs)" "exact_keys {''method'', ''params''} kvs"
    by (simp_all add: exact_keys_def)
  show ?case
  proof (cases "k = ''params''")
    case True
    with Cons.prems kv have none: "\<forall>j \<in> fst ` set kvs. fold_name j \<noteq> ''params''"
      by (force simp: exact_keys_def)
    from True Cons.prems(3) kv obtain n1 where "decode_name_struct n v = Some n1" "decode_rpc_fields (m, n1) kvs = Some (m', n')"
      by (auto simp: fold_name_ascii split: option.splits)
    with decode_rpc_no_params [OF none] True kv show ?thesis by auto
  next
    case False
    then have "fold_name k \<noteq> ''params''" using Cons.prems kv by (force simp: exact_keys_def)
    with Cons.prems(3) kv obtain m1 where "decode_rpc_fields (m1, n) kvs = Some (m', n')"
      by (auto split: if_splits option.splits)
    from Cons.IH [OF keys this] False kv show ?thesis by simp
  qed
qed simp

text \<open>
  Where the gateway and the upstream read the same tool. If a request has no object with a repeated key,
  and none of its keys differs from \<open>method\<close>, \<open>params\<close> or \<open>name\<close> only under folding, then the tool the
  gateway authorizes is the one a parser reads that compares keys exactly.
\<close>

theorem tool_names_agree:
  assumes "\<not> dup_json v" and "exact_request v" and "decode_rpc v = Some (mthd, name)" and "name \<noteq> []"
  shows "exact_tool v = Some name"
proof (cases v)
  case (JObj kvs)
  with assms have d: "distinct (map fst kvs)" "exact_keys {''method'', ''params''} kvs"
    "decode_rpc_fields ([], []) kvs = Some (mthd, name)" by (auto simp: exact_request_def)
  obtain ps where p: "map_of kvs ''params'' = Some (JObj ps)" "decode_string_field ''name'' [] ps = Some name"
    using decode_rpc_params [OF d] assms(4)
    by (auto split: option.splits elim!: decode_name_struct.elims)
  then have mem: "(''params'', JObj ps) \<in> set kvs" by (simp add: map_of_SomeD)
  with assms JObj have "distinct (map fst ps)" "exact_keys {''name''} ps"
    by (auto simp: exact_request_def list_ex_iff)
  from decode_string_field_exact [OF this fold_name_ascii(1)] p assms(4) JObj show ?thesis
    by (auto simp: exact_tool_def split: option.splits elim!: assign_string.elims)
qed (use assms in auto)

section \<open>A gateway with one upstream\<close>

definition gw_claims :: claims where
  "gw_claims = \<lparr>rc_iss = ''https://legant'', rc_sub = ''user:alice'', rc_aud = [''files''],
     rc_exp = Some (50 * nanos), rc_nbf = None, rc_iat = Some 0, rc_jti = ''j1'', cl_scope = ''pay'',
     cl_act = Some (ActClaim ''agent:b'' None), cl_constraints = Some (no_constraints\<lparr>cn_tools := [''read'']\<rparr>)\<rparr>"

definition gw_down :: claims where
  "gw_down = gw_claims\<lparr>rc_aud := [''https://files''], rc_jti := ''j9''\<rparr>"

definition gw_lib :: "(unit, unit) delegation_jwt" where
  "gw_lib = table_lib ''k1'' [(''tok'', gw_claims), (''down'', gw_down)]"

definition files_upstream :: upstream where
  "files_upstream = \<lparr>up_slug = ''files'', up_inbound_audience = ''files'', up_url = ''https://files/mcp'',
     up_resource_id = ''https://files'', up_tool_scopes = [''read'' \<mapsto> ''pay'', ''write'' \<mapsto> ''pay'']\<rparr>"

definition mail_upstream :: upstream where
  "mail_upstream = files_upstream\<lparr>up_slug := ''mail'', up_inbound_audience := ''mail''\<rparr>"

definition files_gateway :: "(unit, unit) gateway" where
  "files_gateway = projr (new_gateway ''https://legant'' ''k1'' () [''k1'' \<mapsto> ()] [files_upstream] [])"

definition files_env :: gateway_env where
  "files_env = \<lparr>ge_now = 0, ge_tzdb = utc_only, ge_rnd = Some ''j9'', ge_store_up = True, ge_audit_up = True,
     ge_upstream = (\<lambda>_. Some \<lparr>rs_status = 200, rs_headers = [], rs_body = json_body JNull\<rparr>)\<rparr>"

definition tool_request :: "(string \<times> json) list \<Rightarrow> gateway_request" where
  "tool_request params = \<lparr>gq_slug = ''files'', gq_tls = True, gq_host = ''gw'', gq_authorization = ''Bearer tok'',
     gq_accept = [], gq_session = [],
     gq_body = Some (json_body (JObj [(''method'', JStr ''tools/call''), (''params'', JObj params)]))\<rparr>"

lemma gw_laws: "jwt_laws gw_lib"
  by (simp add: gw_lib_def table_laws)

lemma gw_exact: "jl_exact gw_lib c"
  by (simp add: gw_lib_def table_lib_def)

lemma files_gateway_eq:
  "files_gateway = \<lparr>gw_issuer = ''https://legant'', gw_kid = ''k1'', gw_key = (), gw_verifier_keys = [''k1'' \<mapsto> ()],
     gw_upstreams = [(''files'', files_upstream)], gw_static = [files_upstream], gw_downstream_ttl = 60 * nanos,
     gw_max_body = 1048576, gw_rev_refresh = 0, gw_revoked = None\<rparr>"
  by (simp add: files_gateway_def new_gateway_def build_upstream_map_def files_upstream_def)

lemma gw_fields: "go_fields ''pay'' = [''pay'']"
  by (simp add: go_fields_def space_len_def ascii_spaces_def wide_spaces_def has_prefix_def)

lemma gw_verified:
  "verify gw_lib (gateway_verifier files_gateway) 0 ''tok'' ''files'' = Inr gw_claims"
  by (simp add: verify_def key_func_def gateway_verifier_def files_gateway_eq gw_lib_def table_lib_def
      claims_current_def gw_claims_def nanos_def)

lemma gw_active: "token_active files_gateway True 0 sample_db ''j1'' = Inr True"
  by (simp add: token_active_def files_gateway_eq is_active_def sample_db_def sample_record_def empty_db_def record_tx_def)

lemma gw_authorized:
  "authorize utc_only 0 gw_claims (tool_action ''pay'' ''read'') = None"
  "authorize utc_only 0 gw_claims (tool_action ''pay'' ''write'') \<noteq> None"
  by (simp_all add: authorize_None_iff gw_claims_def tool_action_def gw_fields permit_None_iff permit_list_None_iff
      no_constraints_def amount_ok_def window_ok_def deny_all_def)

lemma gw_minted:
  "gateway_mint gw_lib files_gateway files_env gw_claims [''pay''] ''https://files''
     (downstream_constraints (cl_constraints gw_claims) ''read'') = Inr ''down''"
  by (simp add: gateway_mint_def issue_claims_def sign_claims_def files_env_def files_gateway_eq gateway_signer_def
      gw_lib_def table_lib_def token_claims_def downstream_expiry_def downstream_constraints_def gw_claims_def gw_down_def
      nanos_def no_constraints_def)

lemma files_forward: "tool_forward gw_lib files_gateway files_env files_upstream gw_claims ''read'' ''pay'' ''down''"
  using gw_minted gw_authorized(1)
  by (simp add: tool_forward_def files_upstream_def files_env_def)

text \<open>A call whose folded reading is the tool \<open>read\<close>.\<close>

lemma tool_request_duplicates:
  "distinct (map fst params) \<Longrightarrow> list_all (\<lambda>(k, v). \<not> dup_json v) params \<Longrightarrow>
   \<not> has_duplicate_keys (json_body (JObj [(''method'', JStr ''tools/call''), (''params'', JObj params)]))"
  using scan_document [of "JObj [(''method'', JStr ''tools/call''), (''params'', JObj params)]" "[]"
      "scan_fuel (tokens_of (JObj [(''method'', JStr ''tools/call''), (''params'', JObj params)]))"]
  by (auto simp: has_duplicate_keys_def json_body_def scan_fuel_def list_all_iff list_ex_iff simp del: tokens_of.simps scan_value.simps)

lemma files_calls:
  assumes "distinct (map fst params)" and "list_all (\<lambda>(k, v). \<not> dup_json v) params"
    and "decode_string_field ''name'' [] params = Some ''read''"
  shows "calls_tool (tool_request params) ''read''"
    and "\<exists>reply ur t. gateway_handle gw_lib files_gateway files_env (tool_request params) sample_db = (reply, Some ur, t) \<and>
           ur_body ur = json_body (JObj [(''method'', JStr ''tools/call''), (''params'', JObj params)])"
proof -
  show calls: "calls_tool (tool_request params) ''read''"
    using tool_request_duplicates [OF assms(1,2)] assms(3)
    by (simp add: calls_tool_def tool_request_def json_body_law fold_name_ascii)
  let ?b = "json_body (JObj [(''method'', JStr ''tools/call''), (''params'', JObj params)])"
  have "gateway_dispatch gw_lib files_gateway files_env (tool_request params) files_upstream gw_claims sample_db =
      gateway_tool_call gw_lib files_gateway files_env (tool_request params) files_upstream gw_claims ?b ''read'' sample_db"
    using dispatch_tool_call [OF calls, of gw_lib files_gateway files_env files_upstream gw_claims sample_db]
    by (auto simp: tool_request_def)
  moreover obtain ur where "gc_sent (gateway_tool_call gw_lib files_gateway files_env (tool_request params) files_upstream
      gw_claims ?b ''read'' sample_db) = Some ur" using tool_call_sent_iff files_forward by blast
  moreover from tool_call_sent [OF this] have "ur_body ur = ?b" by simp
  moreover have "find_upstream files_gateway ''files'' = Some files_upstream" "up_inbound_audience files_upstream = ''files''"
    "rc_jti gw_claims = ''j1''" "gateway_bearer ''Bearer tok'' = ''tok''" "ge_now files_env = 0" "ge_store_up files_env"
    "gq_slug (tool_request params) = ''files''" "gq_authorization (tool_request params) = ''Bearer tok''"
    by (simp_all add: find_upstream_def files_gateway_eq files_upstream_def gw_claims_def gateway_bearer_def files_env_def tool_request_def)
  ultimately show "\<exists>reply ur t. gateway_handle gw_lib files_gateway files_env (tool_request params) sample_db = (reply, Some ur, t) \<and>
      ur_body ur = ?b"
    using gw_verified gw_active by (simp add: gateway_handle_def finish_call_def Let_def)
qed

text \<open>
  keys that differ in case alone get past the gate. There is a call without any repeated key that the
  gateway authorizes as the tool \<open>read\<close> and forwards byte for byte, while a parser that compares keys exactly
  reads the tool \<open>write\<close>, which the token does not authorize.
\<close>

theorem case_variant_smuggles_tool:
  "\<exists>params reply ur t v. gateway_handle gw_lib files_gateway files_env (tool_request params) sample_db = (reply, Some ur, t) \<and>
     bd_doc (ur_body ur) = Some v \<and> \<not> has_duplicate_keys (ur_body ur) \<and> exact_tool v = Some ''write'' \<and>
     authorize utc_only 0 gw_claims (tool_action ''pay'' ''write'') \<noteq> None"
proof -
  let ?ps = "[(''name'', JStr ''write''), (''Name'', JStr ''read'')]"
  let ?v = "JObj [(''method'', JStr ''tools/call''), (''params'', JObj ?ps)]"
  have d: "distinct (map fst ?ps)" "list_all (\<lambda>(k, v). \<not> dup_json v) ?ps" by simp_all
  have "decode_string_field ''name'' [] ?ps = Some ''read''" by (simp add: fold_name_def ascii_lower_def)
  from files_calls(2) [OF d this] obtain reply ur t where
    "gateway_handle gw_lib files_gateway files_env (tool_request ?ps) sample_db = (reply, Some ur, t)"
    "ur_body ur = json_body ?v" by blast
  moreover have "exact_tool ?v = Some ''write''" by (simp add: exact_tool_def)
  ultimately show ?thesis
    using tool_request_duplicates [OF d] gw_authorized(2) json_body_law(2) [of ?v] by metis
qed

theorem tool_names_agree_witness:
  "exact_tool (JObj [(''params'', JObj [(''name'', JStr ''read'')]), (''method'', JStr ''tools/call'')]) = Some ''read''"
  by (rule tool_names_agree [where mthd = "''tools/call''"])
     (simp_all add: exact_request_def exact_keys_def fold_name_ascii)

text \<open>The static configuration and the trust root never change.\<close>

definition configured :: "upstream list \<Rightarrow> string \<Rightarrow> ('k, 'p) gateway \<Rightarrow> bool" where
  "configured ups iss g \<longleftrightarrow> gw_static g = ups \<and> gw_issuer g = iss"

interpretation gateway_config: one_way gateway_step "configured ups iss" for ups iss
proof
  fix g g' :: "('k, 'p) gateway"
  show "gateway_step g g' \<Longrightarrow> configured ups iss g \<Longrightarrow> configured ups iss g'"
    by (induction rule: gateway_step.induct)
       (auto simp: configured_def refresh_upstreams_def refresh_revoked_def and_then_eq_Inr_iff split: option.splits)
qed

lemma configured_frame: "configured ups iss (fold apply_option opts g) = configured ups iss g"
proof -
  have "configured ups iss (apply_option opt g) = configured ups iss g" for opt and g :: "('k, 'p) gateway"
    by (cases opt) (simp_all add: configured_def)
  note opt = this
  show ?thesis by (induction opts arbitrary: g) (simp_all add: opt)
qed

lemma new_gateway_configured:
  assumes "new_gateway iss kid key keys ups opts = Inr g"
  shows "configured ups iss g"
proof -
  obtain m where "build_upstream_map ups = Inr m" using assms by (auto simp: new_gateway_def and_then_eq_Inr_iff)
  let ?g = "\<lparr>gw_issuer = iss, gw_kid = kid, gw_key = key, gw_verifier_keys = keys, gw_upstreams = m,
              gw_static = ups, gw_downstream_ttl = 60 * nanos, gw_max_body = 1048576, gw_rev_refresh = 0,
              gw_revoked = None\<rparr>"
  have frame: "configured ups iss (g\<lparr>gw_revoked := x\<rparr>) = configured ups iss g" for x and g :: "('k, 'p) gateway"
    by (simp add: configured_def)
  have "configured ups iss (fold apply_option opts ?g)" by (simp only: configured_frame) (simp add: configured_def)
  then show ?thesis
    using assms \<open>build_upstream_map ups = Inr m\<close> by (auto simp: new_gateway_def Let_def frame split: if_splits)
qed

text \<open>
  upstreams stay isolated. However often a gateway refreshes its upstreams and its revocation set,
  whatever the registry answers: the upstreams of the static configuration keep their slugs, no two slugs
  accept the same audience, and a token is accepted at two slugs only if it names both their audiences.
\<close>

theorem upstreams_stay_isolated:
  assumes "new_gateway iss kid key keys ups opts = Inr g0" and "gateway_step\<^sup>*\<^sup>* g0 g" and "iss \<noteq> []" and "jwt_laws lib"
    and "find_upstream g j = Some u" and "find_upstream g k = Some v" and "j \<noteq> k"
    and "verify lib (gateway_verifier g) now tok (up_inbound_audience u) = Inr c"
    and "verify lib (gateway_verifier g) now tok (up_inbound_audience v) = Inr d"
  shows "d = c \<and> up_inbound_audience u \<noteq> up_inbound_audience v \<and>
    {up_inbound_audience u, up_inbound_audience v} \<subseteq> set (rc_aud c) \<and>
    (\<exists>m. build_upstream_map ups = Inr m \<and> (\<forall>i w. map_of m i = Some w \<longrightarrow> find_upstream g i = Some w))"
proof -
  have iso: "gateway_isolated g" by (rule gateway_isolation.steps_keep [OF assms(2) new_gateway_isolated [OF assms(1)]])
  have conf: "configured ups iss g" by (rule gateway_config.steps_keep [OF assms(2) new_gateway_configured [OF assms(1)]])
  from iso assms(5-7) have aud: "up_inbound_audience u \<noteq> []" "up_inbound_audience v \<noteq> []"
    "up_inbound_audience u \<noteq> up_inbound_audience v"
    by (auto simp: gateway_isolated_def isolated_def find_upstream_def)
  from conf assms(3) have "vf_issuer (gateway_verifier g) \<noteq> []" by (simp add: configured_def gateway_verifier_def)
  then have "d = c \<and> {up_inbound_audience u, up_inbound_audience v} \<subseteq> set (rc_aud c)"
    using assms(4,8,9) aud by (auto simp: verify_iff claims_current_def)
  with aud(3) iso conf show ?thesis by (auto simp: gateway_isolated_def configured_def)
qed

definition both_claims :: claims where
  "both_claims = gw_claims\<lparr>rc_aud := [''files'', ''mail'']\<rparr>"

theorem upstreams_stay_isolated_witness:
  "\<exists>g m. refresh_upstreams (Some [mail_upstream, files_upstream\<lparr>up_slug := ''x''\<rparr>]) files_gateway = Inr g \<and>
     map fst (gw_upstreams g) = [''files'', ''mail''] \<and> build_upstream_map [files_upstream] = Inr m"
proof -
  let ?g = "files_gateway\<lparr>gw_upstreams := [(''files'', files_upstream), (''mail'', mail_upstream)]\<rparr>"
  let ?lib = "table_lib ''k1'' [(''both'', both_claims)]"
  have new: "new_gateway ''https://legant'' ''k1'' () [''k1'' \<mapsto> ()] [files_upstream] [] = Inr files_gateway"
    by (simp add: files_gateway_def new_gateway_def build_upstream_map_def files_upstream_def)
  have run: "refresh_upstreams (Some [mail_upstream, files_upstream\<lparr>up_slug := ''x''\<rparr>]) files_gateway = Inr ?g"
    by (simp add: refresh_upstreams_def files_gateway_eq build_upstream_map_def files_upstream_def mail_upstream_def)
  have steps: "gateway_step\<^sup>*\<^sup>* files_gateway ?g" by (rule r_into_rtranclp, rule gateway_step.upstreams [OF run])
  have "verify ?lib (gateway_verifier ?g) 0 ''both'' aud = Inr both_claims" if "aud \<in> {''files'', ''mail''}" for aud
    using that by (auto simp: verify_def key_func_def gateway_verifier_def files_gateway_eq table_lib_def
        claims_current_def both_claims_def gw_claims_def nanos_def)
  then have ver: "verify ?lib (gateway_verifier ?g) 0 ''both'' (up_inbound_audience files_upstream) = Inr both_claims"
    "verify ?lib (gateway_verifier ?g) 0 ''both'' (up_inbound_audience mail_upstream) = Inr both_claims"
    by (simp_all add: files_upstream_def mail_upstream_def)
  have "\<exists>m. build_upstream_map [files_upstream] = Inr m"
  proof -
    have "find_upstream ?g ''files'' = Some files_upstream" "find_upstream ?g ''mail'' = Some mail_upstream"
      "''https://legant'' \<noteq> []" "''files'' \<noteq> ''mail''"
      by (simp_all add: find_upstream_def)
    moreover have "jwt_laws ?lib" by (rule table_laws) simp
    ultimately show ?thesis using upstreams_stay_isolated [OF new steps _ _ _ _ _ ver, of "''files''" "''mail''"] by blast
  qed
  with run show ?thesis by auto
qed

theorem gateway_forwards_within_authority_witness:
  "\<exists>reply ur t d. gateway_handle gw_lib files_gateway files_env (tool_request [(''name'', JStr ''read'')]) sample_db = (reply, Some ur, t) \<and>
     jl_claims gw_lib (ur_token ur) = Some d \<and> rc_aud d = [''https://files''] \<and> rc_sub d = ''user:alice''"
proof -
  have "decode_string_field ''name'' [] [(''name'', JStr ''read'')] = Some ''read''" by (simp add: fold_name_ascii)
  with files_calls(2) [of "[(''name'', JStr ''read'')]"] obtain reply ur t where
    run: "gateway_handle gw_lib files_gateway files_env (tool_request [(''name'', JStr ''read'')]) sample_db = (reply, Some ur, t)"
    by auto
  have "gw_issuer files_gateway \<noteq> []" by (simp add: files_gateway_eq)
  from gateway_forwards_within_authority [OF gw_laws this gw_exact run] obtain up c d where
    "find_upstream files_gateway (gq_slug (tool_request [(''name'', JStr ''read'')])) = Some up"
    and v: "verify gw_lib (gateway_verifier files_gateway) (ge_now files_env)
       (gateway_bearer (gq_authorization (tool_request [(''name'', JStr ''read'')]))) (up_inbound_audience up) = Inr c"
    and d: "jl_claims gw_lib (ur_token ur) = Some d" "rc_aud d = [up_resource_id up]" "rc_sub d = rc_sub c"
    by blast
  then have "up = files_upstream" by (simp add: find_upstream_def files_gateway_eq tool_request_def)
  with v gw_verified have "c = gw_claims"
    by (simp add: files_env_def tool_request_def gateway_bearer_def files_upstream_def)
  with d \<open>up = files_upstream\<close> run show ?thesis by (auto simp: files_upstream_def gw_claims_def)
qed

theorem gateway_tool_gate_witness:
  "fst (snd (gateway_handle gw_lib files_gateway files_env (tool_request [(''name'', JStr ''read'')]) sample_db)) \<noteq> None"
proof -
  have "decode_string_field ''name'' [] [(''name'', JStr ''read'')] = Some ''read''" by (simp add: fold_name_ascii)
  with files_calls(1) [of "[(''name'', JStr ''read'')]"] have
    calls: "calls_tool (tool_request [(''name'', JStr ''read'')]) ''read''" by simp
  obtain reply sent t where
    run: "gateway_handle gw_lib files_gateway files_env (tool_request [(''name'', JStr ''read'')]) sample_db = (reply, sent, t)"
    by (cases "gateway_handle gw_lib files_gateway files_env (tool_request [(''name'', JStr ''read'')]) sample_db") auto
  have "sent \<noteq> None"
    unfolding gateway_tool_gate [OF calls run, THEN conjunct1]
    by (rule exI [of _ files_upstream], rule exI [of _ gw_claims], rule exI [of _ "''pay''"], rule exI [of _ "''down''"])
       (use files_forward gw_verified gw_active in \<open>simp add: find_upstream_def files_gateway_eq tool_request_def gateway_bearer_def
         files_env_def files_upstream_def gw_claims_def\<close>)
  with run show ?thesis by simp
qed

text \<open>An upstream that offers three tools, one of them unmapped.\<close>

definition tools_body :: body where
  "tools_body = json_body (JObj [(''id'', JNum ''1''), (''result'', JObj [(''tools'',
     JArr (map (\<lambda>n. JObj [(''name'', JStr n)]) [''write'', ''read'', ''drop'']))])])"

theorem tools_list_filtered_witness:
  "\<exists>w. filter_tools_list utc_only 0 tools_body files_upstream gw_claims = Some (Rewritten w) \<and>
     doc_tools w = Some [JObj [(''name'', JStr ''read'')]]"
proof -
  have doc: "bd_doc tools_body = Some (JObj [(''id'', JNum ''1''), (''result'', JObj [(''tools'',
     JArr (map (\<lambda>n. JObj [(''name'', JStr n)]) [''write'', ''read'', ''drop'']))])])"
    by (simp add: tools_body_def json_body_law)
  obtain w where w: "filter_tools_list utc_only 0 tools_body files_upstream gw_claims = Some (Rewritten w)"
    by (simp add: filter_tools_list_def doc)
  have "tool_listed utc_only 0 files_upstream gw_claims (JObj [(''name'', JStr n)]) = (n = ''read'')"
    if "n \<in> {''write'', ''read'', ''drop''}" for n
    using that gw_authorized by (auto simp: tool_listed_def fold_name_ascii files_upstream_def)
  moreover have "doc_tools (the (bd_doc tools_body)) = Some (map (\<lambda>n. JObj [(''name'', JStr n)]) [''write'', ''read'', ''drop''])"
    by (simp add: doc doc_tools_def)
  ultimately have "doc_tools w = Some [JObj [(''name'', JStr ''read'')]]"
    using tools_list_filtered [OF doc w] by (simp add: doc)
  with w show ?thesis by blast
qed

theorem revocation_modes_agree_witness:
  "token_active (the (refresh_revoked 5 (Some sample_db) files_gateway)) True 5 sample_db ''j1'' =
   token_active files_gateway True 5 sample_db ''j1''"
proof -
  have direct: "gw_revoked files_gateway = None" by (simp add: files_gateway_eq)
  obtain feed where feed: "refresh_revoked 5 (Some sample_db) files_gateway = Some feed" by (simp add: refresh_revoked_def)
  have "distinct (map tr_jti (db_tokens sample_db))" by (simp add: sample_db_def sample_record_def empty_db_def record_tx_def)
  from revocation_modes_agree [OF direct feed this, of True] feed show ?thesis
    by (simp add: sample_db_def sample_record_def empty_db_def record_tx_def)
qed

end
