(* ===== verification/Sdk.thy ===== *)
theory Sdk
  imports Tokens Resources
begin

text \<open>
  The resource server's library (\<open>sdk/verifier.go\<close>, \<open>sdk/revocation.go\<close>, \<open>sdk/middleware.go\<close>): offline
  verification and authorization of delegation tokens, the signed revocation feed it pulls, and the HTTP
  middleware. It repeats types of \<open>internal/delegation\<close> field by field (\<open>Claims\<close>, \<open>Actor\<close>,
  \<open>Constraints\<close>, \<open>TimeWindow\<close>, \<open>Action\<close>), so the model uses the records of theories \<open>Delegation\<close> and
  \<open>Tokens\<close> for both. The lemmas relate its decision to the issuer's own (\<open>Authorize\<close> of theory
  \<open>Tokens\<close>), and give the feed's guarantees over any sequence of refreshes.

  HTTP itself is not modelled: a refresh gets the outcome of its request. The clock is an argument.
\<close>

section \<open>The revocation feed\<close>

record feed_claims = registered +
  fc_version :: int
  fc_jtis :: "string list"

type_synonym ('k, 'p) feed_jwt = "('k, 'p, \<lparr>fc_version :: int, fc_jtis :: string list\<rparr>) jwt_lib"

record 'p revocation_feed =
  rf_issuer :: string
  rf_keys :: "string \<rightharpoonup> 'p"
  rf_revoked :: "string set"
  rf_version :: int
  rf_fetched_at :: instant

datatype feed_error =
    FeedRequest
  | FeedStatus int
  | FeedRead
  | FeedVerify jwt_error
  | FeedRegressed int int

text \<open>\<open>RevocationFeed.apply\<close>: an error leaves the feed as it was.\<close>

definition feed_apply ::
    "('k, 'p) feed_jwt \<Rightarrow> instant \<Rightarrow> string \<Rightarrow> 'p revocation_feed \<Rightarrow> feed_error option \<times> 'p revocation_feed" where
  "feed_apply lib now body f =
     (case jl_parse lib (key_func (rf_keys f)) (rf_issuer f) None now body of
        Inl e \<Rightarrow> (Some (FeedVerify e), f)
      | Inr c \<Rightarrow>
          if fc_version c < rf_version f then (Some (FeedRegressed (fc_version c) (rf_version f)), f)
          else (None, f\<lparr>rf_revoked := set (fc_jtis c), rf_version := fc_version c, rf_fetched_at := now\<rparr>))"

text \<open>
  The HTTP exchange of \<open>Refresh\<close>: building or doing the request fails, or there is a response whose
  body, cut off at 8 MiB by \<open>io.LimitReader\<close>, can be read or not.
\<close>

datatype exchange = RequestFails | Response int "string option"

definition feed_refresh ::
    "('k, 'p) feed_jwt \<Rightarrow> instant \<times> exchange \<Rightarrow> 'p revocation_feed \<Rightarrow> feed_error option \<times> 'p revocation_feed" where
  "feed_refresh lib r f =
     (case r of
        (_, RequestFails) \<Rightarrow> (Some FeedRequest, f)
      | (now, Response status body) \<Rightarrow>
          if status \<noteq> 200 then (Some (FeedStatus status), f)
          else (case body of
                  None \<Rightarrow> (Some FeedRead, f)
                | Some b \<Rightarrow> feed_apply lib now (take 8388608 b) f))"

definition empty_feed :: "string \<Rightarrow> (string \<rightharpoonup> 'p) \<Rightarrow> 'p revocation_feed" where
  "empty_feed iss keys = \<lparr>rf_issuer = iss, rf_keys = keys, rf_revoked = {}, rf_version = 0,
     rf_fetched_at = zero_time\<rparr>"

definition fetch_revocation_feed ::
    "('k, 'p) feed_jwt \<Rightarrow> string \<Rightarrow> (string \<rightharpoonup> 'p) \<Rightarrow> instant \<times> exchange \<Rightarrow> feed_error + 'p revocation_feed" where
  "fetch_revocation_feed lib iss keys r =
     (case feed_refresh lib r (empty_feed iss keys) of (Some e, _) \<Rightarrow> Inl e | (None, f) \<Rightarrow> Inr f)"

definition parse_revocation_feed ::
    "('k, 'p) feed_jwt \<Rightarrow> string \<Rightarrow> (string \<rightharpoonup> 'p) \<Rightarrow> instant \<Rightarrow> string \<Rightarrow> feed_error + 'p revocation_feed" where
  "parse_revocation_feed lib iss keys now body =
     (case feed_apply lib now body (empty_feed iss keys) of (Some e, _) \<Rightarrow> Inl e | (None, f) \<Rightarrow> Inr f)"

definition feed_is_revoked :: "'p revocation_feed \<Rightarrow> string \<Rightarrow> bool" where
  "feed_is_revoked f jti \<longleftrightarrow> jti \<in> rf_revoked f"

definition staleness :: "'p revocation_feed \<Rightarrow> instant \<Rightarrow> duration" where
  "staleness f now = now - rf_fetched_at f"

text \<open>\<open>StartPolling\<close>: the exchanges its ticks make, with the errors handed to \<open>onError\<close>.\<close>

fun poll :: "('k, 'p) feed_jwt \<Rightarrow> (instant \<times> exchange) list \<Rightarrow> 'p revocation_feed
               \<Rightarrow> feed_error list \<times> 'p revocation_feed" where
  "poll lib [] f = ([], f)"
| "poll lib (r # rs) f =
     (let (e, f') = feed_refresh lib r f; (es, f'') = poll lib rs f'
      in ((case e of None \<Rightarrow> es | Some x \<Rightarrow> x # es), f''))"

section \<open>Verification\<close>

record 'p sdk_verifier =
  sv_issuer :: string
  sv_audience :: string
  sv_keys :: "string \<rightharpoonup> 'p"
  sv_feed :: "'p revocation_feed option"
  sv_fail_closed :: bool
  sv_max_staleness :: duration

datatype sdk_error =
    SdkJwt jwt_error
  | NotDelegation
  | AudienceMismatch "string list" string
  | FeedStale duration
  | TokenRevoked

definition sdk_verify ::
    "('k, 'p) delegation_jwt \<Rightarrow> 'r url_lib \<Rightarrow> 'p sdk_verifier \<Rightarrow> instant \<Rightarrow> string \<Rightarrow> sdk_error + claims" where
  "sdk_verify lib urls v now tok =
     (case jl_parse lib (key_func (sv_keys v)) (sv_issuer v) None now tok of
        Inl e \<Rightarrow> Inl (SdkJwt e)
      | Inr c \<Rightarrow>
          if cl_act c = None then Inl NotDelegation
          else if \<not> audience_matches urls (rc_aud c) (sv_audience v)
          then Inl (AudienceMismatch (rc_aud c) (sv_audience v))
          else (case sv_feed v of
                  None \<Rightarrow> Inr c
                | Some f \<Rightarrow>
                    if sv_fail_closed v \<and> staleness f now > sv_max_staleness v then Inl (FeedStale (staleness f now))
                    else if rc_jti c \<noteq> [] \<and> feed_is_revoked f (rc_jti c) then Inl TokenRevoked
                    else Inr c))"

section \<open>Authorization\<close>

fun canonical_member :: "'r url_lib \<Rightarrow> string \<Rightarrow> string list \<Rightarrow> bool" where
  "canonical_member urls cv [] = False"
| "canonical_member urls cv (a # as) =
     (if canonicalize_audience urls a = cv then True else canonical_member urls cv as)"

datatype sdk_deny =
    SdkMissingScope string
  | SdkAmountExceeds f64 f64
  | SdkFullyRestricted string
  | SdkNotPermitted string string
  | SdkOutsideWindow instant

definition sdk_permit_list ::
    "'r url_lib \<Rightarrow> string \<Rightarrow> string list \<Rightarrow> string \<Rightarrow> bool \<Rightarrow> sdk_deny option" where
  "sdk_permit_list urls dm allowed value canonical =
     (if allowed = [] then None
      else if contains allowed deny_all then Some (SdkFullyRestricted dm)
      else if value = [] then None
      else let mtch = contains allowed value;
               mtch' = (if \<not> mtch \<and> canonical
                        then canonical_member urls (canonicalize_audience urls value) allowed else mtch)
           in if \<not> mtch' then Some (SdkNotPermitted dm value) else None)"

definition sdk_authorize ::
    "'r url_lib \<Rightarrow> tzdb \<Rightarrow> instant \<Rightarrow> claims \<Rightarrow> action \<Rightarrow> sdk_deny option" where
  "sdk_authorize urls tzdb now c a =
     (if \<not> has_scope (cl_scope c) (ac_scope a) then Some (SdkMissingScope (ac_scope a))
      else case cl_constraints c of
        None \<Rightarrow> None
      | Some k \<Rightarrow>
          err_then (case cn_max_amount k of
                      Some m \<Rightarrow> if f64_less m (ac_amount a) then Some (SdkAmountExceeds (ac_amount a) m) else None
                    | None \<Rightarrow> None)
         (err_then (sdk_permit_list urls ''category'' (cn_categories k) (ac_category a) False)
         (err_then (sdk_permit_list urls ''tool'' (cn_tools k) (ac_tool a) False)
         (err_then (sdk_permit_list urls ''resource'' (cn_resources k) (ac_resource a) True)
           (case cn_time_window k of
              None \<Rightarrow> None
            | Some w \<Rightarrow>
                let t = (if ac_at a = zero_time then now else ac_at a)
                in if \<not> allows tzdb w t then Some (SdkOutsideWindow t) else None)))))"

definition sdk_provenance :: "claims \<Rightarrow> string" where
  "sdk_provenance c = join arrow (rc_sub c # rev (act_chain (cl_act c)))"

section \<open>Middleware\<close>

text \<open>
  \<open>strings.EqualFold(h[:7], "Bearer ")\<close>: no letter of the prefix has a folding outside ASCII, so two
  strings of seven bytes are equal under folding when they are after lowering the ASCII letters.
\<close>

datatype bearer_error = MissingHeader | NotBearer

text \<open>\<open>bearer\<close>, on the value \<open>Header.Get("Authorization")\<close>.\<close>

definition bearer :: "string \<Rightarrow> bearer_error + string" where
  "bearer h =
     (if h = [] then Inl MissingHeader
      else if length h \<le> 7 \<or> ascii_lower (take 7 h) \<noteq> ''bearer '' then Inl NotBearer
      else Inr (trim_space (drop 7 h)))"

datatype 'a response =
    Challenge int string
  | Next 'a

definition authenticate ::
    "('k, 'p) delegation_jwt \<Rightarrow> 'r url_lib \<Rightarrow> 'p sdk_verifier \<Rightarrow> instant \<Rightarrow> string \<Rightarrow> claims response" where
  "authenticate lib urls v now h =
     (case bearer h of
        Inl _ \<Rightarrow> Challenge 401 ''invalid_request''
      | Inr tok \<Rightarrow> (case sdk_verify lib urls v now tok of
                      Inl _ \<Rightarrow> Challenge 401 ''invalid_token''
                    | Inr c \<Rightarrow> Next c))"

text \<open>\<open>RequireAction\<close>, on the claims the context holds, if it holds any.\<close>

definition require_action ::
    "'r url_lib \<Rightarrow> tzdb \<Rightarrow> instant \<Rightarrow> claims option \<Rightarrow> action \<Rightarrow> claims response" where
  "require_action urls tzdb now ctx a =
     (case ctx of
        None \<Rightarrow> Challenge 401 ''invalid_token''
      | Some c \<Rightarrow> (case sdk_authorize urls tzdb now c a of
                     Some _ \<Rightarrow> Challenge 403 ''insufficient_scope''
                   | None \<Rightarrow> Next c))"

definition require_scope ::
    "'r url_lib \<Rightarrow> tzdb \<Rightarrow> instant \<Rightarrow> claims option \<Rightarrow> string \<Rightarrow> claims response" where
  "require_scope urls tzdb now ctx scope =
     require_action urls tzdb now ctx \<lparr>ac_scope = scope, ac_amount = Fin 0, ac_category = [], ac_tool = [],
       ac_resource = [], ac_at = zero_time\<rparr>"

text \<open>The handler mounted behind \<open>Authenticate\<close> and \<open>RequireAction\<close>, as the documentation mounts it.\<close>

definition protected_handler ::
    "('k, 'p) delegation_jwt \<Rightarrow> 'r url_lib \<Rightarrow> tzdb \<Rightarrow> 'p sdk_verifier \<Rightarrow> instant \<Rightarrow> string \<Rightarrow> action \<Rightarrow> claims response" where
  "protected_handler lib urls tzdb v now h a =
     (case authenticate lib urls v now h of
        Challenge s e \<Rightarrow> Challenge s e
      | Next c \<Rightarrow> require_action urls tzdb now (Some c) a)"

datatype mcp_error = NotJsonRpc | NotToolsCall string | MissingName

text \<open>\<open>MCPToolName\<close>, on the \<open>method\<close> and \<open>params.name\<close> of the decoded body.\<close>

definition mcp_tool_name :: "(string \<times> string) option \<Rightarrow> mcp_error + string" where
  "mcp_tool_name body =
     (case body of
        None \<Rightarrow> Inl NotJsonRpc
      | Some (mthd, name) \<Rightarrow>
          if mthd \<noteq> ''tools/call'' then Inl (NotToolsCall mthd)
          else if name = [] then Inl MissingName
          else Inr name)"

section \<open>Lemmas\<close>

lemma canonical_member_iff:
  "canonical_member urls cv as \<longleftrightarrow> (\<exists>a \<in> set as. canonicalize_audience urls a = cv)"
  by (induction as) auto

lemma sdk_permit_list_exact:
  "sdk_permit_list urls dm xs v False = None \<longleftrightarrow> permit_list dm xs v = None"
  by (auto simp: sdk_permit_list_def permit_list_def Let_def)

lemma sdk_permit_list_canonical:
  assumes "url_laws urls"
  shows "sdk_permit_list urls dm xs v True = None \<longleftrightarrow>
         (\<exists>r. canonicalize_audience urls r = canonicalize_audience urls v \<and> permit_list dm xs r = None)"
    (is "_ \<longleftrightarrow> ?R")
proof (cases "xs = [] \<or> deny_all \<in> set xs \<or> v = []")
  case True
  then show ?thesis
    using canonicalize_audience_empty_iff [OF assms]
    by (auto simp: sdk_permit_list_def permit_list_def)
next
  case False
  then have "sdk_permit_list urls dm xs v True = None \<longleftrightarrow>
      (\<exists>a \<in> set xs. canonicalize_audience urls a = canonicalize_audience urls v)"
    by (auto simp: sdk_permit_list_def canonical_member_iff Let_def)
  moreover have "r \<noteq> []" if "canonicalize_audience urls r = canonicalize_audience urls v" for r
    using that False canonicalize_audience_empty_iff [OF assms] by metis
  then have "?R \<longleftrightarrow> (\<exists>a \<in> set xs. canonicalize_audience urls a = canonicalize_audience urls v)"
    using False by (auto simp: permit_list_None_iff)
  ultimately show ?thesis by simp
qed

lemma sdk_authorize_None_iff:
  "sdk_authorize urls tzdb now c a = None \<longleftrightarrow>
     ac_scope a \<in> set (go_fields (cl_scope c)) \<and>
     (\<forall>k. cl_constraints c = Some k \<longrightarrow>
        amount_ok (cn_max_amount k) (ac_amount a)
      \<and> permit_list ''category'' (cn_categories k) (ac_category a) = None
      \<and> permit_list ''tool'' (cn_tools k) (ac_tool a) = None
      \<and> sdk_permit_list urls ''resource'' (cn_resources k) (ac_resource a) True = None
      \<and> window_ok tzdb now (cn_time_window k) (ac_at a))"
  by (auto simp: sdk_authorize_def has_scope_def sdk_permit_list_exact amount_ok_def window_ok_def Let_def
      split: option.splits if_splits)

lemma sdk_authorize_iff_authorize:
  assumes "url_laws urls"
  shows "sdk_authorize urls tzdb now c a = None \<longleftrightarrow>
         (\<exists>r. canonicalize_audience urls r = canonicalize_audience urls (ac_resource a) \<and>
              authorize tzdb now c (a\<lparr>ac_resource := r\<rparr>) = None)"
proof (cases "cl_constraints c")
  case None
  then show ?thesis by (auto simp: sdk_authorize_None_iff authorize_None_iff)
next
  case (Some k)
  then show ?thesis
    by (auto simp: sdk_authorize_None_iff authorize_None_iff permit_None_iff sdk_permit_list_canonical [OF assms])
qed

lemma sdk_verify_iff:
  "jwt_laws lib \<Longrightarrow> sv_issuer v \<noteq> [] \<Longrightarrow>
   sdk_verify lib urls v now tok = Inr c \<longleftrightarrow>
     (\<exists>p. jl_kid lib tok \<noteq> [] \<and> sv_keys v (jl_kid lib tok) = Some p \<and> jl_sig lib p tok) \<and>
     jl_claims lib tok = Some c \<and> claims_current (sv_issuer v) None now c \<and>
     cl_act c \<noteq> None \<and> audience_matches urls (rc_aud c) (sv_audience v) \<and>
     (\<forall>f. sv_feed v = Some f \<longrightarrow>
        (sv_fail_closed v \<longrightarrow> staleness f now \<le> sv_max_staleness v) \<and>
        (rc_jti c = [] \<or> \<not> feed_is_revoked f (rc_jti c)))"
  using jwt_parse_iff [of lib "sv_issuer v" None "key_func (sv_keys v)" now tok c]
  by (auto simp: sdk_verify_def accepts_key_func not_less split: sum.splits option.splits if_splits)

lemma protected_handler_Next_iff:
  "protected_handler lib urls tzdb v now h a = Next c \<longleftrightarrow>
     (\<exists>tok. bearer h = Inr tok \<and> sdk_verify lib urls v now tok = Inr c) \<and>
     sdk_authorize urls tzdb now c a = None"
  by (auto simp: protected_handler_def authenticate_def require_action_def
      split: sum.splits option.splits response.splits)

text \<open>What an accepted refresh is.\<close>

definition accepted_feed ::
    "('k, 'p) feed_jwt \<Rightarrow> 'p revocation_feed \<Rightarrow> instant \<Rightarrow> string \<Rightarrow> feed_claims \<Rightarrow> bool" where
  "accepted_feed lib f now body c \<longleftrightarrow>
     jl_parse lib (key_func (rf_keys f)) (rf_issuer f) None now body = Inr c"

lemma feed_refresh_outcomes:
  assumes "feed_refresh lib r f = (e, f')"
  shows "(e \<noteq> None \<and> f' = f) \<or>
         (\<exists>now b c. r = (now, Response 200 (Some b)) \<and> accepted_feed lib f now (take 8388608 b) c \<and>
            rf_version f \<le> fc_version c \<and> e = None \<and>
            f' = f\<lparr>rf_revoked := set (fc_jtis c), rf_version := fc_version c, rf_fetched_at := now\<rparr>)"
  using assms
  by (auto simp: feed_refresh_def feed_apply_def accepted_feed_def
      split: prod.splits exchange.splits if_splits option.splits sum.splits)

lemma poll_Cons:
  assumes "poll lib (r # rs) f = (es, f')"
  obtains e g es' where "feed_refresh lib r f = (e, g)" and "poll lib rs g = (es', f')"
    and "es = (case e of None \<Rightarrow> es' | Some x \<Rightarrow> x # es')"
  using assms by (auto split: prod.splits)

lemma poll_outcome:
  "poll lib rs f = (es, f') \<Longrightarrow>
   rf_version f \<le> rf_version f' \<and> rf_keys f' = rf_keys f \<and> rf_issuer f' = rf_issuer f \<and>
   (length es = length rs \<and> f' = f \<or>
    (\<exists>now b c. (now, Response 200 (Some b)) \<in> set rs \<and> accepted_feed lib f now (take 8388608 b) c \<and>
       rf_revoked f' = set (fc_jtis c) \<and> rf_version f' = fc_version c \<and> rf_fetched_at f' = now))"
proof (induction rs arbitrary: f es)
  case (Cons r rs)
  from poll_Cons [OF Cons.prems] obtain e g es' where
    *: "feed_refresh lib r f = (e, g)" "poll lib rs g = (es', f')"
    "es = (case e of None \<Rightarrow> es' | Some x \<Rightarrow> x # es')" by blast
  from feed_refresh_outcomes [OF *(1)] Cons.IH [OF *(2)] *(3) show ?case
    by (elim disjE) (fastforce simp: accepted_feed_def)+
qed simp

lemma sample_authorized:
  "authorize utc_only 0 sample_claims (sample_action\<lparr>ac_resource := ac_resource sample_action\<rparr>) = None"
  using sample_permits by (simp add: authorize_None_iff sample_claims_def sample_action_def go_fields_def
        space_len_def ascii_spaces_def wide_spaces_def has_prefix_def)

lemma sample_sdk_authorize: "sdk_authorize two_url_lib utc_only 0 sample_claims sample_action = None"
  using sample_authorized sdk_authorize_iff_authorize [OF two_url_laws] by blast

section \<open>Properties\<close>

text \<open>
  the resource server decides what the issuer would decide. The library's \<open>Authorize\<close> accepts an
  action exactly when the issuer's \<open>Authorize\<close> accepts it with the resource written in some spelling
  that has the same canonical form; scopes, amounts, categories, tools and time windows are decided
  alike.
\<close>

theorem sdk_authorize_agrees:
  assumes "url_laws urls"
  shows "sdk_authorize urls tzdb now c a = None \<longleftrightarrow>
         (\<exists>r. canonicalize_audience urls r = canonicalize_audience urls (ac_resource a) \<and>
              authorize tzdb now c (a\<lparr>ac_resource := r\<rparr>) = None)"
  using assms by (rule sdk_authorize_iff_authorize)

theorem sdk_authorize_agrees_witness:
  "sdk_authorize two_url_lib utc_only 0 sample_claims sample_action = None"
  using sdk_authorize_agrees [OF two_url_laws] sample_authorized by blast

text \<open>
  C15: a request reaches a protected handler only with authority that is still good: its bearer token is
  signed under a key the server holds, from the issuer, unexpired, carries an actor chain, names the
  server's audience in some spelling, is not listed in the revocation feed, the feed is fresh when the
  server asked for that, and the action is authorized. And these conditions are enough.
\<close>

theorem protected_handler_sound:
  assumes "jwt_laws lib" and "sv_issuer v \<noteq> []"
  shows "protected_handler lib urls tzdb v now h a = Next c \<longleftrightarrow>
    (\<exists>tok p. bearer h = Inr tok \<and> jl_kid lib tok \<noteq> [] \<and> sv_keys v (jl_kid lib tok) = Some p \<and> jl_sig lib p tok \<and>
       jl_claims lib tok = Some c) \<and> claims_current (sv_issuer v) None now c \<and>
    cl_act c \<noteq> None \<and> audience_matches urls (rc_aud c) (sv_audience v) \<and>
    (\<forall>f. sv_feed v = Some f \<longrightarrow> (sv_fail_closed v \<longrightarrow> staleness f now \<le> sv_max_staleness v) \<and>
       (rc_jti c = [] \<or> \<not> feed_is_revoked f (rc_jti c))) \<and>
    sdk_authorize urls tzdb now c a = None"
  by (auto simp: protected_handler_Next_iff sdk_verify_iff [OF assms])

definition sample_sdk :: "unit sdk_verifier" where
  "sample_sdk = \<lparr>sv_issuer = ''https://legant'', sv_audience = ''api'', sv_keys = [''k1'' \<mapsto> ()],
     sv_feed = Some ((empty_feed ''https://legant'' [''k1'' \<mapsto> ()])\<lparr>rf_revoked := {''j9''}\<rparr>),
     sv_fail_closed = False, sv_max_staleness = 0\<rparr>"

theorem protected_handler_sound_witness:
  "protected_handler sample_lib two_url_lib utc_only sample_sdk 0 ''Bearer tok'' sample_action = Next sample_claims"
proof (subst protected_handler_sound [OF sample_laws])
  show "sv_issuer sample_sdk \<noteq> []" by (simp add: sample_sdk_def)
  have "sdk_authorize two_url_lib utc_only 0 sample_claims sample_action = None"
    by (rule sample_sdk_authorize)
  moreover have "bearer ''Bearer tok'' = Inr ''tok''"
    by (simp add: bearer_def ascii_lower_def trim_space_def space_len_def ascii_spaces_def wide_spaces_def
        has_prefix_def)
  ultimately show "(\<exists>tok p. bearer ''Bearer tok'' = Inr tok \<and> jl_kid sample_lib tok \<noteq> [] \<and>
       sv_keys sample_sdk (jl_kid sample_lib tok) = Some p \<and> jl_sig sample_lib p tok \<and>
       jl_claims sample_lib tok = Some sample_claims) \<and>
    claims_current (sv_issuer sample_sdk) None 0 sample_claims \<and>
    cl_act sample_claims \<noteq> None \<and> audience_matches two_url_lib (rc_aud sample_claims) (sv_audience sample_sdk) \<and>
    (\<forall>f. sv_feed sample_sdk = Some f \<longrightarrow> (sv_fail_closed sample_sdk \<longrightarrow> staleness f 0 \<le> sv_max_staleness sample_sdk) \<and>
       (rc_jti sample_claims = [] \<or> \<not> feed_is_revoked f (rc_jti sample_claims))) \<and>
    sdk_authorize two_url_lib utc_only 0 sample_claims sample_action = None"
    by (simp add: sample_sdk_def sample_lib_def one_token_lib_def claims_current_def sample_claims_def
        nanos_def feed_is_revoked_def)
qed

text \<open>
  the feed never goes back. Over any sequence of polls, whatever the network returns, the feed's
  version does not decrease, its trust root does not change, and its revoked set and time stamp are
  those of the last document that verified under the issuer's keys (or unchanged, when every poll
  failed, each with an error).
\<close>

theorem feed_never_rolls_back:
  assumes "poll lib rs f = (es, f')"
  shows "rf_version f \<le> rf_version f' \<and> rf_keys f' = rf_keys f \<and> rf_issuer f' = rf_issuer f \<and>
   (length es = length rs \<and> f' = f \<or>
    (\<exists>now b c. (now, Response 200 (Some b)) \<in> set rs \<and>
       jl_parse lib (key_func (rf_keys f)) (rf_issuer f) None now (take 8388608 b) = Inr c \<and>
       rf_revoked f' = set (fc_jtis c) \<and> rf_version f' = fc_version c \<and> rf_fetched_at f' = now))"
  using poll_outcome [OF assms] by (simp add: accepted_feed_def)

definition sample_feed :: feed_claims where
  "sample_feed = \<lparr>rc_iss = ''https://legant'', rc_sub = [], rc_aud = [], rc_exp = Some 100, rc_nbf = None,
     rc_iat = Some 0, rc_jti = [], fc_version = 3, fc_jtis = [''j1'']\<rparr>"

theorem feed_never_rolls_back_witness:
  "rf_version (snd (poll (one_token_lib ''k1'' sample_feed ''feed'')
     [(0, RequestFails), (5, Response 200 (Some ''feed'')), (7, Response 503 None)]
     (empty_feed ''https://legant'' [''k1'' \<mapsto> ()]))) = 3"
proof -
  let ?rs = "[(0, RequestFails), (5, Response 200 (Some ''feed'')), (7, Response 503 None)]"
  let ?f = "empty_feed ''https://legant'' [''k1'' \<mapsto> ()]"
  let ?g = "?f\<lparr>rf_revoked := {''j1''}, rf_version := 3, rf_fetched_at := 5\<rparr>"
  have run: "poll (one_token_lib ''k1'' sample_feed ''feed'') ?rs ?f = ([FeedRequest, FeedStatus 503], ?g)"
    by (simp add: feed_refresh_def feed_apply_def one_token_lib_def key_func_def empty_feed_def
        claims_current_def sample_feed_def)
  have "rf_version ?f \<le> rf_version ?g" using feed_never_rolls_back [OF run] by simp
  then show ?thesis by (simp only: run snd_conv) simp
qed

end
