(* ===== verification/RevocationFeed.thy ===== *)
theory RevocationFeed
  imports Sdk Store
begin

text \<open>
  The issuer's side of the revocation feed (\<open>internal/revocation/feed.go\<close>) and the whole way of a
  revocation: from the table of tokens through the signed document and the network to the resource
  server's set (theory \<open>Sdk\<close>).

  Building a document is two statements on the database, the query and \<open>nextval\<close>, and other clients of the
  database run between them; so \<open>feed_build\<close> gets the table as the query saw it and the state in which
  \<open>nextval\<close> runs. The mutex of \<open>Snapshot\<close> lets an issuer process build one document at a time; there may be several processes.
\<close>

section \<open>Building and serving\<close>

record 'k feed_server =
  fs_issuer :: string
  fs_kid :: string
  fs_key :: 'k
  fs_ttl :: duration
  fs_cache_for :: duration
  fs_cached :: "string option"
  fs_built_at :: instant

definition new_feed :: "string \<Rightarrow> 'k \<Rightarrow> string \<Rightarrow> 'k feed_server" where
  "new_feed kid key iss = \<lparr>fs_issuer = iss, fs_kid = kid, fs_key = key, fs_ttl = 60 * nanos,
     fs_cache_for = 5 * nanos, fs_cached = None, fs_built_at = zero_time\<rparr>"

text \<open>The query of \<open>build\<close>, in the byte order of the ids.\<close>

definition feed_rows :: "instant \<Rightarrow> db \<Rightarrow> string list" where
  "feed_rows now s = sort (map tr_jti (filter (\<lambda>r. tr_revoked_at r \<noteq> None \<and> tr_expires_at r > now) (db_tokens s)))"

definition next_version :: "db \<Rightarrow> int \<times> db" where
  "next_version s = (db_feed_version s + 1, s\<lparr>db_feed_version := db_feed_version s + 1\<rparr>)"

definition feed_document ::
    "('k, 'p) feed_jwt \<Rightarrow> 'k feed_server \<Rightarrow> instant \<Rightarrow> int \<Rightarrow> string list \<Rightarrow> feed_claims" where
  "feed_document lib fs now version jtis =
     \<lparr>rc_iss = fs_issuer fs, rc_sub = [], rc_aud = [], rc_exp = Some (jl_numeric_date lib (now + fs_ttl fs)),
      rc_nbf = None, rc_iat = Some (jl_numeric_date lib now), rc_jti = [], fc_version = version, fc_jtis = jtis\<rparr>"

datatype build_error = FeedQuery | FeedVersion | FeedSign

text \<open>
  \<open>build\<close>: \<open>q\<close> is the table the query saw, \<^const>\<open>None\<close> when it failed; \<open>up\<close> says whether \<open>nextval\<close>
  answers. A sequence is never rolled back: the number is used up even if signing fails.
\<close>

definition feed_build ::
    "('k, 'p) feed_jwt \<Rightarrow> 'k feed_server \<Rightarrow> instant \<Rightarrow> db option \<Rightarrow> bool \<Rightarrow> db \<Rightarrow> (build_error + string) \<times> db" where
  "feed_build lib fs now q up s =
     (case q of
        None \<Rightarrow> (Inl FeedQuery, s)
      | Some d \<Rightarrow>
          if \<not> up then (Inl FeedVersion, s)
          else let (version, s') = next_version s
               in case jl_sign lib (fs_kid fs) (fs_key fs) (feed_document lib fs now version (feed_rows now d)) of
                    None \<Rightarrow> (Inl FeedSign, s')
                  | Some b \<Rightarrow> (Inr b, s'))"

definition feed_snapshot ::
    "('k, 'p) feed_jwt \<Rightarrow> instant \<Rightarrow> db option \<Rightarrow> bool \<Rightarrow> 'k feed_server \<Rightarrow> db
       \<Rightarrow> (build_error + string) \<times> 'k feed_server \<times> db" where
  "feed_snapshot lib now q up fs s =
     (if fs_cached fs \<noteq> None \<and> now - fs_built_at fs < fs_cache_for fs then (Inr (the (fs_cached fs)), fs, s)
      else case feed_build lib fs now q up s of
             (Inl e, s') \<Rightarrow> (Inl e, fs, s')
           | (Inr b, s') \<Rightarrow> (Inr b, fs\<lparr>fs_cached := Some b, fs_built_at := now\<rparr>, s'))"

definition serve_feed ::
    "('k, 'p) feed_jwt \<Rightarrow> instant \<Rightarrow> db option \<Rightarrow> bool \<Rightarrow> 'k feed_server \<Rightarrow> db \<Rightarrow> exchange \<times> 'k feed_server \<times> db" where
  "serve_feed lib now q up fs s =
     (case feed_snapshot lib now q up fs s of
        (Inl _, fs', s') \<Rightarrow> (Response 500 (Some (''could not build revocation feed'' @ [CHR 0x0A])), fs', s')
      | (Inr b, fs', s') \<Rightarrow> (Response 200 (Some b), fs', s'))"

lemma feed_rows_iff:
  "j \<in> set (feed_rows now s) \<longleftrightarrow> (\<exists>r \<in> set (db_tokens s). tr_jti r = j \<and> tr_revoked_at r \<noteq> None \<and> now < tr_expires_at r)"
  by (auto simp: feed_rows_def)

lemma feed_build_cases:
  assumes "feed_build lib fs now q up s = (r, t)"
  obtains e where "r = Inl e" and "t = s \<or> t = snd (next_version s)"
  | d b where "r = Inr b" and "q = Some d" and "t = snd (next_version s)"
      and "jl_sign lib (fs_kid fs) (fs_key fs) (feed_document lib fs now (db_feed_version s + 1) (feed_rows now d)) = Some b"
  using assms by (auto simp: feed_build_def next_version_def split: option.splits if_splits)

section \<open>The system\<close>

text \<open>
  Any number of issuer processes on one database, the network and one resource server. \<open>fw_minted\<close> is the
  history of the table of tokens: the id and expiry of every row it ever had. \<open>fw_published\<close> collects
  every document ever handed out; the network may deliver any of them at any time, or nothing.
\<close>

record ('k, 'p) feed_world =
  fw_now :: instant
  fw_db :: db
  fw_minted :: "(string \<times> instant) set"
  fw_servers :: "nat \<Rightarrow> 'k feed_server"
  fw_query :: "nat \<Rightarrow> (instant \<times> db) option"
  fw_published :: "string set"
  fw_client :: "'p revocation_feed"

definition token_keys :: "db \<Rightarrow> (string \<times> instant) set" where
  "token_keys d = (\<lambda>r. (tr_jti r, tr_expires_at r)) ` set (db_tokens d)"

text \<open>
  What the network cannot do is forge a signature: a document that verifies under the issuer's keys is one
  the issuer signed. Other tokens signed with the same key have neither \<open>ver\<close> nor \<open>jtis\<close>.
\<close>

definition genuine :: "('k, 'p) feed_jwt \<Rightarrow> ('k, 'p) feed_world \<Rightarrow> exchange \<Rightarrow> bool" where
  "genuine lib s x \<longleftrightarrow>
     (\<forall>b c. x = Response 200 (Some b) \<longrightarrow> accepted_feed lib (fw_client s) (fw_now s) (take 8388608 b) c \<longrightarrow>
        take 8388608 b \<in> fw_published s \<or> fc_version c = 0 \<and> fc_jtis c = [])"

text \<open>
  \<open>I\<close> is the set of running processes. The mutex of \<open>Snapshot\<close> is the process's own, so the two statements
  of one process do not interleave with each other, but do with those of the others. A process may be
  replaced at any time, with any key and an empty cache.
\<close>

inductive feed_step :: "('k, 'p) feed_jwt \<Rightarrow> nat set \<Rightarrow> ('k, 'p) feed_world \<Rightarrow> ('k, 'p) feed_world \<Rightarrow> bool" for lib I where
  clock: "fw_now s \<le> t \<Longrightarrow> feed_step lib I s (s\<lparr>fw_now := t\<rparr>)"
| store: "token_step UNIV (fw_now s) (fw_db s) d \<Longrightarrow>
    feed_step lib I s (s\<lparr>fw_db := d, fw_minted := fw_minted s \<union> token_keys d\<rparr>)"
| query: "i \<in> I \<Longrightarrow> fw_query s i = None \<Longrightarrow>
    feed_step lib I s (s\<lparr>fw_query := (fw_query s)(i \<mapsto> (fw_now s, fw_db s))\<rparr>)"
| publish: "i \<in> I \<Longrightarrow> fw_query s i = Some (t, d) \<Longrightarrow>
    feed_snapshot lib t (Some d) up (fw_servers s i) (fw_db s) = (r, fs, s') \<Longrightarrow>
    feed_step lib I s (s\<lparr>fw_query := (fw_query s)(i := None), fw_servers := (fw_servers s)(i := fs), fw_db := s',
      fw_published := (case r of Inl _ \<Rightarrow> fw_published s | Inr b \<Rightarrow> insert b (fw_published s))\<rparr>)"
| restart: "i \<in> I \<Longrightarrow> fs_cached fs = None \<Longrightarrow>
    feed_step lib I s (s\<lparr>fw_query := (fw_query s)(i := None), fw_servers := (fw_servers s)(i := fs)\<rparr>)"
| pull: "genuine lib s x \<Longrightarrow> feed_refresh lib (fw_now s, x) (fw_client s) = (e, f) \<Longrightarrow>
    feed_step lib I s (s\<lparr>fw_client := f\<rparr>)"

definition feed_start :: "('k, 'p) feed_world \<Rightarrow> bool" where
  "feed_start s \<longleftrightarrow> fw_query s = Map.empty \<and> fw_published s = {} \<and> (\<forall>i. fs_cached (fw_servers s i) = None) \<and>
     token_keys (fw_db s) \<subseteq> fw_minted s \<and> 0 \<le> db_feed_version (fw_db s) \<and>
     rf_issuer (fw_client s) \<noteq> [] \<and> rf_version (fw_client s) = 0 \<and> rf_revoked (fw_client s) = {}"

text \<open>A token's row is marked revoked; a token has expired, whether its row is still there or pruned.\<close>

definition marked :: "string \<Rightarrow> db \<Rightarrow> bool" where
  "marked j d \<longleftrightarrow> (\<exists>r \<in> set (db_tokens d). tr_jti r = j \<and> tr_revoked_at r \<noteq> None)"

definition gone :: "string \<Rightarrow> ('k, 'p) feed_world \<Rightarrow> bool" where
  "gone j s \<longleftrightarrow> (\<exists>e. (j, e) \<in> fw_minted s \<and> e \<le> fw_now s)"

text \<open>\<open>d\<close> is an earlier state of \<open>e\<close>; rows that have expired at \<open>t\<close> may be missing.\<close>

definition later :: "instant \<Rightarrow> db \<Rightarrow> db \<Rightarrow> bool" where
  "later t d e \<longleftrightarrow> (\<forall>r \<in> set (db_tokens d). tr_expires_at r \<le> t \<or> (\<exists>q \<in> set (db_tokens e). tr_jti q = tr_jti r \<and>
     tr_expires_at q = tr_expires_at r \<and> (tr_revoked_at r \<noteq> None \<longrightarrow> tr_revoked_at q \<noteq> None)))"

lemma later_refl [simp]: "later t d d"
  by (auto simp: later_def)

lemma later_time: "later t d e \<Longrightarrow> t \<le> t' \<Longrightarrow> later t' d e"
  unfolding later_def by (meson order_trans)

lemma later_trans: "later t d e \<Longrightarrow> later t e f \<Longrightarrow> later t d f"
  unfolding later_def by (metis (no_types, lifting))

lemma later_marked: "later t d e \<Longrightarrow> marked j d \<Longrightarrow> marked j e \<or> (\<exists>x. (j, x) \<in> token_keys d \<and> x \<le> t)"
  by (fastforce simp: later_def marked_def token_keys_def)

lemma later_map: 
  assumes "db_tokens e = map (\<lambda>r. if P r then r\<lparr>tr_revoked_at := Some now\<rparr> else r) (db_tokens d)"
  shows "later t d e"
  unfolding later_def assms set_map
proof
  fix r assume "r \<in> set (db_tokens d)"
  then show "tr_expires_at r \<le> t \<or> (\<exists>q \<in> (\<lambda>r. if P r then r\<lparr>tr_revoked_at := Some now\<rparr> else r) ` set (db_tokens d). tr_jti q = tr_jti r \<and>
     tr_expires_at q = tr_expires_at r \<and> (tr_revoked_at r \<noteq> None \<longrightarrow> tr_revoked_at q \<noteq> None))"
    by (intro disjI2 bexI [OF _ imageI]) auto
qed

lemma revoke_later:
  "later t s (snd (revoke_token now jti s))" "db_feed_version (snd (revoke_token now jti s)) = db_feed_version s"
  using later_map [OF revoke_token_tokens]
  by (auto simp: revoke_token_def Let_def split: prod.splits) (metis mark_revoked_frame(5) snd_conv)+

lemma token_step_later: "token_step J t d e \<Longrightarrow> later t d e \<and> db_feed_version e = db_feed_version d"
proof (induction rule: token_step.induct)
  case (minted r now s t)
  then show ?case by (fastforce simp: record_tx_def later_def split: if_splits)
next
  case (revoke s now jti)
  then show ?case using revoke_later by simp
next
  case (revoke_delegation s now did)
  then show ?case using later_map [OF revoke_by_delegation_tokens]
    by (auto simp: revoke_by_delegation_def Let_def split: prod.splits) (metis mark_revoked_frame(5) snd_conv)+
next
  case (marks s sel now)
  then show ?case using later_map [OF mark_revoked_tokens] by simp
next
  case (pruned cutoff s)
  then show ?case by (fastforce simp: prune_tokens_def later_def)
next
  case (elsewhere e s)
  then show ?case by (auto simp: later_def)
qed

lemma rows_marked: "j \<in> set (feed_rows t d) \<Longrightarrow> marked j d"
  by (auto simp: feed_rows_iff marked_def)

lemma marked_listed: "marked j d \<Longrightarrow> j \<in> set (feed_rows t d) \<or> (\<exists>x. (j, x) \<in> token_keys d \<and> x \<le> t)"
  unfolding feed_rows_iff marked_def token_keys_def by (fastforce simp: not_le)

text \<open>\<open>b\<close> is a published document with claims \<open>c\<close>.\<close>

definition published :: "('k, 'p) feed_jwt \<Rightarrow> ('k, 'p) feed_world \<Rightarrow> string \<Rightarrow> feed_claims \<Rightarrow> bool" where
  "published lib s b c \<longleftrightarrow> b \<in> fw_published s \<and> jl_claims lib b = Some c"

text \<open>
  Four invariants of the system, with any number of processes. Published documents carry numbers already
  drawn; queries under way have seen an earlier state of the table, and the history has every row;
  what a document lists is revoked; the resource server holds what some document says.
\<close>

definition numbered :: "('k, 'p) feed_jwt \<Rightarrow> ('k, 'p) feed_world \<Rightarrow> bool" where
  "numbered lib s \<longleftrightarrow>
     (\<forall>b \<in> fw_published s. \<exists>c. jl_claims lib b = Some c \<and> 1 \<le> fc_version c \<and> fc_version c \<le> db_feed_version (fw_db s)) \<and>
     (\<forall>i b. fs_cached (fw_servers s i) = Some b \<longrightarrow> b \<in> fw_published s) \<and> 0 \<le> db_feed_version (fw_db s)"

definition recorded :: "('k, 'p) feed_world \<Rightarrow> bool" where
  "recorded s \<longleftrightarrow> token_keys (fw_db s) \<subseteq> fw_minted s \<and>
     (\<forall>i t d. fw_query s i = Some (t, d) \<longrightarrow> t \<le> fw_now s \<and> later (fw_now s) d (fw_db s) \<and> token_keys d \<subseteq> fw_minted s)"

definition truthful :: "('k, 'p) feed_jwt \<Rightarrow> ('k, 'p) feed_world \<Rightarrow> bool" where
  "truthful lib s \<longleftrightarrow> (\<forall>b c j. published lib s b c \<longrightarrow> j \<in> set (fc_jtis c) \<longrightarrow> gone j s \<or> marked j (fw_db s))"

definition follows :: "('k, 'p) feed_jwt \<Rightarrow> ('k, 'p) feed_world \<Rightarrow> bool" where
  "follows lib s \<longleftrightarrow> rf_issuer (fw_client s) \<noteq> [] \<and>
     (rf_version (fw_client s) = 0 \<and> rf_revoked (fw_client s) = {} \<or>
      (\<exists>b c. published lib s b c \<and> rf_version (fw_client s) = fc_version c \<and> rf_revoked (fw_client s) = set (fc_jtis c)))"

text \<open>
  With one process there is a fifth: documents are numbered in the order in which their queries ran, so one
  that comes later lists every token an earlier one listed, unless the token has expired.
\<close>

definition ordered :: "('k, 'p) feed_jwt \<Rightarrow> ('k, 'p) feed_world \<Rightarrow> bool" where
  "ordered lib s \<longleftrightarrow>
     (\<forall>b c b' c' j. published lib s b c \<longrightarrow> published lib s b' c' \<longrightarrow> fc_version c \<le> fc_version c' \<longrightarrow>
        j \<in> set (fc_jtis c) \<longrightarrow> j \<in> set (fc_jtis c') \<or> gone j s) \<and>
     (\<forall>b c j. published lib s b c \<longrightarrow> j \<in> set (fc_jtis c) \<longrightarrow>
        gone j s \<or> (\<forall>i t d. fw_query s i = Some (t, d) \<longrightarrow> marked j d))"

definition exact_documents :: "('k, 'p) feed_jwt \<Rightarrow> bool" where
  "exact_documents lib \<longleftrightarrow> (\<forall>fs t v js. jl_exact lib (feed_document lib fs t v js))"

lemma snapshot_cases:
  assumes "feed_snapshot lib now (Some d) up fs s = (r, fs', s')" and "jwt_laws lib" and "exact_documents lib"
  obtains (failed) e where "r = Inl e" and "fs' = fs" and "s' = s \<or> s' = snd (next_version s)"
  | (cached) b where "r = Inr b" and "fs' = fs" and "s' = s" and "fs_cached fs = Some b"
  | (built) b where "r = Inr b" and "fs' = fs\<lparr>fs_cached := Some b, fs_built_at := now\<rparr>" and "s' = snd (next_version s)"
      and "jl_claims lib b = Some (feed_document lib fs now (db_feed_version s + 1) (feed_rows now d))"
proof (cases "fs_cached fs \<noteq> None \<and> now - fs_built_at fs < fs_cache_for fs")
  case True
  with assms(1) cached show thesis by (auto simp: feed_snapshot_def)
next
  case False
  then obtain r0 t where b: "feed_build lib fs now (Some d) up s = (r0, t)" by (cases "feed_build lib fs now (Some d) up s") auto
  from feed_build_cases [OF b] show thesis
  proof cases
    case (1 e)
    with False b assms(1) show thesis by (intro failed [of e]) (auto simp: feed_snapshot_def)
  next
    case (2 d' b')
    with jwt_sign [OF assms(2) _ 2(4)] assms(3)
    have "jl_claims lib b' = Some (feed_document lib fs now (db_feed_version s + 1) (feed_rows now d))"
      by (simp add: exact_documents_def)
    with False b 2 assms(1) show thesis by (intro built [of b']) (auto simp: feed_snapshot_def)
  qed
qed

lemma next_version_later [simp]: "later t d (snd (next_version s)) = later t d s" "later t (snd (next_version s)) d = later t s d"
  "marked j (snd (next_version s)) = marked j s" "token_keys (snd (next_version s)) = token_keys s"
  "db_feed_version (snd (next_version s)) = db_feed_version s + 1"
  by (simp_all add: next_version_def later_def marked_def token_keys_def)

text \<open>A step keeps what was minted and published; the clock goes on; the database goes to a later state.\<close>

lemma feed_step_grows:
  assumes "feed_step lib I s s'"
  shows "fw_minted s \<subseteq> fw_minted s'" and "fw_published s \<subseteq> fw_published s'" and "fw_now s \<le> fw_now s'"
    and "later (fw_now s') (fw_db s) (fw_db s')"
proof -
  have snap: "s' = d \<or> s' = snd (next_version d)"
    if "feed_snapshot lib t q up fs d = (r, fs', s')" for t q up fs d r fs' and s' :: db
    using that by (auto simp: feed_snapshot_def feed_build_def next_version_def split: if_splits option.splits prod.splits sum.splits)
  show "fw_minted s \<subseteq> fw_minted s'" "fw_published s \<subseteq> fw_published s'" "fw_now s \<le> fw_now s'"
    using assms by (induction rule: feed_step.induct) (auto split: sum.splits)
  show "later (fw_now s') (fw_db s) (fw_db s')"
    using assms by (induction rule: feed_step.induct) (auto dest: token_step_later snap)
qed

lemma gone_step: "feed_step lib I s s' \<Longrightarrow> gone j s \<Longrightarrow> gone j s'"
  using feed_step_grows(1,3) unfolding gone_def by (meson order_trans subsetD)

lemma published_step: "feed_step lib I s s' \<Longrightarrow> published lib s b c \<Longrightarrow> published lib s' b c"
  using feed_step_grows(2) unfolding published_def by blast

lemma keys_gone: "(j, x) \<in> K \<Longrightarrow> K \<subseteq> fw_minted s \<Longrightarrow> x \<le> t \<Longrightarrow> t \<le> fw_now s \<Longrightarrow> gone j s"
  unfolding gone_def by (meson order_trans subsetD)

lemma marked_step:
  assumes "feed_step lib I s s'" and "recorded s" and "marked j (fw_db s)"
  shows "marked j (fw_db s') \<or> gone j s'"
  using later_marked [OF feed_step_grows(4) [OF assms(1)] assms(3)] keys_gone [where s = s' and j = j] assms(2)
    feed_step_grows(1) [OF assms(1)]
  unfolding recorded_def by (meson order_refl order_trans)

text \<open>What a step does to the published documents: nothing, or one more, built from a query under way.\<close>

lemma feed_step_published:
  assumes "feed_step lib I s s'" and "jwt_laws lib" and "exact_documents lib" and "numbered lib s"
  obtains (same) "fw_published s' = fw_published s"
  | (built) i t d fs b where "i \<in> I" and "fw_query s i = Some (t, d)" and "fw_query s' = (fw_query s)(i := None)"
      and "fw_published s' = insert b (fw_published s)" and "fw_db s' = snd (next_version (fw_db s))"
      and "jl_claims lib b = Some (feed_document lib fs t (db_feed_version (fw_db s) + 1) (feed_rows t d))"
      and "fw_client s' = fw_client s" and "fw_now s' = fw_now s" and "fw_minted s' = fw_minted s"
  using assms(1)
proof (cases rule: feed_step.cases)
  case (publish i t d up r fs d')
  from publish(4) assms(2,3) show thesis
  proof (cases rule: snapshot_cases)
    case (cached b)
    with assms(4) have "b \<in> fw_published s" by (auto simp: numbered_def)
    with publish(1) cached(1) show thesis by (intro same) (simp add: insert_absorb)
  next
    case (built b)
    with publish show thesis by (intro that(2)) simp_all
  qed (use publish in \<open>auto intro: same\<close>)
qed (auto intro: same)

lemma numbered_step:
  assumes "feed_step lib I s s'" and "jwt_laws lib" and "exact_documents lib" and "numbered lib s"
  shows "numbered lib s'"
  using assms(1,4)
proof (induction rule: feed_step.induct)
  case (publish i s t d up r fs s')
  from publish(3) assms(2,3) show ?case
    by (cases rule: snapshot_cases) (use publish(4) in \<open>fastforce simp: numbered_def feed_document_def\<close>)+
qed (auto simp: numbered_def dest: token_step_later)

lemma recorded_step:
  assumes "feed_step lib I s s'" and "recorded s"
  shows "recorded s'"
proof -
  have db: "token_keys (fw_db s') \<subseteq> fw_minted s'"
    using assms by (induction rule: feed_step.induct)
      (auto simp: recorded_def feed_snapshot_def feed_build_def next_version_def token_keys_def
        split: if_splits option.splits prod.splits sum.splits)
  have "fw_query s i = Some (t, d) \<or> t = fw_now s \<and> d = fw_db s \<and> fw_db s' = fw_db s \<and> fw_minted s' = fw_minted s \<and> fw_now s' = fw_now s"
    if "fw_query s' i = Some (t, d)" for i t d
    using assms(1) that by (induction rule: feed_step.induct) (auto split: if_splits)
  then have "t \<le> fw_now s' \<and> later (fw_now s') d (fw_db s') \<and> token_keys d \<subseteq> fw_minted s'" if "fw_query s' i = Some (t, d)" for i t d
    using that db assms(2) feed_step_grows [OF assms(1)] later_trans later_time unfolding recorded_def
    by (metis (no_types, lifting) later_refl order_refl order_trans)
  with db show ?thesis by (auto simp: recorded_def)
qed

lemma truthful_step:
  assumes "feed_step lib I s s'" and "jwt_laws lib" and "exact_documents lib" and "numbered lib s" and "recorded s" and "truthful lib s"
  shows "truthful lib s'"
  unfolding truthful_def
proof (intro allI impI)
  fix b c j assume p: "published lib s' b c" "j \<in> set (fc_jtis c)"
  have old: "gone j s' \<or> marked j (fw_db s')" if "gone j s \<or> marked j (fw_db s)"
    using that marked_step [OF assms(1,5)] gone_step [OF assms(1)] by blast
  from assms(1-4) show "gone j s' \<or> marked j (fw_db s')"
  proof (cases rule: feed_step_published)
    case same
    with p assms(6) old show ?thesis by (auto simp: truthful_def published_def)
  next
    case (built i t d fs b')
    show ?thesis
    proof (cases "published lib s b c")
      case True
      with p(2) assms(6) old show ?thesis by (auto simp: truthful_def)
    next
      case False
      with p built(4,6) have "marked j d" by (auto simp: published_def feed_document_def intro: rows_marked)
      with later_marked built(2) assms(5) old show ?thesis unfolding recorded_def by (metis keys_gone order_refl)
    qed
  qed
qed

lemma follows_step:
  assumes "feed_step lib I s s'" and "jwt_laws lib" and "follows lib s"
  shows "follows lib s' \<and> rf_version (fw_client s) \<le> rf_version (fw_client s')"
  using assms(1,3)
proof (induction rule: feed_step.induct)
  case (publish i s t d up r fs s')
  then show ?case by (cases r) (auto simp: follows_def published_def)
next
  case (pull s x e f)
  from feed_refresh_outcomes [OF pull(2)] show ?case
  proof (elim disjE conjE exE)
    fix now b c assume x: "(fw_now s, x) = (now, Response 200 (Some b))" and acc: "accepted_feed lib (fw_client s) now (take 8388608 b) c"
      and v: "rf_version (fw_client s) \<le> fc_version c"
      and f: "f = fw_client s\<lparr>rf_revoked := set (fc_jtis c), rf_version := fc_version c, rf_fetched_at := now\<rparr>"
    have "rf_issuer (fw_client s) \<noteq> []" using pull(3) by (simp add: follows_def)
    with acc jwt_parse_iff [OF assms(2)] have "jl_claims lib (take 8388608 b) = Some c"
      by (simp add: accepted_feed_def jwt_accepts_def)
    moreover from pull(1) x acc have "take 8388608 b \<in> fw_published s \<or> fc_version c = 0 \<and> fc_jtis c = []"
      by (auto simp: genuine_def)
    ultimately show ?thesis using pull(3) v f by (auto simp: follows_def published_def)
  qed (use pull(3) in simp)
qed (auto simp: follows_def published_def)

definition feed_invariant :: "('k, 'p) feed_jwt \<Rightarrow> ('k, 'p) feed_world \<Rightarrow> bool" where
  "feed_invariant lib s \<longleftrightarrow> numbered lib s \<and> recorded s \<and> truthful lib s \<and> follows lib s"

lemma feed_invariant_start: "feed_start s \<Longrightarrow> feed_invariant lib s"
  by (simp add: feed_start_def feed_invariant_def numbered_def recorded_def truthful_def follows_def published_def)

lemma feed_invariant_step:
  "jwt_laws lib \<Longrightarrow> exact_documents lib \<Longrightarrow> feed_step lib I s s' \<Longrightarrow> feed_invariant lib s \<Longrightarrow> feed_invariant lib s'"
  unfolding feed_invariant_def using numbered_step recorded_step truthful_step follows_step by blast

text \<open>What a query that saw the token revoked publishes lists it, unless it has expired.\<close>

lemma built_lists:
  assumes "recorded s" and "fw_query s i = Some (t, d)" and "marked j d" and "fw_minted s' = fw_minted s" and "fw_now s' = fw_now s"
  shows "j \<in> set (feed_rows t d) \<or> gone j s'"
  using marked_listed [OF assms(3), of t] assms(1,2) keys_gone [where s = s' and j = j] unfolding recorded_def assms(4,5) by metis

text \<open>One process alone: only its query is under way.\<close>

lemma ordered_step:
  assumes "feed_step lib I s s'" and "jwt_laws lib" and "exact_documents lib" and "feed_invariant lib s" and "ordered lib s"
    and "I \<subseteq> {i}" and "\<forall>k. k \<noteq> i \<longrightarrow> fw_query s k = None"
  shows "ordered lib s' \<and> (\<forall>k. k \<noteq> i \<longrightarrow> fw_query s' k = None)"
proof
  show idle: "\<forall>k. k \<noteq> i \<longrightarrow> fw_query s' k = None"
    using assms(1,6,7) by (induction rule: feed_step.induct) auto
  have inv: "numbered lib s" "recorded s" "truthful lib s" using assms(4) by (auto simp: feed_invariant_def)
  note step = gone_step [OF assms(1)]
  from assms(1-3) inv(1) show "ordered lib s'"
  proof (cases rule: feed_step_published)
    case same
    have pub: "published lib s' b c = published lib s b c" for b c by (simp add: published_def same)
    have q: "fw_query s k = Some (t, d) \<or> d = fw_db s" if "fw_query s' k = Some (t, d)" for k t d
      using assms(1) that by (induction rule: feed_step.induct) (auto split: if_splits)
    from assms(5) step inv(3) q show ?thesis unfolding ordered_def truthful_def pub by metis
  next
    case (built k t d fs b)
    let ?c = "feed_document lib fs t (db_feed_version (fw_db s) + 1) (feed_rows t d)"
    have pub: "published lib s' x c \<longleftrightarrow> published lib s x c \<or> x = b \<and> c = ?c" for x c
      using built(4,6) by (auto simp: published_def)
    have old: "fc_version c < fc_version ?c" if "published lib s x c" for x c
      using inv(1) that by (force simp: numbered_def published_def feed_document_def)
    have "k = i" using built(1) assms(6) by auto
    with idle built(3) have none: "fw_query s' = Map.empty" by (auto simp: fun_eq_iff)
    have new: "j \<in> set (fc_jtis ?c) \<or> gone j s'" if "published lib s x c" "j \<in> set (fc_jtis c)" for x c j
    proof -
      from assms(5) that built(2) have "gone j s \<or> marked j d" unfolding ordered_def by blast
      with built_lists [OF inv(2) built(2) _ built(9,8), of j] step show ?thesis by (auto simp: feed_document_def)
    qed
    have "j \<in> set (fc_jtis c') \<or> gone j s'"
      if "published lib s' x c" "published lib s' y c'" "fc_version c \<le> fc_version c'" "j \<in> set (fc_jtis c)" for x c y c' j
      using that(1,2) unfolding pub
    proof (elim disjE conjE)
      assume "published lib s x c" "published lib s y c'"
      with that(3,4) assms(5) step show ?thesis unfolding ordered_def by blast
    next
      assume "c = ?c" "published lib s y c'"
      with old that(3) show ?thesis by fastforce
    qed (use new that(4) in auto)
    then show ?thesis unfolding ordered_def none by blast
  qed
qed

text \<open>
  A revocation is settled at the resource server when, unless the token has expired, its row is marked,
  every query under way saw it marked, and every document it could still take lists it. That is kept by
  every step of any number of processes.
\<close>

definition settled :: "('k, 'p) feed_jwt \<Rightarrow> string \<Rightarrow> ('k, 'p) feed_world \<Rightarrow> bool" where
  "settled lib j s \<longleftrightarrow> jwt_laws lib \<and> exact_documents lib \<and> feed_invariant lib s \<and>
     (gone j s \<or> marked j (fw_db s) \<and> 1 \<le> rf_version (fw_client s) \<and>
        (\<forall>i t d. fw_query s i = Some (t, d) \<longrightarrow> marked j d) \<and>
        (\<forall>b c. published lib s b c \<longrightarrow> rf_version (fw_client s) \<le> fc_version c \<longrightarrow> j \<in> set (fc_jtis c)))"

lemma settled_step:
  assumes step: "feed_step lib I s s'" and "settled lib j s"
  shows "settled lib j s'"
proof -
  have laws: "jwt_laws lib" "exact_documents lib" and inv: "feed_invariant lib s"
    using assms(2) by (auto simp: settled_def)
  then have rec: "recorded s" "numbered lib s" and fol: "follows lib s" by (auto simp: feed_invariant_def)
  have "gone j s' \<or> marked j (fw_db s') \<and> 1 \<le> rf_version (fw_client s') \<and>
        (\<forall>i t d. fw_query s' i = Some (t, d) \<longrightarrow> marked j d) \<and>
        (\<forall>b c. published lib s' b c \<longrightarrow> rf_version (fw_client s') \<le> fc_version c \<longrightarrow> j \<in> set (fc_jtis c))"
  proof (cases "gone j s")
    case False
    with assms(2) have k: "marked j (fw_db s)" "1 \<le> rf_version (fw_client s)"
      "\<And>i t d. fw_query s i = Some (t, d) \<Longrightarrow> marked j d"
      "\<And>b c. published lib s b c \<Longrightarrow> rf_version (fw_client s) \<le> fc_version c \<Longrightarrow> j \<in> set (fc_jtis c)"
      by (auto simp: settled_def)
    have v: "rf_version (fw_client s) \<le> rf_version (fw_client s')" using follows_step [OF step laws(1) fol] by simp
    have "fw_query s i = Some (t, d) \<or> d = fw_db s" if "fw_query s' i = Some (t, d)" for i t d
      using step that by (induction rule: feed_step.induct) (auto split: if_splits)
    with k(1,3) have q: "marked j d" if "fw_query s' i = Some (t, d)" for i t d using that by blast
    have "(\<forall>b c. published lib s' b c \<longrightarrow> rf_version (fw_client s') \<le> fc_version c \<longrightarrow> j \<in> set (fc_jtis c)) \<or> gone j s'"
      using step laws rec(2)
    proof (cases rule: feed_step_published)
      case same
      with k(4) v show ?thesis by (auto simp: published_def)
    next
      case (built i t d fs b)
      have "j \<in> set (feed_rows t d) \<or> gone j s'" by (rule built_lists [OF rec(1) built(2) k(3) [OF built(2)] built(9,8)])
      with built(4,6) k(4) v show ?thesis by (auto simp: published_def feed_document_def)
    qed
    with marked_step [OF step rec(1) k(1)] k(2) v q show ?thesis by fastforce
  qed (use gone_step [OF step] in blast)
  with feed_invariant_step [OF laws step inv] laws show ?thesis by (simp add: settled_def)
qed

interpretation feed_knowledge: one_way "feed_step lib I" "settled lib j" for lib :: "('k, 'p) feed_jwt" and I j
  by unfold_locales (rule settled_step)

lemma settled_listed:
  assumes "settled lib j s"
  shows "j \<in> rf_revoked (fw_client s) \<or> gone j s"
  using assms by (fastforce simp: settled_def feed_invariant_def follows_def)

lemma feed_reachable_invariant:
  assumes "jwt_laws lib" and "exact_documents lib" and "feed_start s0" and "(feed_step lib I)\<^sup>*\<^sup>* s0 s"
  shows "feed_invariant lib s"
  using assms(4)
  by (induction rule: rtranclp_induct)
     (auto intro: feed_invariant_step [OF assms(1,2)] feed_invariant_start [OF assms(3)])

lemma one_process_ordered:
  assumes "jwt_laws lib" and "exact_documents lib" and "feed_start s0" and "(feed_step lib I)\<^sup>*\<^sup>* s0 s" and "I \<subseteq> {i}"
  shows "ordered lib s \<and> (\<forall>k. k \<noteq> i \<longrightarrow> fw_query s k = None)"
  using assms(4)
proof (induction rule: rtranclp_induct)
  case base
  with assms(3) show ?case by (simp add: feed_start_def ordered_def published_def)
next
  case (step s s')
  with ordered_step [OF step(2) assms(1,2) feed_reachable_invariant [OF assms(1-3) step(1)] _ assms(5)] show ?case by blast
qed

text \<open>
  When the set of the resource server lists a token, the revocation is settled: with one process always,
  with several once the other processes have caught up, that is, no query under way and no document with
  a number from its own on is from before the revocation.
\<close>

definition caught_up :: "('k, 'p) feed_jwt \<Rightarrow> string \<Rightarrow> ('k, 'p) feed_world \<Rightarrow> bool" where
  "caught_up lib j s \<longleftrightarrow> (\<forall>i t d. fw_query s i = Some (t, d) \<longrightarrow> marked j d) \<and>
     (\<forall>b c. published lib s b c \<longrightarrow> rf_version (fw_client s) \<le> fc_version c \<longrightarrow> j \<in> set (fc_jtis c))"

lemma listed_settled:
  assumes "jwt_laws lib" and "exact_documents lib" and "feed_start s0" and "(feed_step lib I)\<^sup>*\<^sup>* s0 s"
    and "j \<in> rf_revoked (fw_client s)" and "I \<subseteq> {i} \<or> caught_up lib j s"
  shows "settled lib j s"
proof -
  have inv: "feed_invariant lib s" by (rule feed_reachable_invariant [OF assms(1-4)])
  with assms(5) obtain b c where b: "published lib s b c" "rf_version (fw_client s) = fc_version c" "j \<in> set (fc_jtis c)"
    by (auto simp: feed_invariant_def follows_def)
  with inv have "gone j s \<or> marked j (fw_db s)" "1 \<le> rf_version (fw_client s)"
    by (auto simp: feed_invariant_def truthful_def numbered_def published_def)
  moreover have "gone j s \<or> caught_up lib j s"
    using assms(6)
  proof
    assume "I \<subseteq> {i}"
    with one_process_ordered [OF assms(1-4)] b show ?thesis unfolding ordered_def caught_up_def by metis
  qed simp
  ultimately show ?thesis using inv assms(1,2) unfolding settled_def caught_up_def by blast
qed

text \<open>
  C11: a resource server that has learned of a revocation never forgets it. Let its set list a token, and
  let there be one issuer process, or several that have all caught up with the revocation: none has a
  query from before it under way, and no document the resource server could still take is from before it.
  Then the resource server accepts that token never again, whatever happens: tokens minted, tokens,
  delegations and trees revoked, expired rows pruned, documents built meanwhile by any number of
  processes, processes restarted, documents the network delays, repeats or reorders, other tokens of the
  issuer passed off as documents, refreshes that fail. (The token's own \<open>exp\<close> is not after that of its
  row, as the exchange mints them.)
\<close>

theorem learned_revocation_sticks:
  assumes "jwt_laws lib" and "exact_documents lib" and "feed_start s0"
    and "(feed_step lib I)\<^sup>*\<^sup>* s0 s1" and "j \<in> rf_revoked (fw_client s1)" and "j \<noteq> []"
    and "I \<subseteq> {i} \<or> caught_up lib j s1"
    and "(feed_step lib I)\<^sup>*\<^sup>* s1 s2"
    and "jwt_laws dlib" and "sv_issuer v \<noteq> []" and "sv_feed v = Some (fw_client s2)"
    and "sdk_verify dlib urls v (fw_now s2) tok = Inr c"
    and "\<forall>e. (j, e) \<in> fw_minted s2 \<longrightarrow> the (rc_exp c) \<le> e"
  shows "rc_jti c \<noteq> j"
proof
  assume jti: "rc_jti c = j"
  have "settled lib j s2"
    by (rule feed_knowledge.steps_keep [OF assms(8) listed_settled [OF assms(1-5,7)]])
  from sdk_verify_iff [OF assms(9,10)] assms(11,12,6) jti
  have "claims_current (sv_issuer v) None (fw_now s2) c" "j \<notin> rf_revoked (fw_client s2)"
    by (auto simp: feed_is_revoked_def)
  with settled_listed [OF \<open>settled lib j s2\<close>] assms(13) show False
    by (force simp: gone_def claims_current_def split: option.splits)
qed

text \<open>
  C25: a revocation takes effect. Let a recorded token be revoked while no document younger than the
  revocation is cached. Any answer the issuer gives once its cache of five seconds has run out is a new
  document with the next number; a resource server that has seen only earlier ones takes it, its set is
  then current, lists the token, and the token is refused.
\<close>

theorem revocation_takes_effect:
  fixes dlib :: "('k2, 'p) delegation_jwt"
  assumes "jwt_laws lib" and "exact_documents lib" and "fs_kid fs \<noteq> []" and "fs_issuer fs \<noteq> []"
    and "row \<in> set (db_tokens s)" and "tr_jti row = j" and "j \<noteq> []" and "t < tr_expires_at row"
    and "fs_built_at fs \<le> t0" and "t0 + fs_cache_for fs \<le> t"
    and "jl_sign lib (fs_kid fs) (fs_key fs)
           (feed_document lib fs t (db_feed_version s + 1) (feed_rows t (snd (revoke_token t0 j s)))) = Some b"
    and "length b \<le> 8388608"
    and "rf_issuer f = fs_issuer fs" and "rf_keys f (fs_kid fs) = Some (jl_public lib (fs_key fs))"
    and "rf_version f \<le> db_feed_version s" and "t' < jl_numeric_date lib (t + fs_ttl fs)"
    and "jwt_laws dlib" and "sv_issuer v \<noteq> []"
  shows "\<exists>fs' d f'. serve_feed lib t (Some (snd (revoke_token t0 j s))) True fs (snd (revoke_token t0 j s)) =
             (Response 200 (Some b), fs', d) \<and>
           feed_refresh lib (t', Response 200 (Some b)) f = (None, f') \<and>
           feed_is_revoked f' j \<and> staleness f' t' = 0 \<and> rf_version f' = db_feed_version s + 1 \<and>
           (sdk_verify dlib urls (v\<lparr>sv_feed := Some f'\<rparr>) t' tok = Inr c \<longrightarrow> rc_jti c \<noteq> j)"
proof -
  let ?d = "snd (revoke_token t0 j s)"
  let ?c = "feed_document lib fs t (db_feed_version s + 1) (feed_rows t ?d)"
  let ?f = "f\<lparr>rf_revoked := set (feed_rows t ?d), rf_version := db_feed_version s + 1, rf_fetched_at := t'\<rparr>"
  have ver: "db_feed_version ?d = db_feed_version s"
    by (rule revoke_later)
  obtain r where r: "r \<in> set (db_tokens ?d)" "tr_jti r = j" "tr_expires_at r = tr_expires_at row"
    using revoke_later(1) [of t s t0 j] assms(5,6,8) unfolding later_def by (metis not_le)
  with revoked_marks [where s = s and now = t0 and jti = j] assms(8) have listed: "j \<in> set (feed_rows t ?d)"
    unfolding feed_rows_iff by (metis (no_types, lifting))
  have "feed_build lib fs t (Some ?d) True ?d = (Inr b, snd (next_version ?d))"
    using assms(11) by (simp add: feed_build_def next_version_def ver)
  moreover have "\<not> t - fs_built_at fs < fs_cache_for fs" using assms(9,10) by simp
  ultimately have serve: "serve_feed lib t (Some ?d) True fs ?d =
      (Response 200 (Some b), fs\<lparr>fs_cached := Some b, fs_built_at := t\<rparr>, snd (next_version ?d))"
    by (simp add: serve_feed_def feed_snapshot_def)
  have "jl_parse lib (key_func (rf_keys f)) (rf_issuer f) None t' b = Inr ?c"
    using jwt_sign [OF assms(1) _ assms(11)] assms(2,3,4,13,14,16) jwt_parse_iff [OF assms(1), of "rf_issuer f" None]
    by (simp add: accepts_key_func exact_documents_def claims_current_def feed_document_def)
  then have refresh: "feed_refresh lib (t', Response 200 (Some b)) f = (None, ?f)"
    using assms(12,15) by (simp add: feed_refresh_def feed_apply_def feed_document_def)
  have "sdk_verify dlib urls (v\<lparr>sv_feed := Some ?f\<rparr>) t' tok = Inr c \<longrightarrow> rc_jti c \<noteq> j"
    using sdk_verify_iff [OF assms(17), of "v\<lparr>sv_feed := Some ?f\<rparr>"] assms(7,18) listed
    by (auto simp: feed_is_revoked_def)
  with serve refresh listed show ?thesis
    by (intro exI [of _ "fs\<lparr>fs_cached := Some b, fs_built_at := t\<rparr>"] exI [of _ "snd (next_version ?d)"] exI [of _ ?f])
       (simp add: feed_is_revoked_def staleness_def)
qed

section \<open>Examples\<close>

definition listing :: "int \<Rightarrow> string list \<Rightarrow> feed_claims" where
  "listing v js = \<lparr>rc_iss = ''https://legant'', rc_sub = [], rc_aud = [], rc_exp = Some (60 * nanos), rc_nbf = None,
     rc_iat = Some 0, rc_jti = [], fc_version = v, fc_jtis = js\<rparr>"

definition issuer_feed :: "unit feed_server" where
  "issuer_feed = new_feed ''k1'' () ''https://legant''"

definition reader :: "unit revocation_feed" where
  "reader = empty_feed ''https://legant'' [''k1'' \<mapsto> ()]"

definition revoked_db :: db where
  "revoked_db = snd (revoke_token 1 ''j1'' sample_db)"

definition two_documents :: "(unit, unit) feed_jwt" where
  "two_documents = table_lib ''k1'' [(''doc1'', listing 1 [''j1'']), (''doc2'', listing 2 [])]"

lemma two_documents_laws: "jwt_laws two_documents" "exact_documents two_documents"
  unfolding two_documents_def by (rule table_laws) (simp_all add: exact_documents_def table_lib_def)

lemma early_document:
  "0 \<le> t \<Longrightarrow> t < nanos \<Longrightarrow> feed_document two_documents issuer_feed t v js = listing v js"
  by (simp add: feed_document_def issuer_feed_def new_feed_def listing_def two_documents_def table_lib_def nanos_def)

lemma documents_signed:
  "jl_sign two_documents ''k1'' () (listing 1 [''j1'']) = Some ''doc1''"
  "jl_sign two_documents ''k1'' () (listing 2 []) = Some ''doc2''"
  by (simp_all add: two_documents_def table_lib_def listing_def)

lemma sample_rows: "feed_rows 2 revoked_db = [''j1'']" "feed_rows 0 sample_db = []" "db_feed_version revoked_db = 0"
  by (simp_all add: feed_rows_def revoked_db_def revoke_token_def mark_revoked_def sample_db_def sample_record_def empty_db_def
      record_tx_def emit_def)

lemma first_build: "feed_build two_documents issuer_feed 2 (Some revoked_db) True revoked_db = (Inr ''doc1'', snd (next_version revoked_db))"
  using early_document [of 2 1 "[''j1'']"]
  by (simp add: feed_build_def next_version_def sample_rows documents_signed nanos_def)
     (simp add: issuer_feed_def new_feed_def documents_signed)

lemma reader_accepts:
  "feed_refresh two_documents (3, Response 200 (Some ''doc1'')) reader = (None, reader\<lparr>rf_revoked := {''j1''}, rf_version := 1, rf_fetched_at := 3\<rparr>)"
  "feed_refresh two_documents (4, Response 200 (Some ''doc2'')) (reader\<lparr>rf_revoked := {''j1''}, rf_version := 1, rf_fetched_at := 3\<rparr>) =
     (None, reader\<lparr>rf_revoked := {}, rf_version := 2, rf_fetched_at := 4\<rparr>)"
  by (simp_all add: feed_refresh_def feed_apply_def two_documents_def table_lib_def key_func_def reader_def empty_feed_def
      claims_current_def listing_def nanos_def)

text \<open>
  with two issuer processes on one database a learned revocation can be forgotten. One of them runs its
  query before the revocation and takes its number after the other's document: its older list has the
  larger number, the resource server takes it without an error, and the token is accepted again.
\<close>

theorem replicas_undo_revocation:
  "\<exists>d1 d2 f1 f2. feed_build two_documents issuer_feed 2 (Some revoked_db) True revoked_db = (Inr ''doc1'', d1) \<and>
     feed_build two_documents issuer_feed 0 (Some sample_db) True d1 = (Inr ''doc2'', d2) \<and>
     feed_refresh two_documents (3, Response 200 (Some ''doc1'')) reader = (None, f1) \<and> feed_is_revoked f1 ''j1'' \<and>
     feed_refresh two_documents (4, Response 200 (Some ''doc2'')) f1 = (None, f2) \<and> \<not> feed_is_revoked f2 ''j1'' \<and>
     is_active True 4 d2 ''j1'' = Inr False"
proof -
  let ?d = "snd (next_version (snd (next_version revoked_db)))"
  have "feed_build two_documents issuer_feed 0 (Some sample_db) True (snd (next_version revoked_db)) = (Inr ''doc2'', ?d)"
    using early_document [of 0 2 "[]"]
    by (simp add: feed_build_def next_version_def sample_rows documents_signed nanos_def)
       (simp add: issuer_feed_def new_feed_def documents_signed)
  moreover have "is_active True 4 ?d ''j1'' = Inr False"
    by (simp add: is_active_def next_version_def revoked_db_def revoke_token_def mark_revoked_def sample_db_def sample_record_def
        empty_db_def record_tx_def emit_def)
  ultimately show ?thesis using first_build reader_accepts
    by (simp add: feed_is_revoked_def)
qed

theorem revocation_takes_effect_witness:
  "\<exists>fs' d. serve_feed two_documents 2 (Some revoked_db) True (issuer_feed\<lparr>fs_cache_for := 1\<rparr>) revoked_db =
     (Response 200 (Some ''doc1''), fs', d)"
proof -
  let ?fs = "issuer_feed\<lparr>fs_cache_for := 1\<rparr>"
  let ?row = "hd (db_tokens sample_db)"
  have doc: "feed_document two_documents ?fs 2 1 [''j1''] = listing 1 [''j1'']"
    using early_document [of 2 1 "[''j1'']"] by (simp add: feed_document_def nanos_def)
  have row: "?row \<in> set (db_tokens sample_db)" "tr_jti ?row = ''j1''" "2 < tr_expires_at ?row" "db_feed_version sample_db = 0"
    by (simp_all add: sample_db_def sample_record_def empty_db_def record_tx_def)
  have fs: "fs_kid ?fs = ''k1''" "fs_issuer ?fs = ''https://legant''" "fs_built_at ?fs \<le> 1" "(1::int) + fs_cache_for ?fs \<le> 2"
    "fs_ttl ?fs = 60 * nanos" by (simp_all add: issuer_feed_def new_feed_def zero_time_def nanos_def)
  have sign: "jl_sign two_documents (fs_kid ?fs) (fs_key ?fs)
      (feed_document two_documents ?fs 2 (db_feed_version sample_db + 1) (feed_rows 2 (snd (revoke_token 1 ''j1'' sample_db)))) = Some ''doc1''"
    using documents_signed(1) sample_rows(1) by (simp add: row fs doc revoked_db_def [symmetric])
  have rd: "rf_issuer reader = fs_issuer ?fs" "rf_keys reader (fs_kid ?fs) = Some (jl_public two_documents (fs_key ?fs))"
    "rf_version reader \<le> db_feed_version sample_db" "(3::int) < jl_numeric_date two_documents (2 + fs_ttl ?fs)"
    by (simp_all add: reader_def empty_feed_def fs row two_documents_def table_lib_def nanos_def)
  have "fs_kid ?fs \<noteq> []" "fs_issuer ?fs \<noteq> []" "''j1'' \<noteq> []" "length ''doc1'' \<le> 8388608" "sv_issuer sample_sdk \<noteq> []"
    by (simp_all add: fs sample_sdk_def)
  from revocation_takes_effect [OF two_documents_laws this(1,2) row(1,2) this(3) row(3) fs(3,4) sign this(4) rd sample_laws this(5)]
  show ?thesis unfolding revoked_db_def by blast
qed

definition world :: "(unit, unit) feed_world" where
  "world = \<lparr>fw_now = 2, fw_db = revoked_db, fw_minted = {(''j1'', 100)}, fw_servers = (\<lambda>_. issuer_feed),
     fw_query = Map.empty, fw_published = {}, fw_client = reader\<rparr>"

definition world_read :: "(unit, unit) feed_world" where
  "world_read = \<lparr>fw_now = 3, fw_db = snd (next_version revoked_db), fw_minted = {(''j1'', 100)},
     fw_servers = (\<lambda>_. issuer_feed)(0 := issuer_feed\<lparr>fs_cached := Some ''doc1'', fs_built_at := 2\<rparr>), fw_query = Map.empty,
     fw_published = {''doc1''}, fw_client = reader\<lparr>rf_revoked := {''j1''}, rf_version := 1, rf_fetched_at := 3\<rparr>\<rparr>"

text \<open>Two processes run here, and both have caught up when the resource server has read the document.\<close>

lemma world_runs: "(feed_step two_documents {0, 1})\<^sup>*\<^sup>* world world_read"
proof -
  let ?q = "world\<lparr>fw_query := [0 \<mapsto> (2, revoked_db)]\<rparr>"
  let ?fs = "issuer_feed\<lparr>fs_cached := Some ''doc1'', fs_built_at := 2\<rparr>"
  let ?p = "world\<lparr>fw_servers := (\<lambda>_. issuer_feed)(0 := ?fs), fw_db := snd (next_version revoked_db), fw_published := {''doc1''}\<rparr>"
  have "feed_step two_documents {0, 1} world ?q"
    using feed_step.query [of 0 "{0, 1}" world two_documents] by (simp add: world_def)
  moreover have "feed_step two_documents {0, 1} ?q ?p"
  proof -
    have "feed_snapshot two_documents 2 (Some revoked_db) True issuer_feed revoked_db = (Inr ''doc1'', ?fs, snd (next_version revoked_db))"
      using first_build by (simp add: feed_snapshot_def) (simp add: issuer_feed_def new_feed_def)
    with feed_step.publish [of 0 "{0, 1}" ?q 2 revoked_db two_documents True] show ?thesis by (simp add: world_def)
  qed
  moreover have "feed_step two_documents {0, 1} ?p (?p\<lparr>fw_now := 3\<rparr>)"
    by (rule feed_step.clock) (simp add: world_def)
  moreover have "feed_step two_documents {0, 1} (?p\<lparr>fw_now := 3\<rparr>) world_read"
  proof -
    have "genuine two_documents (?p\<lparr>fw_now := 3\<rparr>) (Response 200 (Some ''doc1''))" by (simp add: genuine_def)
    moreover have "feed_refresh two_documents (fw_now (?p\<lparr>fw_now := 3\<rparr>), Response 200 (Some ''doc1'')) (fw_client (?p\<lparr>fw_now := 3\<rparr>)) =
        (None, fw_client world_read)" using reader_accepts(1) by (simp add: world_def world_read_def)
    ultimately show ?thesis using feed_step.pull by (fastforce simp: world_def world_read_def)
  qed
  ultimately show ?thesis by (meson converse_rtranclp_into_rtranclp rtranclp.rtrancl_refl)
qed

theorem learned_revocation_sticks_witness:
  "''j1'' \<in> rf_revoked (fw_client world_read) \<and> rc_jti (sample_claims\<lparr>rc_exp := Some 50, rc_jti := ''j2''\<rparr>) \<noteq> ''j1''"
proof -
  let ?c = "sample_claims\<lparr>rc_exp := Some 50, rc_jti := ''j2''\<rparr>"
  let ?lib = "one_token_lib ''k1'' ?c ''tok''"
  let ?v = "sample_sdk\<lparr>sv_feed := Some (fw_client world_read)\<rparr>"
  have start: "feed_start world"
    by (simp add: feed_start_def world_def issuer_feed_def new_feed_def reader_def empty_feed_def sample_rows token_keys_def)
      (simp add: revoked_db_def revoke_token_tokens sample_db_def sample_record_def empty_db_def record_tx_def)
  have read: "''j1'' \<in> rf_revoked (fw_client world_read)" by (simp add: world_read_def)
  have caught: "{0, 1} \<subseteq> {0::nat} \<or> caught_up two_documents ''j1'' world_read"
    using jwt_sign [OF two_documents_laws(1) _ documents_signed(1)]
    by (auto simp: caught_up_def world_read_def published_def two_documents_def table_lib_def listing_def split: if_splits)
  have v: "sv_issuer ?v \<noteq> []" "sv_feed ?v = Some (fw_client world_read)" by (simp_all add: sample_sdk_def)
  have verified: "sdk_verify ?lib two_url_lib ?v (fw_now world_read) ''tok'' = Inr ?c"
    unfolding sdk_verify_iff [OF one_token_laws v(1)]
    by (simp add: one_token_lib_def sample_sdk_def claims_current_def sample_claims_def nanos_def world_read_def feed_is_revoked_def)
  have expiry: "\<forall>e. (''j1'', e) \<in> fw_minted world_read \<longrightarrow> the (rc_exp ?c) \<le> e" by (simp add: world_read_def)
  show ?thesis
    using read learned_revocation_sticks [OF two_documents_laws start world_runs read _ caught rtranclp.rtrancl_refl one_token_laws v
        verified expiry]
    by blast
qed

end
