(* ===== verification/Filepath.thy ===== *)
theory Filepath
  imports GoPrelude "HOL-Library.Sublist"
begin

text \<open>
  \<open>path/filepath\<close> on Unix as far as the guard uses it, written out from its documentation, and the
  guard's own path helpers (\<open>internal/ccguard/paths.go\<close>). The file system is a function: \<open>EvalSymlinks\<close>
  of a path, \<^const>\<open>None\<close> when it fails.

  The lemmas relate the strings to lists of components: on absolute paths \<open>contained\<close> is the prefix order
  on the components that are left when \<open>.\<close> and \<open>..\<close> are resolved.
\<close>

section \<open>Splitting at separators\<close>

text \<open>\<open>strings.Split(s, sep)\<close> for a separator of one byte.\<close>

fun split_on :: "char \<Rightarrow> string \<Rightarrow> string list" where
  "split_on x [] = [[]]"
| "split_on x (c # cs) =
     (if c = x then [] # split_on x cs
      else (case split_on x cs of [] \<Rightarrow> [[c]] | w # ws \<Rightarrow> (c # w) # ws))"

abbreviation slash :: char where
  "slash \<equiv> CHR ''/''"

lemma split_on_nonempty [simp]: "split_on x s \<noteq> []"
  by (cases s) (auto split: list.split)

lemma split_on_word: "x \<notin> set w \<Longrightarrow> split_on x w = [w]"
  by (induction w) auto

lemma split_on_append: "x \<notin> set w \<Longrightarrow> split_on x (w @ x # s) = w # split_on x s"
  by (induction w) auto

lemma split_join:
  "\<forall>w \<in> set ws. x \<notin> set w \<Longrightarrow> ws \<noteq> [] \<Longrightarrow> split_on x (join [x] ws) = ws"
proof (induction ws)
  case (Cons w ws)
  then show ?case by (cases ws) (auto simp: split_on_word split_on_append)
qed simp

lemma split_on_sep: "w \<in> set (split_on x s) \<Longrightarrow> x \<notin> set w"
  by (induction s arbitrary: w) (auto split: if_splits list.splits)

lemma split_on_snoc: "split_on x (s @ [x]) = split_on x s @ [[]]"
  by (induction s) (auto split: list.split)

definition weight :: "string list \<Rightarrow> nat" where
  "weight ws = sum_list (map (\<lambda>w. Suc (length w)) ws)"

lemma weight_simps [simp]: "weight [] = 0" "weight (w # ws) = Suc (length w) + weight ws"
  "weight (us @ ws) = weight us + weight ws" "weight (rev ws) = weight ws"
  by (simp_all add: weight_def rev_map [symmetric])

lemma weight_split: "weight (split_on x s) = Suc (length s)"
  by (induction s) (auto split: list.split)

lemma length_join: "ws \<noteq> [] \<Longrightarrow> Suc (length (join [x] ws)) = weight ws"
proof (induction ws)
  case (Cons w ws)
  then show ?case by (cases ws) auto
qed simp

section \<open>Clean\<close>

fun resolve :: "bool \<Rightarrow> string list \<Rightarrow> string list \<Rightarrow> string list" where
  "resolve rooted st [] = rev st"
| "resolve rooted st (c # cs) =
     (if c = [] \<or> c = ''.'' then resolve rooted st cs
      else if c = ''..'' then
        (case st of
           [] \<Rightarrow> resolve rooted (if rooted then [] else [c]) cs
         | t # ts \<Rightarrow> if t = ''..'' then resolve rooted (c # st) cs else resolve rooted ts cs)
      else resolve rooted (c # st) cs)"

definition is_absolute :: "string \<Rightarrow> bool" where
  "is_absolute p \<longleftrightarrow> has_prefix ''/'' p"

definition clean :: "string \<Rightarrow> string" where
  "clean p =
     (if p = [] then ''.''
      else let cs = resolve (is_absolute p) [] (split_on slash p)
           in if is_absolute p then slash # join ''/'' cs
              else if cs = [] then ''.'' else join ''/'' cs)"

definition parts :: "string \<Rightarrow> string list" where
  "parts p = resolve True [] (split_on slash p)"

lemma is_absolute_iff: "is_absolute p \<longleftrightarrow> (\<exists>q. p = slash # q)"
  by (cases p) (auto simp: is_absolute_def has_prefix_def)

lemma clean_absolute: "is_absolute p \<Longrightarrow> clean p = slash # join ''/'' (parts p)"
  by (auto simp: clean_def parts_def is_absolute_iff)

lemma resolve_weight: "weight (resolve rooted st cs) \<le> weight st + weight cs"
proof (induction rooted st cs rule: resolve.induct)
  case (2 rooted st c cs)
  then show ?case by (cases st) auto
qed simp

lemma clean_length:
  assumes "p \<noteq> []"
  shows "length (clean p) \<le> length p"
proof (cases "is_absolute p")
  case True
  then obtain q where q: "p = slash # q" by (auto simp: is_absolute_iff)
  have "weight (parts p) \<le> Suc (length q)"
    using resolve_weight [of True "[]" "split_on slash q"] by (simp add: q parts_def weight_split)
  then show ?thesis
    unfolding clean_absolute [OF True] using length_join [of "parts p" slash] q by (cases "parts p = []") auto
next
  case False
  let ?cs = "resolve False [] (split_on slash p)"
  have "weight ?cs \<le> Suc (length p)"
    using resolve_weight [of False "[]" "split_on slash p"] by (simp add: weight_split)
  then show ?thesis
    using length_join [of ?cs slash] False assms
    by (cases "?cs = []") (auto simp: clean_def Let_def Suc_le_eq)
qed

lemma resolve_append: "resolve r st (cs @ [[]]) = resolve r st cs"
  by (induction r st cs rule: resolve.induct) (auto split: list.splits)

lemma clean_trailing: "q \<noteq> [] \<Longrightarrow> clean (q @ ''/'') = clean q"
proof -
  assume q: "q \<noteq> []"
  then have "is_absolute (q @ ''/'') = is_absolute q" by (cases q) (auto simp: is_absolute_def has_prefix_def)
  with q show ?thesis by (simp add: clean_def split_on_snoc resolve_append)
qed

section \<open>Dir, Base, Join and Rel\<close>

definition up_to_slash :: "string \<Rightarrow> string" where
  "up_to_slash p = rev (dropWhile (\<lambda>c. c \<noteq> slash) (rev p))"

definition dir :: "string \<Rightarrow> string" where
  "dir p = clean (up_to_slash p)"

definition base :: "string \<Rightarrow> string" where
  "base p =
     (if p = [] then ''.''
      else let q = rev (dropWhile (\<lambda>c. c = slash) (rev p)); b = rev (takeWhile (\<lambda>c. c \<noteq> slash) (rev q))
           in if b = [] then ''/'' else b)"

fun join_path :: "string list \<Rightarrow> string" where
  "join_path [] = []"
| "join_path (e # es) = (if e = [] then join_path es else clean (join ''/'' (e # es)))"

fun strip_common :: "string list \<Rightarrow> string list \<Rightarrow> string list \<times> string list" where
  "strip_common (b # bs) (t # ts) = (if b = t then strip_common bs ts else (b # bs, t # ts))"
| "strip_common bs ts = (bs, ts)"

definition components :: "string \<Rightarrow> string list" where
  "components p = filter (\<lambda>c. c \<noteq> []) (split_on slash p)"

text \<open>\<open>Rel\<close>: \<^const>\<open>None\<close> is an error.\<close>

definition rel_path :: "string \<Rightarrow> string \<Rightarrow> string option" where
  "rel_path basepath targpath =
     (let b = clean basepath; t = clean targpath
      in if t = b then Some ''.''
         else let b' = (if b = ''.'' then [] else b)
              in if is_absolute b' \<noteq> is_absolute t then None
                 else (case strip_common (components b') (components t) of
                         (bs, ts) \<Rightarrow> if bs \<noteq> [] \<and> ts \<noteq> [] \<and> hd bs = ''..'' then None
                                    else Some (join ''/'' (replicate (length bs) ''..'' @ ts))))"

section \<open>The guard's helpers\<close>

definition abs_clean :: "string \<Rightarrow> string \<Rightarrow> string" where
  "abs_clean cwd p =
     (if p = [] then []
      else let q = (if \<not> is_absolute p then if cwd \<noteq> [] then join_path [cwd, p] else p else p) in clean q)"

definition abs_resolve :: "string list \<Rightarrow> string \<Rightarrow> string list" where
  "abs_resolve ps cwd = filter (\<lambda>a. a \<noteq> []) (map (abs_clean cwd) ps)"

text \<open>\<open>realPath\<close>: the loop goes up to the longest prefix that exists.\<close>

definition climb_measure :: "string \<Rightarrow> nat" where
  "climb_measure p = (if p = ''.'' then 0 else Suc (length p))"

lemma up_to_slash_split: "\<exists>post. p = up_to_slash p @ post \<and> slash \<notin> set post"
proof -
  have "p = up_to_slash p @ rev (takeWhile (\<lambda>c. c \<noteq> slash) (rev p))"
    unfolding up_to_slash_def by (metis rev_append rev_rev_ident takeWhile_dropWhile_id)
  then show ?thesis by (intro exI [of _ "rev (takeWhile (\<lambda>c. c \<noteq> slash) (rev p))"]) (auto dest: set_takeWhileD)
qed

lemma up_to_slash_ends: "up_to_slash p = [] \<or> (\<exists>q. up_to_slash p = q @ ''/'')"
proof (cases "dropWhile (\<lambda>c. c \<noteq> slash) (rev p)")
  case (Cons c cs)
  then have "c = slash" using hd_dropWhile [of "\<lambda>c. c \<noteq> slash" "rev p"] by auto
  with Cons show ?thesis by (simp add: up_to_slash_def)
qed (simp add: up_to_slash_def)

lemma dir_climbs:
  assumes "dir p \<noteq> p"
  shows "climb_measure (dir p) < climb_measure p"
proof -
  obtain post where p: "p = up_to_slash p @ post" "slash \<notin> set post" using up_to_slash_split by blast
  consider "up_to_slash p = []" | q where "up_to_slash p = q @ ''/''" using up_to_slash_ends by blast
  then show ?thesis
  proof cases
    case 1
    with assms show ?thesis by (simp add: dir_def clean_def climb_measure_def)
  next
    case (2 q)
    with p(1) have "p \<noteq> ''.''" by (cases q) auto
    show ?thesis
    proof (cases "post = [] \<and> q \<noteq> []")
      case True
      with 2 have "dir p = clean q" by (simp add: dir_def clean_trailing)
      with True clean_length [of q] p(1) 2 \<open>p \<noteq> ''.''\<close> show ?thesis by (simp add: climb_measure_def)
    next
      case False
      show ?thesis
      proof (cases post)
        case Nil
        with False 2 p(1) have "p = ''/''" by simp
        with assms show ?thesis by (simp add: dir_def up_to_slash_def clean_def is_absolute_def has_prefix_def)
      next
        case (Cons c cs)
        with clean_length [of "up_to_slash p"] 2 have "length (dir p) < length p"
          by (subst p(1)) (simp add: dir_def)
        with \<open>p \<noteq> ''.''\<close> show ?thesis by (simp add: climb_measure_def)
      qed
    qed
  qed
qed

function climb :: "(string \<Rightarrow> string option) \<Rightarrow> string \<Rightarrow> string \<Rightarrow> string list \<Rightarrow> string" where
  "climb links p cur rest =
     (let parent = dir cur; rest' = base cur # rest
      in case links parent of
           Some r \<Rightarrow> join_path (r # rest')
         | None \<Rightarrow> if parent = cur then p else climb links p parent rest')"
  by pat_completeness auto
termination
  by (relation "measure (\<lambda>(_, _, cur, _). climb_measure cur)") (auto intro: dir_climbs)

declare climb.simps [simp del]

definition real_path :: "(string \<Rightarrow> string option) \<Rightarrow> string \<Rightarrow> string" where
  "real_path links p =
     (if p = [] then p else case links p of Some r \<Rightarrow> r | None \<Rightarrow> climb links p p [])"

fun path_contained :: "string \<Rightarrow> string list \<Rightarrow> bool" where
  "path_contained target [] = False"
| "path_contained target (anchor # roots) =
     (case rel_path anchor target of
        None \<Rightarrow> path_contained target roots
      | Some rel \<Rightarrow>
          if rel = ''.'' then True
          else if rel = ''..'' \<or> has_prefix ''../'' rel then path_contained target roots
          else True)"

section \<open>Containment is the prefix order\<close>

text \<open>A list of components without empty ones, \<open>.\<close>, \<open>..\<close> and separators.\<close>

definition plain_word :: "string \<Rightarrow> bool" where
  "plain_word c \<longleftrightarrow> c \<noteq> [] \<and> c \<noteq> ''.'' \<and> c \<noteq> ''..'' \<and> slash \<notin> set c"

definition plain :: "string list \<Rightarrow> bool" where
  "plain cs \<longleftrightarrow> list_all plain_word cs"

lemma plain_simps [simp]: "plain []" "plain (c # cs) = (plain_word c \<and> plain cs)" "plain (xs @ ys) = (plain xs \<and> plain ys)"
  "plain (rev xs) = plain xs"
  by (simp_all add: plain_def)

lemma plain_words: "plain cs \<Longrightarrow> c \<in> set cs \<Longrightarrow> c \<noteq> [] \<and> c \<noteq> ''.'' \<and> c \<noteq> ''..'' \<and> slash \<notin> set c"
  by (simp add: plain_def list_all_iff plain_word_def)

lemma not_plain_word [simp]: "\<not> plain_word []" "\<not> plain_word ''.''" "\<not> plain_word ''..''"
  by (simp_all add: plain_word_def)

lemma resolve_plain:
  "\<forall>c \<in> set cs. slash \<notin> set c \<Longrightarrow> plain st \<Longrightarrow> plain (resolve True st cs)"
proof (induction cs arbitrary: st)
  case (Cons c cs)
  show ?case
  proof (cases "c = ''..''")
    case True
    with Cons show ?thesis by (cases st) auto
  next
    case False
    then have "c = [] \<or> c = ''.'' \<or> plain_word c" using Cons.prems by (auto simp: plain_word_def)
    with False Cons show ?thesis by auto
  qed
qed simp

lemma parts_plain [simp]: "plain (parts p)"
  unfolding parts_def by (rule resolve_plain) (auto dest: split_on_sep)

lemma resolve_plain_id: "plain cs \<Longrightarrow> resolve True st cs = rev st @ cs"
proof (induction cs arbitrary: st)
  case (Cons c cs)
  then have "c \<noteq> []" "c \<noteq> ''.''" "c \<noteq> ''..''" by (auto simp: plain_word_def)
  with Cons show ?case by simp
qed simp

lemma split_plain: "plain cs \<Longrightarrow> cs \<noteq> [] \<Longrightarrow> split_on slash (join ''/'' cs) = cs"
  by (rule split_join) (auto dest: plain_words)

lemma components_path: "plain cs \<Longrightarrow> components (slash # join ''/'' cs) = cs"
proof -
  assume p: "plain cs"
  then have "filter (\<lambda>c. c \<noteq> []) cs = cs" by (intro filter_True ballI) (auto dest: plain_words)
  with split_plain [OF p] show ?thesis by (cases "cs = []") (simp_all add: components_def)
qed

lemma parts_path: "plain cs \<Longrightarrow> parts (slash # join ''/'' cs) = cs"
  using split_plain [of cs] resolve_plain_id [of cs "[]"] by (cases "cs = []") (simp_all add: parts_def)

lemma parts_clean: "is_absolute p \<Longrightarrow> parts (clean p) = parts p"
  by (simp add: clean_absolute parts_path)

lemma clean_is_absolute: "is_absolute p \<Longrightarrow> is_absolute (clean p)"
  by (simp add: clean_absolute is_absolute_def has_prefix_def)

lemma clean_eq_iff:
  "is_absolute p \<Longrightarrow> is_absolute q \<Longrightarrow> clean p = clean q \<longleftrightarrow> parts p = parts q"
  by (metis clean_absolute parts_clean)

lemma strip_common_split:
  "strip_common bs ts = (bs', ts') \<Longrightarrow> \<exists>cs. bs = cs @ bs' \<and> ts = cs @ ts'"
  by (induction bs ts rule: strip_common.induct) (auto split: if_splits)

lemma strip_common_prefix: "fst (strip_common bs ts) = [] \<longleftrightarrow> prefix bs ts"
  by (induction bs ts rule: strip_common.induct) auto

lemma join_dots: "\<exists>r. join ''/'' (''..'' # cs) = ''..'' @ r \<and> (r = [] \<or> has_prefix ''/'' r)"
  by (cases cs) (auto simp: has_prefix_def)

lemma join_plain_head:
  assumes "plain cs" and "cs \<noteq> []"
  shows "join ''/'' cs \<noteq> ''..''" and "join ''/'' cs \<noteq> ''.''" and "\<not> has_prefix ''../'' (join ''/'' cs)"
proof -
  have split: "split_on slash (join ''/'' cs) = cs" using assms by (rule split_plain)
  show "join ''/'' cs \<noteq> ''..''" "join ''/'' cs \<noteq> ''.''" using split assms(1) by fastforce+
  show "\<not> has_prefix ''../'' (join ''/'' cs)"
  proof
    assume "has_prefix ''../'' (join ''/'' cs)"
    then obtain r where "join ''/'' cs = ''..'' @ slash # r" by (auto simp: has_prefix_iff)
    with split split_on_append [of slash "''..''" r] have "cs = ''..'' # split_on slash r" by simp
    with assms(1) show False by simp
  qed
qed

lemma rel_path_inside:
  assumes "is_absolute b" and "is_absolute t"
  shows "(case rel_path b t of None \<Rightarrow> False
          | Some rel \<Rightarrow> rel = ''.'' \<or> \<not> (rel = ''..'' \<or> has_prefix ''../'' rel)) \<longleftrightarrow> prefix (parts b) (parts t)"
proof (cases "parts b = parts t")
  case True
  with assms clean_eq_iff [of t b] show ?thesis by (simp add: rel_path_def)
next
  case False
  obtain bs ts where s: "strip_common (parts b) (parts t) = (bs, ts)" by fastforce
  have plain: "plain bs" "plain ts"
    using strip_common_split [OF s] parts_plain [of b] parts_plain [of t] by (metis plain_simps(3))+
  have b: "clean b \<noteq> ''.''" "is_absolute (clean b)" "is_absolute (clean t)" "clean t \<noteq> clean b"
    using assms False clean_eq_iff [of t b] clean_absolute [of b] clean_is_absolute [of b] clean_is_absolute [of t] by auto
  have "components (clean b) = parts b" "components (clean t) = parts t"
    using assms by (simp_all add: clean_absolute components_path)
  moreover have "hd bs \<noteq> ''..''" if "bs \<noteq> []" using plain(1) that by (cases bs) auto
  ultimately have rel: "rel_path b t = Some (join ''/'' (replicate (length bs) ''..'' @ ts))"
    using b s by (auto simp: rel_path_def)
  show ?thesis
  proof (cases bs)
    case Nil
    then have "ts \<noteq> []" using False strip_common_split [OF s] by auto
    with Nil rel join_plain_head [OF plain(2)] strip_common_prefix [of "parts b" "parts t"] s show ?thesis by simp
  next
    case (Cons c cs)
    obtain r where "join ''/'' (replicate (length bs) ''..'' @ ts) = ''..'' @ r" "r = [] \<or> has_prefix ''/'' r"
      using join_dots [of "replicate (length cs) ''..'' @ ts"] Cons by auto
    with rel Cons strip_common_prefix [of "parts b" "parts t"] s show ?thesis
      by (auto simp: has_prefix_iff)
  qed
qed

lemma path_contained_iff:
  assumes "is_absolute t" and "\<forall>r \<in> set roots. is_absolute r"
  shows "path_contained t roots \<longleftrightarrow> (\<exists>r \<in> set roots. prefix (parts r) (parts t))"
  using assms(2)
proof (induction roots)
  case (Cons r roots)
  from rel_path_inside [of r t] Cons.prems assms(1)
  have head: "(case rel_path r t of None \<Rightarrow> False | Some rel \<Rightarrow> rel = ''.'' \<or> \<not> (rel = ''..'' \<or> has_prefix ''../'' rel)) =
      prefix (parts r) (parts t)" by simp
  have "path_contained t (r # roots) \<longleftrightarrow>
      (case rel_path r t of None \<Rightarrow> False | Some rel \<Rightarrow> rel = ''.'' \<or> \<not> (rel = ''..'' \<or> has_prefix ''../'' rel)) \<or> path_contained t roots"
    by (cases "rel_path r t") simp_all
  with head Cons show ?case by simp
qed simp

text \<open>
  the string algorithm of \<open>contained\<close> implements the order of directories. For absolute paths, however
  they are written, \<open>contained\<close> says yes exactly when the components of one of the roots, after resolving
  \<open>.\<close> and \<open>..\<close>, are a prefix of the target's components.
\<close>

theorem containment_refines_prefix:
  assumes "is_absolute target" and "\<forall>r \<in> set roots. is_absolute r"
  shows "path_contained target roots \<longleftrightarrow> (\<exists>r \<in> set roots. prefix (parts r) (parts target))"
  using assms by (rule path_contained_iff)

theorem containment_refines_prefix_witness:
  "\<not> path_contained ''/a/bc/../b/./../bd'' [''/a/b'', ''/a/b//''] \<and> path_contained ''/a/b/../b/c'' [''/x/../a/b'']"
proof -
  have "parts ''/a/bc/../b/./../bd'' = [''a'', ''bd'']" "parts ''/a/b'' = [''a'', ''b'']" "parts ''/a/b//'' = [''a'', ''b'']"
    "parts ''/a/b/../b/c'' = [''a'', ''b'', ''c'']" "parts ''/x/../a/b'' = [''a'', ''b'']"
    by (simp_all add: parts_def)
  then show ?thesis
    using containment_refines_prefix [of "''/a/bc/../b/./../bd''" "[''/a/b'', ''/a/b//'']"]
      containment_refines_prefix [of "''/a/b/../b/c''" "[''/x/../a/b'']"]
    by (simp add: is_absolute_def has_prefix_def)
qed

end
