(* ===== verification/Regexp.thy ===== *)
theory Regexp
  imports GoPrelude
begin

text \<open>
  The part of Go's \<open>regexp\<close> the guard's patterns need: the syntax as a datatype and the leftmost-first
  matching of the package's documentation, written as a backtracking search whose results come in the
  order of preference. Patterns work on the bytes of the text; the negated classes of the patterns accept
  every byte outside ASCII, so they agree with matching code points.
\<close>

datatype rx =
    Eps
  | Cls "char \<Rightarrow> bool"
  | Seq rx rx
  | Alt rx rx
  | Many bool rx
  | Grp rx
  | LineStart
  | LineEnd
  | WordEdge

text \<open>Where a match stands: the byte before, the text from here on, and the group's capture.\<close>

record cursor =
  cu_before :: "char option"
  cu_rest :: string
  cu_group :: string

definition word_char :: "char \<Rightarrow> bool" where
  "word_char c \<longleftrightarrow> c \<in> set ''abcdefghijklmnopqrstuvwxyzABCDEFGHIJKLMNOPQRSTUVWXYZ0123456789_''"

definition rx_space :: "char \<Rightarrow> bool" where
  "rx_space c \<longleftrightarrow> c \<in> {CHR 0x09, CHR 0x0A, CHR 0x0C, CHR 0x0D, CHR '' ''}"

definition word_edge :: "cursor \<Rightarrow> bool" where
  "word_edge u \<longleftrightarrow>
     (case cu_before u of None \<Rightarrow> False | Some c \<Rightarrow> word_char c) \<noteq>
     (case cu_rest u of [] \<Rightarrow> False | c # _ \<Rightarrow> word_char c)"

text \<open>
  Repetition: each round must get further, so as many rounds as there are bytes left are enough. The greedy
  form prefers another round, the lazy one prefers to stop.
\<close>

primrec rounds :: "nat \<Rightarrow> (cursor \<Rightarrow> cursor list) \<Rightarrow> bool \<Rightarrow> cursor \<Rightarrow> cursor list" where
  "rounds 0 f greedy u = [u]"
| "rounds (Suc n) f greedy u =
     (let again = concat (map (rounds n f greedy) (filter (\<lambda>v. length (cu_rest v) < length (cu_rest u)) (f u)))
      in if greedy then again @ [u] else u # again)"

primrec rx_match :: "rx \<Rightarrow> cursor \<Rightarrow> cursor list" where
  "rx_match Eps u = [u]"
| "rx_match (Cls p) u =
     (case cu_rest u of [] \<Rightarrow> [] | c # cs \<Rightarrow> if p c then [u\<lparr>cu_before := Some c, cu_rest := cs\<rparr>] else [])"
| "rx_match (Seq r s) u = concat (map (rx_match s) (rx_match r u))"
| "rx_match (Alt r s) u = rx_match r u @ rx_match s u"
| "rx_match (Many greedy r) u = rounds (length (cu_rest u)) (rx_match r) greedy u"
| "rx_match (Grp r) u =
     map (\<lambda>v. v\<lparr>cu_group := take (length (cu_rest u) - length (cu_rest v)) (cu_rest u)\<rparr>) (rx_match r u)"
| "rx_match LineStart u = (if cu_before u \<in> {None, Some CHR 0x0A} then [u] else [])"
| "rx_match LineEnd u = (if cu_rest u = [] \<or> hd (cu_rest u) = CHR 0x0A then [u] else [])"
| "rx_match WordEdge u = (if word_edge u then [u] else [])"

text \<open>The first match at or after a position, and \<open>FindAllStringSubmatch\<close> for a pattern that never matches nothing.\<close>

fun rx_find :: "rx \<Rightarrow> char option \<Rightarrow> string \<Rightarrow> cursor option" where
  "rx_find r b s =
     (case rx_match r \<lparr>cu_before = b, cu_rest = s, cu_group = []\<rparr> of
        v # _ \<Rightarrow> Some v
      | [] \<Rightarrow> (case s of [] \<Rightarrow> None | c # cs \<Rightarrow> rx_find r (Some c) cs))"

declare rx_find.simps [simp del]

definition match_string :: "rx \<Rightarrow> string \<Rightarrow> bool" where
  "match_string r s \<longleftrightarrow> rx_find r None s \<noteq> None"

function find_groups :: "rx \<Rightarrow> char option \<Rightarrow> string \<Rightarrow> string list" where
  "find_groups r b s =
     (case rx_find r b s of
        None \<Rightarrow> []
      | Some v \<Rightarrow> cu_group v # (if length (cu_rest v) < length s then find_groups r (cu_before v) (cu_rest v) else []))"
  by pat_completeness auto
termination
  by (relation "measure (\<lambda>(_, _, s). length s)") auto

declare find_groups.simps [simp del]

section \<open>Writing patterns\<close>

fun rx_seq :: "rx list \<Rightarrow> rx" where
  "rx_seq [] = Eps"
| "rx_seq [r] = r"
| "rx_seq (r # rs) = Seq r (rx_seq rs)"

fun rx_alt :: "rx list \<Rightarrow> rx" where
  "rx_alt [] = Cls (\<lambda>_. False)"
| "rx_alt [r] = r"
| "rx_alt (r # rs) = Alt r (rx_alt rs)"

abbreviation star :: "rx \<Rightarrow> rx" where
  "star r \<equiv> Many True r"

abbreviation plus :: "rx \<Rightarrow> rx" where
  "plus r \<equiv> Seq r (Many True r)"

abbreviation opt :: "rx \<Rightarrow> rx" where
  "opt r \<equiv> Alt r Eps"

definition lit :: "string \<Rightarrow> rx" where
  "lit s = rx_seq (map (\<lambda>c. Cls (\<lambda>d. d = c)) s)"

text \<open>Under \<open>(?i)\<close> a letter matches both cases, and \<open>k\<close> and \<open>s\<close> the Kelvin sign and the long s too.\<close>

definition fold_char :: "char \<Rightarrow> rx" where
  "fold_char c =
     (let one = Cls (\<lambda>d. ascii_lower [d] = [c])
      in if c = CHR ''k'' then Alt one (lit [CHR 0xE2, CHR 0x84, CHR 0xAA])
         else if c = CHR ''s'' then Alt one (lit [CHR 0xC5, CHR 0xBF])
         else one)"

definition fold_lit :: "string \<Rightarrow> rx" where
  "fold_lit s = rx_seq (map fold_char s)"

definition none_of :: "string \<Rightarrow> rx" where
  "none_of cs = Cls (\<lambda>d. d \<notin> set cs)"

definition spaces :: rx where
  "spaces = star (Cls rx_space)"

lemma rx_match_shrinks: "v \<in> set (rx_match r u) \<Longrightarrow> length (cu_rest v) \<le> length (cu_rest u)"
proof (induction r arbitrary: u v)
  case (Cls p)
  then show ?case by (cases "cu_rest u") (auto split: if_splits)
next
  case (Seq r s)
  from Seq.prems obtain w where w: "w \<in> set (rx_match r u)" "v \<in> set (rx_match s w)" by auto
  from Seq.IH(1) [OF w(1)] Seq.IH(2) [OF w(2)] show ?case by simp
next
  case (Many g r)
  have "v \<in> set (rounds n (rx_match r) g u) \<Longrightarrow> length (cu_rest v) \<le> length (cu_rest u)" for n u
    by (induction n arbitrary: u) (fastforce simp: Let_def split: if_splits)+
  with Many.prems show ?case by simp
qed (auto split: if_splits)

end
