(* ===== verification/Commands.thy ===== *)
theory Commands
  imports Filepath Regexp
begin

text \<open>
  How the guard reads a shell command and a patch (\<open>internal/ccguard/command.go\<close>, and the command parser
  of \<open>paths.go\<close>): the executables a command line starts, the destructive commands it always refuses, the
  files it redirects into, and the files a patch touches.
\<close>

section \<open>Helpers of the standard library\<close>

text \<open>\<open>strings.ReplaceAll\<close> for a nonempty \<open>old\<close>.\<close>

function replace_all :: "string \<Rightarrow> string \<Rightarrow> string \<Rightarrow> string" where
  "replace_all old new s =
     (case s of
        [] \<Rightarrow> []
      | c # cs \<Rightarrow> if old \<noteq> [] \<and> has_prefix old s then new @ replace_all old new (drop (length old) s)
                 else c # replace_all old new cs)"
  by pat_completeness auto
termination
  by (relation "measure (\<lambda>(_, _, s). length s)") auto

declare replace_all.simps [simp del]

text \<open>\<open>strings.Trim(s, cutset)\<close> for an ASCII cutset.\<close>

definition trim_set :: "string \<Rightarrow> string \<Rightarrow> string" where
  "trim_set cs s = rev (dropWhile (\<lambda>c. c \<in> set cs) (rev (dropWhile (\<lambda>c. c \<in> set cs) s)))"

text \<open>The first occurrences, as the loops with a \<open>seen\<close> map keep them.\<close>

fun first_of_each :: "'a list \<Rightarrow> 'a list \<Rightarrow> 'a list" where
  "first_of_each seen [] = []"
| "first_of_each seen (x # xs) = (if x \<in> set seen then first_of_each seen xs else x # first_of_each (x # seen) xs)"

lemma set_first_of_each: "set (first_of_each seen xs) = set xs - set seen"
  by (induction seen xs rule: first_of_each.induct) auto

section \<open>The parser for executables\<close>

definition shell_operators :: "string list" where
  "shell_operators = [''&&'', ''||'', '';'', ''|'', ''&'', [CHR 0x0A], ''`'', ''$('', '')'']"

definition split_shell :: "string \<Rightarrow> string list" where
  "split_shell command =
     filter (\<lambda>s. s \<noteq> [])
       (map trim_space (split_on CHR 0x00 (fold (\<lambda>op s. replace_all op [CHR 0x00] s) shell_operators command)))"

definition is_assignment :: "string \<Rightarrow> bool" where
  "is_assignment tok \<longleftrightarrow>
     (let name = takeWhile (\<lambda>c. c \<noteq> CHR ''='') tok
      in length name < length tok \<and> name \<noteq> [] \<and>
         \<not> (CHR ''/'' \<in> set name \<or> CHR 0x5C \<in> set name \<or> CHR '' '' \<in> set name))"

definition is_wrapper :: "string \<Rightarrow> bool" where
  "is_wrapper tok \<longleftrightarrow> base tok \<in> {''sudo'', ''env'', ''command'', ''nice'', ''nohup'', ''time'', ''xargs'', ''doas''}"

function after_wrappers :: "string list \<Rightarrow> string list" where
  "after_wrappers ts =
     (case ts of
        [] \<Rightarrow> []
      | t # us \<Rightarrow> if is_wrapper t then after_wrappers (dropWhile (\<lambda>u. is_assignment u \<or> has_prefix ''-'' u) us) else ts)"
  by pat_completeness auto
termination
  by (relation "measure length") (auto intro: le_imp_less_Suc length_dropWhile_le)

declare after_wrappers.simps [simp del]

text \<open>\<open>fields[skipWrappers(fields):]\<close>.\<close>

definition skip_wrappers :: "string list \<Rightarrow> string list" where
  "skip_wrappers toks = after_wrappers (dropWhile is_assignment toks)"

definition segment_executable :: "string \<Rightarrow> string option" where
  "segment_executable seg =
     (case skip_wrappers (go_fields seg) of
        [] \<Rightarrow> None
      | tok # _ \<Rightarrow> let exe = base (trim_set [CHR 0x22, CHR 0x27, CHR ''`''] tok)
                  in if exe = [] \<or> exe = ''.'' then None else Some exe)"

definition command_executables :: "string \<Rightarrow> string list" where
  "command_executables command = first_of_each [] (List.map_filter segment_executable (split_shell command))"

section \<open>Refused commands\<close>

definition dangerous_rm_target :: "string \<Rightarrow> bool" where
  "dangerous_rm_target t =
     (let t = trim_set [CHR 0x22, CHR 0x27] t
      in if t \<in> {''/'', ''/*'', ''~'', ''~/'', ''$HOME'', ''${HOME}'', ''*'', ''/.'', ''/*/'', ''.'', ''./'', ''..'', ''../''} then True
         else if has_prefix ''~'' t \<or> has_prefix ''$HOME'' t \<or> has_prefix ''${HOME}'' t then True
         else if has_prefix ''/'' t
         then (let ps = split_on slash (trim_set ''/'' (clean t))
               in length ps \<le> 1 \<or> ''/'' @ hd ps \<in>
                    {''/etc'', ''/usr'', ''/var'', ''/bin'', ''/sbin'', ''/lib'', ''/lib64'', ''/boot'', ''/root'', ''/sys'', ''/proc'',
                     ''/dev'', ''/System'', ''/Library'', ''/Applications'', ''/private''})
         else False)"

text \<open>The loop over the arguments: whether a recursive flag was seen, and the targets.\<close>

fun rm_arguments :: "bool \<Rightarrow> bool \<Rightarrow> string list \<Rightarrow> bool \<times> string list" where
  "rm_arguments end_flags recursive [] = (recursive, [])"
| "rm_arguments end_flags recursive (tok # toks) =
     (if tok = ''--'' then rm_arguments True recursive toks
      else if \<not> end_flags \<and> tok = ''--recursive'' then rm_arguments end_flags True toks
      else if \<not> end_flags \<and> tok = ''--force'' then rm_arguments end_flags recursive toks
      else if \<not> end_flags \<and> has_prefix ''--'' tok then rm_arguments end_flags recursive toks
      else if \<not> end_flags \<and> has_prefix ''-'' tok \<and> length tok > 1
      then rm_arguments end_flags (recursive \<or> CHR ''r'' \<in> set (tl tok) \<or> CHR ''R'' \<in> set (tl tok)) toks
      else (case rm_arguments end_flags recursive toks of (r, ts) \<Rightarrow> (r, tok # ts)))"

definition recursive_rm_of_danger :: "string \<Rightarrow> bool" where
  "recursive_rm_of_danger seg =
     (case skip_wrappers (go_fields seg) of
        [] \<Rightarrow> False
      | tok # args \<Rightarrow>
          if base (trim_set [CHR 0x22, CHR 0x27] tok) \<noteq> ''rm'' then False
          else (case rm_arguments False False args of
                  (recursive, targets) \<Rightarrow> if \<not> recursive then False else list_ex dangerous_rm_target targets))"

definition fold_letter :: rx where
  "fold_letter = rx_alt [Cls (\<lambda>d. ascii_lower [d] \<in> (\<lambda>c. [c]) ` set ''abcdefghijklmnopqrstuvwxyz''),
     lit [CHR 0xE2, CHR 0x84, CHR 0xAA], lit [CHR 0xC5, CHR 0xBF]]"

definition catastrophic_patterns :: "(string \<times> rx) list" where
  "catastrophic_patterns =
     [(''fork bomb'',
       rx_seq [lit '':()'', spaces, lit ''{'', spaces, lit '':'', spaces, lit ''|'', spaces, lit '':'', spaces, lit ''&'', spaces,
         lit ''}'', spaces, lit '';'', spaces, lit '':'']),
      (''filesystem format (mkfs)'',
       rx_seq [WordEdge, fold_lit ''mkfs'', opt (Seq (lit ''.'') (plus (Cls word_char))), WordEdge]),
      (''raw write to a block device (dd)'',
       rx_seq [WordEdge, fold_lit ''dd'', WordEdge, star (none_of ''|&;''), WordEdge, fold_lit ''of=/dev/'']),
      (''redirect to a block device'',
       rx_seq [lit ''>'', spaces, fold_lit ''/dev/'', rx_alt [fold_lit ''sd'', fold_lit ''nvme'', fold_lit ''disk'', fold_lit ''hd'']]),
      (''chmod 777 of the filesystem root'',
       rx_seq [WordEdge, fold_lit ''chmod'', plus (Cls rx_space),
         star (rx_seq [lit ''-'', star fold_letter, plus (Cls rx_space)]), opt (lit ''-''), fold_char CHR ''r'', star fold_letter,
         plus (Cls rx_space), lit ''777'', plus (Cls rx_space), lit ''/'']),
      (''pipe a download straight into a shell'',
       rx_seq [WordEdge, rx_alt [fold_lit ''curl'', fold_lit ''wget'', fold_lit ''fetch''], WordEdge, star (none_of ''|''), lit ''|'',
         spaces, opt (Seq (fold_lit ''sudo'') (plus (Cls rx_space))), star (Cls (\<lambda>c. \<not> rx_space c)),
         opt (rx_alt [fold_lit ''ba'', fold_lit ''z'', fold_lit ''c'', fold_lit ''k'', Seq (opt (fold_lit ''d'')) (fold_lit ''a'')]),
         fold_lit ''sh'', WordEdge])]"

definition catastrophic :: "string \<Rightarrow> string option" where
  "catastrophic command =
     (if list_ex recursive_rm_of_danger (split_shell command) then Some ''recursive force-remove of a dangerous path''
      else map_option fst (find (\<lambda>(_, r). match_string r command) catastrophic_patterns))"

section \<open>Redirections and patches\<close>

definition redirect_pattern :: rx where
  "redirect_pattern =
     rx_seq [opt (lit ''&''), lit ''>'', opt (lit ''>''), opt (lit ''|''), spaces,
       Grp (plus (Cls (\<lambda>c. \<not> rx_space c \<and> c \<notin> set ''|&;<>()'')))]"

definition redirect_targets :: "string \<Rightarrow> string list" where
  "redirect_targets command =
     filter (\<lambda>t. \<not> (t = [] \<or> has_prefix ''/dev/'' t \<or> has_prefix ''&'' t))
       (map (trim_set [CHR 0x22, CHR 0x27]) (find_groups redirect_pattern None command))"

definition patch_pattern :: rx where
  "patch_pattern =
     rx_seq [LineStart, lit ''***'', plus (Cls rx_space),
       Alt (rx_seq [rx_alt [lit ''Add'', lit ''Update'', lit ''Delete''], plus (Cls rx_space), lit ''File''])
           (rx_seq [lit ''Move'', plus (Cls rx_space), lit ''to'']),
       lit '':'', plus (Cls rx_space),
       Grp (Seq (none_of [CHR 0x0A]) (Many False (none_of [CHR 0x0A]))), spaces, LineEnd]"

definition apply_patch_paths :: "string \<Rightarrow> string \<Rightarrow> string list" where
  "apply_patch_paths patch cwd =
     first_of_each [] (filter (\<lambda>p. p \<noteq> []) (map (\<lambda>m. abs_clean cwd (trim_space m)) (find_groups patch_pattern None patch)))"

end
