(* ===== verification/Guard.thy ===== *)
theory Guard
  imports Commands Json Sdk
begin

text \<open>
  The coding-agent guard (\<open>internal/ccguard\<close>): one tool call of the agent is mapped to a capability and the
  objects it touches, and decided offline from the delegation token, the signed revocation feed and a local
  overlay that only denies. \<open>cnst.resources\<close> of the token carries the guard's own rules, entries with the
  prefixes \<open>path:\<close>, \<open>cmd:\<close>, \<open>host:\<close> and their \<open>deny-\<close> forms.

  Parameters are the jwt library, \<open>net/url\<close> with \<open>strings.ToLower\<close>, the time zones, and the file system's
  \<open>EvalSymlinks\<close>. Reasons are values of a datatype instead of formatted text.
\<close>

section \<open>The call\<close>

record hook_input =
  hi_session :: string
  hi_cwd :: string
  hi_tool :: string
  hi_args :: "json option"

text \<open>
  The arguments \<open>classifyVerb\<close> reads. \<open>json.Unmarshal\<close> goes on after a member of the wrong type, and its
  error is ignored.
\<close>

fun lenient_field :: "string \<Rightarrow> string \<Rightarrow> (string \<times> json) list \<Rightarrow> string" where
  "lenient_field name acc [] = acc"
| "lenient_field name acc ((k, v) # kvs) =
     lenient_field name (if fold_name k = name then (case v of JStr s \<Rightarrow> s | _ \<Rightarrow> acc) else acc) kvs"

definition tool_arg :: "json option \<Rightarrow> string \<Rightarrow> string" where
  "tool_arg v name = (case v of Some (JObj kvs) \<Rightarrow> lenient_field name [] kvs | _ \<Rightarrow> [])"

record classified =
  ca_verb :: string
  ca_target :: string
  ca_paths :: "string list"
  ca_cwd :: string

definition first_nonempty :: "string \<Rightarrow> string \<Rightarrow> string" where
  "first_nonempty a b = (if a = [] then b else a)"

definition path_of :: "string \<Rightarrow> string \<Rightarrow> string list" where
  "path_of cwd p = (let q = abs_clean cwd p in if q = [] then [] else [q])"

definition classify_verb :: "(string \<Rightarrow> string) \<Rightarrow> string \<Rightarrow> json option \<Rightarrow> string \<Rightarrow> classified" where
  "classify_verb lower tool v cwd =
     (let op = (\<lambda>verb target paths. \<lparr>ca_verb = verb, ca_target = target, ca_paths = paths, ca_cwd = []\<rparr>);
          file_path = first_nonempty (tool_arg v ''file_path'') (tool_arg v ''filepath'');
          patch = first_nonempty (tool_arg v ''command'') (tool_arg v ''patchtext'');
          name = lower tool
      in if has_prefix ''mcp__'' name then op ''mcp.call'' tool []
         else if name \<in> {''read'', ''notebookread''}
         then (let p = first_nonempty file_path (tool_arg v ''notebook_path'') in op ''fs.read'' (abs_clean cwd p) (path_of cwd p))
         else if name \<in> {''glob'', ''grep'', ''ls'', ''list'', ''list_dir''}
         then (let p = first_nonempty (tool_arg v ''path'') cwd in op ''fs.read'' (abs_clean cwd p) (path_of cwd p))
         else if name \<in> {''write'', ''edit'', ''multiedit''}
         then op ''fs.write'' (abs_clean cwd file_path) (path_of cwd file_path)
         else if name = ''notebookedit''
         then op ''fs.write'' (abs_clean cwd (tool_arg v ''notebook_path'')) (path_of cwd (tool_arg v ''notebook_path''))
         else if name \<in> {''apply_patch'', ''patch''} then op ''fs.write'' ''apply_patch'' (apply_patch_paths patch cwd)
         else if name \<in> {''bash'', ''bashoutput'', ''shell''} then op ''shell.exec'' (trim_space (tool_arg v ''command'')) []
         else if name \<in> {''webfetch'', ''websearch''} then op ''net.fetch'' (tool_arg v ''url'') []
         else if name = ''task'' then op ''agent.spawn'' tool []
         else op ''other'' tool [])"

definition classify :: "(string \<Rightarrow> string) \<Rightarrow> string \<Rightarrow> json option \<Rightarrow> string \<Rightarrow> classified" where
  "classify lower tool v cwd = (classify_verb lower tool v cwd)\<lparr>ca_cwd := cwd\<rparr>"

section \<open>The overlay\<close>

record overlay =
  ov_paths :: "string list"
  ov_cmds :: "string list"
  ov_hosts :: "string list"
  ov_tools :: "string list"

definition overlay_empty :: "overlay option \<Rightarrow> bool" where
  "overlay_empty v =
     (case v of None \<Rightarrow> True
      | Some o' \<Rightarrow> length (ov_paths o') + length (ov_cmds o') + length (ov_hosts o') + length (ov_tools o') = 0)"

definition dedup_sort :: "string list \<Rightarrow> string list" where
  "dedup_sort xs = sort (first_of_each [] (filter (\<lambda>s. s \<noteq> []) xs))"

definition normalize :: "overlay \<Rightarrow> overlay" where
  "normalize v = \<lparr>ov_paths = dedup_sort (ov_paths v), ov_cmds = dedup_sort (ov_cmds v), ov_hosts = dedup_sort (ov_hosts v),
     ov_tools = dedup_sort (ov_tools v)\<rparr>"

definition overlay_add :: "string list \<Rightarrow> string list \<Rightarrow> string list \<Rightarrow> string list \<Rightarrow> overlay \<Rightarrow> overlay" where
  "overlay_add paths cmds hosts tools v =
     normalize \<lparr>ov_paths = ov_paths v @ paths, ov_cmds = ov_cmds v @ cmds, ov_hosts = ov_hosts v @ hosts, ov_tools = ov_tools v @ tools\<rparr>"

definition without :: "string list \<Rightarrow> string list \<Rightarrow> string list" where
  "without xs drops = filter (\<lambda>s. s \<notin> set drops) xs"

definition overlay_remove :: "string list \<Rightarrow> string list \<Rightarrow> string list \<Rightarrow> string list \<Rightarrow> overlay \<Rightarrow> overlay" where
  "overlay_remove paths cmds hosts tools v =
     normalize \<lparr>ov_paths = without (ov_paths v) paths, ov_cmds = without (ov_cmds v) cmds,
       ov_hosts = without (ov_hosts v) hosts, ov_tools = without (ov_tools v) tools\<rparr>"

definition with_overlay :: "overlay option \<Rightarrow> string list \<Rightarrow> (overlay \<Rightarrow> string list) \<Rightarrow> string list" where
  "with_overlay v token_list sel = (case v of None \<Rightarrow> token_list | Some o' \<Rightarrow> if sel o' = [] then token_list else token_list @ sel o')"

section \<open>The guard\<close>

record signed_feed =
  sf_revoked :: "string set"
  sf_version :: int

definition sf_is_revoked :: "signed_feed option \<Rightarrow> string \<Rightarrow> bool" where
  "sf_is_revoked f jti = (case f of None \<Rightarrow> False | Some s \<Rightarrow> jti \<in> sf_revoked s)"

record 'p guard =
  gd_verifier :: "'p sdk_verifier"
  gd_feed :: "signed_feed option"
  gd_token :: string
  gd_deny_all :: string
  gd_self_protect :: "string list"
  gd_overlay :: "overlay option"

record 'p guard_config =
  gc_token :: string
  gc_issuer :: string
  gc_audience :: string
  gc_keys :: "string \<rightharpoonup> 'p"
  gc_feed :: "signed_feed option"
  gc_self_protect :: "string list"
  gc_deny_all :: string
  gc_warn :: string
  gc_overlay :: "overlay option"

definition new_guard :: "'p guard_config \<Rightarrow> 'p guard" where
  "new_guard c =
     \<lparr>gd_verifier = \<lparr>sv_issuer = gc_issuer c, sv_audience = gc_audience c, sv_keys = gc_keys c, sv_feed = None,
        sv_fail_closed = False, sv_max_staleness = 0\<rparr>,
      gd_feed = gc_feed c, gd_token = gc_token c, gd_deny_all = gc_deny_all c, gd_self_protect = gc_self_protect c,
      gd_overlay = gc_overlay c\<rparr>"

datatype block_reason =
    FailClosed string
  | TokenRejected sdk_error
  | DelegationRevoked string
  | OutsideWindow
  | NotGranted string string
  | ToolNotListed string
  | ToolDenied string
  | FsRestricted
  | PathDenied string
  | NoTargetPath
  | PathOutsideRoots string "string list"
  | ShellRestricted
  | CommandRefused string
  | CommandDenied string
  | CommandUnparsed
  | CommandNotListed string "string list"
  | RedirectRefused block_reason
  | NetRestricted
  | HostDenied string
  | HostNotListed string "string list"

record decision =
  de_block :: bool
  de_reason :: "block_reason option"
  de_verb :: string
  de_target :: string
  de_jti :: string
  de_prov :: string

definition claim_resources :: "claims \<Rightarrow> string list" where
  "claim_resources c = (case cl_constraints c of None \<Rightarrow> [] | Some k \<Rightarrow> cn_resources k)"

definition resource_values :: "claims \<Rightarrow> string \<Rightarrow> string list" where
  "resource_values c p = map (trim_prefix p) (filter (has_prefix p) (claim_resources c))"

definition has_scope_in :: "string \<Rightarrow> string \<Rightarrow> bool" where
  "has_scope_in scopes scope = contains (go_fields scopes) scope"

definition scope_or_none :: "string \<Rightarrow> string" where
  "scope_or_none s = (if trim_space s = [] then ''(none)'' else s)"

definition short_id :: "string \<Rightarrow> string" where
  "short_id s = (if length s > 10 then take 10 s @ [CHR 0xE2, CHR 0x80, CHR 0xA6] else s)"

definition host_of :: "'r url_lib \<Rightarrow> string \<Rightarrow> string" where
  "host_of urls raw = (case ul_parse urls (trim_space raw) of None \<Rightarrow> [] | Some u \<Rightarrow> ul_lower urls (hostname u))"

definition host_matches :: "string \<Rightarrow> string \<Rightarrow> bool" where
  "host_matches host h \<longleftrightarrow> host = h \<or> has_suffix (''.'' @ h) host"

definition check_paths :: "(string \<Rightarrow> string option) \<Rightarrow> 'p guard \<Rightarrow> claims \<Rightarrow> string list \<Rightarrow> string \<Rightarrow> block_reason option" where
  "check_paths links g c paths cwd =
     (if contains (claim_resources c) deny_all then Some FsRestricted
      else
        let deny = gd_self_protect g @ abs_resolve (with_overlay (gd_overlay g) (resource_values c ''deny-path:'') ov_paths) cwd
        in case find (\<lambda>p. path_contained (real_path links p) (map (real_path links) deny)) paths of
             Some p \<Rightarrow> Some (PathDenied p)
           | None \<Rightarrow>
               let allow = resource_values c ''path:''
               in if allow = [] then None
                  else if paths = [] then Some NoTargetPath
                  else (case find (\<lambda>p. \<not> path_contained (real_path links p) (map (real_path links) (abs_resolve allow cwd))) paths of
                          Some p \<Rightarrow> Some (PathOutsideRoots p allow)
                        | None \<Rightarrow> None))"

definition check_command :: "(string \<Rightarrow> string option) \<Rightarrow> 'p guard \<Rightarrow> claims \<Rightarrow> string \<Rightarrow> string \<Rightarrow> block_reason option" where
  "check_command links g c command cwd =
     (if contains (claim_resources c) deny_all then Some ShellRestricted
      else case catastrophic command of
             Some why \<Rightarrow> Some (CommandRefused why)
           | None \<Rightarrow>
               let exes = command_executables command;
                   denied = with_overlay (gd_overlay g) (resource_values c ''deny-cmd:'') ov_cmds;
                   allowed = resource_values c ''cmd:'';
                   targets = redirect_targets command
               in err_then (map_option CommandDenied (find (contains denied) exes))
                 (err_then
                    (if allowed = [] then None
                     else if exes = [] then Some CommandUnparsed
                     else map_option (\<lambda>e. CommandNotListed e allowed) (find (\<lambda>e. \<not> contains allowed e) exes))
                    (if targets = [] then None
                     else map_option RedirectRefused (check_paths links g c (abs_resolve targets cwd) cwd))))"

definition check_host :: "'r url_lib \<Rightarrow> 'p guard \<Rightarrow> claims \<Rightarrow> string \<Rightarrow> block_reason option" where
  "check_host urls g c raw =
     (if contains (claim_resources c) deny_all then Some NetRestricted
      else
        let host = host_of urls raw; allowed = resource_values c ''host:''
        in if list_ex (host_matches host) (with_overlay (gd_overlay g) (resource_values c ''deny-host:'') ov_hosts)
           then Some (HostDenied host)
           else if allowed = [] then None
           else if list_ex (host_matches host) allowed then None
           else Some (HostNotListed host allowed))"

text \<open>The checks on the verified claims, in the order of \<open>Decide\<close>.\<close>

definition check_claims ::
    "'r url_lib \<Rightarrow> tzdb \<Rightarrow> (string \<Rightarrow> string option) \<Rightarrow> instant \<Rightarrow> 'p guard \<Rightarrow> claims \<Rightarrow> string \<Rightarrow> classified \<Rightarrow> block_reason option" where
  "check_claims urls tzdb links now g c tool act =
     err_then (if rc_jti c \<noteq> [] \<and> sf_is_revoked (gd_feed g) (rc_jti c) then Some (DelegationRevoked (short_id (rc_jti c))) else None)
    (err_then (case cl_constraints c of
                 None \<Rightarrow> None
               | Some k \<Rightarrow> (case cn_time_window k of
                     None \<Rightarrow> None | Some w \<Rightarrow> if \<not> allows tzdb w now then Some OutsideWindow else None))
    (err_then (if \<not> has_scope_in (cl_scope c) (ca_verb act) \<and> \<not> has_scope_in (cl_scope c) ''*''
               then Some (NotGranted (ca_verb act) (scope_or_none (cl_scope c))) else None)
    (err_then (case cl_constraints c of
                 None \<Rightarrow> None
               | Some k \<Rightarrow> if cn_tools k \<noteq> [] \<and> \<not> contains (cn_tools k) tool then Some (ToolNotListed tool) else None)
    (err_then (if contains (with_overlay (gd_overlay g) (resource_values c ''deny-tool:'') ov_tools) tool then Some (ToolDenied tool) else None)
      (if ca_verb act = ''fs.read'' \<or> ca_verb act = ''fs.write'' then check_paths links g c (ca_paths act) (ca_cwd act)
       else if ca_verb act = ''shell.exec'' then check_command links g c (ca_target act) (ca_cwd act)
       else if ca_verb act = ''net.fetch'' then check_host urls g c (ca_target act)
       else None)))))"

definition decide ::
    "('k, 'p) delegation_jwt \<Rightarrow> 'r url_lib \<Rightarrow> tzdb \<Rightarrow> (string \<Rightarrow> string option) \<Rightarrow> instant \<Rightarrow> 'p guard \<Rightarrow> hook_input \<Rightarrow> decision" where
  "decide lib urls tzdb links now g i =
     (let act = classify (ul_lower urls) (hi_tool i) (hi_args i) (hi_cwd i);
          dec = \<lparr>de_block = False, de_reason = None, de_verb = ca_verb act, de_target = ca_target act, de_jti = [], de_prov = []\<rparr>
      in if gd_deny_all g \<noteq> [] then dec\<lparr>de_block := True, de_reason := Some (FailClosed (gd_deny_all g))\<rparr>
         else case sdk_verify lib urls (gd_verifier g) now (gd_token g) of
                Inl e \<Rightarrow> dec\<lparr>de_block := True, de_reason := Some (TokenRejected e)\<rparr>
              | Inr c \<Rightarrow>
                  let dec' = dec\<lparr>de_jti := rc_jti c, de_prov := sdk_provenance c\<rparr>
                  in (case check_claims urls tzdb links now g c (hi_tool i) act of
                        Some r \<Rightarrow> dec'\<lparr>de_block := True, de_reason := Some r\<rparr>
                      | None \<Rightarrow> dec'))"

section \<open>When a call is allowed\<close>

lemma find_None_all: "find P xs = None \<longleftrightarrow> (\<forall>x \<in> set xs. \<not> P x)"
  by (auto simp: find_None_iff)

lemma with_overlay_set: "set (with_overlay v xs sel) = set xs \<union> (case v of None \<Rightarrow> {} | Some o' \<Rightarrow> set (sel o'))"
  by (auto simp: with_overlay_def split: option.split)

text \<open>The paths the guard protects, and the roots it allows, as \<open>checkPaths\<close> resolves them.\<close>

definition denied_roots :: "'p guard \<Rightarrow> claims \<Rightarrow> string \<Rightarrow> string list" where
  "denied_roots g c cwd =
     gd_self_protect g @ abs_resolve (with_overlay (gd_overlay g) (resource_values c ''deny-path:'') ov_paths) cwd"

lemma check_paths_None_iff:
  "check_paths links g c paths cwd = None \<longleftrightarrow>
     deny_all \<notin> set (claim_resources c) \<and>
     (\<forall>p \<in> set paths. \<not> path_contained (real_path links p) (map (real_path links) (denied_roots g c cwd))) \<and>
     (resource_values c ''path:'' = [] \<or> paths \<noteq> [] \<and>
        (\<forall>p \<in> set paths. path_contained (real_path links p) (map (real_path links) (abs_resolve (resource_values c ''path:'') cwd))))"
  by (auto simp: check_paths_def denied_roots_def [symmetric] Let_def find_None_all split: option.split dest!: find_SomeD)

lemma check_command_None_iff:
  "check_command links g c command cwd = None \<longleftrightarrow>
     deny_all \<notin> set (claim_resources c) \<and> catastrophic command = None \<and>
     (\<forall>e \<in> set (command_executables command). e \<notin> set (with_overlay (gd_overlay g) (resource_values c ''deny-cmd:'') ov_cmds)) \<and>
     (resource_values c ''cmd:'' = [] \<or> command_executables command \<noteq> [] \<and>
        (\<forall>e \<in> set (command_executables command). e \<in> set (resource_values c ''cmd:''))) \<and>
     (redirect_targets command = [] \<or> check_paths links g c (abs_resolve (redirect_targets command) cwd) cwd = None)"
  by (auto simp: check_command_def Let_def find_None_all split: option.split dest!: find_SomeD)

lemma check_host_None_iff:
  "check_host urls g c raw = None \<longleftrightarrow>
     deny_all \<notin> set (claim_resources c) \<and>
     (\<forall>h \<in> set (with_overlay (gd_overlay g) (resource_values c ''deny-host:'') ov_hosts). \<not> host_matches (host_of urls raw) h) \<and>
     (resource_values c ''host:'' = [] \<or> (\<exists>h \<in> set (resource_values c ''host:''). host_matches (host_of urls raw) h))"
  by (auto simp: check_host_def Let_def list_ex_iff)

definition in_window :: "tzdb \<Rightarrow> instant \<Rightarrow> claims \<Rightarrow> bool" where
  "in_window tzdb now c \<longleftrightarrow>
     (\<forall>k w. cl_constraints c = Some k \<longrightarrow> cn_time_window k = Some w \<longrightarrow> allows tzdb w now)"

definition tool_granted :: "claims \<Rightarrow> string \<Rightarrow> string \<Rightarrow> bool" where
  "tool_granted c tool verb \<longleftrightarrow>
     (verb \<in> set (go_fields (cl_scope c)) \<or> ''*'' \<in> set (go_fields (cl_scope c))) \<and>
     (\<forall>k. cl_constraints c = Some k \<longrightarrow> cn_tools k = [] \<or> tool \<in> set (cn_tools k))"

definition verb_check ::
    "'r url_lib \<Rightarrow> (string \<Rightarrow> string option) \<Rightarrow> 'p guard \<Rightarrow> claims \<Rightarrow> classified \<Rightarrow> block_reason option" where
  "verb_check urls links g c act =
     (if ca_verb act = ''fs.read'' \<or> ca_verb act = ''fs.write'' then check_paths links g c (ca_paths act) (ca_cwd act)
      else if ca_verb act = ''shell.exec'' then check_command links g c (ca_target act) (ca_cwd act)
      else if ca_verb act = ''net.fetch'' then check_host urls g c (ca_target act)
      else None)"

lemma check_claims_None_iff:
  "check_claims urls tzdb links now g c tool act = None \<longleftrightarrow>
     \<not> (rc_jti c \<noteq> [] \<and> sf_is_revoked (gd_feed g) (rc_jti c)) \<and> in_window tzdb now c \<and> tool_granted c tool (ca_verb act) \<and>
     tool \<notin> set (with_overlay (gd_overlay g) (resource_values c ''deny-tool:'') ov_tools) \<and> verb_check urls links g c act = None"
proof -
  have "(case cl_constraints c of
           None \<Rightarrow> None
         | Some k \<Rightarrow> (case cn_time_window k of
               None \<Rightarrow> None | Some w \<Rightarrow> if \<not> allows tzdb w now then Some OutsideWindow else None)) = None \<longleftrightarrow> in_window tzdb now c"
    by (auto simp: in_window_def split: option.splits)
  moreover have "(if \<not> has_scope_in (cl_scope c) (ca_verb act) \<and> \<not> has_scope_in (cl_scope c) ''*''
         then Some (NotGranted (ca_verb act) (scope_or_none (cl_scope c))) else None) = None \<and>
       (case cl_constraints c of
           None \<Rightarrow> None
         | Some k \<Rightarrow> if cn_tools k \<noteq> [] \<and> \<not> contains (cn_tools k) tool then Some (ToolNotListed tool) else None) = None \<longleftrightarrow>
       tool_granted c tool (ca_verb act)"
    by (auto simp: tool_granted_def has_scope_in_def split: option.splits)
  ultimately show ?thesis
    unfolding check_claims_def verb_check_def [symmetric] by auto
qed

definition call_of :: "'r url_lib \<Rightarrow> hook_input \<Rightarrow> classified" where
  "call_of urls i = classify (ul_lower urls) (hi_tool i) (hi_args i) (hi_cwd i)"

lemma allowed_iff:
  "\<not> de_block (decide lib urls tzdb links now g i) \<longleftrightarrow>
     gd_deny_all g = [] \<and>
     (\<exists>c. sdk_verify lib urls (gd_verifier g) now (gd_token g) = Inr c \<and>
        check_claims urls tzdb links now g c (hi_tool i) (call_of urls i) = None)"
  by (auto simp: decide_def call_of_def Let_def split: sum.split option.split)

subsection \<open>Overlays\<close>

definition overlay_rules :: "overlay option \<Rightarrow> (overlay \<Rightarrow> string list) \<Rightarrow> string set" where
  "overlay_rules v sel = (case v of None \<Rightarrow> {} | Some o' \<Rightarrow> set (sel o'))"

definition overlay_within :: "overlay option \<Rightarrow> overlay option \<Rightarrow> bool" where
  "overlay_within a b \<longleftrightarrow>
     overlay_rules a ov_paths \<subseteq> overlay_rules b ov_paths \<and> overlay_rules a ov_cmds \<subseteq> overlay_rules b ov_cmds \<and>
     overlay_rules a ov_hosts \<subseteq> overlay_rules b ov_hosts \<and> overlay_rules a ov_tools \<subseteq> overlay_rules b ov_tools"

lemma set_dedup_sort: "set (dedup_sort xs) = set xs - {[]}"
  by (auto simp: dedup_sort_def set_first_of_each)

lemma dedup_sort_facts: "sorted (dedup_sort xs)" "distinct (dedup_sort xs)"
proof -
  have "distinct (first_of_each seen ys)" for seen ys :: "string list"
    by (induction seen ys rule: first_of_each.induct) (auto simp: set_first_of_each)
  then show "sorted (dedup_sort xs)" "distinct (dedup_sort xs)" by (simp_all add: dedup_sort_def)
qed

lemma overlay_within_add: "overlay_within (Some (normalize v)) (Some (overlay_add ps cs hs ts v))"
  by (auto simp: overlay_within_def overlay_rules_def overlay_add_def normalize_def set_dedup_sort)

lemma overlay_within_none: "overlay_within None v"
  by (simp add: overlay_within_def overlay_rules_def)

lemma contained_any: "path_contained t zs \<longleftrightarrow> (\<exists>z \<in> set zs. path_contained t [z])"
  by (induction zs) (auto split: option.splits)

lemma contained_mono: "path_contained t xs \<Longrightarrow> set xs \<subseteq> set ys \<Longrightarrow> path_contained t ys"
  using contained_any by blast

lemma with_overlay_mono:
  "overlay_rules a sel \<subseteq> overlay_rules b sel \<Longrightarrow> set (with_overlay a xs sel) \<subseteq> set (with_overlay b xs sel)"
  unfolding with_overlay_set overlay_rules_def by blast

lemma set_abs_resolve: "set (abs_resolve ps cwd) = abs_clean cwd ` set ps - {[]}"
  by (auto simp: abs_resolve_def)

lemma check_paths_overlay:
  assumes "overlay_within a b" and "check_paths links (g\<lparr>gd_overlay := b\<rparr>) c paths cwd = None"
  shows "check_paths links (g\<lparr>gd_overlay := a\<rparr>) c paths cwd = None"
proof -
  have "set (denied_roots (g\<lparr>gd_overlay := a\<rparr>) c cwd) \<subseteq> set (denied_roots (g\<lparr>gd_overlay := b\<rparr>) c cwd)"
    using with_overlay_mono [of a ov_paths b] assms(1) by (auto simp: denied_roots_def set_abs_resolve overlay_within_def)
  then have "set (map (real_path links) (denied_roots (g\<lparr>gd_overlay := a\<rparr>) c cwd)) \<subseteq>
      set (map (real_path links) (denied_roots (g\<lparr>gd_overlay := b\<rparr>) c cwd))" by auto
  with assms(2) contained_mono show ?thesis unfolding check_paths_None_iff by blast
qed

lemma check_claims_overlay:
  assumes "overlay_within a b" and "check_claims urls tzdb links now (g\<lparr>gd_overlay := b\<rparr>) c tool act = None"
  shows "check_claims urls tzdb links now (g\<lparr>gd_overlay := a\<rparr>) c tool act = None"
proof -
  have sub: "set (with_overlay a xs ov_cmds) \<subseteq> set (with_overlay b xs ov_cmds)"
    "set (with_overlay a xs ov_hosts) \<subseteq> set (with_overlay b xs ov_hosts)"
    "set (with_overlay a xs ov_tools) \<subseteq> set (with_overlay b xs ov_tools)" for xs
    using assms(1) with_overlay_mono by (simp_all add: overlay_within_def)
  have cmd: "check_command links (g\<lparr>gd_overlay := a\<rparr>) c command cwd = None"
    if "check_command links (g\<lparr>gd_overlay := b\<rparr>) c command cwd = None" for command cwd
    using that sub(1) [of "resource_values c ''deny-cmd:''"]
      check_paths_overlay [OF assms(1), of links g c "abs_resolve (redirect_targets command) cwd" cwd]
    unfolding check_command_None_iff by fastforce
  have host: "check_host urls (g\<lparr>gd_overlay := a\<rparr>) c raw = None"
    if "check_host urls (g\<lparr>gd_overlay := b\<rparr>) c raw = None" for raw
    using that sub(2) [of "resource_values c ''deny-host:''"] unfolding check_host_None_iff by auto
  have verb: "verb_check urls links (g\<lparr>gd_overlay := b\<rparr>) c act = None \<Longrightarrow> verb_check urls links (g\<lparr>gd_overlay := a\<rparr>) c act = None"
    unfolding verb_check_def using check_paths_overlay [OF assms(1)] cmd host by metis
  have "gd_feed (g\<lparr>gd_overlay := a\<rparr>) = gd_feed (g\<lparr>gd_overlay := b\<rparr>)" by simp
  with assms(2) verb sub(3) [of "resource_values c ''deny-tool:''"] show ?thesis
    unfolding check_claims_None_iff by auto
qed

text \<open>What the rules of an overlay refuse on their own, whatever the token says.\<close>

definition overlay_hits :: "'r url_lib \<Rightarrow> (string \<Rightarrow> string option) \<Rightarrow> overlay \<Rightarrow> string \<Rightarrow> classified \<Rightarrow> bool" where
  "overlay_hits urls links v tool act \<longleftrightarrow>
     tool \<in> set (ov_tools v) \<or>
     (let refused = (\<lambda>p. path_contained (real_path links p) (map (real_path links) (abs_resolve (ov_paths v) (ca_cwd act))))
      in if ca_verb act = ''fs.read'' \<or> ca_verb act = ''fs.write'' then \<exists>p \<in> set (ca_paths act). refused p
         else if ca_verb act = ''shell.exec''
         then (\<exists>e \<in> set (command_executables (ca_target act)). e \<in> set (ov_cmds v)) \<or>
              (\<exists>p \<in> set (abs_resolve (redirect_targets (ca_target act)) (ca_cwd act)). refused p)
         else if ca_verb act = ''net.fetch'' then \<exists>h \<in> set (ov_hosts v). host_matches (host_of urls (ca_target act)) h
         else False)"

lemma contained_union:
  "set zs = set xs \<union> set ys \<Longrightarrow> path_contained t zs \<longleftrightarrow> path_contained t xs \<or> path_contained t ys"
  using contained_any by (metis Un_iff)

lemma check_paths_split:
  "check_paths links (g\<lparr>gd_overlay := Some v\<rparr>) c paths cwd = None \<longleftrightarrow>
     check_paths links (g\<lparr>gd_overlay := None\<rparr>) c paths cwd = None \<and>
     (\<forall>p \<in> set paths. \<not> path_contained (real_path links p) (map (real_path links) (abs_resolve (ov_paths v) cwd)))"
proof -
  let ?r = "real_path links"
  have "set (map ?r (denied_roots (g\<lparr>gd_overlay := Some v\<rparr>) c cwd)) =
      set (map ?r (denied_roots (g\<lparr>gd_overlay := None\<rparr>) c cwd)) \<union> set (map ?r (abs_resolve (ov_paths v) cwd))"
    by (auto simp: denied_roots_def set_abs_resolve with_overlay_set)
  from contained_union [OF this] show ?thesis unfolding check_paths_None_iff by auto
qed

lemma check_claims_split:
  "check_claims urls tzdb links now (g\<lparr>gd_overlay := Some v\<rparr>) c tool act = None \<longleftrightarrow>
     check_claims urls tzdb links now (g\<lparr>gd_overlay := None\<rparr>) c tool act = None \<and> \<not> overlay_hits urls links v tool act"
proof -
  have add: "set (with_overlay (Some v) xs sel) = set xs \<union> set (sel v)" "set (with_overlay None xs sel) = set xs" for xs sel
    by (simp_all add: with_overlay_set)
  have none: "abs_resolve [] cwd = []" for cwd by (simp add: abs_resolve_def)
  have cmd: "check_command links (g\<lparr>gd_overlay := Some v\<rparr>) c command cwd = None \<longleftrightarrow>
      check_command links (g\<lparr>gd_overlay := None\<rparr>) c command cwd = None \<and>
      (\<forall>e \<in> set (command_executables command). e \<notin> set (ov_cmds v)) \<and>
      (\<forall>p \<in> set (abs_resolve (redirect_targets command) cwd).
         \<not> path_contained (real_path links p) (map (real_path links) (abs_resolve (ov_paths v) cwd)))" for command cwd
    using none [of cwd] unfolding check_command_None_iff check_paths_split by (auto simp: add)
  have host: "check_host urls (g\<lparr>gd_overlay := Some v\<rparr>) c raw = None \<longleftrightarrow>
      check_host urls (g\<lparr>gd_overlay := None\<rparr>) c raw = None \<and> (\<forall>h \<in> set (ov_hosts v). \<not> host_matches (host_of urls raw) h)" for raw
    unfolding check_host_None_iff by (auto simp: add)
  show ?thesis
    unfolding check_claims_None_iff verb_check_def overlay_hits_def Let_def by (auto simp: add check_paths_split cmd host)
qed

text \<open>
  C22: the overlay only denies, and denies what it says. A call is allowed under an overlay exactly when it is
  allowed without one and none of the overlay's rules hits it: its tool, one of its paths (below a rule, links
  resolved), an executable or a redirection of its command, its host. So it is allowed under every overlay with
  fewer rules. \<open>Add\<close> yields exactly the rules there were and the given ones, \<open>Remove\<close> exactly the rules there
  were without the given ones, each list sorted, without duplicates and without the empty string.
\<close>

theorem overlay_only_tightens:
  assumes "overlay_within a b" and "\<not> de_block (decide lib urls tzdb links now (g\<lparr>gd_overlay := b\<rparr>) i)"
  shows "\<not> de_block (decide lib urls tzdb links now (g\<lparr>gd_overlay := a\<rparr>) i) \<and>
    (\<not> de_block (decide lib urls tzdb links now (g\<lparr>gd_overlay := Some v\<rparr>) i) \<longleftrightarrow>
       \<not> de_block (decide lib urls tzdb links now (g\<lparr>gd_overlay := None\<rparr>) i) \<and>
       \<not> overlay_hits urls links v (hi_tool i) (call_of urls i)) \<and>
    (\<forall>(sel, given) \<in> set [(ov_paths, ps), (ov_cmds, cs), (ov_hosts, hs), (ov_tools, ts)].
       set (sel (overlay_add ps cs hs ts v)) = set (sel v) \<union> set given - {[]} \<and>
       set (sel (overlay_remove ps cs hs ts v)) = set (sel v) - set given - {[]} \<and>
       sorted (sel (overlay_add ps cs hs ts v)) \<and> distinct (sel (overlay_add ps cs hs ts v)) \<and>
       sorted (sel (overlay_remove ps cs hs ts v)) \<and> distinct (sel (overlay_remove ps cs hs ts v)))"
proof (intro conjI)
  show "\<not> de_block (decide lib urls tzdb links now (g\<lparr>gd_overlay := a\<rparr>) i)"
    using assms(2) check_claims_overlay [OF assms(1)] by (auto simp: allowed_iff)
  show "\<not> de_block (decide lib urls tzdb links now (g\<lparr>gd_overlay := Some v\<rparr>) i) \<longleftrightarrow>
       \<not> de_block (decide lib urls tzdb links now (g\<lparr>gd_overlay := None\<rparr>) i) \<and>
       \<not> overlay_hits urls links v (hi_tool i) (call_of urls i)"
    unfolding allowed_iff check_claims_split by auto
qed (simp add: overlay_add_def overlay_remove_def normalize_def set_dedup_sort dedup_sort_facts without_def set_diff_eq)

section \<open>Containment of file access\<close>

definition absolute_links :: "(string \<Rightarrow> string option) \<Rightarrow> bool" where
  "absolute_links links \<longleftrightarrow> (\<forall>p r. links p = Some r \<longrightarrow> is_absolute r)"

lemma join_absolute: "is_absolute r \<Longrightarrow> is_absolute (join ''/'' (r # rest))"
  by (cases rest) (auto simp: is_absolute_iff)

lemma join_path_absolute: "is_absolute r \<Longrightarrow> is_absolute (join_path (r # rest))"
  using clean_is_absolute [OF join_absolute [of r rest]] by (auto simp: is_absolute_iff)

lemma climb_absolute: "absolute_links links \<Longrightarrow> is_absolute p \<Longrightarrow> is_absolute (climb links p cur rest)"
proof (induction links p cur rest rule: climb.induct)
  case (1 links p cur rest)
  show ?case
  proof (cases "links (dir cur)")
    case None
    with 1 show ?thesis by (subst climb.simps) (auto simp: Let_def)
  next
    case (Some r)
    with 1(2) have "is_absolute r" by (auto simp: absolute_links_def)
    with Some join_path_absolute show ?thesis by (subst climb.simps) (simp add: Let_def)
  qed
qed

lemma real_path_absolute: "absolute_links links \<Longrightarrow> is_absolute p \<Longrightarrow> is_absolute (real_path links p)"
  using climb_absolute [of links p p "[]"] by (auto simp: real_path_def absolute_links_def split: option.split)

lemma abs_clean_absolute: "is_absolute cwd \<Longrightarrow> p \<noteq> [] \<Longrightarrow> is_absolute (abs_clean cwd p)"
  by (cases "cwd = []") (simp_all add: abs_clean_def Let_def clean_is_absolute join_path_absolute is_absolute_iff [of "[]"] del: join_path.simps)

lemma abs_resolve_absolute: "is_absolute cwd \<Longrightarrow> r \<in> set (abs_resolve ps cwd) \<Longrightarrow> is_absolute r"
proof -
  assume "is_absolute cwd" "r \<in> set (abs_resolve ps cwd)"
  then obtain p where "r = abs_clean cwd p" "r \<noteq> []" by (auto simp: set_abs_resolve)
  with \<open>is_absolute cwd\<close> abs_clean_absolute [of cwd p] show ?thesis by (cases "p = []") (auto simp: abs_clean_def)
qed

text \<open>A path, with its links resolved, lies at or below a root.\<close>

definition below :: "(string \<Rightarrow> string option) \<Rightarrow> string \<Rightarrow> string \<Rightarrow> bool" where
  "below links p r \<longleftrightarrow> prefix (parts (real_path links r)) (parts (real_path links p))"

lemma contained_below:
  assumes "absolute_links links" and "is_absolute p" and "\<forall>r \<in> set roots. is_absolute r"
  shows "path_contained (real_path links p) (map (real_path links) roots) \<longleftrightarrow> (\<exists>r \<in> set roots. below links p r)"
  using path_contained_iff [of "real_path links p" "map (real_path links) roots"] real_path_absolute [OF assms(1)] assms(2,3)
  by (auto simp: below_def)

lemma path_of_absolute: "is_absolute cwd \<Longrightarrow> p \<in> set (path_of cwd q) \<Longrightarrow> is_absolute p"
  using abs_clean_absolute [of cwd q] by (cases "q = []") (auto simp: path_of_def abs_clean_def Let_def split: if_splits)

lemma patch_paths_absolute: "is_absolute cwd \<Longrightarrow> p \<in> set (apply_patch_paths patch cwd) \<Longrightarrow> is_absolute p"
proof -
  assume cwd: "is_absolute cwd" and "p \<in> set (apply_patch_paths patch cwd)"
  then obtain m where "p = abs_clean cwd m" "p \<noteq> []" by (auto simp: apply_patch_paths_def set_first_of_each)
  with abs_clean_absolute [OF cwd, of m] show ?thesis by (cases "m = []") (auto simp: abs_clean_def)
qed

lemma call_paths_absolute:
  assumes "is_absolute (hi_cwd i)" and "p \<in> set (ca_paths (call_of urls i))"
  shows "is_absolute p"
proof -
  have "p \<in> set (ca_paths (classify_verb (ul_lower urls) (hi_tool i) (hi_args i) (hi_cwd i)))"
    using assms(2) by (simp add: call_of_def classify_def)
  then obtain q where "p \<in> set (path_of (hi_cwd i) q) \<or> p \<in> set (apply_patch_paths q (hi_cwd i))"
    by (auto simp: classify_verb_def Let_def split: if_splits)
  then show ?thesis using path_of_absolute [OF assms(1)] patch_paths_absolute [OF assms(1)] by blast
qed

text \<open>
  C12: the paths a file call names stay where the token allows them. If a file call is allowed, the token
  verified and was not on the feed, and each path the call names, with every symbolic link resolved, lies below
  none of the guard's own files and of the denied paths of token and overlay; and when the token has roots, the
  call names a path, and each is below one of them. \<open>below\<close> is the prefix order on the resolved components, so
  neither \<open>..\<close> nor a link gets out. (A search or a listing names the directory it starts in: what it finds
  below that directory is not checked, see theory \<open>GuardLocal\<close>. A token without roots confines nothing.)
\<close>

theorem guard_contains_files:
  assumes "absolute_links links" and "is_absolute (hi_cwd i)" and "\<forall>r \<in> set (gd_self_protect g). is_absolute r"
    and "\<not> de_block (decide lib urls tzdb links now g i)" and "ca_verb (call_of urls i) \<in> {''fs.read'', ''fs.write''}"
  shows "\<exists>c. sdk_verify lib urls (gd_verifier g) now (gd_token g) = Inr c \<and> \<not> (rc_jti c \<noteq> [] \<and> sf_is_revoked (gd_feed g) (rc_jti c)) \<and>
    (\<forall>p \<in> set (ca_paths (call_of urls i)). \<forall>r \<in> set (denied_roots g c (hi_cwd i)). \<not> below links p r) \<and>
    (resource_values c ''path:'' \<noteq> [] \<longrightarrow> ca_paths (call_of urls i) \<noteq> [] \<and>
       (\<forall>p \<in> set (ca_paths (call_of urls i)).
          \<exists>r \<in> set (abs_resolve (resource_values c ''path:'') (hi_cwd i)). below links p r))"
proof -
  from assms(4) obtain c where c: "sdk_verify lib urls (gd_verifier g) now (gd_token g) = Inr c"
    "check_claims urls tzdb links now g c (hi_tool i) (call_of urls i) = None" by (auto simp: allowed_iff)
  have cwd: "ca_cwd (call_of urls i) = hi_cwd i" by (simp add: call_of_def classify_def)
  from c(2) assms(5) have "check_paths links g c (ca_paths (call_of urls i)) (hi_cwd i) = None"
    unfolding check_claims_None_iff verb_check_def cwd by auto
  then have out: "\<forall>p \<in> set (ca_paths (call_of urls i)).
        \<not> path_contained (real_path links p) (map (real_path links) (denied_roots g c (hi_cwd i)))"
    and inside: "resource_values c ''path:'' = [] \<or> ca_paths (call_of urls i) \<noteq> [] \<and> (\<forall>p \<in> set (ca_paths (call_of urls i)).
      path_contained (real_path links p) (map (real_path links) (abs_resolve (resource_values c ''path:'') (hi_cwd i))))"
    unfolding check_paths_None_iff by auto
  have roots: "\<forall>r \<in> set (denied_roots g c (hi_cwd i)). is_absolute r"
    "\<forall>r \<in> set (abs_resolve (resource_values c ''path:'') (hi_cwd i)). is_absolute r"
    using assms(3) abs_resolve_absolute [OF assms(2)] by (auto simp: denied_roots_def)
  have p: "is_absolute p" if "p \<in> set (ca_paths (call_of urls i))" for p by (rule call_paths_absolute [OF assms(2) that])
  from c(2) have "\<not> (rc_jti c \<noteq> [] \<and> sf_is_revoked (gd_feed g) (rc_jti c))" unfolding check_claims_None_iff by blast
  with c(1) out inside contained_below [OF assms(1) p roots(1)] contained_below [OF assms(1) p roots(2)] show ?thesis
    by (intro exI [of _ c]) auto
qed

end
