(* ===== verification/GuardLocal.thy ===== *)
theory GuardLocal
  imports Guard Store
begin

text \<open>
  The guard's local trust domain (\<open>internal/ccguard/feed.go\<close>, \<open>roles.go\<close>, \<open>setup.go\<close>, \<open>runner.go\<close>): a
  directory with a signing key, its JWKS, a signed revocation feed and token files; the roles tokens are
  minted for; and the hook's entry point, which configures the guard from the environment.

  A directory is a record of what reading its files gives. Writing a file, once the directory is there,
  succeeds.
\<close>

section \<open>The signed feed file\<close>

datatype feed_load_error = FeedUnreadable | FeedInvalid jwt_error

definition load_signed_feed ::
    "('k, 'p) feed_jwt \<Rightarrow> instant \<Rightarrow> string \<Rightarrow> string \<Rightarrow> (string \<rightharpoonup> 'p) \<Rightarrow> feed_load_error + signed_feed" where
  "load_signed_feed lib now doc iss keys =
     (case jl_parse lib (key_func keys) iss None now doc of
        Inl e \<Rightarrow> Inl (FeedInvalid e)
      | Inr c \<Rightarrow> Inr \<lparr>sf_revoked = set (fc_jtis c), sf_version = fc_version c\<rparr>)"

text \<open>\<open>LoadSignedFeedFile\<close>: no path, a file that cannot be read, or its text.\<close>

datatype file_read = NoPath | Unreadable | Text string

definition load_signed_feed_file ::
    "('k, 'p) feed_jwt \<Rightarrow> instant \<Rightarrow> file_read \<Rightarrow> string \<Rightarrow> (string \<rightharpoonup> 'p) \<Rightarrow> feed_load_error + signed_feed option" where
  "load_signed_feed_file lib now f iss keys =
     (case f of
        NoPath \<Rightarrow> Inr None
      | Unreadable \<Rightarrow> Inl FeedUnreadable
      | Text b \<Rightarrow> and_then (load_signed_feed lib now b iss keys) (\<lambda>s. Inr (Some s)))"

definition sf_ver :: "signed_feed option \<Rightarrow> int" where
  "sf_ver f = (case f of None \<Rightarrow> 0 | Some s \<Rightarrow> sf_version s)"

definition sf_jtis :: "signed_feed option \<Rightarrow> string list" where
  "sf_jtis f = (case f of None \<Rightarrow> [] | Some s \<Rightarrow> sorted_list_of_set (sf_revoked s))"

definition signed_feed_claims ::
    "('k, 'p) feed_jwt \<Rightarrow> string list \<Rightarrow> int \<Rightarrow> string \<Rightarrow> duration \<Rightarrow> instant \<Rightarrow> feed_claims" where
  "signed_feed_claims lib jtis version iss ttl now =
     \<lparr>rc_iss = iss, rc_sub = [], rc_aud = [], rc_exp = Some (jl_numeric_date lib (now + ttl)), rc_nbf = None,
      rc_iat = Some (jl_numeric_date lib now), rc_jti = [], fc_version = version, fc_jtis = sort jtis\<rparr>"

definition build_signed_feed ::
    "('k, 'p) feed_jwt \<Rightarrow> string list \<Rightarrow> int \<Rightarrow> string \<Rightarrow> string \<Rightarrow> 'k \<Rightarrow> duration \<Rightarrow> instant \<Rightarrow> string option" where
  "build_signed_feed lib jtis version iss kid key ttl now =
     jl_sign lib kid key (signed_feed_claims lib jtis version iss ttl now)"

section \<open>Roles\<close>

record role =
  ro_name :: string
  ro_scopes :: "string list"
  ro_tools :: "string list"
  ro_paths :: "string list"
  ro_commands :: "string list"
  ro_hosts :: "string list"
  ro_deny_paths :: "string list"
  ro_deny_cmds :: "string list"
  ro_deny_hosts :: "string list"
  ro_deny_tools :: "string list"

definition empty_role :: "string \<Rightarrow> role" where
  "empty_role n = \<lparr>ro_name = n, ro_scopes = [], ro_tools = [], ro_paths = [], ro_commands = [], ro_hosts = [],
     ro_deny_paths = [], ro_deny_cmds = [], ro_deny_hosts = [], ro_deny_tools = []\<rparr>"

definition sensitive_paths :: "string list" where
  "sensitive_paths = [''.env'', ''.env.local'', ''.git/config'', ''.ssh'', ''.aws'', ''.npmrc'']"

definition exfil_cmds :: "string list" where
  "exfil_cmds = [''curl'', ''wget'', ''ssh'', ''scp'', ''nc'', ''ncat'', ''telnet'']"

definition builtin_roles :: "string \<Rightarrow> (string \<times> role) list" where
  "builtin_roles project =
     [(''reviewer'', (empty_role ''reviewer'')\<lparr>ro_scopes := [''fs.read''], ro_paths := [project]\<rparr>),
      (''builder'', (empty_role ''builder'')\<lparr>ro_scopes := [''fs.read'', ''fs.write'', ''shell.exec''], ro_paths := [project],
         ro_commands := [''go'', ''gofmt'', ''git'', ''make'', ''ls'', ''cat'', ''grep'', ''rg'', ''find'', ''test'', ''echo'', ''mkdir'',
           ''cp'', ''mv'', ''touch'', ''sed'', ''diff''],
         ro_deny_paths := sensitive_paths, ro_deny_cmds := exfil_cmds\<rparr>),
      (''open'', (empty_role ''open'')\<lparr>ro_scopes := [''*''], ro_deny_paths := sensitive_paths, ro_deny_cmds := exfil_cmds\<rparr>),
      (''operator'', (empty_role ''operator'')\<lparr>ro_scopes := [''*'']\<rparr>)]"

definition role_constraints :: "role \<Rightarrow> constraints" where
  "role_constraints r =
     no_constraints\<lparr>cn_tools := ro_tools r,
       cn_resources := map ((@) ''path:'') (ro_paths r) @ map ((@) ''cmd:'') (ro_commands r) @ map ((@) ''host:'') (ro_hosts r) @
         map ((@) ''deny-path:'') (ro_deny_paths r) @ map ((@) ''deny-cmd:'') (ro_deny_cmds r) @
         map ((@) ''deny-host:'') (ro_deny_hosts r) @ map ((@) ''deny-tool:'') (ro_deny_tools r)\<rparr>"

definition role_grant :: "role \<Rightarrow> string \<Rightarrow> string \<Rightarrow> duration \<Rightarrow> instant \<Rightarrow> grant" where
  "role_grant r user agent ttl now = new_root_grant user agent (ro_scopes r) (role_constraints r) ttl now"

text \<open>\<open>JTIOf\<close>: the payload is decoded without verifying it.\<close>

definition jti_of :: "('k, 'p) delegation_jwt \<Rightarrow> string \<Rightarrow> string" where
  "jti_of lib tok = (case jl_claims lib tok of None \<Rightarrow> [] | Some c \<Rightarrow> rc_jti c)"

definition mint_grant ::
    "('k, 'p) delegation_jwt \<Rightarrow> 'k signer \<Rightarrow> string option \<Rightarrow> grant \<Rightarrow> string \<Rightarrow> instant \<Rightarrow> issue_error + string \<times> string" where
  "mint_grant lib s rnd g aud now =
     and_then (issue_claims lib s rnd (root_delegator g) (nest_actors None (actor_chain_root_to_leaf g)) (g_scopes g) aud
        (Some (g_constraints g)) (g_expires_at g) now) (\<lambda>tok. Inr (tok, jti_of lib tok))"

section \<open>The directory\<close>

definition local_kid :: string where
  "local_kid = ''legant-guard-local''"

definition default_issuer :: string where
  "default_issuer = ''https://legant.local''"

definition default_audience :: string where
  "default_audience = ''legant:claude-code''"

definition local_feed_ttl :: duration where
  "local_feed_ttl = 14 * 24 * 3600 * nanos"

text \<open>
  What the files hold: the key of \<open>key.pem\<close>, the keys \<open>ParseJWKS\<close> reads from \<open>jwks.json\<close>, the text of
  \<open>feed.jwt\<close>, and the token files. \<^const>\<open>None\<close> is a file that is missing or cannot be read.
\<close>

record ('k, 'p) trust_dir =
  td_key :: "'k option"
  td_jwks :: "(string \<rightharpoonup> 'p) option"
  td_feed :: "string option"
  td_tokens :: "(string \<times> string) list"

datatype setup_error =
    NoKey
  | NoJwks
  | NoToken
  | InsideProject string string
  | UnknownRole string
  | ParentInvalid jwt_error
  | NotASubset "string list" "string list"
  | Escalation "string list" "string list"
  | MintFailed issue_error
  | FeedLoad feed_load_error
  | FeedSigning

definition local_signer :: "'k \<Rightarrow> 'k signer" where
  "local_signer key = \<lparr>sg_issuer = default_issuer, sg_kid = local_kid, sg_key = key\<rparr>"

fun mint_roles ::
    "('k, 'p) delegation_jwt \<Rightarrow> 'k \<Rightarrow> (string \<Rightarrow> string option) \<Rightarrow> duration \<Rightarrow> instant \<Rightarrow> (string \<times> role) list
       \<Rightarrow> setup_error + (string \<times> string) list" where
  "mint_roles lib key rnd ttl now [] = Inr []"
| "mint_roles lib key rnd ttl now ((name, r) # rs) =
     (case mint_grant lib (local_signer key) (rnd name) (role_grant r ''user:local'' (''agent:'' @ name) ttl now) default_audience now of
        Inl e \<Rightarrow> Inl (MintFailed e)
      | Inr (tok, _) \<Rightarrow> and_then (mint_roles lib key rnd ttl now rs) (\<lambda>ts. Inr ((name @ ''.jwt'', tok) # ts)))"

text \<open>
  \<open>InitLocal\<close> on absolute paths, with a fresh key. The JWKS it writes and reads back is that of the key
  (theory \<open>Jwks\<close> has the round trip).
\<close>

definition init_local ::
    "('k, 'p) feed_jwt \<Rightarrow> ('k, 'p) delegation_jwt \<Rightarrow> 'k \<Rightarrow> (string \<Rightarrow> string option) \<Rightarrow> string \<Rightarrow> string \<Rightarrow> duration \<Rightarrow> instant
       \<Rightarrow> setup_error + ('k, 'p) trust_dir" where
  "init_local flib lib key rnd d project ttl now =
     (if path_contained d [project] then Inl (InsideProject d project)
      else case build_signed_feed flib [] 1 default_issuer local_kid key local_feed_ttl now of
             None \<Rightarrow> Inl FeedSigning
           | Some feed \<Rightarrow>
               and_then (mint_roles lib key rnd ttl now (builtin_roles project)) (\<lambda>toks.
                 Inr \<lparr>td_key = Some key, td_jwks = Some [local_kid \<mapsto> jl_public lib key], td_feed = Some feed, td_tokens = toks\<rparr>))"

definition mint_role_token ::
    "('k, 'p) delegation_jwt \<Rightarrow> ('k, 'p) trust_dir \<Rightarrow> string option \<Rightarrow> string \<Rightarrow> string \<Rightarrow> string \<Rightarrow> string \<Rightarrow> duration \<Rightarrow> instant
       \<Rightarrow> setup_error + string" where
  "mint_role_token lib td rnd name user agent project ttl now =
     (case map_of (builtin_roles project) name of
        None \<Rightarrow> Inl (UnknownRole name)
      | Some r \<Rightarrow>
          (case td_key td of
             None \<Rightarrow> Inl NoKey
           | Some key \<Rightarrow>
               let agent' = (if agent = [] then ''agent:'' @ name else agent)
               in case mint_grant lib (local_signer key) rnd (role_grant r user agent' ttl now) default_audience now of
                    Inl e \<Rightarrow> Inl (MintFailed e) | Inr (tok, _) \<Rightarrow> Inr tok))"

definition trim_token :: "string \<Rightarrow> string" where
  "trim_token s = filter (\<lambda>c. c \<notin> {CHR '' '', CHR 0x09, CHR 0x0A, CHR 0x0D}) s"

definition mint_child_token ::
    "('k, 'p) delegation_jwt \<Rightarrow> ('k, 'p) trust_dir \<Rightarrow> string option \<Rightarrow> string option \<Rightarrow> string \<Rightarrow> string list \<Rightarrow> duration \<Rightarrow> instant
       \<Rightarrow> setup_error + string" where
  "mint_child_token lib td rnd parent_file child_agent requested ttl now =
     and_then (need NoKey (td_key td)) (\<lambda>key.
     and_then (need NoJwks (td_jwks td)) (\<lambda>keys.
     and_then (need NoToken parent_file) (\<lambda>pt.
       case verify_any lib \<lparr>vf_issuer = default_issuer, vf_keys = keys\<rparr> now (trim_token pt) of
         Inl e \<Rightarrow> Inl (ParentInvalid e)
       | Inr parent \<Rightarrow>
           let parent_scopes = go_fields (cl_scope parent);
               child = attenuate parent_scopes requested
           in if child = [] then Inl (NotASubset requested parent_scopes)
              else if length child \<noteq> length requested then Inl (Escalation requested parent_scopes)
              else
                let parent_cn = (case cl_constraints parent of None \<Rightarrow> no_constraints | Some k \<Rightarrow> k);
                    tightened = tighten parent_cn no_constraints;
                    agent = (if child_agent = [] then ''agent:subagent'' else child_agent);
                    act = Some (ActClaim agent (cl_act parent));
                    own = now + ttl;
                    ex = (case rc_exp parent of None \<Rightarrow> own | Some p \<Rightarrow> if own > p then p else own)
                in (case issue_claims lib (local_signer key) rnd (rc_sub parent) act child default_audience (Some tightened) ex now of
                      Inl e \<Rightarrow> Inl (MintFailed e) | Inr tok \<Rightarrow> Inr tok))))"

definition revoke_jti ::
    "('k, 'p) feed_jwt \<Rightarrow> string \<Rightarrow> instant \<Rightarrow> ('k, 'p) trust_dir \<Rightarrow> setup_error + int \<times> ('k, 'p) trust_dir" where
  "revoke_jti lib jti now td =
     and_then (need NoKey (td_key td)) (\<lambda>key.
     and_then (need NoJwks (td_jwks td)) (\<lambda>keys.
       case load_signed_feed_file lib now (case td_feed td of None \<Rightarrow> Unreadable | Some b \<Rightarrow> Text b) default_issuer keys of
         Inl e \<Rightarrow> Inl (FeedLoad e)
       | Inr cur \<Rightarrow>
           let jtis = (if \<not> contains (sf_jtis cur) jti then sf_jtis cur @ [jti] else sf_jtis cur);
               version = sf_ver cur + 1
           in (case build_signed_feed lib jtis version default_issuer local_kid key local_feed_ttl now of
                 None \<Rightarrow> Inl FeedSigning
               | Some tok \<Rightarrow> Inr (version, td\<lparr>td_feed := Some tok\<rparr>))))"

section \<open>The hook\<close>

text \<open>
  The environment and the files the hook reads: texts, what \<open>ParseJWKS\<close> makes of one, what \<open>LoadOverlay\<close>
  makes of one (\<^const>\<open>None\<close> for an error, a missing file is no overlay), and the directory \<open>filepath.Abs\<close> starts from.
\<close>

record 'p hook_env =
  he_token :: string
  he_token_file :: string
  he_jwks :: string
  he_issuer :: string
  he_audience :: string
  he_feed :: string
  he_audit :: string
  he_overlay :: string
  he_text :: "string \<Rightarrow> string option"
  he_parse_jwks :: "string \<Rightarrow> (string \<rightharpoonup> 'p) option"
  he_load_overlay :: "string \<Rightarrow> overlay option option"
  he_wd :: "string option"

datatype config_error = TokenFileUnreadable | JwksNotSet | JwksUnreadable | JwksInvalid

definition abs_path :: "string option \<Rightarrow> string \<Rightarrow> string option" where
  "abs_path wd p = (if is_absolute p then Some (clean p) else map_option (\<lambda>w. join_path [w, p]) wd)"

definition abs_or_same :: "string option \<Rightarrow> string \<Rightarrow> string" where
  "abs_or_same wd p = (case abs_path wd p of None \<Rightarrow> p | Some a \<Rightarrow> a)"

definition protect_paths :: "string option \<Rightarrow> string list \<Rightarrow> string list" where
  "protect_paths wd paths =
     first_of_each [] (filter (\<lambda>p. p \<noteq> []) (concat (map (\<lambda>p.
        let a = abs_or_same wd p; d = dir a
        in [if a = [] then a else abs_or_same wd a, if d = [] then d else abs_or_same wd d])
      (filter (\<lambda>p. p \<noteq> []) paths))))"

definition env_or :: "string \<Rightarrow> string \<Rightarrow> string" where
  "env_or v dflt = (if v \<noteq> [] then v else dflt)"

text \<open>\<open>LoadConfigFromEnv\<close>: \<^const>\<open>None\<close> says that the guard is off.\<close>

definition load_config ::
    "('k, 'p) feed_jwt \<Rightarrow> instant \<Rightarrow> 'p hook_env \<Rightarrow> config_error + 'p guard_config option" where
  "load_config flib now env =
     and_then
       (if he_token env = [] \<and> he_token_file env \<noteq> []
        then (case he_text env (he_token_file env) of None \<Rightarrow> Inl TokenFileUnreadable | Some b \<Rightarrow> Inr (trim_token b))
        else Inr (he_token env)) (\<lambda>token.
     if token = [] then Inr None
     else if he_jwks env = [] then Inl JwksNotSet
     else case he_text env (he_jwks env) of
       None \<Rightarrow> Inl JwksUnreadable
     | Some jb \<Rightarrow> (case he_parse_jwks env jb of
         None \<Rightarrow> Inl JwksInvalid
       | Some keys \<Rightarrow>
           let iss = env_or (he_issuer env) default_issuer; aud = env_or (he_audience env) default_audience;
               protect = protect_paths (he_wd env) [he_jwks env, he_feed env, he_token_file env, he_audit env,
                 join_path [dir (he_jwks env), ''key.pem'']];
               feed = (if he_feed env = [] then Inr None
                       else load_signed_feed_file flib now
                              (case he_text env (he_feed env) of None \<Rightarrow> Unreadable | Some b \<Rightarrow> Text b) iss keys);
               ov_path = (if he_overlay env = [] then join_path [dir (he_jwks env), ''overlay.json''] else he_overlay env);
               ov = he_load_overlay env ov_path
           in Inr (Some \<lparr>gc_token = token, gc_issuer = iss, gc_audience = aud, gc_keys = keys,
                gc_feed = (case feed of Inl _ \<Rightarrow> None | Inr f \<Rightarrow> f), gc_self_protect = protect,
                gc_deny_all = (case feed of Inl _ \<Rightarrow> ''revocation feed could not be loaded (failing closed)'' | Inr _ \<Rightarrow> []),
                gc_warn = (case ov of None \<Rightarrow> ''deny overlay ignored; the signed token still enforces'' | Some _ \<Rightarrow> []),
                gc_overlay = (case ov of None \<Rightarrow> None | Some o' \<Rightarrow> o')\<rparr>)))"

datatype check_reason = Misconfigured config_error | Decided block_reason

record check_result =
  cr_block :: bool
  cr_reason :: "check_reason option"

text \<open>\<open>RunCheck\<close> on the decoded event, \<^const>\<open>None\<close> when it cannot be read; the second part is the audit record's decision.\<close>

definition run_check ::
    "('k, 'p) feed_jwt \<Rightarrow> ('k, 'p) delegation_jwt \<Rightarrow> 'r url_lib \<Rightarrow> tzdb \<Rightarrow> (string \<Rightarrow> string option) \<Rightarrow> instant \<Rightarrow> 'p hook_env
       \<Rightarrow> hook_input option \<Rightarrow> (check_result \<times> decision option) option" where
  "run_check flib lib urls tzdb links now env inp =
     (case inp of
        None \<Rightarrow> None
      | Some i \<Rightarrow> Some
          (case load_config flib now env of
             Inl e \<Rightarrow> (\<lparr>cr_block = True, cr_reason = Some (Misconfigured e)\<rparr>, None)
           | Inr None \<Rightarrow> (\<lparr>cr_block = False, cr_reason = None\<rparr>, None)
           | Inr (Some cfg) \<Rightarrow>
               let cfg' = (if hi_cwd i \<noteq> []
                           then cfg\<lparr>gc_self_protect := gc_self_protect cfg @ [join_path [hi_cwd i, ''.claude'']]\<rparr> else cfg);
                   d = decide lib urls tzdb links now (new_guard cfg') i
               in (\<lparr>cr_block = de_block d, cr_reason = map_option Decided (de_reason d)\<rparr>,
                   if he_audit env = [] then None else Some d)))"

text \<open>
  The event of \<open>RunCheck\<close>: the first four mebibytes of the standard input (\<^const>\<open>None\<close> where reading fails), as
  \<open>json.Unmarshal\<close> reads them into \<open>HookInput\<close>.
\<close>

definition read_event :: "(string \<Rightarrow> hook_input option) \<Rightarrow> string option \<Rightarrow> hook_input option" where
  "read_event unmarshal stdin = (case stdin of None \<Rightarrow> None | Some raw \<Rightarrow> unmarshal (take 4194304 raw))"

text \<open>
  \<open>guard check\<close>: the exit code. Only 2 stops the call; a hook that cannot read its event exits with 1, which does not.
\<close>

definition check_exit :: "(check_result \<times> decision option) option \<Rightarrow> nat" where
  "check_exit r = (case r of None \<Rightarrow> 1 | Some (res, _) \<Rightarrow> if cr_block res then 2 else 0)"

section \<open>Child tokens\<close>

lemma tighten_no_constraints: "tighten p no_constraints = p"
proof -
  have "tighten_amount a None = a" "tighten_window w None = w" "tighten_rate r None = r" for a w r
    by (cases a; cases w; cases r; simp)+
  then show ?thesis by (simp add: tighten_def no_constraints_def)
qed

lemma verified_claims:
  "jwt_laws lib \<Longrightarrow> vf_issuer v \<noteq> [] \<Longrightarrow> verify_any lib v now tok = Inr c \<Longrightarrow> jl_claims lib tok = Some c"
  by (simp add: verify_any_iff)

text \<open>What a child token says.\<close>

definition child_claims_of :: "('k, 'p) delegation_jwt \<Rightarrow> 'k signer \<Rightarrow> claims \<Rightarrow> string \<Rightarrow> string list \<Rightarrow> duration \<Rightarrow> instant \<Rightarrow> string \<Rightarrow> claims" where
  "child_claims_of lib s parent agent requested ttl now jti =
     token_claims lib s (rc_sub parent) (Some (ActClaim (if agent = [] then ''agent:subagent'' else agent) (cl_act parent)))
       (attenuate (go_fields (cl_scope parent)) requested) default_audience
       (Some (case cl_constraints parent of None \<Rightarrow> no_constraints | Some k \<Rightarrow> k))
       (case rc_exp parent of None \<Rightarrow> now + ttl | Some p \<Rightarrow> if now + ttl > p then p else now + ttl) now jti"

lemma mint_child_claims:
  assumes "mint_child_token lib td rnd (Some pt) agent requested ttl now = Inr tok" and "jwt_laws lib"
    and "\<And>key parent jti. td_key td = Some key \<Longrightarrow> jl_claims lib (trim_token pt) = Some parent \<Longrightarrow>
           jl_exact lib (child_claims_of lib (local_signer key) parent agent requested ttl now jti)"
  obtains parent keys c where "td_jwks td = Some keys"
    and "verify_any lib \<lparr>vf_issuer = default_issuer, vf_keys = keys\<rparr> now (trim_token pt) = Inr parent"
    and "jl_claims lib tok = Some c" and "set (go_fields (cl_scope c)) \<subseteq> set (go_fields (cl_scope parent))"
    and "cl_constraints c = Some (case cl_constraints parent of None \<Rightarrow> no_constraints | Some k \<Rightarrow> k)"
    and "\<exists>e. rc_exp c = Some e \<and> (\<forall>x. rc_exp parent = Some x \<longrightarrow> e \<le> x) \<and> e \<le> now + ttl" and "rc_sub c = rc_sub parent"
    and "actor_chain c = (if agent = [] then ''agent:subagent'' else agent) # actor_chain parent"
proof -
  from assms(1) obtain key keys where td: "td_key td = Some key" "td_jwks td = Some keys"
    by (auto simp: mint_child_token_def step_Inr_iff)
  with assms(1) obtain parent where v: "verify_any lib \<lparr>vf_issuer = default_issuer, vf_keys = keys\<rparr> now (trim_token pt) = Inr parent"
    by (auto simp: mint_child_token_def split: sum.splits)
  let ?child = "attenuate (go_fields (cl_scope parent)) requested"
  let ?ex = "case rc_exp parent of None \<Rightarrow> now + ttl | Some p \<Rightarrow> if now + ttl > p then p else now + ttl"
  let ?cn = "case cl_constraints parent of None \<Rightarrow> no_constraints | Some k \<Rightarrow> k"
  let ?agent = "if agent = [] then ''agent:subagent'' else agent"
  have "issue_claims lib (local_signer key) rnd (rc_sub parent) (Some (ActClaim ?agent (cl_act parent))) ?child default_audience
      (Some ?cn) ?ex now = Inr tok"
    using assms(1) td v by (auto simp: mint_child_token_def Let_def tighten_no_constraints split: if_splits sum.splits)
  then obtain jti where "jl_sign lib local_kid key (token_claims lib (local_signer key) (rc_sub parent)
      (Some (ActClaim ?agent (cl_act parent))) ?child default_audience (Some ?cn) ?ex now jti) = Some tok"
    by (auto simp: issue_claims_def sign_claims_def local_signer_def split: option.splits)
  moreover have "jl_claims lib (trim_token pt) = Some parent"
    by (rule verified_claims [OF assms(2) _ v]) (simp add: default_issuer_def)
  ultimately have c: "jl_claims lib tok = Some (token_claims lib (local_signer key) (rc_sub parent)
      (Some (ActClaim ?agent (cl_act parent))) ?child default_audience (Some ?cn) ?ex now jti)" (is "_ = Some ?c")
    using jwt_sign [OF assms(2) assms(3) [OF td(1), unfolded child_claims_of_def]] by simp
  have "set ?child \<subseteq> set (go_fields (cl_scope parent))" by (auto simp: attenuate_eq)
  moreover from this have "go_fields (cl_scope ?c) = ?child"
    using fields_solid by (auto simp: token_claims_def intro!: fields_join)
  moreover have "jl_numeric_date lib ?ex \<le> ?ex" by (rule jwt_numeric_date [OF assms(2)])
  ultimately show thesis
    using td(2) v c by (intro that [of keys parent ?c]) (auto simp: token_claims_def actor_chain_def split: option.splits if_splits)
qed

text \<open>Two sets of claims that the guard's checks do not tell apart, but for scopes and the token id.\<close>

lemma check_claims_wider:
  assumes "check_claims urls tzdb links now g c tool act = None"
    and "set (go_fields (cl_scope c)) \<subseteq> set (go_fields (cl_scope p))"
    and "cl_constraints c = Some (case cl_constraints p of None \<Rightarrow> no_constraints | Some k \<Rightarrow> k)"
    and "rc_jti p = [] \<or> \<not> sf_is_revoked (gd_feed g) (rc_jti p)"
  shows "check_claims urls tzdb links now g p tool act = None"
proof -
  have res: "claim_resources c = claim_resources p"
    using assms(3) by (auto simp: claim_resources_def no_constraints_def split: option.splits)
  then have vals: "resource_values c = resource_values p" by (simp add: resource_values_def fun_eq_iff)
  have "verb_check urls links g c act = verb_check urls links g p act"
    unfolding verb_check_def check_paths_def check_command_def check_host_def res vals ..
  moreover have "in_window tzdb now c \<Longrightarrow> in_window tzdb now p" "tool_granted c tool (ca_verb act) \<Longrightarrow> tool_granted p tool (ca_verb act)"
    using assms(2,3) by (auto simp: in_window_def tool_granted_def no_constraints_def split: option.splits)
  ultimately show ?thesis using assms(1,4) unfolding check_claims_None_iff vals by auto
qed


section \<open>Examples\<close>

definition guard_claims :: "constraints \<Rightarrow> claims" where
  "guard_claims k = sample_claims\<lparr>cl_scope := ''fs.read fs.write shell.exec'', cl_constraints := Some k\<rparr>"

definition guard_lib :: "constraints \<Rightarrow> (unit, unit) delegation_jwt" where
  "guard_lib k = one_token_lib ''k1'' (guard_claims k) ''tok''"

definition plain_guard :: "unit guard" where
  "plain_guard = \<lparr>gd_verifier = \<lparr>sv_issuer = ''https://legant'', sv_audience = ''api'', sv_keys = [''k1'' \<mapsto> ()], sv_feed = None,
     sv_fail_closed = False, sv_max_staleness = 0\<rparr>, gd_feed = None, gd_token = ''tok'', gd_deny_all = [], gd_self_protect = [''/guard''],
     gd_overlay = None\<rparr>"

definition project_rules :: constraints where
  "project_rules = no_constraints\<lparr>cn_resources := [''path:/p'', ''deny-path:.env'']\<rparr>"

definition read_call :: "string \<Rightarrow> hook_input" where
  "read_call f = \<lparr>hi_session = [], hi_cwd = ''/p'', hi_tool = ''read'', hi_args = Some (JObj [(''file_path'', JStr f)])\<rparr>"

definition with_rule :: overlay where
  "with_rule = \<lparr>ov_paths = [''b''], ov_cmds = [], ov_hosts = [], ov_tools = []\<rparr>"

lemma read_allowed:
  "de_block (decide (guard_lib project_rules) two_url_lib utc_only Some 0 (plain_guard\<lparr>gd_overlay := Some with_rule\<rparr>) (read_call ''src/a'')) = False"
  "de_block (decide (guard_lib project_rules) two_url_lib utc_only Some 0 plain_guard (read_call ''src/a'')) = False"
  "ca_verb (call_of two_url_lib (read_call ''src/a'')) = ''fs.read''" "ca_paths (call_of two_url_lib (read_call ''src/a'')) = [''/p/src/a'']"
  by code_simp+

theorem overlay_only_tightens_witness:
  "\<not> de_block (decide (guard_lib project_rules) two_url_lib utc_only Some 0 (plain_guard\<lparr>gd_overlay := None\<rparr>) (read_call ''src/a''))"
proof -
  have "overlay_within None (Some with_rule)" by (rule overlay_within_none)
  then show ?thesis by (rule overlay_only_tightens [THEN conjunct1]) (simp add: read_allowed)
qed

definition no_links :: "string \<Rightarrow> string option" where
  "no_links p = (if is_absolute p then Some p else None)"

theorem guard_contains_files_witness:
  "\<not> below no_links ''/p/src/a'' ''/guard''"
proof -
  have links: "absolute_links no_links" by (simp add: absolute_links_def no_links_def)
  have call: "is_absolute (hi_cwd (read_call ''src/a''))" "\<forall>r \<in> set (gd_self_protect plain_guard). is_absolute r"
    "\<not> de_block (decide (guard_lib project_rules) two_url_lib utc_only no_links 0 plain_guard (read_call ''src/a''))"
    "ca_verb (call_of two_url_lib (read_call ''src/a'')) \<in> {''fs.read'', ''fs.write''}"
    by code_simp+
  have "''/p/src/a'' \<in> set (ca_paths (call_of two_url_lib (read_call ''src/a'')))" by code_simp
  moreover have "''/guard'' \<in> set (denied_roots plain_guard c cwd)" for c cwd by (simp add: denied_roots_def plain_guard_def)
  ultimately show ?thesis using guard_contains_files [OF links call] by blast
qed

text \<open>
  A search names only the directory it starts in. The token denies \<open>/p/.env\<close>, and a search of \<open>/p\<close>, which reads
  that file, is allowed.
\<close>

lemma search_over_denied_file:
  "\<not> de_block (decide (guard_lib project_rules) two_url_lib utc_only no_links 0 plain_guard
       \<lparr>hi_session = [], hi_cwd = ''/p'', hi_tool = ''grep'', hi_args = Some (JObj [(''pattern'', JStr ''KEY'')])\<rparr>)"
  "de_block (decide (guard_lib project_rules) two_url_lib utc_only no_links 0 plain_guard (read_call ''.env''))"
  by code_simp+

text \<open>
  Commands the token denies can be run. A rule against \<open>curl\<close> stops \<open>curl\<close> as the first word, but the
  parser takes the word after a flag with an argument for the executable, and does not look into a subshell.
\<close>

theorem denied_command_runs:
  "check_command Some plain_guard (guard_claims (no_constraints\<lparr>cn_resources := [''deny-cmd:curl'']\<rparr>)) ''curl http://x'' ''/p'' =
     Some (CommandDenied ''curl'') \<and>
   check_command Some plain_guard (guard_claims (no_constraints\<lparr>cn_resources := [''deny-cmd:curl'']\<rparr>)) ''sudo -u root curl http://x'' ''/p'' =
     None \<and>
   check_command Some plain_guard (guard_claims (no_constraints\<lparr>cn_resources := [''deny-cmd:curl'']\<rparr>)) ''(curl http://x)'' ''/p'' = None"
  by (intro conjI; code_simp)

text \<open>
  re-delegation drops denials. The guard keeps its deny rules in the list of resources, which
  \<open>Delegate\<close> treats as an allow-list: a child that asks for a root of its parent gets that root and none of
  the parent's denials, so the guard refuses a file under the parent's token and allows it under the child's.
\<close>

theorem redelegation_drops_denials:
  "\<exists>parent child. parent = new_root_grant ''user:a'' ''agent:b'' [''fs.read''] project_rules nanos 0 \<and>
     delegate parent ''agent:c'' [''fs.read''] (no_constraints\<lparr>cn_resources := [''path:/p'']\<rparr>) nanos 0 default_max_depth = Inr child \<and>
     check_paths Some plain_guard (guard_claims (g_constraints parent)) [''/p/.env''] ''/p'' = Some (PathDenied ''/p/.env'') \<and>
     check_paths Some plain_guard (guard_claims (g_constraints child)) [''/p/.env''] ''/p'' = None"
proof -
  let ?p = "new_root_grant ''user:a'' ''agent:b'' [''fs.read''] project_rules nanos 0"
  obtain child where child: "delegate ?p ''agent:c'' [''fs.read''] (no_constraints\<lparr>cn_resources := [''path:/p'']\<rparr>) nanos 0 default_max_depth = Inr child"
    "g_constraints child = no_constraints\<lparr>cn_resources := [''path:/p'']\<rparr>"
    by (simp add: delegate_def new_root_grant_def default_max_depth_def project_rules_def no_constraints_def tighten_def Let_def)
  have "check_paths Some plain_guard (guard_claims (g_constraints ?p)) [''/p/.env''] ''/p'' = Some (PathDenied ''/p/.env'')"
    by code_simp
  moreover have "check_paths Some plain_guard (guard_claims (no_constraints\<lparr>cn_resources := [''path:/p'']\<rparr>)) [''/p/.env''] ''/p'' = None"
    by code_simp
  ultimately show ?thesis using child by metis
qed

section \<open>Revoking and configuring\<close>

lemma load_signed_iff:
  assumes "jwt_laws lib" and "iss \<noteq> []"
  shows "load_signed_feed lib now doc iss keys = Inr f \<longleftrightarrow>
    (\<exists>p c. jl_kid lib doc \<noteq> [] \<and> keys (jl_kid lib doc) = Some p \<and> jl_sig lib p doc \<and> jl_claims lib doc = Some c \<and>
       claims_current iss None now c \<and> f = \<lparr>sf_revoked = set (fc_jtis c), sf_version = fc_version c\<rparr>)"
  using jwt_parse_iff [OF assms, of None "key_func keys" now doc]
  by (auto simp: load_signed_feed_def accepts_key_func split: sum.splits)

text \<open>
  revoking a local token. \<open>RevokeJTI\<close> publishes a document with the next version that still lists every
  token listed before; the guard that loads it, within its fourteen days, refuses the token and, like every
  guard, all the others on the list.
\<close>

theorem local_revocation_takes_effect:
  assumes "jwt_laws flib" and "\<And>js v. jl_exact flib (signed_feed_claims flib js v default_issuer local_feed_ttl now)"
    and "revoke_jti flib jti now td = Inr (version, td')" and "td_key td = Some key" and "td_jwks td = Some keys"
    and "keys local_kid = Some (jl_public flib key)" and "jti \<noteq> []"
    and "t < jl_numeric_date flib (now + local_feed_ttl)"
  shows "\<exists>old doc new. td_feed td = Some old \<and> td_feed td' = Some doc \<and> load_signed_feed flib t doc default_issuer keys = Inr new \<and>
     sf_version new = version \<and>
     (\<forall>f. load_signed_feed flib now old default_issuer keys = Inr f \<longrightarrow> version = sf_version f + 1 \<and> sf_revoked new = insert jti (sf_revoked f)) \<and>
     (\<forall>c. sdk_verify lib urls (gd_verifier g) t (gd_token g) = Inr c \<longrightarrow> rc_jti c \<in> sf_revoked new \<longrightarrow> rc_jti c \<noteq> [] \<longrightarrow>
        de_block (decide lib urls tzdb links t (g\<lparr>gd_feed := Some new\<rparr>) i))"
proof -
  from assms(3-5) obtain old f where old: "td_feed td = Some old" "load_signed_feed flib now old default_issuer keys = Inr f"
    by (auto simp: revoke_jti_def load_signed_feed_file_def and_then_eq_Inr_iff split: sum.splits option.splits)
  have fin: "finite (sf_revoked f)"
    using old(2) by (auto simp: load_signed_feed_def split: sum.splits)
  let ?jtis = "if jti \<in> sf_revoked f then sorted_list_of_set (sf_revoked f) else sorted_list_of_set (sf_revoked f) @ [jti]"
  let ?c = "signed_feed_claims flib ?jtis (sf_version f + 1) default_issuer local_feed_ttl now"
  have loaded: "load_signed_feed_file flib now (Text old) default_issuer keys = Inr (Some f)"
    using old(2) by (simp add: load_signed_feed_file_def)
  have "revoke_jti flib jti now td =
      (case build_signed_feed flib ?jtis (sf_version f + 1) default_issuer local_kid key local_feed_ttl now of
         None \<Rightarrow> Inl FeedSigning | Some tok \<Rightarrow> Inr (sf_version f + 1, td\<lparr>td_feed := Some tok\<rparr>))"
    using fin by (simp add: revoke_jti_def assms(4,5) old(1) loaded sf_jtis_def sf_ver_def Let_def)
  with assms(3) obtain doc where doc: "jl_sign flib local_kid key ?c = Some doc"
    "version = sf_version f + 1" "td_feed td' = Some doc"
    by (auto simp: build_signed_feed_def split: option.splits)
  have "set ?jtis = insert jti (sf_revoked f)" using fin by auto
  then have js: "set (fc_jtis ?c) = insert jti (sf_revoked f)" by (simp add: signed_feed_claims_def)
  let ?new = "\<lparr>sf_revoked = insert jti (sf_revoked f), sf_version = version\<rparr>"
  have kid: "local_kid \<noteq> []" "default_issuer \<noteq> []" by (simp_all add: local_kid_def default_issuer_def)
  have cur: "claims_current default_issuer None t ?c" using assms(8) by (simp add: claims_current_def signed_feed_claims_def)
  have ver: "fc_version ?c = version" by (simp add: signed_feed_claims_def doc(2))
  have "load_signed_feed flib t doc default_issuer keys = Inr ?new"
    unfolding load_signed_iff [OF assms(1) kid(2)]
    using jwt_sign [OF assms(1,2) doc(1)] kid(1) assms(6) cur js ver
    by (intro exI [of _ "jl_public flib key"] exI [of _ ?c]) simp
  moreover have "de_block (decide lib urls tzdb links t (g\<lparr>gd_feed := Some ?new\<rparr>) i)"
    if "sdk_verify lib urls (gd_verifier g) t (gd_token g) = Inr c" "rc_jti c \<in> sf_revoked ?new" "rc_jti c \<noteq> []" for c
  proof (rule ccontr)
    assume "\<not> ?thesis"
    with that show False by (auto simp: allowed_iff check_claims_None_iff sf_is_revoked_def)
  qed
  ultimately show ?thesis using old doc
    by (intro exI [of _ old] exI [of _ doc] exI [of _ ?new]) auto
qed

definition empty_dir :: "(unit, unit) trust_dir" where
  "empty_dir = \<lparr>td_key = Some (), td_jwks = Some [local_kid \<mapsto> ()], td_feed = Some ''feed1'', td_tokens = []\<rparr>"

definition local_feed :: "int \<Rightarrow> string list \<Rightarrow> feed_claims" where
  "local_feed v js = \<lparr>rc_iss = default_issuer, rc_sub = [], rc_aud = [], rc_exp = Some local_feed_ttl, rc_nbf = None,
     rc_iat = Some 0, rc_jti = [], fc_version = v, fc_jtis = js\<rparr>"

definition local_feeds :: "(unit, unit) feed_jwt" where
  "local_feeds = table_lib local_kid [(''feed1'', local_feed 1 []), (''feed2'', local_feed 2 [''j1''])]"

lemma local_feeds_laws: "jwt_laws local_feeds" "jl_exact local_feeds c"
  unfolding local_feeds_def by (rule table_laws) (simp_all add: table_lib_def)

lemma revoke_empty_dir: "revoke_jti local_feeds ''j1'' 0 empty_dir = Inr (2, empty_dir\<lparr>td_feed := Some ''feed2''\<rparr>)"
proof -
  have "load_signed_feed local_feeds 0 ''feed1'' default_issuer [local_kid \<mapsto> ()] = Inr \<lparr>sf_revoked = {}, sf_version = 1\<rparr>"
    by (simp add: load_signed_feed_def local_feeds_def table_lib_def key_func_def local_kid_def claims_current_def local_feed_def
        local_feed_ttl_def nanos_def)
  moreover have "build_signed_feed local_feeds [''j1''] 2 default_issuer local_kid () local_feed_ttl 0 = Some ''feed2''"
    by (simp add: build_signed_feed_def signed_feed_claims_def local_feeds_def table_lib_def local_feed_def local_feed_ttl_def nanos_def)
  ultimately show ?thesis
    by (simp add: revoke_jti_def empty_dir_def load_signed_feed_file_def sf_jtis_def sf_ver_def)
qed

theorem local_revocation_takes_effect_witness:
  "\<exists>new. load_signed_feed local_feeds 5 ''feed2'' default_issuer [local_kid \<mapsto> ()] = Inr new \<and> sf_version new = 2"
proof -
  have dir: "td_key empty_dir = Some ()" "td_jwks empty_dir = Some [local_kid \<mapsto> ()]"
    "[local_kid \<mapsto> ()] local_kid = Some (jl_public local_feeds ())" "''j1'' \<noteq> []"
    "(5::int) < jl_numeric_date local_feeds (0 + local_feed_ttl)"
    by (simp_all add: empty_dir_def local_feeds_def table_lib_def local_feed_ttl_def nanos_def)
  have "\<exists>old doc new. td_feed empty_dir = Some old \<and> td_feed (empty_dir\<lparr>td_feed := Some ''feed2''\<rparr>) = Some doc \<and>
      load_signed_feed local_feeds 5 doc default_issuer [local_kid \<mapsto> ()] = Inr new \<and> sf_version new = 2"
    using local_revocation_takes_effect [OF local_feeds_laws revoke_empty_dir dir, where lib = sample_lib and urls = two_url_lib
        and tzdb = utc_only and links = Some and g = plain_guard and i = "read_call []"] by blast
  then show ?thesis by simp
qed

section \<open>The hook\<close>

lemma protect_paths_mono:
  assumes "set ps \<subseteq> set qs"
  shows "set (protect_paths wd ps) \<subseteq> set (protect_paths wd qs)"
proof -
  have "set (protect_paths wd rs) = (\<Union>p \<in> set rs - {[]}. set (let a = abs_or_same wd p; d = dir a
        in [if a = [] then a else abs_or_same wd a, if d = [] then d else abs_or_same wd d])) - {[]}" for rs
    by (auto simp: protect_paths_def set_first_of_each)
  then show ?thesis using assms by (simp only:) blast
qed

lemma unblocked_event:
  assumes "run_check flib lib urls tzdb links now env (Some i) = Some (r, a)" and "\<not> cr_block r"
  shows "(he_token env = [] \<and> (he_token_file env = [] \<or> (\<exists>b. he_text env (he_token_file env) = Some b \<and> trim_token b = []))) \<or>
    (\<exists>jb keys c g. he_text env (he_jwks env) = Some jb \<and> he_parse_jwks env jb = Some keys \<and> sv_keys (gd_verifier g) = keys \<and>
       sdk_verify lib urls (gd_verifier g) now (gd_token g) = Inr c \<and>
       check_claims urls tzdb links now g c (hi_tool i) (call_of urls i) = None \<and>
       (he_feed env \<noteq> [] \<longrightarrow> (\<exists>doc f. he_text env (he_feed env) = Some doc \<and> gd_feed g = Some f \<and>
          load_signed_feed flib now doc (env_or (he_issuer env) default_issuer) keys = Inr f)) \<and>
       set (protect_paths (he_wd env) [he_jwks env, he_feed env, he_token_file env, he_audit env]) \<subseteq> set (gd_self_protect g) \<and>
       (hi_cwd i \<noteq> [] \<longrightarrow> join_path [hi_cwd i, ''.claude''] \<in> set (gd_self_protect g)))"
proof -
  obtain o' where cfg: "load_config flib now env = Inr o'"
    using assms by (auto simp: run_check_def split: sum.splits)
  show ?thesis
  proof (cases o')
    case None
    with cfg have "he_token env = [] \<and> (he_token_file env = [] \<or> (\<exists>b. he_text env (he_token_file env) = Some b \<and> trim_token b = []))"
      by (auto simp: load_config_def Let_def and_then_eq_Inr_iff split: if_splits option.splits sum.splits)
    then show ?thesis by blast
  next
    case (Some c)
    let ?c = "if hi_cwd i \<noteq> [] then c\<lparr>gc_self_protect := gc_self_protect c @ [join_path [hi_cwd i, ''.claude'']]\<rparr> else c"
    let ?g = "new_guard ?c"
    let ?iss = "env_or (he_issuer env) default_issuer"
    have "\<not> de_block (decide lib urls tzdb links now ?g i)" using assms cfg Some by (auto simp: run_check_def Let_def)
    then obtain cl where deny: "gd_deny_all ?g = []" and cl: "sdk_verify lib urls (gd_verifier ?g) now (gd_token ?g) = Inr cl"
      "check_claims urls tzdb links now ?g cl (hi_tool i) (call_of urls i) = None" by (auto simp: allowed_iff)
    from cfg Some obtain jb keys where jwks: "he_text env (he_jwks env) = Some jb" "he_parse_jwks env jb = Some keys"
      by (auto simp: load_config_def Let_def and_then_eq_Inr_iff split: if_splits option.splits)
    let ?feed = "if he_feed env = [] then Inr None
       else load_signed_feed_file flib now (case he_text env (he_feed env) of None \<Rightarrow> Unreadable | Some b \<Rightarrow> Text b) ?iss keys"
    from cfg Some jwks have c: "gc_keys c = keys" "gc_deny_all c = (case ?feed of Inl _ \<Rightarrow> ''revocation feed could not be loaded (failing closed)'' | Inr _ \<Rightarrow> [])"
      "gc_feed c = (case ?feed of Inl _ \<Rightarrow> None | Inr f \<Rightarrow> f)"
      "gc_self_protect c = protect_paths (he_wd env) [he_jwks env, he_feed env, he_token_file env, he_audit env, join_path [dir (he_jwks env), ''key.pem'']]"
      by (auto simp: load_config_def Let_def and_then_eq_Inr_iff simp del: join_path.simps split: if_splits)
    have g: "sv_keys (gd_verifier ?g) = keys" "gd_feed ?g = gc_feed c" "gc_deny_all c = []"
      "set (gc_self_protect c) \<subseteq> set (gd_self_protect ?g)"
      "hi_cwd i \<noteq> [] \<longrightarrow> join_path [hi_cwd i, ''.claude''] \<in> set (gd_self_protect ?g)"
      using deny by (auto simp: new_guard_def c(1) simp del: join_path.simps split: if_splits)
    have "\<exists>doc f. he_text env (he_feed env) = Some doc \<and> gd_feed ?g = Some f \<and> load_signed_feed flib now doc ?iss keys = Inr f"
      if "he_feed env \<noteq> []"
      using g(2,3) c(2,3) that by (auto simp: load_signed_feed_file_def and_then_def split: option.splits sum.splits)
    moreover have "set (protect_paths (he_wd env) [he_jwks env, he_feed env, he_token_file env, he_audit env]) \<subseteq> set (gc_self_protect c)"
      unfolding c(4) by (rule protect_paths_mono) auto
    from order_trans [OF this g(4)] have
      "set (protect_paths (he_wd env) [he_jwks env, he_feed env, he_token_file env, he_audit env]) \<subseteq> set (gd_self_protect ?g)" .
    ultimately show ?thesis using jwks cl g(1,5) by blast
  qed
qed

text \<open>
  C37: when the hook lets a call pass. It exits with 2, which stops the call, unless (exit code 1) the event could not be
  read, or (exit code 0) the guard is off (no token is configured, or the token file holds nothing but white space), or the
  JWKS was read and parsed, a configured feed was loaded under its keys, and the token verified, was not on that feed, and
  passed every check with the guard's own files and the session's \<open>.claude\<close> protected. So an error in what the guard is
  configured with stops every call it can read, while an event it cannot read stops none (\<open>long_event_passes\<close>).
\<close>

theorem hook_fails_closed:
  assumes "code = check_exit (run_check flib lib urls tzdb links now env (read_event unmarshal stdin))" and "code \<noteq> 2"
  shows "code = 1 \<and> read_event unmarshal stdin = None \<or>
    code = 0 \<and> (\<exists>i. read_event unmarshal stdin = Some i \<and>
    ((he_token env = [] \<and> (he_token_file env = [] \<or> (\<exists>b. he_text env (he_token_file env) = Some b \<and> trim_token b = []))) \<or>
    (\<exists>jb keys c g. he_text env (he_jwks env) = Some jb \<and> he_parse_jwks env jb = Some keys \<and> sv_keys (gd_verifier g) = keys \<and>
       sdk_verify lib urls (gd_verifier g) now (gd_token g) = Inr c \<and>
       check_claims urls tzdb links now g c (hi_tool i) (call_of urls i) = None \<and>
       (he_feed env \<noteq> [] \<longrightarrow> (\<exists>doc f. he_text env (he_feed env) = Some doc \<and> gd_feed g = Some f \<and>
          load_signed_feed flib now doc (env_or (he_issuer env) default_issuer) keys = Inr f)) \<and>
       set (protect_paths (he_wd env) [he_jwks env, he_feed env, he_token_file env, he_audit env]) \<subseteq> set (gd_self_protect g) \<and>
       (hi_cwd i \<noteq> [] \<longrightarrow> join_path [hi_cwd i, ''.claude''] \<in> set (gd_self_protect g)))))"
proof (cases "read_event unmarshal stdin")
  case None
  then show ?thesis using assms(1) by (simp add: check_exit_def run_check_def)
next
  case (Some i)
  obtain p where p: "run_check flib lib urls tzdb links now env (Some i) = Some p" by (simp add: run_check_def)
  obtain r a where "p = (r, a)" by (cases p)
  with p have run: "run_check flib lib urls tzdb links now env (Some i) = Some (r, a)" by simp
  with assms Some have "\<not> cr_block r" "code = 0" by (auto simp: check_exit_def split: if_splits)
  with unblocked_event [OF run] Some show ?thesis by blast
qed

text \<open>
  An event of more than four mebibytes is cut, and no prefix of a JSON object is a JSON document: whatever the token denies,
  such a call passes.
\<close>

lemma long_event_passes:
  assumes "unmarshal (take 4194304 raw) = None"
  shows "check_exit (run_check flib lib urls tzdb links now env (read_event unmarshal (Some raw))) = 1"
  using assms by (simp add: check_exit_def run_check_def read_event_def)

definition hook_sample :: "unit hook_env" where
  "hook_sample = \<lparr>he_token = [], he_token_file = ''/guard/tok'', he_jwks = ''/guard/jwks.json'', he_issuer = ''https://legant'',
     he_audience = ''api'', he_feed = [], he_audit = [], he_overlay = [],
     he_text = (\<lambda>f. if f = ''/guard/tok'' then Some (''tok'' @ [CHR 0x0A]) else Some ''jwks''),
     he_parse_jwks = (\<lambda>t. Some [''k1'' \<mapsto> ()]), he_load_overlay = (\<lambda>f. Some None), he_wd = Some ''/''\<rparr>"

lemma hook_runs:
  "run_check local_feeds (guard_lib project_rules) two_url_lib utc_only no_links 0 hook_sample (Some (read_call ''src/a'')) =
     Some (\<lparr>cr_block = False, cr_reason = None\<rparr>, None)"
  by code_simp

theorem hook_fails_closed_witness:
  "\<exists>g :: unit guard. ''/guard/jwks.json'' \<in> set (gd_self_protect g) \<and>
     check_claims two_url_lib utc_only no_links 0 g (guard_claims project_rules) ''read'' (call_of two_url_lib (read_call ''src/a'')) = None"
proof -
  have off: "\<not> (he_token hook_sample = [] \<and> (he_token_file hook_sample = [] \<or>
      (\<exists>b. he_text hook_sample (he_token_file hook_sample) = Some b \<and> trim_token b = [])))"
    by (simp add: hook_sample_def trim_token_def)
  let ?um = "\<lambda>_. Some (read_call ''src/a'')"
  have code: "(0::nat) = check_exit (run_check local_feeds (guard_lib project_rules) two_url_lib utc_only no_links 0 hook_sample
      (read_event ?um (Some ''event'')))"
    by (simp add: read_event_def hook_runs check_exit_def)
  have "(0::nat) \<noteq> 2" by simp
  from hook_fails_closed [OF code this] off have "\<exists>c g. sdk_verify (guard_lib project_rules) two_url_lib (gd_verifier g) 0 (gd_token g) = Inr c \<and>
      check_claims two_url_lib utc_only no_links 0 g c (hi_tool (read_call ''src/a'')) (call_of two_url_lib (read_call ''src/a'')) = None \<and>
      set (protect_paths (he_wd hook_sample) [he_jwks hook_sample, he_feed hook_sample, he_token_file hook_sample, he_audit hook_sample])
        \<subseteq> set (gd_self_protect g)"
    by (simp add: read_event_def) blast
  then obtain c g where
    g: "sdk_verify (guard_lib project_rules) two_url_lib (gd_verifier g) 0 (gd_token g) = Inr c"
    "check_claims two_url_lib utc_only no_links 0 g c (hi_tool (read_call ''src/a'')) (call_of two_url_lib (read_call ''src/a'')) = None"
    "set (protect_paths (he_wd hook_sample) [he_jwks hook_sample, he_feed hook_sample, he_token_file hook_sample, he_audit hook_sample])
       \<subseteq> set (gd_self_protect g)"
    by blast
  have "c = guard_claims project_rules"
    using g(1) by (auto simp: sdk_verify_def guard_lib_def one_token_lib_def split: if_splits sum.splits option.splits)
  moreover have "''/guard/jwks.json'' \<in> set (protect_paths (he_wd hook_sample)
      [he_jwks hook_sample, he_feed hook_sample, he_token_file hook_sample, he_audit hook_sample])"
    by code_simp
  ultimately show ?thesis using g(2,3) by (auto simp: read_call_def)
qed

definition parent_claims :: claims where
  "parent_claims = \<lparr>rc_iss = default_issuer, rc_sub = ''user:a'', rc_aud = [default_audience], rc_exp = Some (50 * nanos), rc_nbf = None,
     rc_iat = Some 0, rc_jti = ''p1'', cl_scope = ''fs.read fs.write'', cl_act = Some (ActClaim ''agent:b'' None),
     cl_constraints = Some project_rules\<rparr>"

definition child_claims :: claims where
  "child_claims = parent_claims\<lparr>rc_jti := ''c1'', cl_scope := ''fs.read'', cl_act := Some (ActClaim ''agent:subagent'' (cl_act parent_claims))\<rparr>"

definition family_lib :: "(unit, unit) delegation_jwt" where
  "family_lib = table_lib local_kid [(''parent'', parent_claims), (''child'', child_claims)]"

definition family_guard :: "unit guard" where
  "family_guard = plain_guard\<lparr>gd_verifier := \<lparr>sv_issuer = default_issuer, sv_audience = default_audience, sv_keys = [local_kid \<mapsto> ()],
     sv_feed = None, sv_fail_closed = False, sv_max_staleness = 0\<rparr>\<rparr>"


end
