(* ===== verification/GoTime.thy ===== *)
theory GoTime
  imports GoPrelude
begin

text \<open>
  What the configuration files use of Go's \<open>time\<close> and \<open>unicode/utf8\<close> packages: \<open>time.ParseDuration\<close>,
  \<open>time.Parse\<close> with the layout \<open>15:04\<close>, and the width of the next rune of a byte string. The lemmas bound what
  the parsers accept.
\<close>

section \<open>Digits\<close>

definition digit :: "char \<Rightarrow> int option" where
  "digit c = map_of (zip ''0123456789'' [0, 1, 2, 3, 4, 5, 6, 7, 8, 9]) c"

lemma digit_range: "digit c = Some d \<Longrightarrow> 0 \<le> d \<and> d \<le> 9"
  by (auto simp: digit_def split: if_splits)

section \<open>Durations\<close>

text \<open>\<open>leadingInt\<close>: \<^const>\<open>None\<close> on overflow.\<close>

fun leading_int :: "int \<Rightarrow> string \<Rightarrow> (int \<times> string) option" where
  "leading_int x [] = Some (x, [])"
| "leading_int x (c # s) =
     (case digit c of
        None \<Rightarrow> Some (x, c # s)
      | Some d \<Rightarrow>
          if x > 2 ^ 63 div 10 then None
          else let y = x * 10 + d in if y > 2 ^ 63 then None else leading_int y s)"

text \<open>\<open>leadingFraction\<close>: the digits that fit, the power of ten they are to be divided by, and the rest.\<close>

fun leading_fraction :: "bool \<Rightarrow> int \<Rightarrow> int \<Rightarrow> string \<Rightarrow> int \<times> int \<times> string" where
  "leading_fraction over x scale [] = (x, scale, [])"
| "leading_fraction over x scale (c # s) =
     (case digit c of
        None \<Rightarrow> (x, scale, c # s)
      | Some d \<Rightarrow>
          if over \<or> x > (2 ^ 63 - 1) div 10 then leading_fraction True x scale s
          else let y = x * 10 + d
               in if y > 2 ^ 63 then leading_fraction True x scale s else leading_fraction False y (scale * 10) s)"

definition unit_of :: "string \<Rightarrow> int option" where
  "unit_of u = map_of
     [(''ns'', 1), (''us'', 1000), ([CHR 0xC2, CHR 0xB5] @ ''s'', 1000), ([CHR 0xCE, CHR 0xBC] @ ''s'', 1000),
      (''ms'', 1000000), (''s'', nanos), (''m'', 60 * nanos), (''h'', 3600 * nanos)] u"

text \<open>
  One number with its unit. The fraction \<open>uint64(float64(f) * (float64(unit) / scale))\<close> is computed with
  doubles, and is the argument \<open>fr\<close>.
\<close>

type_synonym float_fraction = "int \<Rightarrow> int \<Rightarrow> int \<Rightarrow> int"

definition unit_char :: "char \<Rightarrow> bool" where
  "unit_char c \<longleftrightarrow> c \<noteq> CHR ''.'' \<and> digit c = None"

definition duration_fraction :: "string \<Rightarrow> int \<times> int \<times> string \<times> bool" where
  "duration_fraction s =
     (if s \<noteq> [] \<and> hd s = CHR ''.''
      then let (f, scale, r) = leading_fraction False 0 1 (tl s) in (f, scale, r, length r \<noteq> length (tl s))
      else (0, 1, s, False))"

definition in_unit :: "float_fraction \<Rightarrow> int \<Rightarrow> int \<Rightarrow> int \<Rightarrow> string \<Rightarrow> int option" where
  "in_unit fr v f scale u =
     (case unit_of u of
        None \<Rightarrow> None
      | Some unit \<Rightarrow>
          if v > 2 ^ 63 div unit then None
          else let w = (if f > 0 then v * unit + fr f unit scale else v * unit)
               in if f > 0 \<and> w > 2 ^ 63 then None else Some w)"

definition duration_term :: "float_fraction \<Rightarrow> string \<Rightarrow> (int \<times> string) option" where
  "duration_term fr s =
     (if unit_char (hd s) then None
      else case leading_int 0 s of
        None \<Rightarrow> None
      | Some (v, s1) \<Rightarrow>
          (case duration_fraction s1 of (f, scale, s2, post) \<Rightarrow>
             if length s1 = length s \<and> \<not> post then None
             else if takeWhile unit_char s2 = [] then None
             else map_option (\<lambda>w. (w, dropWhile unit_char s2)) (in_unit fr v f scale (takeWhile unit_char s2))))"

lemma leading_int_shrinks: "leading_int x s = Some (v, r) \<Longrightarrow> length r \<le> length s"
proof (induction s arbitrary: x)
  case (Cons c s)
  show ?case
  proof (cases "digit c")
    case (Some d)
    with Cons.prems have "leading_int (x * 10 + d) s = Some (v, r)" by (simp add: Let_def split: if_splits)
    then show ?thesis by (simp add: Cons.IH le_SucI)
  qed (use Cons.prems in auto)
qed simp

lemma leading_fraction_shrinks: "leading_fraction ov x scale s = (v, sc, r) \<Longrightarrow> length r \<le> length s"
proof (induction s arbitrary: ov x scale)
  case (Cons c s)
  show ?case
  proof (cases "digit c")
    case (Some d)
    with Cons.prems obtain o' x' sc' where "leading_fraction o' x' sc' s = (v, sc, r)"
      by (simp add: Let_def split: if_splits)
    then show ?thesis by (simp add: Cons.IH le_SucI)
  qed (use Cons.prems in auto)
qed simp

lemma duration_fraction_shrinks:
  assumes "duration_fraction s = (f, sc, r, post)"
  shows "length r \<le> length s"
proof (cases "s \<noteq> [] \<and> hd s = CHR ''.''")
  case True
  obtain f' sc' r' where l: "leading_fraction False 0 1 (tl s) = (f', sc', r')" by (cases "leading_fraction False 0 1 (tl s)")
  have "r = r'" using assms True unfolding duration_fraction_def l by simp
  with leading_fraction_shrinks [OF l] show ?thesis by simp
next
  case False
  with assms show ?thesis by (auto simp only: duration_fraction_def if_False prod.inject)
qed

lemma dropWhile_shorter: "takeWhile P s \<noteq> [] \<Longrightarrow> length (dropWhile P s) < length s"
  by (cases s) (auto simp: length_dropWhile_le le_imp_less_Suc split: if_splits)

lemma duration_term_shrinks:
  assumes "duration_term fr s = Some (w, r)"
  shows "length r < length s"
proof -
  obtain v s1 where 1: "leading_int 0 s = Some (v, s1)"
    using assms by (auto simp: duration_term_def split: if_splits option.splits)
  obtain f sc s2 post where 2: "duration_fraction s1 = (f, sc, s2, post)" by (cases "duration_fraction s1") auto
  have "takeWhile unit_char s2 \<noteq> []" "r = dropWhile unit_char s2"
    using assms by (auto simp: duration_term_def 1 2 split: if_splits)
  then show ?thesis
    using leading_int_shrinks [OF 1] duration_fraction_shrinks [OF 2] dropWhile_shorter [of unit_char s2] by simp
qed

text \<open>The sum is a \<open>uint64\<close>, and wraps before it is compared.\<close>

function parse_units :: "float_fraction \<Rightarrow> int \<Rightarrow> string \<Rightarrow> int option" where
  "parse_units fr d s =
     (if s = [] then Some d
      else case duration_term fr s of
        None \<Rightarrow> None
      | Some (w, r) \<Rightarrow> let e = (d + w) mod 2 ^ 64 in if e > 2 ^ 63 then None else parse_units fr e r)"
  by pat_completeness auto
termination
  by (relation "measure (\<lambda>(fr, d, s). length s)") (auto dest: duration_term_shrinks)

declare parse_units.simps [simp del]

definition parse_duration :: "float_fraction \<Rightarrow> string \<Rightarrow> duration option" where
  "parse_duration fr str =
     (let neg = (str \<noteq> [] \<and> hd str = CHR ''-'');
          s = (if str \<noteq> [] \<and> (hd str = CHR ''-'' \<or> hd str = CHR ''+'') then tl str else str)
      in if s = ''0'' then Some 0
         else if s = [] then None
         else case parse_units fr 0 s of
           None \<Rightarrow> None
         | Some d \<Rightarrow> if neg then Some (- d) else if d > 2 ^ 63 - 1 then None else Some d)"

lemma parse_units_range: "parse_units fr d s = Some e \<Longrightarrow> 0 \<le> d \<Longrightarrow> d \<le> 2 ^ 63 \<Longrightarrow> 0 \<le> e \<and> e \<le> 2 ^ 63"
proof (induction fr d s rule: parse_units.induct)
  case (1 fr d s)
  show ?case
  proof (cases "s = []")
    case True
    with 1 show ?thesis by (simp add: parse_units.simps)
  next
    case False
    obtain w r where t: "duration_term fr s = Some (w, r)"
      using "1.prems"(1) False by (auto simp: parse_units.simps split: option.splits)
    let ?e = "(d + w) mod 2 ^ 64"
    have le: "?e \<le> 2 ^ 63" and rest: "parse_units fr ?e r = Some e"
      using "1.prems"(1) False t by (auto simp: parse_units.simps [of fr d s] Let_def split: if_splits)
    from False t rest le "1.IH" [OF False t refl refl] show ?thesis by auto
  qed
qed

lemma parse_duration_range: "parse_duration fr s = Some d \<Longrightarrow> - (2 ^ 63) \<le> d \<and> d < 2 ^ 63"
  by (fastforce simp: parse_duration_def Let_def split: if_splits option.splits dest!: parse_units_range)

section \<open>The time of day\<close>

text \<open>\<open>getnum\<close>: two digits, or one where the layout lets it.\<close>

definition get_num :: "bool \<Rightarrow> string \<Rightarrow> (int \<times> string) option" where
  "get_num fixed s =
     (case s of
        [] \<Rightarrow> None
      | a # s1 \<Rightarrow>
          (case digit a of
             None \<Rightarrow> None
           | Some x \<Rightarrow>
               (case s1 of
                  [] \<Rightarrow> if fixed then None else Some (x, s1)
                | b # s2 \<Rightarrow> (case digit b of
                    None \<Rightarrow> if fixed then None else Some (x, s1)
                  | Some y \<Rightarrow> Some (x * 10 + y, s2)))))"

text \<open>\<open>time.Parse("15:04", s)\<close>, as hours and minutes.\<close>

definition parse_clock :: "string \<Rightarrow> (int \<times> int) option" where
  "parse_clock s =
     (case get_num False s of
        None \<Rightarrow> None
      | Some (h, r) \<Rightarrow>
          if h < 0 \<or> 24 \<le> h then None
          else if r = [] \<or> hd r \<noteq> CHR '':'' then None
          else (case get_num True (tl r) of
                  None \<Rightarrow> None
                | Some (m, r') \<Rightarrow> if m < 0 \<or> 60 \<le> m then None else if r' \<noteq> [] then None else Some (h, m)))"

lemma parse_clock_range: "parse_clock s = Some (h, m) \<Longrightarrow> 0 \<le> h \<and> h < 24 \<and> 0 \<le> m \<and> m < 60"
  by (auto simp: parse_clock_def split: option.splits if_splits prod.splits)

section \<open>Runes\<close>

text \<open>The width of the first rune, as \<open>utf8.DecodeRuneInString\<close> finds it: an invalid byte is a rune of its own.\<close>

definition cont :: "char \<Rightarrow> bool" where
  "cont c \<longleftrightarrow> CHR 0x80 \<le> c \<and> c \<le> CHR 0xBF"

definition second_byte :: "char \<Rightarrow> char \<Rightarrow> bool" where
  "second_byte a b \<longleftrightarrow>
     (if a = CHR 0xE0 then CHR 0xA0 \<le> b \<and> b \<le> CHR 0xBF
      else if a = CHR 0xED then CHR 0x80 \<le> b \<and> b \<le> CHR 0x9F
      else if a = CHR 0xF0 then CHR 0x90 \<le> b \<and> b \<le> CHR 0xBF
      else if a = CHR 0xF4 then CHR 0x80 \<le> b \<and> b \<le> CHR 0x8F
      else cont b)"

fun rune_len :: "string \<Rightarrow> nat" where
  "rune_len [] = 0"
| "rune_len (a # s) =
     (if CHR 0xC2 \<le> a \<and> a \<le> CHR 0xDF then (case s of b # _ \<Rightarrow> if cont b then 2 else 1 | _ \<Rightarrow> 1)
      else if CHR 0xE0 \<le> a \<and> a \<le> CHR 0xEF
      then (case s of b # c # _ \<Rightarrow> if second_byte a b \<and> cont c then 3 else 1 | _ \<Rightarrow> 1)
      else if CHR 0xF0 \<le> a \<and> a \<le> CHR 0xF4
      then (case s of b # c # d # _ \<Rightarrow> if second_byte a b \<and> cont c \<and> cont d then 4 else 1 | _ \<Rightarrow> 1)
      else 1)"

lemma rune_len_pos: "s \<noteq> [] \<Longrightarrow> 0 < rune_len s"
  by (cases s) (auto split: list.split)

end
