(* ===== verification/Grants.thy ===== *)
theory Grants
  imports GuardLocal GoTime
begin

text \<open>
  The declarative grants file (\<open>internal/grants/grants.go\<close>), up to the tokens: the decoded
  \<open>legant.grants.yaml\<close>, \<open>Lint\<close>, and the tree of grants \<open>buildTree\<close> makes of an entry. Decoding the YAML is
  left to the library. An omitted and an empty list are one value, except for the weekdays of a window, where the
  code can tell them apart when it compares trees (\<open>nd_written\<close> below).

  The lemmas show that a lint without errors means that every tree can be built, at any later time, and that
  every node of a tree stays below its root.
\<close>

section \<open>The file\<close>

record window_spec =
  ws_weekdays :: "int list option"
  ws_start :: string
  ws_end :: string
  ws_tz :: string

record constraint_spec =
  cs_max_amount :: "f64 option"
  cs_categories :: "string list"
  cs_tools :: "string list"
  cs_resources :: "string list"
  cs_window :: "window_spec option"

record child_spec =
  hs_agent :: string
  hs_scopes :: "string list"
  hs_constraints :: "constraint_spec option"

record grant_spec =
  gs_name :: string
  gs_principal :: string
  gs_agent :: string
  gs_scopes :: "string list"
  gs_audience :: string
  gs_ttl :: string
  gs_constraints :: "constraint_spec option"
  gs_delegate :: "child_spec list"

record grants_file =
  gf_version :: int
  gf_issuer :: string
  gf_audience :: string
  gf_default_ttl :: string
  gf_grants :: "grant_spec list"

section \<open>Fields\<close>

text \<open>What the \<open>time\<close> package reads: the zones of the installation and its arithmetic on fractions.\<close>

record go_time =
  gt_zones :: tzdb
  gt_fraction :: float_fraction

definition label :: "grant_spec \<Rightarrow> nat \<Rightarrow> string" where
  "label g i =
     (if gs_name g \<noteq> [] then gs_name g
      else if gs_principal g \<noteq> [] \<and> gs_agent g \<noteq> [] then gs_principal g @ ''->'' @ gs_agent g
      else ''grant#'' @ int_str (int i))"

definition audience_for :: "grants_file \<Rightarrow> grant_spec \<Rightarrow> string" where
  "audience_for f g = (if gs_audience g \<noteq> [] then gs_audience g else gf_audience f)"

datatype ttl_error = InvalidDuration string | TtlNotPositive

definition ttl_for :: "go_time \<Rightarrow> grants_file \<Rightarrow> grant_spec \<Rightarrow> ttl_error + duration" where
  "ttl_for gt f g =
     (let s = (if gs_ttl g = [] then gf_default_ttl f else gs_ttl g)
      in if s = [] then Inr (3600 * nanos)
         else case parse_duration (gt_fraction gt) s of
           None \<Rightarrow> Inl (InvalidDuration s)
         | Some d \<Rightarrow> if d \<le> 0 then Inl TtlNotPositive else Inr d)"

definition file_issuer :: "grants_file \<Rightarrow> string" where
  "file_issuer f = (if gf_issuer f \<noteq> [] then gf_issuer f else default_issuer)"

datatype clock_error = ClockRequired | NotHHMM string

definition parse_hhmm :: "string \<Rightarrow> clock_error + int" where
  "parse_hhmm s =
     (if s = [] then Inl ClockRequired
      else case parse_clock s of None \<Rightarrow> Inl (NotHHMM s) | Some (h, m) \<Rightarrow> Inr (h * 60 + m))"

datatype constraint_error =
    NegativeAmount
  | BadStart clock_error
  | BadEnd clock_error
  | BadWindow window_error

text \<open>\<open>toConstraints\<close>, the window first on its own.\<close>

definition to_window :: "tzdb \<Rightarrow> window_spec \<Rightarrow> constraint_error + time_window" where
  "to_window tzdb w =
     (case parse_hhmm (ws_start w) of
        Inl e \<Rightarrow> Inl (BadStart e)
      | Inr s \<Rightarrow> (case parse_hhmm (ws_end w) of
          Inl e \<Rightarrow> Inl (BadEnd e)
        | Inr t \<Rightarrow>
            let tw = \<lparr>tw_weekdays = (case ws_weekdays w of None \<Rightarrow> [] | Some ds \<Rightarrow> ds), tw_start_min = s, tw_end_min = t, tw_tz = ws_tz w\<rparr>
            in (case validate_window tzdb tw of Some e \<Rightarrow> Inl (BadWindow e) | None \<Rightarrow> Inr tw)))"

definition to_constraints :: "tzdb \<Rightarrow> constraint_spec \<Rightarrow> constraint_error + constraints" where
  "to_constraints tzdb c =
     (let out = no_constraints\<lparr>cn_categories := cs_categories c, cn_tools := cs_tools c, cn_resources := cs_resources c\<rparr>
      in reject (case cs_max_amount c of None \<Rightarrow> False | Some m \<Rightarrow> f64_less m (Fin 0)) NegativeAmount
         (let out' = out\<lparr>cn_max_amount := cs_max_amount c\<rparr>
          in case cs_window c of
               None \<Rightarrow> Inr out'
             | Some w \<Rightarrow> and_then (to_window tzdb w) (\<lambda>tw. Inr (out'\<lparr>cn_time_window := Some tw\<rparr>))))"

text \<open>An absent constraint block is the zero value.\<close>

definition opt_constraints :: "tzdb \<Rightarrow> constraint_spec option \<Rightarrow> constraint_error + constraints" where
  "opt_constraints tzdb c = (case c of None \<Rightarrow> Inr no_constraints | Some k \<Rightarrow> to_constraints tzdb k)"

text \<open>\<open>sanitize\<close>: one dash for every rune that is not a letter, a digit, or one of \<open>-\<close>, \<open>_\<close> and \<open>.\<close>.\<close>

definition alnum :: string where
  "alnum = ''abcdefghijklmnopqrstuvwxyzABCDEFGHIJKLMNOPQRSTUVWXYZ0123456789''"

definition safe_char :: "char \<Rightarrow> bool" where
  "safe_char c \<longleftrightarrow> c \<in> set alnum \<or> c \<in> set ''-_.''"

function dashed :: "string \<Rightarrow> string" where
  "dashed [] = []"
| "dashed (c # s) = (if safe_char c then c # dashed s else CHR ''-'' # dashed (drop (rune_len (c # s)) (c # s)))"
  by pat_completeness auto
termination
  using rune_len_pos by (relation "measure length") (simp_all del: rune_len.simps)

definition trim_dashes :: "string \<Rightarrow> string" where
  "trim_dashes s = rev (dropWhile (\<lambda>c. c = CHR ''-'') (rev (dropWhile (\<lambda>c. c = CHR ''-'') s)))"

definition sanitize :: "string \<Rightarrow> string" where
  "sanitize s = (let out = trim_dashes (dashed s) in if out = [] then ''grant'' else out)"

section \<open>The tree of grants\<close>

text \<open>
  A window holds a slice of weekdays, and Go tells an empty slice that is there from one that is not when it
  renders it. \<open>nd_written\<close> is that difference for the window of the grant, which has only a list: the file
  wrote an empty one. It follows \<open>tightenWindow\<close> and \<open>intersectInts\<close>.
\<close>

definition written_days :: "constraint_spec option \<Rightarrow> bool" where
  "written_days c = (case c of None \<Rightarrow> False | Some k \<Rightarrow> (case cs_window k of None \<Rightarrow> False | Some w \<Rightarrow> ws_weekdays w = Some []))"

definition tighten_written :: "time_window option \<Rightarrow> bool \<Rightarrow> time_window option \<Rightarrow> bool \<Rightarrow> bool" where
  "tighten_written p pb c cb =
     (case p of None \<Rightarrow> cb
      | Some pw \<Rightarrow> (case c of None \<Rightarrow> pb
          | Some cw \<Rightarrow> if tw_tz pw \<noteq> tw_tz cw then pb
                      else if tw_weekdays pw = [] then cb
                      else if tw_weekdays cw = [] then pb else False))"

record node =
  nd_file :: string
  nd_grant :: grant
  nd_audience :: string
  nd_written :: bool

datatype tree_error =
    TreeTtl ttl_error
  | TreeConstraints constraint_error
  | ChildAgentRequired nat
  | ChildConstraints string constraint_error
  | ChildRefused delegate_error

fun build_children ::
    "go_time \<Rightarrow> grant \<Rightarrow> bool \<Rightarrow> duration \<Rightarrow> string \<Rightarrow> string \<Rightarrow> instant \<Rightarrow> nat \<Rightarrow> child_spec list \<Rightarrow> tree_error + node list" where
  "build_children gt root_grant written ttl aud stem now ci [] = Inr []"
| "build_children gt root_grant written ttl aud stem now ci (c # cs) =
     (if hs_agent c = [] then Inl (ChildAgentRequired ci)
      else case opt_constraints (gt_zones gt) (hs_constraints c) of
        Inl e \<Rightarrow> Inl (ChildConstraints (hs_agent c) e)
      | Inr cn \<Rightarrow> (case delegate root_grant (hs_agent c) (hs_scopes c) cn ttl now default_max_depth of
          Inl e \<Rightarrow> Inl (ChildRefused e)
        | Inr g \<Rightarrow>
            and_then (build_children gt root_grant written ttl aud stem now (ci + 1) cs) (\<lambda>ns.
              Inr (\<lparr>nd_file = stem @ ''__'' @ sanitize (hs_agent c) @ ''.jwt'', nd_grant = g, nd_audience = aud,
                     nd_written = tighten_written (cn_time_window (g_constraints root_grant)) written (cn_time_window cn)
                       (written_days (hs_constraints c))\<rparr> # ns))))"

definition build_tree ::
    "go_time \<Rightarrow> grants_file \<Rightarrow> grant_spec \<Rightarrow> nat \<Rightarrow> instant \<Rightarrow> tree_error + node list" where
  "build_tree gt f g i now =
     (case ttl_for gt f g of
        Inl e \<Rightarrow> Inl (TreeTtl e)
      | Inr ttl \<Rightarrow> (case opt_constraints (gt_zones gt) (gs_constraints g) of
          Inl e \<Rightarrow> Inl (TreeConstraints e)
        | Inr cn \<Rightarrow>
            let r = new_root_grant (gs_principal g) (gs_agent g) (gs_scopes g) cn ttl now;
                aud = audience_for f g; stem = sanitize (label g i)
            in and_then (build_children gt r (written_days (gs_constraints g)) ttl aud stem now 0 (gs_delegate g)) (\<lambda>ns.
                 Inr (\<lparr>nd_file = stem @ ''.jwt'', nd_grant = r, nd_audience = aud, nd_written = written_days (gs_constraints g)\<rparr> # ns))))"

section \<open>Lint\<close>

datatype severity = SevError | SevWarn

datatype lint_message =
    VersionNotUnderstood int
  | NoGrantsDeclared
  | PrincipalRequired
  | AgentRequired
  | PrincipalIsAgent
  | ScopesRequired
  | NoAudience
  | LintTtl ttl_error
  | DuplicateGrant
  | LintConstraints constraint_error
  | LintTree tree_error

record issue =
  is_grant :: string
  is_severity :: severity
  is_message :: lint_message

definition when_issue :: "bool \<Rightarrow> string \<Rightarrow> severity \<Rightarrow> lint_message \<Rightarrow> issue list" where
  "when_issue b g s m = (if b then [\<lparr>is_grant = g, is_severity = s, is_message = m\<rparr>] else [])"

definition grant_key :: "grants_file \<Rightarrow> grant_spec \<Rightarrow> string" where
  "grant_key f g = gs_principal g @ [CHR 0x00] @ gs_agent g @ [CHR 0x00] @ audience_for f g"

definition lint_grant :: "go_time \<Rightarrow> grants_file \<Rightarrow> instant \<Rightarrow> string set \<Rightarrow> nat \<Rightarrow> grant_spec \<Rightarrow> issue list" where
  "lint_grant gt f now seen i g =
     (let name = label g i; err = (\<lambda>b m. when_issue b name SevError m)
      in err (gs_principal g = []) PrincipalRequired
       @ err (gs_agent g = []) AgentRequired
       @ err (gs_principal g \<noteq> [] \<and> gs_principal g = gs_agent g) PrincipalIsAgent
       @ err (gs_scopes g = []) ScopesRequired
       @ err (audience_for f g = []) NoAudience
       @ (case ttl_for gt f g of Inl e \<Rightarrow> err True (LintTtl e) | Inr _ \<Rightarrow> [])
       @ when_issue (grant_key f g \<in> seen) name SevWarn DuplicateGrant
       @ (case opt_constraints (gt_zones gt) (gs_constraints g) of
            Inl e \<Rightarrow> err True (LintConstraints e)
          | Inr _ \<Rightarrow> (case build_tree gt f g i now of Inl e \<Rightarrow> err True (LintTree e) | Inr _ \<Rightarrow> [])))"

fun lint_grants :: "go_time \<Rightarrow> grants_file \<Rightarrow> instant \<Rightarrow> string set \<Rightarrow> nat \<Rightarrow> grant_spec list \<Rightarrow> issue list" where
  "lint_grants gt f now seen i [] = []"
| "lint_grants gt f now seen i (g # gs) =
     lint_grant gt f now seen i g @ lint_grants gt f now (insert (grant_key f g) seen) (i + 1) gs"

definition lint :: "go_time \<Rightarrow> grants_file \<Rightarrow> instant \<Rightarrow> issue list" where
  "lint gt f now =
     when_issue (gf_version f \<noteq> 0 \<and> gf_version f \<noteq> 1) [] SevWarn (VersionNotUnderstood (gf_version f))
   @ when_issue (gf_grants f = []) [] SevError NoGrantsDeclared
   @ lint_grants gt f now {} 0 (gf_grants f)"

definition has_errors :: "issue list \<Rightarrow> bool" where
  "has_errors issues \<longleftrightarrow> (\<exists>i \<in> set issues. is_severity i = SevError)"

section \<open>Lemmas\<close>

lemma parse_hhmm_range: "parse_hhmm s = Inr m \<Longrightarrow> 0 \<le> m \<and> m \<le> 1439"
  by (fastforce simp: parse_hhmm_def split: if_splits option.splits dest!: parse_clock_range)

lemma to_window_valid: "to_window tzdb w = Inr tw \<Longrightarrow> validate_window tzdb tw = None"
  by (auto simp: to_window_def Let_def split: sum.splits option.splits)

lemma to_constraints_Inr_iff:
  "to_constraints tzdb c = Inr k \<longleftrightarrow>
     (\<forall>m. cs_max_amount c = Some m \<longrightarrow> \<not> f64_less m (Fin 0)) \<and>
     cn_max_amount k = cs_max_amount c \<and> cn_categories k = cs_categories c \<and> cn_tools k = cs_tools c \<and>
     cn_resources k = cs_resources c \<and> cn_rate k = None \<and>
     (case cs_window c of None \<Rightarrow> cn_time_window k = None
      | Some w \<Rightarrow> (\<exists>tw. to_window tzdb w = Inr tw \<and> cn_time_window k = Some tw))"
  by (cases k) (auto simp: to_constraints_def no_constraints_def step_Inr_iff Let_def split: option.splits)

text \<open>What the engine may expect of constraints that come from a file.\<close>

definition file_constraints :: "tzdb \<Rightarrow> constraints \<Rightarrow> bool" where
  "file_constraints tzdb k \<longleftrightarrow>
     (\<forall>m. cn_max_amount k = Some m \<longrightarrow> \<not> f64_less m (Fin 0)) \<and>
     (\<forall>w. cn_time_window k = Some w \<longrightarrow> validate_window tzdb w = None) \<and> cn_rate k = None"

lemma opt_constraints_valid: "opt_constraints tzdb c = Inr k \<Longrightarrow> file_constraints tzdb k"
  by (fastforce simp: opt_constraints_def file_constraints_def no_constraints_def to_constraints_Inr_iff
      split: option.splits dest: to_window_valid)

lemma ttl_for_range:
  assumes "ttl_for gt f g = Inr d"
  shows "0 < d \<and> d < 2 ^ 63"
proof -
  have "d = 3600 * nanos \<or> (\<exists>s. parse_duration (gt_fraction gt) s = Some d \<and> 0 < d)"
    using assms by (auto simp: ttl_for_def Let_def split: if_splits option.splits)
  then show ?thesis using parse_duration_range by (auto simp: nanos_def)
qed

lemma safe_literals [simp]:
  "safe_char CHR ''-''" "safe_char CHR ''.''" "safe_char CHR ''_''" "safe_char CHR ''j''" "safe_char CHR ''w''" "safe_char CHR ''t''"
  by (simp_all add: safe_char_def alnum_def)

lemma dashed_safe: "c \<in> set (dashed s) \<Longrightarrow> safe_char c"
  by (induction s rule: dashed.induct) (auto simp del: rune_len.simps split: if_splits)

lemma trim_dashes_subset: "set (trim_dashes s) \<subseteq> set s"
  by (auto simp: trim_dashes_def dest!: set_dropWhileD)

lemma grant_safe: "\<forall>c \<in> set ''grant''. safe_char c"
  by (simp add: safe_char_def alnum_def)

lemma sanitize_safe: "c \<in> set (sanitize s) \<Longrightarrow> safe_char c"
  using trim_dashes_subset [of "dashed s"] dashed_safe [of c s] grant_safe
  by (cases "trim_dashes (dashed s) = []") (auto simp: sanitize_def Let_def simp del: dashed.simps)

lemma sanitize_nonempty: "sanitize s \<noteq> []"
  by (simp add: sanitize_def Let_def)

lemma build_children_Inr_iff:
  "build_children gt r written ttl aud stem now ci cs = Inr ns \<longleftrightarrow>
     list_all2 (\<lambda>c n. hs_agent c \<noteq> [] \<and>
        (\<exists>cn. opt_constraints (gt_zones gt) (hs_constraints c) = Inr cn \<and>
              delegate r (hs_agent c) (hs_scopes c) cn ttl now default_max_depth = Inr (nd_grant n) \<and>
              nd_written n = tighten_written (cn_time_window (g_constraints r)) written (cn_time_window cn) (written_days (hs_constraints c))) \<and>
        nd_file n = stem @ ''__'' @ sanitize (hs_agent c) @ ''.jwt'' \<and> nd_audience n = aud) cs ns"
proof (induction cs arbitrary: ci ns)
  case (Cons c cs)
  show ?case
    by (cases ns) (auto simp: Cons.IH step_Inr_iff split: sum.splits)
qed auto

lemma build_tree_Inr_iff:
  "build_tree gt f g i now = Inr ns \<longleftrightarrow>
     (\<exists>ttl cn r ch. ttl_for gt f g = Inr ttl \<and> opt_constraints (gt_zones gt) (gs_constraints g) = Inr cn \<and>
        r = new_root_grant (gs_principal g) (gs_agent g) (gs_scopes g) cn ttl now \<and>
        build_children gt r (written_days (gs_constraints g)) ttl (audience_for f g) (sanitize (label g i)) now 0 (gs_delegate g) = Inr ch \<and>
        ns = \<lparr>nd_file = sanitize (label g i) @ ''.jwt'', nd_grant = r, nd_audience = audience_for f g,
               nd_written = written_days (gs_constraints g)\<rparr> # ch)"
  by (auto simp: build_tree_def Let_def step_Inr_iff split: sum.splits)

text \<open>The nodes of a tree: the root, and children that were delegated from it.\<close>

lemma tree_nodes:
  assumes "build_tree gt f g i now = Inr ns" and "n \<in> set ns"
  obtains (root) ttl cn where "ttl_for gt f g = Inr ttl" and "opt_constraints (gt_zones gt) (gs_constraints g) = Inr cn"
      and "n = hd ns" and "nd_grant n = new_root_grant (gs_principal g) (gs_agent g) (gs_scopes g) cn ttl now"
      and "nd_file n = sanitize (label g i) @ ''.jwt''" and "nd_audience n = audience_for f g"
  | (child) c ttl cn where "c \<in> set (gs_delegate g)" and "ttl_for gt f g = Inr ttl"
      and "opt_constraints (gt_zones gt) (hs_constraints c) = Inr cn"
      and "delegate (nd_grant (hd ns)) (hs_agent c) (hs_scopes c) cn ttl now default_max_depth = Inr (nd_grant n)"
      and "nd_file n = sanitize (label g i) @ ''__'' @ sanitize (hs_agent c) @ ''.jwt''" and "nd_audience n = audience_for f g"
proof -
  from assms(1) obtain ttl cn r ch where t: "ttl_for gt f g = Inr ttl" "opt_constraints (gt_zones gt) (gs_constraints g) = Inr cn"
    "r = new_root_grant (gs_principal g) (gs_agent g) (gs_scopes g) cn ttl now"
    "build_children gt r (written_days (gs_constraints g)) ttl (audience_for f g) (sanitize (label g i)) now 0 (gs_delegate g) = Inr ch"
    "ns = \<lparr>nd_file = sanitize (label g i) @ ''.jwt'', nd_grant = r, nd_audience = audience_for f g,
       nd_written = written_days (gs_constraints g)\<rparr> # ch"
    unfolding build_tree_Inr_iff by blast
  show thesis
  proof (cases "n = hd ns")
    case True
    with t show thesis by (intro root) simp_all
  next
    case False
    with assms(2) t(5) have "n \<in> set ch" by auto
    with list_all2_right [OF t(4) [unfolded build_children_Inr_iff]] obtain c where "c \<in> set (gs_delegate g)"
      "\<exists>cn. opt_constraints (gt_zones gt) (hs_constraints c) = Inr cn \<and>
            delegate r (hs_agent c) (hs_scopes c) cn ttl now default_max_depth = Inr (nd_grant n)"
      "nd_file n = sanitize (label g i) @ ''__'' @ sanitize (hs_agent c) @ ''.jwt''" "nd_audience n = audience_for f g"
      by blast
    with t(1,5) show thesis using child by auto
  qed
qed

text \<open>Whether a tree can be built does not depend on the clock, and the clock only moves the expiry.\<close>

definition same_authority :: "grant \<Rightarrow> grant \<Rightarrow> bool" where
  "same_authority g h \<longleftrightarrow>
     root_delegator g = root_delegator h \<and> actor_chain_root_to_leaf g = actor_chain_root_to_leaf h \<and>
     g_delegatee g = g_delegatee h \<and> g_scopes g = g_scopes h \<and> g_constraints g = g_constraints h"

definition same_node :: "node \<Rightarrow> node \<Rightarrow> bool" where
  "same_node n m \<longleftrightarrow> nd_file n = nd_file m \<and> nd_audience n = nd_audience m \<and> nd_written n = nd_written m \<and>
     same_authority (nd_grant n) (nd_grant m)"

lemma delegate_any_time:
  "delegate (new_root_grant p a s cn ttl now) d ss c ttl now m = Inr g \<Longrightarrow>
   \<exists>g'. delegate (new_root_grant p a s cn ttl now') d ss c ttl now' m = Inr g' \<and> same_authority g g'"
  by (auto simp: delegate_Inr_iff new_root_grant_def same_authority_def actor_chain_root_to_leaf_def)

lemma root_constraints [simp]: "g_constraints (new_root_grant p a s cn ttl now) = cn"
  by (simp add: new_root_grant_def)

lemma build_children_any_time:
  assumes "build_children gt (new_root_grant p a s cn ttl now) written ttl aud stem now ci cs = Inr ch"
  shows "\<exists>ch'. build_children gt (new_root_grant p a s cn ttl now') written ttl aud stem now' k cs = Inr ch' \<and> list_all2 same_node ch ch'"
  using assms
proof (induction cs arbitrary: ci k ch)
  case (Cons c cs)
  from Cons.prems obtain cn' g' rest where c: "hs_agent c \<noteq> []" "opt_constraints (gt_zones gt) (hs_constraints c) = Inr cn'"
    "delegate (new_root_grant p a s cn ttl now) (hs_agent c) (hs_scopes c) cn' ttl now default_max_depth = Inr g'"
    "build_children gt (new_root_grant p a s cn ttl now) written ttl aud stem now (ci + 1) cs = Inr rest"
    "ch = \<lparr>nd_file = stem @ ''__'' @ sanitize (hs_agent c) @ ''.jwt'', nd_grant = g', nd_audience = aud,
       nd_written = tighten_written (cn_time_window cn) written (cn_time_window cn') (written_days (hs_constraints c))\<rparr> # rest"
    by (auto simp: step_Inr_iff split: if_splits sum.splits)
  from delegate_any_time [OF c(3), of now'] Cons.IH [OF c(4), of "k + 1"] c(1,2,5) show ?case
    by (auto simp: step_Inr_iff same_node_def)
qed simp

lemma build_tree_any_time:
  assumes "build_tree gt f g i now = Inr ns"
  shows "\<exists>ns'. build_tree gt f g i now' = Inr ns' \<and> list_all2 same_node ns ns'"
proof -
  from assms obtain ttl cn ch where t: "ttl_for gt f g = Inr ttl" "opt_constraints (gt_zones gt) (gs_constraints g) = Inr cn"
    "build_children gt (new_root_grant (gs_principal g) (gs_agent g) (gs_scopes g) cn ttl now) (written_days (gs_constraints g)) ttl (audience_for f g)
       (sanitize (label g i)) now 0 (gs_delegate g) = Inr ch"
    "ns = \<lparr>nd_file = sanitize (label g i) @ ''.jwt'', nd_grant = new_root_grant (gs_principal g) (gs_agent g) (gs_scopes g) cn ttl now,
       nd_audience = audience_for f g, nd_written = written_days (gs_constraints g)\<rparr> # ch"
    unfolding build_tree_Inr_iff by blast
  moreover have "same_authority (new_root_grant p a s cn ttl now) (new_root_grant p a s cn ttl now')" for p a s
    by (simp add: same_authority_def new_root_grant_def actor_chain_root_to_leaf_def)
  ultimately show ?thesis
    using build_children_any_time [OF t(3), of now' 0] unfolding build_tree_Inr_iff by (fastforce simp: same_node_def)
qed

lemma has_errors_append [simp]: "has_errors (xs @ ys) \<longleftrightarrow> has_errors xs \<or> has_errors ys"
  by (auto simp: has_errors_def)

lemma has_errors_Nil [simp]: "\<not> has_errors []"
  by (simp add: has_errors_def)

lemma has_errors_when [simp]: "has_errors (when_issue b g s m) \<longleftrightarrow> b \<and> s = SevError"
  by (simp add: has_errors_def when_issue_def)

lemma lint_grant_errors:
  "has_errors (lint_grant gt f now seen i g) \<longleftrightarrow>
     gs_principal g = [] \<or> gs_agent g = [] \<or> gs_principal g = gs_agent g \<or> gs_scopes g = [] \<or> audience_for f g = [] \<or>
     (\<forall>ns. build_tree gt f g i now \<noteq> Inr ns)"
  by (auto simp: lint_grant_def Let_def build_tree_Inr_iff split: sum.splits)
     (auto simp: build_tree_def split: sum.splits)

lemma lint_grants_errors:
  "has_errors (lint_grants gt f now seen i gs) \<longleftrightarrow>
     (\<exists>k < length gs. \<exists>seen. has_errors (lint_grant gt f now seen (i + k) (gs ! k)))"
  by (induction gs arbitrary: seen i) (auto simp: lint_grant_errors less_Suc_eq_0_disj)

end
