(* ===== verification/GrantsApply.thy ===== *)
theory GrantsApply
  imports Grants "HOL-Library.AList"
begin

text \<open>
  Reconciling a grants file with a directory (\<open>internal/grants/grants.go\<close>): \<open>EnsureSetup\<close>, \<open>Apply\<close> with the
  fingerprints that make it idempotent, \<open>Prune\<close> and \<open>WhoCan\<close>. The directory is the \<open>trust_dir\<close> of theory
  \<open>GuardLocal\<close>, whose token files include every name that ends in \<open>.jwt\<close> but \<open>feed.jwt\<close>.

  A fingerprint is the value the code renders as JSON to compare it; strings are valid UTF-8, as YAML has
  them, so that rendering is one to one, and it fails (the empty string, here \<^const>\<open>None\<close>) for an
  amount that is no finite number. The payload of a token is what the JWT library decodes.
\<close>

section \<open>The setup\<close>

record ('k, 'p) grants_setup =
  su_issuer :: string
  su_signer :: "'k signer"
  su_keys :: "string \<rightharpoonup> 'p"
  su_created :: bool

text \<open>\<open>missing\<close> says whether a key that could not be loaded is one that does not exist; \<open>fresh\<close> is the generated key.\<close>

definition ensure_setup ::
    "('k, 'p) feed_jwt \<Rightarrow> 'k \<Rightarrow> bool \<Rightarrow> string \<Rightarrow> instant \<Rightarrow> ('k, 'p) trust_dir
       \<Rightarrow> setup_error + ('k, 'p) grants_setup \<times> ('k, 'p) trust_dir" where
  "ensure_setup flib fresh missing issuer now td =
     (let iss = (if issuer = [] then default_issuer else issuer) in
      and_then
        (case td_key td of
           Some k \<Rightarrow> Inr (k, td, False)
         | None \<Rightarrow>
             if \<not> missing then Inl NoKey
             else (case build_signed_feed flib [] 1 iss local_kid fresh (14 * 24 * 3600 * nanos) now of
                     None \<Rightarrow> Inl FeedSigning
                   | Some feed \<Rightarrow> Inr (fresh, td\<lparr>td_key := Some fresh,
                       td_jwks := Some [local_kid \<mapsto> jl_public flib fresh], td_feed := Some feed\<rparr>, True)))
        (\<lambda>(key, td', created).
          and_then (need NoJwks (td_jwks td')) (\<lambda>keys.
            Inr (\<lparr>su_issuer = iss, su_signer = \<lparr>sg_issuer = iss, sg_kid = local_kid, sg_key = key\<rparr>, su_keys = keys,
                  su_created = created\<rparr>, td'))))"

section \<open>Files\<close>

definition read_file :: "('k, 'p) trust_dir \<Rightarrow> string \<Rightarrow> string option" where
  "read_file td n = (if n = ''feed.jwt'' then td_feed td else map_of (td_tokens td) n)"

definition write_file :: "string \<Rightarrow> string \<Rightarrow> ('k, 'p) trust_dir \<Rightarrow> ('k, 'p) trust_dir" where
  "write_file n b td =
     (if n = ''feed.jwt'' then td\<lparr>td_feed := Some b\<rparr> else td\<lparr>td_tokens := AList.update n b (td_tokens td)\<rparr>)"

definition remove_file :: "string \<Rightarrow> ('k, 'p) trust_dir \<Rightarrow> ('k, 'p) trust_dir" where
  "remove_file n td =
     (if n = ''feed.jwt'' then td\<lparr>td_feed := None\<rparr> else td\<lparr>td_tokens := AList.delete n (td_tokens td)\<rparr>)"

section \<open>Fingerprints\<close>

record fingerprint =
  fp_chain :: "string list"
  fp_scope :: "string list"
  fp_aud :: string
  fp_categories :: "string list"
  fp_tools :: "string list"
  fp_resources :: "string list"
  fp_max_amount :: "f64 option"
  fp_window :: "time_window option"
  fp_written :: bool

definition canonical :: "string list \<Rightarrow> string list \<Rightarrow> string \<Rightarrow> constraints \<Rightarrow> bool \<Rightarrow> fingerprint option" where
  "canonical chain scopes aud k written =
     (if (case cn_max_amount k of None \<Rightarrow> False | Some m \<Rightarrow> m \<in> {NaN, PosInf, NegInf}) then None
      else Some \<lparr>fp_chain = chain, fp_scope = sort scopes, fp_aud = aud, fp_categories = sort (cn_categories k),
             fp_tools = sort (cn_tools k), fp_resources = sort (cn_resources k), fp_max_amount = cn_max_amount k,
             fp_window = cn_time_window k,
             fp_written = (case cn_time_window k of None \<Rightarrow> False | Some w \<Rightarrow> tw_weekdays w = [] \<and> written)\<rparr>)"

definition fingerprint_grant :: "grant \<Rightarrow> bool \<Rightarrow> string \<Rightarrow> fingerprint option" where
  "fingerprint_grant g written aud =
     canonical (root_delegator g # actor_chain_root_to_leaf g) (g_scopes g) aud (g_constraints g) written"

definition aud_string :: "string list \<Rightarrow> string" where
  "aud_string aud = join '','' (sort aud)"

definition fingerprint_token :: "('k, 'p) delegation_jwt \<Rightarrow> string \<Rightarrow> fingerprint option" where
  "fingerprint_token lib b =
     (case jl_claims lib (trim_space b) of
        None \<Rightarrow> None
      | Some c \<Rightarrow> canonical (rc_sub c # rev (actor_chain c)) (go_fields (cl_scope c)) (aud_string (rc_aud c))
          (case cl_constraints c of None \<Rightarrow> no_constraints | Some k \<Rightarrow> k) False)"

section \<open>Apply\<close>

datatype file_action = FileCreate | FileUpdate | FileUnchanged

record change =
  ch_name :: string
  ch_file :: string
  ch_action :: file_action
  ch_subject :: string
  ch_agent :: string
  ch_audience :: string

datatype apply_error = ApplyTree string tree_error | ApplyMint string issue_error

record ('k, 'p) apply_state =
  as_changes :: "change list"
  as_minted :: nat
  as_dir :: "('k, 'p) trust_dir"

definition action_for :: "('k, 'p) delegation_jwt \<Rightarrow> node \<Rightarrow> ('k, 'p) trust_dir \<Rightarrow> file_action" where
  "action_for lib n td =
     (case read_file td (nd_file n) of
        None \<Rightarrow> FileCreate
      | Some b \<Rightarrow> if fingerprint_token lib b = fingerprint_grant (nd_grant n) (nd_written n) (nd_audience n) then FileUnchanged
                  else FileUpdate)"

definition change_for :: "string \<Rightarrow> node \<Rightarrow> file_action \<Rightarrow> change" where
  "change_for name n a =
     \<lparr>ch_name = name, ch_file = nd_file n, ch_action = a, ch_subject = root_delegator (nd_grant n),
      ch_agent = g_delegatee (nd_grant n), ch_audience = nd_audience n\<rparr>"

text \<open>A loop that returns at the first error, with the state as it is then.\<close>

fun steps :: "('x \<Rightarrow> 's \<Rightarrow> 'e option \<times> 's) \<Rightarrow> 'x list \<Rightarrow> 's \<Rightarrow> 'e option \<times> 's" where
  "steps f [] st = (None, st)"
| "steps f (x # xs) st = (case f x st of (Some e, st') \<Rightarrow> (Some e, st') | (None, st') \<Rightarrow> steps f xs st')"

text \<open>One node; \<open>rnd\<close> is what the random source yields for each token that is minted.\<close>

definition apply_node ::
    "('k, 'p) delegation_jwt \<Rightarrow> ('k, 'p) grants_setup \<Rightarrow> (nat \<Rightarrow> string option) \<Rightarrow> bool \<Rightarrow> instant \<Rightarrow> string \<times> node
       \<Rightarrow> ('k, 'p) apply_state \<Rightarrow> apply_error option \<times> ('k, 'p) apply_state" where
  "apply_node lib su rnd force now nn st =
     (let (name, n) = nn; a = action_for lib n (as_dir st)
      in if a \<noteq> FileUnchanged \<or> force
         then (case mint_grant lib (su_signer su) (rnd (as_minted st)) (nd_grant n) (nd_audience n) now of
                 Inl e \<Rightarrow> (Some (ApplyMint name e), st)
               | Inr (tok, _) \<Rightarrow>
                   (None,
                     \<lparr>as_changes = as_changes st @ [change_for name n (if a = FileUnchanged then FileUpdate else a)],
                      as_minted = as_minted st + 1, as_dir = write_file (nd_file n) tok (as_dir st)\<rparr>))
         else (None, st\<lparr>as_changes := as_changes st @ [change_for name n a]\<rparr>))"

definition apply_grant ::
    "go_time \<Rightarrow> ('k, 'p) delegation_jwt \<Rightarrow> grants_file \<Rightarrow> ('k, 'p) grants_setup \<Rightarrow> (nat \<Rightarrow> string option) \<Rightarrow> bool \<Rightarrow> instant
       \<Rightarrow> grant_spec \<times> nat \<Rightarrow> ('k, 'p) apply_state \<Rightarrow> apply_error option \<times> ('k, 'p) apply_state" where
  "apply_grant gt lib f su rnd force now gi st =
     (let (g, i) = gi in
      case build_tree gt f g i now of
        Inl e \<Rightarrow> (Some (ApplyTree (label g i) e), st)
      | Inr ns \<Rightarrow> steps (apply_node lib su rnd force now) (map (Pair (label g i)) ns) st)"

definition numbered_grants :: "grants_file \<Rightarrow> (grant_spec \<times> nat) list" where
  "numbered_grants f = zip (gf_grants f) [0..<length (gf_grants f)]"

record apply_result =
  ar_changes :: "change list"
  ar_orphans :: "string list"
  ar_minted :: nat

definition orphans :: "string list \<Rightarrow> ('k, 'p) trust_dir \<Rightarrow> string list" where
  "orphans declared td = sort (filter (\<lambda>n. has_suffix ''.jwt'' n \<and> n \<noteq> ''feed.jwt'' \<and> n \<notin> set declared) (map fst (td_tokens td)))"

text \<open>\<open>Apply\<close>; what it wrote before an error stays in the directory.\<close>

definition apply_file ::
    "go_time \<Rightarrow> ('k, 'p) delegation_jwt \<Rightarrow> grants_file \<Rightarrow> ('k, 'p) grants_setup \<Rightarrow> (nat \<Rightarrow> string option) \<Rightarrow> bool \<Rightarrow> instant
       \<Rightarrow> ('k, 'p) trust_dir \<Rightarrow> (apply_error + apply_result) \<times> ('k, 'p) trust_dir" where
  "apply_file gt lib f su rnd force now td =
     (case steps (apply_grant gt lib f su rnd force now) (numbered_grants f) \<lparr>as_changes = [], as_minted = 0, as_dir = td\<rparr> of
        (Some e, st) \<Rightarrow> (Inl e, as_dir st)
      | (None, st) \<Rightarrow>
          (Inr \<lparr>ar_changes = as_changes st, ar_orphans = orphans (map ch_file (as_changes st)) (as_dir st),
             ar_minted = as_minted st\<rparr>, as_dir st))"

section \<open>Prune\<close>

definition prune_one ::
    "('k, 'p) feed_jwt \<Rightarrow> ('k, 'p) delegation_jwt \<Rightarrow> instant \<Rightarrow> string \<Rightarrow> nat \<times> ('k, 'p) trust_dir \<Rightarrow> nat \<times> ('k, 'p) trust_dir" where
  "prune_one flib lib now n s =
     (let (revoked, td) = s;
          s' = (case read_file td n of
                  None \<Rightarrow> (revoked, td)
                | Some b \<Rightarrow>
                    let jti = jti_of lib (trim_space b)
                    in if jti = [] then (revoked, td)
                       else (case revoke_jti flib jti now td of
                               Inl _ \<Rightarrow> (revoked, td)
                             | Inr (_, td') \<Rightarrow> (revoked + 1, td')))
      in (fst s', remove_file n (snd s')))"

definition prune ::
    "('k, 'p) feed_jwt \<Rightarrow> ('k, 'p) delegation_jwt \<Rightarrow> instant \<Rightarrow> string list \<Rightarrow> ('k, 'p) trust_dir \<Rightarrow> nat \<times> ('k, 'p) trust_dir" where
  "prune flib lib now ns td = fold (prune_one flib lib now) ns (0, td)"

section \<open>WhoCan\<close>

record match =
  ma_name :: string
  ma_provenance :: string
  ma_audience :: string
  ma_time_boxed :: bool

fun drop_window :: "grant \<Rightarrow> grant" where
  "drop_window (Grant d e s k x p) = Grant d e s (k\<lparr>cn_time_window := None\<rparr>) x p"

definition new_sdk_verifier :: "string \<Rightarrow> string \<Rightarrow> (string \<rightharpoonup> 'p) \<Rightarrow> 'p sdk_verifier" where
  "new_sdk_verifier iss aud keys =
     \<lparr>sv_issuer = iss, sv_audience = aud, sv_keys = keys, sv_feed = None, sv_fail_closed = False, sv_max_staleness = 0\<rparr>"

definition authorize_node ::
    "tzdb \<Rightarrow> ('k, 'p) delegation_jwt \<Rightarrow> 'r url_lib \<Rightarrow> ('k, 'p) grants_setup \<Rightarrow> string option \<Rightarrow> node \<Rightarrow> action \<Rightarrow> instant \<Rightarrow> bool
       \<Rightarrow> issue_error + string option" where
  "authorize_node tzdb lib urls su rnd n a now drop_tw =
     (let g = (if drop_tw then drop_window (nd_grant n) else nd_grant n);
          a' = (if drop_tw then a\<lparr>ac_at := zero_time\<rparr> else a)
      in and_then (mint_grant lib (su_signer su) rnd g (nd_audience n) now) (\<lambda>(tok, _).
           case sdk_verify lib urls (new_sdk_verifier (su_issuer su) (nd_audience n) (su_keys su)) now tok of
             Inl _ \<Rightarrow> Inr None
           | Inr c \<Rightarrow> if sdk_authorize urls tzdb now c a' \<noteq> None then Inr None else Inr (Some (sdk_provenance c))))"

text \<open>The matches of one node; a window that is closed now is dropped on the second try.\<close>

definition node_matches ::
    "tzdb \<Rightarrow> ('k, 'p) delegation_jwt \<Rightarrow> 'r url_lib \<Rightarrow> ('k, 'p) grants_setup \<Rightarrow> string option \<Rightarrow> action \<Rightarrow> instant \<Rightarrow> string \<Rightarrow> node
       \<Rightarrow> issue_error + match list" where
  "node_matches tzdb lib urls su rnd a now name n =
     and_then (authorize_node tzdb lib urls su rnd n a now False) (\<lambda>r.
       case r of
         Some prov \<Rightarrow> Inr [\<lparr>ma_name = name, ma_provenance = prov, ma_audience = nd_audience n, ma_time_boxed = False\<rparr>]
       | None \<Rightarrow>
           if cn_time_window (g_constraints (nd_grant n)) = None then Inr []
           else and_then (authorize_node tzdb lib urls su rnd n a now True) (\<lambda>r'. Inr (case r' of
                  None \<Rightarrow> []
                | Some prov \<Rightarrow> [\<lparr>ma_name = name, ma_provenance = prov, ma_audience = nd_audience n, ma_time_boxed = True\<rparr>])))"

fun collect :: "('a \<Rightarrow> 'e + 'b list) \<Rightarrow> 'a list \<Rightarrow> 'e + 'b list" where
  "collect f [] = Inr []"
| "collect f (x # xs) = and_then (f x) (\<lambda>ys. and_then (collect f xs) (\<lambda>zs. Inr (ys @ zs)))"

definition grant_matches ::
    "go_time \<Rightarrow> ('k, 'p) delegation_jwt \<Rightarrow> 'r url_lib \<Rightarrow> grants_file \<Rightarrow> ('k, 'p) grants_setup \<Rightarrow> string option \<Rightarrow> action \<Rightarrow> instant
       \<Rightarrow> grant_spec \<times> nat \<Rightarrow> apply_error + match list" where
  "grant_matches gt lib urls f su rnd a now gi =
     (case build_tree gt f (fst gi) (snd gi) now of
        Inl e \<Rightarrow> Inl (ApplyTree (label (fst gi) (snd gi)) e)
      | Inr ns \<Rightarrow> (case collect (node_matches (gt_zones gt) lib urls su rnd a now (label (fst gi) (snd gi))) ns of
          Inl e \<Rightarrow> Inl (ApplyMint [] e) | Inr ms \<Rightarrow> Inr ms))"

text \<open>\<open>rnd\<close>: the ids of these tokens, which are discarded, are read by nothing.\<close>

definition who_can ::
    "go_time \<Rightarrow> ('k, 'p) delegation_jwt \<Rightarrow> 'r url_lib \<Rightarrow> grants_file \<Rightarrow> ('k, 'p) grants_setup \<Rightarrow> string option \<Rightarrow> action \<Rightarrow> instant
       \<Rightarrow> apply_error + match list" where
  "who_can gt lib urls f su rnd a now =
     collect (grant_matches gt lib urls f su rnd a now) (numbered_grants f)"

section \<open>Lemmas\<close>

lemma collect_Inr_iff:
  "collect f xs = Inr ys \<longleftrightarrow> (\<exists>yss. list_all2 (\<lambda>x y. f x = Inr y) xs yss \<and> ys = concat yss)"
proof (induction xs arbitrary: ys)
  case (Cons x xs)
  show ?case by (auto simp: step_Inr_iff Cons.IH list_all2_Cons1) (metis concat.simps(2))+
qed auto

lemma collect_succeeds: "(\<exists>ys. collect f xs = Inr ys) \<longleftrightarrow> (\<forall>x \<in> set xs. \<exists>y. f x = Inr y)"
  by (induction xs) (auto simp: step_Inr_iff)

lemma steps_append:
  "steps f (xs @ ys) st = (case steps f xs st of (Some e, st') \<Rightarrow> (Some e, st') | (None, st') \<Rightarrow> steps f ys st')"
  by (induction xs arbitrary: st) (auto split: prod.split option.split)

lemma steps_Cons_None:
  "steps f (x # xs) st = (None, st') \<longleftrightarrow> (\<exists>s. f x st = (None, s) \<and> steps f xs s = (None, st'))"
  by (auto split: prod.splits option.splits)

lemma steps_error: "steps f xs st = (Some e, st') \<Longrightarrow> \<exists>x \<in> set xs. \<exists>s s'. f x s = (Some e, s')"
  by (induction xs arbitrary: st) (auto split: prod.splits option.splits)

text \<open>The nodes a file declares, in the order in which \<open>Apply\<close> visits them, with the labels of their grants.\<close>

definition named_nodes :: "go_time \<Rightarrow> grants_file \<Rightarrow> instant \<Rightarrow> grant_spec \<times> nat \<Rightarrow> tree_error + (string \<times> node) list" where
  "named_nodes gt f now gi =
     and_then (build_tree gt f (fst gi) (snd gi) now) (\<lambda>ns. Inr (map (Pair (label (fst gi) (snd gi))) ns))"

definition declared_nodes :: "go_time \<Rightarrow> grants_file \<Rightarrow> instant \<Rightarrow> tree_error + (string \<times> node) list" where
  "declared_nodes gt f now = collect (named_nodes gt f now) (numbered_grants f)"

lemma named_nodes_Inr_iff:
  "named_nodes gt f now gi = Inr x \<longleftrightarrow>
     (\<exists>ns. build_tree gt f (fst gi) (snd gi) now = Inr ns \<and> x = map (Pair (label (fst gi) (snd gi))) ns)"
  by (auto simp: named_nodes_def step_Inr_iff)

lemma apply_grants_eq:
  "collect (named_nodes gt f now) gis = Inr nns \<Longrightarrow>
   steps (apply_grant gt lib f su rnd force now) gis st = steps (apply_node lib su rnd force now) nns st"
proof (induction gis arbitrary: nns st)
  case (Cons gi gis)
  then obtain ns rest where "build_tree gt f (fst gi) (snd gi) now = Inr ns" "collect (named_nodes gt f now) gis = Inr rest"
    "nns = map (Pair (label (fst gi) (snd gi))) ns @ rest"
    by (auto simp: step_Inr_iff named_nodes_Inr_iff)
  with Cons.IH [of rest] show ?case
    by (cases gi) (simp add: steps_append apply_grant_def split: prod.split option.split)
qed simp

lemma apply_grants_declared:
  "steps (apply_grant gt lib f su rnd force now) gis st = (None, st') \<Longrightarrow> \<exists>nns. collect (named_nodes gt f now) gis = Inr nns"
proof (induction gis arbitrary: st)
  case (Cons gi gis)
  from Cons.prems obtain s where 1: "apply_grant gt lib f su rnd force now gi st = (None, s)"
    "steps (apply_grant gt lib f su rnd force now) gis s = (None, st')"
    unfolding steps_Cons_None by blast
  then obtain ns where "build_tree gt f (fst gi) (snd gi) now = Inr ns"
    by (cases gi) (auto simp: apply_grant_def split: sum.splits)
  with Cons.IH [OF 1(2)] show ?case by (auto simp: named_nodes_def)
qed simp

lemma apply_file_Inr:
  assumes "apply_file gt lib f su rnd force now td = (Inr r, td')"
  obtains nns st where "declared_nodes gt f now = Inr nns"
    and "steps (apply_node lib su rnd force now) nns \<lparr>as_changes = [], as_minted = 0, as_dir = td\<rparr> = (None, st)"
    and "td' = as_dir st" and "ar_changes r = as_changes st" and "ar_minted r = as_minted st"
proof -
  from assms obtain st where 1: "steps (apply_grant gt lib f su rnd force now) (numbered_grants f)
      \<lparr>as_changes = [], as_minted = 0, as_dir = td\<rparr> = (None, st)"
    "td' = as_dir st" "ar_changes r = as_changes st" "ar_minted r = as_minted st"
    by (auto simp: apply_file_def split: prod.splits option.splits)
  from apply_grants_declared [OF this(1)] obtain nns where 2: "collect (named_nodes gt f now) (numbered_grants f) = Inr nns" ..
  with 1 show thesis by (intro that [of nns st]) (simp_all add: declared_nodes_def apply_grants_eq [OF 2])
qed

lemma apply_file_declared:
  assumes "declared_nodes gt f now = Inr nns"
    and "steps (apply_node lib su rnd force now) nns \<lparr>as_changes = [], as_minted = 0, as_dir = td\<rparr> = (None, st)"
  shows "apply_file gt lib f su rnd force now td =
    (Inr \<lparr>ar_changes = as_changes st, ar_orphans = orphans (map ch_file (as_changes st)) (as_dir st), ar_minted = as_minted st\<rparr>,
     as_dir st)"
  using assms by (simp add: apply_file_def declared_nodes_def apply_grants_eq)

lemma set_numbered: "gi \<in> set (numbered_grants f) \<longleftrightarrow> snd gi < length (gf_grants f) \<and> fst gi = gf_grants f ! snd gi"
  by (cases gi) (auto simp: numbered_grants_def in_set_zip)

lemma ball_numbered:
  "(\<forall>gi \<in> set (numbered_grants f). P (fst gi) (snd gi)) \<longleftrightarrow> (\<forall>k < length (gf_grants f). P (gf_grants f ! k) k)"
proof (intro iffI allI impI)
  fix k assume *: "\<forall>gi \<in> set (numbered_grants f). P (fst gi) (snd gi)" and "k < length (gf_grants f)"
  then have "(gf_grants f ! k, k) \<in> set (numbered_grants f)" by (simp add: set_numbered)
  from bspec [OF * this] show "P (gf_grants f ! k) k" by simp
qed (auto simp: set_numbered)

lemma declared_any_time:
  assumes "declared_nodes gt f now = Inr nns"
  shows "\<exists>nns'. declared_nodes gt f now' = Inr nns' \<and> list_all2 (rel_prod (=) same_node) nns nns'"
proof -
  have "\<exists>nns'. collect (named_nodes gt f now') gis = Inr nns' \<and> list_all2 (rel_prod (=) same_node) nns nns'"
    if "collect (named_nodes gt f now) gis = Inr nns" for gis nns
    using that
  proof (induction gis arbitrary: nns)
    case (Cons gi gis)
    then obtain ns rest where t: "build_tree gt f (fst gi) (snd gi) now = Inr ns" "collect (named_nodes gt f now) gis = Inr rest"
      "nns = map (Pair (label (fst gi) (snd gi))) ns @ rest"
      by (auto simp: step_Inr_iff named_nodes_Inr_iff)
    from build_tree_any_time [OF t(1), of now'] obtain ns' where
      ns': "build_tree gt f (fst gi) (snd gi) now' = Inr ns'" "list_all2 same_node ns ns'" by blast
    then have "list_all2 (rel_prod (=) same_node) (map (Pair (label (fst gi) (snd gi))) ns) (map (Pair (label (fst gi) (snd gi))) ns')"
      by (simp add: list_all2_map1 list_all2_map2)
    with Cons.IH [OF t(2)] ns'(1) t(3) show ?case
      by (auto simp: step_Inr_iff named_nodes_Inr_iff intro!: list_all2_appendI)
  qed simp
  with assms show ?thesis unfolding declared_nodes_def by blast
qed

subsection \<open>Files and fingerprints\<close>

lemma read_write: "read_file (write_file n b td) m = (if m = n then Some b else read_file td m)"
  by (auto simp: read_file_def write_file_def update_conv)

lemma write_keeps [simp]:
  "td_key (write_file n b td) = td_key td" "td_jwks (write_file n b td) = td_jwks td"
  by (simp_all add: write_file_def)

lemma read_remove: "read_file (remove_file n td) m = (if m = n then None else read_file td m)"
  by (auto simp: read_file_def remove_file_def delete_conv)

definition node_claims :: "('k, 'p) delegation_jwt \<Rightarrow> 'k signer \<Rightarrow> string \<Rightarrow> grant \<Rightarrow> string \<Rightarrow> instant \<Rightarrow> claims" where
  "node_claims lib s jti g aud now =
     token_claims lib s (root_delegator g) (nest_actors None (actor_chain_root_to_leaf g)) (g_scopes g) aud
       (Some (g_constraints g)) (g_expires_at g) now jti"

lemma mint_grant_Inr:
  "mint_grant lib s rnd g aud now = Inr (tok, j) \<Longrightarrow>
   \<exists>jti. rnd = Some jti \<and> jl_sign lib (sg_kid s) (sg_key s) (node_claims lib s jti g aud now) = Some tok"
  by (auto simp: mint_grant_def issue_claims_def sign_claims_def node_claims_def step_Inr_iff split: option.splits)

lemma node_claims_read:
  assumes "\<forall>w \<in> set (g_scopes g). solid w"
  shows "go_fields (cl_scope (node_claims lib s jti g aud now)) = g_scopes g"
    and "rev (actor_chain (node_claims lib s jti g aud now)) = actor_chain_root_to_leaf g"
    and "rc_sub (node_claims lib s jti g aud now) = root_delegator g" and "rc_aud (node_claims lib s jti g aud now) = [aud]"
    and "cl_constraints (node_claims lib s jti g aud now) = Some (g_constraints g)"
    and "rc_iss (node_claims lib s jti g aud now) = sg_issuer s" and "rc_nbf (node_claims lib s jti g aud now) = None"
    and "rc_exp (node_claims lib s jti g aud now) = Some (jl_numeric_date lib (g_expires_at g))"
  using assms by (simp_all add: node_claims_def token_claims_def fields_join actor_chain_def act_chain_nest)

text \<open>A signed token is three dotted parts of base64: no white space surrounds it.\<close>

definition compact_tokens :: "('k, 'p) delegation_jwt \<Rightarrow> bool" where
  "compact_tokens lib \<longleftrightarrow> (\<forall>kid k c t. jl_sign lib kid k c = Some t \<longrightarrow> trim_space t = t)"

lemma minted_fingerprint:
  assumes "jwt_laws lib" and "compact_tokens lib"
    and "\<And>jti. jl_exact lib (node_claims lib s jti g aud now)" and "\<forall>w \<in> set (g_scopes g). solid w"
    and "mint_grant lib s rnd g aud now = Inr (tok, j)"
  shows "fingerprint_token lib tok = fingerprint_grant g False aud"
proof -
  from mint_grant_Inr [OF assms(5)] obtain jti where
    sign: "jl_sign lib (sg_kid s) (sg_key s) (node_claims lib s jti g aud now) = Some tok" by blast
  with jwt_sign [OF assms(1,3) sign] assms(2) have "trim_space tok = tok" unfolding compact_tokens_def by blast
  with jwt_sign [OF assms(1,3) sign] show ?thesis
    by (simp add: fingerprint_token_def fingerprint_grant_def node_claims_read [OF assms(4)] aud_string_def)
qed

lemma same_fingerprint: "same_node n m \<Longrightarrow> action_for lib n td = action_for lib m td"
  by (auto simp: same_node_def same_authority_def action_for_def fingerprint_grant_def split: option.split)

lemma action_unchanged_iff:
  "action_for lib n td = FileUnchanged \<longleftrightarrow>
     (\<exists>b. read_file td (nd_file n) = Some b \<and> fingerprint_token lib b = fingerprint_grant (nd_grant n) (nd_written n) (nd_audience n))"
  by (auto simp: action_for_def split: option.split)

text \<open>Nodes whose token reads back as it was written: words as scopes, and claims JSON can hold.\<close>

definition plain_node :: "('k, 'p) delegation_jwt \<Rightarrow> 'k signer \<Rightarrow> instant \<Rightarrow> node \<Rightarrow> bool" where
  "plain_node lib s now n \<longleftrightarrow>
     (\<forall>w \<in> set (g_scopes (nd_grant n)). solid w) \<and>
     (\<forall>jti. jl_exact lib (node_claims lib s jti (nd_grant n) (nd_audience n) now))"

lemma apply_node_effect:
  assumes "jwt_laws lib" and "compact_tokens lib"
    and "plain_node lib (su_signer su) now n" and "\<not> nd_written n" and "apply_node lib su rnd force now (name, n) st = (None, st')"
  shows "action_for lib n (as_dir st') = FileUnchanged"
    and "m \<noteq> nd_file n \<Longrightarrow> read_file (as_dir st') m = read_file (as_dir st) m"
proof -
  consider (kept) "as_dir st' = as_dir st" "action_for lib n (as_dir st) = FileUnchanged"
    | (minted) r tok j where "mint_grant lib (su_signer su) r (nd_grant n) (nd_audience n) now = Inr (tok, j)"
        "as_dir st' = write_file (nd_file n) tok (as_dir st)"
    using assms(5) by (fastforce simp: apply_node_def Let_def split: if_splits sum.splits)
  then have "action_for lib n (as_dir st') = FileUnchanged \<and> (m \<noteq> nd_file n \<longrightarrow> read_file (as_dir st') m = read_file (as_dir st) m)"
  proof cases
    case minted
    with minted_fingerprint [OF assms(1,2) _ _ minted(1)] assms(3,4) show ?thesis by (auto simp: action_unchanged_iff read_write plain_node_def)
  qed simp
  then show "action_for lib n (as_dir st') = FileUnchanged"
    and "m \<noteq> nd_file n \<Longrightarrow> read_file (as_dir st') m = read_file (as_dir st) m" by simp_all
qed

lemma steps_settle:
  assumes "jwt_laws lib" and "compact_tokens lib"
    and "\<forall>(_, n) \<in> set nns. plain_node lib (su_signer su) now n \<and> \<not> nd_written n" and "distinct (map (nd_file \<circ> snd) nns)"
    and "steps (apply_node lib su rnd force now) nns st = (None, st')"
  shows "(\<forall>(_, n) \<in> set nns. action_for lib n (as_dir st') = FileUnchanged) \<and>
         (\<forall>m. m \<notin> nd_file ` snd ` set nns \<longrightarrow> read_file (as_dir st') m = read_file (as_dir st) m)"
  using assms(3-)
proof (induction nns arbitrary: st)
  case (Cons nn nns)
  obtain name n where nn: "nn = (name, n)" by (cases nn)
  from Cons.prems(3) obtain s where s: "apply_node lib su rnd force now (name, n) st = (None, s)"
    "steps (apply_node lib su rnd force now) nns s = (None, st')" unfolding steps_Cons_None nn by blast
  note IH = Cons.IH [OF _ _ s(2)]
  have rest: "(\<forall>(_, n) \<in> set nns. action_for lib n (as_dir st') = FileUnchanged) \<and>
       (\<forall>m. m \<notin> nd_file ` snd ` set nns \<longrightarrow> read_file (as_dir st') m = read_file (as_dir s) m)"
    by (rule IH) (use Cons.prems in auto)
  have n: "plain_node lib (su_signer su) now n" "\<not> nd_written n" using Cons.prems(1) nn by auto
  note eff = apply_node_effect [OF assms(1,2) n(1,2) s(1)]
  have "nd_file n \<notin> nd_file ` snd ` set nns" using Cons.prems(2) nn by (auto simp: image_image)
  with rest have "read_file (as_dir st') (nd_file n) = read_file (as_dir s) (nd_file n)" by blast
  with eff(1) have "action_for lib n (as_dir st') = FileUnchanged" by (simp add: action_unchanged_iff)
  with rest eff(2) nn show ?case by auto
qed simp

lemma steps_unchanged:
  assumes "\<forall>(_, n) \<in> set nns. action_for lib n (as_dir st) = FileUnchanged"
  shows "steps (apply_node lib su rnd False now) nns st =
    (None, st\<lparr>as_changes := as_changes st @ map (\<lambda>(name, n). change_for name n FileUnchanged) nns\<rparr>)"
  using assms by (induction nns arbitrary: st) (auto simp: apply_node_def)

section \<open>Applying\<close>

text \<open>
  a file that lints clean applies, up to signing. \<open>Lint\<close> reports no error exactly when the file declares
  a grant, every grant names its principal, its agent, a scope and an audience, the principal is not the
  agent, and every tree can be built; and that holds at any time. \<open>Apply\<close> can then fail in no other way
  than that a token cannot be minted.
\<close>

theorem clean_lint_applies:
  "(\<not> has_errors (lint gt f t0) \<longleftrightarrow>
      gf_grants f \<noteq> [] \<and>
      (\<forall>g \<in> set (gf_grants f). gs_principal g \<noteq> [] \<and> gs_agent g \<noteq> [] \<and> gs_principal g \<noteq> gs_agent g \<and> gs_scopes g \<noteq> [] \<and>
         audience_for f g \<noteq> []) \<and>
      (\<forall>now. \<exists>nns. declared_nodes gt f now = Inr nns)) \<and>
   (\<not> has_errors (lint gt f t0) \<longrightarrow>
      (\<forall>e. fst (apply_file gt lib f su rnd force now td) = Inl e \<longrightarrow> (\<exists>name ie. e = ApplyMint name ie)))"
proof
  have built: "(\<exists>nns. declared_nodes gt f t = Inr nns) \<longleftrightarrow>
      (\<forall>k < length (gf_grants f). \<exists>ns. build_tree gt f (gf_grants f ! k) k t = Inr ns)" for t
    unfolding declared_nodes_def collect_succeeds named_nodes_Inr_iff
    using ball_numbered [of f "\<lambda>g k. \<exists>ns. build_tree gt f g k t = Inr ns"] by auto
  have fields: "(\<forall>g \<in> set (gf_grants f). P g) \<longleftrightarrow> (\<forall>k < length (gf_grants f). P (gf_grants f ! k))" for P
    by (auto simp: all_set_conv_all_nth)
  have "(\<forall>t. \<exists>nns. declared_nodes gt f t = Inr nns) \<longleftrightarrow> (\<exists>nns. declared_nodes gt f t0 = Inr nns)"
    using declared_any_time by blast
  then show clean: "\<not> has_errors (lint gt f t0) \<longleftrightarrow>
      gf_grants f \<noteq> [] \<and>
      (\<forall>g \<in> set (gf_grants f). gs_principal g \<noteq> [] \<and> gs_agent g \<noteq> [] \<and> gs_principal g \<noteq> gs_agent g \<and> gs_scopes g \<noteq> [] \<and>
         audience_for f g \<noteq> []) \<and>
      (\<forall>now. \<exists>nns. declared_nodes gt f now = Inr nns)"
    unfolding lint_def fields by (auto simp: lint_grants_errors lint_grant_errors built)
  show "\<not> has_errors (lint gt f t0) \<longrightarrow>
      (\<forall>e. fst (apply_file gt lib f su rnd force now td) = Inl e \<longrightarrow> (\<exists>name ie. e = ApplyMint name ie))"
  proof (intro impI allI)
    fix e assume "\<not> has_errors (lint gt f t0)" and e: "fst (apply_file gt lib f su rnd force now td) = Inl e"
    then obtain nns where "collect (named_nodes gt f now) (numbered_grants f) = Inr nns"
      using clean unfolding declared_nodes_def by blast
    from e obtain st where "steps (apply_node lib su rnd force now) nns \<lparr>as_changes = [], as_minted = 0, as_dir = td\<rparr> = (Some e, st)"
      unfolding apply_file_def apply_grants_eq [OF \<open>collect _ _ = _\<close>] by (auto split: prod.splits option.splits)
    from steps_error [OF this] show "\<exists>name ie. e = ApplyMint name ie"
      by (auto simp: apply_node_def Let_def split: if_splits sum.splits)
  qed
qed


text \<open>A window with an explicit empty list of weekdays never finds its token unchanged: the token does not render it.\<close>

lemma written_reminted:
  assumes "nd_written n" and "cn_time_window (g_constraints (nd_grant n)) = Some w" and "tw_weekdays w = []"
    and "\<forall>m. cn_max_amount (g_constraints (nd_grant n)) = Some m \<longrightarrow> m \<notin> {NaN, PosInf, NegInf}"
  shows "action_for lib n td \<noteq> FileUnchanged"
  using assms by (auto simp: action_unchanged_iff fingerprint_grant_def fingerprint_token_def canonical_def split: option.splits if_splits)

text \<open>
  \<open>Apply\<close> writes nowhere else. Whatever the labels in the file are, the names \<open>Apply\<close> writes to are
  single path components that end in \<open>.jwt\<close>, and the key, its JWKS and every other file of the directory are
  as before.
\<close>

theorem apply_stays_in_directory:
  assumes "apply_file gt lib f su rnd force now td = (Inr r, td')"
  shows "td_key td' = td_key td \<and> td_jwks td' = td_jwks td \<and>
     (\<forall>m. m \<notin> set (map ch_file (ar_changes r)) \<longrightarrow> read_file td' m = read_file td m) \<and>
     (\<forall>m \<in> set (map ch_file (ar_changes r)). \<exists>s. m = s @ ''.jwt'' \<and> s \<noteq> [] \<and> (\<forall>c \<in> set m. safe_char c))"
proof -
  obtain nns st where d: "declared_nodes gt f now = Inr nns"
    and st: "steps (apply_node lib su rnd force now) nns \<lparr>as_changes = [], as_minted = 0, as_dir = td\<rparr> = (None, st)"
    "td' = as_dir st" "ar_changes r = as_changes st"
    by (rule apply_file_Inr [OF assms]) simp
  have run: "map ch_file (as_changes s') = map ch_file (as_changes s) @ map (nd_file \<circ> snd) xs \<and>
      td_key (as_dir s') = td_key (as_dir s) \<and> td_jwks (as_dir s') = td_jwks (as_dir s) \<and>
      (\<forall>m. m \<notin> nd_file ` snd ` set xs \<longrightarrow> read_file (as_dir s') m = read_file (as_dir s) m)"
    if "steps (apply_node lib su rnd force now) xs s = (None, s')" for xs s s'
    using that
  proof (induction xs arbitrary: s)
    case (Cons x xs)
    obtain name n where x: "x = (name, n)" by (cases x)
    from Cons.prems obtain s1 where s1: "apply_node lib su rnd force now (name, n) s = (None, s1)"
      "steps (apply_node lib su rnd force now) xs s1 = (None, s')" unfolding steps_Cons_None x by blast
    have "map ch_file (as_changes s1) = map ch_file (as_changes s) @ [nd_file n] \<and> td_key (as_dir s1) = td_key (as_dir s) \<and>
        td_jwks (as_dir s1) = td_jwks (as_dir s) \<and> (\<forall>m. m \<noteq> nd_file n \<longrightarrow> read_file (as_dir s1) m = read_file (as_dir s) m)"
      using s1(1) by (auto simp: apply_node_def Let_def change_for_def read_write split: if_splits sum.splits)
    with Cons.IH [OF s1(2)] x show ?case by auto
  qed simp
  note all = run [OF st(1)]
  have safe: "\<exists>s. nd_file n = s @ ''.jwt'' \<and> s \<noteq> [] \<and> (\<forall>c \<in> set (nd_file n). safe_char c)" if "nn \<in> set nns" "n = snd nn" for nn n
  proof -
    from d that obtain g i ns where "build_tree gt f g i now = Inr ns" "n \<in> set ns"
      unfolding declared_nodes_def collect_Inr_iff by (fastforce simp: list_all2_conv_all_nth in_set_conv_nth named_nodes_Inr_iff)
    then show ?thesis
    proof (cases rule: tree_nodes)
      case root
      then show ?thesis using sanitize_safe sanitize_nonempty by auto
    next
      case (child c)
      then show ?thesis using sanitize_safe sanitize_nonempty
        by (intro exI [of _ "sanitize (label g i) @ ''__'' @ sanitize (hs_agent c)"]) auto
    qed
  qed
  show ?thesis using all safe st(2,3) by auto
qed

subsection \<open>Who can\<close>

definition well_keyed :: "('k, 'p) delegation_jwt \<Rightarrow> ('k, 'p) grants_setup \<Rightarrow> bool" where
  "well_keyed lib su \<longleftrightarrow>
     su_issuer su \<noteq> [] \<and> sg_issuer (su_signer su) = su_issuer su \<and> sg_kid (su_signer su) \<noteq> [] \<and>
     su_keys su (sg_kid (su_signer su)) = Some (jl_public lib (sg_key (su_signer su)))"

text \<open>What a grant permits, with no token in between: its scopes and its constraints, resources up to spelling.\<close>

definition grant_permits :: "'r url_lib \<Rightarrow> tzdb \<Rightarrow> instant \<Rightarrow> grant \<Rightarrow> action \<Rightarrow> bool" where
  "grant_permits urls tzdb now g a \<longleftrightarrow>
     ac_scope a \<in> set (g_scopes g) \<and>
     (\<exists>r. canonicalize_audience urls r = canonicalize_audience urls (ac_resource a) \<and>
          permit tzdb now (g_constraints g) (a\<lparr>ac_resource := r\<rparr>) = None)"

definition permitted_matches :: "'r url_lib \<Rightarrow> tzdb \<Rightarrow> instant \<Rightarrow> action \<Rightarrow> string \<times> node \<Rightarrow> match list" where
  "permitted_matches urls tzdb now a nn =
     (let (name, n) = nn; g = nd_grant n;
          m = \<lparr>ma_name = name, ma_provenance = join arrow (root_delegator g # actor_chain_root_to_leaf g),
               ma_audience = nd_audience n, ma_time_boxed = False\<rparr>
      in if grant_permits urls tzdb now g a then [m]
         else if cn_time_window (g_constraints g) \<noteq> None \<and> grant_permits urls tzdb now (drop_window g) a
         then [m\<lparr>ma_time_boxed := True\<rparr>] else [])"

lemma drop_window_simps [simp]:
  "g_scopes (drop_window g) = g_scopes g" "g_constraints (drop_window g) = (g_constraints g)\<lparr>cn_time_window := None\<rparr>"
  "root_delegator (drop_window g) = root_delegator g" "actors_leaf_first (drop_window g) = actors_leaf_first g"
  "g_expires_at (drop_window g) = g_expires_at g"
proof -
  obtain d e s k x p where "g = Grant d e s k x p" by (cases g)
  then show "g_scopes (drop_window g) = g_scopes g" "g_constraints (drop_window g) = (g_constraints g)\<lparr>cn_time_window := None\<rparr>"
    "root_delegator (drop_window g) = root_delegator g" "actors_leaf_first (drop_window g) = actors_leaf_first g"
    "g_expires_at (drop_window g) = g_expires_at g" by (cases p; simp)+
qed

lemma permit_without_window:
  "cn_time_window k = None \<Longrightarrow> permit tzdb now k (a\<lparr>ac_at := t, ac_resource := r\<rparr>) = permit tzdb now k (a\<lparr>ac_resource := r\<rparr>)"
  by (simp add: permit_def split: option.split)

lemma grant_permits_any_time:
  "grant_permits urls tzdb now (drop_window g) (a\<lparr>ac_at := t\<rparr>) = grant_permits urls tzdb now (drop_window g) a"
  by (simp add: grant_permits_def permit_without_window)

lemma minted_authorize:
  assumes "jwt_laws lib" and "url_laws urls" and "well_keyed lib su" and "\<forall>w \<in> set (g_scopes g). solid w"
    and "\<And>jti. jl_exact lib (node_claims lib (su_signer su) jti g aud now)"
    and "now < jl_numeric_date lib (g_expires_at g)" and "mint_grant lib (su_signer su) rnd g aud now = Inr (tok, j)"
  obtains c where "sdk_verify lib urls (new_sdk_verifier (su_issuer su) aud (su_keys su)) now tok = Inr c"
    and "sdk_authorize urls tzdb now c a = None \<longleftrightarrow> grant_permits urls tzdb now g a"
    and "sdk_provenance c = join arrow (root_delegator g # actor_chain_root_to_leaf g)"
proof -
  from mint_grant_Inr [OF assms(7)] obtain jti where
    sign: "jl_sign lib (sg_kid (su_signer su)) (sg_key (su_signer su)) (node_claims lib (su_signer su) jti g aud now) = Some tok" by blast
  let ?c = "node_claims lib (su_signer su) jti g aud now"
  note read = node_claims_read [OF assms(4), of lib "su_signer su" jti aud now]
  have "actor_chain_root_to_leaf g \<noteq> []" by (cases g rule: actors_leaf_first.cases) (simp_all add: actor_chain_root_to_leaf_def)
  then have act: "cl_act ?c \<noteq> None" using read(2) by (cases "cl_act ?c") (simp_all add: actor_chain_def)
  have iss: "sv_issuer (new_sdk_verifier (su_issuer su) aud (su_keys su)) \<noteq> []"
    using assms(3) by (simp add: new_sdk_verifier_def well_keyed_def)
  show thesis
  proof (rule that [of ?c])
    show "sdk_verify lib urls (new_sdk_verifier (su_issuer su) aud (su_keys su)) now tok = Inr ?c"
      unfolding sdk_verify_iff [OF assms(1) iss]
      using jwt_sign [OF assms(1,5) sign] assms(3,6) act read(4,6,7,8)
      by (simp add: new_sdk_verifier_def well_keyed_def claims_current_def audience_matches_iff)
    show "sdk_authorize urls tzdb now ?c a = None \<longleftrightarrow> grant_permits urls tzdb now g a"
      unfolding sdk_authorize_iff_authorize [OF assms(2)] authorize_None_iff read(1,5) grant_permits_def by auto
    show "sdk_provenance ?c = join arrow (root_delegator g # actor_chain_root_to_leaf g)"
      using read(2,3) by (simp add: sdk_provenance_def actor_chain_def)
  qed
qed

lemma node_matches_eq:
  assumes "jwt_laws lib" and "url_laws urls" and "well_keyed lib su" and "plain_node lib (su_signer su) now n"
    and "plain_node lib (su_signer su) now (n\<lparr>nd_grant := drop_window (nd_grant n)\<rparr>)"
    and "now < jl_numeric_date lib (g_expires_at (nd_grant n))"
    and "node_matches tzdb lib urls su rnd a now name n = Inr ms"
  shows "ms = permitted_matches urls tzdb now a (name, n)"
proof -
  let ?g = "nd_grant n"
  have node: "authorize_node tzdb lib urls su rnd n a now d = Inr x \<Longrightarrow>
      x = (if grant_permits urls tzdb now (if d then drop_window ?g else ?g) a
           then Some (join arrow (root_delegator ?g # actor_chain_root_to_leaf ?g)) else None)" for d x
  proof -
    assume x: "authorize_node tzdb lib urls su rnd n a now d = Inr x"
    let ?h = "if d then drop_window ?g else ?g" and ?a = "if d then a\<lparr>ac_at := zero_time\<rparr> else a"
    from x obtain tok j where m: "mint_grant lib (su_signer su) rnd ?h (nd_audience n) now = Inr (tok, j)"
      by (auto simp: authorize_node_def Let_def step_Inr_iff)
    have plain: "\<forall>w \<in> set (g_scopes ?h). solid w" "\<And>jti. jl_exact lib (node_claims lib (su_signer su) jti ?h (nd_audience n) now)"
      "now < jl_numeric_date lib (g_expires_at ?h)"
      using assms(4,5,6) by (auto simp: plain_node_def)
    obtain c where c: "sdk_verify lib urls (new_sdk_verifier (su_issuer su) (nd_audience n) (su_keys su)) now tok = Inr c"
      "sdk_authorize urls tzdb now c ?a = None \<longleftrightarrow> grant_permits urls tzdb now ?h ?a"
      "sdk_provenance c = join arrow (root_delegator ?h # actor_chain_root_to_leaf ?h)"
      by (rule minted_authorize [OF assms(1-3) plain m])
    have "grant_permits urls tzdb now ?h ?a = grant_permits urls tzdb now ?h a" by (simp add: grant_permits_any_time)
    with x m c show ?thesis
      by (auto simp: authorize_node_def Let_def actor_chain_root_to_leaf_def split: if_splits)
  qed
  from assms(7) obtain x where x: "authorize_node tzdb lib urls su rnd n a now False = Inr x"
    by (auto simp: node_matches_def step_Inr_iff)
  show ?thesis
  proof (cases x)
    case (Some p)
    with assms(7) node [OF x] x show ?thesis by (auto simp: node_matches_def permitted_matches_def Let_def split: if_splits)
  next
    case None
    show ?thesis
    proof (cases "cn_time_window (g_constraints ?g) = None")
      case True
      with assms(7) node [OF x] x None show ?thesis by (auto simp: node_matches_def permitted_matches_def Let_def split: if_splits)
    next
      case False
      with assms(7) x None obtain y where y: "authorize_node tzdb lib urls su rnd n a now True = Inr y"
        by (auto simp: node_matches_def step_Inr_iff)
      with assms(7) node [OF x] node [OF y] x None False show ?thesis
        by (auto simp: node_matches_def permitted_matches_def Let_def split: if_splits)
    qed
  qed
qed

text \<open>
  C16: \<open>WhoCan\<close> answers what the resource server would decide. When it returns, its matches are, in the order of
  the file and for every declared node, the nodes whose grant permits the action now, and, marked as
  time-boxed, those that would permit it but for their time window: minting, verifying and authorizing a token
  loses nothing and adds nothing to what the grant itself says.
\<close>

theorem who_can_exact:
  assumes "jwt_laws lib" and "url_laws urls" and "well_keyed lib su" and "declared_nodes gt f now = Inr nns"
    and "\<forall>(_, n) \<in> set nns. plain_node lib (su_signer su) now n \<and>
           plain_node lib (su_signer su) now (n\<lparr>nd_grant := drop_window (nd_grant n)\<rparr>) \<and>
           now < jl_numeric_date lib (g_expires_at (nd_grant n))"
    and "who_can gt lib urls f su rnd a now = Inr ms"
  shows "ms = concat (map (permitted_matches urls (gt_zones gt) now a) nns)"
proof -
  let ?nm = "\<lambda>name. node_matches (gt_zones gt) lib urls su rnd a now name"
  have nodes: "ms = concat (map (permitted_matches urls (gt_zones gt) now a) (map (Pair name) ns))"
    if "collect (?nm name) ns = Inr ms" "\<forall>n \<in> set ns. \<exists>x. (x, n) \<in> set nns" for name ns ms
    using that
  proof (induction ns arbitrary: ms)
    case (Cons n ns)
    then obtain m1 m2 where "?nm name n = Inr m1" "collect (?nm name) ns = Inr m2" "ms = m1 @ m2" by (auto simp: step_Inr_iff)
    moreover from Cons.prems(2) assms(5) have "plain_node lib (su_signer su) now n \<and>
        plain_node lib (su_signer su) now (n\<lparr>nd_grant := drop_window (nd_grant n)\<rparr>) \<and>
        now < jl_numeric_date lib (g_expires_at (nd_grant n))" by fastforce
    ultimately show ?case using node_matches_eq [OF assms(1-3)] Cons.IH Cons.prems(2) by simp
  qed simp
  have "ms = concat (map (permitted_matches urls (gt_zones gt) now a) xs)"
    if "collect (grant_matches gt lib urls f su rnd a now) gis = Inr ms" "collect (named_nodes gt f now) gis = Inr xs" "set xs \<subseteq> set nns"
    for gis ms xs
    using that
  proof (induction gis arbitrary: ms xs)
    case (Cons gi gis)
    then obtain m1 m2 where m: "grant_matches gt lib urls f su rnd a now gi = Inr m1"
      "collect (grant_matches gt lib urls f su rnd a now) gis = Inr m2" "ms = m1 @ m2" by (auto simp: step_Inr_iff)
    from Cons.prems(2) obtain ns rest where ns: "build_tree gt f (fst gi) (snd gi) now = Inr ns"
      "collect (named_nodes gt f now) gis = Inr rest" "xs = map (Pair (label (fst gi) (snd gi))) ns @ rest"
      by (auto simp: step_Inr_iff named_nodes_Inr_iff)
    have "collect (?nm (label (fst gi) (snd gi))) ns = Inr m1"
      using m(1) ns(1) by (auto simp: grant_matches_def split: sum.splits)
    moreover have "\<forall>n \<in> set ns. \<exists>x. (x, n) \<in> set nns" "set rest \<subseteq> set nns" using Cons.prems(3) ns(3) by auto
    ultimately show ?case using nodes Cons.IH [OF m(2) ns(2)] m(3) ns(3) by simp
  qed simp
  from this [of "numbered_grants f"] assms(4,6) show ?thesis by (simp add: who_can_def declared_nodes_def)
qed

subsection \<open>Trees\<close>

definition wf_spec :: "constraint_spec \<Rightarrow> bool" where
  "wf_spec k \<longleftrightarrow> wf_allow (cs_categories k) \<and> wf_allow (cs_tools k) \<and> wf_allow (cs_resources k)"

lemma opt_constraints_wf: "opt_constraints tzdb c = Inr k \<Longrightarrow> (\<forall>s. c = Some s \<longrightarrow> wf_spec s) \<Longrightarrow> wf_constraints k"
  by (auto simp: opt_constraints_def to_constraints_Inr_iff wf_constraints_def wf_spec_def wf_allow_def no_constraints_def
      split: option.splits)

text \<open>
  C35: what a grants file may say, and what its sub-agents get. Every tree that can be built hands out, at
  each of its nodes, authority that comes from the principal, for a positive time below 2^63
  nanoseconds that ends with the root's, with scopes of the entry, and permits nothing the root does not
  permit; the root's own constraints are valid: no negative amount, minutes of one day in order, days of
  the week, a known zone.
\<close>

theorem tree_within_root:
  assumes "build_tree gt f g i now = Inr ns" and "n \<in> set ns" and "\<forall>s. gs_constraints g = Some s \<longrightarrow> wf_spec s"
  shows "root_delegator (nd_grant n) = gs_principal g \<and> set (g_scopes (nd_grant n)) \<subseteq> set (gs_scopes g) \<and>
    now < g_expires_at (nd_grant n) \<and> g_expires_at (nd_grant n) < now + 2 ^ 63 \<and>
    g_expires_at (nd_grant n) = g_expires_at (nd_grant (hd ns)) \<and>
    (\<forall>tzdb t a. permit tzdb t (g_constraints (nd_grant n)) a = None \<longrightarrow> permit tzdb t (g_constraints (nd_grant (hd ns))) a = None) \<and>
    file_constraints (gt_zones gt) (g_constraints (nd_grant (hd ns)))"
proof -
  from assms(1) have "hd ns \<in> set ns" by (auto simp: build_tree_Inr_iff)
  with assms(1) obtain ttl cn where r: "ttl_for gt f g = Inr ttl" "opt_constraints (gt_zones gt) (gs_constraints g) = Inr cn"
    "nd_grant (hd ns) = new_root_grant (gs_principal g) (gs_agent g) (gs_scopes g) cn ttl now"
    by (fastforce simp: build_tree_Inr_iff)
  note ttl = ttl_for_range [OF r(1)]
  have cn: "file_constraints (gt_zones gt) cn" "wf_constraints cn"
    using opt_constraints_valid [OF r(2)] opt_constraints_wf [OF r(2) assms(3)] by blast+
  from assms(1,2) show ?thesis
  proof (cases rule: tree_nodes)
    case root
    then show ?thesis using ttl cn(1) r(3) by (simp add: new_root_grant_def)
  next
    case (child c ttl' cn')
    then show ?thesis
      using ttl cn r(1,3) tighten_refines_parent [OF cn(2)] by (auto simp: delegate_Inr_iff new_root_grant_def)
  qed
qed

section \<open>Pruning under an issuer of one's own\<close>

text \<open>
  with an issuer of its own, a grants directory never revokes. \<open>EnsureSetup\<close> signs the feed under the
  issuer of the file, and \<open>RevokeJTI\<close> verifies it under the default one: every revocation fails, and \<open>Prune\<close>
  deletes the tokens of the grants that were removed without putting any of them on the feed.
\<close>

theorem custom_issuer_never_revokes:
  assumes "jwt_laws flib" and "jl_exact flib (signed_feed_claims flib [] 1 iss (14 * 24 * 3600 * nanos) t0)" and "iss \<noteq> []" and "iss \<noteq> default_issuer"
    and "ensure_setup flib fresh True iss t0 td0 = Inr (su, td1)" and "td_key td0 = None"
    and "td_feed td = td_feed td1" and "''feed.jwt'' \<notin> set ns"
  shows "(\<forall>jti. \<exists>e. revoke_jti flib jti now td = Inl e) \<and>
    (\<exists>td'. prune flib lib now ns td = (0, td') \<and> td_feed td' = td_feed td \<and> (\<forall>n \<in> set ns. read_file td' n = None))"
proof -
  from assms(3,5,6) obtain feed where "build_signed_feed flib [] 1 iss local_kid fresh (14 * 24 * 3600 * nanos) t0 = Some feed"
    "td_feed td1 = Some feed"
    by (auto simp: ensure_setup_def Let_def step_Inr_iff split: option.splits)
  with assms(7) have feed: "td_feed td = Some feed"
    "jl_claims flib feed = Some (signed_feed_claims flib [] 1 iss (14 * 24 * 3600 * nanos) t0)"
    using jwt_sign [OF assms(1,2)] by (auto simp: build_signed_feed_def)
  have fails: "\<exists>e. revoke_jti flib jti now d = Inl e" if d: "td_feed d = Some feed" for jti d
  proof (rule ccontr)
    assume "\<nexists>e. revoke_jti flib jti now d = Inl e"
    then obtain x where "revoke_jti flib jti now d = Inr x" by (cases "revoke_jti flib jti now d") auto
    then obtain keys c where "jl_parse flib (key_func keys) default_issuer None now feed = Inr c"
      using d by (auto simp: revoke_jti_def load_signed_feed_file_def load_signed_feed_def step_Inr_iff split: sum.splits)
    then show False
      using assms(4) feed(2) by (auto simp: jwt_parse_iff [OF assms(1)] default_issuer_def accepts_key_func claims_current_def
          signed_feed_claims_def)
  qed
  have "\<exists>td'. fold (prune_one flib lib now) ns (0, d) = (0, td') \<and> td_feed td' = Some feed \<and>
      (\<forall>n. read_file td' n = (if n \<in> set ns then None else read_file d n))"
    if "td_feed d = Some feed" "''feed.jwt'' \<notin> set ns" for d
    using that
  proof (induction ns arbitrary: d)
    case (Cons n ns)
    have "prune_one flib lib now n (0, d) = (0, remove_file n d)"
    proof (cases "read_file d n")
      case (Some b)
      obtain e where "revoke_jti flib (jti_of lib (trim_space b)) now d = Inl e" using fails [OF Cons.prems(1)] by blast
      with Some show ?thesis by (simp add: prune_one_def Let_def)
    qed (simp add: prune_one_def)
    moreover have "td_feed (remove_file n d) = Some feed" using Cons.prems by (auto simp: remove_file_def)
    ultimately show ?case using Cons.IH [of "remove_file n d"] Cons.prems(2) by (auto simp: read_remove)
  qed simp
  from this [OF feed(1) assms(8)] feed(1) fails [OF feed(1)] show ?thesis by (auto simp: prune_def)
qed

section \<open>Examples\<close>

definition grants_clock :: go_time where
  "grants_clock = \<lparr>gt_zones = utc_only, gt_fraction = (\<lambda>f u s. f * u div s)\<rparr>"

definition hours :: "string \<Rightarrow> string \<Rightarrow> constraint_spec" where
  "hours a b = \<lparr>cs_max_amount = Some (Fin 500), cs_categories = [], cs_tools = [], cs_resources = [],
     cs_window = Some \<lparr>ws_weekdays = None, ws_start = a, ws_end = b, ws_tz = []\<rparr>\<rparr>"

definition pay_grant :: "string \<Rightarrow> constraint_spec option \<Rightarrow> child_spec list \<Rightarrow> grant_spec" where
  "pay_grant name k cs = \<lparr>gs_name = name, gs_principal = ''user:t'', gs_agent = ''agent:p'', gs_scopes = [''pay''], gs_audience = [],
     gs_ttl = ''1h'', gs_constraints = k, gs_delegate = cs\<rparr>"

definition one_grant :: "grant_spec \<Rightarrow> grants_file" where
  "one_grant g = \<lparr>gf_version = 1, gf_issuer = [], gf_audience = ''api'', gf_default_ttl = [], gf_grants = [g]\<rparr>"

text \<open>
  Lint does not see a window of a sub-agent that never opens. A child whose hours do not meet its
  parent's lints clean and gets a token, which no resource server ever accepts for any action.
\<close>

definition split_day :: grants_file where
  "split_day = one_grant (pay_grant ''day'' (Some (hours ''9:00'' ''12:00''))
     [\<lparr>hs_agent = ''agent:r'', hs_scopes = [''pay''], hs_constraints = Some (hours ''13:00'' ''17:00'')\<rparr>])"

theorem lint_misses_closed_window:
  "lint grants_clock split_day 0 = [] \<and>
   (\<exists>ns. build_tree grants_clock split_day (hd (gf_grants split_day)) 0 0 = Inr ns \<and> length ns = 2 \<and>
      (\<forall>tzdb now a. permit tzdb now (g_constraints (nd_grant (last ns))) a \<noteq> None))"
proof -
  let ?r = "new_root_grant ''user:t'' ''agent:p'' [''pay''] (no_constraints\<lparr>cn_max_amount := Some (Fin 500),
      cn_time_window := Some \<lparr>tw_weekdays = [], tw_start_min = 540, tw_end_min = 720, tw_tz = []\<rparr>\<rparr>) (3600 * nanos) 0"
  let ?c = "no_constraints\<lparr>cn_max_amount := Some (Fin 500),
      cn_time_window := Some \<lparr>tw_weekdays = [], tw_start_min = 780, tw_end_min = 720, tw_tz = []\<rparr>\<rparr>"
  let ?ns = "[\<lparr>nd_file = ''day.jwt'', nd_grant = ?r, nd_audience = ''api'', nd_written = False\<rparr>,
      \<lparr>nd_file = ''day__agent-r.jwt'', nd_grant = Grant ''agent:p'' ''agent:r'' [''pay''] ?c (3600 * nanos) (Some ?r), nd_audience = ''api'', nd_written = False\<rparr>]"
  have "lint grants_clock split_day 0 = []" by code_simp
  moreover have "build_tree grants_clock split_day (hd (gf_grants split_day)) 0 0 = Inr ?ns" by code_simp
  moreover have "permit tzdb now ?c a \<noteq> None" for tzdb now a
    by (auto simp: permit_None_iff no_constraints_def window_ok_def allows_iff)
  ultimately show ?thesis by (intro conjI exI [of _ ?ns]) (simp_all add: new_root_grant_def)
qed

definition team_file :: grants_file where
  "team_file = one_grant (pay_grant ''pay'' (Some (hours ''9:00'' ''12:00'')) [\<lparr>hs_agent = ''agent:r'', hs_scopes = [''pay''], hs_constraints = None\<rparr>])"

definition team_rules :: constraints where
  "team_rules = no_constraints\<lparr>cn_max_amount := Some (Fin 500),
      cn_time_window := Some \<lparr>tw_weekdays = [], tw_start_min = 540, tw_end_min = 720, tw_tz = []\<rparr>\<rparr>"

definition team_root :: grant where
  "team_root = Grant ''user:t'' ''agent:p'' [''pay''] team_rules (3600 * nanos) None"

definition team_child :: grant where
  "team_child = Grant ''agent:p'' ''agent:r'' [''pay''] team_rules (3600 * nanos) (Some team_root)"

definition team_nodes :: "node list" where
  "team_nodes = [\<lparr>nd_file = ''pay.jwt'', nd_grant = team_root, nd_audience = ''api'', nd_written = False\<rparr>,
     \<lparr>nd_file = ''pay__agent-r.jwt'', nd_grant = team_child, nd_audience = ''api'', nd_written = False\<rparr>]"

lemma team_tree: "build_tree grants_clock team_file (hd (gf_grants team_file)) 0 0 = Inr team_nodes"
  by code_simp

lemma team_declared: "declared_nodes grants_clock team_file 0 = Inr (map (Pair ''pay'') team_nodes)"
proof -
  have "numbered_grants team_file = [(hd (gf_grants team_file), 0)]" by (simp add: numbered_grants_def team_file_def one_grant_def)
  moreover have "label (hd (gf_grants team_file)) 0 = ''pay''" by (simp add: label_def team_file_def one_grant_def pay_grant_def)
  ultimately show ?thesis by (simp add: declared_nodes_def named_nodes_def team_tree)
qed

definition team_setup :: "(unit, unit) grants_setup" where
  "team_setup = \<lparr>su_issuer = default_issuer, su_signer = local_signer (), su_keys = [local_kid \<mapsto> ()], su_created = False\<rparr>"

definition team_claims :: "grant \<Rightarrow> claims" where
  "team_claims g = token_claims sample_lib (local_signer ()) (root_delegator g) (nest_actors None (actor_chain_root_to_leaf g))
     (g_scopes g) ''api'' (Some (g_constraints g)) (g_expires_at g) 0 ''j''"

definition team_lib :: "(unit, unit) delegation_jwt" where
  "team_lib = table_lib local_kid [(''t1'', team_claims team_root), (''t2'', team_claims team_child),
     (''t3'', team_claims (drop_window team_root)), (''t4'', team_claims (drop_window team_child))]"

lemma team_laws: "jwt_laws team_lib"
  unfolding team_lib_def by (rule table_laws) simp

lemma team_exact: "jl_exact team_lib c"
  by (simp add: team_lib_def table_lib_def)

lemma team_trim: "compact_tokens team_lib"
proof -
  have "\<forall>t \<in> set [''t1'', ''t2'', ''t3'', ''t4'']. trim_space t = t" by code_simp
  then show ?thesis by (auto simp: compact_tokens_def team_lib_def table_lib_def split: if_splits)
qed

lemma team_solid: "solid ''pay''"
  by code_simp

lemma team_plain:
  "plain_node team_lib s now (\<lparr>nd_file = f, nd_grant = team_root, nd_audience = a, nd_written = False\<rparr>)"
  "plain_node team_lib s now (\<lparr>nd_file = f, nd_grant = team_child, nd_audience = a, nd_written = False\<rparr>)"
  "plain_node team_lib s now (\<lparr>nd_file = f, nd_grant = drop_window team_root, nd_audience = a, nd_written = False\<rparr>)"
  "plain_node team_lib s now (\<lparr>nd_file = f, nd_grant = drop_window team_child, nd_audience = a, nd_written = False\<rparr>)"
  using team_solid by (simp_all add: plain_node_def team_exact team_root_def team_child_def)

lemma team_applied:
  obtains r where "apply_file grants_clock team_lib team_file team_setup (\<lambda>_. Some ''j'') False 0 empty_dir =
    (Inr r, snd (apply_file grants_clock team_lib team_file team_setup (\<lambda>_. Some ''j'') False 0 empty_dir))"
    and "map ch_file (ar_changes r) = [''pay.jwt'', ''pay__agent-r.jwt'']"
proof -
  let ?a = "apply_file grants_clock team_lib team_file team_setup (\<lambda>_. Some ''j'') False 0 empty_dir"
  have "(case fst ?a of Inr r \<Rightarrow> map ch_file (ar_changes r) = [''pay.jwt'', ''pay__agent-r.jwt''] | Inl _ \<Rightarrow> False)" by code_simp
  then show thesis by (cases ?a; cases "fst ?a") (auto intro: that)
qed

lemma team_files: "distinct (map (nd_file \<circ> snd) (map (Pair ''pay'') team_nodes))"
  by (simp add: team_nodes_def)

lemma team_all_plain:
  "\<forall>(_, n) \<in> set (map (Pair ''pay'') team_nodes). plain_node team_lib s now n \<and>
     plain_node team_lib s now (n\<lparr>nd_grant := drop_window (nd_grant n)\<rparr>) \<and> 0 < jl_numeric_date team_lib (g_expires_at (nd_grant n))"
  using team_plain by (simp add: team_nodes_def team_lib_def table_lib_def team_root_def team_child_def nanos_def del: drop_window.simps)


theorem clean_lint_applies_witness:
  "\<exists>nns. declared_nodes grants_clock team_file 7 = Inr nns"
proof -
  have "\<not> has_errors (lint grants_clock team_file 0)" by code_simp
  then show ?thesis
    using clean_lint_applies [of grants_clock team_file 0 team_lib team_setup "\<lambda>_. None" False 0 empty_dir] by blast
qed

theorem apply_stays_in_directory_witness:
  "read_file (snd (apply_file grants_clock team_lib team_file team_setup (\<lambda>_. Some ''j'') False 0 empty_dir)) ''feed.jwt'' = Some ''feed1''"
proof -
  obtain r where a: "apply_file grants_clock team_lib team_file team_setup (\<lambda>_. Some ''j'') False 0 empty_dir =
    (Inr r, snd (apply_file grants_clock team_lib team_file team_setup (\<lambda>_. Some ''j'') False 0 empty_dir))"
    and files: "map ch_file (ar_changes r) = [''pay.jwt'', ''pay__agent-r.jwt'']"
    by (rule team_applied)
  have "''feed.jwt'' \<notin> set (map ch_file (ar_changes r))" unfolding files by simp
  with apply_stays_in_directory [OF a]
  have "read_file (snd (apply_file grants_clock team_lib team_file team_setup (\<lambda>_. Some ''j'') False 0 empty_dir)) ''feed.jwt'' =
      read_file empty_dir ''feed.jwt''" by blast
  also have "\<dots> = Some ''feed1''" by (simp add: read_file_def empty_dir_def)
  finally show ?thesis .
qed

theorem tree_within_root_witness:
  "set (g_scopes team_child) \<subseteq> {''pay''} \<and> file_constraints utc_only team_rules"
proof -
  have "set (g_scopes (nd_grant (last team_nodes))) \<subseteq> set (gs_scopes (hd (gf_grants team_file))) \<and>
      file_constraints (gt_zones grants_clock) (g_constraints (nd_grant (hd team_nodes)))"
    using tree_within_root [OF team_tree, of "last team_nodes"]
    by (simp add: team_nodes_def team_file_def one_grant_def pay_grant_def hours_def wf_spec_def wf_allow_def)
  then show ?thesis
    by (simp add: team_nodes_def team_file_def one_grant_def pay_grant_def grants_clock_def team_root_def)
qed

text \<open>At midnight on the first of January 1970 both agents are time-boxed.\<close>

definition pay_action :: action where
  "pay_action = \<lparr>ac_scope = ''pay'', ac_amount = Fin 100, ac_category = [], ac_tool = [], ac_resource = [], ac_at = zero_time\<rparr>"

theorem who_can_exact_witness:
  "\<exists>ms. who_can grants_clock team_lib two_url_lib team_file team_setup (Some ''j'') pay_action 0 = Inr ms \<and>
     ms = concat (map (permitted_matches two_url_lib utc_only 0 pay_action) (map (Pair ''pay'') team_nodes))"
proof -
  have "(case who_can grants_clock team_lib two_url_lib team_file team_setup (Some ''j'') pay_action 0 of
      Inr ms \<Rightarrow> map ma_time_boxed ms = [True, True] | _ \<Rightarrow> False)" by code_simp
  then obtain ms where ms: "who_can grants_clock team_lib two_url_lib team_file team_setup (Some ''j'') pay_action 0 = Inr ms"
    by (cases "who_can grants_clock team_lib two_url_lib team_file team_setup (Some ''j'') pay_action 0") auto
  have keyed: "well_keyed team_lib team_setup"
    by (simp add: well_keyed_def team_setup_def local_signer_def default_issuer_def local_kid_def team_lib_def table_lib_def)
  from who_can_exact [OF team_laws two_url_laws keyed team_declared team_all_plain ms] ms show ?thesis
    by (simp add: grants_clock_def)
qed

definition own_feed :: feed_claims where
  "own_feed = signed_feed_claims local_feeds [] 1 ''https://us'' (14 * 24 * 3600 * nanos) 0"

theorem custom_issuer_never_revokes_witness:
  "\<exists>td'. prune (table_lib local_kid [(''own'', own_feed)]) team_lib 0 [''pay.jwt'']
      (empty_dir\<lparr>td_feed := Some ''own'', td_tokens := [(''pay.jwt'', ''t1'')]\<rparr>) = (0, td') \<and> read_file td' ''pay.jwt'' = None"
proof -
  let ?lib = "table_lib local_kid [(''own'', own_feed)]"
  have laws: "jwt_laws ?lib" "jl_exact ?lib c" for c by (rule table_laws) (simp_all add: table_lib_def)
  have signed: "build_signed_feed ?lib [] 1 ''https://us'' local_kid () (14 * 24 * 3600 * nanos) 0 = Some ''own''"
    by (simp add: build_signed_feed_def table_lib_def own_feed_def local_feeds_def signed_feed_claims_def)
  have made: "ensure_setup ?lib () True ''https://us'' 0 (empty_dir\<lparr>td_key := None\<rparr>) =
      Inr (\<lparr>su_issuer = ''https://us'', su_signer = \<lparr>sg_issuer = ''https://us'', sg_kid = local_kid, sg_key = ()\<rparr>,
            su_keys = [local_kid \<mapsto> ()], su_created = True\<rparr>,
           empty_dir\<lparr>td_key := Some (), td_jwks := Some [local_kid \<mapsto> ()], td_feed := Some ''own''\<rparr>)"
    using signed by (simp add: ensure_setup_def Let_def empty_dir_def table_lib_def)
  show ?thesis
    using custom_issuer_never_revokes [OF laws _ _ made, where td = "empty_dir\<lparr>td_feed := Some ''own'', td_tokens := [(''pay.jwt'', ''t1'')]\<rparr>"
        and ns = "[''pay.jwt'']" and now = 0 and lib = team_lib]
    by (auto simp: default_issuer_def)
qed

text \<open>
  A grant named \<open>feed\<close> wipes the revocation feed. Such a file lints clean; applying it writes the
  grant's token over \<open>feed.jwt\<close>. A token parses as a feed document of version 0 that lists nothing, so a token that
  was revoked before is no longer listed.
\<close>

definition feed_file :: grants_file where
  "feed_file = one_grant (pay_grant ''feed'' None [])"

definition feed_grant :: grant where
  "feed_grant = Grant ''user:t'' ''agent:p'' [''pay''] no_constraints (3600 * nanos) None"

definition token_as_feed :: feed_claims where
  "token_as_feed = (local_feed 0 [])\<lparr>rc_sub := ''user:t'', rc_aud := [''api''], rc_exp := Some (3600 * nanos), rc_jti := ''j''\<rparr>"

theorem feed_named_grant_wipes_feed:
  "lint grants_clock feed_file 0 = [] \<and>
   (let flib = table_lib local_kid [(''feed2'', local_feed 2 [''j1'']), (''t1'', token_as_feed)];
        lib = table_lib local_kid [(''t1'', team_claims feed_grant)];
        td = empty_dir\<lparr>td_feed := Some ''feed2''\<rparr>;
        td' = snd (apply_file grants_clock lib feed_file team_setup (\<lambda>_. Some ''j'') False 0 td)
    in load_signed_feed flib 0 ''feed2'' default_issuer [local_kid \<mapsto> ()] = Inr \<lparr>sf_revoked = {''j1''}, sf_version = 2\<rparr> \<and>
       td_feed td' = Some ''t1'' \<and>
       load_signed_feed flib 0 ''t1'' default_issuer [local_kid \<mapsto> ()] = Inr \<lparr>sf_revoked = {}, sf_version = 0\<rparr>)"
proof -
  have 1: "lint grants_clock feed_file 0 = []" by code_simp
  have 2: "td_feed (snd (apply_file grants_clock (table_lib local_kid [(''t1'', team_claims feed_grant)]) feed_file team_setup
      (\<lambda>_. Some ''j'') False 0 (empty_dir\<lparr>td_feed := Some ''feed2''\<rparr>))) = Some ''t1''" by code_simp
  show ?thesis unfolding Let_def
  proof (intro conjI 1 2)
  qed (simp_all add: load_signed_feed_def table_lib_def key_func_def local_kid_def claims_current_def local_feed_def
        token_as_feed_def local_feed_ttl_def nanos_def)
qed

end
