(* ===== verification/RateLimit.thy ===== *)
theory RateLimit
  imports GoPrelude
begin

text \<open>
  The in-memory fixed-window limiter in front of the token endpoints (\<open>internal/middleware/ratelimit.go\<close>). The
  mutex makes every call of \<open>allow\<close> one step. The lemmas follow one key through a run: its window is a machine of
  its own, and however requests fall, no stretch of time as long as the interval sees more than twice
  the limit.
\<close>

section \<open>The limiter\<close>

record rate_window =
  rw_count :: int
  rw_reset :: instant

record rate_limiter =
  li_windows :: "string \<rightharpoonup> rate_window"
  li_limit :: int
  li_interval :: duration

definition new_rate_limiter :: "int \<Rightarrow> duration \<Rightarrow> rate_limiter" where
  "new_rate_limiter limit interval = \<lparr>li_windows = Map.empty, li_limit = limit, li_interval = interval\<rparr>"

definition allow :: "string \<Rightarrow> instant \<Rightarrow> rate_limiter \<Rightarrow> bool \<times> rate_limiter" where
  "allow key now rl =
     (let ws = (case li_windows rl key of
                  None \<Rightarrow> li_windows rl
                | Some w \<Rightarrow> if now > rw_reset w then (li_windows rl)(key := None) else li_windows rl)
      in case ws key of
           None \<Rightarrow> (True, rl\<lparr>li_windows := ws(key \<mapsto> \<lparr>rw_count = 1, rw_reset = now + li_interval rl\<rparr>)\<rparr>)
         | Some w \<Rightarrow>
             if rw_count w \<ge> li_limit rl then (False, rl\<lparr>li_windows := ws\<rparr>)
             else (True, rl\<lparr>li_windows := ws(key \<mapsto> w\<lparr>rw_count := rw_count w + 1\<rparr>)\<rparr>))"

text \<open>\<open>net.SplitHostPort\<close>, as far as the host goes; \<^const>\<open>None\<close> for an error.\<close>

definition index_byte :: "char \<Rightarrow> string \<Rightarrow> nat option" where
  "index_byte c s = (let n = length (takeWhile (\<lambda>x. x \<noteq> c) s) in if n < length s then Some n else None)"

definition last_colon :: "string \<Rightarrow> nat option" where
  "last_colon s = map_option (\<lambda>n. length s - 1 - n) (index_byte (CHR '':'') (rev s))"

definition split_host :: "string \<Rightarrow> string option" where
  "split_host s =
     (case last_colon s of
        None \<Rightarrow> None
      | Some i \<Rightarrow>
          if has_prefix ''['' s
          then (case index_byte (CHR '']'') s of
                  None \<Rightarrow> None
                | Some e \<Rightarrow>
                    if e + 1 \<noteq> i then None
                    else if CHR ''['' \<in> set (drop 1 s) \<or> CHR '']'' \<in> set (drop (e + 1) s) then None
                    else Some (take (e - 1) (drop 1 s)))
          else
            let host = take i s
            in if CHR '':'' \<in> set host \<or> CHR ''['' \<in> set s \<or> CHR '']'' \<in> set s then None else Some host)"

definition client_ip :: "string \<Rightarrow> string" where
  "client_ip remote = (case split_host remote of None \<Rightarrow> remote | Some h \<Rightarrow> h)"

text \<open>\<open>Middleware\<close> with the default key: the status it answers itself, or the next handler.\<close>

datatype limited = TooManyRequests | PassOn

definition limit_request :: "string \<Rightarrow> instant \<Rightarrow> rate_limiter \<Rightarrow> limited \<times> rate_limiter" where
  "limit_request remote now rl =
     (let (ok, rl') = allow (client_ip remote) now rl in (if \<not> ok then TooManyRequests else PassOn, rl'))"

section \<open>Runs\<close>

fun serve :: "rate_limiter \<Rightarrow> (string \<times> instant) list \<Rightarrow> bool list \<times> rate_limiter" where
  "serve rl [] = ([], rl)"
| "serve rl ((k, t) # rs) = (let (ok, rl') = allow k t rl; (oks, rl'') = serve rl' rs in (ok # oks, rl''))"

text \<open>One key alone: the window machine.\<close>

definition tick :: "int \<Rightarrow> duration \<Rightarrow> rate_window option \<Rightarrow> instant \<Rightarrow> bool \<times> rate_window option" where
  "tick limit interval v t =
     (case v of
        None \<Rightarrow> (True, Some \<lparr>rw_count = 1, rw_reset = t + interval\<rparr>)
      | Some w \<Rightarrow>
          if t > rw_reset w then (True, Some \<lparr>rw_count = 1, rw_reset = t + interval\<rparr>)
          else if rw_count w \<ge> limit then (False, Some w)
          else (True, Some (w\<lparr>rw_count := rw_count w + 1\<rparr>)))"

fun passed :: "int \<Rightarrow> duration \<Rightarrow> rate_window option \<Rightarrow> instant list \<Rightarrow> instant list" where
  "passed limit interval v [] = []"
| "passed limit interval v (t # ts) =
     (let (ok, v') = tick limit interval v t
      in if ok then t # passed limit interval v' ts else passed limit interval v' ts)"

lemma allow_tick:
  "fst (allow k t rl) = fst (tick (li_limit rl) (li_interval rl) (li_windows rl k) t)"
  "li_windows (snd (allow k t rl)) k = snd (tick (li_limit rl) (li_interval rl) (li_windows rl k) t)"
  "k' \<noteq> k \<Longrightarrow> li_windows (snd (allow k t rl)) k' = li_windows rl k'"
  "li_limit (snd (allow k t rl)) = li_limit rl" "li_interval (snd (allow k t rl)) = li_interval rl"
  "dom (li_windows (snd (allow k t rl))) = insert k (dom (li_windows rl))"
  by (auto simp: allow_def tick_def Let_def split: option.splits if_splits)

lemma serve_passed:
  "map (snd \<circ> fst) (filter (\<lambda>((k', t), ok). ok \<and> k' = k) (zip rs (fst (serve rl rs)))) =
     passed (li_limit rl) (li_interval rl) (li_windows rl k) (map snd (filter (\<lambda>(k', t). k' = k) rs))"
proof (induction rs arbitrary: rl)
  case (Cons r rs)
  obtain k' t where r: "r = (k', t)" by (cases r)
  obtain ok rl' where a: "allow k' t rl = (ok, rl')" by (cases "allow k' t rl")
  from allow_tick [where k = k' and t = t and rl = rl] a have *: "ok = fst (tick (li_limit rl) (li_interval rl) (li_windows rl k') t)"
    "li_windows rl' k' = snd (tick (li_limit rl) (li_interval rl) (li_windows rl k') t)"
    "li_limit rl' = li_limit rl" "li_interval rl' = li_interval rl" "\<And>j. j \<noteq> k' \<Longrightarrow> li_windows rl' j = li_windows rl j"
    using allow_tick(3) [of _ k' t rl] by auto
  then show ?case
    using Cons.IH [of rl'] a r by (cases "k' = k") (auto simp: case_prod_beta Let_def)
qed simp

lemma serve_dom: "dom (li_windows (snd (serve rl rs))) = fst ` set rs \<union> dom (li_windows rl)"
proof (induction rs arbitrary: rl)
  case (Cons r rs)
  obtain k t where r: "r = (k, t)" by (cases r)
  show ?case using Cons.IH [of "snd (allow k t rl)"] allow_tick(6) [of k t rl] r by (auto simp: case_prod_beta Let_def)
qed simp

definition count_in :: "instant \<Rightarrow> instant \<Rightarrow> instant list \<Rightarrow> int" where
  "count_in a b ts = int (length (filter (\<lambda>t. a \<le> t \<and> t \<le> b) ts))"

lemma count_in_simps [simp]:
  "count_in a b [] = 0"
  "count_in a b (t # ts) = (if a \<le> t \<and> t \<le> b then 1 + count_in a b ts else count_in a b ts)"
  by (simp_all add: count_in_def)

text \<open>Inside one window at most the rest of the limit passes.\<close>

lemma passed_window:
  assumes "sorted ts" and "1 \<le> rw_count w" and "b \<le> rw_reset w" and "rw_count w \<le> max 1 limit"
  shows "count_in a b (passed limit interval (Some w) ts) \<le> max 1 limit - rw_count w"
  using assms
proof (induction ts arbitrary: w)
  case (Cons t ts)
  show ?case
  proof (cases "t > rw_reset w")
    case True
    have late: "count_in a b (passed limit interval v us) = 0" if "\<forall>u \<in> set us. t \<le> u" for v us
      using that
    proof (induction us arbitrary: v)
      case (Cons u us)
      then show ?case using True \<open>b \<le> rw_reset w\<close> by (auto simp: Let_def split: prod.split)
    qed simp
    show ?thesis using late [of "t # ts" "Some w"] Cons.prems by (simp del: passed.simps)
  next
    case False
    show ?thesis
    proof (cases "rw_count w \<ge> limit")
      case True
      with False Cons show ?thesis by (simp add: tick_def)
    next
      case no: False
      with Cons.IH [of "w\<lparr>rw_count := rw_count w + 1\<rparr>"] False Cons.prems show ?thesis
        by (auto simp: tick_def)
    qed
  qed
qed simp

lemma passed_interval:
  assumes "sorted ts" and "1 \<le> rw_count w" and "rw_count w \<le> max 1 limit" and "b \<le> a + interval"
  shows "count_in a b (passed limit interval (Some w) ts) \<le> (if a \<le> rw_reset w then max 1 limit - rw_count w else max 1 limit) + max 1 limit"
  using assms
proof (induction ts arbitrary: w)
  case (Cons t ts)
  show ?case
  proof (cases "t > rw_reset w")
    case True
    let ?w = "\<lparr>rw_count = 1, rw_reset = t + interval\<rparr>"
    have eq: "passed limit interval (Some w) (t # ts) = t # passed limit interval (Some ?w) ts"
      using True by (simp add: tick_def)
    have inside: "count_in a b (passed limit interval (Some ?w) ts) \<le> max 1 limit - 1" if "a \<le> rw_reset w"
      using passed_window [of ts ?w b limit a interval] Cons.prems that True by simp
    show ?thesis
    proof (cases "a \<le> rw_reset w")
      case True
      with inside Cons.prems show ?thesis unfolding eq by (simp split: if_splits)
    next
      case False
      with Cons.IH [of ?w] Cons.prems show ?thesis unfolding eq by (auto split: if_splits)
    qed
  next
    case False
    show ?thesis
    proof (cases "rw_count w \<ge> limit")
      case True
      with False Cons show ?thesis by (simp add: tick_def)
    next
      case no: False
      with Cons.IH [of "w\<lparr>rw_count := rw_count w + 1\<rparr>"] False Cons.prems show ?thesis
        by (auto simp: tick_def split: if_splits)
    qed
  qed
qed simp

section \<open>Properties\<close>

text \<open>
  a client never gets more than twice the limit in one interval. Whatever requests of whatever clients arrive,
  in the order of the clock, at most 2 * max(1, limit) requests of one key are let through in any stretch of time as long as the
  interval; a limit below one still lets one request per window through.
\<close>

theorem at_most_twice_the_limit:
  assumes "sorted (map snd rs)" and "b \<le> a + interval"
  shows "int (length (filter (\<lambda>((k', t), ok). ok \<and> k' = k \<and> a \<le> t \<and> t \<le> b)
      (zip rs (fst (serve (new_rate_limiter limit interval) rs))))) \<le> 2 * max 1 limit"
proof -
  let ?rl = "new_rate_limiter limit interval"
  let ?ts = "map snd (filter (\<lambda>(k', t). k' = k) rs)"
  have "filter (\<lambda>((k', t), ok). ok \<and> k' = k \<and> a \<le> t \<and> t \<le> b) zs =
      filter (\<lambda>((k', t), ok). a \<le> t \<and> t \<le> b) (filter (\<lambda>((k', t), ok). ok \<and> k' = k) zs)" for zs :: "((string \<times> instant) \<times> bool) list"
    by (induction zs) auto
  then have "int (length (filter (\<lambda>((k', t), ok). ok \<and> k' = k \<and> a \<le> t \<and> t \<le> b) (zip rs (fst (serve ?rl rs))))) =
      count_in a b (map (snd \<circ> fst) (filter (\<lambda>((k', t), ok). ok \<and> k' = k) (zip rs (fst (serve ?rl rs)))))"
    by (simp add: count_in_def filter_map comp_def case_prod_beta)
  also have "\<dots> = count_in a b (passed limit interval None ?ts)"
    unfolding serve_passed by (simp add: new_rate_limiter_def)
  also have "\<dots> \<le> 2 * max 1 limit"
  proof (cases ?ts)
    case Nil
    then show ?thesis by simp
  next
    case (Cons t ts)
    have "sorted ?ts" using assms(1) by (induction rs) auto
    with Cons have "sorted ts" by simp
    from passed_interval [OF this, of "\<lparr>rw_count = 1, rw_reset = t + interval\<rparr>" limit b a interval] assms(2)
      passed_window [OF \<open>sorted ts\<close>, of "\<lparr>rw_count = 1, rw_reset = t + interval\<rparr>" b limit a interval] Cons
    show ?thesis by (auto simp: tick_def split: if_splits)
  qed
  finally show ?thesis .
qed

theorem at_most_twice_the_limit_witness:
  "length (filter (\<lambda>((k', t), ok). ok \<and> k' = ''1.2.3.4'' \<and> (0::int) \<le> t \<and> t \<le> 60)
     (zip (replicate 9 (''1.2.3.4'', 60)) (fst (serve (new_rate_limiter 3 60) (replicate 9 (''1.2.3.4'', 60)))))) \<le> 6"
  using at_most_twice_the_limit [of "replicate 9 (''1.2.3.4'', 60)" 60 0 60 "''1.2.3.4''" 3] by simp

text \<open>
  the limiter forgets nobody. After any run the map holds a window for every key that ever sent a
  request, however long ago: a stale window is dropped only on the next request of its own key, which puts a new
  one in its place.
\<close>

theorem limiter_never_forgets:
  "dom (li_windows (snd (serve (new_rate_limiter limit interval) rs))) = fst ` set rs"
  by (simp add: serve_dom new_rate_limiter_def)

end
