(* ===== verification/AuditChain.thy ===== *)
theory AuditChain
  imports GoPrelude
begin

text \<open>
  The tamper-evident audit log: the insert trigger and \<open>audit_row_hash\<close>
  (\<open>migrations/000011_audit_hash_chain.up.sql\<close>), \<open>Verify\<close> and \<open>Anchor\<close> (\<open>internal/audit/verify.go\<close>), signed anchors
  and the check against one (\<open>anchor.go\<close>), the query behind the API (\<open>query.go\<close>) and retention's
  \<open>pruneAuditChained\<close> (\<open>internal/retention/retention.go\<close>).

  SHA-256 with its hex encoding is the argument \<open>h\<close>, RSA a record of a signing and a checking function. A column that
  may be null in the table is an option. The verifier sends several queries, so it is given the
  state of the database each of them sees; \<^const>\<open>None\<close> is a query that fails.
\<close>

section \<open>Rows and their hashes\<close>

record audit_data =
  ad_actor_type :: string
  ad_actor :: string
  ad_action :: string
  ad_resource_type :: string
  ad_resource :: string
  ad_subject :: string
  ad_actor_chain :: "string list option"
  ad_delegation :: "string option"
  ad_jti :: string
  ad_org :: "string option"
  ad_ip :: "string option"
  ad_user_agent :: string
  ad_metadata :: string
  ad_created_at :: instant

record audit_row =
  aw_id :: int
  aw_seq :: int
  aw_data :: audit_data
  aw_prev :: string
  aw_hash :: string

definition opt_text :: "string option \<Rightarrow> string" where
  "opt_text x = (case x of None \<Rightarrow> [] | Some t \<Rightarrow> t)"

text \<open>\<open>extract(epoch from created_at)::text\<close>: seconds and six digits; instants of the log are after 1970.\<close>

definition epoch_text :: "instant \<Rightarrow> string" where
  "epoch_text t =
     (let us = t div 1000; digits = nat_str (nat (us mod 1000000))
      in int_str (us div 1000000) @ ''.'' @ replicate (6 - length digits) (CHR ''0'') @ digits)"

definition unit_sep :: string where
  "unit_sep = [CHR 0x1F]"

definition row_fields :: "audit_data \<Rightarrow> string list" where
  "row_fields d =
     [ad_actor_type d, ad_actor d, ad_action d, ad_resource_type d, ad_resource d, ad_subject d,
      opt_text (map_option (join '','') (ad_actor_chain d)), opt_text (ad_delegation d), ad_jti d, opt_text (ad_org d),
      opt_text (ad_ip d), ad_user_agent d, ad_metadata d, epoch_text (ad_created_at d)]"

definition row_text :: "string \<Rightarrow> audit_data \<Rightarrow> string" where
  "row_text prev d = join unit_sep (prev # row_fields d)"

definition audit_row_hash :: "(string \<Rightarrow> string) \<Rightarrow> string \<Rightarrow> audit_data \<Rightarrow> string" where
  "audit_row_hash h prev d = h (row_text prev d)"

section \<open>The tables\<close>

record anchor =
  an_count :: int
  an_head :: string
  an_seq :: int
  an_created_at :: int
  an_kid :: string
  an_signature :: string

record audit_db =
  ab_rows :: "audit_row list"
  ab_next :: int
  ab_watermark :: "string option"
  ab_anchors :: "anchor list"

definition by_seq :: "audit_db \<Rightarrow> audit_row list" where
  "by_seq s = sort_key aw_seq (ab_rows s)"

definition head_hash :: "audit_db \<Rightarrow> string" where
  "head_hash s = (case rev (by_seq s) of [] \<Rightarrow> [] | r # _ \<Rightarrow> aw_hash r)"

text \<open>The trigger, under its lock: the id was taken from its own sequence before.\<close>

definition append_event :: "(string \<Rightarrow> string) \<Rightarrow> int \<Rightarrow> audit_data \<Rightarrow> audit_db \<Rightarrow> audit_db" where
  "append_event h rid d s =
     (let prev = head_hash s
      in s\<lparr>ab_rows := ab_rows s @ [\<lparr>aw_id = rid, aw_seq = ab_next s, aw_data = d, aw_prev = prev,
              aw_hash = audit_row_hash h prev d\<rparr>],
           ab_next := ab_next s + 1\<rparr>)"

section \<open>Verify\<close>

record verify_result =
  vr_events :: int
  vr_ok :: bool
  vr_head_hash :: string
  vr_head_seq :: int
  vr_break_id :: int
  vr_break_kind :: string

datatype audit_error =
    QueryChain
  | ReadWatermark
  | ReadAnchor
  | BrokenChain string int
  | EmptyChain
  | SignAnchor
  | StoreAnchor
  | UnknownAnchorKey string
  | BadAnchorSignature
  | OffsetQuery

text \<open>One row of the loop; \<open>lag\<close> is the hash of the row before it.\<close>

definition scan_row :: "(string \<Rightarrow> string) \<Rightarrow> string \<Rightarrow> string option \<Rightarrow> audit_row \<Rightarrow> verify_result \<Rightarrow> verify_result" where
  "scan_row h watermark lag r res =
     (let res' = res\<lparr>vr_events := vr_events res + 1, vr_head_hash := aw_hash r, vr_head_seq := aw_seq r\<rparr>
      in if \<not> vr_ok res' then res'
         else let ep = (case lag of None \<Rightarrow> watermark | Some x \<Rightarrow> x)
              in if aw_prev r \<noteq> ep then res'\<lparr>vr_ok := False, vr_break_id := aw_id r, vr_break_kind := ''link''\<rparr>
                 else if aw_hash r \<noteq> audit_row_hash h (aw_prev r) (aw_data r)
                 then res'\<lparr>vr_ok := False, vr_break_id := aw_id r, vr_break_kind := ''content''\<rparr>
                 else res')"

fun scan :: "(string \<Rightarrow> string) \<Rightarrow> string \<Rightarrow> string option \<Rightarrow> audit_row list \<Rightarrow> verify_result \<Rightarrow> verify_result" where
  "scan h watermark lag [] res = res"
| "scan h watermark lag (r # rs) res = scan h watermark (Some (aw_hash r)) rs (scan_row h watermark lag r res)"

definition fresh_result :: verify_result where
  "fresh_result = \<lparr>vr_events = 0, vr_ok = True, vr_head_hash = [], vr_head_seq = 0, vr_break_id = 0, vr_break_kind = []\<rparr>"

text \<open>\<open>SELECT hash ... ORDER BY seq LIMIT 1 OFFSET n\<close>: a negative offset is an error.\<close>

datatype offset_row = OffsetFails | NoSuchRow | RowHash string

definition hash_at :: "int \<Rightarrow> audit_db option \<Rightarrow> offset_row" where
  "hash_at n q =
     (case q of
        None \<Rightarrow> OffsetFails
      | Some s \<Rightarrow>
          if n < 0 then OffsetFails
          else if n < int (length (ab_rows s)) then RowHash (aw_hash (by_seq s ! nat n)) else NoSuchRow)"

definition audit_verify ::
    "(string \<Rightarrow> string) \<Rightarrow> audit_db option \<Rightarrow> audit_db option \<Rightarrow> audit_db option \<Rightarrow> audit_db option \<Rightarrow> audit_error + verify_result" where
  "audit_verify h q1 q2 q3 q4 =
     and_then (need QueryChain q1) (\<lambda>s1.
     and_then (need ReadWatermark q2) (\<lambda>s2.
       let res = scan h (opt_text (ab_watermark s2)) None (by_seq s1) fresh_result
       in if \<not> vr_ok res then Inr res
          else case q3 of
            None \<Rightarrow> Inl ReadAnchor
          | Some s3 \<Rightarrow>
              if ab_anchors s3 = [] then Inr res
              else let a = last (ab_anchors s3)
                   in if vr_events res < an_count a then Inr (res\<lparr>vr_ok := False, vr_break_kind := ''truncation''\<rparr>)
                      else (case hash_at (an_count a - 1) q4 of
                              RowHash x \<Rightarrow> if x \<noteq> an_head a then Inr (res\<lparr>vr_ok := False, vr_break_kind := ''prefix''\<rparr>)
                                           else Inr res
                            | _ \<Rightarrow> Inr res)))"

text \<open>The four queries of \<open>Verify\<close> on a table nobody writes to meanwhile.\<close>

abbreviation verify_now :: "(string \<Rightarrow> string) \<Rightarrow> audit_db \<Rightarrow> audit_error + verify_result" where
  "verify_now h s \<equiv> audit_verify h (Some s) (Some s) (Some s) (Some s)"

definition insert_anchor :: "anchor \<Rightarrow> audit_db \<Rightarrow> audit_db" where
  "insert_anchor a s = s\<lparr>ab_anchors := ab_anchors s @ [a]\<rparr>"

text \<open>\<open>Anchor\<close>, on the result of \<open>Verify\<close>; \<open>created\<close> is the column's default.\<close>

definition anchor_chain :: "audit_error + verify_result \<Rightarrow> int \<Rightarrow> bool \<Rightarrow> audit_db \<Rightarrow> audit_error option \<times> audit_db" where
  "anchor_chain v created up s =
     (case v of
        Inl e \<Rightarrow> (Some e, s)
      | Inr res \<Rightarrow>
          if \<not> vr_ok res then (Some (BrokenChain (vr_break_kind res) (vr_break_id res)), s)
          else if vr_events res = 0 then (None, s)
          else if \<not> up then (Some StoreAnchor, s)
          else (None, insert_anchor \<lparr>an_count = vr_events res, an_head = vr_head_hash res, an_seq = vr_head_seq res,
                  an_created_at = created, an_kid = [], an_signature = []\<rparr> s))"

section \<open>Signed anchors\<close>

record ('k, 'p) rsa =
  rsa_public :: "'k \<Rightarrow> 'p"
  rsa_sign :: "'k \<Rightarrow> string \<Rightarrow> string option"
  rsa_verify :: "'p \<Rightarrow> string \<Rightarrow> string \<Rightarrow> bool"

definition nl :: string where
  "nl = [CHR 0x0A]"

definition canonical_anchor :: "int \<Rightarrow> string \<Rightarrow> int \<Rightarrow> int \<Rightarrow> string" where
  "canonical_anchor count head seq created =
     ''legant-audit-anchor:v1'' @ nl @ ''count='' @ int_str count @ nl @ ''head_hash='' @ head @ nl @ ''head_seq='' @ int_str seq @
     nl @ ''created_at='' @ int_str created"

definition anchor_text :: "anchor \<Rightarrow> string" where
  "anchor_text a = canonical_anchor (an_count a) (an_head a) (an_seq a) (an_created_at a)"

definition anchor_signed ::
    "('k, 'p) rsa \<Rightarrow> string \<Rightarrow> 'k \<Rightarrow> audit_error + verify_result \<Rightarrow> int \<Rightarrow> bool \<Rightarrow> audit_db \<Rightarrow> (audit_error + anchor) \<times> audit_db" where
  "anchor_signed lib kid key v now up s =
     (case v of
        Inl e \<Rightarrow> (Inl e, s)
      | Inr res \<Rightarrow>
          if \<not> vr_ok res then (Inl (BrokenChain (vr_break_kind res) (vr_break_id res)), s)
          else if vr_events res = 0 then (Inl EmptyChain, s)
          else let rec = \<lparr>an_count = vr_events res, an_head = vr_head_hash res, an_seq = vr_head_seq res, an_created_at = now,
                          an_kid = kid, an_signature = []\<rparr>
               in (case rsa_sign lib key (anchor_text rec) of
                     None \<Rightarrow> (Inl SignAnchor, s)
                   | Some sig \<Rightarrow>
                       let rec' = rec\<lparr>an_signature := sig\<rparr>
                       in if \<not> up then (Inl StoreAnchor, s) else (Inr rec', insert_anchor rec' s)))"

definition verify_anchor_signature :: "('k, 'p) rsa \<Rightarrow> (string \<rightharpoonup> 'p) \<Rightarrow> anchor \<Rightarrow> audit_error option" where
  "verify_anchor_signature lib keys a =
     (case keys (an_kid a) of
        None \<Rightarrow> Some (UnknownAnchorKey (an_kid a))
      | Some p \<Rightarrow> if \<not> rsa_verify lib p (anchor_text a) (an_signature a) then Some BadAnchorSignature else None)"

definition check_against_anchor ::
    "('k, 'p) rsa \<Rightarrow> (string \<rightharpoonup> 'p) \<Rightarrow> anchor \<Rightarrow> audit_error + verify_result \<Rightarrow> audit_db option \<Rightarrow> audit_error + verify_result" where
  "check_against_anchor lib keys ext v q =
     (case verify_anchor_signature lib keys ext of
        Some e \<Rightarrow> Inl e
      | None \<Rightarrow>
          and_then v (\<lambda>res.
            if \<not> vr_ok res then Inr res
            else if vr_events res < an_count ext then Inr (res\<lparr>vr_ok := False, vr_break_kind := ''truncation''\<rparr>)
            else (case hash_at (an_count ext - 1) q of
                    NoSuchRow \<Rightarrow> Inr (res\<lparr>vr_ok := False, vr_break_kind := ''truncation''\<rparr>)
                  | OffsetFails \<Rightarrow> Inl OffsetQuery
                  | RowHash x \<Rightarrow> if x \<noteq> an_head ext then Inr (res\<lparr>vr_ok := False, vr_break_kind := ''prefix''\<rparr>) else Inr res)))"

section \<open>Retention\<close>

text \<open>\<open>pruneAuditChained\<close>, in its transaction: the rows removed.\<close>

definition prune_audit :: "instant \<Rightarrow> audit_db \<Rightarrow> int \<times> audit_db" where
  "prune_audit cutoff s =
     (let watermark = (case find (\<lambda>r. ad_created_at (aw_data r) \<ge> cutoff) (by_seq s) of None \<Rightarrow> [] | Some r \<Rightarrow> aw_prev r);
          kept = filter (\<lambda>r. ad_created_at (aw_data r) \<ge> cutoff) (ab_rows s);
          deleted = int (length (ab_rows s)) - int (length kept)
      in (deleted, if deleted > 0 then s\<lparr>ab_rows := kept, ab_watermark := map_option (\<lambda>_. watermark) (ab_watermark s)\<rparr> else s))"

section \<open>Queries\<close>

record audit_filter =
  af_actor_type :: string
  af_actor :: string
  af_action :: string
  af_subject :: string
  af_delegation :: string
  af_jti :: string
  af_since :: "instant option"
  af_until :: "instant option"
  af_limit :: int
  af_offset :: int

definition max_audit_page :: int where
  "max_audit_page = 200"

definition eq_filter :: "string \<Rightarrow> string \<Rightarrow> bool" where
  "eq_filter want v \<longleftrightarrow> want = [] \<or> v = want"

definition matches_filter :: "audit_filter \<Rightarrow> audit_row \<Rightarrow> bool" where
  "matches_filter f r \<longleftrightarrow>
     (let d = aw_data r
      in eq_filter (af_actor_type f) (ad_actor_type d) \<and> eq_filter (af_actor f) (ad_actor d) \<and> eq_filter (af_action f) (ad_action d)
       \<and> eq_filter (af_subject f) (ad_subject d) \<and> eq_filter (af_jti f) (ad_jti d)
       \<and> (af_delegation f = [] \<or> ad_delegation d = Some (af_delegation f))
       \<and> (case af_since f of None \<Rightarrow> True | Some t \<Rightarrow> ad_created_at d \<ge> t)
       \<and> (case af_until f of None \<Rightarrow> True | Some t \<Rightarrow> ad_created_at d \<le> t))"

definition audit_query :: "audit_filter \<Rightarrow> audit_db \<Rightarrow> audit_row list \<times> int" where
  "audit_query f s =
     (let hits = filter (matches_filter f) (ab_rows s);
          limit = (if af_limit f \<le> 0 \<or> af_limit f > max_audit_page then 50 else af_limit f);
          offset = (if af_offset f < 0 then 0 else af_offset f)
      in (take (nat limit) (drop (nat offset) (rev (sort_key aw_seq (sort_key aw_id hits)))), int (length hits)))"

section \<open>Scanning the chain\<close>

text \<open>What a table has to look like, as a predicate on its rows in order.\<close>

fun chain_from :: "(string \<Rightarrow> string) \<Rightarrow> string \<Rightarrow> audit_row list \<Rightarrow> bool" where
  "chain_from h p [] \<longleftrightarrow> True"
| "chain_from h p (r # rs) \<longleftrightarrow> aw_prev r = p \<and> aw_hash r = audit_row_hash h p (aw_data r) \<and> chain_from h (aw_hash r) rs"

definition last_hash :: "string \<Rightarrow> audit_row list \<Rightarrow> string" where
  "last_hash p rs = (if rs = [] then p else aw_hash (last rs))"

lemma last_hash_simps [simp]: "last_hash p [] = p" "last_hash p (r # rs) = last_hash (aw_hash r) rs"
  by (simp_all add: last_hash_def)

lemma chain_from_append: "chain_from h p (xs @ ys) \<longleftrightarrow> chain_from h p xs \<and> chain_from h (last_hash p xs) ys"
  by (induction xs arbitrary: p) auto

lemma scan_row_facts:
  "vr_events (scan_row h w lag r res) = vr_events res + 1"
  "vr_head_hash (scan_row h w lag r res) = aw_hash r"
  "vr_ok (scan_row h w lag r res) \<longleftrightarrow>
     vr_ok res \<and> aw_prev r = (case lag of None \<Rightarrow> w | Some x \<Rightarrow> x) \<and> aw_hash r = audit_row_hash h (aw_prev r) (aw_data r)"
  by (auto simp: scan_row_def Let_def)

lemma scan_facts:
  "vr_events (scan h w lag rs res) = vr_events res + int (length rs)"
  "vr_head_hash (scan h w lag rs res) = last_hash (vr_head_hash res) rs"
  "vr_ok (scan h w lag rs res) \<longleftrightarrow> vr_ok res \<and> chain_from h (case lag of None \<Rightarrow> w | Some x \<Rightarrow> x) rs"
  by (induction rs arbitrary: lag res) (auto simp: scan_row_facts)

lemma length_by_seq [simp]: "length (by_seq s) = length (ab_rows s)"
  by (simp add: by_seq_def)

lemma by_seq_Nil: "by_seq s = [] \<longleftrightarrow> ab_rows s = []"
  using length_by_seq [of s] by (metis length_0_conv)

lemma head_hash_eq: "head_hash s = last_hash [] (by_seq s)"
  by (cases "by_seq s" rule: rev_cases) (auto simp: head_hash_def last_hash_def)

definition anchored_in :: "anchor \<Rightarrow> audit_db \<Rightarrow> bool" where
  "anchored_in a s \<longleftrightarrow>
     an_count a \<le> int (length (ab_rows s)) \<and> (1 \<le> an_count a \<longrightarrow> aw_hash (by_seq s ! nat (an_count a - 1)) = an_head a)"

abbreviation intact :: "(string \<Rightarrow> string) \<Rightarrow> audit_db \<Rightarrow> bool" where
  "intact h s \<equiv> chain_from h (opt_text (ab_watermark s)) (by_seq s)"

lemma verify_now_sound:
  assumes "verify_now h s = Inr res"
  shows "vr_ok res \<longleftrightarrow> intact h s \<and> (ab_anchors s = [] \<or> anchored_in (last (ab_anchors s)) s)"
    and "vr_events res = int (length (ab_rows s))"
    and "vr_head_hash res = head_hash s"
  using assms
  by (auto simp: audit_verify_def Let_def scan_facts fresh_result_def hash_at_def anchored_in_def head_hash_eq
           split: if_splits offset_row.splits)

lemma verify_now_answers: "\<exists>res. verify_now h s = Inr res"
  by (auto simp: audit_verify_def Let_def split: offset_row.splits)

section \<open>An honest log\<close>

text \<open>
  Runs in which only the trigger, the anchors and retention touch the tables. Retention is taken before the first anchor
  and on a log whose times agree with its order; what happens otherwise is shown below.
\<close>

definition times_ordered :: "audit_db \<Rightarrow> bool" where
  "times_ordered s \<longleftrightarrow> sorted (map (\<lambda>r. ad_created_at (aw_data r)) (by_seq s))"

inductive honest_log :: "(string \<Rightarrow> string) \<Rightarrow> ('k, 'p) rsa \<Rightarrow> audit_db \<Rightarrow> bool" for h lib where
  start: "honest_log h lib \<lparr>ab_rows = [], ab_next = 1, ab_watermark = Some [], ab_anchors = []\<rparr>"
| append: "honest_log h lib s \<Longrightarrow> honest_log h lib (append_event h rid d s)"
| anchor: "honest_log h lib s \<Longrightarrow> honest_log h lib (snd (anchor_chain (verify_now h s) created up s))"
| signed: "honest_log h lib s \<Longrightarrow> honest_log h lib (snd (anchor_signed lib kid key (verify_now h s) now up s))"
| retain: "honest_log h lib s \<Longrightarrow> ab_anchors s = [] \<Longrightarrow> times_ordered s \<Longrightarrow> honest_log h lib (snd (prune_audit cutoff s))"

definition in_seq_order :: "audit_db \<Rightarrow> bool" where
  "in_seq_order s \<longleftrightarrow> sorted (map aw_seq (ab_rows s)) \<and> (\<forall>r \<in> set (ab_rows s). aw_seq r < ab_next s)"

definition log_inv :: "(string \<Rightarrow> string) \<Rightarrow> audit_db \<Rightarrow> bool" where
  "log_inv h s \<longleftrightarrow>
     in_seq_order s \<and> ab_watermark s \<noteq> None \<and> chain_from h (opt_text (ab_watermark s)) (ab_rows s)
     \<and> (ab_rows s = [] \<longrightarrow> opt_text (ab_watermark s) = []) \<and> (\<forall>a \<in> set (ab_anchors s). 1 \<le> an_count a \<and> anchored_in a s)"

lemma in_seq_order_by_seq: "in_seq_order s \<Longrightarrow> by_seq s = ab_rows s"
  by (simp add: in_seq_order_def by_seq_def sort_key_id_if_sorted)

lemma log_inv_by_seq: "log_inv h s \<Longrightarrow> by_seq s = ab_rows s"
  by (simp add: log_inv_def in_seq_order_by_seq)

lemma in_seq_order_append: "in_seq_order s \<Longrightarrow> in_seq_order (append_event h rid d s)"
  by (auto simp: in_seq_order_def append_event_def Let_def sorted_append less_imp_le less_SucI)

lemma anchored_in_append:
  assumes "in_seq_order s" and "anchored_in a s" and "1 \<le> an_count a"
  shows "anchored_in a (append_event h rid d s)"
proof -
  have rows: "by_seq (append_event h rid d s) = by_seq s @ drop (length (ab_rows s)) (ab_rows (append_event h rid d s))"
    using assms(1) in_seq_order_append [OF assms(1), of h rid d] by (simp add: in_seq_order_by_seq append_event_def Let_def)
  have "length (ab_rows (append_event h rid d s)) = Suc (length (ab_rows s))"
    by (simp add: append_event_def Let_def)
  then show ?thesis
    using assms(2,3) rows by (auto simp: anchored_in_def nth_append)
qed

lemma log_inv_append:
  assumes "log_inv h s"
  shows "log_inv h (append_event h rid d s)"
proof -
  have head: "head_hash s = last_hash (opt_text (ab_watermark s)) (ab_rows s)"
    using assms by (auto simp: log_inv_def head_hash_eq in_seq_order_by_seq last_hash_def)
  have "chain_from h (opt_text (ab_watermark s)) (ab_rows (append_event h rid d s))"
    using assms head by (simp add: log_inv_def append_event_def Let_def chain_from_append)
  moreover have "ab_anchors (append_event h rid d s) = ab_anchors s" "ab_watermark (append_event h rid d s) = ab_watermark s"
    "ab_rows (append_event h rid d s) \<noteq> []"
    by (simp_all add: append_event_def Let_def)
  ultimately show ?thesis
    using assms by (auto simp: log_inv_def in_seq_order_append anchored_in_append)
qed

lemma log_inv_insert_anchor: "log_inv h s \<Longrightarrow> 1 \<le> an_count a \<Longrightarrow> anchored_in a s \<Longrightarrow> log_inv h (insert_anchor a s)"
  by (auto simp: log_inv_def insert_anchor_def in_seq_order_def anchored_in_def by_seq_def)

lemma verified_head_anchored:
  assumes "verify_now h s = Inr res" and "vr_events res \<noteq> 0" and "an_count a = vr_events res" and "an_head a = vr_head_hash res"
  shows "1 \<le> an_count a \<and> anchored_in a s"
proof -
  have n: "an_count a = int (length (by_seq s))" "by_seq s \<noteq> []"
    using assms verify_now_sound(2) [OF assms(1)] by (auto simp flip: length_by_seq)
  then have "nat (an_count a - 1) = length (by_seq s) - 1" by simp
  then show ?thesis
    using n assms(4) verify_now_sound(3) [OF assms(1)]
    by (cases "by_seq s" rule: rev_cases) (auto simp: anchored_in_def head_hash_eq last_hash_def simp flip: length_by_seq)
qed

lemma log_inv_insert_verified:
  "log_inv h s \<Longrightarrow> verify_now h s = Inr res \<Longrightarrow> vr_events res \<noteq> 0 \<Longrightarrow> an_count a = vr_events res
     \<Longrightarrow> an_head a = vr_head_hash res \<Longrightarrow> log_inv h (insert_anchor a s)"
  using verified_head_anchored [of h s res a] by (blast intro: log_inv_insert_anchor)

lemma log_inv_anchor: "log_inv h s \<Longrightarrow> log_inv h (snd (anchor_chain (verify_now h s) created up s))"
  by (auto simp: anchor_chain_def intro: log_inv_insert_verified split: sum.split)

lemma log_inv_signed: "log_inv h s \<Longrightarrow> log_inv h (snd (anchor_signed lib kid key (verify_now h s) now up s))"
  by (auto simp: anchor_signed_def Let_def intro: log_inv_insert_verified split: sum.split option.split)

lemma filter_sorted_suffix:
  assumes "sorted (map f xs)"
  shows "filter (\<lambda>x. f x \<ge> (c::int)) xs = dropWhile (\<lambda>x. f x < c) xs"
  using assms by (induction xs) (auto simp: filter_id_conv dropWhile_eq_self_iff neq_Nil_conv)

lemma find_filter_hd: "find P xs = (case filter P xs of [] \<Rightarrow> None | x # _ \<Rightarrow> Some x)"
  by (induction xs) auto

lemma log_inv_retain:
  assumes inv: "log_inv h s" and "ab_anchors s = []" and "times_ordered s"
  shows "log_inv h (snd (prune_audit cutoff s))"
proof -
  let ?f = "\<lambda>r. ad_created_at (aw_data r)"
  let ?gone = "takeWhile (\<lambda>r. ?f r < cutoff) (ab_rows s)"
  let ?kept = "filter (\<lambda>r. ?f r \<ge> cutoff) (ab_rows s)"
  let ?w = "case find (\<lambda>r. ?f r \<ge> cutoff) (ab_rows s) of None \<Rightarrow> [] | Some r \<Rightarrow> aw_prev r"
  have kept: "?kept = dropWhile (\<lambda>r. ?f r < cutoff) (ab_rows s)"
    using assms(3) log_inv_by_seq [OF inv] by (simp add: times_ordered_def filter_sorted_suffix)
  then have "ab_rows s = ?gone @ ?kept" by (metis takeWhile_dropWhile_id)
  then have "chain_from h (opt_text (ab_watermark s)) (?gone @ ?kept)"
    using inv unfolding log_inv_def by simp
  then have "chain_from h ?w ?kept"
    by (cases ?kept) (auto simp: find_filter_hd chain_from_append)
  moreover have "sorted (map aw_seq ?kept)"
    using inv by (auto simp: log_inv_def in_seq_order_def sorted_filter)
  moreover have "?kept = [] \<Longrightarrow> ?w = []" by (simp add: find_filter_hd)
  ultimately show ?thesis
    using inv assms(2) log_inv_by_seq [OF inv]
    by (auto simp: log_inv_def prune_audit_def Let_def in_seq_order_def opt_text_def)
qed

lemma honest_log_inv: "honest_log h lib s \<Longrightarrow> log_inv h s"
proof (induction rule: honest_log.induct)
  case start
  show ?case by (simp add: log_inv_def in_seq_order_def opt_text_def)
qed (simp_all add: log_inv_append log_inv_anchor log_inv_signed log_inv_retain)

lemma honest_log_verifies_core:
  assumes "honest_log h lib s"
  shows "\<exists>res. verify_now h s = Inr res \<and> vr_ok res \<and> vr_events res = int (length (ab_rows s)) \<and> vr_head_hash res = head_hash s"
proof -
  have inv: "log_inv h s" using assms by (rule honest_log_inv)
  then have "intact h s \<and> (ab_anchors s = [] \<or> anchored_in (last (ab_anchors s)) s)"
    by (cases "ab_anchors s = []") (simp_all add: log_inv_def in_seq_order_by_seq)
  then show ?thesis
    using verify_now_answers [of h s] verify_now_sound [of h s] by blast
qed

text \<open>Events that the trigger appends.\<close>

definition appended :: "(string \<Rightarrow> string) \<Rightarrow> (int \<times> audit_data) list \<Rightarrow> audit_db \<Rightarrow> audit_db" where
  "appended h es s = fold (\<lambda>(rid, d). append_event h rid d) es s"

lemma appended_keeps:
  assumes "log_inv h s"
  shows "log_inv h (appended h es s) \<and> ab_watermark (appended h es s) = ab_watermark s \<and> ab_anchors (appended h es s) = ab_anchors s"
  using assms
proof (induction es arbitrary: s)
  case (Cons e es)
  obtain rid d where e: "e = (rid, d)" by fastforce
  have same: "ab_anchors (append_event h rid d s) = ab_anchors s" "ab_watermark (append_event h rid d s) = ab_watermark s"
    by (simp_all add: append_event_def Let_def)
  from Cons.IH [OF log_inv_append [OF Cons.prems, of rid d]] show ?case by (simp add: appended_def e same)
qed (simp add: appended_def)

text \<open>
  C23: An honest log verifies. Let only the trigger have written its rows, let it have been anchored at any time, and pruned,
  if at all, only before its first anchor and only while the times of its rows agreed with their order (what a pruning does
  otherwise is shown below). Then \<open>Verify\<close> reports no break, counts every row its scan saw and names the hash of the last one;
  and so it does when more events are appended between its four queries.
\<close>

theorem honest_log_verifies:
  assumes "honest_log h lib s"
  shows "\<exists>res. audit_verify h (Some s) (Some (appended h e2 s)) (Some (appended h e3 s)) (Some (appended h e4 s)) = Inr res \<and>
     vr_ok res \<and> vr_events res = int (length (ab_rows s)) \<and> vr_head_hash res = head_hash s"
proof -
  have inv: "log_inv h s" using assms by (rule honest_log_inv)
  let ?s4 = "appended h e4 s"
  note keeps = appended_keeps [OF inv]
  let ?res = "scan h (opt_text (ab_watermark s)) None (by_seq s) fresh_result"
  have scan: "vr_ok ?res" "vr_events ?res = int (length (ab_rows s))" "vr_head_hash ?res = head_hash s"
    using inv by (simp_all add: scan_facts fresh_result_def log_inv_def in_seq_order_by_seq head_hash_eq)
  have last: "1 \<le> an_count (last (ab_anchors s)) \<and> anchored_in (last (ab_anchors s)) s \<and> anchored_in (last (ab_anchors s)) ?s4"
    if "ab_anchors s \<noteq> []"
    using inv keeps [of e4] that by (simp add: log_inv_def)
  then have "hash_at (an_count (last (ab_anchors s)) - 1) (Some ?s4) = RowHash (an_head (last (ab_anchors s)))" if "ab_anchors s \<noteq> []"
    using that by (auto simp: hash_at_def anchored_in_def)
  with scan last keeps show ?thesis
    by (cases "ab_anchors s = []") (auto simp: audit_verify_def Let_def anchored_in_def)
qed

section \<open>What an anchor pins\<close>

definition row_cells :: "audit_row \<Rightarrow> string list" where
  "row_cells r = aw_prev r # row_fields (aw_data r)"

definition clean_row :: "audit_row \<Rightarrow> bool" where
  "clean_row r \<longleftrightarrow> CHR 0x1F \<notin> set (concat (row_cells r))"

lemma length_row_cells [simp]: "length (row_cells r) = 15"
  by (simp add: row_cells_def row_fields_def)

lemma count_join:
  "ws \<noteq> [] \<Longrightarrow> count_list (join [c] ws) c + 1 = length ws + count_list (concat ws) c"
  by (induction "[c]" ws rule: join.induct) (auto simp: count_list_append)

lemma split_last_sep:
  assumes "c \<notin> set b" and "c \<notin> set b'" and "a @ c # b = a' @ c # b'"
  shows "a = a' \<and> b = b'"
  using split_first_sep [of c "rev b" "rev b'" "rev a" "rev a'"] arg_cong [OF assms(3), of rev] assms(1,2) by simp

lemma join_inj_clean:
  assumes "length ws = length vs" and "c \<notin> set (concat ws)" and "c \<notin> set (concat vs)" and "join [c] ws = join [c] vs"
  shows "ws = vs"
  using assms
proof (induction ws vs rule: list_induct2)
  case (Cons w ws v vs)
  show ?case
  proof (cases "ws = []")
    case False
    then obtain w' ws' v' vs' where "ws = w' # ws'" "vs = v' # vs'"
      using Cons.hyps by (cases ws; cases vs) auto
    then show ?thesis
      using Cons.prems Cons.IH split_first_sep [of c w v "join [c] ws" "join [c] vs"] by simp
  qed (use Cons in simp)
qed simp

lemma join_inj:
  assumes "length ws = length vs" and "c \<notin> set (concat ws)" and "join [c] ws = join [c] vs"
  shows "ws = vs"
proof (cases "ws = []")
  case False
  then have "count_list (concat vs) c = 0"
    using assms count_join [of ws c] count_join [of vs c] by (cases "vs = []") (auto simp: count_list_0_iff)
  then show ?thesis
    using assms join_inj_clean by (metis count_list_0_iff)
qed (use assms in simp)

lemma same_text_same_cells:
  assumes "clean_row r" and "row_text (aw_prev r) (aw_data r) = row_text (aw_prev x) (aw_data x)"
  shows "row_cells r = row_cells x"
proof (rule join_inj)
  show "join [CHR 0x1F] (row_cells r) = join [CHR 0x1F] (row_cells x)"
    using assms(2) by (simp add: row_text_def row_cells_def unit_sep_def)
qed (use assms(1) in \<open>simp_all add: clean_row_def\<close>)

definition hashed_texts :: "audit_row list \<Rightarrow> string set" where
  "hashed_texts rs = (\<lambda>r. row_text (aw_prev r) (aw_data r)) ` set rs"

lemma head_hash_pins_rows:
  assumes "length rs = length xs" and "chain_from h p rs" and "chain_from h q xs" and "last_hash u rs = last_hash u xs"
    and "inj_on h (hashed_texts rs \<union> hashed_texts xs)" and "list_all clean_row rs"
  shows "map row_cells rs = map row_cells xs"
  using assms
proof (induction rs arbitrary: xs u rule: rev_induct)
  case (snoc r rs)
  obtain ys x where xs: "xs = ys @ [x]"
    using snoc.prems(1) by (cases xs rule: rev_cases) auto
  have hashes: "aw_hash r = h (row_text (aw_prev r) (aw_data r))" "aw_hash x = h (row_text (aw_prev x) (aw_data x))"
      "aw_prev r = last_hash p rs" "aw_prev x = last_hash q ys"
    using snoc.prems(2,3) xs by (auto simp: chain_from_append audit_row_hash_def)
  have "h (row_text (aw_prev r) (aw_data r)) = h (row_text (aw_prev x) (aw_data x))"
    using snoc.prems(4) xs hashes by (simp add: last_hash_def)
  then have "row_text (aw_prev r) (aw_data r) = row_text (aw_prev x) (aw_data x)"
    by (rule inj_onD [OF snoc.prems(5)]) (simp_all add: hashed_texts_def xs)
  then have cells: "row_cells r = row_cells x"
    using snoc.prems(6) by (intro same_text_same_cells) auto
  moreover have "map row_cells rs = map row_cells ys"
  proof (cases "rs = []")
    case False
    then have "last_hash [] rs = last_hash [] ys"
      using cells hashes(3,4) snoc.prems(1) xs by (cases ys) (auto simp: row_cells_def last_hash_def)
    moreover have "inj_on h (hashed_texts rs \<union> hashed_texts ys)"
      using snoc.prems(5) xs by (auto simp: hashed_texts_def intro: inj_on_subset)
    ultimately show ?thesis
      using snoc.IH [of ys "[]"] snoc.prems xs by (simp add: chain_from_append)
  qed (use snoc.prems xs in simp)
  ultimately show ?case using xs by simp
qed simp

lemma nat_str_digits: "set (nat_str n) \<subseteq> set ''0123456789''"
proof (induction n rule: nat_str.induct)
  case (1 n)
  have "''0123456789'' ! (n mod 10) \<in> set ''0123456789''" by (rule nth_mem) simp
  then show ?case using 1 by (subst nat_str.simps) (cases "n < 10"; simp)
qed

definition dec_digit :: "nat \<Rightarrow> char" where
  "dec_digit d = ''0123456789'' ! d"

lemma nat_str_small: "n < 10 \<Longrightarrow> nat_str n = [dec_digit n]"
  and nat_str_large: "10 \<le> n \<Longrightarrow> nat_str n = nat_str (n div 10) @ [dec_digit (n mod 10)]"
  by (subst nat_str.simps, simp add: dec_digit_def)+

lemma nat_str_nonempty: "nat_str n \<noteq> []"
  by (subst nat_str.simps) simp

lemma dec_digit_inj: "a < 10 \<Longrightarrow> b < 10 \<Longrightarrow> dec_digit a = dec_digit b \<Longrightarrow> a = b"
  unfolding dec_digit_def by (subst (asm) nth_eq_iff_index_eq) auto

lemma nat_str_inj: "nat_str n = nat_str m \<Longrightarrow> n = m"
proof (induction n arbitrary: m rule: less_induct)
  case (less n)
  consider "n < 10" "m < 10" | "n < 10" "10 \<le> m" | "10 \<le> n" "m < 10" | "10 \<le> n" "10 \<le> m" by linarith
  then show ?case
  proof cases
    case 1
    then show ?thesis using less.prems dec_digit_inj [of n m] by (simp add: nat_str_small)
  next
    case 4
    then have "nat_str (n div 10) = nat_str (m div 10)" and mods: "n mod 10 = m mod 10"
      using less.prems dec_digit_inj [of "n mod 10" "m mod 10"] by (simp_all add: nat_str_large)
    then have "n div 10 = m div 10" using 4 by (intro less.IH) simp_all
    then show ?thesis using mods by (metis div_mult_mod_eq)
  qed (use less.prems nat_str_nonempty in \<open>simp_all add: nat_str_small nat_str_large Cons_eq_append_conv append_eq_Cons_conv\<close>)
qed

lemma int_str_chars: "c \<in> set (int_str i) \<Longrightarrow> c \<in> set ''-0123456789''"
proof -
  have more: "set ''0123456789'' \<subseteq> set ''-0123456789''" and dash: "CHR ''-'' \<in> set ''-0123456789''" by simp_all
  assume "c \<in> set (int_str i)"
  then have "c = CHR ''-'' \<or> c \<in> set (nat_str (nat (- i))) \<or> c \<in> set (nat_str (nat i))"
    by (auto simp: int_str_def split: if_splits)
  then show ?thesis using nat_str_digits more dash by blast
qed

lemma int_str_inj: "int_str i = int_str j \<Longrightarrow> i = j"
proof -
  assume eq: "int_str i = int_str j"
  have sign: "nat_str n \<noteq> CHR ''-'' # w" for n w
    using nat_str_digits [of n] by auto
  show "i = j"
    using eq by (cases "i < 0"; cases "j < 0") (auto simp: int_str_def sign sign [symmetric] dest!: nat_str_inj)
qed

text \<open>The head is the only part of the signed text that may hold a line break, and it is delimited from both sides.\<close>

lemma canonical_anchor_inj:
  assumes "canonical_anchor n x k t = canonical_anchor n' x' k' t'"
  shows "n = n' \<and> x = x' \<and> k = k' \<and> t = t'"
proof -
  have line: "CHR 0x0A \<notin> set (int_str i)" for i using int_str_chars [of "CHR 0x0A" i] by auto
  let ?tail = "\<lambda>x k. ''head_hash='' @ x @ nl @ ''head_seq='' @ int_str k"
  have e1: "(''count='' @ int_str n) @ CHR 0x0A # (?tail x k @ nl @ ''created_at='' @ int_str t)
      = (''count='' @ int_str n') @ CHR 0x0A # (?tail x' k' @ nl @ ''created_at='' @ int_str t')"
    using assms by (simp add: canonical_anchor_def nl_def)
  have n: "int_str n = int_str n'" and rest: "?tail x k @ nl @ ''created_at='' @ int_str t = ?tail x' k' @ nl @ ''created_at='' @ int_str t'"
    using split_first_sep [of "CHR 0x0A" "''count='' @ int_str n" "''count='' @ int_str n'", OF _ _ e1] line by simp_all
  have e2: "?tail x k @ CHR 0x0A # (''created_at='' @ int_str t) = ?tail x' k' @ CHR 0x0A # (''created_at='' @ int_str t')"
    using rest by (simp add: nl_def)
  have t: "int_str t = int_str t'" and mid: "?tail x k = ?tail x' k'"
    using split_last_sep [of "CHR 0x0A" "''created_at='' @ int_str t" "''created_at='' @ int_str t'", OF _ _ e2] line by simp_all
  have e3: "x @ CHR 0x0A # (''head_seq='' @ int_str k) = x' @ CHR 0x0A # (''head_seq='' @ int_str k')"
    using mid by (simp add: nl_def)
  have "x = x'" "int_str k = int_str k'"
    using split_last_sep [of "CHR 0x0A" "''head_seq='' @ int_str k" "''head_seq='' @ int_str k'" x x', OF _ _ e3] line by simp_all
  then show ?thesis using n t int_str_inj by blast
qed

lemma anchor_text_inj: "anchor_text a = anchor_text b \<Longrightarrow> an_count a = an_count b \<and> an_head a = an_head b"
  unfolding anchor_text_def by (blast dest: canonical_anchor_inj)

lemma anchor_signed_records:
  assumes "anchor_signed lib kid key (verify_now h s) now up s = (Inr a, s')"
  shows "intact h s \<and> ab_rows s \<noteq> [] \<and> an_count a = int (length (ab_rows s)) \<and> an_head a = head_hash s"
  using assms verify_now_sound [of h s]
  by (auto simp: anchor_signed_def Let_def split: sum.splits if_splits option.splits)

lemma check_against_anchor_ok:
  assumes "check_against_anchor lib keys ext (verify_now h s) (Some s) = Inr res" and "vr_ok res"
  shows "intact h s \<and> anchored_in ext s
    \<and> (\<exists>p. keys (an_kid ext) = Some p \<and> rsa_verify lib p (anchor_text ext) (an_signature ext))"
  using assms verify_now_sound [of h s]
  by (auto simp: check_against_anchor_def verify_anchor_signature_def and_then_eq_Inr_iff anchored_in_def hash_at_def
           split: option.splits if_splits offset_row.splits)

lemma last_hash_take:
  "rs \<noteq> [] \<Longrightarrow> length rs \<le> length xs \<Longrightarrow> last_hash u (take (length rs) xs) = aw_hash (xs ! (length rs - 1))"
  by (cases "take (length rs) xs = []") (auto simp: last_hash_def last_conv_nth min_def)

text \<open>
  C8: When the check against an anchor kept off the box passes, the first rows of the table are, field for field as hashed,
  the rows the log had when that anchor was signed, whatever was done to the tables in between. The signature scheme yields no
  signature \<open>AnchorSigned\<close> did not make, the hash does not collide on the texts at hand, and no field of the
  anchored rows holds the separator byte.
\<close>

theorem offbox_anchor_pins_log:
  assumes signed: "\<And>p. keys (an_kid ext) = Some p \<Longrightarrow> rsa_verify lib p (anchor_text ext) (an_signature ext) \<Longrightarrow>
      \<exists>s0 \<in> history. \<exists>kid key now up a s1. anchor_signed lib kid key (verify_now h s0) now up s0 = (Inr a, s1)
        \<and> anchor_text a = anchor_text ext"
    and collision_free: "\<And>s0. s0 \<in> history \<Longrightarrow> inj_on h (hashed_texts (by_seq s0) \<union> hashed_texts (by_seq s))"
    and clean: "\<And>s0. s0 \<in> history \<Longrightarrow> list_all clean_row (by_seq s0)"
    and passes: "check_against_anchor lib keys ext (verify_now h s) (Some s) = Inr res" "vr_ok res"
  shows "\<exists>s0 \<in> history. an_count ext = int (length (ab_rows s0)) \<and> length (ab_rows s0) \<le> length (ab_rows s)
    \<and> map row_cells (take (length (ab_rows s0)) (by_seq s)) = map row_cells (by_seq s0)"
proof -
  obtain s0 kid key now up a s1 where s0: "s0 \<in> history"
      and a: "anchor_signed lib kid key (verify_now h s0) now up s0 = (Inr a, s1)" "anchor_text a = anchor_text ext"
    using signed check_against_anchor_ok [OF passes] by blast
  note then_state = anchor_signed_records [OF a(1)] and now_state = check_against_anchor_ok [OF passes]
  let ?n = "length (by_seq s0)"
  have n: "an_count ext = int ?n" "by_seq s0 \<noteq> []" "?n \<le> length (by_seq s)"
    using then_state now_state anchor_text_inj [OF a(2)] by (simp_all add: anchored_in_def by_seq_Nil)
  have "last_hash [] (by_seq s0) = aw_hash (by_seq s ! nat (an_count ext - 1))"
    using then_state now_state anchor_text_inj [OF a(2)] n(1,2) by (auto simp: anchored_in_def head_hash_eq Suc_le_eq by_seq_Nil)
  also have "\<dots> = last_hash [] (take ?n (by_seq s))"
  proof -
    have "nat (an_count ext - 1) = ?n - 1" using n(1) by linarith
    then show ?thesis using n last_hash_take [of "by_seq s0" "by_seq s"] by simp
  qed
  finally have "last_hash [] (by_seq s0) = last_hash [] (take ?n (by_seq s))" .
  moreover have "chain_from h (opt_text (ab_watermark s)) (take ?n (by_seq s))"
    using now_state chain_from_append [of h _ "take ?n (by_seq s)" "drop ?n (by_seq s)"] by simp
  moreover have "inj_on h (hashed_texts (by_seq s0) \<union> hashed_texts (take ?n (by_seq s)))"
    using collision_free [OF s0] by (rule inj_on_subset) (auto simp: hashed_texts_def dest: in_set_takeD)
  ultimately have "map row_cells (by_seq s0) = map row_cells (take ?n (by_seq s))"
    using then_state n clean [OF s0] by (intro head_hash_pins_rows [where p = "opt_text (ab_watermark s0)"]) simp_all
  then show ?thesis using s0 n by (intro bexI [of _ s0]) simp_all
qed

text \<open>A log of two events, signed with a key that signs a text by itself, then a third; and two edits of it.\<close>

definition demo_hash :: "string \<Rightarrow> string" where
  "demo_hash x = filter (\<lambda>c. c \<noteq> CHR 0x1F) x"

definition demo_rsa :: "(unit, unit) rsa" where
  "demo_rsa = \<lparr>rsa_public = (\<lambda>_. ()), rsa_sign = (\<lambda>_ m. Some m), rsa_verify = (\<lambda>_ m sig. sig = m)\<rparr>"

definition demo_event :: "string \<Rightarrow> int \<Rightarrow> audit_data" where
  "demo_event action t =
     \<lparr>ad_actor_type = ''user'', ad_actor = ''u1'', ad_action = action, ad_resource_type = [], ad_resource = [], ad_subject = [],
      ad_actor_chain = None, ad_delegation = None, ad_jti = [], ad_org = None, ad_ip = None, ad_user_agent = [],
      ad_metadata = ''{}'', ad_created_at = t * 1000000000\<rparr>"

definition empty_log :: audit_db where
  "empty_log = \<lparr>ab_rows = [], ab_next = 1, ab_watermark = Some [], ab_anchors = []\<rparr>"

definition demo_log :: audit_db where
  "demo_log = append_event demo_hash 2 (demo_event ''logout'' 20) (append_event demo_hash 1 (demo_event ''login'' 10) empty_log)"

definition demo_anchor :: anchor where
  "demo_anchor = (case fst (anchor_signed demo_rsa ''k'' () (verify_now demo_hash demo_log) 30 True demo_log) of Inr a \<Rightarrow> a
     | Inl e \<Rightarrow> undefined)"

definition demo_longer :: audit_db where
  "demo_longer = append_event demo_hash 3 (demo_event ''login'' 40) demo_log"

lemma demo_honest: "honest_log demo_hash lib demo_log"
  unfolding demo_log_def empty_log_def by (intro honest_log.intros)

theorem honest_log_verifies_witness:
  "\<exists>res. verify_now demo_hash demo_log = Inr res \<and> vr_ok res \<and> vr_events res = 2"
proof -
  have "int (length (ab_rows demo_log)) = 2" by code_simp
  then show ?thesis using honest_log_verifies [OF demo_honest [of demo_rsa], of "[]" "[]" "[]"] by (auto simp: appended_def)
qed

theorem offbox_anchor_pins_log_witness:
  "map row_cells (take 2 (by_seq demo_longer)) = map row_cells (by_seq demo_log)"
proof -
  have keys: "anchor_signed demo_rsa ''k'' () (verify_now demo_hash demo_log) 30 True demo_log =
      (Inr demo_anchor, insert_anchor demo_anchor demo_log)"
    by code_simp
  have two: "length (ab_rows demo_log) = 2" by code_simp
  have cells: "list_all clean_row (by_seq demo_log)" by code_simp
  have coll: "inj_on demo_hash (hashed_texts (by_seq demo_log) \<union> hashed_texts (by_seq demo_longer))" by code_simp
  have "honest_log demo_hash demo_rsa demo_longer"
    unfolding demo_longer_def by (intro honest_log.append demo_honest)
  then obtain res where res: "verify_now demo_hash demo_longer = Inr res" "vr_ok res"
    using honest_log_verifies_core by blast
  moreover have "check_against_anchor demo_rsa [''k'' \<mapsto> ()] demo_anchor (verify_now demo_hash demo_longer) (Some demo_longer)
      = verify_now demo_hash demo_longer" by code_simp
  ultimately have passes: "check_against_anchor demo_rsa [''k'' \<mapsto> ()] demo_anchor (verify_now demo_hash demo_longer)
      (Some demo_longer) = Inr res" by simp
  show ?thesis
    using offbox_anchor_pins_log [of "[''k'' \<mapsto> ()]" demo_anchor demo_rsa "{demo_log}" demo_hash demo_longer res]
      keys two cells coll res(2) passes by (simp, blast)
qed

section \<open>Retention against anchors\<close>

text \<open>
  Retention cuts the log it is meant to keep verifiable: once any rows of an anchored log are pruned, \<open>Verify\<close>
  reports a broken chain and no new anchor can be made.
\<close>

theorem pruning_breaks_anchored_log:
  assumes "honest_log h lib s" and "ab_rows s \<noteq> []" and "s1 = snd (anchor_chain (verify_now h s) created True s)"
    and "0 < fst (prune_audit cutoff s1)" and "s2 = snd (prune_audit cutoff s1)"
  shows "\<exists>res. verify_now h s2 = Inr res \<and> \<not> vr_ok res
    \<and> anchor_chain (verify_now h s2) later up s2 = (Some (BrokenChain (vr_break_kind res) (vr_break_id res)), s2)"
proof -
  obtain res where res: "verify_now h s = Inr res" "vr_ok res" "vr_events res = int (length (ab_rows s))"
    using honest_log_verifies_core [OF assms(1)] by blast
  have "ab_rows s1 = ab_rows s" "an_count (last (ab_anchors s1)) = int (length (ab_rows s))" "ab_anchors s1 \<noteq> []"
    using res assms(2,3) by (simp_all add: anchor_chain_def insert_anchor_def)
  moreover have "length (ab_rows s2) < length (ab_rows s1)" "ab_anchors s2 = ab_anchors s1"
    using assms(4,5) by (auto simp: prune_audit_def Let_def)
  ultimately have "\<not> anchored_in (last (ab_anchors s2)) s2" "ab_anchors s2 \<noteq> []"
    by (auto simp: anchored_in_def)
  then show ?thesis
    using verify_now_answers [of h s2] verify_now_sound(1) [of h s2] by (auto simp: anchor_chain_def)
qed

theorem pruning_breaks_anchored_log_witness:
  "\<exists>res. verify_now demo_hash (snd (prune_audit 15000000000 (snd (anchor_chain (verify_now demo_hash demo_log) 30 True demo_log)))) = Inr res
    \<and> \<not> vr_ok res"
proof -
  have "0 < fst (prune_audit 15000000000 (snd (anchor_chain (verify_now demo_hash demo_log) 30 True demo_log)))"
    and "ab_rows demo_log \<noteq> []" by code_simp+
  then show ?thesis
    using pruning_breaks_anchored_log [OF demo_honest [of demo_rsa] _ refl _ refl, of 15000000000 30] by blast
qed

text \<open>
  Rows are numbered when they take the lock and dated when their transaction began. When the two orders differ, retention
  cuts a row out of the middle and the log no longer verifies, with no anchor involved.
\<close>

lemma retention_cuts_out_of_order:
  "let s = append_event demo_hash 2 (demo_event ''login'' 10) (append_event demo_hash 1 (demo_event ''logout'' 20) empty_log);
       s' = append_event demo_hash 3 (demo_event ''login'' 30) s
   in map_option vr_ok (case verify_now demo_hash s' of Inr r \<Rightarrow> Some r | _ \<Rightarrow> None) = Some True
      \<and> map_option vr_break_kind (case verify_now demo_hash (snd (prune_audit 15000000000 s')) of Inr r \<Rightarrow> Some r | _ \<Rightarrow> None) = Some ''link''"
  by code_simp

text \<open>
  The fields are joined without escaping, so moving a separator between two of them, or splitting an actor's name at a comma,
  changes a row and not its hash.
\<close>

lemma unseen_edit:
  "audit_row_hash h p (d\<lparr>ad_actor_chain := Some [''a'', ''b'']\<rparr>) = audit_row_hash h p (d\<lparr>ad_actor_chain := Some [''a,b'']\<rparr>)"
  "audit_row_hash h p (d\<lparr>ad_actor := ''u'', ad_action := ''x'' @ unit_sep @ ''y'', ad_resource_type := r\<rparr>)
   = audit_row_hash h p (d\<lparr>ad_actor := ''u'' @ unit_sep @ ''x'', ad_action := ''y'', ad_resource_type := r\<rparr>)"
  by (simp_all add: audit_row_hash_def row_text_def row_fields_def opt_text_def unit_sep_def)

section \<open>Pages of the log\<close>

text \<open>
  A query returns at most 200 rows, every one of them in the table and matching the filter, newest first, and
  the total it reports is the number of matches; a negative offset or a limit out of range never widens it.
\<close>

theorem audit_query_page:
  "case audit_query f s of (page, n) \<Rightarrow>
     length page \<le> 200 \<and> set page \<subseteq> {r \<in> set (ab_rows s). matches_filter f r}
     \<and> sorted_wrt (\<lambda>r x. aw_seq x \<le> aw_seq r) page
     \<and> n = int (length (filter (matches_filter f) (ab_rows s)))"
proof -
  have down: "sorted_wrt (\<lambda>r x. aw_seq x \<le> aw_seq r) (rev (sort_key aw_seq rs))" for rs
    using sorted_sort_key [of aw_seq rs] by (simp add: sorted_wrt_rev sorted_wrt_map)
  show ?thesis
    by (auto simp: audit_query_def Let_def max_audit_page_def min_def intro!: sorted_wrt_take sorted_wrt_drop down
             dest!: in_set_takeD in_set_dropD)
qed

end
