(* ===== verification/Keystore.thy ===== *)
theory Keystore
  imports GoPrelude
begin

text \<open>
  Signing keys: the envelope encryption of \<open>internal/crypto/keys.go\<close> and the keystore
  (\<open>internal/keystore/keystore.go\<close>), a table shared by every process and a cache in each of them.

  AES-256-GCM (under the SHA-256 of a key), RSA and the PEM encodings are arguments, a record of functions. What a call draws at
  random, and whether the database answers, is an argument of the call. \<open>Reencrypt\<close> reads the table in one step and
  writes it in another, and whatever other processes do may come between.
\<close>

section \<open>The envelope\<close>

record ('k, 'p) key_lib =
  kl_nonce_size :: nat
  kl_seal :: "string \<Rightarrow> string \<Rightarrow> string \<Rightarrow> string \<Rightarrow> string"
  kl_open :: "string \<Rightarrow> string \<Rightarrow> string \<Rightarrow> string \<Rightarrow> string option"
  kl_public :: "'k \<Rightarrow> 'p"
  kl_pem :: "'k \<Rightarrow> string"
  kl_parse :: "string \<Rightarrow> 'k option"
  kl_public_pem :: "'p \<Rightarrow> string option"

text \<open>\<open>EncryptAESGCMWithAAD\<close> and \<open>DecryptAESGCMWithAAD\<close>; the nonce goes in front.\<close>

definition encrypt_aad :: "('k, 'p) key_lib \<Rightarrow> string option \<Rightarrow> string \<Rightarrow> string \<Rightarrow> string \<Rightarrow> string option" where
  "encrypt_aad lib nonce plain kek ad = map_option (\<lambda>n. n @ kl_seal lib kek n ad plain) nonce"

definition decrypt_aad :: "('k, 'p) key_lib \<Rightarrow> string \<Rightarrow> string \<Rightarrow> string \<Rightarrow> string option" where
  "decrypt_aad lib cipher kek ad =
     (if length cipher < kl_nonce_size lib then None
      else kl_open lib kek (take (kl_nonce_size lib) cipher) ad (drop (kl_nonce_size lib) cipher))"

section \<open>The table and the caches\<close>

text \<open>A row of \<open>signing_keys\<close>; \<open>use_type\<close> is always \<open>sig\<close> here, since nothing inserts another.\<close>

record key_row =
  kr_id :: string
  kr_private :: string
  kr_public :: string
  kr_active :: bool
  kr_created :: instant
  kr_expires :: "instant option"

record ('k, 'p) loaded_key =
  lk_id :: string
  lk_private :: 'k
  lk_public :: 'p
  lk_created :: instant
  lk_expires :: "instant option"

record ('k, 'p) keystore =
  ks_overlap :: duration
  ks_kek :: string
  ks_active :: "('k, 'p) loaded_key option"
  ks_by_kid :: "string \<rightharpoonup> ('k, 'p) loaded_key"

datatype keystore_error =
    EmptyKek
  | NoRandom
  | NoPublicPem
  | PersistKey
  | LoadKeys
  | DecryptKey string
  | ParseKey string
  | KeyTx
  | ScheduleRetirement string

definition aad :: "string \<Rightarrow> string" where
  "aad kid = ''legant-kek-v1'' @ ''|'' @ kid @ ''|'' @ ''sig''"

text \<open>What \<open>generate\<close> draws: a key, the hex of its id, a nonce.\<close>

record 'k draw =
  dr_key :: "'k option"
  dr_hex :: "string option"
  dr_nonce :: "string option"

definition key_ids :: "key_row list \<Rightarrow> string set" where
  "key_ids t = set (map kr_id t)"

definition generate ::
    "('k, 'p) key_lib \<Rightarrow> 'k draw \<Rightarrow> instant \<Rightarrow> bool \<Rightarrow> string \<Rightarrow> key_row list \<Rightarrow> keystore_error + (string \<times> key_row list)" where
  "generate lib fr now up kek t =
     and_then (need NoRandom (dr_key fr)) (\<lambda>priv.
     and_then (need NoRandom (dr_hex fr)) (\<lambda>rnd.
     let kid = ''rk_'' @ rnd
     in and_then (need NoPublicPem (kl_public_pem lib (kl_public lib priv))) (\<lambda>pub.
        and_then (need NoRandom (encrypt_aad lib (dr_nonce fr) (kl_pem lib priv) kek (aad kid))) (\<lambda>enc.
        if \<not> up \<or> kid \<in> key_ids t then Inl PersistKey
        else Inr (kid, t @ [\<lparr>kr_id = kid, kr_private = enc, kr_public = pub, kr_active = True,
                             kr_created = now, kr_expires = None\<rparr>])))))"

section \<open>Loading\<close>

definition active_rows :: "key_row list \<Rightarrow> key_row list" where
  "active_rows t = rev (sort_key kr_created (sort_key kr_id (filter kr_active t)))"

definition load_row :: "('k, 'p) key_lib \<Rightarrow> string \<Rightarrow> key_row \<Rightarrow> keystore_error + ('k, 'p) loaded_key" where
  "load_row lib kek r =
     and_then (need (DecryptKey (kr_id r)) (decrypt_aad lib (kr_private r) kek (aad (kr_id r)))) (\<lambda>pem.
     and_then (need (ParseKey (kr_id r)) (kl_parse lib pem)) (\<lambda>priv.
     Inr \<lparr>lk_id = kr_id r, lk_private = priv, lk_public = kl_public lib priv, lk_created = kr_created r,
          lk_expires = kr_expires r\<rparr>))"

fun load_rows ::
    "('k, 'p) key_lib \<Rightarrow> string \<Rightarrow> key_row list \<Rightarrow> (string \<rightharpoonup> ('k, 'p) loaded_key) \<Rightarrow> ('k, 'p) loaded_key option
     \<Rightarrow> keystore_error + ((string \<rightharpoonup> ('k, 'p) loaded_key) \<times> ('k, 'p) loaded_key option)" where
  "load_rows lib kek [] m newest = Inr (m, newest)"
| "load_rows lib kek (r # rs) m newest =
     and_then (load_row lib kek r) (\<lambda>key.
       load_rows lib kek rs (m(lk_id key \<mapsto> key)) (if newest = None then Some key else newest))"

text \<open>\<open>reload\<close>; \<^const>\<open>None\<close> is a query that fails.\<close>

definition reload ::
    "('k, 'p) key_lib \<Rightarrow> key_row list option \<Rightarrow> ('k, 'p) keystore \<Rightarrow> keystore_error + ('k, 'p) keystore" where
  "reload lib q ks =
     and_then (need LoadKeys q) (\<lambda>t.
     and_then (load_rows lib (ks_kek ks) (active_rows t) Map.empty None) (\<lambda>(m, newest).
     Inr (ks\<lparr>ks_by_kid := m, ks_active := newest\<rparr>)))"

definition active_kid :: "('k, 'p) keystore \<Rightarrow> string" where
  "active_kid ks = (case ks_active ks of None \<Rightarrow> [] | Some key \<Rightarrow> lk_id key)"

definition active_signer :: "('k, 'p) keystore \<Rightarrow> 'k option" where
  "active_signer ks = map_option lk_private (ks_active ks)"

definition verifier_keys :: "('k, 'p) keystore \<Rightarrow> string \<rightharpoonup> 'p" where
  "verifier_keys ks = map_option lk_public \<circ> ks_by_kid ks"

section \<open>Opening, rotating, pruning\<close>

text \<open>\<open>bootstrap\<close> holds a lock that every process takes, so its count and its insert are one step.\<close>

definition bootstrap ::
    "('k, 'p) key_lib \<Rightarrow> 'k draw \<Rightarrow> instant \<Rightarrow> bool \<Rightarrow> ('k, 'p) keystore \<Rightarrow> key_row list \<Rightarrow> keystore_error + key_row list" where
  "bootstrap lib fr now up ks t =
     (if \<not> up then Inl KeyTx
      else if filter kr_active t = [] then and_then (generate lib fr now up (ks_kek ks) t) (\<lambda>(_, t'). Inr t')
      else Inr t)"

definition closed_store :: "string \<Rightarrow> duration \<Rightarrow> ('k, 'p) keystore" where
  "closed_store kek overlap = \<lparr>ks_overlap = overlap, ks_kek = kek, ks_active = None, ks_by_kid = Map.empty\<rparr>"

text \<open>\<open>Open\<close>: what the first query sees, the table at the bootstrap, and what the second query sees.\<close>

definition open_keystore ::
    "('k, 'p) key_lib \<Rightarrow> string \<Rightarrow> duration \<Rightarrow> 'k draw \<Rightarrow> instant \<Rightarrow> bool \<Rightarrow> key_row list option \<Rightarrow> key_row list
     \<Rightarrow> (key_row list \<Rightarrow> key_row list option) \<Rightarrow> (keystore_error + ('k, 'p) keystore) \<times> key_row list" where
  "open_keystore lib kek overlap fr now up q1 t q2 =
     (if kek = [] then (Inl EmptyKek, t)
      else case reload lib q1 (closed_store kek overlap) of
             Inl e \<Rightarrow> (Inl e, t)
           | Inr ks \<Rightarrow>
               if active_kid ks \<noteq> [] then (Inr ks, t)
               else case bootstrap lib fr now up ks t of
                      Inl e \<Rightarrow> (Inl e, t)
                    | Inr t' \<Rightarrow> (reload lib (q2 t') ks, t'))"

text \<open>The update of \<open>Rotate\<close>, and its transaction, which leaves the table alone when it fails.\<close>

definition retire :: "string \<Rightarrow> instant \<Rightarrow> key_row list \<Rightarrow> key_row list" where
  "retire kid e t = map (\<lambda>r. if kr_id r = kid \<and> kr_expires r = None then r\<lparr>kr_expires := Some e\<rparr> else r) t"

definition rotate_tx ::
    "('k, 'p) key_lib \<Rightarrow> 'k draw \<Rightarrow> instant \<Rightarrow> bool \<Rightarrow> ('k, 'p) keystore \<Rightarrow> key_row list \<Rightarrow> keystore_error + (string \<times> key_row list)" where
  "rotate_tx lib fr now up ks t =
     (let prev = active_kid ks
      in and_then (generate lib fr now up (ks_kek ks) t) (\<lambda>(kid, t').
         Inr (kid, if prev \<noteq> [] \<and> ks_overlap ks > 0 then retire prev (now + ks_overlap ks) t' else t')))"

definition rotate ::
    "('k, 'p) key_lib \<Rightarrow> 'k draw \<Rightarrow> instant \<Rightarrow> bool \<Rightarrow> (key_row list \<Rightarrow> key_row list option) \<Rightarrow> ('k, 'p) keystore \<Rightarrow> key_row list
     \<Rightarrow> (keystore_error + string) \<times> ('k, 'p) keystore \<times> key_row list" where
  "rotate lib fr now up q ks t =
     (case rotate_tx lib fr now up ks t of
        Inl e \<Rightarrow> (Inl e, ks, t)
      | Inr (kid, t') \<Rightarrow>
          (case reload lib (q t') ks of Inl e \<Rightarrow> (Inl e, ks, t') | Inr ks' \<Rightarrow> (Inr kid, ks', t')))"

definition prunable :: "string \<Rightarrow> instant \<Rightarrow> key_row \<Rightarrow> bool" where
  "prunable keep now r \<longleftrightarrow>
     kr_active r \<and> (case kr_expires r of None \<Rightarrow> False | Some e \<Rightarrow> e < now) \<and> kr_id r \<noteq> keep"

definition prune_rows :: "string \<Rightarrow> instant \<Rightarrow> key_row list \<Rightarrow> key_row list" where
  "prune_rows keep now t = map (\<lambda>r. if prunable keep now r then r\<lparr>kr_active := False\<rparr> else r) t"

definition prune_keys ::
    "('k, 'p) key_lib \<Rightarrow> instant \<Rightarrow> bool \<Rightarrow> (key_row list \<Rightarrow> key_row list option) \<Rightarrow> ('k, 'p) keystore \<Rightarrow> key_row list
     \<Rightarrow> (keystore_error + nat) \<times> ('k, 'p) keystore \<times> key_row list" where
  "prune_keys lib now up q ks t =
     (let keep = active_kid ks; t' = prune_rows keep now t
      in if \<not> up then (Inl KeyTx, ks, t)
         else case reload lib (q t') ks of
                Inl e \<Rightarrow> (Inl e, ks, t')
              | Inr ks' \<Rightarrow> (Inr (length (filter (prunable keep now) t)), ks', t'))"

section \<open>A new envelope key\<close>

definition set_private :: "string \<Rightarrow> string \<Rightarrow> key_row list \<Rightarrow> key_row list" where
  "set_private kid enc t = map (\<lambda>r. if kr_id r = kid then r\<lparr>kr_private := enc\<rparr> else r) t"

text \<open>The loop over the rows read before the transaction began; a nonce is drawn for each.\<close>

fun rewrap ::
    "('k, 'p) key_lib \<Rightarrow> string \<Rightarrow> string \<Rightarrow> (string \<times> string) list \<Rightarrow> string option list \<Rightarrow> key_row list \<Rightarrow> keystore_error + key_row list" where
  "rewrap lib kek new [] ns t = Inr t"
| "rewrap lib kek new ((kid, enc) # recs) ns t =
     and_then (need (DecryptKey kid) (decrypt_aad lib enc kek (aad kid))) (\<lambda>plain.
     and_then (need NoRandom (encrypt_aad lib (case ns of [] \<Rightarrow> None | n # _ \<Rightarrow> n) plain new (aad kid))) (\<lambda>reenc.
     rewrap lib kek new recs (tl ns) (set_private kid reenc t)))"

definition reencrypt ::
    "('k, 'p) key_lib \<Rightarrow> string \<Rightarrow> string option list \<Rightarrow> bool \<Rightarrow> key_row list option \<Rightarrow> key_row list
     \<Rightarrow> (key_row list \<Rightarrow> key_row list option) \<Rightarrow> ('k, 'p) keystore \<Rightarrow> keystore_error option \<times> ('k, 'p) keystore \<times> key_row list" where
  "reencrypt lib new ns up q1 t q2 ks =
     (if new = [] then (Some EmptyKek, ks, t)
      else case q1 of
             None \<Rightarrow> (Some LoadKeys, ks, t)
           | Some seen \<Rightarrow>
               if \<not> up then (Some KeyTx, ks, t)
               else case rewrap lib (ks_kek ks) new (map (\<lambda>r. (kr_id r, kr_private r)) seen) ns t of
                      Inl e \<Rightarrow> (Some e, ks, t)
                    | Inr t' \<Rightarrow>
                        let ks' = ks\<lparr>ks_kek := new\<rparr>
                        in case reload lib (q2 t') ks' of Inl e \<Rightarrow> (Some e, ks', t') | Inr ks'' \<Rightarrow> (None, ks'', t'))"

section \<open>Listing\<close>

record key_info =
  ki_id :: string
  ki_active :: bool
  ki_created :: instant
  ki_expires :: "instant option"

definition list_keys :: "key_row list \<Rightarrow> key_info list" where
  "list_keys t =
     map (\<lambda>r. \<lparr>ki_id = kr_id r, ki_active = kr_active r, ki_created = kr_created r, ki_expires = kr_expires r\<rparr>)
       (rev (sort_key kr_created (sort_key kr_id t)))"

section \<open>Sealed rows\<close>

definition key_laws :: "('k, 'p) key_lib \<Rightarrow> bool" where
  "key_laws lib \<longleftrightarrow>
     (\<forall>kek n ad m. length n = kl_nonce_size lib \<longrightarrow> kl_open lib kek n ad (kl_seal lib kek n ad m) = Some m)
     \<and> (\<forall>k. kl_parse lib (kl_pem lib k) = Some k)"

definition good_nonce :: "('k, 'p) key_lib \<Rightarrow> string option \<Rightarrow> bool" where
  "good_nonce lib nonce \<longleftrightarrow> (\<forall>n. nonce = Some n \<longrightarrow> length n = kl_nonce_size lib)"

lemma decrypt_encrypt:
  "key_laws lib \<Longrightarrow> good_nonce lib nonce \<Longrightarrow> encrypt_aad lib nonce m kek ad = Some c \<Longrightarrow> decrypt_aad lib c kek ad = Some m"
  by (auto simp: encrypt_aad_def decrypt_aad_def key_laws_def good_nonce_def)

text \<open>A row holds a private key when it opens to it under the envelope key and its own id, and the public column is that key's.\<close>

definition holds_key :: "('k, 'p) key_lib \<Rightarrow> string \<Rightarrow> 'k \<Rightarrow> key_row \<Rightarrow> bool" where
  "holds_key lib kek priv r \<longleftrightarrow>
     decrypt_aad lib (kr_private r) kek (aad (kr_id r)) = Some (kl_pem lib priv) \<and> kl_public_pem lib (kl_public lib priv) = Some (kr_public r)"

definition table_ok :: "('k, 'p) key_lib \<Rightarrow> string \<Rightarrow> key_row list \<Rightarrow> bool" where
  "table_ok lib kek t \<longleftrightarrow> distinct (map kr_id t) \<and> (\<forall>r \<in> set t. \<exists>priv. holds_key lib kek priv r)"

lemma generate_Inr:
  assumes "generate lib fr now up kek t = Inr (kid, t')"
  obtains r priv where "t' = t @ [r]" and "kr_id r = kid" and "kid \<notin> key_ids t" and "kr_active r" and "kr_created r = now"
    and "kr_expires r = None" and "kl_public_pem lib (kl_public lib priv) = Some (kr_public r)"
    and "encrypt_aad lib (dr_nonce fr) (kl_pem lib priv) kek (aad kid) = Some (kr_private r)" and "kid \<noteq> []"
  using assms unfolding generate_def Let_def step_Inr_iff by (auto split: if_splits)

lemma generate_ok:
  assumes "key_laws lib" and "good_nonce lib (dr_nonce fr)" and "table_ok lib kek t" and "generate lib fr now up kek t = Inr (kid, t')"
  shows "table_ok lib kek t'"
  using assms(4)
proof (rule generate_Inr)
  fix r priv
  assume new: "t' = t @ [r]" "kr_id r = kid" "kid \<notin> key_ids t" "kl_public_pem lib (kl_public lib priv) = Some (kr_public r)"
    "encrypt_aad lib (dr_nonce fr) (kl_pem lib priv) kek (aad kid) = Some (kr_private r)"
  then have "holds_key lib kek priv r"
    using decrypt_encrypt [OF assms(1,2)] by (auto simp: holds_key_def)
  then show "table_ok lib kek t'"
    using assms(3) new by (auto simp: table_ok_def key_ids_def)
qed

lemma retire_rows [simp]:
  "map kr_id (retire kid e t) = map kr_id t"
  by (simp add: retire_def comp_def if_distrib [of kr_id])

lemma prune_rows_ids [simp]: "map kr_id (prune_rows keep now t) = map kr_id t"
  by (simp add: prune_rows_def comp_def if_distrib [of kr_id])

lemma key_ids_kept [simp]:
  "key_ids (retire kid e t) = key_ids t" "key_ids (prune_rows keep now t) = key_ids t"
  by (simp_all add: key_ids_def del: set_map)

lemma holds_key_update [simp]:
  "holds_key lib kek priv (r\<lparr>kr_expires := e\<rparr>) = holds_key lib kek priv r"
  "holds_key lib kek priv (r\<lparr>kr_active := a\<rparr>) = holds_key lib kek priv r"
  by (simp_all add: holds_key_def)

lemma table_ok_retire: "table_ok lib kek t \<Longrightarrow> table_ok lib kek (retire kid e t)"
  unfolding table_ok_def retire_rows by (auto simp: retire_def)

lemma table_ok_prune: "table_ok lib kek t \<Longrightarrow> table_ok lib kek (prune_rows keep now t)"
  unfolding table_ok_def prune_rows_ids by (auto simp: prune_rows_def)

section \<open>What a load finds\<close>

lemma active_rows_set [simp]: "set (active_rows t) = {r \<in> set t. kr_active r}"
  by (simp add: active_rows_def)

lemma active_rows_distinct: "distinct (map kr_id t) \<Longrightarrow> distinct (map kr_id (active_rows t))"
  by (auto simp: active_rows_def distinct_map inj_on_def distinct_filter simp flip: rev_map)

lemma load_row_holds:
  assumes "key_laws lib" and "holds_key lib kek priv r"
  shows "load_row lib kek r = Inr \<lparr>lk_id = kr_id r, lk_private = priv, lk_public = kl_public lib priv, lk_created = kr_created r,
     lk_expires = kr_expires r\<rparr>"
  using assms by (simp add: load_row_def holds_key_def key_laws_def)

lemma load_row_id: "load_row lib kek r = Inr key \<Longrightarrow> lk_id key = kr_id r \<and> lk_public key = kl_public lib (lk_private key)"
  by (auto simp: load_row_def step_Inr_iff)

text \<open>A load that succeeds caches exactly the rows, and takes the first as the signer.\<close>

lemma load_rows_Inr:
  assumes "load_rows lib kek rs m newest = Inr (m', newest')" and "distinct (map kr_id rs)"
  shows "(\<forall>r \<in> set rs. \<exists>key. load_row lib kek r = Inr key \<and> m' (kr_id r) = Some key)
     \<and> (\<forall>kid. kid \<notin> kr_id ` set rs \<longrightarrow> m' kid = m kid)
     \<and> (case newest of Some key \<Rightarrow> newest' = newest
        | None \<Rightarrow> (case rs of [] \<Rightarrow> newest' = None | r # _ \<Rightarrow> load_row lib kek r = Inr (the newest') \<and> newest' \<noteq> None))"
  using assms
proof (induction rs arbitrary: m newest)
  case (Cons r rs)
  obtain key where key: "load_row lib kek r = Inr key"
      and rest: "load_rows lib kek rs (m(lk_id key \<mapsto> key)) (if newest = None then Some key else newest) = Inr (m', newest')"
    using Cons.prems(1) by (auto simp: step_Inr_iff)
  have "distinct (map kr_id rs)" "kr_id r \<notin> kr_id ` set rs" using Cons.prems(2) by auto
  with Cons.IH [OF rest] load_row_id [OF key] key show ?case
    by (cases newest) auto
qed (auto split: option.split)

lemma load_rows_total:
  "\<forall>r \<in> set rs. \<exists>key. load_row lib kek r = Inr key \<Longrightarrow> \<exists>x. load_rows lib kek rs m newest = Inr x"
  by (induction rs arbitrary: m newest) auto

lemma reload_ok:
  assumes "key_laws lib" and "table_ok lib (ks_kek ks) t"
  shows "\<exists>ks'. reload lib (Some t) ks = Inr ks'"
proof -
  have "\<forall>r \<in> set (active_rows t). \<exists>key. load_row lib (ks_kek ks) r = Inr key"
    using assms load_row_holds [OF assms(1)] unfolding table_ok_def by (simp, blast)
  then obtain x where "load_rows lib (ks_kek ks) (active_rows t) Map.empty None = Inr x"
    using load_rows_total by blast
  then show ?thesis by (simp add: reload_def split: prod.split)
qed

lemma reload_Inr:
  assumes "reload lib (Some t) ks = Inr ks'" and "distinct (map kr_id t)"
  shows "\<And>r. r \<in> set t \<Longrightarrow> kr_active r \<Longrightarrow> \<exists>key. load_row lib (ks_kek ks) r = Inr key \<and> ks_by_kid ks' (kr_id r) = Some key"
    and "\<And>kid key. ks_by_kid ks' kid = Some key \<Longrightarrow> \<exists>r \<in> set t. kr_active r \<and> kr_id r = kid \<and> load_row lib (ks_kek ks) r = Inr key"
    and "ks_active ks' = None \<longleftrightarrow> active_rows t = []"
    and "\<And>key. ks_active ks' = Some key \<Longrightarrow> ks_by_kid ks' (lk_id key) = Some key \<and> load_row lib (ks_kek ks) (hd (active_rows t)) = Inr key"
    and "ks_kek ks' = ks_kek ks" and "ks_overlap ks' = ks_overlap ks"
proof -
  obtain m newest where load: "load_rows lib (ks_kek ks) (active_rows t) Map.empty None = Inr (m, newest)"
      and ks': "ks' = ks\<lparr>ks_by_kid := m, ks_active := newest\<rparr>"
    using assms(1) by (auto simp: reload_def step_Inr_iff)
  note facts = load_rows_Inr [OF load active_rows_distinct [OF assms(2)]]
  show "ks_kek ks' = ks_kek ks" "ks_overlap ks' = ks_overlap ks" using ks' by simp_all
  show rows: "\<exists>key. load_row lib (ks_kek ks) r = Inr key \<and> ks_by_kid ks' (kr_id r) = Some key" if "r \<in> set t" "kr_active r" for r
    using facts that ks' by simp
  show "\<exists>r \<in> set t. kr_active r \<and> kr_id r = kid \<and> load_row lib (ks_kek ks) r = Inr key" if "ks_by_kid ks' kid = Some key" for kid key
  proof (cases "kid \<in> kr_id ` set (active_rows t)")
    case True
    then show ?thesis using rows that by fastforce
  qed (use facts that ks' in auto)
  show "ks_active ks' = None \<longleftrightarrow> active_rows t = []"
    using facts ks' by (cases "active_rows t") auto
  show "ks_by_kid ks' (lk_id key) = Some key \<and> load_row lib (ks_kek ks) (hd (active_rows t)) = Inr key" if "ks_active ks' = Some key" for key
    using facts that ks' load_row_id [of lib "ks_kek ks" "hd (active_rows t)" key] by (cases "active_rows t") auto
qed

section \<open>Processes on one table\<close>

text \<open>
  Every process has its own cache, of any age; the clock of the database moves on. \<open>Rotate\<close> and \<open>Prune\<close> are their
  statements, each followed by a load of the same process whenever that happens, if it does. With \<open>rw\<close> the secret may change:
  processes start with any, and \<open>Reencrypt\<close> is a query, kept in \<open>kw_reads\<close> with the secret of the process, and later the
  transaction over what it read; a load comes after it as after the others.
\<close>

record ('k, 'p) key_world =
  kw_now :: instant
  kw_table :: "key_row list"
  kw_procs :: "nat \<Rightarrow> ('k, 'p) keystore"
  kw_reads :: "(string \<times> (string \<times> string) list) set"

definition sealed_keys :: "key_row list \<Rightarrow> (string \<times> string) list" where
  "sealed_keys t = map (\<lambda>r. (kr_id r, kr_private r)) t"

inductive key_step ::
    "('k, 'p) key_lib \<Rightarrow> string \<Rightarrow> duration \<Rightarrow> bool \<Rightarrow> ('k, 'p) key_world \<Rightarrow> ('k, 'p) key_world \<Rightarrow> bool" for lib kek overlap rw where
  tick: "0 \<le> d \<Longrightarrow> key_step lib kek overlap rw w (w\<lparr>kw_now := kw_now w + d\<rparr>)"
| start: "k = kek \<or> rw \<Longrightarrow> key_step lib kek overlap rw w (w\<lparr>kw_procs := (kw_procs w)(i := closed_store k overlap)\<rparr>)"
| load: "reload lib (Some (kw_table w)) (kw_procs w i) = Inr ks \<Longrightarrow>
    key_step lib kek overlap rw w (w\<lparr>kw_procs := (kw_procs w)(i := ks)\<rparr>)"
| boot: "good_nonce lib (dr_nonce fr) \<Longrightarrow> bootstrap lib fr (kw_now w) up (kw_procs w i) (kw_table w) = Inr t' \<Longrightarrow>
    key_step lib kek overlap rw w (w\<lparr>kw_table := t'\<rparr>)"
| rotate: "good_nonce lib (dr_nonce fr) \<Longrightarrow> rotate_tx lib fr (kw_now w) up (kw_procs w i) (kw_table w) = Inr (kid, t') \<Longrightarrow>
    key_step lib kek overlap rw w (w\<lparr>kw_table := t'\<rparr>)"
| prune: "key_step lib kek overlap rw w (w\<lparr>kw_table := prune_rows (active_kid (kw_procs w i)) (kw_now w) (kw_table w)\<rparr>)"
| read: "rw \<Longrightarrow>
    key_step lib kek overlap rw w (w\<lparr>kw_reads := insert (ks_kek (kw_procs w i), sealed_keys (kw_table w)) (kw_reads w)\<rparr>)"
| rewrite: "rw \<Longrightarrow> (k, recs) \<in> kw_reads w \<Longrightarrow> \<forall>n \<in> set ns. good_nonce lib n \<Longrightarrow>
    rewrap lib k new recs ns (kw_table w) = Inr t' \<Longrightarrow>
    key_step lib kek overlap rw w (w\<lparr>kw_table := t', kw_procs := (kw_procs w)(i := (kw_procs w i)\<lparr>ks_kek := new\<rparr>)\<rparr>)"

text \<open>The calls themselves are runs of these steps.\<close>

lemma rotate_steps:
  assumes "good_nonce lib (dr_nonce fr)" and "rotate lib fr (kw_now w) up Some (kw_procs w i) (kw_table w) = (Inr kid, ks', t')"
  shows "(key_step lib kek overlap rw)\<^sup>*\<^sup>* w (w\<lparr>kw_table := t', kw_procs := (kw_procs w)(i := ks')\<rparr>)"
proof -
  let ?w = "w\<lparr>kw_table := t'\<rparr>"
  have tx: "rotate_tx lib fr (kw_now w) up (kw_procs w i) (kw_table w) = Inr (kid, t')"
    and loaded: "reload lib (Some (kw_table ?w)) (kw_procs ?w i) = Inr ks'"
    using assms(2) by (auto simp: rotate_def split: sum.splits)
  have "key_step lib kek overlap rw w ?w" using assms(1) tx by (rule key_step.rotate)
  moreover have "key_step lib kek overlap rw ?w (?w\<lparr>kw_procs := (kw_procs ?w)(i := ks')\<rparr>)" using loaded by (rule key_step.load)
  ultimately show ?thesis by (simp add: converse_rtranclp_into_rtranclp)
qed

lemma prune_steps:
  assumes "prune_keys lib (kw_now w) True Some (kw_procs w i) (kw_table w) = (Inr n, ks', t')"
  shows "(key_step lib kek overlap rw)\<^sup>*\<^sup>* w (w\<lparr>kw_table := t', kw_procs := (kw_procs w)(i := ks')\<rparr>)"
proof -
  let ?w = "w\<lparr>kw_table := t'\<rparr>"
  have t': "t' = prune_rows (active_kid (kw_procs w i)) (kw_now w) (kw_table w)"
    and loaded: "reload lib (Some (kw_table ?w)) (kw_procs ?w i) = Inr ks'"
    using assms by (auto simp: prune_keys_def Let_def split: sum.splits)
  have "key_step lib kek overlap rw w ?w" unfolding t' by (rule key_step.prune)
  moreover have "key_step lib kek overlap rw ?w (?w\<lparr>kw_procs := (kw_procs ?w)(i := ks')\<rparr>)" using loaded by (rule key_step.load)
  ultimately show ?thesis by (simp add: converse_rtranclp_into_rtranclp)
qed

lemma reencrypt_steps:
  assumes "\<forall>n \<in> set ns. good_nonce lib n"
    and "reencrypt lib new ns True (Some (kw_table w)) (kw_table w) Some (kw_procs w i) = (None, ks', t')"
  shows "\<exists>reads. (key_step lib kek overlap True)\<^sup>*\<^sup>* w (w\<lparr>kw_reads := reads, kw_table := t', kw_procs := (kw_procs w)(i := ks')\<rparr>)"
proof -
  let ?k = "ks_kek (kw_procs w i)" and ?ks = "(kw_procs w i)\<lparr>ks_kek := new\<rparr>"
  let ?w = "w\<lparr>kw_reads := insert (?k, sealed_keys (kw_table w)) (kw_reads w)\<rparr>"
  let ?v = "?w\<lparr>kw_table := t', kw_procs := (kw_procs w)(i := ?ks)\<rparr>"
  have tx: "rewrap lib ?k new (sealed_keys (kw_table w)) ns (kw_table ?w) = Inr t'"
    and loaded: "reload lib (Some (kw_table ?v)) (kw_procs ?v i) = Inr ks'"
    using assms(2) by (auto simp: reencrypt_def Let_def sealed_keys_def split: if_splits sum.splits)
  have "key_step lib kek overlap True w ?w" by (rule key_step.read) simp
  moreover have "key_step lib kek overlap True ?w ?v"
    using key_step.rewrite [OF _ _ assms(1) tx, where kek = kek and overlap = overlap and rw = True and i = i] by simp
  moreover have "key_step lib kek overlap True ?v (?v\<lparr>kw_procs := (kw_procs ?v)(i := ks')\<rparr>)" using loaded by (rule key_step.load)
  ultimately have "(key_step lib kek overlap True)\<^sup>*\<^sup>* w (?v\<lparr>kw_procs := (kw_procs ?v)(i := ks')\<rparr>)"
    by (meson converse_rtranclp_into_rtranclp rtranclp.rtrancl_refl)
  then show ?thesis by (intro exI [of _ "insert (?k, sealed_keys (kw_table w)) (kw_reads w)"]) simp
qed

text \<open>The configuration is shared, every row opens, and a cached signer has its row.\<close>

definition key_world_ok :: "('k, 'p) key_lib \<Rightarrow> string \<Rightarrow> duration \<Rightarrow> ('k, 'p) key_world \<Rightarrow> bool" where
  "key_world_ok lib kek overlap w \<longleftrightarrow>
     key_laws lib \<and> table_ok lib kek (kw_table w)
     \<and> (\<forall>i. ks_kek (kw_procs w i) = kek \<and> ks_overlap (kw_procs w i) = overlap
            \<and> (active_kid (kw_procs w i) \<noteq> [] \<longrightarrow> active_kid (kw_procs w i) \<in> key_ids (kw_table w)))"

lemma reload_active_kid:
  assumes "reload lib (Some t) ks = Inr ks'" and "distinct (map kr_id t)" and "active_kid ks' \<noteq> []"
  shows "active_kid ks' \<in> key_ids t"
proof -
  obtain key where "ks_active ks' = Some key" "active_kid ks' = lk_id key"
    using assms(3) by (auto simp: active_kid_def split: option.splits)
  then obtain r where "r \<in> set t" "kr_id r = active_kid ks'"
    using reload_Inr(2,4) [OF assms(1,2)] by metis
  then show ?thesis by (force simp: key_ids_def)
qed

lemma rotate_tx_Inr:
  assumes "rotate_tx lib fr now up ks t = Inr (kid, t')"
  obtains t1 where "generate lib fr now up (ks_kek ks) t = Inr (kid, t1)"
    and "t' = (if active_kid ks \<noteq> [] \<and> ks_overlap ks > 0 then retire (active_kid ks) (now + ks_overlap ks) t1 else t1)"
proof -
  obtain x where "generate lib fr now up (ks_kek ks) t = Inr x"
    using assms by (auto simp: rotate_tx_def Let_def step_Inr_iff)
  then show thesis
    using assms by (cases x) (auto simp: rotate_tx_def Let_def intro: that split: if_splits)
qed

lemma bootstrap_Inr:
  assumes "bootstrap lib fr now up ks t = Inr t'"
  obtains (there) "t' = t" and "filter kr_active t \<noteq> []"
  | (fresh) kid where "filter kr_active t = []" and "generate lib fr now up (ks_kek ks) t = Inr (kid, t')"
  using assms by (auto simp: bootstrap_def step_Inr_iff intro: there fresh split: if_splits prod.splits)

lemma generate_ids: "generate lib fr now up kek t = Inr (kid, t') \<Longrightarrow> key_ids t \<subseteq> key_ids t'"
  by (erule generate_Inr) (auto simp: key_ids_def)

text \<open>What a step does to the table: nothing, a new key with perhaps an old one retired, a pruning, or a re-encryption.\<close>

lemma key_step_cases:
  assumes "key_step lib kek overlap rw w w'"
  obtains (same) "kw_table w' = kw_table w" and "kw_now w \<le> kw_now w'"
  | (new) fr up i kid t1 where "kw_now w' = kw_now w" and "kw_procs w' = kw_procs w" and "good_nonce lib (dr_nonce fr)"
      and "generate lib fr (kw_now w) up (ks_kek (kw_procs w i)) (kw_table w) = Inr (kid, t1)"
      and "kw_table w' = t1 \<or> active_kid (kw_procs w i) \<noteq> []
         \<and> kw_table w' = retire (active_kid (kw_procs w i)) (kw_now w + ks_overlap (kw_procs w i)) t1"
  | (pruned) i where "kw_now w' = kw_now w" and "kw_table w' = prune_rows (active_kid (kw_procs w i)) (kw_now w) (kw_table w)"
  | (rewritten) k recs ns new where "rw" and "kw_now w' = kw_now w" and "(k, recs) \<in> kw_reads w" and "\<forall>n \<in> set ns. good_nonce lib n"
      and "rewrap lib k new recs ns (kw_table w) = Inr (kw_table w')"
  using assms
proof cases
  case (boot fr up i t')
  from boot(3) show thesis
  proof (rule bootstrap_Inr)
    show thesis if "t' = kw_table w" using boot(1) that by (intro same) simp_all
    show thesis if "generate lib fr (kw_now w) up (ks_kek (kw_procs w i)) (kw_table w) = Inr (kid, t')" for kid
      using boot(1,2) that by (intro new [of fr up i kid t']) simp_all
  qed
next
  case (rotate fr up i kid t')
  from rotate(3) show thesis
    by (rule rotate_tx_Inr) (use rotate in \<open>auto intro: new split: if_splits\<close>)
next
  case (rewrite k recs ns new t' i)
  then show thesis by (intro rewritten [of k recs ns new]) simp_all
qed (auto intro: same pruned)

lemma key_step_ids:
  assumes "key_step lib kek overlap False w w'"
  shows "key_ids (kw_table w) \<subseteq> key_ids (kw_table w')"
  using assms
proof (cases rule: key_step_cases)
  case (new fr up i kid t1)
  have "key_ids (kw_table w') = key_ids t1"
    using new(5) by (elim disjE conjE) simp_all
  then show ?thesis using generate_ids [OF new(4)] by simp
qed simp_all

lemma key_step_table_ok:
  assumes "key_step lib kek overlap False w w'" and "key_world_ok lib kek overlap w"
  shows "table_ok lib kek (kw_table w')"
  using assms(1)
proof (cases rule: key_step_cases)
  case (new fr up i kid t1)
  have "key_laws lib" "table_ok lib kek (kw_table w)" "ks_kek (kw_procs w i) = kek"
    using assms(2) by (simp_all add: key_world_ok_def)
  then have "table_ok lib kek t1" using generate_ok new(3,4) by metis
  then show ?thesis using new(5) table_ok_retire by metis
qed (use assms(2) in \<open>simp_all add: key_world_ok_def table_ok_prune\<close>)

lemma key_world_ok_step:
  assumes "key_step lib kek overlap False w w'" and "key_world_ok lib kek overlap w"
  shows "key_world_ok lib kek overlap w'"
proof -
  note kept = key_step_table_ok [OF assms] key_step_ids [OF assms(1)]
  have procs: "ks_kek (kw_procs w' i) = kek \<and> ks_overlap (kw_procs w' i) = overlap
      \<and> (active_kid (kw_procs w' i) \<noteq> [] \<longrightarrow> active_kid (kw_procs w' i) \<in> key_ids (kw_table w'))" for i
    using assms kept(2)
  proof (induction rule: key_step.induct)
    case (load w j ks)
    then show ?case
      using reload_Inr(5,6) [OF load(1)] reload_active_kid [OF load(1)] by (auto simp: key_world_ok_def table_ok_def)
  qed (auto simp: key_world_ok_def closed_store_def active_kid_def)
  then show ?thesis using kept(1) assms(2) by (simp add: key_world_ok_def)
qed

interpretation keystore: one_way "key_step lib kek overlap False" "key_world_ok lib kek overlap" for lib kek overlap
  by unfold_locales (rule key_world_ok_step)

section \<open>Published long enough\<close>

text \<open>
  What was sealed opens to nothing else: with another secret decryption fails. (AES-GCM authenticates, and the secrets' SHA-256 hashes
  differ.)
\<close>

definition opens_only_own :: "('k, 'p) key_lib \<Rightarrow> bool" where
  "opens_only_own lib \<longleftrightarrow>
     (\<forall>k k' n ad m x. length n = kl_nonce_size lib \<longrightarrow> kl_open lib k n ad (kl_seal lib k' n ad m) = Some x \<longrightarrow> x = m)"

text \<open>A ciphertext is the seal of a key for an id, under some secret.\<close>

definition seals :: "('k, 'p) key_lib \<Rightarrow> string \<Rightarrow> 'k \<Rightarrow> string \<Rightarrow> bool" where
  "seals lib kid priv enc \<longleftrightarrow>
     (\<exists>kek n. length n = kl_nonce_size lib \<and> enc = n @ kl_seal lib kek n (aad kid) (kl_pem lib priv))"

lemma seals_decrypt:
  "opens_only_own lib \<Longrightarrow> seals lib kid priv enc \<Longrightarrow> decrypt_aad lib enc kek (aad kid) = Some x \<Longrightarrow> x = kl_pem lib priv"
  by (auto simp: seals_def opens_only_own_def decrypt_aad_def)

lemma seals_encrypt:
  "good_nonce lib nonce \<Longrightarrow> encrypt_aad lib nonce (kl_pem lib priv) kek (aad kid) = Some enc \<Longrightarrow> seals lib kid priv enc"
  by (auto simp: seals_def encrypt_aad_def good_nonce_def)

lemma rewrap_ids: "rewrap lib kek new recs ns t = Inr t' \<Longrightarrow> map kr_id t' = map kr_id t"
proof (induction recs arbitrary: ns t)
  case (Cons x recs)
  obtain kid enc where x: "x = (kid, enc)" by fastforce
  from Cons.prems obtain c where "rewrap lib kek new recs (tl ns) (set_private kid c t) = Inr t'"
    by (auto simp: x step_Inr_iff)
  from Cons.IH [OF this] show ?case by (simp add: set_private_def comp_def if_distrib [of kr_id])
qed simp

text \<open>A re-encryption leaves every row where it is, and the seal of a key the seal of that key.\<close>

lemma rewrap_row:
  assumes "rewrap lib kek new recs ns t = Inr t'" and "opens_only_own lib" and "\<forall>n \<in> set ns. good_nonce lib n"
    and "\<forall>(kid, enc) \<in> set recs. kid = kr_id r \<longrightarrow> seals lib kid priv enc"
    and "r \<in> set t" and "seals lib (kr_id r) priv (kr_private r)"
  shows "\<exists>enc. r\<lparr>kr_private := enc\<rparr> \<in> set t' \<and> seals lib (kr_id r) priv enc"
  using assms(1,3-)
proof (induction recs arbitrary: ns t r)
  case Nil
  then show ?case by (intro exI [of _ "kr_private r"]) simp
next
  case (Cons x recs)
  obtain kid enc where x: "x = (kid, enc)" by fastforce
  obtain m c where m: "decrypt_aad lib enc kek (aad kid) = Some m"
      and c: "encrypt_aad lib (case ns of [] \<Rightarrow> None | n # _ \<Rightarrow> n) m new (aad kid) = Some c"
      and rest: "rewrap lib kek new recs (tl ns) (set_private kid c t) = Inr t'"
    using Cons.prems(1) by (auto simp: x step_Inr_iff)
  let ?r = "if kr_id r = kid then r\<lparr>kr_private := c\<rparr> else r"
  have tl: "\<forall>n \<in> set (tl ns). good_nonce lib n" using Cons.prems(2) by (cases ns) auto
  have nonce: "good_nonce lib (case ns of [] \<Rightarrow> None | n # _ \<Rightarrow> n)" using Cons.prems(2) by (cases ns) (auto simp: good_nonce_def)
  have "seals lib (kr_id r) priv (kr_private ?r)"
  proof (cases "kr_id r = kid")
    case True
    then have "m = kl_pem lib priv" using seals_decrypt [OF assms(2) _ m] Cons.prems(3) x by auto
    with seals_encrypt [OF nonce] c True show ?thesis by simp
  qed (use Cons.prems(5) in simp)
  moreover have "?r \<in> set (set_private kid c t)" using Cons.prems(4) by (auto simp: set_private_def)
  moreover have "kr_id ?r = kr_id r" by simp
  ultimately have "\<exists>enc. ?r\<lparr>kr_private := enc\<rparr> \<in> set t' \<and> seals lib (kr_id ?r) priv enc"
    using Cons.prems(3) x by (intro Cons.IH [OF rest tl]) auto
  then show ?case by (simp split: if_splits)
qed

text \<open>
  What a key that is not yet to retire at \<open>t0\<close> keeps: it stays active for the overlap, and its row and all that was read
  from it are seals of it, under whatever secret.
\<close>

definition pinned :: "('k, 'p) key_lib \<Rightarrow> duration \<Rightarrow> string \<Rightarrow> 'k \<Rightarrow> instant \<Rightarrow> ('k, 'p) key_world \<Rightarrow> bool" where
  "pinned lib overlap kid priv t0 w \<longleftrightarrow>
     opens_only_own lib \<and> distinct (map kr_id (kw_table w)) \<and> (\<forall>i. ks_overlap (kw_procs w i) = overlap) \<and> t0 \<le> kw_now w
     \<and> (\<forall>(k, recs) \<in> kw_reads w. \<forall>(kid', enc) \<in> set recs. kid' = kid \<longrightarrow> seals lib kid priv enc)
     \<and> (\<exists>r \<in> set (kw_table w). kr_id r = kid \<and> seals lib kid priv (kr_private r)
         \<and> (\<forall>e. kr_expires r = Some e \<longrightarrow> t0 + overlap \<le> e) \<and> (kr_active r \<or> t0 + overlap < kw_now w))"

lemma pinned_frame:
  assumes "key_step lib kek overlap rw w w'" and "pinned lib overlap kid priv t0 w"
  shows "distinct (map kr_id (kw_table w'))" and "ks_overlap (kw_procs w' i) = overlap" and "t0 \<le> kw_now w'"
    and "(k, recs) \<in> kw_reads w' \<Longrightarrow> (kid, enc) \<in> set recs \<Longrightarrow> seals lib kid priv enc"
proof -
  have old: "distinct (map kr_id (kw_table w))" "\<And>i. ks_overlap (kw_procs w i) = overlap" "t0 \<le> kw_now w"
      "\<And>k recs enc. (k, recs) \<in> kw_reads w \<Longrightarrow> (kid, enc) \<in> set recs \<Longrightarrow> seals lib kid priv enc"
    using assms(2) by (auto simp: pinned_def)
  from assms(1) show d: "distinct (map kr_id (kw_table w'))"
  proof (cases rule: key_step_cases)
    case (new fr up j kid' t1)
    from new(4) have "distinct (map kr_id t1)" by (rule generate_Inr) (use old(1) in \<open>auto simp: key_ids_def\<close>)
    then show ?thesis using new(5) by (elim disjE conjE) simp_all
  next
    case (rewritten k recs ns new)
    then show ?thesis using old(1) by (simp only: rewrap_ids)
  qed (use old(1) in simp_all)
  from assms(1) show "ks_overlap (kw_procs w' i) = overlap"
    by (cases rule: key_step.cases) (auto simp: closed_store_def old(2) dest: reload_Inr(6) [OF _ old(1)])
  from assms(1) old(3) show "t0 \<le> kw_now w'" by (induction rule: key_step.induct) auto
  have row: "seals lib kid priv (kr_private r)" if "r \<in> set (kw_table w)" "kr_id r = kid" for r
  proof -
    from assms(2) obtain q where "q \<in> set (kw_table w)" "kr_id q = kid" "seals lib kid priv (kr_private q)"
      unfolding pinned_def by blast
    moreover from this that old(1) have "q = r" by (simp add: distinct_map inj_on_def)
    ultimately show ?thesis by simp
  qed
  show "seals lib kid priv enc" if "(k, recs) \<in> kw_reads w'" "(kid, enc) \<in> set recs"
  proof -
    from assms(1) that(1) consider "(k, recs) \<in> kw_reads w" | "recs = sealed_keys (kw_table w)" by (cases rule: key_step.cases) auto
    then show ?thesis
    proof cases
      case 2
      with that(2) obtain r where "r \<in> set (kw_table w)" "kr_id r = kid" "kr_private r = enc" by (auto simp: sealed_keys_def)
      with row show ?thesis by blast
    qed (use old(4) that(2) in blast)
  qed
qed

lemma pinned_step:
  assumes "key_step lib kek overlap rw w w'" and "pinned lib overlap kid priv t0 w"
  shows "pinned lib overlap kid priv t0 w'"
proof -
  obtain r where r: "r \<in> set (kw_table w)" "kr_id r = kid" "seals lib kid priv (kr_private r)"
      "\<And>e. kr_expires r = Some e \<Longrightarrow> t0 + overlap \<le> e" "kr_active r \<or> t0 + overlap < kw_now w"
    and lib: "opens_only_own lib" and over: "\<And>i. ks_overlap (kw_procs w i) = overlap" and t0: "t0 \<le> kw_now w"
    using assms(2) unfolding pinned_def by blast
  have reads: "\<forall>(kid', enc) \<in> set recs. kid' = kr_id r \<longrightarrow> seals lib kid' priv enc" if "(k, recs) \<in> kw_reads w" for k recs
    using assms(2) that r(2) unfolding pinned_def by fastforce
  from assms(1) have "\<exists>r \<in> set (kw_table w'). kr_id r = kid \<and> seals lib kid priv (kr_private r)
         \<and> (\<forall>e. kr_expires r = Some e \<longrightarrow> t0 + overlap \<le> e) \<and> (kr_active r \<or> t0 + overlap < kw_now w')"
  proof (cases rule: key_step_cases)
    case same
    then show ?thesis using r by (intro bexI [of _ r]) auto
  next
    case (new fr up i kid' t1)
    have r1: "r \<in> set t1" using new(4) r(1) by (elim generate_Inr) simp
    let ?r = "if kr_id r = active_kid (kw_procs w i) \<and> kr_expires r = None then r\<lparr>kr_expires := Some (kw_now w + overlap)\<rparr> else r"
    have "?r \<in> set (retire (active_kid (kw_procs w i)) (kw_now w + overlap) t1)" using r1 by (auto simp: retire_def)
    then have "r \<in> set (kw_table w') \<or> ?r \<in> set (kw_table w')" using new(5) over r1 by auto
    then obtain q where "q \<in> set (kw_table w')" "q = r \<or> q = ?r" by blast
    moreover from this(2) have "kr_id q = kid \<and> kr_private q = kr_private r \<and> kr_active q = kr_active r
        \<and> (\<forall>e. kr_expires q = Some e \<longrightarrow> t0 + overlap \<le> e)"
      using r t0 by (auto split: if_splits)
    ultimately show ?thesis using r(3,5) new(1) by (intro bexI [of _ q]) simp_all
  next
    case (pruned i)
    let ?r = "if prunable (active_kid (kw_procs w i)) (kw_now w) r then r\<lparr>kr_active := False\<rparr> else r"
    have "?r \<in> set (kw_table w')" using pruned(2) r(1) by (auto simp: prune_rows_def)
    moreover have "kr_id ?r = kid" "kr_private ?r = kr_private r" "\<And>e. kr_expires ?r = Some e \<Longrightarrow> t0 + overlap \<le> e"
      using r by (auto split: if_splits)
    moreover have "kr_active ?r \<or> t0 + overlap < kw_now w'"
      using r(4,5) pruned(1) by (fastforce simp: prunable_def split: option.splits)
    ultimately show ?thesis using r(3) by (intro bexI [of _ ?r]) simp_all
  next
    case (rewritten k recs ns new)
    obtain enc where enc: "r\<lparr>kr_private := enc\<rparr> \<in> set (kw_table w')" "seals lib (kr_id r) priv enc"
      using rewrap_row [OF rewritten(5) lib rewritten(4) _ r(1)] reads [OF rewritten(3)] r(2,3) by blast
    then show ?thesis using r rewritten(2) by (intro bexI [OF _ enc(1)]) simp
  qed
  then show ?thesis using lib pinned_frame [OF assms] unfolding pinned_def by blast
qed

interpretation pinned: one_way "key_step lib kek overlap rw" "pinned lib overlap kid priv t0" for lib kek overlap rw kid priv t0
  by unfold_locales (rule pinned_step)

lemma pinned_published:
  assumes "pinned lib overlap kid priv t0 w" and "key_laws lib" and "kw_now w \<le> t0 + overlap"
    and "reload lib (Some (kw_table w)) (kw_procs w i) = Inr ks"
  shows "verifier_keys ks kid = Some (kl_public lib priv)"
proof -
  obtain r where r: "r \<in> set (kw_table w)" "kr_id r = kid" "seals lib kid priv (kr_private r)" "kr_active r"
    and lib: "opens_only_own lib" and d: "distinct (map kr_id (kw_table w))"
    using assms(1,3) unfolding pinned_def by force
  obtain key where key: "load_row lib (ks_kek (kw_procs w i)) r = Inr key" "ks_by_kid ks kid = Some key"
    using reload_Inr(1) [OF assms(4) d r(1,4)] r(2) by blast
  from key(1) obtain pem where pem: "decrypt_aad lib (kr_private r) (ks_kek (kw_procs w i)) (aad kid) = Some pem"
      "kl_parse lib pem = Some (lk_private key)" "lk_public key = kl_public lib (lk_private key)"
    using r(2) by (auto simp: load_row_def step_Inr_iff)
  from seals_decrypt [OF lib r(3) pem(1)] pem(2) assms(2) have "lk_private key = priv" by (simp add: key_laws_def)
  then show ?thesis using key(2) pem(3) by (simp add: verifier_keys_def)
qed

text \<open>
  C13: A key stays published for the overlap after the last moment it was not yet due to retire. Let processes with caches of any age
  do anything to the table from then on: open it, rotate, prune, load, start again with any secret, and re-encrypt, the query of a
  re-encryption at any time before its transaction. Every process that loads the table within the overlap publishes that key under its
  id, so that a token signed then keeps verifying. As long as the secret stays the same every load does succeed; a re-encryption can
  make loads fail (below), but never makes one succeed without the key.
\<close>

theorem key_published_for_overlap:
  assumes "key_laws lib" and "opens_only_own lib"
    and "distinct (map kr_id (kw_table w))" and "\<forall>i. ks_overlap (kw_procs w i) = overlap"
    and "r \<in> set (kw_table w)" and "seals lib (kr_id r) priv (kr_private r)" and "kr_active r" and "kr_expires r = None"
    and "\<forall>(k, recs) \<in> kw_reads w. \<forall>(kid, enc) \<in> set recs. kid = kr_id r \<longrightarrow> seals lib kid priv enc"
    and "(key_step lib kek overlap rw)\<^sup>*\<^sup>* w w'" and "kw_now w' \<le> kw_now w + overlap"
  shows "(\<forall>ks. reload lib (Some (kw_table w')) (kw_procs w' i) = Inr ks \<longrightarrow> verifier_keys ks (kr_id r) = Some (kl_public lib priv))
    \<and> (\<not> rw \<and> key_world_ok lib kek overlap w \<longrightarrow> (\<exists>ks. reload lib (Some (kw_table w')) (kw_procs w' i) = Inr ks))"
proof (intro conjI allI impI)
  have "pinned lib overlap (kr_id r) priv (kw_now w) w"
    unfolding pinned_def using assms(2-9) by (auto intro!: bexI [of _ r])
  with assms(10) have "pinned lib overlap (kr_id r) priv (kw_now w) w'" by (rule pinned.steps_keep)
  then show "verifier_keys ks (kr_id r) = Some (kl_public lib priv)"
    if "reload lib (Some (kw_table w')) (kw_procs w' i) = Inr ks" for ks
    using assms(1,11) that by (rule pinned_published)
  assume "\<not> rw \<and> key_world_ok lib kek overlap w"
  with assms(10) keystore.steps_keep have "key_world_ok lib kek overlap w'" by auto
  then show "\<exists>ks. reload lib (Some (kw_table w')) (kw_procs w' i) = Inr ks"
    by (intro reload_ok) (simp_all add: key_world_ok_def)
qed

section \<open>Always a signer\<close>

definition has_lasting_key :: "('k, 'p) key_lib \<Rightarrow> string \<Rightarrow> duration \<Rightarrow> ('k, 'p) key_world \<Rightarrow> bool" where
  "has_lasting_key lib kek overlap w \<longleftrightarrow>
     key_world_ok lib kek overlap w \<and> (\<exists>r \<in> set (kw_table w). kr_active r \<and> kr_expires r = None)"

text \<open>A rotation by a process whose cache is stale retires an old key, never the one it has just made.\<close>

lemma has_lasting_key_step:
  assumes "key_step lib kek overlap False w w'" and "has_lasting_key lib kek overlap w"
  shows "has_lasting_key lib kek overlap w'"
proof -
  have ok: "key_world_ok lib kek overlap w" "key_world_ok lib kek overlap w'"
    using assms key_world_ok_step [OF assms(1)] by (simp_all add: has_lasting_key_def)
  obtain r where r: "r \<in> set (kw_table w)" "kr_active r" "kr_expires r = None"
    using assms(2) by (auto simp: has_lasting_key_def)
  from assms(1) have "\<exists>r \<in> set (kw_table w'). kr_active r \<and> kr_expires r = None"
  proof (cases rule: key_step_cases)
    case (new fr up i kid t1)
    from new(4) show ?thesis
    proof (rule generate_Inr)
      fix x
      assume x: "t1 = kw_table w @ [x]" "kr_id x = kid" "kid \<notin> key_ids (kw_table w)" "kr_active x" "kr_expires x = None"
      have "active_kid (kw_procs w i) \<noteq> [] \<Longrightarrow> active_kid (kw_procs w i) \<noteq> kid"
        using ok(1) x(3) by (auto simp: key_world_ok_def)
      then show ?thesis using new(5) x by (auto simp: retire_def)
    qed
  next
    case (pruned i)
    have "\<not> prunable (active_kid (kw_procs w i)) (kw_now w) r" using r(3) by (simp add: prunable_def)
    then have "r \<in> set (kw_table w')" using pruned(2) r(1) by (force simp: prune_rows_def)
    then show ?thesis using r by blast
  qed (use r in auto)
  then show ?thesis using ok(2) by (simp add: has_lasting_key_def)
qed

interpretation lasting: one_way "key_step lib kek overlap False" "has_lasting_key lib kek overlap" for lib kek overlap
  by unfold_locales (rule has_lasting_key_step)

text \<open>
  Once a process has opened the store there is always a key to sign with: after any run of openings, rotations and
  prunings by processes with caches of any age and one secret, every load succeeds and finds a signer, and publishes its public key under its id.
\<close>

theorem signer_always_available:
  assumes "key_world_ok lib kek overlap w" and "bootstrap lib fr (kw_now w) up (kw_procs w j) (kw_table w) = Inr (kw_table w1)"
    and "good_nonce lib (dr_nonce fr)" and "filter kr_active (kw_table w) = []"
    and "w1 = w\<lparr>kw_table := kw_table w1\<rparr>" and "(key_step lib kek overlap False)\<^sup>*\<^sup>* w1 w'"
  shows "\<exists>ks priv. reload lib (Some (kw_table w')) (kw_procs w' i) = Inr ks \<and> active_signer ks = Some priv
    \<and> verifier_keys ks (active_kid ks) = Some (kl_public lib priv)"
proof -
  have "key_step lib kek overlap False w w1" using key_step.boot [OF assms(3,2)] assms(5) by simp
  then have "key_world_ok lib kek overlap w1" using assms(1) by (rule key_world_ok_step)
  moreover have "\<exists>r \<in> set (kw_table w1). kr_active r \<and> kr_expires r = None"
    using assms(2)
  proof (cases rule: bootstrap_Inr)
    case (fresh kid)
    from fresh(2) show ?thesis by (rule generate_Inr) auto
  qed (use assms(4) in simp)
  ultimately have "has_lasting_key lib kek overlap w'"
    using lasting.steps_keep [OF assms(6)] by (simp add: has_lasting_key_def)
  then have ok: "key_laws lib" "table_ok lib kek (kw_table w')" "ks_kek (kw_procs w' i) = kek" "active_rows (kw_table w') \<noteq> []"
    by (auto simp: has_lasting_key_def key_world_ok_def simp flip: set_empty)
  then obtain ks where ks: "reload lib (Some (kw_table w')) (kw_procs w' i) = Inr ks" using reload_ok by metis
  then obtain key where key: "ks_active ks = Some key" "ks_by_kid ks (lk_id key) = Some key"
      "load_row lib (ks_kek (kw_procs w' i)) (hd (active_rows (kw_table w'))) = Inr key"
    using reload_Inr(3,4) [OF ks] ok by (auto simp: table_ok_def)
  then show ?thesis using ks load_row_id [OF key(3)] by (auto simp: active_signer_def active_kid_def verifier_keys_def)
qed

section \<open>Changing the envelope key\<close>

lemma sort_key_map: "(\<And>x. f (h x) = f x) \<Longrightarrow> sort_key f (map h xs) = map h (sort_key f xs)"
proof (induction xs)
  case (Cons x xs)
  have ins: "insort_key f (h x) (map h ys) = map h (insort_key f x ys)" for ys
    by (induction ys) (simp_all add: Cons.prems)
  show ?case using Cons ins by simp
qed simp

lemma filter_map_same: "(\<And>x. P (h x) = P x) \<Longrightarrow> filter P (map h xs) = map h (filter P xs)"
  by (induction xs) simp_all

definition with_private :: "(string \<Rightarrow> string) \<Rightarrow> key_row \<Rightarrow> key_row" where
  "with_private g r = r\<lparr>kr_private := g (kr_id r)\<rparr>"

lemma with_private_simps [simp]:
  "kr_id (with_private g r) = kr_id r" "kr_created (with_private g r) = kr_created r" "kr_active (with_private g r) = kr_active r"
  "kr_expires (with_private g r) = kr_expires r" "kr_public (with_private g r) = kr_public r" "kr_private (with_private g r) = g (kr_id r)"
  by (simp_all add: with_private_def)

lemma active_rows_with_private: "active_rows (map (with_private g) t) = map (with_private g) (active_rows t)"
  by (simp add: active_rows_def sort_key_map filter_map_same rev_map)

lemma load_rows_map:
  "\<forall>r \<in> set rs. load_row lib kek' (h r) = load_row lib kek r \<Longrightarrow>
    load_rows lib kek' (map h rs) m newest = load_rows lib kek rs m newest"
  by (induction rs arbitrary: m newest) (auto simp: and_then_def split: sum.split)

text \<open>The loop succeeds, and every row it was given opens under the new key to what it held under the old one.\<close>

lemma rewrap_all:
  assumes "key_laws lib" and "distinct (map fst recs)" and "list_all2 (\<lambda>_ n. n \<noteq> None \<and> good_nonce lib n) recs ns"
    and "\<forall>(kid, enc) \<in> set recs. \<exists>m. decrypt_aad lib enc kek (aad kid) = Some m"
    and "\<forall>r \<in> set t. kr_id r \<in> fst ` set recs \<or> kr_private r = g (kr_id r)"
  shows "\<exists>g'. rewrap lib kek new recs ns t = Inr (map (with_private g') t)
    \<and> (\<forall>kid. kid \<notin> fst ` set recs \<longrightarrow> g' kid = g kid)
    \<and> (\<forall>(kid, enc) \<in> set recs. decrypt_aad lib (g' kid) new (aad kid) = decrypt_aad lib enc kek (aad kid))"
  using assms(2-5)
proof (induction recs arbitrary: ns t g)
  case Nil
  then have "map (with_private g) t = t" by (intro map_idI) (simp add: with_private_def)
  then show ?case by (intro exI [of _ g]) simp
next
  case (Cons x recs)
  obtain kid enc where x: "x = (kid, enc)" by fastforce
  obtain n ns' where ns: "ns = Some n # ns'" "length n = kl_nonce_size lib"
      "list_all2 (\<lambda>_ n. n \<noteq> None \<and> good_nonce lib n) recs ns'"
    using Cons.prems(2) by (auto simp: list_all2_Cons1 good_nonce_def)
  obtain m where m: "decrypt_aad lib enc kek (aad kid) = Some m" using Cons.prems(3) x by auto
  define c where "c = n @ kl_seal lib new n (aad kid) m"
  have c: "encrypt_aad lib (Some n) m new (aad kid) = Some c" "decrypt_aad lib c new (aad kid) = Some m"
    using decrypt_encrypt [OF assms(1), of "Some n" m new "aad kid" c] ns(2) by (simp_all add: c_def encrypt_aad_def good_nonce_def)
  have "\<forall>r \<in> set (set_private kid c t). kr_id r \<in> fst ` set recs \<or> kr_private r = (g(kid := c)) (kr_id r)"
    using Cons.prems(4) x by (auto simp: set_private_def)
  then obtain g' where g': "rewrap lib kek new recs ns' (set_private kid c t) = Inr (map (with_private g') (set_private kid c t))"
      "\<And>k. k \<notin> fst ` set recs \<Longrightarrow> g' k = (g(kid := c)) k"
      "\<forall>(kid, enc) \<in> set recs. decrypt_aad lib (g' kid) new (aad kid) = decrypt_aad lib enc kek (aad kid)"
    using Cons.IH [OF _ ns(3), of "set_private kid c t" "g(kid := c)"] Cons.prems(1,3) by auto
  have "kid \<notin> fst ` set recs" using Cons.prems(1) x by auto
  then have "g' kid = c" using g'(2) by simp
  moreover have "map (with_private g') (set_private kid c t) = map (with_private g') t"
    by (simp add: set_private_def with_private_def)
  ultimately show ?case
    using g' c m ns(1) x by (intro exI [of _ g']) (auto simp: encrypt_aad_def)
qed

text \<open>
  Re-encrypting under a new secret loses nothing. On a table nobody else writes to, with a nonce for every row, it
  succeeds; afterwards the same keys are published and the same key signs, under the new secret, and every row opens under it.
\<close>

theorem reencrypt_keeps_keys:
  assumes "key_laws lib" and "table_ok lib (ks_kek ks) t" and "new \<noteq> []"
    and "list_all2 (\<lambda>_ n. n \<noteq> None \<and> good_nonce lib n) t ns" and "reload lib (Some t) ks = Inr ks0"
  shows "\<exists>ks' t'. reencrypt lib new ns True (Some t) t Some ks = (None, ks', t') \<and> table_ok lib new t' \<and> ks_kek ks' = new
    \<and> verifier_keys ks' = verifier_keys ks0 \<and> active_signer ks' = active_signer ks0 \<and> active_kid ks' = active_kid ks0"
proof -
  let ?recs = "map (\<lambda>r. (kr_id r, kr_private r)) t"
  have opens: "\<exists>m. decrypt_aad lib (kr_private r) (ks_kek ks) (aad (kr_id r)) = Some m" if "r \<in> set t" for r
    using assms(2) that by (force simp: table_ok_def holds_key_def)
  have "distinct (map fst ?recs)"
    using assms(2) by (simp add: table_ok_def comp_def)
  moreover have "list_all2 (\<lambda>_ n. n \<noteq> None \<and> good_nonce lib n) ?recs ns"
    using assms(4) by (simp only: list_all2_map1)
  moreover have "\<forall>(kid, enc) \<in> set ?recs. \<exists>m. decrypt_aad lib enc (ks_kek ks) (aad kid) = Some m"
    using opens by force
  moreover have "\<forall>r \<in> set t. kr_id r \<in> fst ` set ?recs \<or> kr_private r = []"
    by force
  ultimately have "\<exists>g. rewrap lib (ks_kek ks) new ?recs ns t = Inr (map (with_private g) t)
      \<and> (\<forall>kid. kid \<notin> fst ` set ?recs \<longrightarrow> g kid = [])
      \<and> (\<forall>(kid, enc) \<in> set ?recs. decrypt_aad lib (g kid) new (aad kid) = decrypt_aad lib enc (ks_kek ks) (aad kid))"
    by (rule rewrap_all [OF assms(1)])
  then obtain g where g: "rewrap lib (ks_kek ks) new ?recs ns t = Inr (map (with_private g) t)"
      "\<forall>(kid, enc) \<in> set ?recs. decrypt_aad lib (g kid) new (aad kid) = decrypt_aad lib enc (ks_kek ks) (aad kid)"
    by blast
  then have same: "decrypt_aad lib (g (kr_id r)) new (aad (kr_id r)) = decrypt_aad lib (kr_private r) (ks_kek ks) (aad (kr_id r))"
    if "r \<in> set t" for r
    using that by auto
  have "load_row lib new (with_private g r) = load_row lib (ks_kek ks) r" if "r \<in> set t" for r
    using same [OF that] by (simp add: load_row_def)
  then have rows: "load_rows lib new (active_rows (map (with_private g) t)) Map.empty None
      = load_rows lib (ks_kek ks) (active_rows t) Map.empty None"
    unfolding active_rows_with_private by (intro load_rows_map) simp
  have "reload lib (Some (map (with_private g) t)) (ks\<lparr>ks_kek := new\<rparr>) = Inr (ks0\<lparr>ks_kek := new\<rparr>)"
    using assms(5) rows by (auto simp: reload_def and_then_def split: sum.splits)
  then have "reencrypt lib new ns True (Some t) t Some ks = (None, ks0\<lparr>ks_kek := new\<rparr>, map (with_private g) t)"
    using assms(3) g(1) by (simp add: reencrypt_def Let_def)
  moreover have "table_ok lib new (map (with_private g) t)"
    using assms(2) same by (fastforce simp: table_ok_def holds_key_def comp_def)
  ultimately show ?thesis
    by (auto simp: verifier_keys_def active_signer_def active_kid_def)
qed

section \<open>Rows in the wrong place\<close>

lemma load_rows_bad:
  "r \<in> set rs \<Longrightarrow> load_row lib kek r = Inl e \<Longrightarrow> \<exists>e'. load_rows lib kek rs m newest = Inl e'"
  by (induction rs arbitrary: m newest) (auto simp: and_then_def split: sum.split)

text \<open>
  A private key moved to another row is refused. When additional data binds a ciphertext, a table with an active row
  holding what was sealed for another id does not load, and the process keeps the keys it had.
\<close>

theorem moved_key_refused:
  assumes "\<And>n ad ad' m. kl_open lib (ks_kek ks) n ad' (kl_seal lib (ks_kek ks) n ad m) \<noteq> None \<Longrightarrow> ad' = ad"
    and "encrypt_aad lib (Some n) m (ks_kek ks) (aad kid) = Some (kr_private r)" and "length n = kl_nonce_size lib"
    and "r \<in> set t" and "kr_active r" and "kr_id r \<noteq> kid"
  shows "\<exists>e. reload lib (Some t) ks = Inl e"
proof -
  have "aad (kr_id r) \<noteq> aad kid" using assms(6) by (simp add: aad_def)
  then have "kl_open lib (ks_kek ks) n (aad (kr_id r)) (kl_seal lib (ks_kek ks) n (aad kid) m) = None"
    using assms(1) by blast
  moreover have "kr_private r = n @ kl_seal lib (ks_kek ks) n (aad kid) m"
    using assms(2) by (simp add: encrypt_aad_def)
  ultimately have "decrypt_aad lib (kr_private r) (ks_kek ks) (aad (kr_id r)) = None"
    using assms(3) by (simp add: decrypt_aad_def)
  then have bad: "load_row lib (ks_kek ks) r = Inl (DecryptKey (kr_id r))" by (simp add: load_row_def)
  have "r \<in> set (active_rows t)" using assms(4,5) by simp
  from load_rows_bad [OF this bad] obtain e where "load_rows lib (ks_kek ks) (active_rows t) Map.empty None = Inl e" by blast
  then show ?thesis by (simp add: reload_def)
qed

section \<open>Examples\<close>

definition framed :: "string \<Rightarrow> string" where
  "framed ad = map (\<lambda>_. CHR ''x'') ad @ CHR ''y'' # ad"

definition demo_keys :: "(string, string) key_lib" where
  "demo_keys = \<lparr>kl_nonce_size = 1, kl_seal = (\<lambda>kek n ad m. framed ad @ framed kek @ m),
     kl_open = (\<lambda>kek n ad c. if has_prefix (framed ad @ framed kek) c then Some (drop (length (framed ad @ framed kek)) c) else None),
     kl_public = (\<lambda>k. ''pub-'' @ k), kl_pem = (\<lambda>k. k), kl_parse = Some, kl_public_pem = Some\<rparr>"

lemma demo_public: "kl_public demo_keys k = ''pub-'' @ k"
  by (simp add: demo_keys_def)

lemma framed_inj:
  assumes "framed a @ x = framed b @ y"
  shows "a = b"
proof -
  have "map (\<lambda>_. CHR ''x'') a = map (\<lambda>_. CHR ''x'') b" and rest: "a @ x = b @ y"
    using split_first_sep [of "CHR ''y''" "map (\<lambda>_. CHR ''x'') a" "map (\<lambda>_. CHR ''x'') b" "a @ x" "b @ y"] assms
    by (auto simp: framed_def)
  then have "length a = length b" by (metis length_map)
  then show ?thesis using rest by simp
qed

lemma demo_binds: "kl_open demo_keys kek n ad' (kl_seal demo_keys kek n ad m) \<noteq> None \<Longrightarrow> ad' = ad"
  by (auto simp: demo_keys_def has_prefix_iff dest: framed_inj split: if_splits)

definition demo_draw :: "string \<Rightarrow> string draw" where
  "demo_draw x = \<lparr>dr_key = Some (''key-'' @ x), dr_hex = Some x, dr_nonce = Some ''n''\<rparr>"

definition after_keys :: "keystore_error + (string \<times> key_row list) \<Rightarrow> key_row list" where
  "after_keys x = (case x of Inr (_, t) \<Rightarrow> t | _ \<Rightarrow> [])"

definition loaded_store :: "key_row list \<Rightarrow> (string, string) keystore" where
  "loaded_store t = (case reload demo_keys (Some t) (closed_store ''secret'' 100) of Inr ks \<Rightarrow> ks | _ \<Rightarrow> closed_store ''secret'' 100)"

definition one_key :: "key_row list" where
  "one_key = after_keys (generate demo_keys (demo_draw ''a'') 0 True ''secret'' [])"

definition two_keys :: "key_row list" where
  "two_keys = after_keys (rotate_tx demo_keys (demo_draw ''b'') 10 True (loaded_store one_key) one_key)"

definition demo_world :: "instant \<Rightarrow> key_row list \<Rightarrow> (string, string) keystore \<Rightarrow> (string, string) key_world" where
  "demo_world now t ks = \<lparr>kw_now = now, kw_table = t, kw_procs = (\<lambda>_. ks), kw_reads = {}\<rparr>"

lemma demo_laws: "key_laws demo_keys"
  using has_prefix_append [of "framed ad @ framed kek" m for ad kek m] by (simp add: key_laws_def demo_keys_def)

lemma demo_opens: "opens_only_own demo_keys"
proof -
  have "x = m" if "has_prefix (framed ad @ framed k) (framed ad @ framed k' @ m)"
      "x = drop (length (framed ad @ framed k)) (framed ad @ framed k' @ m)" for k k' ad m x :: string
  proof -
    from that(1) obtain y where "framed k' @ m = framed k @ y" by (auto simp: has_prefix_iff)
    then have "k' = k" by (rule framed_inj)
    with that(2) show ?thesis by simp
  qed
  then show ?thesis by (fastforce simp: opens_only_own_def demo_keys_def split: if_splits)
qed

lemma demo_nonce: "good_nonce demo_keys (dr_nonce (demo_draw x))"
  by (simp add: good_nonce_def demo_draw_def demo_keys_def)

lemma demo_table_ok: "table_ok demo_keys ''secret'' one_key"
proof -
  have "generate demo_keys (demo_draw ''a'') 0 True ''secret'' [] = Inr (''rk_a'', one_key)" by code_simp
  then show ?thesis
    using generate_ok [OF demo_laws demo_nonce, of "''secret''" "[]"] by (simp add: table_ok_def)
qed

lemma demo_row:
  "hd one_key \<in> set one_key" "kr_id (hd one_key) = ''rk_a''" "kr_active (hd one_key)" "kr_expires (hd one_key) = None"
  "holds_key demo_keys ''secret'' ''key-a'' (hd one_key)"
  by code_simp+

lemma demo_world_ok: "key_world_ok demo_keys ''secret'' 100 (demo_world 10 one_key (loaded_store one_key))"
proof -
  have "ks_kek (loaded_store one_key) = ''secret'' \<and> ks_overlap (loaded_store one_key) = 100
     \<and> active_kid (loaded_store one_key) \<in> key_ids one_key" by code_simp
  then show ?thesis by (simp add: key_world_ok_def demo_world_def demo_laws demo_table_ok)
qed

text \<open>A rotation, ninety ticks, and a re-encryption under another secret, whose process then loads the table.\<close>

definition other_keys :: "key_row list" where
  "other_keys = (case rewrap demo_keys ''secret'' ''other'' (sealed_keys two_keys) [Some ''n'', Some ''m''] two_keys of
     Inr t \<Rightarrow> t | _ \<Rightarrow> [])"

lemma demo_seals: "seals demo_keys ''rk_a'' ''key-a'' (kr_private (hd one_key))"
proof (rule seals_encrypt)
  show "good_nonce demo_keys (Some ''n'')" by (simp add: good_nonce_def demo_keys_def)
  show "encrypt_aad demo_keys (Some ''n'') (kl_pem demo_keys ''key-a'') ''secret'' (aad ''rk_a'') = Some (kr_private (hd one_key))"
    by code_simp
qed

theorem key_published_for_overlap_witness:
  "\<exists>ks. reload demo_keys (Some other_keys) ((loaded_store one_key)\<lparr>ks_kek := ''other''\<rparr>) = Inr ks \<and> verifier_keys ks ''rk_a'' = Some ''pub-key-a''"
proof -
  let ?step = "key_step demo_keys ''secret'' 100 True"
  let ?w = "demo_world 10 one_key (loaded_store one_key)"
  let ?w2 = "?w\<lparr>kw_table := two_keys\<rparr>"
  let ?w3 = "?w2\<lparr>kw_now := 100\<rparr>"
  let ?w4 = "?w3\<lparr>kw_reads := {(''secret'', sealed_keys two_keys)}\<rparr>"
  let ?w5 = "?w4\<lparr>kw_table := other_keys, kw_procs := (kw_procs ?w)(0 := (loaded_store one_key)\<lparr>ks_kek := ''other''\<rparr>)\<rparr>"
  have kek: "ks_kek (loaded_store one_key) = ''secret''" "ks_overlap (loaded_store one_key) = 100" by code_simp+
  have "rotate_tx demo_keys (demo_draw ''b'') 10 True (loaded_store one_key) one_key = Inr (''rk_b'', two_keys)" by code_simp
  then have "?step ?w ?w2"
    using key_step.rotate [OF demo_nonce, of "''b''" ?w True 0 "''rk_b''" two_keys] by (simp add: demo_world_def)
  moreover have "?step ?w2 ?w3"
    using key_step.tick [of 90 demo_keys "''secret''" 100 True ?w2] by (simp add: demo_world_def)
  moreover have "?step ?w3 ?w4"
    using key_step.read [of True demo_keys "''secret''" 100 ?w3 0] kek by (simp add: demo_world_def)
  moreover have "?step ?w4 ?w5"
  proof -
    have run: "rewrap demo_keys ''secret'' ''other'' (sealed_keys two_keys) [Some ''n'', Some ''m''] two_keys = Inr other_keys" by code_simp
    have nonces: "\<forall>n \<in> set [Some ''n'', Some ''m'']. good_nonce demo_keys n" by (simp add: good_nonce_def demo_keys_def)
    show ?thesis
      using key_step.rewrite [where rw = True and k = "''secret''" and recs = "sealed_keys two_keys" and w = ?w4 and new = "''other''"
          and kek = "''secret''" and overlap = 100 and i = 0, OF _ _ nonces] run by (simp add: demo_world_def)
  qed
  ultimately have run: "?step\<^sup>*\<^sup>* ?w ?w5"
    by (meson converse_rtranclp_into_rtranclp rtranclp.rtrancl_refl)
  have "distinct (map kr_id (kw_table ?w))" using demo_table_ok by (simp add: demo_world_def table_ok_def)
  moreover have "\<forall>i. ks_overlap (kw_procs ?w i) = 100" by (simp add: demo_world_def kek)
  moreover have "hd one_key \<in> set (kw_table ?w)" using demo_row(1) by (simp add: demo_world_def)
  moreover have "seals demo_keys (kr_id (hd one_key)) ''key-a'' (kr_private (hd one_key))" using demo_seals demo_row(2) by simp
  moreover have "kw_now ?w5 \<le> kw_now ?w + 100" by (simp add: demo_world_def)
  moreover have "\<exists>ks. reload demo_keys (Some other_keys) ((loaded_store one_key)\<lparr>ks_kek := ''other''\<rparr>) = Inr ks"
  proof -
    have "case reload demo_keys (Some other_keys) ((loaded_store one_key)\<lparr>ks_kek := ''other''\<rparr>) of Inl _ \<Rightarrow> False | Inr _ \<Rightarrow> True"
      by code_simp
    then show ?thesis by (auto split: sum.splits)
  qed
  ultimately show ?thesis
    using key_published_for_overlap [OF demo_laws demo_opens _ _ _ _ _ _ _ run, of "hd one_key" "''key-a''" 0] demo_row
    by (simp add: demo_world_def demo_public) blast
qed

theorem signer_always_available_witness:
  "\<exists>ks priv. reload demo_keys (Some one_key) (closed_store ''secret'' 100) = Inr ks \<and> active_signer ks = Some priv
    \<and> verifier_keys ks (active_kid ks) = Some (''pub-'' @ priv)"
proof -
  let ?w = "demo_world 0 [] (closed_store ''secret'' 100)" and ?w1 = "demo_world 0 one_key (closed_store ''secret'' 100)"
  have "key_world_ok demo_keys ''secret'' 100 ?w"
    by (simp add: key_world_ok_def demo_world_def closed_store_def active_kid_def demo_laws table_ok_def)
  moreover have "bootstrap demo_keys (demo_draw ''a'') 0 True (closed_store ''secret'' 100) [] = Inr one_key" by code_simp
  moreover have "(key_step demo_keys ''secret'' 100 False)\<^sup>*\<^sup>* ?w1 ?w1" by simp
  ultimately show ?thesis
    using signer_always_available [of demo_keys "''secret''" 100 ?w "demo_draw ''a''" True 0 ?w1 ?w1 0] demo_nonce
    by (simp add: demo_world_def demo_public)
qed

theorem reencrypt_keeps_keys_witness:
  "\<exists>ks' t'. reencrypt demo_keys ''other'' [Some ''n''] True (Some one_key) one_key Some (loaded_store one_key) = (None, ks', t')
    \<and> table_ok demo_keys ''other'' t' \<and> verifier_keys ks' = verifier_keys (loaded_store one_key)"
proof -
  obtain ks0 where ks0: "reload demo_keys (Some one_key) (loaded_store one_key) = Inr ks0"
    using reload_ok [OF demo_laws, of "loaded_store one_key" one_key] demo_table_ok demo_world_ok
    by (auto simp: key_world_ok_def demo_world_def)
  moreover obtain ks1 where "reload demo_keys (Some one_key) (closed_store ''secret'' 100) = Inr ks1"
    using reload_ok [OF demo_laws, of "closed_store ''secret'' 100" one_key] demo_table_ok by (auto simp: closed_store_def)
  then have "ks0 = loaded_store one_key"
    using ks0 by (auto simp: loaded_store_def reload_def closed_store_def and_then_def split: sum.splits)
  moreover have "ks_kek (loaded_store one_key) = ''secret''" by code_simp
  moreover have "list_all2 (\<lambda>_ n. n \<noteq> None \<and> good_nonce demo_keys n) one_key [Some ''n'']"
  proof -
    have one: "one_key = [hd one_key]" by code_simp
    have "list_all2 (\<lambda>_ n. n \<noteq> None \<and> good_nonce demo_keys n) [x] [Some ''n'']" for x :: key_row
      by (simp add: good_nonce_def demo_keys_def)
    then show ?thesis by (subst one) (simp only:)
  qed
  ultimately show ?thesis
    using reencrypt_keeps_keys [OF demo_laws, of "loaded_store one_key" one_key "''other''" "[Some ''n'']" ks0] demo_table_ok
    by auto
qed

theorem moved_key_refused_witness:
  "\<exists>e. reload demo_keys (Some [hd one_key, (hd one_key)\<lparr>kr_id := ''rk_c''\<rparr>]) (closed_store ''secret'' 100) = Inl e"
proof (rule moved_key_refused)
  show "kr_active ((hd one_key)\<lparr>kr_id := ''rk_c''\<rparr>)" using demo_row by simp
  show "encrypt_aad demo_keys (Some ''n'') ''key-a'' (ks_kek (closed_store ''secret'' 100 :: (string, string) keystore)) (aad ''rk_a'')
      = Some (kr_private ((hd one_key)\<lparr>kr_id := ''rk_c''\<rparr>))" by code_simp
  show "kl_open demo_keys kek n ad' (kl_seal demo_keys kek n ad m) \<noteq> None \<Longrightarrow> ad' = ad" for kek n ad ad' m
    by (rule demo_binds)
  show "length ''n'' = kl_nonce_size demo_keys" by (simp add: demo_keys_def)
qed simp_all

section \<open>Rotations that cross\<close>

text \<open>
  Two processes that both sign with \<open>rk_a\<close> rotate one after the other without loading in between: the second finds nothing
  left to retire, and the key of the first stays in force for good, with no time of retirement, though nobody signs with it.
\<close>

lemma crossed_rotations_leave_a_key:
  "let t = after_keys (rotate_tx demo_keys (demo_draw ''c'') 20 True (loaded_store one_key) two_keys)
   in map (\<lambda>r. (kr_id r, kr_active r, kr_expires r)) t = [(''rk_a'', True, Some 110), (''rk_b'', True, None), (''rk_c'', True, None)]
      \<and> active_kid (loaded_store t) = ''rk_c''"
  by code_simp

text \<open>With an overlap of zero a rotated key is published for ever instead of not at all.\<close>

lemma zero_overlap_never_retires:
  "rotate_tx lib fr now up ks t = Inr (kid, t') \<Longrightarrow> ks_overlap ks \<le> 0 \<Longrightarrow> r \<in> set t \<Longrightarrow> r \<in> set t'"
  by (erule rotate_tx_Inr, erule generate_Inr) (simp split: if_splits)

text \<open>
  The rows are read before the transaction that rewrites them. A rotation in between leaves its key under the old secret and all others
  under the new one: no load succeeds any more, with either secret.
\<close>

lemma rotation_during_reencrypt_locks_out:
  "case reencrypt demo_keys ''other'' [Some ''n''] True (Some one_key) two_keys Some (loaded_store one_key) of (e, ks, t) \<Rightarrow>
     e = Some (DecryptKey ''rk_b'')
     \<and> (case reload demo_keys (Some t) (closed_store ''other'' 100) of Inl e \<Rightarrow> e = DecryptKey ''rk_b'' | Inr _ \<Rightarrow> False)
     \<and> (case reload demo_keys (Some t) (closed_store ''secret'' 100) of Inl e \<Rightarrow> e = DecryptKey ''rk_a'' | Inr _ \<Rightarrow> False)"
  by code_simp

end
