(* ===== verification/Passwords.thy ===== *)
theory Passwords
  imports Jwks Resources Filepath
begin

text \<open>
  \<open>internal/credential/password.go\<close>: passwords and client secrets as Argon2id strings, with what the code
  uses of \<open>encoding/base64\<close> (the unpadded standard alphabet) and of \<open>fmt.Sscanf\<close>. \<open>internal/crypto/random.go\<close>:
  random bytes as hexadecimal or alphanumeric text.

  Argon2 is not part of the repository: it is an argument of the password, the salt, the passes, the
  memory, the lanes and the key length, \<^const>\<open>None\<close> where \<open>argon2.IDKey\<close> panics. Bytes are numbers below 256.
\<close>

section \<open>base64.RawStdEncoding\<close>

definition std_char :: "char \<Rightarrow> char" where
  "std_char c = (if c = CHR ''-'' then CHR ''+'' else if c = CHR ''_'' then CHR ''/'' else c)"

definition url_char :: "char \<Rightarrow> char" where
  "url_char c = (if c = CHR ''+'' then CHR ''-'' else if c = CHR ''/'' then CHR ''_'' else c)"

definition std_encode :: "nat list \<Rightarrow> string" where
  "std_encode bs = map std_char (b64_encode bs)"

definition std_decode :: "string \<Rightarrow> nat list option" where
  "std_decode s =
     (if CHR ''-'' \<in> set s \<or> CHR ''_'' \<in> set s then None else b64_decode (map url_char s))"

definition byte_list :: "nat list \<Rightarrow> bool" where
  "byte_list bs \<longleftrightarrow> (\<forall>b \<in> set bs. b < 256)"

lemma b64_encode_alphabet: "byte_list bs \<Longrightarrow> set (b64_encode bs) \<subseteq> set b64_alphabet"
  using b64_digits_range [of bs] b64_alphabet_facts
  by (force simp: byte_list_def b64_encode_def b64_char_def)

lemma alphabet_turns: "c \<in> set b64_alphabet \<Longrightarrow> url_char (std_char c) = c \<and> std_char c \<noteq> CHR ''-''
    \<and> std_char c \<noteq> CHR ''_'' \<and> std_char c \<noteq> CHR ''$''"
  unfolding b64_alphabet_def std_char_def url_char_def by auto

lemma std_chars:
  assumes "byte_list bs" and "c \<in> set (std_encode bs)"
  shows "c \<noteq> CHR ''-'' \<and> c \<noteq> CHR ''_'' \<and> c \<noteq> CHR ''$''"
  using assms b64_encode_alphabet [OF assms(1)] alphabet_turns by (auto simp: std_encode_def)

lemma std_roundtrip: "byte_list bs \<Longrightarrow> std_decode (std_encode bs) = Some bs"
proof -
  assume bs: "byte_list bs"
  have "map url_char (std_encode bs) = b64_encode bs"
    using b64_encode_alphabet [OF bs] alphabet_turns by (auto simp: std_encode_def intro!: map_idI)
  then show ?thesis
    using bs std_chars [OF bs] b64_roundtrip [of bs] by (auto simp: std_decode_def byte_list_def)
qed

section \<open>fmt.Sscanf\<close>

definition digit_value :: "char \<Rightarrow> nat" where
  "digit_value c = length (takeWhile (\<lambda>d. d \<noteq> c) ''0123456789'')"

definition dec_value :: "string \<Rightarrow> nat" where
  "dec_value = foldl (\<lambda>n c. n * 10 + digit_value c) 0"

text \<open>White space before a number is skipped; a newline among it is an error.\<close>

fun skip_space :: "nat \<Rightarrow> string \<Rightarrow> string option" where
  "skip_space 0 s = Some s"
| "skip_space (Suc n) s =
     (case space_len s of
        0 \<Rightarrow> Some s
      | Suc k \<Rightarrow> if hd s = CHR 0x0A then None else skip_space n (drop (Suc k) s))"

text \<open>\<open>%d\<close> into an unsigned integer below \<open>bound\<close>: the value and the rest of the text.\<close>

definition scan_uint :: "nat \<Rightarrow> string \<Rightarrow> (nat \<times> string) option" where
  "scan_uint bound s =
     (case skip_space (length s) s of
        None \<Rightarrow> None
      | Some t \<Rightarrow>
          let ds = takeWhile is_digit t
          in if ds = [] \<or> dec_value ds \<ge> bound then None else Some (dec_value ds, dropWhile is_digit t))"

definition scan_text :: "string \<Rightarrow> string \<Rightarrow> string option" where
  "scan_text p s = (if has_prefix p s then Some (drop (length p) s) else None)"

text \<open>The scan of \<open>m=%d,t=%d,p=%d\<close>; what follows is not looked at.\<close>

definition scan_params :: "string \<Rightarrow> (nat \<times> nat \<times> nat) option" where
  "scan_params s0 =
     Option.bind (scan_text ''m='' s0) (\<lambda>s1.
     Option.bind (scan_uint (2 ^ 32) s1) (\<lambda>(m, s2).
     Option.bind (scan_text '',t='' s2) (\<lambda>s3.
     Option.bind (scan_uint (2 ^ 32) s3) (\<lambda>(t, s4).
     Option.bind (scan_text '',p='' s4) (\<lambda>s5.
     Option.bind (scan_uint (2 ^ 8) s5) (\<lambda>(p, s6). Some (m, t, p)))))))"

section \<open>Passwords\<close>

type_synonym argon = "string \<Rightarrow> nat list \<Rightarrow> nat \<Rightarrow> nat \<Rightarrow> nat \<Rightarrow> nat \<Rightarrow> nat list option"

definition argon_version :: nat where "argon_version = 19"
definition argon_time :: nat where "argon_time = 3"
definition argon_memory :: nat where "argon_memory = 64 * 1024"
definition argon_threads :: nat where "argon_threads = 4"
definition argon_key_len :: nat where "argon_key_len = 32"
definition argon_salt_len :: nat where "argon_salt_len = 16"

datatype password_error =
    SaltFailed
  | HashPanic
  | BadFormat
  | BadParameters
  | BadSalt
  | BadHash

text \<open>The salt is what \<open>rand.Read\<close> fills sixteen bytes with.\<close>

definition hash_password :: "argon \<Rightarrow> nat list option \<Rightarrow> string \<Rightarrow> password_error + string" where
  "hash_password argon rnd password =
     and_then (need SaltFailed rnd) (\<lambda>salt.
     and_then (need HashPanic (argon password salt argon_time argon_memory argon_threads argon_key_len)) (\<lambda>hash.
       Inr (''$argon2id$v='' @ nat_str argon_version @ ''$m='' @ nat_str argon_memory @ '',t='' @ nat_str argon_time
            @ '',p='' @ nat_str argon_threads @ ''$'' @ std_encode salt @ ''$'' @ std_encode hash)))"

definition verify_password :: "argon \<Rightarrow> string \<Rightarrow> string \<Rightarrow> password_error + bool" where
  "verify_password argon password encoded =
     (let parts = split_on (CHR ''$'') encoded
      in if length parts \<noteq> 6 then Inl BadFormat
         else and_then (need BadParameters (scan_params (parts ! 3))) (\<lambda>(memory, t, threads).
              and_then (need BadSalt (std_decode (parts ! 4))) (\<lambda>salt.
              and_then (need BadHash (std_decode (parts ! 5))) (\<lambda>expected.
              and_then (need HashPanic (argon password salt t memory threads (length expected))) (\<lambda>hash.
                Inr (hash = expected))))))"

section \<open>Random text\<close>

definition hex_digits :: string where
  "hex_digits = ''0123456789abcdef''"

definition hex_encode :: "nat list \<Rightarrow> string" where
  "hex_encode bs = concat (map (\<lambda>b. [hex_digits ! (b div 16), hex_digits ! (b mod 16)]) bs)"

definition random_hex :: "nat list option \<Rightarrow> string option" where
  "random_hex rnd = map_option hex_encode rnd"

definition random_charset :: string where
  "random_charset = ''abcdefghijklmnopqrstuvwxyzABCDEFGHIJKLMNOPQRSTUVWXYZ0123456789''"

definition random_string :: "nat list option \<Rightarrow> string option" where
  "random_string rnd = map_option (map (\<lambda>b. random_charset ! (b mod length random_charset))) rnd"

lemma hex_digits_length: "length hex_digits = 16"
  by (simp add: hex_digits_def)

lemma hex_encode_chars: "byte_list bs \<Longrightarrow> set (hex_encode bs) \<subseteq> set hex_digits"
proof
  fix c assume bs: "byte_list bs" and c: "c \<in> set (hex_encode bs)"
  then obtain b where b: "b \<in> set bs" "c = hex_digits ! (b div 16) \<or> c = hex_digits ! (b mod 16)"
    by (auto simp: hex_encode_def)
  then have "b div 16 < length hex_digits" "b mod 16 < length hex_digits"
    using bs by (auto simp: byte_list_def hex_digits_length less_mult_imp_div_less)
  with b(2) show "c \<in> set hex_digits" by (auto simp del: nth_mem intro: nth_mem)
qed

lemma hex_encode_no_dot: "byte_list bs \<Longrightarrow> CHR ''.'' \<notin> set (hex_encode bs) \<and> CHR '':'' \<notin> set (hex_encode bs)"
  using hex_encode_chars [of bs] by (auto simp: hex_digits_def)

lemma hex_encode_Cons: "hex_encode (b # bs) = hex_digits ! (b div 16) # hex_digits ! (b mod 16) # hex_encode bs"
  by (simp add: hex_encode_def)

lemma hex_encode_Nil: "hex_encode [] = []"
  by (simp add: hex_encode_def)

lemma hex_digit_inj: "i < 16 \<Longrightarrow> j < 16 \<Longrightarrow> hex_digits ! i = hex_digits ! j \<Longrightarrow> i = j"
  using nth_eq_iff_index_eq [of hex_digits i j] by (simp add: hex_digits_def)

lemma hex_encode_inj: "byte_list xs \<Longrightarrow> byte_list ys \<Longrightarrow> hex_encode xs = hex_encode ys \<Longrightarrow> xs = ys"
proof (induction xs arbitrary: ys)
  case Nil
  then show ?case by (cases ys) (simp_all add: hex_encode_Cons hex_encode_Nil)
next
  case (Cons x xs)
  then obtain y zs where ys: "ys = y # zs" by (cases ys) (simp_all add: hex_encode_Cons hex_encode_Nil)
  have r: "x div 16 < 16" "x mod 16 < 16" "y div 16 < 16" "y mod 16 < 16"
    using Cons.prems ys by (simp_all add: byte_list_def less_mult_imp_div_less)
  have e: "hex_digits ! (x div 16) = hex_digits ! (y div 16)" "hex_digits ! (x mod 16) = hex_digits ! (y mod 16)"
      "hex_encode xs = hex_encode zs"
    using Cons.prems(3) by (simp_all add: ys hex_encode_Cons)
  have "x = y"
    using hex_digit_inj [OF r(1,3) e(1)] hex_digit_inj [OF r(2,4) e(2)] by (metis div_mult_mod_eq)
  moreover have "xs = zs" using Cons.IH [OF _ _ e(3)] Cons.prems ys by (simp add: byte_list_def)
  ultimately show ?case by (simp add: ys)
qed

section \<open>What is hashed verifies\<close>

lemma position_nth: "distinct xs \<Longrightarrow> i < length xs \<Longrightarrow> length (takeWhile (\<lambda>x. x \<noteq> xs ! i) xs) = i"
  using takeWhile_eq_take_P_nth [of i xs "\<lambda>x. x \<noteq> xs ! i"] by (auto simp: nth_eq_iff_index_eq)

lemma digit_nth: "d < 10 \<Longrightarrow> digit_value (''0123456789'' ! d) = d \<and> is_digit (''0123456789'' ! d)"
  using position_nth [of "''0123456789''" d] nth_mem [of d "''0123456789''"]
  by (simp add: digit_value_def is_digit_def)

lemma dec_value_snoc: "dec_value (ds @ [c]) = dec_value ds * 10 + digit_value c"
  by (simp add: dec_value_def)

lemma nat_str_value: "dec_value (nat_str n) = n \<and> list_all is_digit (nat_str n) \<and> nat_str n \<noteq> []"
proof (induction n rule: nat_str.induct)
  case (1 n)
  show ?case
  proof (cases "n < 10")
    case True
    then show ?thesis
      using digit_nth [OF True] by (simp add: nat_str.simps [of n] dec_value_def)
  next
    case False
    have "n mod 10 < 10" by simp
    then show ?thesis
      using False "1.IH" digit_nth [of "n mod 10"]
      by (simp add: nat_str.simps [of n] dec_value_snoc del: mod_less_divisor)
  qed
qed

lemma digit_not_space: "is_digit c \<Longrightarrow> space_len (c # s) = 0"
proof -
  assume c: "is_digit c"
  have "c \<notin> set ascii_spaces" using c unfolding is_digit_def ascii_spaces_def by auto
  moreover have "\<not> has_prefix p (c # s)" if p: "p \<in> set wide_spaces" for p
  proof -
    have "p \<noteq> [] \<and> hd p \<noteq> c" using p c unfolding wide_spaces_def is_digit_def by auto
    then show ?thesis by (cases p) (auto simp: has_prefix_def)
  qed
  ultimately show ?thesis by (simp add: space_len_eq_0_iff)
qed

lemma scan_uint_nat_str:
  assumes "n < bound" and "r = [] \<or> \<not> is_digit (hd r)"
  shows "scan_uint bound (nat_str n @ r) = Some (n, r)"
proof -
  have n: "dec_value (nat_str n) = n" "list_all is_digit (nat_str n)" "nat_str n \<noteq> []"
    using nat_str_value by simp_all
  then obtain c cs where c: "nat_str n = c # cs" "is_digit c" by (cases "nat_str n") auto
  have "skip_space (length (nat_str n @ r)) (nat_str n @ r) = Some (nat_str n @ r)"
    using c digit_not_space [OF c(2)] by simp
  moreover have "takeWhile is_digit (nat_str n @ r) = nat_str n" "dropWhile is_digit (nat_str n @ r) = r"
    using n(2) assms(2) by (cases r; simp add: takeWhile_append dropWhile_append list_all_iff)+
  ultimately show ?thesis using assms(1) n by (simp add: scan_uint_def)
qed

lemma scan_text_append [simp]: "scan_text p (p @ r) = Some r"
  by (simp add: scan_text_def)

lemma scan_params_text:
  assumes "m < 2 ^ 32" and "t < 2 ^ 32" and "p < 2 ^ 8"
  shows "scan_params (''m='' @ nat_str m @ '',t='' @ nat_str t @ '',p='' @ nat_str p) = Some (m, t, p)"
proof -
  have "scan_uint (2 ^ 32) (nat_str m @ '',t='' @ nat_str t @ '',p='' @ nat_str p)
      = Some (m, '',t='' @ nat_str t @ '',p='' @ nat_str p)"
    by (rule scan_uint_nat_str [OF assms(1)]) (simp add: is_digit_def)
  moreover have "scan_uint (2 ^ 32) (nat_str t @ '',p='' @ nat_str p) = Some (t, '',p='' @ nat_str p)"
    by (rule scan_uint_nat_str [OF assms(2)]) (simp add: is_digit_def)
  moreover have "scan_uint (2 ^ 8) (nat_str p) = Some (p, [])"
    using scan_uint_nat_str [OF assms(3), of "[]"] by simp
  ultimately show ?thesis unfolding scan_params_def by (simp only: scan_text_append bind.simps prod.case)
qed

lemma nat_str_no_dollar: "CHR ''$'' \<notin> set (nat_str n)"
proof
  assume "CHR ''$'' \<in> set (nat_str n)"
  then have "is_digit (CHR ''$'')" using nat_str_value [of n] by (simp only: list_all_iff)
  then show False by (simp add: is_digit_def)
qed

text \<open>
  A stored password verifies exactly the passwords that Argon2 maps to the stored key: the string written by
  \<open>HashPassword\<close> always parses, and the salt, the cost parameters and the key read back from it are those it was
  written with. \<open>argon2.IDKey\<close> is assumed to return a key of bytes.
\<close>

theorem password_roundtrip:
  assumes salt: "byte_list salt"
    and argon: "\<And>p k. argon p salt argon_time argon_memory argon_threads argon_key_len = Some k
                  \<Longrightarrow> byte_list k \<and> length k = argon_key_len"
    and hashed: "hash_password argon (Some salt) password = Inr enc"
  shows "verify_password argon attempt enc =
     (case argon attempt salt argon_time argon_memory argon_threads argon_key_len of
        None \<Rightarrow> Inl HashPanic
      | Some k \<Rightarrow> Inr (argon password salt argon_time argon_memory argon_threads argon_key_len = Some k))"
proof -
  obtain key where key: "argon password salt argon_time argon_memory argon_threads argon_key_len = Some key"
    and enc: "enc = ''$argon2id$v='' @ nat_str argon_version @ ''$m='' @ nat_str argon_memory @ '',t='' @ nat_str argon_time
            @ '',p='' @ nat_str argon_threads @ ''$'' @ std_encode salt @ ''$'' @ std_encode key"
    using hashed by (auto simp: hash_password_def step_Inr_iff)
  have k: "byte_list key" "length key = argon_key_len" using argon [OF key] by auto
  define params where
    "params = ''m='' @ nat_str argon_memory @ '',t='' @ nat_str argon_time @ '',p='' @ nat_str argon_threads"
  have no_dollar: "CHR ''$'' \<notin> set (''v='' @ nat_str argon_version)" "CHR ''$'' \<notin> set params"
      "CHR ''$'' \<notin> set (std_encode salt)" "CHR ''$'' \<notin> set (std_encode key)"
    using std_chars [OF salt] std_chars [OF k(1)] by (auto simp: params_def nat_str_no_dollar)
  have "enc = [] @ CHR ''$'' # ''argon2id'' @ CHR ''$'' # (''v='' @ nat_str argon_version) @ CHR ''$'' # params
      @ CHR ''$'' # std_encode salt @ CHR ''$'' # std_encode key"
    by (simp add: enc params_def)
  then have parts: "split_on (CHR ''$'') enc =
      [[], ''argon2id'', ''v='' @ nat_str argon_version, params, std_encode salt, std_encode key]"
    using no_dollar by (simp only: split_on_append split_on_word) (simp add: split_on_append split_on_word)
  have "scan_params params = Some (argon_memory, argon_time, argon_threads)"
    unfolding params_def by (rule scan_params_text) (simp_all add: argon_memory_def argon_time_def argon_threads_def)
  then show ?thesis
    using parts k salt key by (auto simp: verify_password_def std_roundtrip split: option.split)
qed

text \<open>A toy key derivation: 32 copies of the length of the password plus the number of salt bytes.\<close>

definition demo_argon :: argon where
  "demo_argon p salt t m lanes n =
     (if t < 1 \<or> lanes < 1 then None else Some (replicate n ((length p + length salt) mod 256)))"

theorem password_roundtrip_witness:
  "\<exists>enc. hash_password demo_argon (Some [1, 2, 3]) ''secret-1'' = Inr enc \<and>
     verify_password demo_argon ''secret-1'' enc = Inr True \<and> verify_password demo_argon ''secret'' enc = Inr False"
proof -
  obtain enc where t: "hash_password demo_argon (Some [1, 2, 3]) ''secret-1'' = Inr enc"
    by (simp add: hash_password_def demo_argon_def argon_time_def argon_threads_def)
  have laws: "byte_list k \<and> length k = argon_key_len"
    if "demo_argon p [1, 2, 3] argon_time argon_memory argon_threads argon_key_len = Some k" for p k
    using that by (auto simp: demo_argon_def byte_list_def argon_time_def argon_threads_def)
  have "byte_list [1, 2, 3]" by (simp add: byte_list_def)
  note r = password_roundtrip [OF this laws t]
  show ?thesis
    using t r [where attempt = "''secret-1''"] r [where attempt = "''secret''"]
    by (simp add: demo_argon_def argon_time_def argon_threads_def argon_key_len_def)
qed

end
