(* ===== verification/Metrics.thy ===== *)
theory Metrics
  imports Passwords "HOL-Library.Word"
begin

text \<open>
  The metrics registry (\<open>internal/metrics\<close>): families of counters, gauges and histograms, the keys of their series, the text
  they are rendered to, and the HTTP middleware that feeds three of them.

  A family's map from keys to cells is an association list in the order of first use; it is read only sorted. Counters and
  gauges are 64-bit words that wrap. The addition of two floats and the text of a float are parameters, \<open>fl_add\<close> and
  \<open>fl_text\<close>. A collector is the text it writes.
\<close>

section \<open>Keys and text\<close>

text \<open>\<open>joinKey\<close>.\<close>

definition join_key :: "string list \<Rightarrow> string" where
  "join_key vs = concat (map (\<lambda>v. int_str (int (length v)) @ CHR '':'' # v) vs)"

text \<open>A replacer whose patterns are single bytes works byte by byte.\<close>

definition escape_help_byte :: "char \<Rightarrow> string" where
  "escape_help_byte c =
     (if c = CHR 0x5C then [CHR 0x5C, CHR 0x5C] else if c = CHR 0x0A then [CHR 0x5C, CHR ''n'']
      else if c = CHR 0x0D then [CHR 0x5C, CHR ''r''] else [c])"

definition escape_help :: "string \<Rightarrow> string" where
  "escape_help s = concat (map escape_help_byte s)"

definition escape_label_byte :: "char \<Rightarrow> string" where
  "escape_label_byte c = (if c = CHR 0x22 then [CHR 0x5C, CHR 0x22] else escape_help_byte c)"

definition escape_label :: "string \<Rightarrow> string" where
  "escape_label s = concat (map escape_label_byte s)"

definition render_label :: "string \<Rightarrow> string \<Rightarrow> string" where
  "render_label n v = n @ [CHR ''='', CHR 0x22] @ escape_label v @ [CHR 0x22]"

definition render_labels :: "string list \<Rightarrow> string list \<Rightarrow> string" where
  "render_labels names values =
     (if names = [] then []
      else CHR 0x7B # join '','' (map (\<lambda>(i, n). render_label n (if i < length values then values ! i else [])) (enumerate 0 names))
           @ [CHR 0x7D])"

definition append_label :: "string list \<Rightarrow> string list \<Rightarrow> string \<Rightarrow> string \<Rightarrow> string" where
  "append_label names values extra value = render_labels (names @ [extra]) (values @ [value])"

definition header_lines :: "string \<Rightarrow> string \<Rightarrow> string \<Rightarrow> string" where
  "header_lines name help typ =
     ''# HELP '' @ name @ '' '' @ escape_help help @ [CHR 0x0A] @ ''# TYPE '' @ name @ '' '' @ typ @ [CHR 0x0A]"

section \<open>Families\<close>

text \<open>\<open>cell\<close>: the cell of a key, made when it is new, then updated.\<close>

fun update_cell :: "string \<Rightarrow> 'c \<Rightarrow> ('c \<Rightarrow> 'c) \<Rightarrow> (string \<times> 'c) list \<Rightarrow> (string \<times> 'c) list" where
  "update_cell key fresh f [] = [(key, f fresh)]"
| "update_cell key fresh f ((k, c) # r) = (if k = key then (k, f c) # r else (k, c) # update_cell key fresh f r)"

record value_cell =
  vc_values :: "string list"
  vc_v :: "64 word"

record value_vec =
  vv_name :: string
  vv_help :: string
  vv_labels :: "string list"
  vv_series :: "(string \<times> value_cell) list"

definition vec_add :: "64 word \<Rightarrow> string list \<Rightarrow> value_vec \<Rightarrow> value_vec" where
  "vec_add n values c =
     c\<lparr>vv_series := update_cell (join_key values) \<lparr>vc_values = values, vc_v = 0\<rparr> (\<lambda>x. x\<lparr>vc_v := vc_v x + n\<rparr>) (vv_series c)\<rparr>"

definition counter_inc :: "string list \<Rightarrow> value_vec \<Rightarrow> value_vec" where
  "counter_inc values c = vec_add 1 values c"

definition gauge_inc :: "string list \<Rightarrow> value_vec \<Rightarrow> value_vec" where
  "gauge_inc values g = vec_add 1 values g"

definition gauge_dec :: "string list \<Rightarrow> value_vec \<Rightarrow> value_vec" where
  "gauge_dec values g = vec_add (- 1) values g"

definition in_key_order :: "('c \<Rightarrow> string list) \<Rightarrow> (string \<times> 'c) list \<Rightarrow> 'c list" where
  "in_key_order values series = sort_key (\<lambda>c. join_key (values c)) (map snd series)"

definition value_line :: "value_vec \<Rightarrow> int \<Rightarrow> value_cell \<Rightarrow> string" where
  "value_line c n x = vv_name c @ render_labels (vv_labels c) (vc_values x) @ '' '' @ int_str n @ [CHR 0x0A]"

definition write_counter :: "value_vec \<Rightarrow> string" where
  "write_counter c = header_lines (vv_name c) (vv_help c) ''counter''
     @ concat (map (\<lambda>x. value_line c (uint (vc_v x)) x) (in_key_order vc_values (vv_series c)))"

definition write_gauge :: "value_vec \<Rightarrow> string" where
  "write_gauge g = header_lines (vv_name g) (vv_help g) ''gauge''
     @ concat (map (\<lambda>x. value_line g (sint (vc_v x)) x) (in_key_order vc_values (vv_series g)))"

section \<open>Histograms\<close>

text \<open>\<open>sort.Float64s\<close> puts what is not a number first.\<close>

instantiation f64 :: linorder
begin

definition less_f64 :: "f64 \<Rightarrow> f64 \<Rightarrow> bool" where
  "less_f64 x y \<longleftrightarrow> f64_less x y \<or> x = NaN \<and> y \<noteq> NaN"

definition less_eq_f64 :: "f64 \<Rightarrow> f64 \<Rightarrow> bool" where
  "less_eq_f64 x y \<longleftrightarrow> x = y \<or> f64_less x y \<or> x = NaN \<and> y \<noteq> NaN"

instance
proof
  fix x y z :: f64
  show "(x < y) = (x \<le> y \<and> \<not> y \<le> x)"
    by (cases x; cases y) (auto simp: less_f64_def less_eq_f64_def)
  show "x \<le> x" by (simp add: less_eq_f64_def)
  show "x \<le> y \<Longrightarrow> y \<le> z \<Longrightarrow> x \<le> z"
    by (cases x; cases y; cases z) (auto simp: less_eq_f64_def)
  show "x \<le> y \<Longrightarrow> y \<le> x \<Longrightarrow> x = y"
    by (cases x; cases y) (auto simp: less_eq_f64_def)
  show "x \<le> y \<or> y \<le> x"
    by (cases x; cases y) (auto simp: less_eq_f64_def)
qed

end

text \<open>\<open>sort.Search\<close>: the halving, and the comparison of \<open>SearchFloat64s\<close>.\<close>

function search :: "(nat \<Rightarrow> bool) \<Rightarrow> nat \<Rightarrow> nat \<Rightarrow> nat" where
  "search p i j =
     (if i < j then let h = (i + j) div 2 in if p h then search p i h else search p (h + 1) j else i)"
  by pat_completeness auto
termination
  by (relation "measure (\<lambda>(p, i, j). j - i)") auto

declare search.simps [simp del]

definition f64_ge :: "f64 \<Rightarrow> f64 \<Rightarrow> bool" where
  "f64_ge x y \<longleftrightarrow> x \<noteq> NaN \<and> y \<noteq> NaN \<and> \<not> f64_less x y"

definition bucket_index :: "f64 list \<Rightarrow> f64 \<Rightarrow> nat" where
  "bucket_index bs v = search (\<lambda>i. f64_ge (bs ! i) v) 0 (length bs)"

record float_lib =
  fl_add :: "f64 \<Rightarrow> f64 \<Rightarrow> f64"
  fl_text :: "f64 \<Rightarrow> string"

record histogram_cell =
  hc_values :: "string list"
  hc_counts :: "64 word list"
  hc_sum :: f64
  hc_count :: "64 word"

record histogram_vec =
  hv_name :: string
  hv_help :: string
  hv_labels :: "string list"
  hv_buckets :: "f64 list"
  hv_series :: "(string \<times> histogram_cell) list"

text \<open>\<open>DefaultBuckets\<close>: the doubles nearest to .005, .01, .025, .05 and .1, and .25 to 10.\<close>

definition default_buckets :: "f64 list" where
  "default_buckets = map Fin [5764607523034235 / 2 ^ 60, 5764607523034235 / 2 ^ 59, 3602879701896397 / 2 ^ 57, 3602879701896397 / 2 ^ 56,
     3602879701896397 / 2 ^ 55, 1 / 4, 1 / 2, 1, 5 / 2, 5, 10]"

definition new_histogram :: "string \<Rightarrow> string \<Rightarrow> f64 list \<Rightarrow> string list \<Rightarrow> histogram_vec" where
  "new_histogram name help buckets labels =
     \<lparr>hv_name = name, hv_help = help, hv_labels = labels,
      hv_buckets = sort (if buckets = [] then default_buckets else buckets), hv_series = []\<rparr>"

definition observe_cell :: "float_lib \<Rightarrow> f64 list \<Rightarrow> f64 \<Rightarrow> histogram_cell \<Rightarrow> histogram_cell" where
  "observe_cell lib bs v c =
     (let i = bucket_index bs v
      in c\<lparr>hc_counts := (hc_counts c)[i := hc_counts c ! i + 1], hc_count := hc_count c + 1,
           hc_sum := fl_add lib (hc_sum c) v\<rparr>)"

definition fresh_cell :: "f64 list \<Rightarrow> string list \<Rightarrow> histogram_cell" where
  "fresh_cell bs values = \<lparr>hc_values = values, hc_counts = replicate (length bs + 1) 0, hc_sum = Fin 0, hc_count = 0\<rparr>"

definition observe :: "float_lib \<Rightarrow> f64 \<Rightarrow> string list \<Rightarrow> histogram_vec \<Rightarrow> histogram_vec" where
  "observe lib v values h =
     h\<lparr>hv_series := update_cell (join_key values) (fresh_cell (hv_buckets h) values) (observe_cell lib (hv_buckets h) v)
                      (hv_series h)\<rparr>"

text \<open>The cumulative counts a scrape prints, the last of them for \<open>+Inf\<close>.\<close>

fun running :: "64 word \<Rightarrow> 64 word list \<Rightarrow> 64 word list" where
  "running acc [] = []"
| "running acc (n # ns) = (acc + n) # running (acc + n) ns"

definition histogram_lines :: "float_lib \<Rightarrow> histogram_vec \<Rightarrow> histogram_cell \<Rightarrow> string" where
  "histogram_lines lib h c =
     (let line = (\<lambda>suffix labels text. hv_name h @ suffix @ labels @ '' '' @ text @ [CHR 0x0A]);
          base_labels = render_labels (hv_labels h) (hc_values c)
      in concat (map (\<lambda>(le, n). line ''_bucket'' (append_label (hv_labels h) (hc_values c) ''le'' le) (int_str (uint n)))
           (zip (map (fl_text lib) (hv_buckets h) @ [''+Inf'']) (running 0 (hc_counts c))))
         @ line ''_sum'' base_labels (fl_text lib (hc_sum c)) @ line ''_count'' base_labels (int_str (uint (hc_count c))))"

definition write_histogram :: "float_lib \<Rightarrow> histogram_vec \<Rightarrow> string" where
  "write_histogram lib h = header_lines (hv_name h) (hv_help h) ''histogram''
     @ concat (map (histogram_lines lib h) (in_key_order hc_values (hv_series h)))"

section \<open>The registry\<close>

record registry =
  rg_counters :: "value_vec list"
  rg_gauges :: "value_vec list"
  rg_histograms :: "histogram_vec list"
  rg_collectors :: "string list"

definition new_registry :: registry where
  "new_registry = \<lparr>rg_counters = [], rg_gauges = [], rg_histograms = [], rg_collectors = []\<rparr>"

definition new_vec :: "string \<Rightarrow> string \<Rightarrow> string list \<Rightarrow> value_vec" where
  "new_vec name help labels = \<lparr>vv_name = name, vv_help = help, vv_labels = labels, vv_series = []\<rparr>"

definition add_counter :: "value_vec \<Rightarrow> registry \<Rightarrow> registry" where
  "add_counter c r = r\<lparr>rg_counters := rg_counters r @ [c]\<rparr>"

definition add_gauge :: "value_vec \<Rightarrow> registry \<Rightarrow> registry" where
  "add_gauge g r = r\<lparr>rg_gauges := rg_gauges r @ [g]\<rparr>"

definition add_histogram :: "histogram_vec \<Rightarrow> registry \<Rightarrow> registry" where
  "add_histogram h r = r\<lparr>rg_histograms := rg_histograms r @ [h]\<rparr>"

definition add_collector :: "string \<Rightarrow> registry \<Rightarrow> registry" where
  "add_collector w r = r\<lparr>rg_collectors := rg_collectors r @ [w]\<rparr>"

definition render_registry :: "float_lib \<Rightarrow> registry \<Rightarrow> string" where
  "render_registry lib r =
     concat (map write_counter (rg_counters r)) @ concat (map write_gauge (rg_gauges r))
     @ concat (map (write_histogram lib) (rg_histograms r)) @ concat (rg_collectors r)"

definition build_info :: "string \<Rightarrow> string \<Rightarrow> string" where
  "build_info version go_version =
     header_lines ''legant_build_info'' ''Build metadata; the value is always 1.'' ''gauge''
     @ ''legant_build_info'' @ render_labels [''version'', ''go_version''] [version, go_version] @ '' 1'' @ [CHR 0x0A]"

section \<open>Requests\<close>

definition known_methods :: "string list" where
  "known_methods = [''GET'', ''HEAD'', ''POST'', ''PUT'', ''PATCH'', ''DELETE'', ''CONNECT'', ''OPTIONS'', ''TRACE'']"

definition normalize_method :: "string \<Rightarrow> string" where
  "normalize_method m = (if m \<in> set known_methods then m else ''other'')"

record http_metrics =
  hm_total :: value_vec
  hm_duration :: histogram_vec
  hm_flight :: value_vec

definition http_families :: http_metrics where
  "http_families =
     \<lparr>hm_total = new_vec ''legant_http_requests_total''
        ''Total HTTP requests handled, by method, route pattern, and status code.'' [''method'', ''route'', ''code''],
      hm_duration = new_histogram ''legant_http_request_duration_seconds''
        ''HTTP request latency in seconds, by method and route pattern.'' default_buckets [''method'', ''route''],
      hm_flight = new_vec ''legant_http_requests_in_flight'' ''Requests currently being served.'' []\<rparr>"

definition product_counters :: "value_vec list" where
  "product_counters =
     [new_vec ''legant_token_exchanges_total'' ''RFC 8693 token-exchange attempts, by result (success|error).'' [''result''],
      new_vec ''legant_delegations_total'' ''Delegations created, by kind (consent|redelegate).'' [''kind''],
      new_vec ''legant_tokens_minted_total'' ''Composite delegation tokens minted, by source (exchange|gateway).'' [''source''],
      new_vec ''legant_revocations_total'' ''Revocation events, by kind (token|delegation).'' [''kind''],
      new_vec ''legant_revocation_check_errors_total''
        ''Revocation-store lookup failures, by component (gateway|introspection).'' [''component''],
      new_vec ''legant_gateway_calls_total''
        ''MCP gateway tool calls, by upstream and decision (allow|deny|unauthorized|error).'' [''upstream'', ''decision'']]"

definition default_registry :: "http_metrics \<Rightarrow> value_vec list \<Rightarrow> string \<Rightarrow> registry" where
  "default_registry m product go_text =
     \<lparr>rg_counters = hm_total m # product, rg_gauges = [hm_flight m], rg_histograms = [hm_duration m], rg_collectors = [go_text]\<rparr>"

text \<open>
  The middleware: \<open>Began\<close> when it calls the handler, \<open>Ended\<close> with the method, the route pattern, the status and the seconds when
  the handler returns, \<open>Panicked\<close> when it does not.
\<close>

datatype http_event = Began | Ended string string int f64 | Panicked

definition on_request :: "float_lib \<Rightarrow> http_event \<Rightarrow> http_metrics \<Rightarrow> http_metrics" where
  "on_request lib ev m =
     (case ev of
        Began \<Rightarrow> m\<lparr>hm_flight := gauge_inc [] (hm_flight m)\<rparr>
      | Panicked \<Rightarrow> m\<lparr>hm_flight := gauge_dec [] (hm_flight m)\<rparr>
      | Ended meth pattern status secs \<Rightarrow>
          (let route = (if pattern = [] then ''other'' else pattern); verb = normalize_method meth
           in m\<lparr>hm_total := counter_inc [verb, route, int_str status] (hm_total m),
                hm_duration := observe lib secs [verb, route] (hm_duration m),
                hm_flight := gauge_dec [] (hm_flight m)\<rparr>))"

text \<open>\<open>statusWriter\<close>, and the writer of the access log (\<open>internal/middleware/logging.go\<close>).\<close>

datatype writer_call = WriteHeader int | WriteBytes nat

record status_writer =
  sw_status :: int
  sw_wrote :: bool

definition sw_call :: "writer_call \<Rightarrow> status_writer \<Rightarrow> status_writer" where
  "sw_call x w =
     (case x of
        WriteHeader code \<Rightarrow> (if sw_wrote w then w else w\<lparr>sw_status := code, sw_wrote := True\<rparr>)
      | WriteBytes _ \<Rightarrow> w\<lparr>sw_wrote := True\<rparr>)"

definition served_status :: "writer_call list \<Rightarrow> int" where
  "served_status xs = sw_status (fold sw_call xs \<lparr>sw_status = 200, sw_wrote = False\<rparr>)"

record log_writer =
  lw_status :: int
  lw_size :: nat

definition lw_call :: "writer_call \<Rightarrow> log_writer \<Rightarrow> log_writer" where
  "lw_call x w =
     (case x of WriteHeader code \<Rightarrow> w\<lparr>lw_status := code\<rparr> | WriteBytes n \<Rightarrow> w\<lparr>lw_size := lw_size w + n\<rparr>)"

text \<open>\<open>RequestID\<close> (\<open>requestid.go\<close>): the id of the request, a fresh one when it has none.\<close>

definition request_id :: "string \<Rightarrow> string \<Rightarrow> string" where
  "request_id uuid given_id = (if given_id = [] then uuid else given_id)"

section \<open>Keys never collide\<close>

lemma int_str_nat [simp]: "int_str (int n) = nat_str n"
  by (simp add: int_str_def)

lemma nat_str_colon:
  assumes "nat_str m @ CHR '':'' # x = nat_str n @ CHR '':'' # y"
  shows "m = n \<and> x = y"
proof -
  have split: "takeWhile is_digit (nat_str k @ CHR '':'' # z) = nat_str k" for k z
    using nat_str_value [of k] by (simp add: list_all_iff takeWhile_append2 is_digit_def)
  have "nat_str m = nat_str n" using assms split by metis
  moreover from this have "m = n" using nat_str_value by metis
  ultimately show ?thesis using assms by simp
qed

text \<open>Two tuples of label values have the same key exactly when they are the same tuple, whatever bytes they hold.\<close>

theorem join_key_inj: "join_key vs = join_key ws \<longleftrightarrow> vs = ws"
proof
  show "join_key vs = join_key ws \<Longrightarrow> vs = ws"
  proof (induction vs arbitrary: ws)
    case Nil
    then show ?case by (cases ws) (simp_all add: join_key_def)
  next
    case (Cons v vs)
    then obtain w ws' where ws: "ws = w # ws'" by (cases ws) (simp_all add: join_key_def)
    have "nat_str (length v) @ CHR '':'' # v @ join_key vs = nat_str (length w) @ CHR '':'' # w @ join_key ws'"
      using Cons.prems by (simp add: ws join_key_def)
    from nat_str_colon [OF this] have "v = w \<and> join_key vs = join_key ws'" by (metis append_eq_append_conv)
    with Cons.IH ws show ?case by blast
  qed
qed simp

section \<open>A label value cannot leave its quotes\<close>

text \<open>What a scraper does with a label value: a backslash takes the next byte, a quote ends it.\<close>

fun read_label :: "string \<Rightarrow> (string \<times> string) option" where
  "read_label [] = None"
| "read_label (c # s) =
     (if c = CHR 0x22 then Some ([], s)
      else if c = CHR 0x0A then None
      else if c = CHR 0x5C then
        (case s of
           [] \<Rightarrow> None
         | d # s' \<Rightarrow> map_option (apfst ((#) (if d = CHR ''n'' then CHR 0x0A else if d = CHR ''r'' then CHR 0x0D else d))) (read_label s'))
      else map_option (apfst ((#) c)) (read_label s))"

lemma read_label_byte: "read_label (escape_label_byte c @ s) = map_option (apfst ((#) c)) (read_label s)"
  by (simp add: escape_label_byte_def escape_help_byte_def)

text \<open>A label value reads back as itself from the text of the exposition, up to the quote that the registry put after it,
  whatever bytes it holds: no value can end its line or forge another label.\<close>

theorem label_reads_back: "read_label (escape_label v @ CHR 0x22 # rest) = Some (v, rest)"
  by (induction v) (simp_all add: escape_label_def read_label_byte [simplified])

lemma escape_help_no_newline: "CHR 0x0A \<notin> set (escape_help s)"
  by (auto simp: escape_help_def escape_help_byte_def split: if_splits)

lemma escape_label_no_newline: "CHR 0x0A \<notin> set (escape_label s)"
  by (auto simp: escape_label_def escape_label_byte_def escape_help_byte_def split: if_splits)

section \<open>One line per series\<close>

abbreviation newlines :: "string \<Rightarrow> nat" where
  "newlines s \<equiv> length (filter (\<lambda>c. c = CHR 0x0A) s)"

lemma newlines_none: "CHR 0x0A \<notin> set s \<Longrightarrow> newlines s = 0"
  by (auto simp: filter_empty_conv)

lemma set_join: "set (join sep ws) \<subseteq> set sep \<union> (\<Union>w \<in> set ws. set w)"
  by (induction sep ws rule: join.induct) auto

lemma render_labels_no_newline:
  assumes "\<forall>l \<in> set names. CHR 0x0A \<notin> set l"
  shows "CHR 0x0A \<notin> set (render_labels names values)"
proof -
  define ws where "ws = map (\<lambda>(i, n). render_label n (if i < length values then values ! i else [])) (enumerate 0 names)"
  have one: "CHR 0x0A \<notin> set (render_label n v)" if "n \<in> set names" for n v
    using assms that escape_label_no_newline [of v] by (simp add: render_label_def)
  have "CHR 0x0A \<notin> set w" if "w \<in> set ws" for w
  proof -
    from that obtain i n where "(i, n) \<in> set (enumerate 0 names)" and
      w: "w = render_label n (if i < length values then values ! i else [])" by (auto simp: ws_def)
    then have "n \<in> set names" by (auto simp: enumerate_eq_zip dest: set_zip_rightD)
    with one show ?thesis by (simp add: w)
  qed
  then have "CHR 0x0A \<notin> set (join '','' ws)" using set_join [of "'',''" ws] by auto
  then show ?thesis by (simp add: render_labels_def ws_def)
qed

lemma int_str_no_newline: "CHR 0x0A \<notin> set (int_str n)"
proof -
  have "CHR 0x0A \<notin> set (nat_str k)" for k
  proof
    assume "CHR 0x0A \<in> set (nat_str k)"
    then have "is_digit (CHR 0x0A)" using nat_str_value [of k] by (simp add: list_all_iff)
    then show False by (simp add: is_digit_def)
  qed
  then show ?thesis by (simp add: int_str_def)
qed

lemma newlines_concat: "\<forall>x \<in> set xs. newlines (f x) = 1 \<Longrightarrow> newlines (concat (map f xs)) = length xs"
  by (induction xs) auto

lemma counter_one_line_per_series:
  assumes "CHR 0x0A \<notin> set (vv_name c)" and "\<forall>l \<in> set (vv_labels c). CHR 0x0A \<notin> set l"
  shows "newlines (write_counter c) = 2 + length (vv_series c)"
proof -
  have head: "newlines (header_lines (vv_name c) (vv_help c) ''counter'') = 2"
    using assms(1) escape_help_no_newline [of "vv_help c"] by (simp add: header_lines_def newlines_none)
  have "newlines (value_line c n x) = 1" for n x
    using assms(1) render_labels_no_newline [OF assms(2)] int_str_no_newline by (simp add: value_line_def newlines_none)
  then have "newlines (concat (map (\<lambda>x. value_line c (uint (vc_v x)) x) (in_key_order vc_values (vv_series c))))
      = length (in_key_order vc_values (vv_series c))"
    by (intro newlines_concat) simp
  with head show ?thesis by (simp add: write_counter_def in_key_order_def)
qed

section \<open>What a histogram counts\<close>

lemma search_spec:
  assumes "\<And>a b. a \<le> b \<Longrightarrow> b < n \<Longrightarrow> p a \<Longrightarrow> p b"
    and "i \<le> j" and "j \<le> n" and "\<And>k. k < i \<Longrightarrow> \<not> p k" and "\<And>k. j \<le> k \<Longrightarrow> k < n \<Longrightarrow> p k"
  shows "search p i j \<le> n \<and> (\<forall>k < n. search p i j \<le> k \<longleftrightarrow> p k)"
  using assms
proof (induction p i j rule: search.induct)
  case (1 p i j)
  show ?case
  proof (cases "i < j")
    case False
    then have "search p i j = i" by (subst search.simps) simp
    with False "1.prems" show ?thesis by (metis le_less_trans less_or_eq_imp_le linorder_not_le not_less)
  next
    case True
    let ?h = "(i + j) div 2"
    have h: "i \<le> ?h" "?h < j" using True by auto
    show ?thesis
    proof (cases "p ?h")
      case p: True
      have "search p i ?h \<le> n \<and> (\<forall>k < n. search p i ?h \<le> k \<longleftrightarrow> p k)"
      proof (rule "1.IH"(1) [OF True refl p])
        show "p k" if "?h \<le> k" "k < n" for k using "1.prems"(1) [OF that p] .
      qed (use "1.prems" h in auto)
      moreover have "search p i j = search p i ?h" using True p by (subst search.simps) (simp add: Let_def)
      ultimately show ?thesis by simp
    next
      case p: False
      have "search p (?h + 1) j \<le> n \<and> (\<forall>k < n. search p (?h + 1) j \<le> k \<longleftrightarrow> p k)"
      proof (rule "1.IH"(2) [OF True refl p])
        show "\<not> p k" if "k < ?h + 1" for k
          using "1.prems"(1) [of k ?h] "1.prems"(3) that p h by auto
      qed (use "1.prems" h in auto)
      moreover have "search p i j = search p (?h + 1) j" using True p by (subst search.simps) (simp add: Let_def)
      ultimately show ?thesis by simp
    qed
  qed
qed

lemma f64_ge_mono: "f64_ge x v \<Longrightarrow> x \<le> y \<Longrightarrow> f64_ge y v"
  by (cases x; cases y; cases v) (auto simp: f64_ge_def less_eq_f64_def)

lemma bucket_index_spec:
  assumes "sorted bs"
  shows "bucket_index bs v \<le> length bs" and "i < length bs \<Longrightarrow> bucket_index bs v \<le> i \<longleftrightarrow> f64_ge (bs ! i) v"
proof -
  have "search (\<lambda>i. f64_ge (bs ! i) v) 0 (length bs) \<le> length bs \<and>
      (\<forall>k < length bs. search (\<lambda>i. f64_ge (bs ! i) v) 0 (length bs) \<le> k \<longleftrightarrow> f64_ge (bs ! k) v)"
    by (rule search_spec) (use assms in \<open>auto intro: f64_ge_mono sorted_nth_mono\<close>)
  then show "bucket_index bs v \<le> length bs" and "i < length bs \<Longrightarrow> bucket_index bs v \<le> i \<longleftrightarrow> f64_ge (bs ! i) v"
    by (simp_all add: bucket_index_def)
qed

lemma update_cell_lookup:
  "map_of (update_cell k fresh f s) = (map_of s)(k \<mapsto> f (case map_of s k of None \<Rightarrow> fresh | Some c \<Rightarrow> c))"
  by (induction s) (auto simp: fun_eq_iff)

lemma running_nth: "i < length ns \<Longrightarrow> running acc ns ! i = acc + sum_list (take (Suc i) ns)"
  by (induction acc ns arbitrary: i rule: running.induct) (auto simp: nth_Cons' algebra_simps gr0_conv_Suc)

lemma length_running [simp]: "length (running acc ns) = length ns"
  by (induction acc ns rule: running.induct) auto

text \<open>A cell holds, of the values observed for its labels, how many fall into each bucket, how many there are, and their sum.\<close>

definition cell_tracks :: "float_lib \<Rightarrow> f64 list \<Rightarrow> f64 list \<Rightarrow> histogram_cell \<Rightarrow> bool" where
  "cell_tracks lib bs vs c \<longleftrightarrow>
     length (hc_counts c) = length bs + 1
     \<and> (\<forall>i \<le> length bs. hc_counts c ! i = of_nat (length (filter (\<lambda>v. bucket_index bs v = i) vs)))
     \<and> hc_count c = of_nat (length vs) \<and> hc_sum c = fold (\<lambda>v acc. fl_add lib acc v) vs (Fin 0)"

lemma fresh_tracks: "cell_tracks lib bs [] (fresh_cell bs values)"
  by (auto simp: cell_tracks_def fresh_cell_def nth_Cons' simp del: replicate_Suc)

lemma observe_tracks: "cell_tracks lib bs vs c \<Longrightarrow> cell_tracks lib bs (vs @ [v]) (observe_cell lib bs v c)"
  by (auto simp: cell_tracks_def observe_cell_def Let_def nth_list_update)

lemma cell_values [simp]: "hc_values (observe_cell lib bs v c) = hc_values c" "hc_values (fresh_cell bs values) = values"
  by (simp_all add: observe_cell_def fresh_cell_def Let_def)

lemma first_tracks: "cell_tracks lib bs [v] (observe_cell lib bs v (fresh_cell bs values))"
  using observe_tracks [OF fresh_tracks] by force

lemma tracked_prefix:
  assumes "cell_tracks lib bs vs c" and "i \<le> length bs"
  shows "sum_list (take (Suc i) (hc_counts c)) = of_nat (length (filter (\<lambda>v. bucket_index bs v \<le> i) vs))"
  using assms(2)
proof (induction i)
  case 0
  with assms(1) show ?case by (cases "hc_counts c") (auto simp: cell_tracks_def)
next
  case (Suc i)
  have "length (filter (\<lambda>v. bucket_index bs v \<le> Suc i) vs) =
      length (filter (\<lambda>v. bucket_index bs v \<le> i) vs) + length (filter (\<lambda>v. bucket_index bs v = Suc i) vs)"
    by (induction vs) auto
  with Suc assms(1) show ?case by (simp add: cell_tracks_def take_Suc_conv_app_nth)
qed

definition observe_all :: "float_lib \<Rightarrow> (f64 \<times> string list) list \<Rightarrow> histogram_vec \<Rightarrow> histogram_vec" where
  "observe_all lib obs h = fold (\<lambda>(v, values). observe lib v values) obs h"

definition observed :: "string list \<Rightarrow> (f64 \<times> string list) list \<Rightarrow> f64 list" where
  "observed values obs = map fst (filter (\<lambda>x. snd x = values) obs)"

definition observed_histogram ::
    "float_lib \<Rightarrow> string \<Rightarrow> string \<Rightarrow> f64 list \<Rightarrow> string list \<Rightarrow> (f64 \<times> string list) list \<Rightarrow> histogram_vec" where
  "observed_histogram lib name descr bs labels obs = observe_all lib obs (new_histogram name descr bs labels)"

lemma observe_all_buckets [simp]: "hv_buckets (observe_all lib obs h) = hv_buckets h"
  by (induction obs arbitrary: h) (auto simp: observe_all_def observe_def)

lemma observe_all_cells:
  "case map_of (hv_series (observe_all lib obs (new_histogram name descr bs labels))) (join_key tuple) of
     None \<Rightarrow> observed tuple obs = []
   | Some c \<Rightarrow> hc_values c = tuple \<and> observed tuple obs \<noteq> []
       \<and> cell_tracks lib (hv_buckets (new_histogram name descr bs labels)) (observed tuple obs) c"
proof (induction obs rule: rev_induct)
  case Nil
  show ?case by (simp add: observe_all_def new_histogram_def observed_def)
next
  case (snoc x obs)
  obtain v lvs where x: "x = (v, lvs)" by (cases x)
  have step: "observe_all lib (obs @ [x]) h = observe lib v lvs (observe_all lib obs h)" for h
    by (simp add: observe_all_def x)
  show ?case
  proof (cases "lvs = tuple")
    case True
    then have ob: "observed tuple (obs @ [x]) = observed tuple obs @ [v]" by (simp add: observed_def x)
    with snoc True show ?thesis
      by (auto simp: step observe_def update_cell_lookup ob intro: observe_tracks first_tracks split: option.splits)
  next
    case False
    then have "observed tuple (obs @ [x]) = observed tuple obs" by (simp add: observed_def x)
    with snoc False show ?thesis
      by (auto simp: step observe_def update_cell_lookup join_key_inj split: option.splits)
  qed
qed

text \<open>C32: After any observations, a series exists for exactly the tuples of labels observed, and in it every bucket that a scrape
  prints counts the observations of that tuple that are at most the bucket's bound, and the \<open>+Inf\<close> bucket and the count both
  count all of them, modulo 2 to the 64; the sum is their sum in order.\<close>

theorem histogram_counts_observations:
  "case map_of (hv_series (observed_histogram lib name descr bs labels obs)) (join_key tuple) of
     None \<Rightarrow> observed tuple obs = []
   | Some c \<Rightarrow> hc_values c = tuple \<and> observed tuple obs \<noteq> []
       \<and> length (running 0 (hc_counts c)) = length (hv_buckets (observed_histogram lib name descr bs labels obs)) + 1
       \<and> list_all2 (\<lambda>b n. n = of_nat (length (filter (f64_ge b) (observed tuple obs))))
           (hv_buckets (observed_histogram lib name descr bs labels obs)) (butlast (running 0 (hc_counts c)))
       \<and> last (running 0 (hc_counts c)) = of_nat (length (observed tuple obs))
       \<and> hc_count c = of_nat (length (observed tuple obs))
       \<and> hc_sum c = fold (\<lambda>v acc. fl_add lib acc v) (observed tuple obs) (Fin 0)"
proof (cases "map_of (hv_series (observed_histogram lib name descr bs labels obs)) (join_key tuple)")
  case None
  with observe_all_cells [where lib = lib and obs = obs and name = name and descr = descr and bs = bs and labels = labels and tuple = tuple] show ?thesis by (simp add: observed_histogram_def)
next
  case (Some c)
  let ?bs = "hv_buckets (new_histogram name descr bs labels)" and ?vs = "observed tuple obs"
  from observe_all_cells [where lib = lib and obs = obs and name = name and descr = descr and bs = bs and labels = labels and tuple = tuple] Some
  have c: "hc_values c = tuple" "?vs \<noteq> []" and tr: "cell_tracks lib ?bs ?vs c" by (simp_all add: observed_histogram_def)
  have srt: "sorted ?bs" by (simp add: new_histogram_def)
  have len: "length (hc_counts c) = length ?bs + 1" using tr by (simp add: cell_tracks_def)
  have nth: "running 0 (hc_counts c) ! i = of_nat (length (filter (\<lambda>v. bucket_index ?bs v \<le> i) ?vs))" if "i \<le> length ?bs" for i
  proof -
    have "running 0 (hc_counts c) ! i = 0 + sum_list (take (Suc i) (hc_counts c))"
      by (rule running_nth) (use that len in linarith)
    then show ?thesis by (simp only: tracked_prefix [OF tr that] add_0)
  qed
  have "running 0 (hc_counts c) ! i = of_nat (length (filter (f64_ge (?bs ! i)) ?vs))" if "i < length ?bs" for i
  proof -
    have "filter (\<lambda>v. bucket_index ?bs v \<le> i) ?vs = filter (f64_ge (?bs ! i)) ?vs"
      by (rule filter_cong) (simp_all add: bucket_index_spec(2) [OF srt that])
    with nth [of i] that show ?thesis by simp
  qed
  then have buckets: "list_all2 (\<lambda>b n. n = of_nat (length (filter (f64_ge b) ?vs))) ?bs (butlast (running 0 (hc_counts c)))"
    using len by (auto simp: list_all2_conv_all_nth nth_butlast)
  have all: "filter (\<lambda>v. bucket_index ?bs v \<le> length ?bs) ?vs = ?vs"
    using bucket_index_spec(1) [OF srt] by simp
  have "running 0 (hc_counts c) \<noteq> []" using len by (metis add_is_0 length_running list.size(3) one_neq_zero)
  then have "last (running 0 (hc_counts c)) = running 0 (hc_counts c) ! length ?bs" using len by (simp add: last_conv_nth)
  then have "last (running 0 (hc_counts c)) = of_nat (length ?vs)" using nth [of "length ?bs"] all by simp
  with Some c tr buckets len show ?thesis by (simp add: observed_histogram_def cell_tracks_def)
qed

section \<open>Requests in flight, and the number of series\<close>

definition serve_all :: "float_lib \<Rightarrow> http_event list \<Rightarrow> http_metrics" where
  "serve_all lib evs = fold (on_request lib) evs http_families"

definition pending :: "http_event list \<Rightarrow> int" where
  "pending evs = int (length (filter (\<lambda>ev. ev = Began) evs)) - int (length (filter (\<lambda>ev. ev \<noteq> Began) evs))"

lemma serve_all_simps [simp]:
  "serve_all lib [] = http_families" "serve_all lib (evs @ [ev]) = on_request lib ev (serve_all lib evs)"
  by (simp_all add: serve_all_def)

lemma gauge_value:
  "map (\<lambda>(k, c). vc_v c) (vv_series (hm_flight (serve_all lib evs))) = (if evs = [] then [] else [of_int (pending evs)])
   \<and> map fst (vv_series (hm_flight (serve_all lib evs))) = (if evs = [] then [] else [join_key []])"
proof (induction evs rule: rev_induct)
  case Nil
  then show ?case by (simp add: http_families_def new_vec_def)
next
  case (snoc ev evs)
  have "pending (evs @ [ev]) = pending evs + (if ev = Began then 1 else -1)" by (simp add: pending_def)
  with snoc show ?case
    by (cases ev; cases "vv_series (hm_flight (serve_all lib evs))")
      (auto simp: on_request_def gauge_inc_def gauge_dec_def vec_add_def pending_def Let_def split: if_splits)
qed

lemma update_cell_keys: "fst ` set (update_cell k fresh f s) = insert k (fst ` set s)"
proof (induction s)
  case (Cons x s)
  obtain a b where "x = (a, b)" by (cases x)
  with Cons show ?case by (cases "a = k") auto
qed simp

lemma update_cell_distinct: "distinct (map fst s) \<Longrightarrow> distinct (map fst (update_cell k fresh f s))"
proof (induction s)
  case (Cons x s)
  obtain a b where "x = (a, b)" by (cases x)
  with Cons show ?case by (cases "a = k") (auto simp: update_cell_keys simp flip: image_set)
qed simp

text \<open>The keys that requests to the given routes with the given statuses can make.\<close>

definition request_keys :: "string set \<Rightarrow> int set \<Rightarrow> string set" where
  "request_keys routes statuses =
     (\<lambda>(m, r, c). join_key [m, r, int_str c]) ` (insert ''other'' (set known_methods) \<times> insert ''other'' routes \<times> statuses)"

lemma request_keys_card:
  assumes "finite routes" and "finite statuses"
  shows "finite (request_keys routes statuses)" and "card (request_keys routes statuses) \<le> 10 * (card routes + 1) * card statuses"
proof -
  let ?ms = "insert ''other'' (set known_methods)"
  have fin: "finite (?ms \<times> insert ''other'' routes \<times> statuses)" using assms by simp
  then show "finite (request_keys routes statuses)" by (simp add: request_keys_def)
  have "card ?ms \<le> 10" by (simp add: known_methods_def)
  moreover have "card (insert ''other'' routes) \<le> card routes + 1" using assms(1) by (simp add: card_insert_if)
  ultimately have "card (?ms \<times> insert ''other'' routes \<times> statuses) \<le> 10 * (card routes + 1) * card statuses"
    unfolding card_cartesian_product mult.assoc by (intro mult_le_mono order_refl)
  moreover have "card (request_keys routes statuses) \<le> card (?ms \<times> insert ''other'' routes \<times> statuses)"
    unfolding request_keys_def by (rule card_image_le [OF fin])
  ultimately show "card (request_keys routes statuses) \<le> 10 * (card routes + 1) * card statuses" by linarith
qed

definition routed :: "string set \<Rightarrow> int set \<Rightarrow> http_event \<Rightarrow> bool" where
  "routed routes statuses ev \<longleftrightarrow> (case ev of Ended m r c t \<Rightarrow> (r = [] \<or> r \<in> routes) \<and> c \<in> statuses | _ \<Rightarrow> True)"

lemma total_keys:
  assumes "list_all (routed routes statuses) evs"
  shows "set (map fst (vv_series (hm_total (serve_all lib evs)))) \<subseteq> request_keys routes statuses
    \<and> distinct (map fst (vv_series (hm_total (serve_all lib evs))))"
  using assms
proof (induction evs rule: rev_induct)
  case Nil
  then show ?case by (simp add: http_families_def new_vec_def)
next
  case (snoc ev evs)
  show ?case
  proof (cases ev)
    case (Ended m r c t)
    let ?k = "join_key [normalize_method m, if r = [] then ''other'' else r, int_str c]"
    have "(normalize_method m, if r = [] then ''other'' else r, c) \<in>
        insert ''other'' (set known_methods) \<times> insert ''other'' routes \<times> statuses"
      using snoc.prems by (auto simp: Ended routed_def normalize_method_def)
    then have k: "?k \<in> request_keys routes statuses" unfolding request_keys_def by force
    have "vv_series (hm_total (serve_all lib (evs @ [ev]))) =
        update_cell ?k \<lparr>vc_values = [normalize_method m, if r = [] then ''other'' else r, int_str c], vc_v = 0\<rparr>
          (\<lambda>x. x\<lparr>vc_v := vc_v x + 1\<rparr>) (vv_series (hm_total (serve_all lib evs)))"
      by (simp add: Ended on_request_def counter_inc_def vec_add_def Let_def)
    with k snoc show ?thesis 
      by (simp add: update_cell_keys update_cell_distinct)
  qed (use snoc in \<open>simp_all add: on_request_def\<close>)
qed

text \<open>Whatever methods, paths and statuses clients cause, the number of series that requests make is bounded by the routes
  the server has and the statuses it answers with: unknown methods and unmatched paths share one label each.\<close>

theorem request_series_bounded:
  assumes "finite routes" and "finite statuses" and "list_all (routed routes statuses) evs"
  shows "length (vv_series (hm_total (serve_all lib evs))) \<le> 10 * (card routes + 1) * card statuses"
proof -
  let ?s = "vv_series (hm_total (serve_all lib evs))"
  have "length ?s = card (set (map fst ?s))"
    using total_keys [OF assms(3), of lib] distinct_card [of "map fst ?s"] by simp
  also have "\<dots> \<le> card (request_keys routes statuses)"
    using total_keys [OF assms(3), of lib] by (intro card_mono request_keys_card(1) [OF assms(1,2)]) simp_all
  also have "\<dots> \<le> 10 * (card routes + 1) * card statuses" by (rule request_keys_card(2) [OF assms(1,2)])
  finally show ?thesis .
qed

text \<open>The status a request is counted under: the first one written, 200 when the body comes first or nothing is written.\<close>

lemma sw_call_stuck: "sw_wrote w \<Longrightarrow> sw_status (fold sw_call xs w) = sw_status w"
  by (induction xs arbitrary: w) (auto simp: sw_call_def split: writer_call.splits)

lemma served_status_first:
  "served_status [] = 200" "served_status (WriteHeader c # xs) = c" "served_status (WriteBytes n # xs) = 200"
  by (simp_all add: served_status_def sw_call_stuck) (simp_all add: sw_call_def sw_call_stuck)

theorem request_series_bounded_witness:
  "length (vv_series (hm_total (serve_all \<lparr>fl_add = (\<lambda>x y. x), fl_text = (\<lambda>_. [])\<rparr>
     [Began, Ended ''GET'' ''/login'' 200 (Fin 1), Began, Ended ''BREW'' [] 404 (Fin 1), Began, Ended ''STEEP'' [] 404 (Fin 2)]))) \<le> 40"
  using request_series_bounded [of "{''/login''}" "{200, 404}"
      "[Began, Ended ''GET'' ''/login'' 200 (Fin 1), Began, Ended ''BREW'' [] 404 (Fin 1), Began, Ended ''STEEP'' [] 404 (Fin 2)]"
      "\<lparr>fl_add = (\<lambda>x y. x), fl_text = (\<lambda>_. [])\<rparr>"]
  by (simp add: routed_def)

end
