(* ===== verification/SafeHttp.thy ===== *)
theory SafeHttp
  imports RateLimit "HOL-Library.Word"
begin

text \<open>
  The hardened HTTP client (\<open>internal/safehttp/client.go\<close>): which addresses it dials, which redirects it follows, what
  it reads. The predicates of \<open>net.IP\<close> are those of Go's library, on the bytes of an address. The lemmas show the
  test equal to a list of address ranges, compared as numbers.

  The resolver, the transport and the JSON decoder are arguments.
\<close>

unbundle bit_operations_syntax

section \<open>Addresses\<close>

type_synonym byte = "8 word"
type_synonym ip = "byte list"

definition v4_prefix :: ip where
  "v4_prefix = [0, 0, 0, 0, 0, 0, 0, 0, 0, 0, 255, 255]"

definition to4 :: "ip \<Rightarrow> ip option" where
  "to4 a = (if length a = 4 then Some a
     else if length a = 16 \<and> take 12 a = v4_prefix then Some (drop 12 a) else None)"

definition ip_equal :: "ip \<Rightarrow> ip \<Rightarrow> bool" where
  "ip_equal a b \<longleftrightarrow>
     (if length a = length b then a = b
      else if length a = 4 \<and> length b = 16 then take 12 b = v4_prefix \<and> a = drop 12 b
      else if length a = 16 \<and> length b = 4 then take 12 a = v4_prefix \<and> drop 12 a = b
      else False)"

definition ipv4 :: "byte \<Rightarrow> byte \<Rightarrow> byte \<Rightarrow> byte \<Rightarrow> ip" where
  "ipv4 a b c d = v4_prefix @ [a, b, c, d]"

definition is_unspecified :: "ip \<Rightarrow> bool" where
  "is_unspecified a \<longleftrightarrow> ip_equal a (ipv4 0 0 0 0) \<or> ip_equal a (replicate 16 0)"

definition ip_is_loopback :: "ip \<Rightarrow> bool" where
  "ip_is_loopback a \<longleftrightarrow>
     (case to4 a of Some v \<Rightarrow> v ! 0 = 127 | None \<Rightarrow> ip_equal a (replicate 15 0 @ [1]))"

definition is_multicast :: "ip \<Rightarrow> bool" where
  "is_multicast a \<longleftrightarrow>
     (case to4 a of Some v \<Rightarrow> v ! 0 AND 0xF0 = 0xE0 | None \<Rightarrow> length a = 16 \<and> a ! 0 = 0xFF)"

definition is_link_local_unicast :: "ip \<Rightarrow> bool" where
  "is_link_local_unicast a \<longleftrightarrow>
     (case to4 a of
        Some v \<Rightarrow> v ! 0 = 169 \<and> v ! 1 = 254
      | None \<Rightarrow> length a = 16 \<and> a ! 0 = 0xFE \<and> a ! 1 AND 0xC0 = 0x80)"

definition is_global_unicast :: "ip \<Rightarrow> bool" where
  "is_global_unicast a \<longleftrightarrow>
     (length a = 4 \<or> length a = 16) \<and> \<not> ip_equal a (ipv4 255 255 255 255) \<and> \<not> is_unspecified a
     \<and> \<not> ip_is_loopback a \<and> \<not> is_multicast a \<and> \<not> is_link_local_unicast a"

definition is_private :: "ip \<Rightarrow> bool" where
  "is_private a \<longleftrightarrow>
     (case to4 a of
        Some v \<Rightarrow> v ! 0 = 10 \<or> v ! 0 = 172 \<and> v ! 1 AND 0xF0 = 16 \<or> v ! 0 = 192 \<and> v ! 1 = 168
      | None \<Rightarrow> length a = 16 \<and> a ! 0 AND 0xFE = 0xFC)"

text \<open>\<open>IPNet.Contains\<close>, on a network and the bytes of its mask.\<close>

definition net_contains :: "ip \<times> ip \<Rightarrow> ip \<Rightarrow> bool" where
  "net_contains n a =
     (case n of (net, m) \<Rightarrow>
        let x = (case to4 a of Some v \<Rightarrow> v | None \<Rightarrow> a)
        in length x = length net \<and> list_all (\<lambda>((p, q), k). p AND k = q AND k) (zip (zip net x) m))"

section \<open>The test\<close>

definition extra_blocked :: "(ip \<times> ip) list" where
  "extra_blocked =
     [([100, 64, 0, 0], [0xFF, 0xC0, 0, 0]),
      ([0, 0x64, 0xFF, 0x9B] @ replicate 12 0, replicate 12 0xFF @ replicate 4 0),
      ([0, 0x64, 0xFF, 0x9B, 0, 1] @ replicate 10 0, replicate 6 0xFF @ replicate 10 0),
      ([0x20, 0x02, 0xA9, 0xFE] @ replicate 12 0, replicate 4 0xFF @ replicate 12 0)]"

definition blocked :: "ip \<Rightarrow> bool \<Rightarrow> bool" where
  "blocked a allow_loopback =
     (if ip_is_loopback a then \<not> allow_loopback
      else if \<not> is_global_unicast a then True
      else if is_private a then True
      else list_ex (\<lambda>n. net_contains n a) extra_blocked)"

section \<open>The client\<close>

datatype safe_error =
    BadAddress
  | Resolve
  | NoAddresses string
  | Disallowed ip
  | TooManyRedirects
  | RedirectScheme
  | NotHttps string
  | BadRequest
  | Transport
  | HttpStatus int
  | ReadBody
  | DecodeBody

text \<open>The dialer: the address it hands on, from what the resolver answers.\<close>

definition dial_target :: "bool \<Rightarrow> (string \<Rightarrow> ip list option) \<Rightarrow> string \<Rightarrow> safe_error + ip" where
  "dial_target allow_loopback lookup addr =
     and_then (need BadAddress (split_host addr)) (\<lambda>host.
     and_then (need Resolve (lookup host)) (\<lambda>ips.
     case ips of
       [] \<Rightarrow> Inl (NoAddresses host)
     | first # _ \<Rightarrow>
         (case find (\<lambda>a. blocked a allow_loopback) ips of Some a \<Rightarrow> Inl (Disallowed a) | None \<Rightarrow> Inr first)))"

text \<open>\<open>CheckRedirect\<close>: how many requests were made before, and the scheme of the next.\<close>

definition check_redirect :: "nat \<Rightarrow> string \<Rightarrow> safe_error option" where
  "check_redirect via scheme =
     (if via \<ge> 3 then Some TooManyRedirects else if scheme \<noteq> ''https'' then Some RedirectScheme else None)"

text \<open>\<open>http.Client.Do\<close>: the answer to a request is final or sends the client on; what it asked for is recorded.\<close>

datatype answer = Final int string | Redirect string

function follow :: "(string \<Rightarrow> string) \<Rightarrow> (string \<Rightarrow> answer option) \<Rightarrow> string \<Rightarrow> string list
    \<Rightarrow> string list \<times> (safe_error + (int \<times> string))" where
  "follow scheme_of send url via =
     (case send url of
        None \<Rightarrow> (via @ [url], Inl Transport)
      | Some (Final code body) \<Rightarrow> (via @ [url], Inr (code, body))
      | Some (Redirect url') \<Rightarrow>
          (case check_redirect (length via + 1) (scheme_of url') of
             Some e \<Rightarrow> (via @ [url], Inl e)
           | None \<Rightarrow> follow scheme_of send url' (via @ [url])))"
  by pat_completeness auto

termination
  by (relation "measure (\<lambda>(_, _, _, via). 3 - length via)") (auto simp: check_redirect_def split: if_splits)

declare follow.simps [simp del]

definition get_json ::
    "(string \<Rightarrow> string) \<Rightarrow> (string \<Rightarrow> answer option) \<Rightarrow> (string \<Rightarrow> bool) \<Rightarrow> (string \<Rightarrow> 'v option) \<Rightarrow> string \<Rightarrow> nat
     \<Rightarrow> string list \<times> (safe_error + 'v)" where
  "get_json scheme_of send well_formed decode url max_bytes =
     (if \<not> has_prefix ''https://'' url then ([], Inl (NotHttps url))
      else if \<not> well_formed url then ([], Inl BadRequest)
      else case follow scheme_of send url [] of
             (sent, Inl e) \<Rightarrow> (sent, Inl e)
           | (sent, Inr (code, body)) \<Rightarrow>
               if code \<noteq> 200 then (sent, Inl (HttpStatus code))
               else (sent, need DecodeBody (decode (take max_bytes body))))"

section \<open>Ranges\<close>

definition ip_value :: "ip \<Rightarrow> nat" where
  "ip_value a = foldl (\<lambda>v b. v * 256 + unat b) 0 a"

definition in_range :: "ip \<times> nat \<Rightarrow> ip \<Rightarrow> bool" where
  "in_range n a =
     (case n of (net, bits) \<Rightarrow>
        length a = length net \<and> ip_value a div 2 ^ (8 * length a - bits) = ip_value net div 2 ^ (8 * length a - bits))"

lemma foldl_value: "foldl (\<lambda>v b. v * 256 + unat (b :: byte)) k a = k * 256 ^ length a + ip_value a"
proof (induction a arbitrary: k)
  case (Cons b a)
  show ?case
    using Cons [of "k * 256 + unat b"] Cons [of "unat b"] by (simp add: ip_value_def algebra_simps)
qed (simp add: ip_value_def)

lemma ip_value_simps [simp]:
  "ip_value [] = 0" "ip_value (b # a) = unat b * 256 ^ length a + ip_value a"
  using foldl_value [of "unat b" a] by (simp_all add: ip_value_def)

lemma ip_value_append: "ip_value (a @ b) = ip_value a * 256 ^ length b + ip_value b"
  using foldl_value [of "ip_value a" b] by (simp add: ip_value_def)

lemma ip_value_less: "ip_value a < 256 ^ length a"
proof (induction a)
  case (Cons b a)
  have "unat b * 256 ^ length a + ip_value a < unat b * 256 ^ length a + 256 ^ length a" using Cons by simp
  also have "\<dots> = (unat b + 1) * 256 ^ length a" by simp
  also have "\<dots> \<le> 256 * 256 ^ length a" using unsigned_less [of b, where 'a = nat] by (intro mult_le_mono1) simp
  finally show ?case by simp
qed simp

lemma ip_value_inj: "length a = length b \<Longrightarrow> ip_value a = ip_value b \<Longrightarrow> a = b"
proof (induction a b rule: list_induct2)
  case (Cons x a y b)
  have v: "(unat x * 256 ^ length a + ip_value a) div 256 ^ length a = unat x"
    "(unat y * 256 ^ length a + ip_value b) div 256 ^ length a = unat y"
    using ip_value_less [of a] ip_value_less [of b] Cons.hyps by simp_all
  then have "unat x = unat y" using Cons.prems Cons.hyps by (metis ip_value_simps(2))
  then show ?case using Cons by (simp add: unsigned_word_eqI)
qed simp

lemma in_range_prefix:
  assumes "length xs = length us" and "length ys = length vs" and "s \<le> 8 * length us"
  shows "in_range (us @ vs, 8 * length us - s) (xs @ ys) \<longleftrightarrow> ip_value xs div 2 ^ s = ip_value us div 2 ^ s"
proof -
  have e: "8 * length (xs @ ys) - (8 * length us - s) = 8 * length vs + s" using assms by simp
  have pow: "2 ^ (8 * length vs + s) = (256 :: nat) ^ length vs * 2 ^ s" by (simp add: power_add power_mult)
  have "ip_value (xs @ ys) div 256 ^ length vs = ip_value xs" "ip_value (us @ vs) div 256 ^ length vs = ip_value us"
    using ip_value_less [of ys] ip_value_less [of vs] assms by (simp_all add: ip_value_append)
  then show ?thesis
    using assms by (auto simp: in_range_def e pow div_mult2_eq)
qed

text \<open>What is refused, as ranges: seven of the first kind, with the broadcast address, and eight of the second.\<close>

definition refused_v4 :: "(ip \<times> nat) list" where
  "refused_v4 =
     [([127, 0, 0, 0], 8), ([0, 0, 0, 0], 32), ([255, 255, 255, 255], 32), ([224, 0, 0, 0], 4), ([169, 254, 0, 0], 16),
      ([10, 0, 0, 0], 8), ([172, 16, 0, 0], 12), ([192, 168, 0, 0], 16), ([100, 64, 0, 0], 10)]"

definition refused_v6 :: "(ip \<times> nat) list" where
  "refused_v6 =
     [(replicate 15 0 @ [1], 128), (replicate 16 0, 128), (0xFF # replicate 15 0, 8), (0xFE # 0x80 # replicate 14 0, 10),
      (0xFC # replicate 15 0, 7), ([0, 0x64, 0xFF, 0x9B] @ replicate 12 0, 96), ([0, 0x64, 0xFF, 0x9B, 0, 1] @ replicate 10 0, 48),
      ([0x20, 0x02, 0xA9, 0xFE] @ replicate 12 0, 32)]"

lemma byte_less: "unat (b :: byte) < 256"
  using unsigned_less [of b] by simp

text \<open>Masking the high bits of a byte, checked for every byte.\<close>

lemma int_masks:
  fixes k :: int
  assumes "0 \<le> k" and "k < 256"
  shows "k AND 0xF0 = k div 16 * 16" "k AND 0xC0 = k div 64 * 64" "k AND 0xFE = k div 2 * 2"
proof -
  have "list_all (\<lambda>k :: int. k AND 0xF0 = k div 16 * 16 \<and> k AND 0xC0 = k div 64 * 64 \<and> k AND 0xFE = k div 2 * 2) (map int [0..<256])"
    by code_simp
  moreover have "k \<in> set (map int [0..<256])" using assms by (auto intro!: image_eqI [of _ _ "nat k"])
  ultimately show "k AND 0xF0 = k div 16 * 16" "k AND 0xC0 = k div 64 * 64" "k AND 0xFE = k div 2 * 2"
    unfolding list_all_iff by blast+
qed

lemma byte_masks:
  "uint (b AND 0xF0) = uint b div 16 * 16" "uint (b AND 0xC0) = uint b div 64 * 64" "uint (b AND 0xFE) = uint b div 2 * 2" for b :: byte
  using int_masks [of "uint b"] uint_lt2p [of b] by (simp_all add: unsigned_and_eq)

lemma unat_div_eq: "unat b div numeral m = k \<longleftrightarrow> uint b div numeral m = int k" for b :: byte
proof -
  have "int (unat b div numeral m) = uint b div numeral m" by (simp add: zdiv_int)
  then show ?thesis by (metis of_nat_eq_iff)
qed

lemma masks:
  "b AND 0xF0 = 0xE0 \<longleftrightarrow> unat b div 16 = 14" "b AND 0xF0 = 16 \<longleftrightarrow> unat b div 16 = 1"
  "b AND 0xC0 = 0x80 \<longleftrightarrow> unat b div 64 = 2" "b AND 0xC0 = 64 \<longleftrightarrow> unat b div 64 = 1"
  "b AND 0xFE = 0xFC \<longleftrightarrow> unat b div 2 = 126" for b :: byte
  by (simp_all add: word_uint_eq_iff byte_masks unat_div_eq)

lemma same_prefix:
  "length xs = length us \<Longrightarrow> length ys = length vs \<Longrightarrow> in_range (us @ vs, 8 * length us) (xs @ ys) \<longleftrightarrow> xs = us"
  using in_range_prefix [of xs us ys vs 0] ip_value_inj [of xs us] by auto

lemma v4_ranges:
  "in_range ([127, 0, 0, 0], 8) [a, b, c, d] \<longleftrightarrow> a = 127"
  "in_range ([0, 0, 0, 0], 32) [a, b, c, d] \<longleftrightarrow> [a, b, c, d] = [0, 0, 0, 0]"
  "in_range ([255, 255, 255, 255], 32) [a, b, c, d] \<longleftrightarrow> [a, b, c, d] = [255, 255, 255, 255]"
  "in_range ([224, 0, 0, 0], 4) [a, b, c, d] \<longleftrightarrow> unat a div 16 = 14"
  "in_range ([169, 254, 0, 0], 16) [a, b, c, d] \<longleftrightarrow> a = 169 \<and> b = 254"
  "in_range ([10, 0, 0, 0], 8) [a, b, c, d] \<longleftrightarrow> a = 10"
  "in_range ([172, 16, 0, 0], 12) [a, b, c, d] \<longleftrightarrow> a = 172 \<and> unat b div 16 = 1"
  "in_range ([192, 168, 0, 0], 16) [a, b, c, d] \<longleftrightarrow> a = 192 \<and> b = 168"
  "in_range ([100, 64, 0, 0], 10) [a, b, c, d] \<longleftrightarrow> a = 100 \<and> unat b div 64 = 1"
proof -
  have split: "(unat a * 256 + unat b) div 16 = unat a * 16 + unat b div 16" "(unat a * 256 + unat b) div 64 = unat a * 4 + unat b div 64"
    by linarith+
  have word: "a = 172 \<longleftrightarrow> unat a = 172" "a = 100 \<longleftrightarrow> unat a = 100" by (simp_all add: word_unat_eq_iff)
  have small: "unat b div 16 < 16" "unat b div 64 < 4" using byte_less [of b] by linarith+
  have digit: "q < b \<Longrightarrow> x * b + q = n \<longleftrightarrow> x = n div b \<and> q = n mod b" for x q b n :: nat
    by auto
  have digits: "q < 16 \<Longrightarrow> x * 16 + q = 2753 \<longleftrightarrow> x = 172 \<and> q = 1" "q < 4 \<Longrightarrow> x * 4 + q = 401 \<longleftrightarrow> x = 100 \<and> q = 1" for x q :: nat
    by (simp_all add: digit)
  show "in_range ([172, 16, 0, 0], 12) [a, b, c, d] \<longleftrightarrow> a = 172 \<and> unat b div 16 = 1"
    using in_range_prefix [of "[a, b]" "[172, 16]" "[c, d]" "[0, 0]" 4] small by (simp add: split word digits)
  show "in_range ([100, 64, 0, 0], 10) [a, b, c, d] \<longleftrightarrow> a = 100 \<and> unat b div 64 = 1"
    using in_range_prefix [of "[a, b]" "[100, 64]" "[c, d]" "[0, 0]" 6] small by (simp add: split word digits)
  show "in_range ([224, 0, 0, 0], 4) [a, b, c, d] \<longleftrightarrow> unat a div 16 = 14"
    using in_range_prefix [of "[a]" "[224]" "[b, c, d]" "[0, 0, 0]" 4] by simp
qed (use same_prefix [of "[a]" "[127]" "[b, c, d]" "[0, 0, 0]"] same_prefix [of "[a]" "[10]" "[b, c, d]" "[0, 0, 0]"]
       same_prefix [of "[a, b]" "[169, 254]" "[c, d]" "[0, 0]"] same_prefix [of "[a, b]" "[192, 168]" "[c, d]" "[0, 0]"]
       same_prefix [of "[a, b, c, d]" "[0, 0, 0, 0]" "[]" "[]"] same_prefix [of "[a, b, c, d]" "[255, 255, 255, 255]" "[]" "[]"] in simp_all)

lemma full_mask [simp]: "b AND 0xFF = b" for b :: byte
proof -
  have "(0xFF :: byte) = - 1" by simp
  then show ?thesis by (simp only: and.right_neutral)
qed

lemma to4_Some:
  assumes "to4 x = Some v"
  obtains a b c d where "v = [a, b, c, d]" and "x = v \<or> x = v4_prefix @ v"
proof -
  have "length v = 4" using assms by (auto simp: to4_def split: if_splits)
  moreover have "x = v \<or> x = v4_prefix @ v"
    using assms by (auto simp: to4_def split: if_splits) (metis append_take_drop_id)
  ultimately show thesis by (auto simp: numeral_eq_Suc length_Suc_conv intro: that)
qed

lemma v4_prefix_length [simp]: "length v4_prefix = 12"
  by (simp add: v4_prefix_def)

lemma v4_prefix_not_zero: "v4_prefix \<noteq> replicate 12 0"
proof
  assume "v4_prefix = replicate 12 0"
  then have "v4_prefix ! 11 = replicate 12 0 ! 11" by (rule arg_cong)
  then show False by (simp add: v4_prefix_def)
qed

lemma equal_v4:
  assumes "to4 x = Some v"
  shows "ip_equal x (ipv4 a b c d) \<longleftrightarrow> v = [a, b, c, d]" and "\<not> ip_equal x (replicate 16 0)"
proof -
  obtain p q r s where v: "v = [p, q, r, s]" "x = v \<or> x = v4_prefix @ v" using assms by (rule to4_Some)
  then show "ip_equal x (ipv4 a b c d) \<longleftrightarrow> v = [a, b, c, d]" by (auto simp: ip_equal_def ipv4_def)
  have "replicate 16 0 = replicate 12 0 @ replicate 4 (0 :: byte)" by (simp flip: replicate_add)
  then show "\<not> ip_equal x (replicate 16 0)" using v v4_prefix_not_zero by (auto simp: ip_equal_def)
qed

lemma blocked_v4:
  assumes "to4 x = Some v"
  shows "blocked x False \<longleftrightarrow> (\<exists>n \<in> set refused_v4. in_range n v)"
proof -
  obtain a b c d where v: "v = [a, b, c, d]" "x = v \<or> x = v4_prefix @ v"
    using assms by (rule to4_Some)
  then have x: "length x = 4 \<or> length x = 16" by auto
  have contains: "list_ex (\<lambda>n. net_contains n x) extra_blocked \<longleftrightarrow> a = 100 \<and> unat b div 64 = 1"
  proof -
    have "64 AND 0xC0 = b AND 0xC0 \<longleftrightarrow> b AND 0xC0 = 64" by auto
    then show ?thesis using masks(4) [of b] by (auto simp: extra_blocked_def net_contains_def assms v(1))
  qed
  show ?thesis
    unfolding blocked_def contains is_global_unicast_def is_unspecified_def ip_is_loopback_def is_multicast_def is_link_local_unicast_def
      is_private_def equal_v4(1) [OF assms]
    using x equal_v4(2) [OF assms] by (simp add: assms v(1) masks refused_v4_def v4_ranges) blast
qed

lemma blocked_v6:
  assumes "to4 x = None" and "length x = 16"
  shows "blocked x False \<longleftrightarrow> (\<exists>n \<in> set refused_v6. in_range n x)"
proof -
  obtain b0 b1 b2 b3 b4 b5 b6 b7 b8 b9 b10 b11 b12 b13 b14 b15
    where x: "x = [b0, b1, b2, b3, b4, b5, b6, b7, b8, b9, b10, b11, b12, b13, b14, b15]"
    using assms(2) by (auto simp: numeral_eq_Suc length_Suc_conv)
  have not_mapped: "x \<noteq> ipv4 a b c d" for a b c d
    using assms by (auto simp: to4_def ipv4_def)
  have equal: "ip_equal x y \<longleftrightarrow> x = y" if "length y = 16" for y
    using assms(2) that by (simp add: ip_equal_def)
  have exact: "in_range (y, 128) x \<longleftrightarrow> x = y" if "length y = 16" for y
    using same_prefix [of x y "[]" "[]"] assms(2) that by simp
  have ranges: "in_range (0xFF # replicate 15 0, 8) x \<longleftrightarrow> b0 = 0xFF"
    "in_range ([0x20, 0x02, 0xA9, 0xFE] @ replicate 12 0, 32) x \<longleftrightarrow> [b0, b1, b2, b3] = [0x20, 0x02, 0xA9, 0xFE]"
    "in_range ([0, 0x64, 0xFF, 0x9B, 0, 1] @ replicate 10 0, 48) x \<longleftrightarrow> [b0, b1, b2, b3, b4, b5] = [0, 0x64, 0xFF, 0x9B, 0, 1]"
    "in_range ([0, 0x64, 0xFF, 0x9B] @ replicate 12 0, 96) x \<longleftrightarrow>
       [b0, b1, b2, b3, b4, b5, b6, b7, b8, b9, b10, b11] = [0, 0x64, 0xFF, 0x9B] @ replicate 8 0"
    using same_prefix [of "[b0]" "[0xFF]" "drop 1 x" "replicate 15 0"]
      same_prefix [of "[b0, b1, b2, b3]" "[0x20, 0x02, 0xA9, 0xFE]" "drop 4 x" "replicate 12 0"]
      same_prefix [of "[b0, b1, b2, b3, b4, b5]" "[0, 0x64, 0xFF, 0x9B, 0, 1]" "drop 6 x" "replicate 10 0"]
      same_prefix [of "take 12 x" "[0, 0x64, 0xFF, 0x9B] @ replicate 8 0" "drop 12 x" "replicate 4 0"]
    unfolding x by (simp_all add: numeral_eq_Suc)
  have split: "(unat b0 * 256 + unat b1) div 64 = unat b0 * 4 + unat b1 div 64" "b0 = 0xFE \<longleftrightarrow> unat b0 = 254" "unat b1 div 64 < 4"
    using byte_less [of b1] by (linarith, simp add: word_unat_eq_iff, linarith)
  have digits: "q < 4 \<Longrightarrow> k * 4 + q = 1018 \<longleftrightarrow> k = 254 \<and> q = 2" for k q :: nat by presburger
  have bits: "in_range (0xFE # 0x80 # replicate 14 0, 10) x \<longleftrightarrow> b0 = 0xFE \<and> unat b1 div 64 = 2"
    "in_range (0xFC # replicate 15 0, 7) x \<longleftrightarrow> unat b0 div 2 = 126"
  proof -
    have cut_x: "x = b0 # b1 # drop 2 x" "x = b0 # drop 1 x" "length (drop 2 x) = 14" "length (drop 1 x) = 15"
      using assms(2) by (simp_all add: x)
    have "in_range (0xFE # 0x80 # replicate 14 0, 10) (b0 # b1 # drop 2 x) \<longleftrightarrow> unat b0 * 4 + unat b1 div 64 = 1018"
      using in_range_prefix [of "[b0, b1]" "[0xFE, 0x80]" "drop 2 x" "replicate 14 0" 6] cut_x(3) by (simp add: split(1))
    then show "in_range (0xFE # 0x80 # replicate 14 0, 10) x \<longleftrightarrow> b0 = 0xFE \<and> unat b1 div 64 = 2"
      using cut_x(1) digits [OF split(3), of "unat b0"] split(2) by simp
    have "in_range (0xFC # replicate 15 0, 7) (b0 # drop 1 x) \<longleftrightarrow> unat b0 div 2 = 126"
      using in_range_prefix [of "[b0]" "[0xFC]" "drop 1 x" "replicate 15 0" 1] cut_x(4) by simp
    then show "in_range (0xFC # replicate 15 0, 7) x \<longleftrightarrow> unat b0 div 2 = 126"
      using cut_x(2) by simp
  qed
  have contains: "list_ex (\<lambda>n. net_contains n x) extra_blocked \<longleftrightarrow>
      [b0, b1, b2, b3, b4, b5, b6, b7, b8, b9, b10, b11] = [0, 0x64, 0xFF, 0x9B] @ replicate 8 0
      \<or> [b0, b1, b2, b3, b4, b5] = [0, 0x64, 0xFF, 0x9B, 0, 1] \<or> [b0, b1, b2, b3] = [0x20, 0x02, 0xA9, 0xFE]"
    using assms(1) unfolding x by (auto simp: extra_blocked_def net_contains_def numeral_eq_Suc)
  have head: "x ! 0 = b0" "x ! Suc 0 = b1" using x by simp_all
  show ?thesis
    unfolding blocked_def contains is_global_unicast_def is_unspecified_def ip_is_loopback_def is_multicast_def is_link_local_unicast_def
      is_private_def
    using assms not_mapped by (simp add: equal ipv4_def refused_v6_def ranges [unfolded append_Cons append_Nil] bits exact masks head) blast
qed

section \<open>Properties\<close>

text \<open>
  C26: The client dials an address exactly when it is in none of the ranges refused. An address that is, or maps, one of four
  bytes is compared with the first list, one of sixteen with the second, as numbers; an address of another length is refused.
  Permitting loopback lets through the loopback addresses and nothing else.
\<close>

theorem blocked_exact:
  "(blocked x False \<longleftrightarrow> (case to4 x of Some v \<Rightarrow> \<exists>n \<in> set refused_v4. in_range n v
     | None \<Rightarrow> length x \<noteq> 16 \<or> (\<exists>n \<in> set refused_v6. in_range n x)))
   \<and> (blocked x True \<longleftrightarrow> blocked x False \<and> \<not> ip_is_loopback x)"
proof (rule conjI)
  show "blocked x True \<longleftrightarrow> blocked x False \<and> \<not> ip_is_loopback x" by (simp add: blocked_def)
  show "blocked x False \<longleftrightarrow> (case to4 x of Some v \<Rightarrow> \<exists>n \<in> set refused_v4. in_range n v
     | None \<Rightarrow> length x \<noteq> 16 \<or> (\<exists>n \<in> set refused_v6. in_range n x))"
  proof (cases "to4 x")
    case None
    show ?thesis
    proof (cases "length x = 16")
      case False
      have "length x \<noteq> 4" using None by (auto simp: to4_def)
      then have "\<not> is_global_unicast x" using False by (simp add: is_global_unicast_def)
      then show ?thesis using None False by (simp add: blocked_def)
    qed (use None blocked_v6 in simp)
  qed (use blocked_v4 in simp)
qed

lemma follow_facts:
  "length (fst (follow scheme_of send url via)) \<le> max 3 (length via + 1)
   \<and> (\<exists>more. fst (follow scheme_of send url via) = via @ url # more \<and> (\<forall>u \<in> set more. scheme_of u = ''https''))"
proof (induction scheme_of send url via rule: follow.induct)
  case (1 scheme_of send url via)
  show ?case
  proof (cases "\<exists>url'. send url = Some (Redirect url') \<and> check_redirect (length via + 1) (scheme_of url') = None")
    case True
    then obtain url' where sent_on: "send url = Some (Redirect url')" "check_redirect (length via + 1) (scheme_of url') = None" by blast
    from 1 [OF this(1) refl this(2)] show ?thesis
      using sent_on by (subst (1 2) follow.simps) (auto simp: check_redirect_def split: if_splits)
  next
    case False
    then have "fst (follow scheme_of send url via) = via @ [url]"
      by (subst follow.simps) (auto split: option.split answer.split)
    then show ?thesis by simp
  qed
qed

lemma dial_target_resolved:
  assumes "dial_target al lookup addr = Inr a"
  shows "\<exists>host ips. lookup host = Some ips \<and> a \<in> set ips \<and> (\<forall>x \<in> set ips. \<not> blocked x al)"
proof -
  obtain host ips where h: "lookup host = Some ips"
      "(case ips of [] \<Rightarrow> Inl (NoAddresses host)
        | first # _ \<Rightarrow> (case find (\<lambda>x. blocked x al) ips of Some x \<Rightarrow> Inl (Disallowed x) | None \<Rightarrow> Inr first)) = Inr a"
    using assms unfolding dial_target_def step_Inr_iff by blast
  then obtain rest where "ips = a # rest" "find (\<lambda>x. blocked x al) ips = None"
    by (cases ips; cases "find (\<lambda>x. blocked x al) ips") auto
  then have "a \<in> set ips \<and> (\<forall>x \<in> set ips. \<not> blocked x al)" by (auto simp del: find.simps simp: find_None_iff)
  then show ?thesis using h(1) by blast
qed

text \<open>
  Whatever the servers answer, a fetch ends after at most three requests, the first to a URL that starts with https and every
  other to one whose scheme is https, and decodes at most the cap; and each connection goes to an address the resolver
  answered, in a list with none that is refused.
\<close>

theorem safe_fetch:
  assumes "get_json scheme_of send well_formed decode url limit = (sent, r)" and "dial_target al lookup addr = Inr a"
  shows "length sent \<le> 3 \<and> (\<forall>u \<in> set (tl sent). scheme_of u = ''https'') \<and> (sent \<noteq> [] \<longrightarrow> has_prefix ''https://'' (hd sent))
     \<and> (\<forall>v. r = Inr v \<longrightarrow> (\<exists>body. length body \<le> limit \<and> decode body = Some v))
     \<and> (\<exists>host ips. lookup host = Some ips \<and> a \<in> set ips \<and> (\<forall>x \<in> set ips. \<not> blocked x al))"
proof (cases "has_prefix ''https://'' url \<and> well_formed url")
  case True
  obtain more where more: "fst (follow scheme_of send url []) = url # more" "\<forall>u \<in> set more. scheme_of u = ''https''"
      "length (fst (follow scheme_of send url [])) \<le> 3"
    using follow_facts [of scheme_of send url "[]"] by auto
  have "sent = fst (follow scheme_of send url [])"
    using assms(1) True by (auto simp: get_json_def split: prod.splits sum.splits if_splits)
  moreover have "\<exists>body. length body \<le> limit \<and> decode body = Some v" if v: "r = Inr v" for v
  proof -
    obtain code body where "decode (take limit body) = Some v"
      using assms(1) v True by (auto simp: get_json_def need_eq_Inr_iff split: prod.splits sum.splits if_splits)
    then show ?thesis by (intro exI [of _ "take limit body"]) simp
  qed
  ultimately show ?thesis using more True dial_target_resolved [OF assms(2)] by simp
next
  case False
  then have "sent = [] \<and> (\<forall>v. r \<noteq> Inr v)" using assms(1) by (auto simp: get_json_def split: if_splits)
  then show ?thesis using dial_target_resolved [OF assms(2)] by simp
qed

theorem safe_fetch_witness:
  "length [''https://a'', ''https://b''] \<le> (3 :: nat) \<and> \<not> blocked [93, 184, 216, 34] False"
proof -
  have dial: "dial_target False (\<lambda>_. Some [[93, 184, 216, 34]]) ''a:443'' = Inr [93, 184, 216, 34]" by code_simp
  have "get_json (take 5) (\<lambda>u. if u = ''https://a'' then Some (Redirect ''https://b'') else Some (Final 200 ''{}''))
      (\<lambda>_. True) Some ''https://a'' 10 = ([''https://a'', ''https://b''], Inr ''{}'')" by code_simp
  from safe_fetch [OF this dial] show ?thesis by auto
qed

text \<open>
  The list of IPv6 transition ranges is not complete: a 6to4 address that embeds 10.0.0.1, and the deprecated compatible form
  of 169.254.169.254, pass the test.
\<close>

lemma embedded_private_addresses_pass:
  "\<not> blocked ([0x20, 0x02, 10, 0, 0, 1] @ replicate 10 0) False" "\<not> blocked (replicate 12 0 @ [169, 254, 169, 254]) False"
  by code_simp+

theorem blocked_exact_witness:
  "blocked [10, 0, 0, 1] False \<and> \<not> blocked [8, 8, 8, 8] False \<and> blocked [127, 0, 0, 1] False \<and> \<not> blocked [127, 0, 0, 1] True"
  using blocked_exact [of "[10, 0, 0, 1]"] blocked_exact [of "[8, 8, 8, 8]"] blocked_exact [of "[127, 0, 0, 1]"]
  by (simp add: to4_def refused_v4_def in_range_def ip_value_def ip_is_loopback_def)

end
