(* ===== verification/OAuthStore.thy ===== *)
theory OAuthStore
  imports SafeHttp Resources
begin

text \<open>
  What the OAuth library Fosite is given: the storage of its codes, tokens and sessions (\<open>internal/auth/storage.go\<close>),
  the resolver of clients named by a URL (\<open>cimd.go\<close>), and the handlers that call it (\<open>handler.go\<close>).

  Fosite is not part of the repository. Its requests are records; its answers, the JSON encoding of the stored
  session and the URL library are arguments. A column that is not used by any query is left out.
\<close>

section \<open>Requests\<close>

datatype token_kind = AuthorizeCode | AccessToken | RefreshToken | IDToken

record oauth_session =
  os_subject :: string
  os_kid :: "string option"
  os_expires :: "token_kind \<rightharpoonup> instant"

definition expires_at :: "oauth_session \<Rightarrow> token_kind \<Rightarrow> instant" where
  "expires_at s k = (case os_expires s k of None \<Rightarrow> zero_time | Some t \<Rightarrow> t)"

record oauth_client =
  oc_id :: string
  oc_secret :: string
  oc_redirects :: "string list"
  oc_grants :: "string list"
  oc_responses :: "string list"
  oc_scopes :: "string list"
  oc_audience :: "string list"
  oc_public :: bool
  oc_auth_method :: "string option"

record oauth_request =
  rq_id :: string
  rq_client :: oauth_client
  rq_requested_at :: instant
  rq_session :: oauth_session
  rq_scopes :: "string list"
  rq_granted_scopes :: "string list"
  rq_audience :: "string list"
  rq_granted_audience :: "string list"
  rq_form :: "(string \<times> string list) list"

text \<open>\<open>url.Values.Get\<close>.\<close>

definition form_get :: "(string \<times> string list) list \<Rightarrow> string \<Rightarrow> string" where
  "form_get f k = (case map_of f k of Some (v # _) \<Rightarrow> v | _ \<Rightarrow> [])"

section \<open>The tables\<close>

datatype oauth_table = Codes | Access | Refresh | Pkce | Oidc

record oauth_row =
  or_signature :: string
  or_request :: string
  or_client :: string
  or_data :: string
  or_requested_at :: instant
  or_expires :: instant
  or_active :: bool

text \<open>A row of \<open>oauth2_clients\<close>: the columns \<open>GetClient\<close> reads, which are those of the client it returns.\<close>

record oauth_db =
  ob_clients :: "oauth_client list"
  ob_rows :: "oauth_table \<Rightarrow> oauth_row list"

datatype store_error =
    NotFound
  | StoreDown
  | StoreConstraint
  | InactiveToken
  | InvalidatedCode
  | NoSessionFound
  | BadSession
  | NotCimd
  | FetchFailed
  | ClientIdMismatch
  | NoRedirects
  | BadRedirect string

section \<open>Clients named by a URL\<close>

record cimd_document =
  cd_client_id :: string
  cd_redirects :: "string list"
  cd_grants :: "string list"
  cd_responses :: "string list"
  cd_scope :: string

definition cimd_max_bytes :: nat where
  "cimd_max_bytes = 64 * 1024"

definition is_cimd :: "string \<Rightarrow> bool" where
  "is_cimd client \<longleftrightarrow> has_prefix ''https://'' client"

definition validate_redirect_uri :: "'r url_lib \<Rightarrow> string \<Rightarrow> bool" where
  "validate_redirect_uri urls raw =
     (case ul_parse urls raw of
        None \<Rightarrow> False
      | Some u \<Rightarrow>
          if \<not> is_abs u \<or> u_host u = [] then False
          else if u_fragment u \<noteq> [] then False
          else if u_scheme u = ''https'' then True
          else u_scheme u = ''http'' \<and> is_loopback (hostname u))"

record 'r cimd_lib =
  cl_urls :: "'r url_lib"
  cl_scheme :: "string \<Rightarrow> string"
  cl_send :: "string \<Rightarrow> answer option"
  cl_well_formed :: "string \<Rightarrow> bool"
  cl_decode :: "string \<Rightarrow> cimd_document option"

definition resolve_cimd :: "'r cimd_lib \<Rightarrow> string \<Rightarrow> store_error + oauth_client" where
  "resolve_cimd lib client =
     (if \<not> is_cimd client then Inl NotCimd
      else and_then (err_as FetchFailed (snd (get_json (cl_scheme lib) (cl_send lib) (cl_well_formed lib) (cl_decode lib) client cimd_max_bytes)))
        (\<lambda>doc.
          if cd_client_id doc \<noteq> client then Inl ClientIdMismatch
          else if cd_redirects doc = [] then Inl NoRedirects
          else case find (\<lambda>u. \<not> validate_redirect_uri (cl_urls lib) u) (cd_redirects doc) of
            Some u \<Rightarrow> Inl (BadRedirect u)
          | None \<Rightarrow>
              Inr \<lparr>oc_id = client, oc_secret = [], oc_redirects = cd_redirects doc,
                   oc_grants = (if cd_grants doc = [] then [''authorization_code''] else cd_grants doc),
                   oc_responses = (if cd_responses doc = [] then [''code''] else cd_responses doc),
                   oc_scopes = go_fields (cd_scope doc), oc_audience = [], oc_public = True, oc_auth_method = None\<rparr>))"

definition get_client :: "'r cimd_lib option \<Rightarrow> oauth_db option \<Rightarrow> string \<Rightarrow> store_error + oauth_client" where
  "get_client cimd q client =
     and_then (need StoreDown q) (\<lambda>s.
     case find (\<lambda>c. oc_id c = client) (ob_clients s) of
       Some c \<Rightarrow> Inr c
     | None \<Rightarrow>
         (case cimd of
            Some lib \<Rightarrow> if is_cimd client then resolve_cimd lib client else Inl NotFound
          | None \<Rightarrow> Inl NotFound))"

section \<open>Storing and reading a session\<close>

record session_wrapper =
  sw_session :: oauth_session
  sw_scopes :: "string list"
  sw_audience :: "string list"
  sw_form :: "(string \<times> string list) list"

record session_codec =
  sc_encode :: "session_wrapper \<Rightarrow> string"
  sc_decode :: "string \<Rightarrow> session_wrapper option"

text \<open>Every session the program makes is a \<open>*openid.DefaultSession\<close>, so the type assertion never fails.\<close>

definition wrap_session :: "oauth_request \<Rightarrow> session_wrapper" where
  "wrap_session r = \<lparr>sw_session = rq_session r, sw_scopes = rq_granted_scopes r, sw_audience = rq_granted_audience r, sw_form = rq_form r\<rparr>"

definition marshal_session :: "session_codec \<Rightarrow> oauth_request \<Rightarrow> string" where
  "marshal_session codec r = sc_encode codec (wrap_session r)"

definition unmarshal_session :: "session_codec \<Rightarrow> string \<Rightarrow> store_error + oauth_session" where
  "unmarshal_session codec data = and_then (need BadSession (sc_decode codec data)) (\<lambda>w. Inr (sw_session w))"

text \<open>The table has its signature as the key, and its client must be a row of the clients.\<close>

definition insert_session ::
    "session_codec \<Rightarrow> oauth_table \<Rightarrow> token_kind \<Rightarrow> string \<Rightarrow> oauth_request \<Rightarrow> bool \<Rightarrow> oauth_db \<Rightarrow> store_error + oauth_db" where
  "insert_session codec tbl kind sig r up s =
     (if \<not> up then Inl StoreDown
      else if sig \<in> or_signature ` set (ob_rows s tbl) \<or> oc_id (rq_client r) \<notin> oc_id ` set (ob_clients s) then Inl StoreConstraint
      else Inr (s\<lparr>ob_rows := (ob_rows s)(tbl := ob_rows s tbl @
             [\<lparr>or_signature = sig, or_request = rq_id r, or_client = oc_id (rq_client r), or_data = marshal_session codec r,
               or_requested_at = rq_requested_at r, or_expires = expires_at (rq_session r) kind, or_active = True\<rparr>])\<rparr>))"

definition read_request :: "string \<Rightarrow> oauth_client \<Rightarrow> oauth_session \<Rightarrow> instant \<Rightarrow> oauth_request" where
  "read_request rid c sess requested =
     \<lparr>rq_id = rid, rq_client = c, rq_requested_at = requested, rq_session = sess, rq_scopes = [], rq_granted_scopes = [],
      rq_audience = [], rq_granted_audience = [], rq_form = []\<rparr>"

definition row_of :: "oauth_table \<Rightarrow> string \<Rightarrow> oauth_db \<Rightarrow> oauth_row option" where
  "row_of tbl sig s = find (\<lambda>r. or_signature r = sig) (ob_rows s tbl)"

text \<open>\<open>getTokenSession\<close>; the row and the client are read by two queries.\<close>

definition get_token_session ::
    "session_codec \<Rightarrow> 'r cimd_lib option \<Rightarrow> oauth_table \<Rightarrow> string \<Rightarrow> oauth_db option \<Rightarrow> oauth_db option \<Rightarrow> store_error + oauth_request" where
  "get_token_session codec cimd tbl sig q1 q2 =
     and_then (need StoreDown q1) (\<lambda>s.
     and_then (need NotFound (row_of tbl sig s)) (\<lambda>r.
     if \<not> or_active r then Inl InactiveToken
     else and_then (get_client cimd q2 (or_client r)) (\<lambda>c.
          and_then (unmarshal_session codec (or_data r)) (\<lambda>sess.
          Inr (read_request (or_request r) c sess (or_requested_at r))))))"

text \<open>\<open>GetAuthorizeCodeSession\<close> hands out the request of an invalidated code too, with an error.\<close>

definition get_code ::
    "session_codec \<Rightarrow> 'r cimd_lib option \<Rightarrow> string \<Rightarrow> oauth_db option \<Rightarrow> oauth_db option \<Rightarrow> oauth_request option \<times> store_error option" where
  "get_code codec cimd sig q1 q2 =
     (case and_then (need StoreDown q1) (\<lambda>s. need NotFound (row_of Codes sig s)) of
        Inl e \<Rightarrow> (None, Some e)
      | Inr r \<Rightarrow>
          (case and_then (get_client cimd q2 (or_client r)) (\<lambda>c.
                and_then (unmarshal_session codec (or_data r)) (\<lambda>sess.
                Inr (read_request (or_request r) c sess (or_requested_at r)))) of
             Inl e \<Rightarrow> (None, Some e)
           | Inr req \<Rightarrow> (Some req, if \<not> or_active r then Some InvalidatedCode else None)))"

definition get_oidc ::
    "session_codec \<Rightarrow> 'r cimd_lib option \<Rightarrow> string \<Rightarrow> oauth_db option \<Rightarrow> oauth_db option \<Rightarrow> store_error + oauth_request" where
  "get_oidc codec cimd code q1 q2 =
     (case get_token_session codec cimd Oidc code q1 q2 of
        Inl e \<Rightarrow> Inl (if e = NotFound then NoSessionFound else e)
      | Inr r \<Rightarrow> Inr r)"

definition create_code :: "session_codec \<Rightarrow> string \<Rightarrow> oauth_request \<Rightarrow> bool \<Rightarrow> oauth_db \<Rightarrow> store_error + oauth_db" where
  "create_code codec = insert_session codec Codes AuthorizeCode"

definition create_access :: "session_codec \<Rightarrow> string \<Rightarrow> oauth_request \<Rightarrow> bool \<Rightarrow> oauth_db \<Rightarrow> store_error + oauth_db" where
  "create_access codec = insert_session codec Access AccessToken"

definition create_refresh :: "session_codec \<Rightarrow> string \<Rightarrow> oauth_request \<Rightarrow> bool \<Rightarrow> oauth_db \<Rightarrow> store_error + oauth_db" where
  "create_refresh codec = insert_session codec Refresh RefreshToken"

definition create_pkce :: "session_codec \<Rightarrow> string \<Rightarrow> oauth_request \<Rightarrow> bool \<Rightarrow> oauth_db \<Rightarrow> store_error + oauth_db" where
  "create_pkce codec = insert_session codec Pkce AuthorizeCode"

definition create_oidc :: "session_codec \<Rightarrow> string \<Rightarrow> oauth_request \<Rightarrow> bool \<Rightarrow> oauth_db \<Rightarrow> store_error + oauth_db" where
  "create_oidc codec = insert_session codec Oidc IDToken"

definition get_access ::
    "session_codec \<Rightarrow> 'r cimd_lib option \<Rightarrow> string \<Rightarrow> oauth_db option \<Rightarrow> oauth_db option \<Rightarrow> store_error + oauth_request" where
  "get_access codec cimd = get_token_session codec cimd Access"

definition get_refresh ::
    "session_codec \<Rightarrow> 'r cimd_lib option \<Rightarrow> string \<Rightarrow> oauth_db option \<Rightarrow> oauth_db option \<Rightarrow> store_error + oauth_request" where
  "get_refresh codec cimd = get_token_session codec cimd Refresh"

definition get_pkce ::
    "session_codec \<Rightarrow> 'r cimd_lib option \<Rightarrow> string \<Rightarrow> oauth_db option \<Rightarrow> oauth_db option \<Rightarrow> store_error + oauth_request" where
  "get_pkce codec cimd = get_token_session codec cimd Pkce"

lemmas create_defs = create_code_def create_access_def create_refresh_def create_pkce_def create_oidc_def

section \<open>Invalidating\<close>

definition set_inactive :: "oauth_table \<Rightarrow> (oauth_row \<Rightarrow> bool) \<Rightarrow> oauth_db \<Rightarrow> oauth_db" where
  "set_inactive tbl sel s =
     s\<lparr>ob_rows := (ob_rows s)(tbl := map (\<lambda>r. if sel r then r\<lparr>or_active := False\<rparr> else r) (ob_rows s tbl))\<rparr>"

definition delete_rows :: "oauth_table \<Rightarrow> (oauth_row \<Rightarrow> bool) \<Rightarrow> oauth_db \<Rightarrow> oauth_db" where
  "delete_rows tbl sel s = s\<lparr>ob_rows := (ob_rows s)(tbl := filter (\<lambda>r. \<not> sel r) (ob_rows s tbl))\<rparr>"

definition exec :: "bool \<Rightarrow> (oauth_db \<Rightarrow> oauth_db) \<Rightarrow> oauth_db \<Rightarrow> store_error option \<times> oauth_db" where
  "exec up f s = (if up then (None, f s) else (Some StoreDown, s))"

definition invalidate_code :: "bool \<Rightarrow> string \<Rightarrow> oauth_db \<Rightarrow> store_error option \<times> oauth_db" where
  "invalidate_code up code = exec up (set_inactive Codes (\<lambda>r. or_signature r = code))"

definition delete_session :: "oauth_table \<Rightarrow> bool \<Rightarrow> string \<Rightarrow> oauth_db \<Rightarrow> store_error option \<times> oauth_db" where
  "delete_session tbl up sig = exec up (delete_rows tbl (\<lambda>r. or_signature r = sig))"

definition delete_access :: "bool \<Rightarrow> string \<Rightarrow> oauth_db \<Rightarrow> store_error option \<times> oauth_db" where
  "delete_access = delete_session Access"

definition delete_refresh :: "bool \<Rightarrow> string \<Rightarrow> oauth_db \<Rightarrow> store_error option \<times> oauth_db" where
  "delete_refresh = delete_session Refresh"

definition delete_pkce :: "bool \<Rightarrow> string \<Rightarrow> oauth_db \<Rightarrow> store_error option \<times> oauth_db" where
  "delete_pkce = delete_session Pkce"

definition delete_oidc :: "bool \<Rightarrow> string \<Rightarrow> oauth_db \<Rightarrow> store_error option \<times> oauth_db" where
  "delete_oidc = delete_session Oidc"

definition revoke_refresh :: "bool \<Rightarrow> string \<Rightarrow> oauth_db \<Rightarrow> store_error option \<times> oauth_db" where
  "revoke_refresh up rid = exec up (set_inactive Refresh (\<lambda>r. or_request r = rid))"

definition revoke_access :: "bool \<Rightarrow> string \<Rightarrow> oauth_db \<Rightarrow> store_error option \<times> oauth_db" where
  "revoke_access up rid = exec up (delete_rows Access (\<lambda>r. or_request r = rid))"

definition rotate_refresh :: "bool \<Rightarrow> bool \<Rightarrow> string \<Rightarrow> string \<Rightarrow> oauth_db \<Rightarrow> store_error option \<times> oauth_db" where
  "rotate_refresh up1 up2 rid sig s =
     (case exec up1 (set_inactive Refresh (\<lambda>r. or_request r = rid)) s of
        (Some e, s') \<Rightarrow> (Some e, s')
      | (None, s') \<Rightarrow> exec up2 (delete_rows Access (\<lambda>r. or_request r = rid)) s')"

section \<open>Runs of the store\<close>

text \<open>What Fosite may ask of the store, in any order, with the clients changing as they please.\<close>

inductive oauth_step :: "session_codec \<Rightarrow> oauth_db \<Rightarrow> oauth_db \<Rightarrow> bool" for codec where
  create: "insert_session codec tbl kind sig r up s = Inr t \<Longrightarrow> oauth_step codec s t"
| invalidate: "oauth_step codec s (snd (invalidate_code up code s))"
| delete: "tbl \<noteq> Codes \<Longrightarrow> oauth_step codec s (snd (delete_session tbl up sig s))"
| rotate: "oauth_step codec s (snd (rotate_refresh up up' rid sig s))"
| revoke_refresh: "oauth_step codec s (snd (revoke_refresh up rid s))"
| revoke_access: "oauth_step codec s (snd (revoke_access up rid s))"
| clients: "oauth_step codec s (s\<lparr>ob_clients := cs\<rparr>)"

lemma insert_session_Inr:
  assumes "insert_session codec tbl kind sig r up s = Inr t"
  obtains row where "t = s\<lparr>ob_rows := (ob_rows s)(tbl := ob_rows s tbl @ [row])\<rparr>" and "or_signature row = sig"
    and "sig \<notin> or_signature ` set (ob_rows s tbl)" and "or_request row = rq_id r" and "or_client row = oc_id (rq_client r)"
    and "or_data row = marshal_session codec r" and "or_requested_at row = rq_requested_at r" and "or_active row"
    and "oc_id (rq_client r) \<in> oc_id ` set (ob_clients s)"
  using assms unfolding insert_session_def by (auto split: if_splits)

text \<open>How a step changes the rows of one table: a new one with a new signature, some switched off, some deleted.\<close>

definition fewer :: "oauth_row list \<Rightarrow> oauth_row list \<Rightarrow> bool" where
  "fewer rs ts \<longleftrightarrow> (\<exists>keep off. ts = map (\<lambda>r. if off r then r\<lparr>or_active := False\<rparr> else r) (filter keep rs))"

lemma signatures_kept [simp]:
  "map or_signature (map (\<lambda>r. if off r then r\<lparr>or_active := False\<rparr> else r) rs) = map or_signature rs"
  by simp

lemma fewer_refl: "fewer rs rs"
  unfolding fewer_def by (intro exI [of _ "\<lambda>_. True"] exI [of _ "\<lambda>_. False"]) simp

lemma fewer_map: "fewer rs (map (\<lambda>r. if sel r then r\<lparr>or_active := False\<rparr> else r) rs)"
  unfolding fewer_def by (intro exI [of _ "\<lambda>_. True"] exI [of _ sel]) simp

lemma fewer_filter: "fewer rs (filter sel rs)"
  unfolding fewer_def by (intro exI [of _ sel] exI [of _ "\<lambda>_. False"]) simp

lemma ob_rows_updates [simp]:
  "ob_rows (set_inactive tbl sel s) = (ob_rows s)(tbl := map (\<lambda>r. if sel r then r\<lparr>or_active := False\<rparr> else r) (ob_rows s tbl))"
  "ob_rows (delete_rows tbl sel s) = (ob_rows s)(tbl := filter (\<lambda>r. \<not> sel r) (ob_rows s tbl))"
  by (simp_all add: set_inactive_def delete_rows_def)

lemma exec_rows: "ob_rows (snd (exec up f s)) = (if up then ob_rows (f s) else ob_rows s)"
  by (simp add: exec_def)

lemma oauth_step_cases:
  assumes "oauth_step codec s t"
  obtains (new) row where "ob_rows t tbl = ob_rows s tbl @ [row]" and "or_signature row \<notin> or_signature ` set (ob_rows s tbl)"
  | (fewer) "fewer (ob_rows s tbl) (ob_rows t tbl)" and "tbl = Codes \<Longrightarrow> map or_signature (ob_rows t tbl) = map or_signature (ob_rows s tbl)"
  using assms
proof cases
  case (create tbl' kind sig r up)
  from create show thesis
  proof (rule insert_session_Inr)
    fix row
    assume "t = s\<lparr>ob_rows := (ob_rows s)(tbl' := ob_rows s tbl' @ [row])\<rparr>" "or_signature row = sig"
      "sig \<notin> or_signature ` set (ob_rows s tbl')"
    then show thesis
    proof (cases "tbl = tbl'")
      case False
      then have "ob_rows t tbl = ob_rows s tbl" using \<open>t = _\<close> by simp
      then show thesis by (intro fewer) (simp_all add: fewer_refl)
    qed (intro new [of row]; simp)
  qed
qed (rule fewer; auto simp: invalidate_code_def delete_session_def rotate_refresh_def revoke_refresh_def revoke_access_def exec_def
       fewer_refl fewer_map fewer_filter comp_def if_distrib [of or_signature] split: if_splits)+

definition keys_ok :: "oauth_db \<Rightarrow> bool" where
  "keys_ok s \<longleftrightarrow> (\<forall>tbl. distinct (map or_signature (ob_rows s tbl)))"

lemma fewer_signatures: "fewer rs ts \<Longrightarrow> distinct (map or_signature rs) \<Longrightarrow> distinct (map or_signature ts)"
  unfolding fewer_def by (elim exE) (simp only: signatures_kept distinct_map_filter)

lemma keys_ok_step: "oauth_step codec s t \<Longrightarrow> keys_ok s \<Longrightarrow> keys_ok t"
  unfolding keys_ok_def
proof (rule allI)
  fix tbl
  assume step: "oauth_step codec s t" and keys: "\<forall>tbl. distinct (map or_signature (ob_rows s tbl))"
  from step show "distinct (map or_signature (ob_rows t tbl))"
    by (cases rule: oauth_step_cases [where tbl = tbl]) (use keys fewer_signatures in auto)
qed

interpretation keys: one_way "oauth_step codec" keys_ok for codec
  by unfold_locales (rule keys_ok_step)

section \<open>Codes\<close>

definition spent :: "string \<Rightarrow> oauth_db \<Rightarrow> bool" where
  "spent code s \<longleftrightarrow> code \<in> or_signature ` set (ob_rows s Codes) \<and> (\<forall>r \<in> set (ob_rows s Codes). or_signature r = code \<longrightarrow> \<not> or_active r)"

lemma spent_step:
  assumes "oauth_step codec s t" and "spent code s"
  shows "spent code t"
  using assms(1)
proof (cases rule: oauth_step_cases [where tbl = Codes])
  case fewer
  then have "or_signature ` set (ob_rows t Codes) = or_signature ` set (ob_rows s Codes)" by (metis list.set_map)
  then show ?thesis using fewer(1) assms(2) by (auto simp: spent_def fewer_def)
qed (use assms(2) in \<open>auto simp: spent_def\<close>)

interpretation spent: one_way "oauth_step codec" "spent code" for codec code
  by unfold_locales (rule spent_step)

lemma spent_code: "spent code s \<Longrightarrow> snd (get_code codec cimd code (Some s) q) \<noteq> None"
  by (auto simp: get_code_def row_of_def spent_def find_None_iff and_then_def need_def dest!: find_SomeD split: sum.splits option.splits)

text \<open>
  C14: An authorization code is good for one exchange. Once a stored code has been invalidated, reading it reports an
  error, after any run of the store and whatever happens to the clients.
\<close>

theorem code_spent_for_good:
  assumes "row_of Codes code s = Some r" and "(oauth_step codec)\<^sup>*\<^sup>* (snd (invalidate_code True code s)) t"
  shows "snd (get_code codec cimd code (Some t) q) \<noteq> None"
proof -
  have "spent code (snd (invalidate_code True code s))"
    unfolding spent_def
  proof (intro conjI ballI impI)
    have rows: "ob_rows (snd (invalidate_code True code s)) Codes =
        map (\<lambda>r. if or_signature r = code then r\<lparr>or_active := False\<rparr> else r) (ob_rows s Codes)"
      by (simp add: invalidate_code_def exec_def)
    have "code \<in> set (map or_signature (ob_rows s Codes))"
      using assms(1) by (auto simp: row_of_def dest!: find_SomeD)
    then have "code \<in> set (map or_signature (ob_rows (snd (invalidate_code True code s)) Codes))"
      unfolding rows signatures_kept .
    then show "code \<in> or_signature ` set (ob_rows (snd (invalidate_code True code s)) Codes)"
      unfolding list.set_map .
    fix x
    assume "x \<in> set (ob_rows (snd (invalidate_code True code s)) Codes)" "or_signature x = code"
    then obtain y where "x = (if or_signature y = code then y\<lparr>or_active := False\<rparr> else y)" unfolding rows set_map by (elim imageE)
    then show "\<not> or_active x" using \<open>or_signature x = code\<close> by (cases "or_signature y = code") simp_all
  qed
  then show ?thesis using spent.steps_keep [OF assms(2)] spent_code by blast
qed

section \<open>Families of tokens\<close>

lemma row_of_map:
  assumes "\<And>r. or_signature (f r) = or_signature r"
  shows "find (\<lambda>r. or_signature r = sig) (map f rs) = map_option f (find (\<lambda>r. or_signature r = sig) rs)"
  using assms by (induction rs) simp_all

lemma find_filter_other:
  "distinct (map or_signature rs) \<Longrightarrow>
    find (\<lambda>r. or_signature r = sig) (filter keep rs) =
    (case find (\<lambda>r. or_signature r = sig) rs of None \<Rightarrow> None | Some r \<Rightarrow> if keep r then Some r else None)"
proof (induction rs)
  case (Cons r rs)
  then have "or_signature r = sig \<Longrightarrow> find (\<lambda>r. or_signature r = sig) rs = None"
    by (simp add: find_None_iff) (metis image_eqI)
  then show ?case using Cons by simp
qed simp

lemma rotate_refresh_rows:
  assumes "rotate_refresh up1 up2 rid sig s = (None, t)"
  shows "ob_rows t Refresh = map (\<lambda>r. if or_request r = rid then r\<lparr>or_active := False\<rparr> else r) (ob_rows s Refresh)"
    and "ob_rows t Access = filter (\<lambda>r. or_request r \<noteq> rid) (ob_rows s Access)"
    and "\<And>tbl. tbl \<noteq> Refresh \<Longrightarrow> tbl \<noteq> Access \<Longrightarrow> ob_rows t tbl = ob_rows s tbl" and "ob_clients t = ob_clients s"
  using assms by (auto simp: rotate_refresh_def exec_def set_inactive_def delete_rows_def split: if_splits)

text \<open>
  Rotating a refresh token retires its whole family: no refresh or access token of that request can be read any more, and
  every token of another request reads as before.
\<close>

theorem rotation_retires_family:
  assumes "keys_ok s" and "rotate_refresh up1 up2 rid sig s = (None, t)"
  shows "(\<forall>x r. get_refresh codec cimd x (Some t) q = Inr r \<or> get_access codec cimd x (Some t) q = Inr r \<longrightarrow> rq_id r \<noteq> rid)
    \<and> (\<forall>x r. get_refresh codec cimd x (Some s) q = Inr r \<and> rq_id r \<noteq> rid \<longrightarrow> get_refresh codec cimd x (Some t) q = Inr r)
    \<and> (\<forall>x r. get_access codec cimd x (Some s) q = Inr r \<and> rq_id r \<noteq> rid \<longrightarrow> get_access codec cimd x (Some t) q = Inr r)"
proof -
  have refresh: "row_of Refresh x t = map_option (\<lambda>r. if or_request r = rid then r\<lparr>or_active := False\<rparr> else r) (row_of Refresh x s)" for x
    unfolding row_of_def rotate_refresh_rows(1) [OF assms(2)] by (rule row_of_map) simp
  have access: "row_of Access x t = (case row_of Access x s of None \<Rightarrow> None | Some r \<Rightarrow> if or_request r \<noteq> rid then Some r else None)" for x
    unfolding row_of_def rotate_refresh_rows(2) [OF assms(2)] using assms(1) by (intro find_filter_other) (simp add: keys_ok_def)
  have other: "row_of tbl x t = Some row"
    if "tbl = Refresh \<or> tbl = Access" "row_of tbl x s = Some row" "or_request row \<noteq> rid" for tbl x row
    using that refresh [of x] access [of x] by auto
  have gone: "or_request row \<noteq> rid \<or> \<not> or_active row"
    if which: "tbl = Refresh \<or> tbl = Access" and found: "row_of tbl x t = Some row" for tbl x row
    using which
  proof
    assume tbl: "tbl = Refresh"
    obtain r where "row_of Refresh x s = Some r" "row = (if or_request r = rid then r\<lparr>or_active := False\<rparr> else r)"
      using found unfolding tbl refresh by (cases "row_of Refresh x s") simp_all
    then show ?thesis by (cases "or_request r = rid") simp_all
  next
    assume tbl: "tbl = Access"
    show ?thesis using found unfolding tbl access by (cases "row_of Access x s") (simp_all split: if_splits)
  qed
  have reads: "get_token_session codec cimd tbl x (Some u) q = Inr r \<longleftrightarrow>
      (\<exists>row c sess. row_of tbl x u = Some row \<and> or_active row \<and> get_client cimd q (or_client row) = Inr c
        \<and> unmarshal_session codec (or_data row) = Inr sess \<and> r = read_request (or_request row) c sess (or_requested_at row))" for tbl x u r
    by (auto simp: get_token_session_def step_Inr_iff)
  have id_read: "rq_id (read_request rid' c sess since) = rid'" for rid' c sess since by (simp add: read_request_def)
  have lost: "rq_id r \<noteq> rid" if "tbl = Refresh \<or> tbl = Access" "get_token_session codec cimd tbl x (Some t) q = Inr r" for tbl x r
    using that gone [OF that(1)] by (fastforce simp: reads id_read)
  have kept: "get_token_session codec cimd tbl x (Some t) q = Inr r"
    if "tbl = Refresh \<or> tbl = Access" "get_token_session codec cimd tbl x (Some s) q = Inr r" "rq_id r \<noteq> rid" for tbl x r
    using that other [OF that(1)] by (fastforce simp: reads id_read)
  show ?thesis unfolding get_refresh_def get_access_def using lost kept by blast
qed

section \<open>What is read back\<close>

text \<open>
  A stored session comes back with its id, client, time and session, and without the scopes and the audience that were granted
  and without the form of the request, though all three were stored: whatever they were, they read as empty.
\<close>

theorem stored_grant_is_lost:
  assumes "sc_decode codec (sc_encode codec (wrap_session r)) = Some (wrap_session r)" and "insert_session codec tbl kind sig r up s = Inr t"
    and "find (\<lambda>c. oc_id c = oc_id (rq_client r)) (ob_clients s) = Some (rq_client r)"
  shows "get_token_session codec cimd tbl sig (Some t) (Some t) =
      Inr (r\<lparr>rq_scopes := [], rq_granted_scopes := [], rq_audience := [], rq_granted_audience := [], rq_form := []\<rparr>)"
  using assms(2)
proof (rule insert_session_Inr)
  fix row
  assume t: "t = s\<lparr>ob_rows := (ob_rows s)(tbl := ob_rows s tbl @ [row])\<rparr>" and row: "or_signature row = sig"
    "sig \<notin> or_signature ` set (ob_rows s tbl)" "or_request row = rq_id r" "or_client row = oc_id (rq_client r)"
    "or_data row = marshal_session codec r" "or_requested_at row = rq_requested_at r" "or_active row"
  have "find (\<lambda>x. or_signature x = sig) (ob_rows s tbl) = None" using row(2) by (auto simp: find_None_iff)
  then have "row_of tbl sig t = Some row" using t row(1) by (simp add: row_of_def find_append)
  then show ?thesis
    using row assms(1,3) t
    by (simp add: get_token_session_def get_client_def unmarshal_session_def marshal_session_def wrap_session_def read_request_def)
qed

text \<open>
  So the check of the redirect URI, which Fosite makes only when the stored form has one, and the PKCE challenge find nothing.
\<close>

lemma stored_form_empty: "get_token_session codec cimd tbl sig q1 q2 = Inr r \<Longrightarrow> form_get (rq_form r) k = [] \<and> rq_granted_scopes r = []"
  by (auto simp: get_token_session_def step_Inr_iff read_request_def form_get_def split: if_splits)

section \<open>Clients named by a URL\<close>

text \<open>
  A client id resolves to the row of that id when there is one, whatever document is served there; otherwise only to a public
  client of that id, an https URL, whose document names the same URL and has valid redirect URIs, fetched with at most three requests.
\<close>

theorem client_resolution:
  assumes "get_client (Some lib) (Some s) client = Inr c"
  shows "oc_id c = client \<and>
    (c \<in> set (ob_clients s)
     \<or> client \<notin> oc_id ` set (ob_clients s) \<and> has_prefix ''https://'' client \<and> oc_public c \<and> oc_secret c = []
       \<and> oc_redirects c \<noteq> [] \<and> (\<forall>u \<in> set (oc_redirects c). validate_redirect_uri (cl_urls lib) u)
       \<and> length (fst (get_json (cl_scheme lib) (cl_send lib) (cl_well_formed lib) (cl_decode lib) client cimd_max_bytes)) \<le> 3)"
proof (cases "find (\<lambda>c. oc_id c = client) (ob_clients s)")
  case None
  let ?fetch = "get_json (cl_scheme lib) (cl_send lib) (cl_well_formed lib) (cl_decode lib) client cimd_max_bytes"
  have resolved: "resolve_cimd lib client = Inr c" "is_cimd client" using assms None by (auto simp: get_client_def split: if_splits)
  have "length (fst ?fetch) \<le> 3"
    using follow_facts [of "cl_scheme lib" "cl_send lib" client "[]"] by (auto simp: get_json_def split: prod.split sum.split)
  moreover have "oc_id c = client \<and> oc_public c \<and> oc_secret c = [] \<and> oc_redirects c \<noteq> []
      \<and> (\<forall>u \<in> set (oc_redirects c). validate_redirect_uri (cl_urls lib) u)"
    using resolved(1) by (auto simp: resolve_cimd_def step_Inr_iff find_None_iff split: if_splits option.splits)
  moreover have "client \<notin> oc_id ` set (ob_clients s)" using None by (auto simp: find_None_iff)
  ultimately show ?thesis using resolved(2) by (simp add: is_cimd_def)
qed (use assms in \<open>auto simp: get_client_def dest!: find_SomeD\<close>)

text \<open>Such a client has no row, and every table of codes and tokens requires one: nothing can be stored for it.\<close>

lemma cimd_client_gets_nothing:
  "client \<notin> oc_id ` set (ob_clients s) \<Longrightarrow> oc_id (rq_client r) = client \<Longrightarrow> \<exists>e. insert_session codec tbl kind sig r up s = Inl e"
  by (simp add: insert_session_def)

section \<open>Examples\<close>

definition web_client :: oauth_client where
  "web_client = \<lparr>oc_id = ''web'', oc_secret = [], oc_redirects = [''https://web/cb''], oc_grants = [''authorization_code''],
     oc_responses = [''code''], oc_scopes = [''openid''], oc_audience = [], oc_public = True, oc_auth_method = Some ''none''\<rparr>"

definition web_request :: oauth_request where
  "web_request = \<lparr>rq_id = ''q1'', rq_client = web_client, rq_requested_at = 0,
     rq_session = \<lparr>os_subject = ''u1'', os_kid = None, os_expires = Map.empty\<rparr>, rq_scopes = [''openid''],
     rq_granted_scopes = [''openid''], rq_audience = [], rq_granted_audience = [], rq_form = [(''redirect_uri'', [''https://web/cb''])]\<rparr>"

definition web_codec :: session_codec where
  "web_codec = \<lparr>sc_encode = (\<lambda>_. ''data''), sc_decode = (\<lambda>_. Some (wrap_session web_request))\<rparr>"

definition web_store :: oauth_db where
  "web_store = \<lparr>ob_clients = [web_client], ob_rows = (\<lambda>_. [])\<rparr>"

definition store_with :: "oauth_table \<Rightarrow> token_kind \<Rightarrow> string \<Rightarrow> oauth_db" where
  "store_with tbl kind sig = (case insert_session web_codec tbl kind sig web_request True web_store of Inr t \<Rightarrow> t | _ \<Rightarrow> web_store)"

lemma store_with_created: "insert_session web_codec tbl kind sig web_request True web_store = Inr (store_with tbl kind sig)"
  by (simp add: store_with_def insert_session_def web_store_def web_request_def)

theorem stored_grant_is_lost_witness:
  "get_token_session web_codec (None :: unit cimd_lib option) Codes ''c'' (Some (store_with Codes AuthorizeCode ''c''))
     (Some (store_with Codes AuthorizeCode ''c'')) =
   Inr (web_request\<lparr>rq_scopes := [], rq_granted_scopes := [], rq_audience := [], rq_granted_audience := [], rq_form := []\<rparr>)"
  by (rule stored_grant_is_lost [OF _ store_with_created]) (simp_all add: web_codec_def web_store_def web_request_def)

theorem code_spent_for_good_witness:
  "snd (get_code web_codec (None :: unit cimd_lib option) ''c''
     (Some (snd (invalidate_code True ''c'' (store_with Codes AuthorizeCode ''c'')))) None) \<noteq> None"
proof -
  have "\<exists>r. row_of Codes ''c'' (store_with Codes AuthorizeCode ''c'') = Some r"
    by (rule insert_session_Inr [OF store_with_created [of Codes AuthorizeCode "''c''"]]) (simp add: row_of_def web_store_def)
  then show ?thesis using code_spent_for_good [of "''c''" "store_with Codes AuthorizeCode ''c''"] by blast
qed

theorem rotation_retires_family_witness:
  "\<forall>x r. get_refresh web_codec (None :: unit cimd_lib option) x
     (Some (snd (rotate_refresh True True ''q1'' ''r'' (store_with Refresh RefreshToken ''r'')))) None = Inr r \<longrightarrow> rq_id r \<noteq> ''q1''"
proof -
  let ?s = "store_with Refresh RefreshToken ''r''"
  have "keys_ok web_store" by (simp add: keys_ok_def web_store_def)
  then have "keys_ok ?s" by (rule keys_ok_step [OF oauth_step.create [OF store_with_created]])
  moreover have "rotate_refresh True True ''q1'' ''r'' ?s = (None, snd (rotate_refresh True True ''q1'' ''r'' ?s))"
    by (simp add: rotate_refresh_def exec_def)
  ultimately show ?thesis using rotation_retires_family by blast
qed

definition web_url_lib :: "unit url_lib" where
  "web_url_lib = \<lparr>ul_parse = (\<lambda>s. Some \<lparr>u_scheme = take 5 s, u_user = None, u_host = drop 8 s, u_path = [], u_fragment = [], u_rest = ()\<rparr>),
     ul_string = u_host, ul_lower = (\<lambda>s. s)\<rparr>"

definition web_cimd_lib :: "unit cimd_lib" where
  "web_cimd_lib = \<lparr>cl_urls = web_url_lib, cl_scheme = take 5, cl_send = (\<lambda>_. Some (Final 200 ''doc'')), cl_well_formed = (\<lambda>_. True),
     cl_decode = (\<lambda>_. Some \<lparr>cd_client_id = ''https://app'', cd_redirects = [''https://app/cb''], cd_grants = [], cd_responses = [],
       cd_scope = []\<rparr>)\<rparr>"

theorem client_resolution_witness:
  "\<exists>c. get_client (Some web_cimd_lib) (Some web_store) ''https://app'' = Inr c \<and> oc_public c \<and> oc_id c = ''https://app''"
proof -
  have "snd (get_json (cl_scheme web_cimd_lib) (cl_send web_cimd_lib) (cl_well_formed web_cimd_lib) (cl_decode web_cimd_lib)
      ''https://app'' cimd_max_bytes) =
      Inr \<lparr>cd_client_id = ''https://app'', cd_redirects = [''https://app/cb''], cd_grants = [], cd_responses = [], cd_scope = []\<rparr>"
    by (simp add: get_json_def follow.simps web_cimd_lib_def has_prefix_def)
  moreover have "validate_redirect_uri (cl_urls web_cimd_lib) ''https://app/cb''"
    by (simp add: validate_redirect_uri_def web_cimd_lib_def web_url_lib_def is_abs_def)
  ultimately obtain c where c: "get_client (Some web_cimd_lib) (Some web_store) ''https://app'' = Inr c"
    by (simp add: get_client_def resolve_cimd_def web_store_def web_client_def is_cimd_def has_prefix_def)
  have "''https://app'' \<notin> oc_id ` set (ob_clients web_store)" by code_simp
  then show ?thesis using client_resolution [OF c] c by (auto simp: web_store_def web_client_def)
qed

end
