(* ===== verification/Accounts.thy ===== *)
theory Accounts
  imports Passwords OAuthStore
begin

text \<open>
  How a person gets a session: the signed cookie and the anti-forgery token (\<open>internal/auth/session.go\<close>), the
  login, registration and logout handlers (\<open>consent.go\<close>), the users behind them (\<open>internal/user\<close>) and the mailed
  tokens that verify an address, reset a password or log in (\<open>internal/email/service.go\<close>), with the endpoints of
  \<open>internal/server/server.go\<close> that call them.

  HMAC-SHA-256 and SHA-256 are arguments that return bytes. Each statement the code sends to the database has
  a name, and an environment says which of them are answered; an \<open>Exec\<close> whose error the code drops leaves the
  table as it was. The foreign keys to the users, the primary keys and the unique e-mail address are those of
  the schema. A statement on an id that is no UUID is one that is not answered.
\<close>

section \<open>The tables\<close>

record account_row =
  ac_id :: string
  ac_email :: string
  ac_verified :: bool
  ac_name :: string
  ac_avatar :: string
  ac_status :: string
  ac_metadata :: string
  ac_created :: instant
  ac_updated :: instant

record credential_row =
  cr_user :: string
  cr_type :: string
  cr_data :: string
  cr_last_used :: "instant option"
  cr_created :: instant
  cr_updated :: instant

record session_row =
  se_id :: string
  se_user :: string
  se_ip :: "string option"
  se_agent :: string
  se_created :: instant
  se_active :: instant
  se_expires :: instant

datatype mail_type = Verification | PasswordReset | MagicLink

record mail_token =
  mt_user :: string
  mt_type :: mail_type
  mt_hash :: string
  mt_email :: string
  mt_used :: bool
  mt_created :: instant
  mt_expires :: instant

record account_db =
  ad_users :: "account_row list"
  ad_credentials :: "credential_row list"
  ad_sessions :: "session_row list"
  ad_mail :: "mail_token list"

datatype account_query =
    InsertSession | SelectSession | TouchSession | DeleteSession
  | SelectUser | SelectPassword | TouchPassword | InsertUser | InsertPassword
  | GetUser | ListUsers | CountUsers | UpdateUser | SetStatus
  | SelectMail | InsertMail | MarkMail | VerifyAddress | UpdatePassword | DropSessions

record secret_lib =
  sl_mac :: "string \<Rightarrow> string \<Rightarrow> nat list"
  sl_sha :: "string \<Rightarrow> nat list"
  sl_argon :: argon

record account_env =
  av_now :: instant
  av_answers :: "account_query \<Rightarrow> bool"
  av_random :: "nat list option"
  av_salt :: "nat list option"
  av_new_id :: string
  av_uuid_ok :: "string \<Rightarrow> bool"

datatype account_error =
    NoCookie
  | NoSignature
  | BadSignature
  | NoSuchSession
  | NoRandomBytes
  | SessionRefused
  | UserNotFound
  | UserIs string
  | NoPassword
  | WrongPassword
  | UserRefused
  | HashFailed
  | CredentialRefused
  | InvalidUserID
  | ListFailed
  | InvalidMailToken
  | MailTokenExpired
  | MailRefused
  | PasswordTooShort
  | StatementFailed

definition user_ids :: "account_db \<Rightarrow> string set" where
  "user_ids s = ac_id ` set (ad_users s)"

section \<open>Requests and answers\<close>

text \<open>
  \<open>wr_form\<close> is \<open>r.Form\<close>, the values of the body before those of the query, \<open>wr_post\<close> is \<open>r.PostForm\<close>,
  \<open>wr_query\<close> is \<open>r.URL.Query()\<close>, and \<open>wr_form_ok\<close> that \<open>ParseForm\<close> returned no error. \<open>wr_cookie\<close> is the cookie \<open>legant_session\<close>.
\<close>

record web_request =
  wr_cookie :: "string option"
  wr_remote :: string
  wr_agent :: string
  wr_host :: string
  wr_header :: "string \<Rightarrow> string"
  wr_form :: "(string \<times> string list) list"
  wr_post :: "(string \<times> string list) list"
  wr_query :: "(string \<times> string list) list"
  wr_form_ok :: bool

text \<open>A cookie without its path and its \<open>SameSite=Lax\<close>.\<close>

record cookie =
  ck_name :: string
  ck_value :: string
  ck_http_only :: bool
  ck_secure :: bool
  ck_max_age :: int

record web_answer =
  wa_status :: nat
  wa_location :: string
  wa_cookies :: "cookie list"

definition plain_answer :: "nat \<Rightarrow> web_answer" where
  "plain_answer code = \<lparr>wa_status = code, wa_location = [], wa_cookies = []\<rparr>"

definition redirect_to :: "string \<Rightarrow> cookie list \<Rightarrow> web_answer" where
  "redirect_to loc cs = \<lparr>wa_status = 302, wa_location = loc, wa_cookies = cs\<rparr>"

section \<open>Sessions\<close>

record session_manager =
  sm_secret :: string
  sm_lifetime :: duration
  sm_secure :: bool

definition sign_cookie :: "secret_lib \<Rightarrow> session_manager \<Rightarrow> string \<Rightarrow> string" where
  "sign_cookie lib sm v = v @ ''.'' @ hex_encode (sl_mac lib (sm_secret sm) v)"

definition last_dot :: "string \<Rightarrow> (string \<times> string) option" where
  "last_dot s =
     (if CHR ''.'' \<in> set s
      then Some (rev (tl (dropWhile (\<lambda>c. c \<noteq> CHR ''.'') (rev s))), rev (takeWhile (\<lambda>c. c \<noteq> CHR ''.'') (rev s)))
      else None)"

definition verify_cookie :: "secret_lib \<Rightarrow> session_manager \<Rightarrow> string \<Rightarrow> account_error + string" where
  "verify_cookie lib sm c =
     (case last_dot c of
        None \<Rightarrow> Inl NoSignature
      | Some (v, sig) \<Rightarrow> if sig \<noteq> hex_encode (sl_mac lib (sm_secret sm) v) then Inl BadSignature else Inr v)"

definition session_id_length :: nat where
  "session_id_length = 32"

definition remote_ip :: "string \<Rightarrow> string option" where
  "remote_ip remote = (case split_host remote of None \<Rightarrow> None | Some [] \<Rightarrow> None | Some h \<Rightarrow> Some h)"

definition create_session ::
    "account_env \<Rightarrow> session_manager \<Rightarrow> string \<Rightarrow> web_request \<Rightarrow> account_db \<Rightarrow> account_error + session_row \<times> account_db" where
  "create_session e sm user r s =
     and_then (need NoRandomBytes (random_hex (av_random e))) (\<lambda>sid.
       let row = \<lparr>se_id = sid, se_user = user, se_ip = remote_ip (wr_remote r), se_agent = wr_agent r,
                  se_created = av_now e, se_active = av_now e, se_expires = av_now e + sm_lifetime sm\<rparr>
       in if \<not> av_answers e InsertSession \<or> sid \<in> se_id ` set (ad_sessions s) \<or> user \<notin> user_ids s
          then Inl SessionRefused
          else Inr (row, s\<lparr>ad_sessions := ad_sessions s @ [row]\<rparr>))"

definition touch_session :: "account_env \<Rightarrow> string \<Rightarrow> account_db \<Rightarrow> account_db" where
  "touch_session e sid s =
     (if \<not> av_answers e TouchSession then s
      else s\<lparr>ad_sessions := map (\<lambda>r. if se_id r = sid then r\<lparr>se_active := av_now e\<rparr> else r) (ad_sessions s)\<rparr>)"

definition get_session ::
    "account_env \<Rightarrow> secret_lib \<Rightarrow> session_manager \<Rightarrow> web_request \<Rightarrow> account_db \<Rightarrow> (account_error + session_row) \<times> account_db"
where
  "get_session e lib sm r s =
     (case and_then (need NoCookie (wr_cookie r)) (verify_cookie lib sm) of
        Inl err \<Rightarrow> (Inl err, s)
      | Inr sid \<Rightarrow>
          (case (if av_answers e SelectSession
                 then find (\<lambda>x. se_id x = sid \<and> se_expires x > av_now e) (ad_sessions s) else None) of
             None \<Rightarrow> (Inl NoSuchSession, s)
           | Some x \<Rightarrow> (Inr x, touch_session e sid s)))"

definition max_age :: "session_manager \<Rightarrow> int" where
  "max_age sm = sgn (sm_lifetime sm) * (\<bar>sm_lifetime sm\<bar> div nanos)"

definition csrf_token :: "secret_lib \<Rightarrow> session_manager \<Rightarrow> session_row \<Rightarrow> string" where
  "csrf_token lib sm x = hex_encode (sl_mac lib (sm_secret sm) (''csrf:'' @ se_id x))"

definition set_cookie :: "secret_lib \<Rightarrow> session_manager \<Rightarrow> session_row \<Rightarrow> cookie list" where
  "set_cookie lib sm x =
     [\<lparr>ck_name = ''legant_session'', ck_value = sign_cookie lib sm (se_id x), ck_http_only = True,
       ck_secure = sm_secure sm, ck_max_age = max_age sm\<rparr>,
      \<lparr>ck_name = ''legant_csrf'', ck_value = csrf_token lib sm x, ck_http_only = False,
       ck_secure = sm_secure sm, ck_max_age = max_age sm\<rparr>]"

definition validate_csrf :: "secret_lib \<Rightarrow> session_manager \<Rightarrow> web_request \<Rightarrow> session_row \<Rightarrow> bool" where
  "validate_csrf lib sm r x =
     (let got1 = wr_header r ''X-CSRF-Token'';
          got = (if got1 = [] \<and> has_prefix ''application/x-www-form-urlencoded'' (wr_header r ''Content-Type'')
                 then form_get (wr_post r) ''csrf_token'' else got1)
      in if got = [] then False else got = csrf_token lib sm x)"

definition end_session ::
    "account_env \<Rightarrow> secret_lib \<Rightarrow> session_manager \<Rightarrow> web_request \<Rightarrow> account_db \<Rightarrow> cookie list \<times> account_db" where
  "end_session e lib sm r s =
     (case wr_cookie r of
        None \<Rightarrow> ([], s)
      | Some c \<Rightarrow>
          ([\<lparr>ck_name = ''legant_session'', ck_value = [], ck_http_only = True, ck_secure = False, ck_max_age = -1\<rparr>,
            \<lparr>ck_name = ''legant_csrf'', ck_value = [], ck_http_only = False, ck_secure = False, ck_max_age = -1\<rparr>],
           case verify_cookie lib sm c of
             Inl _ \<Rightarrow> s
           | Inr sid \<Rightarrow>
               if av_answers e DeleteSession then s\<lparr>ad_sessions := filter (\<lambda>x. se_id x \<noteq> sid) (ad_sessions s)\<rparr> else s))"

text \<open>\<open>SameOrigin\<close> (\<open>account.go\<close>).\<close>

definition same_origin :: "'r url_lib \<Rightarrow> web_request \<Rightarrow> bool" where
  "same_origin urls r =
     (let o1 = wr_header r ''Origin''; orig = (if o1 = [] then wr_header r ''Referer'' else o1)
      in if orig = [] then True
         else case ul_parse urls orig of
                None \<Rightarrow> False
              | Some u \<Rightarrow> if u_host u = [] then False else u_host u = wr_host r)"

section \<open>Login, registration, logout\<close>

definition newest_password :: "string \<Rightarrow> account_db \<Rightarrow> credential_row option" where
  "newest_password user s =
     (case sort_key (\<lambda>c. - cr_created c) (filter (\<lambda>c. cr_user c = user \<and> cr_type c = ''password'') (ad_credentials s)) of
        [] \<Rightarrow> None | c # _ \<Rightarrow> Some c)"

definition touch_password :: "account_env \<Rightarrow> string \<Rightarrow> account_db \<Rightarrow> account_db" where
  "touch_password e user s =
     (if \<not> av_answers e TouchPassword then s
      else s\<lparr>ad_credentials := map (\<lambda>c. if cr_user c = user \<and> cr_type c = ''password''
               then c\<lparr>cr_last_used := Some (av_now e)\<rparr> else c) (ad_credentials s)\<rparr>)"

definition check_password :: "account_env \<Rightarrow> secret_lib \<Rightarrow> string \<Rightarrow> string \<Rightarrow> account_db \<Rightarrow> account_error + string" where
  "check_password e lib email password s =
     and_then (need UserNotFound (if av_answers e SelectUser then find (\<lambda>u. ac_email u = email) (ad_users s) else None)) (\<lambda>u.
     reject (ac_status u \<noteq> ''active'') (UserIs (ac_status u)) (
     and_then (need NoPassword (if av_answers e SelectPassword then newest_password (ac_id u) s else None)) (\<lambda>c.
     if verify_password (sl_argon lib) password (cr_data c) \<noteq> Inr True then Inl WrongPassword
     else Inr (ac_id u))))"

definition authenticate_user ::
    "account_env \<Rightarrow> secret_lib \<Rightarrow> string \<Rightarrow> string \<Rightarrow> account_db \<Rightarrow> (account_error + string) \<times> account_db" where
  "authenticate_user e lib email password s =
     (case check_password e lib email password s of
        Inl err \<Rightarrow> (Inl err, s)
      | Inr user \<Rightarrow> (Inr user, touch_password e user s))"

text \<open>The end of both submissions: the session, its cookies, and back to the authorization endpoint.\<close>

definition start_session ::
    "account_env \<Rightarrow> secret_lib \<Rightarrow> session_manager \<Rightarrow> string \<Rightarrow> string \<Rightarrow> web_request \<Rightarrow> account_db \<Rightarrow> web_answer \<times> account_db" where
  "start_session e lib sm user query r s =
     (case create_session e sm user r s of
        Inl _ \<Rightarrow> (plain_answer 500, s)
      | Inr (x, s') \<Rightarrow>
          (redirect_to (if query \<noteq> [] then ''/oauth2/authorize?'' @ query else ''/'') (set_cookie lib sm x), s'))"

definition login_submit ::
    "account_env \<Rightarrow> secret_lib \<Rightarrow> session_manager \<Rightarrow> web_request \<Rightarrow> account_db \<Rightarrow> web_answer \<times> account_db" where
  "login_submit e lib sm r s =
     (if \<not> wr_form_ok r then (plain_answer 400, s)
      else let email = form_get (wr_form r) ''email''; password = form_get (wr_form r) ''password'';
               query = form_get (wr_form r) ''query''
           in if email = [] \<or> password = [] then (redirect_to (''/login?error=missing_credentials&'' @ query) [], s)
              else case authenticate_user e lib email password s of
                     (Inl _, s1) \<Rightarrow> (redirect_to (''/login?error=invalid_credentials&'' @ query) [], s1)
                   | (Inr user, s1) \<Rightarrow> start_session e lib sm user query r s1)"

definition insert_user :: "account_env \<Rightarrow> string \<Rightarrow> string \<Rightarrow> string \<Rightarrow> account_db \<Rightarrow> account_error + account_row \<times> account_db" where
  "insert_user e email name metadata s =
     (if \<not> av_answers e InsertUser \<or> email \<in> ac_email ` set (ad_users s) \<or> av_new_id e \<in> user_ids s then Inl UserRefused
      else let u = \<lparr>ac_id = av_new_id e, ac_email = email, ac_verified = False, ac_name = name, ac_avatar = [],
                    ac_status = ''active'', ac_metadata = metadata, ac_created = av_now e, ac_updated = av_now e\<rparr>
           in Inr (u, s\<lparr>ad_users := ad_users s @ [u]\<rparr>))"

definition insert_password :: "account_env \<Rightarrow> string \<Rightarrow> string \<Rightarrow> account_db \<Rightarrow> account_error + account_db" where
  "insert_password e user hash s =
     (if \<not> av_answers e InsertPassword \<or> user \<notin> user_ids s then Inl CredentialRefused
      else Inr (s\<lparr>ad_credentials := ad_credentials s @
             [\<lparr>cr_user = user, cr_type = ''password'', cr_data = hash, cr_last_used = None,
               cr_created = av_now e, cr_updated = av_now e\<rparr>]\<rparr>))"

definition register_submit ::
    "account_env \<Rightarrow> secret_lib \<Rightarrow> session_manager \<Rightarrow> web_request \<Rightarrow> account_db \<Rightarrow> web_answer \<times> account_db" where
  "register_submit e lib sm r s =
     (if \<not> wr_form_ok r then (plain_answer 400, s)
      else let email = form_get (wr_form r) ''email''; password = form_get (wr_form r) ''password'';
               name = form_get (wr_form r) ''display_name''; query = form_get (wr_form r) ''query''
           in if email = [] \<or> password = [] then (redirect_to (''/register?error=missing_fields&'' @ query) [], s)
              else if length password < 8 then (redirect_to (''/register?error=password_too_short&'' @ query) [], s)
              else case hash_password (sl_argon lib) (av_salt e) password of
                     Inl _ \<Rightarrow> (plain_answer 500, s)
                   | Inr hash \<Rightarrow>
                       (case insert_user e email name ''{}'' s of
                          Inl _ \<Rightarrow> (redirect_to (''/register?error=email_taken&'' @ query) [], s)
                        | Inr (u, s1) \<Rightarrow>
                            (case insert_password e (ac_id u) hash s1 of
                               Inl _ \<Rightarrow> (plain_answer 500, s1)
                             | Inr s2 \<Rightarrow> start_session e lib sm (ac_id u) query r s2)))"

definition logout ::
    "account_env \<Rightarrow> secret_lib \<Rightarrow> session_manager \<Rightarrow> web_request \<Rightarrow> account_db \<Rightarrow> web_answer \<times> account_db" where
  "logout e lib sm r s = (let (cs, s') = end_session e lib sm r s in (redirect_to ''/login'' cs, s'))"

section \<open>The user service\<close>

record create_user_request =
  cu_email :: string
  cu_password :: string
  cu_name :: string
  cu_metadata :: string

record update_user_request =
  uu_email :: "string option"
  uu_name :: "string option"
  uu_avatar :: "string option"
  uu_verified :: "bool option"
  uu_metadata :: "string option"

text \<open>The user is inserted before the password is hashed and stored: a later failure leaves the user behind.\<close>

definition create_user ::
    "account_env \<Rightarrow> secret_lib \<Rightarrow> create_user_request \<Rightarrow> account_db \<Rightarrow> (account_error + account_row) \<times> account_db" where
  "create_user e lib req s =
     (case insert_user e (cu_email req) (cu_name req) (cu_metadata req) s of
        Inl err \<Rightarrow> (Inl err, s)
      | Inr (u, s1) \<Rightarrow>
          (case hash_password (sl_argon lib) (av_salt e) (cu_password req) of
             Inl _ \<Rightarrow> (Inl HashFailed, s1)
           | Inr hash \<Rightarrow>
               (case insert_password e (ac_id u) hash s1 of
                  Inl err \<Rightarrow> (Inl err, s1)
                | Inr s2 \<Rightarrow> (Inr u, s2))))"

definition get_user :: "account_env \<Rightarrow> string \<Rightarrow> account_db \<Rightarrow> account_error + account_row" where
  "get_user e user s =
     (if \<not> av_uuid_ok e user then Inl InvalidUserID
      else need UserNotFound (if av_answers e GetUser then find (\<lambda>u. ac_id u = user) (ad_users s) else None))"

definition list_users :: "account_env \<Rightarrow> int \<Rightarrow> int \<Rightarrow> account_db \<Rightarrow> account_error + account_row list \<times> nat" where
  "list_users e limit offset s =
     (let limit1 = (if limit \<le> 0 then 50 else limit);
          limit2 = (if limit1 > 100 then 100 else limit1);
          rows = filter (\<lambda>u. ac_status u \<noteq> ''deleted'') (ad_users s)
      in if \<not> av_answers e ListUsers \<or> offset < 0 then Inl ListFailed
         else Inr (take (nat limit2) (drop (nat offset) (sort_key (\<lambda>u. - ac_created u) rows)),
                   if av_answers e CountUsers then length rows else 0))"

definition change_user :: "string \<Rightarrow> (account_row \<Rightarrow> account_row) \<Rightarrow> account_db \<Rightarrow> account_db" where
  "change_user user f s = s\<lparr>ad_users := map (\<lambda>u. if ac_id u = user then f u else u) (ad_users s)\<rparr>"

definition given :: "'a option \<Rightarrow> 'a \<Rightarrow> 'a" where
  "given x d = (case x of None \<Rightarrow> d | Some y \<Rightarrow> y)"

definition update_user ::
    "account_env \<Rightarrow> string \<Rightarrow> update_user_request \<Rightarrow> account_db \<Rightarrow> account_error + account_row \<times> account_db" where
  "update_user e user req s =
     and_then (get_user e user s) (\<lambda>old.
       let new = old\<lparr>ac_email := given (uu_email req) (ac_email old), ac_name := given (uu_name req) (ac_name old),
             ac_avatar := given (uu_avatar req) (ac_avatar old), ac_verified := given (uu_verified req) (ac_verified old),
             ac_metadata := given (uu_metadata req) (ac_metadata old), ac_updated := av_now e\<rparr>
       in if \<not> av_answers e UpdateUser \<or> (\<exists>u \<in> set (ad_users s). ac_id u \<noteq> user \<and> ac_email u = ac_email new)
          then Inl UserRefused
          else Inr (new, change_user user (\<lambda>_. new) s))"

definition set_status :: "account_env \<Rightarrow> string \<Rightarrow> string \<Rightarrow> account_db \<Rightarrow> account_error option \<times> account_db" where
  "set_status e status user s =
     (if \<not> av_answers e SetStatus then (Some StatementFailed, s)
      else (None, change_user user (\<lambda>u. u\<lparr>ac_status := status, ac_updated := av_now e\<rparr>) s))"

definition delete_user :: "account_env \<Rightarrow> string \<Rightarrow> account_db \<Rightarrow> account_error option \<times> account_db" where
  "delete_user e user s =
     (if \<not> av_uuid_ok e user then (Some InvalidUserID, s) else set_status e ''deleted'' user s)"

definition suspend_user :: "account_env \<Rightarrow> string \<Rightarrow> account_db \<Rightarrow> account_error option \<times> account_db" where
  "suspend_user e = set_status e ''suspended''"

definition activate_user :: "account_env \<Rightarrow> string \<Rightarrow> account_db \<Rightarrow> account_error option \<times> account_db" where
  "activate_user e = set_status e ''active''"

section \<open>Mailed tokens\<close>

definition mail_hash :: "secret_lib \<Rightarrow> string \<Rightarrow> string" where
  "mail_hash lib token = hex_encode (sl_sha lib token)"

definition mail_lifetime :: "mail_type \<Rightarrow> duration" where
  "mail_lifetime k = (if k = MagicLink then 15 * 60 * nanos else 3600 * nanos)"

text \<open>
  \<open>SendPasswordResetEmail\<close> and \<open>SendMagicLink\<close>: the answer is the token that goes into the mail, none for an
  address without an active user.
\<close>

definition send_mail ::
    "mail_type \<Rightarrow> account_env \<Rightarrow> secret_lib \<Rightarrow> string \<Rightarrow> account_db \<Rightarrow> (account_error + string option) \<times> account_db" where
  "send_mail k e lib email s =
     (case (if av_answers e SelectUser
            then find (\<lambda>u. ac_email u = email \<and> ac_status u = ''active'') (ad_users s) else None) of
        None \<Rightarrow> (Inr None, s)
      | Some u \<Rightarrow>
          (case random_hex (av_random e) of
             None \<Rightarrow> (Inl NoRandomBytes, s)
           | Some token \<Rightarrow>
               if \<not> av_answers e InsertMail then (Inl MailRefused, s)
               else (Inr (Some token), s\<lparr>ad_mail := ad_mail s @
                  [\<lparr>mt_user = ac_id u, mt_type = k, mt_hash = mail_hash lib token, mt_email = email, mt_used = False,
                    mt_created = av_now e, mt_expires = av_now e + mail_lifetime k\<rparr>]\<rparr>)))"

definition send_reset ::
    "account_env \<Rightarrow> secret_lib \<Rightarrow> string \<Rightarrow> account_db \<Rightarrow> (account_error + string option) \<times> account_db" where
  "send_reset = send_mail PasswordReset"

definition send_magic_link ::
    "account_env \<Rightarrow> secret_lib \<Rightarrow> string \<Rightarrow> account_db \<Rightarrow> (account_error + string option) \<times> account_db" where
  "send_magic_link = send_mail MagicLink"

text \<open>What the three uses of a token have in common: the query, then the check of its expiry.\<close>

definition find_mail :: "account_env \<Rightarrow> secret_lib \<Rightarrow> mail_type \<Rightarrow> string \<Rightarrow> account_db \<Rightarrow> account_error + mail_token" where
  "find_mail e lib k token s =
     and_then (need InvalidMailToken
         (if av_answers e SelectMail
          then find (\<lambda>m. mt_hash m = mail_hash lib token \<and> mt_type m = k \<and> \<not> mt_used m) (ad_mail s) else None)) (\<lambda>m.
     reject (av_now e > mt_expires m) MailTokenExpired (Inr m))"

definition mark_mail :: "account_env \<Rightarrow> secret_lib \<Rightarrow> string \<Rightarrow> account_db \<Rightarrow> account_db" where
  "mark_mail e lib token s =
     (if \<not> av_answers e MarkMail then s
      else s\<lparr>ad_mail := map (\<lambda>m. if mt_hash m = mail_hash lib token then m\<lparr>mt_used := True\<rparr> else m) (ad_mail s)\<rparr>)"

definition verify_email ::
    "account_env \<Rightarrow> secret_lib \<Rightarrow> string \<Rightarrow> account_db \<Rightarrow> account_error option \<times> account_db" where
  "verify_email e lib token s =
     (case find_mail e lib Verification token s of
        Inl err \<Rightarrow> (Some err, s)
      | Inr m \<Rightarrow>
          if \<not> av_answers e VerifyAddress then (Some StatementFailed, s)
          else (None, mark_mail e lib token
                 (change_user (mt_user m)
                    (\<lambda>u. if ac_email u = mt_email m then u\<lparr>ac_verified := True, ac_updated := av_now e\<rparr> else u) s)))"

definition drop_sessions :: "account_env \<Rightarrow> string \<Rightarrow> account_db \<Rightarrow> account_db" where
  "drop_sessions e user s =
     (if \<not> av_answers e DropSessions then s else s\<lparr>ad_sessions := filter (\<lambda>x. se_user x \<noteq> user) (ad_sessions s)\<rparr>)"

definition store_password :: "account_env \<Rightarrow> string \<Rightarrow> string \<Rightarrow> account_db \<Rightarrow> account_db" where
  "store_password e user hash s =
     s\<lparr>ad_credentials := map (\<lambda>c. if cr_user c = user \<and> cr_type c = ''password''
        then c\<lparr>cr_data := hash, cr_updated := av_now e\<rparr> else c) (ad_credentials s)\<rparr>"

definition reset_password ::
    "account_env \<Rightarrow> secret_lib \<Rightarrow> string \<Rightarrow> string \<Rightarrow> account_db \<Rightarrow> account_error option \<times> account_db" where
  "reset_password e lib token password s =
     (if length password < 8 then (Some PasswordTooShort, s)
      else case find_mail e lib PasswordReset token s of
             Inl err \<Rightarrow> (Some err, s)
           | Inr m \<Rightarrow>
               (case hash_password (sl_argon lib) (av_salt e) password of
                  Inl _ \<Rightarrow> (Some HashFailed, s)
                | Inr hash \<Rightarrow>
                    if \<not> av_answers e UpdatePassword then (Some StatementFailed, s)
                    else (None, drop_sessions e (mt_user m)
                           (mark_mail e lib token (store_password e (mt_user m) hash s)))))"

definition validate_magic_link ::
    "account_env \<Rightarrow> secret_lib \<Rightarrow> string \<Rightarrow> account_db \<Rightarrow> (account_error + string) \<times> account_db" where
  "validate_magic_link e lib token s =
     (case find_mail e lib MagicLink token s of
        Inl err \<Rightarrow> (Inl err, s)
      | Inr m \<Rightarrow> (Inr (mt_user m), mark_mail e lib token s))"

text \<open>The endpoints \<open>/verify-email\<close>, \<open>/forgot-password\<close>, \<open>/reset-password\<close>, \<open>/magic-link\<close> and \<open>/magic-login\<close>.\<close>

definition verify_email_page :: "account_env \<Rightarrow> secret_lib \<Rightarrow> web_request \<Rightarrow> account_db \<Rightarrow> web_answer \<times> account_db" where
  "verify_email_page e lib r s =
     (let (err, s') = verify_email e lib (form_get (wr_query r) ''token'') s
      in (plain_answer (if err = None then 200 else 400), s'))"

definition forgot_password :: "account_env \<Rightarrow> secret_lib \<Rightarrow> web_request \<Rightarrow> account_db \<Rightarrow> web_answer \<times> account_db" where
  "forgot_password e lib r s = (plain_answer 200, snd (send_reset e lib (form_get (wr_form r) ''email'') s))"

definition reset_password_page :: "account_env \<Rightarrow> secret_lib \<Rightarrow> web_request \<Rightarrow> account_db \<Rightarrow> web_answer \<times> account_db" where
  "reset_password_page e lib r s =
     (let (err, s') = reset_password e lib (form_get (wr_form r) ''token'') (form_get (wr_form r) ''password'') s
      in (plain_answer (if err = None then 200 else 400), s'))"

definition magic_link_page :: "account_env \<Rightarrow> secret_lib \<Rightarrow> web_request \<Rightarrow> account_db \<Rightarrow> web_answer \<times> account_db" where
  "magic_link_page e lib r s = (plain_answer 200, snd (send_magic_link e lib (form_get (wr_form r) ''email'') s))"

definition magic_login ::
    "account_env \<Rightarrow> secret_lib \<Rightarrow> session_manager \<Rightarrow> web_request \<Rightarrow> account_db \<Rightarrow> web_answer \<times> account_db" where
  "magic_login e lib sm r s =
     (case validate_magic_link e lib (form_get (wr_query r) ''token'') s of
        (Inl _, s1) \<Rightarrow> (plain_answer 400, s1)
      | (Inr user, s1) \<Rightarrow> start_session e lib sm user [] r s1)"

section \<open>The cookie\<close>

definition mac_bytes :: "secret_lib \<Rightarrow> bool" where
  "mac_bytes lib \<longleftrightarrow> (\<forall>k m. byte_list (sl_mac lib k m)) \<and> (\<forall>m. byte_list (sl_sha lib m))"

lemma last_dot_append: "CHR ''.'' \<notin> set w \<Longrightarrow> last_dot (v @ CHR ''.'' # w) = Some (v, w)"
proof -
  assume w: "CHR ''.'' \<notin> set w"
  then have "takeWhile (\<lambda>c. c \<noteq> CHR ''.'') (rev w @ CHR ''.'' # rev v) = rev w"
      "dropWhile (\<lambda>c. c \<noteq> CHR ''.'') (rev w @ CHR ''.'' # rev v) = CHR ''.'' # rev v"
    by (subst takeWhile_append2, auto) (subst dropWhile_append2, auto)
  then show ?thesis by (simp add: last_dot_def)
qed

lemma last_dot_Some: "last_dot s = Some (v, w) \<Longrightarrow> s = v @ CHR ''.'' # w"
proof -
  assume d: "last_dot s = Some (v, w)"
  then have "CHR ''.'' \<in> set s" by (simp add: last_dot_def split: if_splits)
  then obtain a b where "s = a @ CHR ''.'' # b" "CHR ''.'' \<notin> set b" by (blast dest: split_list_last)
  with d last_dot_append [of b a] show ?thesis by simp
qed

lemma verify_cookie_iff:
  "mac_bytes lib \<Longrightarrow> verify_cookie lib sm c = Inr v \<longleftrightarrow> c = sign_cookie lib sm v"
proof
  assume "verify_cookie lib sm c = Inr v"
  then obtain w where "last_dot c = Some (v, w)" "w = hex_encode (sl_mac lib (sm_secret sm) v)"
    by (auto simp: verify_cookie_def split: option.splits if_splits)
  then show "c = sign_cookie lib sm v" using last_dot_Some [of c v w] by (simp add: sign_cookie_def)
next
  assume "mac_bytes lib" "c = sign_cookie lib sm v"
  then show "verify_cookie lib sm c = Inr v"
    using hex_encode_no_dot [of "sl_mac lib (sm_secret sm) v"] last_dot_append [of _ v]
    by (simp add: mac_bytes_def sign_cookie_def verify_cookie_def)
qed

lemma get_session_Inr:
  "get_session e lib sm r s = (Inr x, t) \<Longrightarrow> \<exists>c. wr_cookie r = Some c \<and> verify_cookie lib sm c = Inr (se_id x)
     \<and> x \<in> set (ad_sessions s) \<and> se_expires x > av_now e \<and> t = touch_session e (se_id x) s"
  by (auto simp: get_session_def step_Inr_iff split: sum.splits option.splits if_splits dest!: find_SomeD)

section \<open>Runs\<close>

text \<open>The requests that read or write these tables.\<close>

datatype account_request =
    Login web_request
  | Register web_request
  | Logout web_request
  | ReadSession web_request
  | VerifyAddressPage web_request
  | ForgotPassword web_request
  | ResetPage web_request
  | MagicLinkPage web_request
  | MagicLogin web_request
  | CreateUser create_user_request
  | ChangeUser string update_user_request
  | DeleteUser string
  | SuspendUser string
  | ActivateUser string

fun perform :: "account_env \<Rightarrow> secret_lib \<Rightarrow> session_manager \<Rightarrow> account_request \<Rightarrow> account_db \<Rightarrow> account_db" where
  "perform e lib sm (Login r) s = snd (login_submit e lib sm r s)"
| "perform e lib sm (Register r) s = snd (register_submit e lib sm r s)"
| "perform e lib sm (Logout r) s = snd (logout e lib sm r s)"
| "perform e lib sm (ReadSession r) s = snd (get_session e lib sm r s)"
| "perform e lib sm (VerifyAddressPage r) s = snd (verify_email_page e lib r s)"
| "perform e lib sm (ForgotPassword r) s = snd (forgot_password e lib r s)"
| "perform e lib sm (ResetPage r) s = snd (reset_password_page e lib r s)"
| "perform e lib sm (MagicLinkPage r) s = snd (magic_link_page e lib r s)"
| "perform e lib sm (MagicLogin r) s = snd (magic_login e lib sm r s)"
| "perform e lib sm (CreateUser q) s = snd (create_user e lib q s)"
| "perform e lib sm (ChangeUser u q) s = (case update_user e u q s of Inl _ \<Rightarrow> s | Inr (_, t) \<Rightarrow> t)"
| "perform e lib sm (DeleteUser u) s = snd (delete_user e u s)"
| "perform e lib sm (SuspendUser u) s = snd (suspend_user e u s)"
| "perform e lib sm (ActivateUser u) s = snd (activate_user e u s)"

text \<open>Random bytes are bytes, and no two mailed tokens have the same hash.\<close>

definition fresh_random :: "account_env \<Rightarrow> secret_lib \<Rightarrow> account_db \<Rightarrow> bool" where
  "fresh_random e lib s \<longleftrightarrow>
     (case av_random e of
        None \<Rightarrow> True
      | Some b \<Rightarrow> byte_list b \<and> mail_hash lib (hex_encode b) \<notin> mt_hash ` set (ad_mail s))"

inductive account_step :: "secret_lib \<Rightarrow> session_manager \<Rightarrow> account_db \<Rightarrow> account_db \<Rightarrow> bool" for lib sm where
  request: "fresh_random e lib s \<Longrightarrow> account_step lib sm s (perform e lib sm q s)"

inductive_cases account_stepE: "account_step lib sm s t"

text \<open>What each operation does to the sessions, the users and the mailed tokens.\<close>

lemma create_session_Inr:
  "create_session e sm user r s = Inr (x, t) \<Longrightarrow> se_user x = user \<and> user \<in> user_ids s
     \<and> random_hex (av_random e) = Some (se_id x) \<and> se_id x \<notin> se_id ` set (ad_sessions s)
     \<and> se_expires x = av_now e + sm_lifetime sm \<and> t = s\<lparr>ad_sessions := ad_sessions s @ [x]\<rparr>"
  by (auto simp: create_session_def step_Inr_iff Let_def split: if_splits)

lemma start_session_state:
  "snd (start_session e lib sm user query r s) = s \<or>
   (\<exists>x. se_user x = user \<and> user \<in> user_ids s \<and> random_hex (av_random e) = Some (se_id x)
     \<and> se_id x \<notin> se_id ` set (ad_sessions s)
     \<and> snd (start_session e lib sm user query r s) = s\<lparr>ad_sessions := ad_sessions s @ [x]\<rparr>)"
proof (cases "create_session e sm user r s")
  case (Inr p)
  then obtain x t where p: "create_session e sm user r s = Inr (x, t)" by (cases p) auto
  show ?thesis using create_session_Inr [OF p] by (auto simp: start_session_def p)
qed (simp add: start_session_def)

lemma insert_user_Inr:
  "insert_user e email name meta s = Inr (u, t) \<Longrightarrow> email \<notin> ac_email ` set (ad_users s) \<and> ac_id u \<notin> user_ids s
     \<and> ac_email u = email \<and> t = s\<lparr>ad_users := ad_users s @ [u]\<rparr>"
  by (auto simp: insert_user_def Let_def split: if_splits)

lemma insert_password_Inr: "insert_password e user hash s = Inr t \<Longrightarrow> \<exists>cs. t = s\<lparr>ad_credentials := cs\<rparr>"
  by (auto simp: insert_password_def split: if_splits)

lemma touch_password_state: "\<exists>cs. touch_password e user s = s\<lparr>ad_credentials := cs\<rparr>"
  by (auto simp: touch_password_def intro: exI [of _ "ad_credentials s"])

lemma check_password_Inr:
  "check_password e lib email password s = Inr user \<Longrightarrow>
   \<exists>u c. u \<in> set (ad_users s) \<and> ac_id u = user \<and> ac_email u = email \<and> ac_status u = ''active''
     \<and> newest_password user s = Some c \<and> verify_password (sl_argon lib) password (cr_data c) = Inr True"
  by (auto simp: check_password_def step_Inr_iff split: if_splits dest!: find_SomeD)

lemma find_mail_Inr:
  "find_mail e lib k token s = Inr m \<Longrightarrow> m \<in> set (ad_mail s) \<and> mt_hash m = mail_hash lib token \<and> mt_type m = k
     \<and> \<not> mt_used m \<and> av_now e \<le> mt_expires m"
  by (auto simp: find_mail_def step_Inr_iff split: if_splits dest!: find_SomeD)

lemma create_session_user_Inl_Inr:
  "snd (start_session e lib sm user query r s) = s \<or> user \<in> user_ids s"
  using start_session_state [of e lib sm user query r s] by blast

lemma mark_mail_sessions [simp]: "ad_sessions (mark_mail e lib token s) = ad_sessions s"
  by (simp add: mark_mail_def)

lemma mark_mail_users [simp]: "ad_users (mark_mail e lib token s) = ad_users s"
  by (simp add: mark_mail_def)

lemma change_user_frame [simp]:
  "ad_sessions (change_user user f s) = ad_sessions s" "ad_mail (change_user user f s) = ad_mail s"
  "ad_credentials (change_user user f s) = ad_credentials s"
  by (simp_all add: change_user_def)

lemma set_status_frame [simp]:
  "ad_sessions (snd (set_status e st user s)) = ad_sessions s" "ad_mail (snd (set_status e st user s)) = ad_mail s"
  by (simp_all add: set_status_def)

lemma send_mail_frame [simp]: "ad_sessions (snd (send_mail k e lib email s)) = ad_sessions s"
  by (auto simp: send_mail_def split: option.splits)

lemma create_user_frame [simp]:
  "ad_sessions (snd (create_user e lib q s)) = ad_sessions s" "ad_mail (snd (create_user e lib q s)) = ad_mail s"
  by (auto simp: create_user_def insert_user_def insert_password_def Let_def split: sum.split if_split)

lemma touch_password_frame [simp]:
  "ad_sessions (touch_password e user s) = ad_sessions s" "ad_mail (touch_password e user s) = ad_mail s"
  "ad_users (touch_password e user s) = ad_users s"
  by (simp_all add: touch_password_def)

lemma reset_password_frame:
  "set (ad_sessions (snd (reset_password e lib token pw s))) \<subseteq> set (ad_sessions s)"
  by (auto simp: reset_password_def drop_sessions_def store_password_def mark_mail_def split: sum.splits)

lemma touch_session_ids: "x \<in> set (ad_sessions (touch_session e sid s)) \<Longrightarrow> se_id x \<in> se_id ` set (ad_sessions s)"
  by (auto simp: touch_session_def split: if_splits)

lemma touch_session_frame [simp]:
  "ad_mail (touch_session e sid s) = ad_mail s" "ad_users (touch_session e sid s) = ad_users s"
  by (simp_all add: touch_session_def)

text \<open>What a request has to show for a session of \<open>user\<close>.\<close>

fun credentials_shown :: "account_env \<Rightarrow> secret_lib \<Rightarrow> account_request \<Rightarrow> account_db \<Rightarrow> string \<Rightarrow> bool" where
  "credentials_shown e lib (Login r) s user \<longleftrightarrow>
     (\<exists>u c. u \<in> set (ad_users s) \<and> ac_id u = user \<and> ac_email u = form_get (wr_form r) ''email''
        \<and> ac_status u = ''active'' \<and> newest_password user s = Some c
        \<and> verify_password (sl_argon lib) (form_get (wr_form r) ''password'') (cr_data c) = Inr True)"
| "credentials_shown e lib (Register r) s user \<longleftrightarrow>
     user \<notin> user_ids s \<and> form_get (wr_form r) ''email'' \<notin> ac_email ` set (ad_users s)
     \<and> 8 \<le> length (form_get (wr_form r) ''password'')"
| "credentials_shown e lib (MagicLogin r) s user \<longleftrightarrow>
     (\<exists>m \<in> set (ad_mail s). mt_type m = MagicLink \<and> mt_user m = user \<and> \<not> mt_used m \<and> av_now e \<le> mt_expires m
        \<and> mt_hash m = mail_hash lib (form_get (wr_query r) ''token''))"
| "credentials_shown e lib _ s user \<longleftrightarrow> False"

lemma login_origin:
  assumes "x \<in> set (ad_sessions (snd (login_submit e lib sm r s)))" and "se_id x \<notin> se_id ` set (ad_sessions s)"
  shows "credentials_shown e lib (Login r) s (se_user x)"
proof -
  have old: "x \<notin> set (ad_sessions s)" using assms(2) by blast
  let ?email = "form_get (wr_form r) ''email''" and ?pw = "form_get (wr_form r) ''password''"
  obtain user where user: "check_password e lib ?email ?pw s = Inr user"
    and x: "x \<in> set (ad_sessions (snd (start_session e lib sm user (form_get (wr_form r) ''query'') r (touch_password e user s))))"
    using assms(1) old
    by (auto simp: login_submit_def authenticate_user_def Let_def split: if_splits sum.splits)
  then have "se_user x = user"
    using start_session_state [of e lib sm user "form_get (wr_form r) ''query''" r "touch_password e user s"] old by auto
  with check_password_Inr [OF user] show ?thesis by simp
qed

lemma register_origin:
  assumes "x \<in> set (ad_sessions (snd (register_submit e lib sm r s)))" and "se_id x \<notin> se_id ` set (ad_sessions s)"
  shows "credentials_shown e lib (Register r) s (se_user x)"
proof -
  have old: "x \<notin> set (ad_sessions s)" using assms(2) by blast
  let ?email = "form_get (wr_form r) ''email''" and ?pw = "form_get (wr_form r) ''password''"
  obtain u s1 s2 hash where long: "8 \<le> length ?pw"
    and u: "insert_user e ?email (form_get (wr_form r) ''display_name'') ''{}'' s = Inr (u, s1)"
    and p: "insert_password e (ac_id u) hash s1 = Inr s2"
    and x: "x \<in> set (ad_sessions (snd (start_session e lib sm (ac_id u) (form_get (wr_form r) ''query'') r s2)))"
    using assms(1) old
    by (auto simp: register_submit_def Let_def split: if_splits sum.splits dest!: insert_user_Inr insert_password_Inr)
  have "ad_sessions s2 = ad_sessions s" using insert_user_Inr [OF u] insert_password_Inr [OF p] by auto
  then have "se_user x = ac_id u"
    using start_session_state [of e lib sm "ac_id u" "form_get (wr_form r) ''query''" r s2] old x by auto
  with insert_user_Inr [OF u] long show ?thesis by simp
qed

lemma magic_origin:
  assumes "x \<in> set (ad_sessions (snd (magic_login e lib sm r s)))" and "se_id x \<notin> se_id ` set (ad_sessions s)"
  shows "credentials_shown e lib (MagicLogin r) s (se_user x)"
proof -
  have old: "x \<notin> set (ad_sessions s)" using assms(2) by blast
  let ?token = "form_get (wr_query r) ''token''"
  obtain m where m: "find_mail e lib MagicLink ?token s = Inr m"
    and x: "x \<in> set (ad_sessions (snd (start_session e lib sm (mt_user m) [] r (mark_mail e lib ?token s))))"
    using assms(1) old by (auto simp: magic_login_def validate_magic_link_def split: sum.splits)
  then have "se_user x = mt_user m"
    using start_session_state [of e lib sm "mt_user m" "[]" r "mark_mail e lib ?token s"] old by auto
  with find_mail_Inr [OF m] show ?thesis by auto
qed

text \<open>
  C10: A session comes only from credentials: whatever request is served, a session that was not there before belongs
  to an active user whose newest password the login form verified, to a user the registration just created under an
  address nobody had, or to the user of an unused, unexpired magic-link token whose hash is that of the token in
  the query.
\<close>

theorem session_needs_credentials:
  assumes "x \<in> set (ad_sessions (perform e lib sm q s))" and "se_id x \<notin> se_id ` set (ad_sessions s)"
  shows "credentials_shown e lib q s (se_user x)"
proof (cases q)
  case (Login r)
  then show ?thesis using login_origin assms by simp
next
  case (Register r)
  then show ?thesis using register_origin assms by simp
next
  case (MagicLogin r)
  then show ?thesis using magic_origin assms by simp
next
  case (ReadSession r)
  then show ?thesis
    using assms by (auto simp: get_session_def split: sum.splits option.splits if_splits dest: touch_session_ids)
next
  case (Logout r)
  then show ?thesis
    using assms by (auto simp: logout_def end_session_def split: sum.splits option.splits if_splits)
next
  case (ResetPage r)
  then have "x \<in> set (ad_sessions s)"
    using assms(1) reset_password_frame [of e lib "form_get (wr_form r) ''token''" "form_get (wr_form r) ''password''" s]
    by (auto simp: reset_password_page_def split: prod.splits)
  with assms(2) show ?thesis by blast
next
  case (VerifyAddressPage r)
  then show ?thesis
    using assms by (auto simp: verify_email_page_def verify_email_def split: sum.splits prod.splits if_splits)
qed (use assms in \<open>auto simp: forgot_password_def magic_link_page_def send_reset_def send_magic_link_def update_user_def
       delete_user_def suspend_user_def activate_user_def step_Inr_iff Let_def split: sum.splits if_splits\<close>)

section \<open>Links are used once\<close>

lemma perform_mail:
  "ad_mail (perform e lib sm q s) = ad_mail s
   \<or> (\<exists>m b. av_random e = Some b \<and> mt_hash m = mail_hash lib (hex_encode b) \<and> ad_mail (perform e lib sm q s) = ad_mail s @ [m])
   \<or> (\<exists>h. ad_mail (perform e lib sm q s) = map (\<lambda>m. if mt_hash m = h then m\<lparr>mt_used := True\<rparr> else m) (ad_mail s))"
  (is "?same q \<or> ?sent q \<or> ?marked q")
proof -
  have start: "ad_mail (snd (start_session e lib sm user query r s')) = ad_mail s'" for user query r s'
    using start_session_state [of e lib sm user query r s'] by auto
  have mark: "ad_mail (mark_mail e lib token s') = ad_mail s' \<or>
      ad_mail (mark_mail e lib token s') = map (\<lambda>m. if mt_hash m = mail_hash lib token then m\<lparr>mt_used := True\<rparr> else m) (ad_mail s')"
    for token s' by (simp add: mark_mail_def)
  have send: "ad_mail (snd (send_mail k e lib email s)) = ad_mail s
      \<or> (\<exists>m b. av_random e = Some b \<and> mt_hash m = mail_hash lib (hex_encode b)
           \<and> ad_mail (snd (send_mail k e lib email s)) = ad_mail s @ [m])" for k email
    by (auto simp: send_mail_def random_hex_def split: option.splits)
  show ?thesis
  proof (cases q)
    case (Login r)
    have "?same q" using Login by (auto simp: login_submit_def authenticate_user_def Let_def start split: sum.split)
    then show ?thesis by blast
  next
    case (Register r)
    have "?same q" using Register
      by (auto simp: register_submit_def Let_def start split: sum.split dest!: insert_user_Inr insert_password_Inr)
    then show ?thesis by blast
  next
    case (MagicLogin r)
    then show ?thesis
      using mark [of "form_get (wr_query r) ''token''" s]
      by (auto simp: magic_login_def validate_magic_link_def start split: sum.split)
  next
    case (ForgotPassword r)
    then show ?thesis using send [of PasswordReset] by (auto simp: forgot_password_def send_reset_def)
  next
    case (MagicLinkPage r)
    then show ?thesis using send [of MagicLink] by (auto simp: magic_link_page_def send_magic_link_def)
  next
    case (VerifyAddressPage r)
    have "ad_mail (snd (verify_email e lib token s)) = ad_mail s \<or> ad_mail (snd (verify_email e lib token s))
        = map (\<lambda>m. if mt_hash m = mail_hash lib token then m\<lparr>mt_used := True\<rparr> else m) (ad_mail s)" for token
      by (simp add: verify_email_def mark_mail_def split: sum.split)
    with VerifyAddressPage show ?thesis by (simp add: verify_email_page_def split_beta) blast
  next
    case (ResetPage r)
    have "ad_mail (snd (reset_password e lib token pw s)) = ad_mail s \<or> ad_mail (snd (reset_password e lib token pw s))
        = map (\<lambda>m. if mt_hash m = mail_hash lib token then m\<lparr>mt_used := True\<rparr> else m) (ad_mail s)" for token pw
      by (simp add: reset_password_def mark_mail_def drop_sessions_def store_password_def split: sum.split)
    with ResetPage show ?thesis by (simp add: reset_password_page_def split_beta) blast
  next
    case (ChangeUser u q')
    then have "?same q" by (auto simp: update_user_def step_Inr_iff Let_def split: sum.split if_splits)
    then show ?thesis by blast
  qed (auto simp: logout_def end_session_def get_session_def delete_user_def suspend_user_def activate_user_def
         split: sum.split option.split)
qed

definition mail_spent :: "string \<Rightarrow> account_db \<Rightarrow> bool" where
  "mail_spent h s \<longleftrightarrow> h \<in> mt_hash ` set (ad_mail s) \<and> (\<forall>m \<in> set (ad_mail s). mt_hash m = h \<longrightarrow> mt_used m)"

lemma marked_hashes: "mt_hash ` set (map (\<lambda>m. if P m then m\<lparr>mt_used := True\<rparr> else m) ms) = mt_hash ` set ms"
  by (simp only: set_map image_image) (rule image_cong, auto)

lemma mail_spent_marked:
  "ad_mail t = map (\<lambda>m. if mt_hash m = h' then m\<lparr>mt_used := True\<rparr> else m) (ad_mail s) \<Longrightarrow>
   h \<in> mt_hash ` set (ad_mail s) \<Longrightarrow> (\<forall>m \<in> set (ad_mail s). mt_hash m = h \<longrightarrow> h = h' \<or> mt_used m) \<Longrightarrow> mail_spent h t"
  unfolding mail_spent_def by (simp only: marked_hashes) auto

lemma mail_spent_step: "account_step lib sm s t \<Longrightarrow> mail_spent h s \<Longrightarrow> mail_spent h t"
proof (elim account_stepE)
  fix e q assume t: "t = perform e lib sm q s" and fresh: "fresh_random e lib s" and sp: "mail_spent h s"
  from perform_mail [of e lib sm q s] show "mail_spent h t"
  proof (elim disjE exE conjE)
    fix m b assume b: "av_random e = Some b" "mt_hash m = mail_hash lib (hex_encode b)"
      and a: "ad_mail (perform e lib sm q s) = ad_mail s @ [m]"
    then have "mt_hash m \<noteq> h" using fresh sp by (auto simp: fresh_random_def mail_spent_def)
    then show ?thesis using a sp by (auto simp: t mail_spent_def)
  next
    fix h' assume "ad_mail (perform e lib sm q s) = map (\<lambda>m. if mt_hash m = h' then m\<lparr>mt_used := True\<rparr> else m) (ad_mail s)"
    then show ?thesis unfolding t by (rule mail_spent_marked) (use sp in \<open>auto simp: mail_spent_def\<close>)
  qed (use sp in \<open>simp add: t mail_spent_def\<close>)
qed

interpretation mailed: one_way "account_step lib sm" "mail_spent h" for lib sm h
  by unfold_locales (rule mail_spent_step)

lemma mail_spent_refused:
  "mail_spent (mail_hash lib token) s \<Longrightarrow> find_mail e lib k token s = Inl InvalidMailToken"
  by (auto simp: mail_spent_def find_mail_def find_None_iff need_def and_then_def split: option.split dest!: find_SomeD)

lemma marked_spent:
  "find_mail e lib k token s = Inr m \<Longrightarrow> av_answers e MarkMail \<Longrightarrow> mail_spent (mail_hash lib token) (mark_mail e lib token s)"
  by (rule mail_spent_marked [of _ "mail_hash lib token" s])
     (auto simp: mark_mail_def intro: image_eqI [of _ _ m] dest!: find_mail_Inr)

text \<open>
  A magic link logs in once. After a link was accepted and the statement that marks it was answered, the same
  link is refused in every later state of the server, whatever requests were served in between.
\<close>

theorem magic_link_single_use:
  assumes "validate_magic_link e lib token s = (Inr user, t)" and "av_answers e MarkMail"
    and "(account_step lib sm)\<^sup>*\<^sup>* t s'"
  shows "validate_magic_link e' lib token s' = (Inl InvalidMailToken, s')"
proof -
  have "mail_spent (mail_hash lib token) t"
    using assms(1,2) marked_spent by (auto simp: validate_magic_link_def split: sum.splits)
  then have "mail_spent (mail_hash lib token) s'" using mailed.steps_keep [OF assms(3)] by blast
  then show ?thesis using mail_spent_refused [of lib token s' e' MagicLink] by (simp add: validate_magic_link_def)
qed

text \<open>
  The two statements are separate: between them another request can find the same token unused. And when the
  statement that marks it is not answered, the error is dropped and the link works again.
\<close>

lemma crossed_magic_links:
  assumes "find_mail e lib MagicLink token s = Inr m"
  shows "find_mail e lib MagicLink token s = Inr m \<and>
     fst (validate_magic_link e lib token s) = Inr (mt_user m) \<and>
     (\<not> av_answers e MarkMail \<longrightarrow> validate_magic_link e lib token s = (Inr (mt_user m), s))"
  using assms by (simp add: validate_magic_link_def mark_mail_def)

section \<open>Sessions and cookies\<close>

text \<open>Session ids are hexadecimal, and so hold no colon.\<close>

definition plain_ids :: "account_db \<Rightarrow> bool" where
  "plain_ids s \<longleftrightarrow> distinct (map se_id (ad_sessions s)) \<and> (\<forall>v \<in> set (map se_id (ad_sessions s)). CHR '':'' \<notin> set v)"

lemma plain_ids_fewer: "plain_ids s \<Longrightarrow> ad_sessions t = filter P (ad_sessions s) \<Longrightarrow> plain_ids t"
  by (auto simp: plain_ids_def intro: distinct_map_filter)

lemma plain_ids_same: "plain_ids s \<Longrightarrow> ad_sessions t = ad_sessions s \<Longrightarrow> plain_ids t"
  by (simp add: plain_ids_def)

lemma plain_ids_touched:
  assumes "plain_ids s" shows "plain_ids (touch_session e sid s)"
proof -
  have "map se_id (ad_sessions (touch_session e sid s)) = map se_id (ad_sessions s)"
    by (auto simp: touch_session_def)
  then show ?thesis using assms by (simp only: plain_ids_def) blast
qed

lemma plain_ids_started:
  assumes "plain_ids s" and "fresh_random e lib s'"
  shows "plain_ids (snd (start_session e lib sm user query r s))"
proof -
  have hex: "CHR '':'' \<notin> set v" if "random_hex (av_random e) = Some v" for v
    using that assms(2) hex_encode_no_dot by (auto simp: random_hex_def fresh_random_def)
  show ?thesis
    using start_session_state [of e lib sm user query r s] assms(1) hex by (auto simp: plain_ids_def)
qed

lemma plain_ids_step: "account_step lib sm s t \<Longrightarrow> plain_ids s \<Longrightarrow> plain_ids t"
proof (elim account_stepE)
  fix e q assume t: "t = perform e lib sm q s" and fresh: "fresh_random e lib s" and sp: "plain_ids s"
  note same = plain_ids_same [OF sp]
  note started = plain_ids_started [OF _ fresh]
  show "plain_ids t"
  proof (cases q)
    case (Login r)
    have "plain_ids (touch_password e user s)" for user by (rule same) simp
    then show ?thesis unfolding t Login
      by (simp add: login_submit_def authenticate_user_def Let_def sp started split: sum.split)
  next
    case (Register r)
    have "plain_ids s2" if "insert_user e em na me s = Inr (u, s1)" "insert_password e us ha s1 = Inr s2" for em na me u s1 us ha s2
      using insert_user_Inr [OF that(1)] insert_password_Inr [OF that(2)] by (intro same) auto
    moreover have "plain_ids s1" if "insert_user e em na me s = Inr (u, s1)" for em na me u s1
      using insert_user_Inr [OF that] by (intro same) auto
    ultimately show ?thesis unfolding t Register
      by (auto simp: register_submit_def Let_def sp split: sum.split intro!: started)
  next
    case (MagicLogin r)
    have "plain_ids (mark_mail e lib token s)" for token by (rule same) simp
    then show ?thesis unfolding t MagicLogin
      by (simp add: magic_login_def validate_magic_link_def sp started split: sum.split)
  next
    case (ReadSession r)
    then show ?thesis unfolding t
      using sp by (auto simp: get_session_def split: sum.split option.split intro: plain_ids_touched)
  next
    case (Logout r)
    then show ?thesis unfolding t
      using sp by (auto simp: logout_def end_session_def split: sum.split option.split intro: plain_ids_fewer)
  next
    case (ResetPage r)
    have "plain_ids (drop_sessions e user (mark_mail e lib token (store_password e user h s)))" for user token h
      using sp by (auto simp: drop_sessions_def store_password_def intro: plain_ids_fewer same)
    then show ?thesis unfolding t ResetPage
      using sp by (simp add: reset_password_page_def reset_password_def split_beta split: sum.split)
  next
    case (VerifyAddressPage r)
    then show ?thesis unfolding t by (intro same) (simp add: verify_email_page_def verify_email_def split_beta split: sum.split)
  next
    case (ChangeUser u q')
    then show ?thesis unfolding t by (intro same) (auto simp: update_user_def step_Inr_iff Let_def split: sum.split if_splits)
  qed (simp_all add: t same forgot_password_def magic_link_page_def send_reset_def send_magic_link_def
         delete_user_def suspend_user_def activate_user_def)
qed

interpretation plain_sessions: one_way "account_step lib sm" plain_ids for lib sm
  by unfold_locales (rule plain_ids_step)

definition empty_accounts :: account_db where
  "empty_accounts = \<lparr>ad_users = [], ad_credentials = [], ad_sessions = [], ad_mail = []\<rparr>"

text \<open>
  C17: A request is given a session exactly when it carries the cookie the server signs for the id of a session that
  has not expired. In a state the server reached, the anti-forgery token the browser can read, although a code of
  the same key, never makes such a cookie.
\<close>

theorem session_iff_signed_cookie:
  assumes "mac_bytes lib" and "(account_step lib sm)\<^sup>*\<^sup>* empty_accounts s" and "av_answers e SelectSession"
  shows "(fst (get_session e lib sm r s) = Inr x \<longleftrightarrow>
     wr_cookie r = Some (sign_cookie lib sm (se_id x)) \<and> x \<in> set (ad_sessions s) \<and> av_now e < se_expires x)
   \<and> (wr_cookie r = Some (''csrf:'' @ se_id y @ ''.'' @ csrf_token lib sm y) \<longrightarrow>
     fst (get_session e lib sm r s) = Inl NoSuchSession)"
proof -
  have plain: "plain_ids s"
    by (rule plain_sessions.steps_keep [OF assms(2)]) (simp add: plain_ids_def empty_accounts_def)
  note cookie = verify_cookie_iff [OF assms(1), of sm]
  have "fst (get_session e lib sm r s) = Inr x \<longleftrightarrow>
     wr_cookie r = Some (sign_cookie lib sm (se_id x)) \<and> x \<in> set (ad_sessions s) \<and> av_now e < se_expires x" (is "?L \<longleftrightarrow> ?R")
  proof
    assume ?L
    then obtain t where "get_session e lib sm r s = (Inr x, t)" by (cases "get_session e lib sm r s") auto
    then show ?R using get_session_Inr [of e lib sm r s x t] cookie by auto
  next
    assume R: ?R
    then have "verify_cookie lib sm (sign_cookie lib sm (se_id x)) = Inr (se_id x)" using cookie by blast
    moreover have "find (\<lambda>y. se_id y = se_id x \<and> se_expires y > av_now e) (ad_sessions s) = Some x"
    proof -
      have "\<exists>y. find (\<lambda>y. se_id y = se_id x \<and> se_expires y > av_now e) (ad_sessions s) = Some y"
        using R by (auto simp: find_None_iff simp flip: not_None_eq)
      then obtain y where y: "find (\<lambda>y. se_id y = se_id x \<and> se_expires y > av_now e) (ad_sessions s) = Some y" ..
      then have "y \<in> set (ad_sessions s)" "se_id y = se_id x" by (auto dest: find_SomeD)
      then have "y = x" using R plain by (auto simp: plain_ids_def distinct_map inj_on_def)
      with y show ?thesis by simp
    qed
    ultimately show ?L using R assms(3) by (simp add: get_session_def)
  qed
  moreover have "wr_cookie r = Some (''csrf:'' @ se_id y @ ''.'' @ csrf_token lib sm y) \<longrightarrow>
     fst (get_session e lib sm r s) = Inl NoSuchSession"
  proof
    assume c: "wr_cookie r = Some (''csrf:'' @ se_id y @ ''.'' @ csrf_token lib sm y)"
    have "verify_cookie lib sm (''csrf:'' @ se_id y @ ''.'' @ csrf_token lib sm y) = Inr (''csrf:'' @ se_id y)"
      using cookie by (simp add: sign_cookie_def csrf_token_def)
    moreover have "find (\<lambda>x. se_id x = ''csrf:'' @ se_id y \<and> se_expires x > av_now e) (ad_sessions s) = None"
      using plain by (auto simp: find_None_iff plain_ids_def)
    ultimately show "fst (get_session e lib sm r s) = Inl NoSuchSession" using c by (simp add: get_session_def)
  qed
  ultimately show ?thesis by blast
qed

section \<open>A password reset\<close>

lemma newest_password_in: "newest_password user s = Some c \<Longrightarrow> c \<in> set (ad_credentials s) \<and> cr_user c = user \<and> cr_type c = ''password''"
proof -
  assume n: "newest_password user s = Some c"
  let ?cs = "sort_key (\<lambda>c. - cr_created c) (filter (\<lambda>c. cr_user c = user \<and> cr_type c = ''password'') (ad_credentials s))"
  obtain cs where "?cs = c # cs" using n by (auto simp: newest_password_def split: list.splits)
  then have "c \<in> set ?cs" by (metis list.set_intros(1))
  then show ?thesis by simp
qed

lemma sort_key_Nil_iff: "sort_key f xs = [] \<longleftrightarrow> xs = []"
  using set_sort [of f xs] by (auto simp flip: set_empty simp del: set_sort set_empty)

lemma reset_password_None:
  "reset_password e lib token password s = (None, t) \<Longrightarrow>
   \<exists>m hash. 8 \<le> length password \<and> find_mail e lib PasswordReset token s = Inr m
     \<and> hash_password (sl_argon lib) (av_salt e) password = Inr hash
     \<and> t = drop_sessions e (mt_user m) (mark_mail e lib token (store_password e (mt_user m) hash s))"
  by (auto simp: reset_password_def split: if_splits sum.splits)

lemma find_mail_store [simp]: "find_mail e lib k token (store_password e' user h s) = find_mail e lib k token s"
  by (simp add: find_mail_def store_password_def)

text \<open>\<open>argon2.IDKey\<close> returns a key of bytes of the length asked for.\<close>

definition argon_keys :: "argon \<Rightarrow> bool" where
  "argon_keys argon \<longleftrightarrow> (\<forall>p salt t m lanes n k. argon p salt t m lanes n = Some k \<longrightarrow> byte_list k \<and> length k = n)"


text \<open>
  A user who has no password gets none by a reset, though the page says it succeeded; and suspending or deleting a
  user leaves the sessions as they are.
\<close>

lemma reset_without_password:
  "reset_password e lib token password s = (None, t) \<Longrightarrow> \<exists>user. (newest_password user s = None \<longrightarrow> newest_password user t = None)
     \<and> (\<exists>m. find_mail e lib PasswordReset token s = Inr m \<and> mt_user m = user)"
proof -
  assume "reset_password e lib token password s = (None, t)"
  from reset_password_None [OF this] obtain m hash where m: "find_mail e lib PasswordReset token s = Inr m"
    and t: "t = drop_sessions e (mt_user m) (mark_mail e lib token (store_password e (mt_user m) hash s))" by blast
  have "newest_password (mt_user m) t = None" if "newest_password (mt_user m) s = None"
  proof -
    have "filter (\<lambda>c. cr_user c = mt_user m \<and> cr_type c = ''password'') (ad_credentials s) = []"
    proof (rule ccontr)
      let ?cs = "filter (\<lambda>c. cr_user c = mt_user m \<and> cr_type c = ''password'') (ad_credentials s)"
      assume "?cs \<noteq> []"
      then have "sort_key (\<lambda>c. - cr_created c) ?cs \<noteq> []" unfolding sort_key_Nil_iff .
      then obtain c cs where "sort_key (\<lambda>c. - cr_created c) ?cs = c # cs" by (meson neq_Nil_conv)
      then have "newest_password (mt_user m) s = Some c" by (simp only: newest_password_def list.case)
      with that show False by simp
    qed
    moreover have "ad_credentials t = ad_credentials (store_password e (mt_user m) hash s)"
      by (simp add: t drop_sessions_def mark_mail_def)
    ultimately have "filter (\<lambda>c. cr_user c = mt_user m \<and> cr_type c = ''password'') (ad_credentials t) = []"
      by (auto simp: store_password_def filter_empty_conv)
    then show ?thesis by (simp add: newest_password_def)
  qed
  with m show ?thesis by (intro exI [of _ "mt_user m"]) auto
qed

lemma suspended_session_lives:
  "fst (get_session e lib sm r (snd (suspend_user e' user s))) = fst (get_session e lib sm r s)
   \<and> fst (get_session e lib sm r (snd (delete_user e' user s))) = fst (get_session e lib sm r s)"
  by (simp add: get_session_def suspend_user_def delete_user_def split: sum.split option.split)

section \<open>A run\<close>

definition demo_secrets :: secret_lib where
  "demo_secrets = \<lparr>sl_mac = (\<lambda>k m. map of_char (k @ m)), sl_sha = map of_char, sl_argon = demo_argon\<rparr>"

definition demo_manager :: session_manager where
  "demo_manager = \<lparr>sm_secret = ''key'', sm_lifetime = 3600 * nanos, sm_secure = True\<rparr>"

definition demo_account_env :: "instant \<Rightarrow> nat list \<Rightarrow> account_env" where
  "demo_account_env t rnd = \<lparr>av_now = t, av_answers = (\<lambda>_. True), av_random = Some rnd, av_salt = Some [1, 2, 3],
     av_new_id = ''u1'', av_uuid_ok = (\<lambda>_. True)\<rparr>"

definition demo_page :: "(string \<times> string list) list \<Rightarrow> string option \<Rightarrow> web_request" where
  "demo_page f c = \<lparr>wr_cookie = c, wr_remote = ''10.0.0.1:80'', wr_agent = [], wr_host = ''id.example'', wr_header = (\<lambda>_. []),
     wr_form = f, wr_post = [], wr_query = f, wr_form_ok = True\<rparr>"

definition demo_mail :: "mail_type \<Rightarrow> string \<Rightarrow> mail_token" where
  "demo_mail k token = \<lparr>mt_user = ''u1'', mt_type = k, mt_hash = mail_hash demo_secrets token, mt_email = ''a@x'',
     mt_used = False, mt_created = 0, mt_expires = 10\<rparr>"

definition demo_account :: account_row where
  "demo_account = \<lparr>ac_id = ''u1'', ac_email = ''a@x'', ac_verified = False, ac_name = [], ac_avatar = [],
     ac_status = ''active'', ac_metadata = ''{}'', ac_created = 0, ac_updated = 0\<rparr>"

definition demo_accounts :: "mail_token list \<Rightarrow> account_db" where
  "demo_accounts ms = \<lparr>ad_users = [demo_account], ad_credentials =
     [\<lparr>cr_user = ''u1'', cr_type = ''password'', cr_data = [], cr_last_used = None, cr_created = 0, cr_updated = 0\<rparr>],
     ad_sessions = [\<lparr>se_id = ''s1'', se_user = ''u1'', se_ip = None, se_agent = [], se_created = 0, se_active = 0,
       se_expires = 100\<rparr>], ad_mail = ms\<rparr>"

lemma demo_bytes: "mac_bytes demo_secrets"
  by (auto simp: mac_bytes_def demo_secrets_def byte_list_def)

theorem magic_link_single_use_witness:
  "\<exists>t. validate_magic_link (demo_account_env 5 []) demo_secrets ''tok'' (demo_accounts [demo_mail MagicLink ''tok'']) = (Inr ''u1'', t)
     \<and> validate_magic_link (demo_account_env 6 []) demo_secrets ''tok'' t = (Inl InvalidMailToken, t)"
proof -
  obtain t where t: "validate_magic_link (demo_account_env 5 []) demo_secrets ''tok'' (demo_accounts [demo_mail MagicLink ''tok''])
      = (Inr ''u1'', t)"
    by (simp add: validate_magic_link_def find_mail_def demo_account_env_def demo_accounts_def demo_mail_def)
  have "av_answers (demo_account_env 5 []) MarkMail" by (simp add: demo_account_env_def)
  from t magic_link_single_use [OF t this rtranclp.rtrancl_refl, of "demo_account_env 6 []"] show ?thesis by blast
qed

theorem session_needs_credentials_witness:
  "\<exists>x. x \<in> set (ad_sessions (perform (demo_account_env 5 [1]) demo_secrets demo_manager
            (MagicLogin (demo_page [(''token'', [''tok''])] None)) (demo_accounts [demo_mail MagicLink ''tok''])))
      \<and> credentials_shown (demo_account_env 5 [1]) demo_secrets (MagicLogin (demo_page [(''token'', [''tok''])] None))
          (demo_accounts [demo_mail MagicLink ''tok'']) (se_user x)"
proof -
  let ?s = "demo_accounts [demo_mail MagicLink ''tok'']" and ?r = "demo_page [(''token'', [''tok''])] None"
  let ?e = "demo_account_env 5 [1]"
  have "hex_encode [1] = ''01''" by (simp add: hex_encode_def hex_digits_def)
  then have "\<exists>x \<in> set (ad_sessions (perform ?e demo_secrets demo_manager (MagicLogin ?r) ?s)). se_id x = ''01''"
    by (simp add: magic_login_def validate_magic_link_def find_mail_def start_session_def create_session_def random_hex_def
        demo_account_env_def demo_accounts_def demo_mail_def demo_page_def form_get_def demo_account_def mark_mail_def user_ids_def Let_def)
  then obtain x where x: "x \<in> set (ad_sessions (perform ?e demo_secrets demo_manager (MagicLogin ?r) ?s))" "se_id x = ''01''"
    by blast
  then have "se_id x \<notin> se_id ` set (ad_sessions ?s)" by (simp add: demo_accounts_def)
  from session_needs_credentials [OF x(1) this] x(1) show ?thesis by blast
qed


definition demo_registration :: web_request where
  "demo_registration = demo_page [(''email'', [''a@x'']), (''password'', [''password''])] None"

theorem session_iff_signed_cookie_witness:
  "\<exists>s x. (account_step demo_secrets demo_manager)\<^sup>*\<^sup>* empty_accounts s \<and>
     fst (get_session (demo_account_env 5 []) demo_secrets demo_manager
       (demo_page [] (Some (sign_cookie demo_secrets demo_manager (se_id x)))) s) = Inr x"
proof -
  let ?e = "demo_account_env 5 [1]"
  let ?s = "perform ?e demo_secrets demo_manager (Register demo_registration) empty_accounts"
  have "fresh_random ?e demo_secrets empty_accounts"
    by (simp add: fresh_random_def demo_account_env_def empty_accounts_def byte_list_def)
  then have run: "(account_step demo_secrets demo_manager)\<^sup>*\<^sup>* empty_accounts ?s"
    by (intro r_into_rtranclp account_step.request)
  obtain x where x: "x \<in> set (ad_sessions ?s)" "se_expires x = 5 + 3600 * nanos"
    by (simp add: register_submit_def demo_registration_def demo_page_def form_get_def hash_password_def demo_secrets_def
        demo_argon_def argon_time_def argon_threads_def insert_user_def insert_password_def start_session_def
        create_session_def random_hex_def demo_account_env_def empty_accounts_def user_ids_def demo_manager_def Let_def)
  have "av_answers (demo_account_env 5 []) SelectSession" by (simp add: demo_account_env_def)
  from session_iff_signed_cookie [OF demo_bytes run this,
      of "demo_page [] (Some (sign_cookie demo_secrets demo_manager (se_id x)))" x x] x run
  show ?thesis by (auto simp: demo_page_def demo_account_env_def nanos_def)
qed

end
