(* ===== verification/Orgs.thy ===== *)
theory Orgs
  imports Accounts
begin

text \<open>
  Organizations (\<open>internal/org\<close>): the tenants, their members, their single-sign-on connections and the
  invitations a logged-in user accepts (\<open>/invitations/accept\<close> of \<open>internal/server/server.go\<close>). The handler in front
  of the service decodes JSON, calls one operation and writes its answer; it is not repeated here.

  Settings and configurations are their JSON text. The keys, the unique columns and the checks of the roles are
  those of the schema; the foreign keys refer to the organizations of the state and to a set of user ids.
\<close>

record org_row =
  og_id :: string
  og_slug :: string
  og_name :: string
  og_parent :: "string option"
  og_settings :: string
  og_status :: string
  og_created :: instant
  og_updated :: instant

record org_member =
  om_id :: string
  om_org :: string
  om_user :: string
  om_role :: string
  om_created :: instant

record sso_row =
  ss_id :: string
  ss_org :: string
  ss_provider :: string
  ss_config :: string
  ss_domain :: string
  ss_enabled :: bool
  ss_created :: instant
  ss_updated :: instant

record invitation =
  iv_id :: string
  iv_org :: string
  iv_email :: string
  iv_role :: string
  iv_token :: string
  iv_status :: string
  iv_inviter :: "string option"
  iv_created :: instant
  iv_expires :: instant

record org_db =
  od_orgs :: "org_row list"
  od_members :: "org_member list"
  od_sso :: "sso_row list"
  od_invites :: "invitation list"

datatype org_query =
    InsertOrg | SelectOrg | ListOrgRows | CountOrgs | UpdateOrgRow | SuspendOrg
  | InsertMember | ListMemberRows | CountMembers | UpdateMember | DeleteMember
  | InsertSso | ListSsoRows | SelectSso | UpdateSsoRow | DeleteSsoRow
  | InsertInvite | ListInvites | RevokeInvite | SelectInvite | ExpireInvite | AcceptInvite

record org_env =
  oe_now :: instant
  oe_answers :: "org_query \<Rightarrow> bool"
  oe_new_id :: string
  oe_random :: "nat list option"
  oe_uuid_ok :: "string \<Rightarrow> bool"
  oe_users :: "string set"

datatype org_error =
    SlugAndNameRequired
  | InvalidOrgID
  | OrgNotFound
  | OrgRefused
  | BadRole
  | MemberRefused
  | BadProvider
  | SsoRefused
  | SsoNotFound
  | EmailRequired
  | NoInviteToken
  | InviteRefused
  | InviteNotFound
  | InviteIs string
  | InviteExpired
  | OrgQueryFailed

definition org_ids :: "org_db \<Rightarrow> string set" where
  "org_ids s = og_id ` set (od_orgs s)"

definition known_role :: "string \<Rightarrow> bool" where
  "known_role r \<longleftrightarrow> r = ''owner'' \<or> r = ''admin'' \<or> r = ''member''"

text \<open>\<open>ORDER BY created_at DESC LIMIT $1 OFFSET $2\<close> with the bounds the services put on the limit.\<close>

definition clamp_limit :: "int \<Rightarrow> int" where
  "clamp_limit limit = (let l = (if limit \<le> 0 then 50 else limit) in if l > 100 then 100 else l)"

definition page_of :: "int \<Rightarrow> int \<Rightarrow> ('a \<Rightarrow> int) \<Rightarrow> 'a list \<Rightarrow> 'a list" where
  "page_of limit offset created rows = take (nat limit) (drop (nat offset) (sort_key (\<lambda>r. - created r) rows))"

section \<open>Organizations\<close>

record create_org_request =
  co_slug :: string
  co_name :: string
  co_parent :: "string option"
  co_settings :: "string option"

record update_org_request =
  uo_name :: "string option"
  uo_slug :: "string option"
  uo_settings :: "string option"

definition create_org :: "org_env \<Rightarrow> create_org_request \<Rightarrow> org_db \<Rightarrow> org_error + org_row \<times> org_db" where
  "create_org e req s =
     (if co_slug req = [] \<or> co_name req = [] then Inl SlugAndNameRequired
      else if \<not> oe_answers e InsertOrg \<or> oe_new_id e \<in> org_ids s \<or> co_slug req \<in> og_slug ` set (od_orgs s)
              \<or> (\<exists>p. co_parent req = Some p \<and> p \<notin> org_ids s) then Inl OrgRefused
      else let g = \<lparr>og_id = oe_new_id e, og_slug = co_slug req, og_name = co_name req, og_parent = co_parent req,
                    og_settings = given (co_settings req) ''{}'', og_status = ''active'',
                    og_created = oe_now e, og_updated = oe_now e\<rparr>
           in Inr (g, s\<lparr>od_orgs := od_orgs s @ [g]\<rparr>))"

definition get_org :: "org_env \<Rightarrow> string \<Rightarrow> org_db \<Rightarrow> org_error + org_row" where
  "get_org e oid s =
     (if \<not> oe_uuid_ok e oid then Inl InvalidOrgID
      else need OrgNotFound (if oe_answers e SelectOrg then find (\<lambda>g. og_id g = oid) (od_orgs s) else None))"

definition list_orgs :: "org_env \<Rightarrow> int \<Rightarrow> int \<Rightarrow> org_db \<Rightarrow> org_error + org_row list \<times> nat" where
  "list_orgs e limit offset s =
     (let rows = filter (\<lambda>g. og_status g = ''active'') (od_orgs s)
      in if \<not> oe_answers e ListOrgRows \<or> offset < 0 then Inl OrgQueryFailed
         else Inr (page_of (clamp_limit limit) offset og_created rows, if oe_answers e CountOrgs then length rows else 0))"

definition update_org :: "org_env \<Rightarrow> string \<Rightarrow> update_org_request \<Rightarrow> org_db \<Rightarrow> org_error + org_row \<times> org_db" where
  "update_org e oid req s =
     and_then (get_org e oid s) (\<lambda>old.
       let new = old\<lparr>og_name := given (uo_name req) (og_name old), og_slug := given (uo_slug req) (og_slug old),
             og_settings := given (uo_settings req) (og_settings old), og_updated := oe_now e\<rparr>
       in if \<not> oe_answers e UpdateOrgRow \<or> (\<exists>g \<in> set (od_orgs s). og_id g \<noteq> oid \<and> og_slug g = og_slug new)
          then Inl OrgRefused
          else Inr (new, s\<lparr>od_orgs := map (\<lambda>g. if og_id g = oid then new else g) (od_orgs s)\<rparr>))"

definition delete_org :: "org_env \<Rightarrow> string \<Rightarrow> org_db \<Rightarrow> org_error option \<times> org_db" where
  "delete_org e oid s =
     (if \<not> oe_answers e SuspendOrg then (Some OrgQueryFailed, s)
      else (None, s\<lparr>od_orgs := map (\<lambda>g. if og_id g = oid then g\<lparr>og_status := ''suspended'', og_updated := oe_now e\<rparr> else g)
              (od_orgs s)\<rparr>))"

section \<open>Members\<close>

definition add_member :: "org_env \<Rightarrow> string \<Rightarrow> string \<Rightarrow> string \<Rightarrow> org_db \<Rightarrow> org_error + org_member \<times> org_db" where
  "add_member e oid user role s =
     (if role \<noteq> ''owner'' \<and> role \<noteq> ''admin'' \<and> role \<noteq> ''member'' then Inl BadRole
      else if \<not> oe_answers e InsertMember \<or> oid \<notin> org_ids s \<or> user \<notin> oe_users e
              \<or> oe_new_id e \<in> om_id ` set (od_members s)
              \<or> (\<exists>m \<in> set (od_members s). om_org m = oid \<and> om_user m = user) then Inl MemberRefused
      else let m = \<lparr>om_id = oe_new_id e, om_org = oid, om_user = user, om_role = role, om_created = oe_now e\<rparr>
           in Inr (m, s\<lparr>od_members := od_members s @ [m]\<rparr>))"

text \<open>Each member joined with its user's row.\<close>

definition list_members ::
    "org_env \<Rightarrow> account_db \<Rightarrow> string \<Rightarrow> int \<Rightarrow> int \<Rightarrow> org_db \<Rightarrow> org_error + (org_member \<times> account_row) list \<times> nat" where
  "list_members e accounts oid limit offset s =
     (let rows = filter (\<lambda>m. om_org m = oid) (od_members s);
          joined = concat (map (\<lambda>m. map (\<lambda>u. (m, u)) (filter (\<lambda>u. ac_id u = om_user m) (ad_users accounts))) rows)
      in if \<not> oe_answers e ListMemberRows \<or> offset < 0 then Inl OrgQueryFailed
         else Inr (page_of (clamp_limit limit) offset (\<lambda>(m, u). om_created m) joined,
                   if oe_answers e CountMembers then length rows else 0))"

definition update_member_role :: "org_env \<Rightarrow> string \<Rightarrow> string \<Rightarrow> string \<Rightarrow> org_db \<Rightarrow> org_error option \<times> org_db" where
  "update_member_role e oid user role s =
     (if role \<noteq> ''owner'' \<and> role \<noteq> ''admin'' \<and> role \<noteq> ''member'' then (Some BadRole, s)
      else if \<not> oe_answers e UpdateMember then (Some OrgQueryFailed, s)
      else (None, s\<lparr>od_members := map (\<lambda>m. if om_org m = oid \<and> om_user m = user then m\<lparr>om_role := role\<rparr> else m)
              (od_members s)\<rparr>))"

definition remove_member :: "org_env \<Rightarrow> string \<Rightarrow> string \<Rightarrow> org_db \<Rightarrow> org_error option \<times> org_db" where
  "remove_member e oid user s =
     (if \<not> oe_answers e DeleteMember then (Some OrgQueryFailed, s)
      else (None, s\<lparr>od_members := filter (\<lambda>m. \<not> (om_org m = oid \<and> om_user m = user)) (od_members s)\<rparr>))"

section \<open>Single sign-on\<close>

record sso_request =
  sr_provider :: string
  sr_config :: string
  sr_domain :: string
  sr_enabled :: bool

record sso_update =
  su_provider :: "string option"
  su_config :: "string option"
  su_domain :: "string option"
  su_enabled :: "bool option"

definition domain_taken :: "string \<Rightarrow> string \<Rightarrow> org_db \<Rightarrow> bool" where
  "domain_taken sid domain s \<longleftrightarrow> domain \<noteq> [] \<and> (\<exists>c \<in> set (od_sso s). ss_id c \<noteq> sid \<and> ss_domain c = domain)"

definition create_sso :: "org_env \<Rightarrow> string \<Rightarrow> sso_request \<Rightarrow> org_db \<Rightarrow> org_error + sso_row \<times> org_db" where
  "create_sso e oid req s =
     (if sr_provider req \<noteq> ''saml'' \<and> sr_provider req \<noteq> ''oidc'' then Inl BadProvider
      else if \<not> oe_answers e InsertSso \<or> oid \<notin> org_ids s \<or> oe_new_id e \<in> ss_id ` set (od_sso s)
              \<or> domain_taken (oe_new_id e) (sr_domain req) s then Inl SsoRefused
      else let c = \<lparr>ss_id = oe_new_id e, ss_org = oid, ss_provider = sr_provider req, ss_config = sr_config req,
                    ss_domain = sr_domain req, ss_enabled = sr_enabled req, ss_created = oe_now e, ss_updated = oe_now e\<rparr>
           in Inr (c, s\<lparr>od_sso := od_sso s @ [c]\<rparr>))"

definition list_sso :: "org_env \<Rightarrow> string \<Rightarrow> org_db \<Rightarrow> org_error + sso_row list" where
  "list_sso e oid s =
     (if \<not> oe_answers e ListSsoRows then Inl OrgQueryFailed
      else Inr (sort_key (\<lambda>c. - ss_created c) (filter (\<lambda>c. ss_org c = oid) (od_sso s))))"

definition get_sso :: "org_env \<Rightarrow> string \<Rightarrow> org_db \<Rightarrow> org_error + sso_row" where
  "get_sso e sid s = need SsoNotFound (if oe_answers e SelectSso then find (\<lambda>c. ss_id c = sid) (od_sso s) else None)"

definition update_sso :: "org_env \<Rightarrow> string \<Rightarrow> sso_update \<Rightarrow> org_db \<Rightarrow> org_error + sso_row \<times> org_db" where
  "update_sso e sid req s =
     and_then (get_sso e sid s) (\<lambda>old.
       let new = old\<lparr>ss_provider := given (su_provider req) (ss_provider old), ss_config := given (su_config req) (ss_config old),
             ss_domain := given (su_domain req) (ss_domain old), ss_enabled := given (su_enabled req) (ss_enabled old),
             ss_updated := oe_now e\<rparr>
       in if \<not> oe_answers e UpdateSsoRow \<or> domain_taken sid (ss_domain new) s then Inl SsoRefused
          else Inr (new, s\<lparr>od_sso := map (\<lambda>c. if ss_id c = sid then new else c) (od_sso s)\<rparr>))"

definition delete_sso :: "org_env \<Rightarrow> string \<Rightarrow> org_db \<Rightarrow> org_error option \<times> org_db" where
  "delete_sso e sid s =
     (if \<not> oe_answers e DeleteSsoRow then (Some OrgQueryFailed, s)
      else (None, s\<lparr>od_sso := filter (\<lambda>c. ss_id c \<noteq> sid) (od_sso s)\<rparr>))"

section \<open>Invitations\<close>

text \<open>The default of the column \<open>expires_at\<close>.\<close>

definition invitation_lifetime :: duration where
  "invitation_lifetime = 7 * 24 * 3600 * nanos"

definition create_invitation ::
    "org_env \<Rightarrow> string \<Rightarrow> string \<Rightarrow> string \<Rightarrow> string \<Rightarrow> org_db \<Rightarrow> org_error + invitation \<times> org_db" where
  "create_invitation e oid inviter email role0 s =
     (if email = [] then Inl EmailRequired
      else let role = (if role0 \<noteq> ''owner'' \<and> role0 \<noteq> ''admin'' \<and> role0 \<noteq> ''member'' then ''member'' else role0)
           in and_then (need NoInviteToken (random_hex (oe_random e))) (\<lambda>token.
              let who = (if inviter \<noteq> [] then Some inviter else None);
                  i = \<lparr>iv_id = oe_new_id e, iv_org = oid, iv_email = email, iv_role = role, iv_token = token,
                       iv_status = ''pending'', iv_inviter = who, iv_created = oe_now e,
                       iv_expires = oe_now e + invitation_lifetime\<rparr>
              in if \<not> oe_answers e InsertInvite \<or> oid \<notin> org_ids s \<or> oe_new_id e \<in> iv_id ` set (od_invites s)
                    \<or> token \<in> iv_token ` set (od_invites s) \<or> (\<exists>u. who = Some u \<and> u \<notin> oe_users e)
                 then Inl InviteRefused
                 else Inr (i, s\<lparr>od_invites := od_invites s @ [i]\<rparr>)))"

text \<open>\<open>ListInvitations\<close> leaves the token out.\<close>

definition list_invitations :: "org_env \<Rightarrow> string \<Rightarrow> org_db \<Rightarrow> org_error + invitation list" where
  "list_invitations e oid s =
     (if \<not> oe_answers e ListInvites then Inl OrgQueryFailed
      else Inr (map (\<lambda>i. i\<lparr>iv_token := []\<rparr>)
             (sort_key (\<lambda>i. - iv_created i) (filter (\<lambda>i. iv_org i = oid \<and> iv_status i = ''pending'') (od_invites s)))))"

definition set_invite :: "string \<Rightarrow> string \<Rightarrow> org_db \<Rightarrow> org_db" where
  "set_invite iid status s =
     s\<lparr>od_invites := map (\<lambda>i. if iv_id i = iid then i\<lparr>iv_status := status\<rparr> else i) (od_invites s)\<rparr>"

definition revoke_invitation :: "org_env \<Rightarrow> string \<Rightarrow> org_db \<Rightarrow> org_error option \<times> org_db" where
  "revoke_invitation e iid s =
     (if \<not> oe_answers e RevokeInvite then (Some OrgQueryFailed, s)
      else (None, s\<lparr>od_invites := map (\<lambda>i. if iv_id i = iid \<and> iv_status i = ''pending'' then i\<lparr>iv_status := ''revoked''\<rparr> else i)
              (od_invites s)\<rparr>))"

definition accept_invitation :: "org_env \<Rightarrow> string \<Rightarrow> string \<Rightarrow> org_db \<Rightarrow> org_error option \<times> org_db" where
  "accept_invitation e token user s =
     (case (if oe_answers e SelectInvite then find (\<lambda>i. iv_token i = token) (od_invites s) else None) of
        None \<Rightarrow> (Some InviteNotFound, s)
      | Some i \<Rightarrow>
          if iv_status i \<noteq> ''pending'' then (Some (InviteIs (iv_status i)), s)
          else if oe_now e > iv_expires i
          then (Some InviteExpired, if oe_answers e ExpireInvite then set_invite (iv_id i) ''expired'' s else s)
          else case add_member e (iv_org i) user (iv_role i) s of
                 Inl err \<Rightarrow> (Some err, s)
               | Inr (_, s1) \<Rightarrow>
                   if \<not> oe_answers e AcceptInvite then (Some OrgQueryFailed, s1)
                   else (None, set_invite (iv_id i) ''accepted'' s1))"

text \<open>The endpoint \<open>/invitations/accept\<close>: the invitation is accepted for the user of the session.\<close>

definition accept_page ::
    "account_env \<Rightarrow> secret_lib \<Rightarrow> session_manager \<Rightarrow> org_env \<Rightarrow> web_request \<Rightarrow> account_db \<times> org_db
       \<Rightarrow> web_answer \<times> account_db \<times> org_db" where
  "accept_page ae lib sm e r w =
     (let (accounts, s) = w; token = form_get (wr_query r) ''token''
      in if token = [] then (plain_answer 400, w)
         else case get_session ae lib sm r accounts of
                (Inl _, a1) \<Rightarrow> (redirect_to (''/login?redirect=/invitations/accept?token='' @ token) [], a1, s)
              | (Inr x, a1) \<Rightarrow>
                  (case accept_invitation e token (se_user x) s of
                     (Some _, s1) \<Rightarrow> (plain_answer 400, a1, s1)
                   | (None, s1) \<Rightarrow> (plain_answer 200, a1, s1)))"

section \<open>Runs\<close>

datatype org_request =
    CreateOrg create_org_request
  | UpdateOrg string update_org_request
  | DeleteOrg string
  | AddMember string string string
  | UpdateMemberRole string string string
  | RemoveMember string string
  | CreateSso string sso_request
  | UpdateSso string sso_update
  | DeleteSso string
  | CreateInvitation string string string string
  | RevokeInvitation string
  | AcceptInvitation string string

definition kept :: "'e + 'a \<times> 's \<Rightarrow> 's \<Rightarrow> 's" where
  "kept r s = (case r of Inl _ \<Rightarrow> s | Inr (_, t) \<Rightarrow> t)"

fun serve_org :: "org_env \<Rightarrow> org_request \<Rightarrow> org_db \<Rightarrow> org_db" where
  "serve_org e (CreateOrg q) s = kept (create_org e q s) s"
| "serve_org e (UpdateOrg oid q) s = kept (update_org e oid q s) s"
| "serve_org e (DeleteOrg oid) s = snd (delete_org e oid s)"
| "serve_org e (AddMember oid user role) s = kept (add_member e oid user role s) s"
| "serve_org e (UpdateMemberRole oid user role) s = snd (update_member_role e oid user role s)"
| "serve_org e (RemoveMember oid user) s = snd (remove_member e oid user s)"
| "serve_org e (CreateSso oid q) s = kept (create_sso e oid q s) s"
| "serve_org e (UpdateSso sid q) s = kept (update_sso e sid q s) s"
| "serve_org e (DeleteSso sid) s = snd (delete_sso e sid s)"
| "serve_org e (CreateInvitation oid inviter email role) s = kept (create_invitation e oid inviter email role s) s"
| "serve_org e (RevokeInvitation iid) s = snd (revoke_invitation e iid s)"
| "serve_org e (AcceptInvitation token user) s = snd (accept_invitation e token user s)"

inductive org_step :: "org_db \<Rightarrow> org_db \<Rightarrow> bool" where
  request: "org_step s (serve_org e q s)"

inductive_cases org_stepE: "org_step s t"

text \<open>What the tables promise each other.\<close>

definition memberships :: "org_db \<Rightarrow> (string \<times> string) list" where
  "memberships s = map (\<lambda>m. (om_org m, om_user m)) (od_members s)"

definition org_inv :: "org_db \<Rightarrow> bool" where
  "org_inv s \<longleftrightarrow>
     distinct (memberships s) \<and> distinct (map iv_token (od_invites s)) \<and> distinct (map iv_id (od_invites s)) \<and>
     (\<forall>m \<in> set (od_members s). known_role (om_role m) \<and> om_org m \<in> org_ids s) \<and>
     (\<forall>i \<in> set (od_invites s). known_role (iv_role i) \<and> iv_org i \<in> org_ids s \<and>
        iv_status i \<in> {''pending'', ''accepted'', ''revoked'', ''expired''})"

lemma kept_simps [simp]: "kept (Inl x) s = s" "kept (Inr (a, t)) s = t"
  by (simp_all add: kept_def)

lemma add_member_Inr:
  "add_member e oid user role s = Inr (m, t) \<Longrightarrow> known_role role \<and> oid \<in> org_ids s \<and> user \<in> oe_users e
     \<and> (oid, user) \<notin> set (memberships s) \<and> om_org m = oid \<and> om_user m = user \<and> om_role m = role
     \<and> t = s\<lparr>od_members := od_members s @ [m]\<rparr>"
  by (auto simp: add_member_def known_role_def memberships_def Let_def split: if_split_asm)

lemma create_invitation_Inr:
  "create_invitation e oid inviter email role s = Inr (i, t) \<Longrightarrow> known_role (iv_role i) \<and> oid \<in> org_ids s
     \<and> iv_org i = oid \<and> iv_status i = ''pending'' \<and> iv_id i \<notin> iv_id ` set (od_invites s)
     \<and> iv_token i \<notin> iv_token ` set (od_invites s) \<and> t = s\<lparr>od_invites := od_invites s @ [i]\<rparr>"
  by (auto simp: create_invitation_def known_role_def step_Inr_iff Let_def split: if_splits)

lemma accept_invitation_cases:
  obtains (same) "snd (accept_invitation e token user s) = s" "fst (accept_invitation e token user s) \<notin> {None, Some OrgQueryFailed}"
  | (expired) i where "snd (accept_invitation e token user s) = set_invite (iv_id i) ''expired'' s"
      "i \<in> set (od_invites s)" "iv_status i = ''pending''" "fst (accept_invitation e token user s) \<notin> {None, Some OrgQueryFailed}"
  | (added) i m s1 where "i \<in> set (od_invites s)" "iv_token i = token" "iv_status i = ''pending''"
      "oe_now e \<le> iv_expires i" "add_member e (iv_org i) user (iv_role i) s = Inr (m, s1)"
      "accept_invitation e token user s = (if oe_answers e AcceptInvite then (None, set_invite (iv_id i) ''accepted'' s1)
          else (Some OrgQueryFailed, s1))"
proof (cases "if oe_answers e SelectInvite then find (\<lambda>i. iv_token i = token) (od_invites s) else None")
  case None
  with same show ?thesis by (simp add: accept_invitation_def)
next
  case (Some i)
  then have i: "i \<in> set (od_invites s)" "iv_token i = token" by (auto split: if_splits dest: find_SomeD)
  show ?thesis
  proof (cases "iv_status i = ''pending'' \<and> oe_now e \<le> iv_expires i")
    case False
    then consider "iv_status i \<noteq> ''pending''"
      | "iv_status i = ''pending''" "oe_now e > iv_expires i" "oe_answers e ExpireInvite"
      | "iv_status i = ''pending''" "oe_now e > iv_expires i" "\<not> oe_answers e ExpireInvite" by force
    then show ?thesis
    proof cases
      case 2
      with Some i expired [of i] show ?thesis by (simp add: accept_invitation_def)
    qed (use Some same in \<open>simp_all add: accept_invitation_def\<close>)
  next
    case True
    then show ?thesis
    proof (cases "add_member e (iv_org i) user (iv_role i) s")
      case (Inl err)
      then have "err \<noteq> OrgQueryFailed" by (auto simp: add_member_def Let_def split: if_splits)
      with Inl Some True same show ?thesis by (simp add: accept_invitation_def)
    next
      case (Inr p)
      then obtain m s1 where "add_member e (iv_org i) user (iv_role i) s = Inr (m, s1)" by (cases p) auto
      with Some True i added [of i m s1] show ?thesis by (simp add: accept_invitation_def)
    qed
  qed
qed

lemma set_invite_frame [simp]:
  "od_members (set_invite iid st s) = od_members s" "org_ids (set_invite iid st s) = org_ids s"
  "memberships (set_invite iid st s) = memberships s"
  by (simp_all add: set_invite_def org_ids_def memberships_def)

lemma map_changed: "(\<And>x. P x \<Longrightarrow> f (g x) = f x) \<Longrightarrow> map f (map (\<lambda>x. if P x then g x else x) xs) = map f xs"
  by (induction xs) auto

lemma org_ids_changed:
  "od_orgs t = map (\<lambda>g. if P g then f g else g) (od_orgs s) \<Longrightarrow> (\<And>g. P g \<Longrightarrow> og_id (f g) = og_id g) \<Longrightarrow> org_ids t = org_ids s"
  using map_changed [of P og_id f "od_orgs s"] unfolding org_ids_def by (metis list.set_map)

lemma org_inv_set_invite:
  assumes "org_inv s" and "od_invites t = map (\<lambda>i. if P i then i\<lparr>iv_status := st\<rparr> else i) (od_invites s)"
    and "od_members t = od_members s" and "od_orgs t = od_orgs s"
    and "st \<in> {''accepted'', ''revoked'', ''expired''}"
  shows "org_inv t"
proof -
  have m: "map iv_token (od_invites t) = map iv_token (od_invites s)" "map iv_id (od_invites t) = map iv_id (od_invites s)"
    unfolding assms(2) by (rule map_changed, simp)+
  have "known_role (iv_role i) \<and> iv_org i \<in> org_ids s \<and> iv_status i \<in> {''pending'', ''accepted'', ''revoked'', ''expired''}"
    if "i \<in> set (od_invites t)" for i
    using that assms(1,5) unfolding assms(2) by (auto simp: org_inv_def split: if_splits)
  then show ?thesis using assms(1,3,4) m unfolding org_inv_def memberships_def org_ids_def by simp
qed

lemma org_inv_members:
  assumes "org_inv s" and "od_invites t = od_invites s" and "od_orgs t = od_orgs s" and "distinct (memberships t)"
    and "\<And>m. m \<in> set (od_members t) \<Longrightarrow> known_role (om_role m) \<and> om_org m \<in> org_ids s"
  shows "org_inv t"
  using assms unfolding org_inv_def org_ids_def by simp

lemma org_inv_orgs:
  assumes "org_inv s" and "od_invites t = od_invites s" and "od_members t = od_members s" and "org_ids s \<subseteq> org_ids t"
  shows "org_inv t"
  using assms unfolding org_inv_def memberships_def by auto

lemma org_inv_add:
  assumes "org_inv s" and "add_member e oid user role s = Inr (m, t)"
  shows "org_inv t"
  using add_member_Inr [OF assms(2)] assms(1)
  by (intro org_inv_members [OF assms(1)]) (auto simp: org_inv_def memberships_def)

lemma update_org_Inr:
  "update_org e oid q s = Inr (new, t) \<Longrightarrow> og_id new = oid
     \<and> t = s\<lparr>od_orgs := map (\<lambda>g. if og_id g = oid then new else g) (od_orgs s)\<rparr>"
  by (auto simp: update_org_def get_org_def step_Inr_iff Let_def split: if_splits dest!: find_SomeD)

lemma org_inv_step: "org_step s t \<Longrightarrow> org_inv s \<Longrightarrow> org_inv t"
proof (elim org_stepE)
  fix e q assume t: "t = serve_org e q s" and inv: "org_inv s"
  note orgs = org_inv_orgs [OF inv] and members = org_inv_members [OF inv] and invites = org_inv_set_invite [OF inv]
  show "org_inv t"
  proof (cases q)
    case (CreateOrg r)
    then show ?thesis unfolding t
      by (intro orgs) (auto simp: create_org_def org_ids_def Let_def)
  next
    case (UpdateOrg oid r)
    show ?thesis
    proof (cases "update_org e oid r s")
      case (Inr p)
      then obtain new t' where p: "update_org e oid r s = Inr (new, t')" by (cases p) auto
      have "org_ids t' = org_ids s"
        by (rule org_ids_changed [of _ "\<lambda>g. og_id g = oid" "\<lambda>_. new"]) (use update_org_Inr [OF p] in auto)
      then show ?thesis using update_org_Inr [OF p] unfolding t UpdateOrg by (intro orgs) (auto simp: p)
    qed (simp add: t UpdateOrg inv)
  next
    case (DeleteOrg oid)
    have "org_ids t = org_ids s" if "oe_answers e SuspendOrg"
      by (rule org_ids_changed [of _ "\<lambda>g. og_id g = oid" "\<lambda>g. g\<lparr>og_status := ''suspended'', og_updated := oe_now e\<rparr>"])
         (use that in \<open>auto simp: t DeleteOrg delete_org_def\<close>)
    then show ?thesis using inv by (cases "oe_answers e SuspendOrg") (auto simp: t DeleteOrg delete_org_def intro: orgs)
  next
    case (AddMember oid user role)
    then show ?thesis unfolding t
      using inv org_inv_add by (cases "add_member e oid user role s") (auto simp: kept_def)
  next
    case (UpdateMemberRole oid user role)
    show ?thesis
    proof (cases "known_role role \<and> oe_answers e UpdateMember")
      case True
      then have m: "od_members t = map (\<lambda>m. if om_org m = oid \<and> om_user m = user then m\<lparr>om_role := role\<rparr> else m) (od_members s)"
        and "od_invites t = od_invites s" "od_orgs t = od_orgs s"
        by (auto simp: t UpdateMemberRole update_member_role_def known_role_def)
      moreover have "memberships t = memberships s"
        unfolding memberships_def m by (rule map_changed) simp
      ultimately show ?thesis
        using inv True by (intro members) (auto simp: org_inv_def split: if_splits)
    qed (use inv in \<open>auto simp: t UpdateMemberRole update_member_role_def known_role_def\<close>)
  next
    case (RemoveMember oid user)
    then show ?thesis unfolding t
      using inv by (intro members)
        (auto simp: remove_member_def org_inv_def memberships_def intro: distinct_map_filter split: if_splits)
  next
    case (CreateInvitation oid inviter email role)
    then show ?thesis
    proof (cases "create_invitation e oid inviter email role s")
      case (Inr p)
      then obtain i t' where p: "create_invitation e oid inviter email role s = Inr (i, t')" by (cases p) auto
      from create_invitation_Inr [OF p] inv show ?thesis
        by (auto simp: t CreateInvitation p org_inv_def memberships_def org_ids_def)
    qed (simp add: t inv)
  next
    case (RevokeInvitation iid)
    show ?thesis
    proof (cases "oe_answers e RevokeInvite")
      case True
      then have "od_invites t = map (\<lambda>i. if iv_id i = iid \<and> iv_status i = ''pending'' then i\<lparr>iv_status := ''revoked''\<rparr> else i)
          (od_invites s)" "od_members t = od_members s" "od_orgs t = od_orgs s"
        by (simp_all add: t RevokeInvitation revoke_invitation_def)
      then show ?thesis by (rule invites) simp
    qed (simp add: t RevokeInvitation revoke_invitation_def inv)
  next
    case (AcceptInvitation token user)
    show ?thesis
    proof (cases rule: accept_invitation_cases [of e token user s])
      case same
      with inv show ?thesis by (simp add: t AcceptInvitation)
    next
      case (expired i)
      have "org_inv (set_invite (iv_id i) ''expired'' s)"
        by (rule invites [of _ "\<lambda>x. iv_id x = iv_id i" "''expired''"]) (simp_all add: set_invite_def)
      with expired show ?thesis by (simp add: t AcceptInvitation)
    next
      case (added i m s1)
      note one = org_inv_add [OF inv added(5)]
      have "org_inv (set_invite (iv_id i) ''accepted'' s1)"
        by (rule org_inv_set_invite [OF one, of _ "\<lambda>x. iv_id x = iv_id i" "''accepted''"]) (simp_all add: set_invite_def)
      with one added(6) show ?thesis by (simp add: t AcceptInvitation)
    qed
  qed (use inv in \<open>auto simp: t create_sso_def update_sso_def delete_sso_def org_inv_def org_ids_def memberships_def
         Let_def kept_def step_Inr_iff split: sum.split if_splits\<close>)
qed

interpretation org_tables: one_way org_step org_inv
  by unfold_locales (rule org_inv_step)

section \<open>Invitations are used once\<close>

definition closed_invitation :: "string \<Rightarrow> org_db \<Rightarrow> bool" where
  "closed_invitation token s \<longleftrightarrow> org_inv s \<and> token \<in> iv_token ` set (od_invites s)
     \<and> (\<forall>i \<in> set (od_invites s). iv_token i = token \<longrightarrow> iv_status i \<noteq> ''pending'')"

text \<open>An old invitation keeps its token, and one that is no longer pending stays so.\<close>

definition invites_follow :: "invitation list \<Rightarrow> invitation list \<Rightarrow> bool" where
  "invites_follow is js \<longleftrightarrow>
     iv_token ` set is \<subseteq> iv_token ` set js \<and>
     (\<forall>j \<in> set js. iv_token j \<in> iv_token ` set is \<longrightarrow>
        (\<exists>i \<in> set is. iv_token i = iv_token j \<and> (iv_status j = ''pending'' \<longrightarrow> iv_status i = ''pending'')))"

lemma invites_follow_refl [simp]: "invites_follow is is"
  by (auto simp: invites_follow_def)

lemma invites_follow_set:
  assumes "st \<noteq> ''pending''"
  shows "invites_follow is (map (\<lambda>i. if P i then i\<lparr>iv_status := st\<rparr> else i) is)"
proof -
  have "map iv_token (map (\<lambda>i. if P i then i\<lparr>iv_status := st\<rparr> else i) is) = map iv_token is"
    by (rule map_changed) simp
  then have "iv_token ` set (map (\<lambda>i. if P i then i\<lparr>iv_status := st\<rparr> else i) is) = iv_token ` set is"
    by (metis list.set_map)
  moreover have "\<exists>i \<in> set is. iv_token i = iv_token j \<and> (iv_status j = ''pending'' \<longrightarrow> iv_status i = ''pending'')"
    if "j \<in> set (map (\<lambda>i. if P i then i\<lparr>iv_status := st\<rparr> else i) is)" for j
    using that assms by auto
  ultimately show ?thesis unfolding invites_follow_def by blast
qed

lemma set_invite_follow: "st \<noteq> ''pending'' \<Longrightarrow> invites_follow (od_invites s) (od_invites (set_invite iid st s))"
  by (simp add: set_invite_def invites_follow_set)

lemma serve_org_follow: "invites_follow (od_invites s) (od_invites (serve_org e q s))"
proof (cases q)
  case (CreateInvitation oid inviter email role)
  show ?thesis
  proof (cases "create_invitation e oid inviter email role s")
    case (Inr p)
    then obtain i t where p: "create_invitation e oid inviter email role s = Inr (i, t)" by (cases p) auto
    from create_invitation_Inr [OF p] show ?thesis by (auto simp: CreateInvitation p invites_follow_def)
  qed (simp add: CreateInvitation)
next
  case (RevokeInvitation iid)
  then show ?thesis by (simp add: revoke_invitation_def invites_follow_set)
next
  case (AcceptInvitation token user)
  show ?thesis
  proof (cases rule: accept_invitation_cases [of e token user s])
    case (added i m s1)
    have "od_invites s1 = od_invites s" using add_member_Inr [OF added(5)] by simp
    then show ?thesis
      using added(6) set_invite_follow [of "''accepted''" s1 "iv_id i"] by (simp add: AcceptInvitation)
  qed (simp_all add: AcceptInvitation set_invite_follow)
next
  case (AddMember oid user role)
  then show ?thesis
    by (cases "add_member e oid user role s") (auto simp: kept_def split: prod.split dest: add_member_Inr)
next
  case (UpdateOrg oid r)
  then show ?thesis by (cases "update_org e oid r s") (auto simp: kept_def split: prod.split dest: update_org_Inr)
qed (auto simp: create_org_def delete_org_def update_member_role_def remove_member_def create_sso_def update_sso_def
       delete_sso_def kept_def Let_def step_Inr_iff split: sum.split)

lemma closed_step: "org_step s t \<Longrightarrow> closed_invitation token s \<Longrightarrow> closed_invitation token t"
proof -
  assume step: "org_step s t" and c: "closed_invitation token s"
  then have inv: "org_inv t" using org_inv_step by (simp add: closed_invitation_def)
  from step have f: "invites_follow (od_invites s) (od_invites t)"
    by (elim org_stepE) (simp add: serve_org_follow)
  have "iv_status j \<noteq> ''pending''" if j: "j \<in> set (od_invites t)" "iv_token j = token" for j
  proof -
    have "iv_token j \<in> iv_token ` set (od_invites s)" using c j(2) by (simp add: closed_invitation_def)
    with f j(1) obtain i where "i \<in> set (od_invites s)" "iv_token i = iv_token j"
        "iv_status j = ''pending'' \<longrightarrow> iv_status i = ''pending''" unfolding invites_follow_def by blast
    with c j(2) show ?thesis by (auto simp: closed_invitation_def)
  qed
  moreover have "token \<in> iv_token ` set (od_invites t)"
    using c f unfolding closed_invitation_def invites_follow_def by (meson subsetD)
  ultimately show ?thesis using inv by (simp add: closed_invitation_def)
qed

interpretation closed_invites: one_way org_step "closed_invitation token" for token
  by unfold_locales (rule closed_step)

text \<open>
  C31: An accepted invitation adds one membership: that of the accepting user, in the organization and with the role of an
  invitation with this token that was pending and had not expired, where the user had no membership. Afterwards the token
  is refused for whoever sends it, in every later state of the tables.
\<close>

theorem invitation_admits_once:
  assumes "(org_step)\<^sup>*\<^sup>* \<lparr>od_orgs = [], od_members = [], od_sso = [], od_invites = []\<rparr> s"
    and "accept_invitation e token user s = (None, t)" and "(org_step)\<^sup>*\<^sup>* t s'"
  shows "\<exists>i \<in> set (od_invites s). \<exists>m. iv_token i = token \<and> iv_status i = ''pending'' \<and> oe_now e \<le> iv_expires i
     \<and> od_members t = od_members s @ [m] \<and> om_org m = iv_org i \<and> om_user m = user \<and> om_role m = iv_role i
     \<and> (iv_org i, user) \<notin> set (memberships s)
     \<and> (\<exists>err. accept_invitation e' token other s' = (Some err, s'))"
proof -
  have inv: "org_inv s"
    by (rule org_tables.steps_keep [OF assms(1)]) (simp add: org_inv_def memberships_def)
  show ?thesis
  proof (cases rule: accept_invitation_cases [of e token user s])
    case (added i m s1)
    then have t: "t = set_invite (iv_id i) ''accepted'' s1" using assms(2) by (simp split: if_splits)
    note add = add_member_Inr [OF added(5)]
    have "org_step s t" using org_step.request [of s e "AcceptInvitation token user"] assms(2) by simp
    then have "org_inv t" using inv by (rule org_inv_step)
    moreover have "token \<in> iv_token ` set (od_invites t)"
      using set_invite_follow [of "''accepted''" s1 "iv_id i"] added(1,2) add by (auto simp: t invites_follow_def)
    moreover have "iv_status j \<noteq> ''pending''" if j: "j \<in> set (od_invites t)" "iv_token j = token" for j
    proof -
      obtain k where k: "k \<in> set (od_invites s)" "j = (if iv_id k = iv_id i then k\<lparr>iv_status := ''accepted''\<rparr> else k)"
        using j(1) add by (auto simp: t set_invite_def)
      then have "iv_token k = iv_token i" using j(2) added(2) by (simp split: if_splits)
      then have "k = i" using inv k(1) added(1) by (auto simp: org_inv_def distinct_map inj_on_def)
      then show ?thesis using k(2) by simp
    qed
    ultimately have "closed_invitation token t" by (simp add: closed_invitation_def)
    then have c: "closed_invitation token s'" using closed_invites.steps_keep [OF assms(3)] by blast
    have "\<exists>err. accept_invitation e' token other s' = (Some err, s')"
    proof (cases "find (\<lambda>i. iv_token i = token) (od_invites s')")
      case (Some j)
      then have "iv_status j \<noteq> ''pending''" using c by (auto simp: closed_invitation_def dest!: find_SomeD)
      with Some show ?thesis by (simp add: accept_invitation_def)
    qed (simp add: accept_invitation_def)
    with add added t show ?thesis by (intro bexI [of _ i] exI [of _ m]) auto
  qed (use assms(2) in simp_all)
qed

text \<open>
  The two statements of an acceptance are no transaction. When the second is not answered the user is a member, is told that
  it failed, and the invitation is still pending for somebody else.
\<close>

lemma unmarked_invitation_stays:
  assumes "accept_invitation e token user s = (Some OrgQueryFailed, t)"
  shows "od_members t \<noteq> od_members s \<and> od_invites t = od_invites s"
proof (cases rule: accept_invitation_cases [of e token user s])
  case (added i m s1)
  then have "t = s1" using assms by (simp split: if_splits)
  then show ?thesis using add_member_Inr [OF added(5)] by auto
qed (use assms in simp_all)

text \<open>An update of a connection does not repeat the check of the provider.\<close>

lemma sso_provider_unchecked:
  "update_sso e sid q s = Inr (c, t) \<Longrightarrow> su_provider q = Some p \<Longrightarrow> ss_provider c = p"
  by (auto simp: update_sso_def given_def step_Inr_iff Let_def split: if_splits)

section \<open>A run\<close>

definition no_orgs :: org_db where
  "no_orgs = \<lparr>od_orgs = [], od_members = [], od_sso = [], od_invites = []\<rparr>"

definition demo_org_env :: "instant \<Rightarrow> string \<Rightarrow> org_env" where
  "demo_org_env t nid = \<lparr>oe_now = t, oe_answers = (\<lambda>_. True), oe_new_id = nid, oe_random = Some [1],
     oe_uuid_ok = (\<lambda>_. True), oe_users = {''u1'', ''u2''}\<rparr>"

definition demo_invited :: org_db where
  "demo_invited = serve_org (demo_org_env 2 ''i1'') (CreateInvitation ''o1'' [] ''a@x'' ''admin'')
     (serve_org (demo_org_env 1 ''o1'') (CreateOrg \<lparr>co_slug = ''acme'', co_name = ''Acme'', co_parent = None, co_settings = None\<rparr>) no_orgs)"

lemma demo_invited_eq:
  "demo_invited = \<lparr>od_orgs = [\<lparr>og_id = ''o1'', og_slug = ''acme'', og_name = ''Acme'', og_parent = None, og_settings = ''{}'',
       og_status = ''active'', og_created = 1, og_updated = 1\<rparr>], od_members = [], od_sso = [],
     od_invites = [\<lparr>iv_id = ''i1'', iv_org = ''o1'', iv_email = ''a@x'', iv_role = ''admin'', iv_token = ''01'',
       iv_status = ''pending'', iv_inviter = None, iv_created = 2, iv_expires = 2 + invitation_lifetime\<rparr>]\<rparr>"
  by (simp add: demo_invited_def create_org_def create_invitation_def demo_org_env_def no_orgs_def given_def org_ids_def
      random_hex_def hex_encode_def hex_digits_def Let_def)

lemma demo_invited_run: "(org_step)\<^sup>*\<^sup>* \<lparr>od_orgs = [], od_members = [], od_sso = [], od_invites = []\<rparr> demo_invited"
  unfolding demo_invited_def no_orgs_def [symmetric] by (meson org_step.request rtranclp.intros)

theorem invitation_admits_once_witness:
  "\<exists>t m. accept_invitation (demo_org_env 3 ''m1'') ''01'' ''u1'' demo_invited = (None, t) \<and> od_members t = [m]
     \<and> om_user m = ''u1'' \<and> om_role m = ''admin''
     \<and> fst (accept_invitation (demo_org_env 4 ''m2'') ''01'' ''u2'' t) \<noteq> None"
proof -
  obtain t where t: "accept_invitation (demo_org_env 3 ''m1'') ''01'' ''u1'' demo_invited = (None, t)"
    by (simp add: accept_invitation_def add_member_def demo_invited_eq demo_org_env_def org_ids_def invitation_lifetime_def
        nanos_def Let_def)
  from invitation_admits_once [OF demo_invited_run t rtranclp.rtrancl_refl, of "demo_org_env 4 ''m2''" "''u2''"]
  obtain i m err where "i \<in> set (od_invites demo_invited)" "od_members t = od_members demo_invited @ [m]" "om_user m = ''u1''"
      "om_role m = iv_role i" "accept_invitation (demo_org_env 4 ''m2'') ''01'' ''u2'' t = (Some err, t)" by blast
  with t show ?thesis by (auto simp: demo_invited_eq)
qed

end
