(* ===== verification/Clients.thy ===== *)
theory Clients
  imports Orgs Store
begin

text \<open>
  OAuth clients: the service behind the admin API (\<open>internal/client\<close>) and dynamic registration, which an initial access
  token gates (\<open>internal/auth/registration.go\<close>). JSON bodies arrive decoded; a list of a request that was absent is
  \<^const>\<open>None\<close>, an empty one is \<open>Some []\<close>. The row a client is stored as is the one \<open>Storage.GetClient\<close> of theory
  \<open>OAuthStore\<close> reads, with the columns that one leaves out.
\<close>

record client_row =
  kl_client :: oauth_client
  kl_name :: string
  kl_metadata :: string
  kl_created :: instant
  kl_updated :: instant

abbreviation kl_id :: "client_row \<Rightarrow> string" where
  "kl_id c \<equiv> oc_id (kl_client c)"

record registration_token =
  rt_hash :: string
  rt_org :: "string option"
  rt_max :: int
  rt_used :: int
  rt_expires :: "instant option"

record client_db =
  kd_clients :: "client_row list"
  kd_tokens :: "registration_token list"

datatype client_query = InsertClient | SelectClient | ListClients | CountClients | DeleteClientRow | UpdateSecret | ClaimToken | InsertToken

record client_env =
  ke_now :: instant
  ke_answers :: "client_query \<Rightarrow> bool"
  ke_id_random :: "nat list option"
  ke_secret_random :: "nat list option"
  ke_salt :: "nat list option"

datatype client_error =
    ClientRandomFailed
  | SecretHashFailed
  | ClientRefused
  | ClientNotFound
  | ClientQueryFailed

section \<open>The client service\<close>

record create_client_request =
  cc_name :: string
  cc_redirects :: "string list option"
  cc_grants :: "string list option"
  cc_responses :: "string list option"
  cc_scopes :: "string list option"
  cc_audience :: "string list option"
  cc_public :: bool
  cc_auth_method :: string
  cc_metadata :: "string option"

text \<open>The secret of a client that is not public, and its hash.\<close>

definition new_secret :: "client_env \<Rightarrow> argon \<Rightarrow> bool \<Rightarrow> client_error + string \<times> string" where
  "new_secret e argon public =
     (if public then Inr ([], [])
      else and_then (need ClientRandomFailed (random_string (ke_secret_random e))) (\<lambda>secret.
           and_then (err_as SecretHashFailed (hash_password argon (ke_salt e) secret)) (\<lambda>hash.
           Inr (secret, hash))))"

definition create_client ::
    "client_env \<Rightarrow> argon \<Rightarrow> create_client_request \<Rightarrow> client_db \<Rightarrow> client_error + (client_row \<times> string) \<times> client_db" where
  "create_client e argon req s =
     and_then (need ClientRandomFailed (random_string (ke_id_random e))) (\<lambda>cid.
     and_then (new_secret e argon (cc_public req)) (\<lambda>(secret, hash).
       let c = \<lparr>kl_client =
                  \<lparr>oc_id = cid, oc_secret = hash, oc_redirects = given (cc_redirects req) [],
                   oc_grants = given (cc_grants req) [''authorization_code''],
                   oc_responses = given (cc_responses req) [''code''],
                   oc_scopes = given (cc_scopes req) [''openid'', ''profile'', ''email''],
                   oc_audience = given (cc_audience req) [], oc_public = cc_public req,
                   oc_auth_method = Some (if cc_auth_method req = []
                      then (if cc_public req then ''none'' else ''client_secret_basic'') else cc_auth_method req)\<rparr>,
                kl_name = cc_name req, kl_metadata = given (cc_metadata req) ''{}'',
                kl_created = ke_now e, kl_updated = ke_now e\<rparr>
       in if \<not> ke_answers e InsertClient \<or> cid \<in> kl_id ` set (kd_clients s) then Inl ClientRefused
          else Inr ((c, secret), s\<lparr>kd_clients := kd_clients s @ [c]\<rparr>)))"

definition get_client_by_id :: "client_env \<Rightarrow> string \<Rightarrow> client_db \<Rightarrow> client_error + client_row" where
  "get_client_by_id e cid s =
     need ClientNotFound (if ke_answers e SelectClient then find (\<lambda>c. kl_id c = cid) (kd_clients s) else None)"

definition list_clients :: "client_env \<Rightarrow> int \<Rightarrow> int \<Rightarrow> client_db \<Rightarrow> client_error + client_row list \<times> nat" where
  "list_clients e limit offset s =
     (if \<not> ke_answers e ListClients \<or> offset < 0 then Inl ClientQueryFailed
      else Inr (page_of (clamp_limit limit) offset kl_created (kd_clients s),
                if ke_answers e CountClients then length (kd_clients s) else 0))"

definition delete_client :: "client_env \<Rightarrow> string \<Rightarrow> client_db \<Rightarrow> client_error option \<times> client_db" where
  "delete_client e cid s =
     (if \<not> ke_answers e DeleteClientRow then (Some ClientQueryFailed, s)
      else (None, s\<lparr>kd_clients := filter (\<lambda>c. kl_id c \<noteq> cid) (kd_clients s)\<rparr>))"

definition rotate_secret :: "client_env \<Rightarrow> argon \<Rightarrow> string \<Rightarrow> client_db \<Rightarrow> client_error + string \<times> client_db" where
  "rotate_secret e argon cid s =
     and_then (need ClientRandomFailed (random_string (ke_secret_random e))) (\<lambda>secret.
     and_then (err_as SecretHashFailed (hash_password argon (ke_salt e) secret)) (\<lambda>hash.
     if \<not> ke_answers e UpdateSecret then Inl ClientQueryFailed
     else Inr (secret, s\<lparr>kd_clients := map (\<lambda>c. if kl_id c = cid
            then c\<lparr>kl_client := (kl_client c)\<lparr>oc_secret := hash\<rparr>, kl_updated := ke_now e\<rparr> else c) (kd_clients s)\<rparr>)))"

section \<open>Dynamic registration\<close>

record registration_request =
  gq_redirects :: "string list"
  gq_name :: string
  gq_grants :: "string list"
  gq_responses :: "string list"
  gq_scope :: string
  gq_auth_method :: string

datatype registration_answer =
    RegUnauthorized
  | RegBody
  | RegRedirect
  | RegMetadata
  | RegClientFailed
  | RegCreated client_row string

text \<open>\<open>validateGrantMetadata\<close>: the request with its defaults, unless something in it is not permitted.\<close>

definition validate_grant_metadata :: "registration_request \<Rightarrow> registration_request option" where
  "validate_grant_metadata req0 =
     (let req1 = (if gq_grants req0 = [] then req0\<lparr>gq_grants := [''authorization_code'']\<rparr> else req0);
          req2 = (if gq_responses req1 = [] then req1\<lparr>gq_responses := [''code'']\<rparr> else req1)
      in if \<not> list_all (\<lambda>g. g \<in> {''authorization_code'', ''refresh_token''}) (gq_grants req1) then None
         else if \<not> list_all (\<lambda>r. r = ''code'') (gq_responses req2) then None
         else if gq_auth_method req2 \<notin> {'''', ''none'', ''client_secret_basic'', ''client_secret_post''} then None
         else Some req2)"

definition token_matches :: "client_env \<Rightarrow> string \<Rightarrow> registration_token \<Rightarrow> bool" where
  "token_matches e hash k \<longleftrightarrow> rt_hash k = hash \<and> not_expired (ke_now e) (rt_expires k) \<and> rt_used k < rt_max k"

text \<open>One \<open>UPDATE\<close> takes a use of the token, if it has one left; the answer is the organization it is scoped to.\<close>

definition claim_registration_token ::
    "client_env \<Rightarrow> secret_lib \<Rightarrow> string \<Rightarrow> client_db \<Rightarrow> string option \<times> client_db" where
  "claim_registration_token e lib bearer s =
     (let hash = hex_encode (sl_sha lib bearer)
      in case (if ke_answers e ClaimToken then find (token_matches e hash) (kd_tokens s) else None) of
           None \<Rightarrow> (None, s)
         | Some k \<Rightarrow>
             (Some (given (rt_org k) []),
              s\<lparr>kd_tokens := map (\<lambda>x. if token_matches e hash x then x\<lparr>rt_used := rt_used x + 1\<rparr> else x) (kd_tokens s)\<rparr>))"

definition bearer_of :: "string \<Rightarrow> string option" where
  "bearer_of header = (if has_prefix ''Bearer '' header then Some (trim_space (trim_prefix ''Bearer '' header)) else None)"

text \<open>The metadata of the client are \<open>json\<close> of the organization of the token.\<close>

definition register_client ::
    "client_env \<Rightarrow> secret_lib \<Rightarrow> 'r url_lib \<Rightarrow> (string \<Rightarrow> string) \<Rightarrow> string \<Rightarrow> registration_request option \<Rightarrow> client_db
       \<Rightarrow> registration_answer \<times> client_db" where
  "register_client e lib urls json header body s =
     (case bearer_of header of
        None \<Rightarrow> (RegUnauthorized, s)
      | Some bearer \<Rightarrow>
          (case body of
             None \<Rightarrow> (RegBody, s)
           | Some req0 \<Rightarrow>
               if \<not> list_all (validate_redirect_uri urls) (gq_redirects req0) then (RegRedirect, s)
               else case validate_grant_metadata req0 of
                      None \<Rightarrow> (RegMetadata, s)
                    | Some req \<Rightarrow>
                        if contains (gq_grants req) ''authorization_code'' \<and> gq_redirects req = [] then (RegRedirect, s)
                        else case claim_registration_token e lib bearer s of
                               (None, s1) \<Rightarrow> (RegUnauthorized, s1)
                             | (Some org, s1) \<Rightarrow>
                                 (case create_client e (sl_argon lib)
                                    \<lparr>cc_name = gq_name req, cc_redirects = Some (gq_redirects req), cc_grants = Some (gq_grants req),
                                     cc_responses = Some (gq_responses req), cc_scopes = Some (go_fields (gq_scope req)),
                                     cc_audience = None, cc_public = (gq_auth_method req = ''none''),
                                     cc_auth_method = gq_auth_method req, cc_metadata = Some (json org)\<rparr> s1 of
                                    Inl _ \<Rightarrow> (RegClientFailed, s1)
                                  | Inr ((c, secret), s2) \<Rightarrow> (RegCreated c secret, s2))))"

definition registration_token_prefix :: string where
  "registration_token_prefix = ''legant_rt_''"

definition mint_registration_token ::
    "client_env \<Rightarrow> secret_lib \<Rightarrow> int \<Rightarrow> duration \<Rightarrow> client_db \<Rightarrow> client_error + string \<times> client_db" where
  "mint_registration_token e lib max_uses ttl s =
     and_then (need ClientRandomFailed (random_hex (ke_secret_random e))) (\<lambda>raw.
       let token = registration_token_prefix @ raw; hash = hex_encode (sl_sha lib token)
       in if \<not> ke_answers e InsertToken \<or> hash \<in> rt_hash ` set (kd_tokens s) then Inl ClientRefused
          else Inr (token, s\<lparr>kd_tokens := kd_tokens s @
                 [\<lparr>rt_hash = hash, rt_org = None, rt_max = max_uses, rt_used = 0,
                   rt_expires = (if ttl > 0 then Some (ke_now e + ttl) else None)\<rparr>]\<rparr>))"

section \<open>What a registration yields\<close>

lemma three_checks:
  "(if \<not> a then None else if \<not> b then None else if c \<notin> S then None else Some z) = Some y \<longleftrightarrow> a \<and> b \<and> c \<in> S \<and> y = z"
  by auto

lemma validate_grant_metadata_Some:
  "validate_grant_metadata req0 = Some req \<Longrightarrow>
   gq_grants req \<noteq> [] \<and> set (gq_grants req) \<subseteq> {''authorization_code'', ''refresh_token''} \<and> gq_responses req \<noteq> []
   \<and> set (gq_responses req) \<subseteq> {''code''} \<and> gq_auth_method req \<in> {'''', ''none'', ''client_secret_basic'', ''client_secret_post''}
   \<and> gq_redirects req = gq_redirects req0 \<and> gq_auth_method req = gq_auth_method req0 \<and> gq_scope req = gq_scope req0"
proof -
  assume v: "validate_grant_metadata req0 = Some req"
  define r1 where "r1 = (if gq_grants req0 = [] then req0\<lparr>gq_grants := [''authorization_code'']\<rparr> else req0)"
  define r2 where "r2 = (if gq_responses r1 = [] then r1\<lparr>gq_responses := [''code'']\<rparr> else r1)"
  have same: "gq_grants r2 = gq_grants r1" "gq_redirects r2 = gq_redirects req0" "gq_auth_method r2 = gq_auth_method req0"
      "gq_scope r2 = gq_scope req0" "gq_grants r1 \<noteq> []" "gq_responses r2 \<noteq> []"
    by (simp_all add: r1_def r2_def)
  have "req = r2" "list_all (\<lambda>g. g \<in> {''authorization_code'', ''refresh_token''}) (gq_grants r1)"
      "list_all (\<lambda>r. r = ''code'') (gq_responses r2)"
      "gq_auth_method r2 \<in> {'''', ''none'', ''client_secret_basic'', ''client_secret_post''}"
    using v unfolding validate_grant_metadata_def Let_def r1_def [symmetric] r2_def [symmetric] three_checks by simp_all
  then show ?thesis using same unfolding list_all_iff by (simp add: subset_iff)
qed

lemma claim_Some:
  "claim_registration_token e lib bearer s = (Some org, t) \<Longrightarrow>
   \<exists>k \<in> set (kd_tokens s). token_matches e (hex_encode (sl_sha lib bearer)) k
     \<and> t = s\<lparr>kd_tokens := map (\<lambda>x. if token_matches e (hex_encode (sl_sha lib bearer)) x then x\<lparr>rt_used := rt_used x + 1\<rparr> else x)
              (kd_tokens s)\<rparr>"
  by (auto simp: claim_registration_token_def Let_def split: option.splits if_splits dest!: find_SomeD)

lemma claim_None: "claim_registration_token e lib bearer s = (None, t) \<Longrightarrow> t = s"
  by (auto simp: claim_registration_token_def Let_def split: option.splits)

lemma create_client_Inr:
  "create_client e argon req s = Inr ((c, secret), t) \<Longrightarrow>
   t = s\<lparr>kd_clients := kd_clients s @ [c]\<rparr> \<and> kl_id c \<notin> kl_id ` set (kd_clients s)
   \<and> oc_grants (kl_client c) = given (cc_grants req) [''authorization_code'']
   \<and> oc_redirects (kl_client c) = given (cc_redirects req) [] \<and> oc_responses (kl_client c) = given (cc_responses req) [''code'']
   \<and> oc_scopes (kl_client c) = given (cc_scopes req) [''openid'', ''profile'', ''email'']
   \<and> oc_public (kl_client c) = cc_public req \<and> new_secret e argon (cc_public req) = Inr (secret, oc_secret (kl_client c))"
  by (auto simp: create_client_def step_Inr_iff Let_def split: if_splits prod.splits)

lemma register_client_Created:
  assumes "register_client e lib urls json header body s = (RegCreated c secret, t)"
  obtains bearer req0 req org s1 where "bearer_of header = Some bearer" "body = Some req0"
    "list_all (validate_redirect_uri urls) (gq_redirects req0)" "validate_grant_metadata req0 = Some req"
    "\<not> (''authorization_code'' \<in> set (gq_grants req) \<and> gq_redirects req = [])"
    "claim_registration_token e lib bearer s = (Some org, s1)"
    "create_client e (sl_argon lib)
       \<lparr>cc_name = gq_name req, cc_redirects = Some (gq_redirects req), cc_grants = Some (gq_grants req),
        cc_responses = Some (gq_responses req), cc_scopes = Some (go_fields (gq_scope req)),
        cc_audience = None, cc_public = (gq_auth_method req = ''none''),
        cc_auth_method = gq_auth_method req, cc_metadata = Some (json org)\<rparr> s1 = Inr ((c, secret), t)"
  using assms
  by (auto simp: register_client_def split: option.splits if_splits prod.splits sum.splits)

text \<open>
  C24: A client that registers itself gets the interactive grants only. Every grant type of the stored client is the
  authorization code or the refresh token, its only response type is \<open>code\<close>, each of its redirect URIs passed the
  check and there is one if it has the code grant, and it is public exactly when it asked for no authentication. The
  registration used an unexpired initial access token with a use left, which has one use less afterwards.
\<close>

theorem registered_client_is_restricted:
  assumes "register_client e lib urls json header body s = (RegCreated c secret, t)"
  shows "set (oc_grants (kl_client c)) \<subseteq> {''authorization_code'', ''refresh_token''}
     \<and> oc_grants (kl_client c) \<noteq> [] \<and> set (oc_responses (kl_client c)) = {''code''}
     \<and> list_all (validate_redirect_uri urls) (oc_redirects (kl_client c))
     \<and> (''authorization_code'' \<in> set (oc_grants (kl_client c)) \<longrightarrow> oc_redirects (kl_client c) \<noteq> [])
     \<and> (oc_public (kl_client c) \<longleftrightarrow> (\<exists>req. body = Some req \<and> gq_auth_method req = ''none''))
     \<and> kd_clients t = kd_clients s @ [c]
     \<and> (\<exists>bearer k. bearer_of header = Some bearer \<and> k \<in> set (kd_tokens s) \<and> token_matches e (hex_encode (sl_sha lib bearer)) k
          \<and> k\<lparr>rt_used := rt_used k + 1\<rparr> \<in> set (kd_tokens t))"
proof -
  obtain bearer req0 req org s1 where b: "bearer_of header = Some bearer" "body = Some req0"
    and r: "list_all (validate_redirect_uri urls) (gq_redirects req0)" and v: "validate_grant_metadata req0 = Some req"
    and g: "\<not> (''authorization_code'' \<in> set (gq_grants req) \<and> gq_redirects req = [])"
    and claim: "claim_registration_token e lib bearer s = (Some org, s1)"
    and c: "create_client e (sl_argon lib)
       \<lparr>cc_name = gq_name req, cc_redirects = Some (gq_redirects req), cc_grants = Some (gq_grants req),
        cc_responses = Some (gq_responses req), cc_scopes = Some (go_fields (gq_scope req)),
        cc_audience = None, cc_public = (gq_auth_method req = ''none''),
        cc_auth_method = gq_auth_method req, cc_metadata = Some (json org)\<rparr> s1 = Inr ((c, secret), t)"
    using register_client_Created [OF assms] by blast
  note row = create_client_Inr [OF c, simplified given_def option.case create_client_request.simps]
  obtain k where k: "k \<in> set (kd_tokens s)" "token_matches e (hex_encode (sl_sha lib bearer)) k"
    and s1: "s1 = s\<lparr>kd_tokens := map (\<lambda>x. if token_matches e (hex_encode (sl_sha lib bearer)) x
              then x\<lparr>rt_used := rt_used x + 1\<rparr> else x) (kd_tokens s)\<rparr>"
    using claim_Some [OF claim] by blast
  have "k\<lparr>rt_used := rt_used k + 1\<rparr> \<in> set (kd_tokens t)" using row k by (force simp: s1)
  moreover have "set (gq_responses req) = {''code''}"
    using validate_grant_metadata_Some [OF v] by (cases "gq_responses req") auto
  ultimately show ?thesis
    using row validate_grant_metadata_Some [OF v] b r g k s1 by auto
qed

section \<open>How many clients a token registers\<close>

fun register_all ::
    "secret_lib \<Rightarrow> 'r url_lib \<Rightarrow> (string \<Rightarrow> string) \<Rightarrow> (client_env \<times> string \<times> registration_request option) list \<Rightarrow> client_db
       \<Rightarrow> registration_answer list \<times> client_db" where
  "register_all lib urls json [] s = ([], s)"
| "register_all lib urls json ((e, header, body) # qs) s =
     (let (a, s1) = register_client e lib urls json header body s; (rest, t) = register_all lib urls json qs s1 in (a # rest, t))"

definition uses_left :: "string \<Rightarrow> client_db \<Rightarrow> int" where
  "uses_left h s = sum_list (map (\<lambda>k. if rt_hash k = h then max 0 (rt_max k - rt_used k) else 0) (kd_tokens s))"

definition presented :: "secret_lib \<Rightarrow> string \<Rightarrow> string \<Rightarrow> bool" where
  "presented lib h header \<longleftrightarrow> (\<exists>b. bearer_of header = Some b \<and> hex_encode (sl_sha lib b) = h)"

fun is_created :: "registration_answer \<Rightarrow> bool" where
  "is_created (RegCreated c secret) = True"
| "is_created _ = False"

definition registered_with :: "secret_lib \<Rightarrow> string \<Rightarrow> (client_env \<times> string \<times> registration_request option) list \<Rightarrow> registration_answer list \<Rightarrow> nat" where
  "registered_with lib h qs as = length (filter (\<lambda>((e, header, body), a). presented lib h header \<and> is_created a) (zip qs as))"

lemma used_up:
  "sum_list (map (\<lambda>k. if rt_hash k = h then max 0 (rt_max k - rt_used k) else 0)
       (map (\<lambda>x. if token_matches e h' x then x\<lparr>rt_used := rt_used x + 1\<rparr> else x) ks))
   \<le> sum_list (map (\<lambda>k. if rt_hash k = h then max 0 (rt_max k - rt_used k) else 0) ks)
     - (if h = h' \<and> (\<exists>k \<in> set ks. token_matches e h' k) then 1 else 0)"
  by (induction ks) (auto simp: token_matches_def split: if_splits)

lemma uses_left_nonneg: "0 \<le> uses_left h s"
  unfolding uses_left_def by (rule sum_list_nonneg) auto

lemma uses_left_claim:
  assumes "claim_registration_token e lib bearer s = (org, t)"
  shows "uses_left h t \<le> uses_left h s - (if org \<noteq> None \<and> hex_encode (sl_sha lib bearer) = h then 1 else 0)"
proof (cases org)
  case None
  with assms claim_None [of e lib bearer s t] show ?thesis by simp
next
  case (Some o1)
  from claim_Some [OF assms [unfolded Some]] obtain k where "k \<in> set (kd_tokens s)"
      "token_matches e (hex_encode (sl_sha lib bearer)) k"
    and t: "t = s\<lparr>kd_tokens := map (\<lambda>x. if token_matches e (hex_encode (sl_sha lib bearer)) x
                 then x\<lparr>rt_used := rt_used x + 1\<rparr> else x) (kd_tokens s)\<rparr>" by blast
  then show ?thesis
    using used_up [of h e "hex_encode (sl_sha lib bearer)" "kd_tokens s"] Some by (auto simp: uses_left_def split: if_splits)
qed

lemma create_client_tokens: "create_client e argon req s = Inr (p, t) \<Longrightarrow> kd_tokens t = kd_tokens s"
  by (cases p) (use create_client_Inr in fastforce)

lemma uses_left_register:
  assumes "register_client e lib urls json header body s = (a, t)"
  shows "uses_left h t \<le> uses_left h s - (if presented lib h header \<and> is_created a then 1 else 0)"
proof (cases "is_created a")
  case True
  then obtain c secret where a: "a = RegCreated c secret" by (cases a) auto
  obtain bearer req0 req org s1 where b: "bearer_of header = Some bearer"
    and claim: "claim_registration_token e lib bearer s = (Some org, s1)"
    and tok: "kd_tokens t = kd_tokens s1"
    using register_client_Created [OF assms [unfolded a]] create_client_tokens by metis
  have "uses_left h t = uses_left h s1" by (simp add: uses_left_def tok)
  with uses_left_claim [OF claim, of h] b True show ?thesis by (auto simp: presented_def split: if_splits)
next
  case False
  have "t = s \<or> (\<exists>bearer org. claim_registration_token e lib bearer s = (org, t))"
    using assms False
    by (auto simp: register_client_def split: option.splits if_splits prod.splits sum.splits)
  then show ?thesis
  proof (elim disjE exE)
    fix bearer org assume "claim_registration_token e lib bearer s = (org, t)"
    from uses_left_claim [OF this, of h] show ?thesis using False by (simp split: if_splits)
  qed (simp add: False)
qed

text \<open>
  C36: However many registrations present an initial access token, no more of them succeed than the token had uses left,
  whatever happens to the others. Each claim is one statement, so this also bounds requests that run at the same time.
\<close>

theorem registrations_bounded:
  "int (registered_with lib h qs (fst (register_all lib urls json qs s))) \<le> uses_left h s"
proof (induction qs arbitrary: s)
  case Nil
  then show ?case by (simp add: registered_with_def uses_left_nonneg)
next
  case (Cons q qs)
  obtain e header body where q: "q = (e, header, body)" by (cases q)
  obtain a s1 where r: "register_client e lib urls json header body s = (a, s1)" by (cases "register_client e lib urls json header body s")
  obtain rest t where rest: "register_all lib urls json qs s1 = (rest, t)" by (cases "register_all lib urls json qs s1")
  from uses_left_register [OF r, of h] Cons.IH [of s1] show ?case
    by (cases "presented lib h header \<and> is_created a") (auto simp: q r rest registered_with_def)
qed

section \<open>Secrets\<close>

text \<open>A rotated secret is the one that verifies, and every other client keeps its own.\<close>

lemma rotated_secret_verifies:
  assumes r: "rotate_secret e argon cid s = Inr (secret, t)" and c: "c \<in> set (kd_clients t)" "kl_id c = cid"
    and laws: "argon_keys argon" "ke_salt e = Some salt" "byte_list salt"
  shows "verify_password argon attempt (oc_secret (kl_client c)) = Inr True \<longleftrightarrow>
     (\<exists>k. argon attempt salt argon_time argon_memory argon_threads argon_key_len = Some k
        \<and> argon secret salt argon_time argon_memory argon_threads argon_key_len = Some k)"
proof -
  obtain hash where hash: "hash_password argon (Some salt) secret = Inr hash"
    and t: "t = s\<lparr>kd_clients := map (\<lambda>c. if kl_id c = cid
        then c\<lparr>kl_client := (kl_client c)\<lparr>oc_secret := hash\<rparr>, kl_updated := ke_now e\<rparr> else c) (kd_clients s)\<rparr>"
    using r laws(2) by (auto simp: rotate_secret_def step_Inr_iff split: if_splits)
  have keys: "byte_list k \<and> length k = argon_key_len"
    if "argon p salt argon_time argon_memory argon_threads argon_key_len = Some k" for p k
    using that laws(1) by (auto simp: argon_keys_def)
  have "c \<in> set (map (\<lambda>c. if kl_id c = cid
      then c\<lparr>kl_client := (kl_client c)\<lparr>oc_secret := hash\<rparr>, kl_updated := ke_now e\<rparr> else c) (kd_clients s))"
    using c(1) by (simp add: t del: set_map list.set_map)
  then obtain x where x: "c = (if kl_id x = cid
      then x\<lparr>kl_client := (kl_client x)\<lparr>oc_secret := hash\<rparr>, kl_updated := ke_now e\<rparr> else x)"
    unfolding set_map by (elim imageE)
  then have "kl_id x = cid" using c(2) by (cases "kl_id x = cid") auto
  with x have stored: "oc_secret (kl_client c) = hash" by simp
  have eq: "verify_password argon attempt hash =
     (case argon attempt salt argon_time argon_memory argon_threads argon_key_len of
        None \<Rightarrow> Inl HashPanic
      | Some k \<Rightarrow> Inr (argon secret salt argon_time argon_memory argon_threads argon_key_len = Some k))"
    by (rule password_roundtrip [OF laws(3) keys hash])
  show ?thesis unfolding stored eq by (simp split: option.split)
qed

section \<open>A registration\<close>

definition demo_urls :: "unit url_lib" where
  "demo_urls = \<lparr>ul_parse = (\<lambda>s. Some \<lparr>u_scheme = ''https'', u_user = None, u_host = ''app.example'', u_path = s, u_fragment = [],
     u_rest = ()\<rparr>), ul_string = u_path, ul_lower = id\<rparr>"

definition demo_client_env :: client_env where
  "demo_client_env = \<lparr>ke_now = 5, ke_answers = (\<lambda>_. True), ke_id_random = Some [1], ke_secret_random = Some [2],
     ke_salt = Some [1, 2, 3]\<rparr>"

definition demo_metadata :: registration_request where
  "demo_metadata = \<lparr>gq_redirects = [''https://app.example/cb''], gq_name = ''app'', gq_grants = [], gq_responses = [], gq_scope = [],
     gq_auth_method = ''none''\<rparr>"

definition demo_tokens :: client_db where
  "demo_tokens = \<lparr>kd_clients = [], kd_tokens =
     [\<lparr>rt_hash = hex_encode (sl_sha demo_secrets ''tok''), rt_org = None, rt_max = 1, rt_used = 0, rt_expires = Some 10\<rparr>]\<rparr>"

theorem registered_client_is_restricted_witness:
  "\<exists>c t. register_client demo_client_env demo_secrets demo_urls id ''Bearer tok'' (Some demo_metadata) demo_tokens
        = (RegCreated c [], t)
     \<and> set (oc_grants (kl_client c)) \<subseteq> {''authorization_code'', ''refresh_token''} \<and> oc_public (kl_client c)"
proof -
  have b: "bearer_of ''Bearer tok'' = Some ''tok''" by code_simp
  have v: "validate_grant_metadata demo_metadata =
      Some (demo_metadata\<lparr>gq_grants := [''authorization_code''], gq_responses := [''code'']\<rparr>)"
    by (simp add: validate_grant_metadata_def demo_metadata_def)
  obtain s1 where c: "claim_registration_token demo_client_env demo_secrets ''tok'' demo_tokens = (Some [], s1)"
      "kd_clients s1 = []"
    by (simp add: claim_registration_token_def token_matches_def not_expired_def demo_client_env_def demo_tokens_def given_def)
  have u: "list_all (validate_redirect_uri demo_urls) (gq_redirects demo_metadata)"
    by (simp add: demo_metadata_def demo_urls_def validate_redirect_uri_def is_abs_def)
  have n: "\<And>req. cc_public req \<Longrightarrow> \<exists>c. create_client demo_client_env (sl_argon demo_secrets) req s1
      = Inr ((c, []), s1\<lparr>kd_clients := [c]\<rparr>)"
    using c(2) by (simp add: create_client_def new_secret_def random_string_def demo_client_env_def Let_def)
  have m: "gq_redirects demo_metadata \<noteq> []" "gq_auth_method demo_metadata = ''none''" by (simp_all add: demo_metadata_def)
  have "\<exists>c t. register_client demo_client_env demo_secrets demo_urls id ''Bearer tok'' (Some demo_metadata) demo_tokens
        = (RegCreated c [], t)"
    using n [of "\<lparr>cc_name = gq_name demo_metadata, cc_redirects = Some (gq_redirects demo_metadata),
       cc_grants = Some [''authorization_code''], cc_responses = Some [''code''],
       cc_scopes = Some (go_fields (gq_scope demo_metadata)), cc_audience = None, cc_public = True,
       cc_auth_method = gq_auth_method demo_metadata, cc_metadata = Some []\<rparr>"] u
    by (auto simp: register_client_def b v c(1) m)
  then obtain c t where r: "register_client demo_client_env demo_secrets demo_urls id ''Bearer tok'' (Some demo_metadata) demo_tokens
        = (RegCreated c [], t)" by blast
  note f = registered_client_is_restricted [OF r]
  have "oc_public (kl_client c)" using f m by simp
  with r conjunct1 [OF f] show ?thesis by (intro exI conjI)
qed

end
