(* ===== verification/Retention.thy ===== *)
theory Retention
  imports Clients Agents OAuthStore AuditChain
begin

text \<open>
  Housekeeping: the API keys of an organization (\<open>internal/apikey/service.go\<close>) and the pruning of tables
  (\<open>internal/retention/retention.go\<close>), which reaches the tables of every other theory. A state of the pruning is the tuple of
  those tables.

  Which statements the database answers is a parameter, and so are its clock at each of them (\<open>pn_db\<close>, \<open>now()\<close> in SQL) and the
  clock of the process (\<open>pn_now\<close>). \<open>to_timestamp(0)\<close> is instant 0, which the zero time of Go lies before.
\<close>

section \<open>API keys\<close>

record api_key =
  kr_id :: string
  kr_org :: "string option"
  kr_owner :: "string option"
  kr_owner_type :: string
  kr_hash :: string
  kr_prefix :: string
  kr_name :: string
  kr_scopes :: "string list"
  kr_last_used :: "instant option"
  kr_expires :: "instant option"
  kr_created :: instant

record create_key_request =
  ck_org :: "string option"
  ck_owner :: "string option"
  ck_owner_type :: string
  ck_name :: string
  ck_scopes :: "string list option"
  ck_expires :: "instant option"

record key_env =
  ky_now :: instant
  ky_answers :: bool
  ky_random :: "nat list option"
  ky_new_id :: string
  ky_orgs :: "string list"

datatype key_error = KeyNameRequired | KeyNoRandom | KeyInsertFailed | KeyQueryFailed

text \<open>The table admits three kinds of owner, an organization that exists or none, and one row per hash.\<close>

definition create_api_key :: "key_env \<Rightarrow> secret_lib \<Rightarrow> create_key_request \<Rightarrow> api_key list \<Rightarrow> key_error + (api_key \<times> string) \<times> api_key list" where
  "create_api_key e lib req ks =
     (if ck_name req = [] then Inl KeyNameRequired
      else and_then (need KeyNoRandom (random_hex (ky_random e))) (\<lambda>random.
        let key = ''legant_'' @ random;
            k = \<lparr>kr_id = ky_new_id e, kr_org = ck_org req, kr_owner = ck_owner req,
                 kr_owner_type = (if ck_owner_type req = [] then ''user'' else ck_owner_type req),
                 kr_hash = hex_encode (sl_sha lib key), kr_prefix = take 14 key, kr_name = ck_name req,
                 kr_scopes = given (ck_scopes req) [], kr_last_used = None, kr_expires = ck_expires req, kr_created = ky_now e\<rparr>
        in if \<not> ky_answers e \<or> kr_owner_type k \<notin> {''user'', ''agent'', ''org''} \<or> kr_hash k \<in> kr_hash ` set ks
              \<or> kr_id k \<in> kr_id ` set ks \<or> (\<exists>o' \<in> set_option (kr_org k). o' \<notin> set (ky_orgs e))
           then Inl KeyInsertFailed else Inr ((k, key), ks @ [k])))"

definition list_api_keys :: "bool \<Rightarrow> string \<Rightarrow> int \<Rightarrow> int \<Rightarrow> api_key list \<Rightarrow> key_error + api_key list" where
  "list_api_keys up org limit offset ks =
     (let limit1 = (if limit \<le> 0 then 50 else limit)
      in if \<not> up \<or> offset < 0 then Inl KeyQueryFailed
         else Inr (take (nat limit1) (drop (nat offset) (sort_key (\<lambda>k. - kr_created k) (filter (\<lambda>k. kr_org k = Some org) ks)))))"

definition revoke_api_key :: "bool \<Rightarrow> string \<Rightarrow> api_key list \<Rightarrow> key_error option \<times> api_key list" where
  "revoke_api_key up kid ks = (if up then (None, filter (\<lambda>k. kr_id k \<noteq> kid) ks) else (Some KeyQueryFailed, ks))"

section \<open>Pruning\<close>

record policy =
  po_grace :: duration
  po_audit :: duration

definition default_policy :: policy where
  "default_policy = \<lparr>po_grace = 30 * 24 * 3600 * nanos, po_audit = 0\<rparr>"

record prune_state =
  pt_accounts :: account_db
  pt_clients :: client_db
  pt_orgs :: org_db
  pt_store :: db
  pt_oauth :: oauth_db
  pt_keys :: "api_key list"
  pt_audit :: audit_db

record prune_result =
  pu_sessions :: int
  pu_mail :: int
  pu_dcr :: int
  pu_invites :: int
  pu_tokens :: int
  pu_oauth :: int
  pu_agent_tokens :: int
  pu_keys :: int
  pu_audit :: int

definition no_rows :: prune_result where
  "no_rows = \<lparr>pu_sessions = 0, pu_mail = 0, pu_dcr = 0, pu_invites = 0, pu_tokens = 0, pu_oauth = 0, pu_agent_tokens = 0,
     pu_keys = 0, pu_audit = 0\<rparr>"

definition prune_total :: "prune_result \<Rightarrow> int" where
  "prune_total r = pu_sessions r + pu_mail r + pu_dcr r + pu_invites r + pu_tokens r + pu_oauth r + pu_agent_tokens r
     + pu_keys r + pu_audit r"

datatype prune_table = Sessions | EmailTokens | DcrTokens | Invitations | ExchangedTokens | OAuthRows oauth_table
  | AgentTokens | ApiKeys | AuditEvents

record prune_env =
  pn_now :: instant
  pn_db :: "prune_table \<Rightarrow> instant"
  pn_answers :: "prune_table \<Rightarrow> bool"

text \<open>\<open>sweep\<close>: the rows that match, removed unless the run is dry.\<close>

definition sweep :: "bool \<Rightarrow> ('a \<Rightarrow> bool) \<Rightarrow> 'a list \<Rightarrow> int \<times> 'a list" where
  "sweep dry P rows = (int (length (filter P rows)), if dry then rows else filter (\<lambda>x. \<not> P x) rows)"

definition past :: "instant \<Rightarrow> instant option \<Rightarrow> bool" where
  "past now x = (case x of None \<Rightarrow> False | Some t \<Rightarrow> t < now)"

definition prune_step :: "prune_env \<Rightarrow> policy \<Rightarrow> bool \<Rightarrow> prune_table \<Rightarrow> prune_state \<Rightarrow> int \<times> prune_state" where
  "prune_step e p dry tbl s =
     (let now = pn_db e tbl in
      case tbl of
        Sessions \<Rightarrow>
          map_prod id (\<lambda>rows. s\<lparr>pt_accounts := (pt_accounts s)\<lparr>ad_sessions := rows\<rparr>\<rparr>)
            (sweep dry (\<lambda>x. se_expires x < now) (ad_sessions (pt_accounts s)))
      | EmailTokens \<Rightarrow>
          map_prod id (\<lambda>rows. s\<lparr>pt_accounts := (pt_accounts s)\<lparr>ad_mail := rows\<rparr>\<rparr>)
            (sweep dry (\<lambda>m. mt_used m \<or> mt_expires m < now) (ad_mail (pt_accounts s)))
      | DcrTokens \<Rightarrow>
          map_prod id (\<lambda>rows. s\<lparr>pt_clients := (pt_clients s)\<lparr>kd_tokens := rows\<rparr>\<rparr>)
            (sweep dry (\<lambda>k. past now (rt_expires k) \<or> rt_used k \<ge> rt_max k) (kd_tokens (pt_clients s)))
      | Invitations \<Rightarrow>
          map_prod id (\<lambda>rows. s\<lparr>pt_orgs := (pt_orgs s)\<lparr>od_invites := rows\<rparr>\<rparr>)
            (sweep dry (\<lambda>i. iv_status i \<noteq> ''pending'' \<or> iv_expires i < now) (od_invites (pt_orgs s)))
      | ExchangedTokens \<Rightarrow>
          map_prod id (\<lambda>rows. s\<lparr>pt_store := (pt_store s)\<lparr>db_tokens := rows\<rparr>\<rparr>)
            (sweep dry (\<lambda>t. tr_expires_at t < pn_now e - po_grace p) (db_tokens (pt_store s)))
      | OAuthRows k \<Rightarrow>
          map_prod id (\<lambda>rows. s\<lparr>pt_oauth := (pt_oauth s)\<lparr>ob_rows := (ob_rows (pt_oauth s))(k := rows)\<rparr>\<rparr>)
            (sweep dry (\<lambda>r. or_expires r > 0 \<and> or_expires r < now) (ob_rows (pt_oauth s) k))
      | AgentTokens \<Rightarrow>
          map_prod id (\<lambda>rows. s\<lparr>pt_store := (pt_store s)\<lparr>db_agent_tokens := rows\<rparr>\<rparr>)
            (sweep dry (\<lambda>t. past now (at_expires_at t)) (db_agent_tokens (pt_store s)))
      | ApiKeys \<Rightarrow>
          map_prod id (\<lambda>rows. s\<lparr>pt_keys := rows\<rparr>) (sweep dry (\<lambda>k. past now (kr_expires k)) (pt_keys s))
      | AuditEvents \<Rightarrow>
          (let cutoff = pn_now e - po_audit p in
           if dry then (int (length (filter (\<lambda>r. ad_created_at (aw_data r) < cutoff) (ab_rows (pt_audit s)))), s)
           else map_prod id (\<lambda>a. s\<lparr>pt_audit := a\<rparr>) (prune_audit cutoff (pt_audit s))))"

text \<open>On the table of tokens the sweep is a step of the token store, with a cutoff that is not in the future.\<close>

lemma prune_exchanged_step:
  assumes "0 \<le> po_grace p" and "pn_now e \<le> hi"
  shows "token_step J hi (pt_store s) (pt_store (snd (prune_step e p False ExchangedTokens s)))"
  using token_step.pruned [of "pn_now e - po_grace p" hi J "pt_store s"] assms
  by (simp add: prune_step_def sweep_def prune_tokens_def)

definition count_rows :: "prune_table \<Rightarrow> int \<Rightarrow> prune_result \<Rightarrow> prune_result" where
  "count_rows tbl n r =
     (case tbl of
        Sessions \<Rightarrow> r\<lparr>pu_sessions := n\<rparr> | EmailTokens \<Rightarrow> r\<lparr>pu_mail := n\<rparr> | DcrTokens \<Rightarrow> r\<lparr>pu_dcr := n\<rparr>
      | Invitations \<Rightarrow> r\<lparr>pu_invites := n\<rparr> | ExchangedTokens \<Rightarrow> r\<lparr>pu_tokens := n\<rparr>
      | OAuthRows _ \<Rightarrow> r\<lparr>pu_oauth := pu_oauth r + n\<rparr>
      | AgentTokens \<Rightarrow> r\<lparr>pu_agent_tokens := n\<rparr> | ApiKeys \<Rightarrow> r\<lparr>pu_keys := n\<rparr> | AuditEvents \<Rightarrow> r\<lparr>pu_audit := n\<rparr>)"

definition oauth_tables :: "oauth_table list" where
  "oauth_tables = [Codes, Access, Refresh, Pkce, Oidc]"

definition prune_order :: "policy \<Rightarrow> prune_table list" where
  "prune_order p = [Sessions, EmailTokens, DcrTokens, Invitations, ExchangedTokens] @ map OAuthRows oauth_tables
     @ [AgentTokens, ApiKeys] @ (if po_audit p > 0 then [AuditEvents] else [])"

text \<open>The steps one after the other: the first that fails is the error, with the counts of those before it.\<close>

fun prune_from :: "prune_env \<Rightarrow> policy \<Rightarrow> bool \<Rightarrow> prune_table list \<Rightarrow> prune_result \<Rightarrow> prune_state
      \<Rightarrow> prune_table option \<times> prune_result \<times> prune_state" where
  "prune_from e p dry [] r s = (None, r, s)"
| "prune_from e p dry (tbl # tbls) r s =
     (if \<not> pn_answers e tbl then (Some tbl, r, s)
      else let (n, t) = prune_step e p dry tbl s in prune_from e p dry tbls (count_rows tbl n r) t)"

definition prune_tables :: "prune_env \<Rightarrow> policy \<Rightarrow> bool \<Rightarrow> prune_state \<Rightarrow> prune_table option \<times> prune_result \<times> prune_state" where
  "prune_tables e p dry s = prune_from e p dry (prune_order p) no_rows s"

section \<open>A dry run tells what a run does\<close>

text \<open>What a step counts depends on its own rows only.\<close>

definition prune_count :: "prune_env \<Rightarrow> policy \<Rightarrow> prune_table \<Rightarrow> prune_state \<Rightarrow> int" where
  "prune_count e p tbl s = fst (prune_step e p True tbl s)"

lemma dry_step: "prune_step e p True tbl s = (prune_count e p tbl s, s)"
  by (cases tbl) (simp_all add: prune_count_def prune_step_def sweep_def Let_def)

lemma prune_audit_count: "fst (prune_audit cutoff a) = int (length (filter (\<lambda>r. ad_created_at (aw_data r) < cutoff) (ab_rows a)))"
proof -
  have "length (filter P xs) + length (filter (\<lambda>x. \<not> P x) xs) = length xs" for P :: "audit_row \<Rightarrow> bool" and xs
    by (rule sum_length_filter_compl)
  from this [of "\<lambda>r. ad_created_at (aw_data r) < cutoff" "ab_rows a"] show ?thesis
    by (simp add: prune_audit_def Let_def not_less)
qed

lemma wet_count: "fst (prune_step e p False tbl s) = prune_count e p tbl s"
  by (cases tbl) (simp_all add: prune_count_def prune_step_def sweep_def prune_audit_count Let_def)

lemma other_count: "tbl \<noteq> tbl' \<Longrightarrow> prune_count e p tbl (snd (prune_step e p False tbl' s)) = prune_count e p tbl s"
  by (cases tbl'; cases tbl) (simp_all add: prune_count_def prune_step_def sweep_def Let_def)

lemma prune_from_dry:
  "prune_from e p True tbls r s =
     (case prune_from e p False tbls r s of (err, r', _) \<Rightarrow> (err, r', s))" if "distinct tbls"
proof -
  have "\<lbrakk>distinct tbls; \<And>tbl. tbl \<in> set tbls \<Longrightarrow> prune_count e p tbl s = prune_count e p tbl s'\<rbrakk> \<Longrightarrow>
      prune_from e p True tbls r s = (case prune_from e p False tbls r s' of (err, r', _) \<Rightarrow> (err, r', s))" for s'
  proof (induction tbls arbitrary: r s')
    case (Cons tbl tbls)
    obtain n t where wet: "prune_step e p False tbl s' = (n, t)" by (cases "prune_step e p False tbl s'")
    have n: "n = prune_count e p tbl s" using wet_count [of e p tbl s'] wet Cons.prems(2) by simp
    have "prune_count e p x s = prune_count e p x t" if "x \<in> set tbls" for x
    proof -
      have "x \<noteq> tbl" and "x \<in> set (tbl # tbls)" using Cons.prems(1) that by auto
      with other_count [of x tbl e p s'] Cons.prems(2) [of x] wet show ?thesis by simp
    qed
    with Cons.IH Cons.prems(1) n wet show ?case by (simp add: dry_step)
  qed simp
  with that show ?thesis by simp
qed

lemma prune_order_distinct: "distinct (prune_order p)"
  by (simp add: prune_order_def oauth_tables_def)

text \<open>A dry run changes nothing, and reports exactly the rows, and the failure, of a run in its place.\<close>

theorem dry_run_exact: "prune_tables e p True s = (fst (prune_tables e p False s), fst (snd (prune_tables e p False s)), s)"
  by (simp add: prune_tables_def prune_from_dry [OF prune_order_distinct] case_prod_unfold)

text \<open>A second run finds nothing, and changes nothing.\<close>

lemma swept: "filter P (filter (\<lambda>x. \<not> P x) xs) = []" "filter (\<lambda>x. \<not> P x) (filter (\<lambda>x. \<not> P x) xs) = filter (\<lambda>x. \<not> P x) xs"
  by (simp_all add: filter_empty_conv)

lemma own_count: "prune_count e p tbl (snd (prune_step e p False tbl s)) = 0"
proof (cases tbl)
  case AuditEvents
  let ?kept = "filter (\<lambda>r. ad_created_at (aw_data r) \<ge> pn_now e - po_audit p) (ab_rows (pt_audit s))"
  show ?thesis
  proof (cases "length ?kept < length (ab_rows (pt_audit s))")
    case False
    then have "\<forall>r \<in> set (ab_rows (pt_audit s)). ad_created_at (aw_data r) \<ge> pn_now e - po_audit p"
      using length_filter_less by metis
    with AuditEvents show ?thesis
      by (auto simp: prune_count_def prune_step_def prune_audit_def filter_empty_conv Let_def)
  qed (use AuditEvents in \<open>auto simp: prune_count_def prune_step_def prune_audit_def filter_empty_conv Let_def\<close>)
qed (auto simp: prune_count_def prune_step_def sweep_def filter_empty_conv Let_def)

lemma sweep_none: "fst (sweep True P xs) = 0 \<Longrightarrow> sweep False P xs = (0, xs)"
  by (auto simp: sweep_def filter_empty_conv)

lemma nothing_to_prune:
  assumes "prune_count e p tbl s = 0"
  shows "prune_step e p False tbl s = (0, s)"
proof (cases tbl)
  case AuditEvents
  with assms have "filter (\<lambda>r. ad_created_at (aw_data r) \<ge> pn_now e - po_audit p) (ab_rows (pt_audit s)) = ab_rows (pt_audit s)"
    by (auto simp: prune_count_def prune_step_def Let_def filter_empty_conv not_less filter_id_conv)
  with AuditEvents show ?thesis by (simp add: prune_step_def prune_audit_def Let_def)
qed (use assms in \<open>simp_all add: prune_count_def prune_step_def sweep_none\<close>)

lemma zero_counted: "count_rows tbl 0 no_rows = no_rows"
  by (cases tbl) (simp_all add: count_rows_def no_rows_def)

lemma prune_from_nothing:
  "(\<And>tbl. tbl \<in> set tbls \<Longrightarrow> pn_answers e tbl \<and> prune_count e p tbl s = 0) \<Longrightarrow> prune_from e p False tbls no_rows s = (None, no_rows, s)"
  by (induction tbls) (simp_all add: nothing_to_prune zero_counted)

lemma prune_from_clears:
  assumes "prune_from e p False tbls r s = (None, r', t)" and "distinct tbls"
  shows "\<forall>tbl \<in> set tbls. pn_answers e tbl \<and> prune_count e p tbl t = 0"
    and "tbl \<notin> set tbls \<Longrightarrow> prune_count e p tbl t = prune_count e p tbl s"
proof -
  have "(\<forall>tbl \<in> set tbls. pn_answers e tbl \<and> prune_count e p tbl t = 0) \<and>
      (\<forall>tbl. tbl \<notin> set tbls \<longrightarrow> prune_count e p tbl t = prune_count e p tbl s)"
    using assms
  proof (induction tbls arbitrary: r s)
    case (Cons x tbls)
    obtain n u where step: "prune_step e p False x s = (n, u)" by (cases "prune_step e p False x s")
    with Cons.prems have up: "pn_answers e x" and rest: "prune_from e p False tbls (count_rows x n r) u = (None, r', t)"
      by (simp_all split: if_splits)
    from Cons.IH [OF rest] Cons.prems(2)
    have IH: "\<forall>tbl \<in> set tbls. pn_answers e tbl \<and> prune_count e p tbl t = 0"
      "\<And>tbl. tbl \<notin> set tbls \<Longrightarrow> prune_count e p tbl t = prune_count e p tbl u" by simp_all
    have "prune_count e p x t = 0" using IH(2) [of x] own_count [of e p x s] step Cons.prems(2) by simp
    moreover have "prune_count e p tbl t = prune_count e p tbl s" if "tbl \<notin> set (x # tbls)" for tbl
      using IH(2) [of tbl] other_count [of tbl x e p s] step that by simp
    ultimately show ?case using IH(1) up by auto
  qed simp
  then show "\<forall>tbl \<in> set tbls. pn_answers e tbl \<and> prune_count e p tbl t = 0"
    and "tbl \<notin> set tbls \<Longrightarrow> prune_count e p tbl t = prune_count e p tbl s" by blast+
qed

lemma prune_twice:
  assumes "prune_tables e p False s = (None, r, t)"
  shows "prune_tables e p False t = (None, no_rows, t)"
  using prune_from_clears(1) [OF assms [unfolded prune_tables_def] prune_order_distinct]
  unfolding prune_tables_def by (intro prune_from_nothing) blast

section \<open>Pruning is not noticed\<close>

text \<open>A list that has lost some of the rows that are dead, and no other.\<close>

definition only_dead :: "('a \<Rightarrow> bool) \<Rightarrow> 'a list \<Rightarrow> 'a list \<Rightarrow> bool" where
  "only_dead gone xs ys \<longleftrightarrow> (\<exists>P. ys = filter P xs \<and> (\<forall>x \<in> set xs. P x \<or> gone x))"

lemma only_dead_refl [simp]: "only_dead gone xs xs"
  unfolding only_dead_def by (rule exI [of _ "\<lambda>_. True"]) simp

lemma only_dead_trans: "only_dead gone xs ys \<Longrightarrow> only_dead gone ys zs \<Longrightarrow> only_dead gone xs zs"
  unfolding only_dead_def
proof (elim exE conjE)
  fix P Q assume *: "ys = filter P xs" "\<forall>x \<in> set xs. P x \<or> gone x" "zs = filter Q ys" "\<forall>x \<in> set ys. Q x \<or> gone x"
  show "\<exists>R. zs = filter R xs \<and> (\<forall>x \<in> set xs. R x \<or> gone x)"
    by (rule exI [of _ "\<lambda>x. P x \<and> Q x"]) (use * in auto)
qed

lemma only_dead_sweep: "(\<And>x. P x \<Longrightarrow> gone x) \<Longrightarrow> only_dead gone xs (snd (sweep False P xs))"
  unfolding only_dead_def sweep_def by (rule exI [of _ "\<lambda>x. \<not> P x"]) auto

lemma only_dead_find:
  assumes "only_dead gone xs ys" and "\<And>x. P x \<Longrightarrow> \<not> gone x"
  shows "find P ys = find P xs"
proof -
  have "find P (filter Q xs) = find P xs" if "\<forall>x \<in> set xs. Q x \<or> gone x" for Q
    using that assms(2) by (induction xs) auto
  with assms(1) show ?thesis by (auto simp: only_dead_def)
qed

lemma only_dead_key:
  assumes "only_dead gone xs ys" and "distinct (map f xs)" and "\<And>x. Q x \<Longrightarrow> \<not> gone x" and "\<And>x. P x \<Longrightarrow> f x = k"
  shows "(find P ys = Some x \<and> Q x) = (find P xs = Some x \<and> Q x)"
proof -
  have "(find P (filter R xs) = Some x \<and> Q x) = (find P xs = Some x \<and> Q x)" if "\<forall>x \<in> set xs. R x \<or> gone x" for R
    using that assms(2)
  proof (induction xs)
    case (Cons y xs)
    show ?case
    proof (cases "P y")
      case True
      have "\<not> P z" if "z \<in> set xs" for z
        using Cons.prems(2) assms(4) [OF True] assms(4) [of z] that by (auto simp: image_iff)
      then have none: "find P (filter R xs) = None" by (auto simp: find_None_iff)
      with True Cons.prems(1) assms(3) show ?thesis by auto
    qed (use Cons in auto)
  qed simp
  with assms(1) show ?thesis by (auto simp: only_dead_def)
qed

definition pruned :: "instant \<Rightarrow> prune_state \<Rightarrow> prune_state \<Rightarrow> bool" where
  "pruned now s t \<longleftrightarrow>
     only_dead (\<lambda>x. se_expires x < now) (ad_sessions (pt_accounts s)) (ad_sessions (pt_accounts t))
     \<and> only_dead (\<lambda>m. mt_used m \<or> mt_expires m < now) (ad_mail (pt_accounts s)) (ad_mail (pt_accounts t))
     \<and> only_dead (\<lambda>k. past now (rt_expires k) \<or> rt_used k \<ge> rt_max k) (kd_tokens (pt_clients s)) (kd_tokens (pt_clients t))
     \<and> only_dead (\<lambda>i. iv_status i \<noteq> ''pending'' \<or> iv_expires i < now) (od_invites (pt_orgs s)) (od_invites (pt_orgs t))
     \<and> only_dead (\<lambda>k. tr_expires_at k < now) (db_tokens (pt_store s)) (db_tokens (pt_store t))
     \<and> (\<forall>k. only_dead (\<lambda>r. or_expires r > 0 \<and> or_expires r < now) (ob_rows (pt_oauth s) k) (ob_rows (pt_oauth t) k))
     \<and> only_dead (\<lambda>k. past now (at_expires_at k)) (db_agent_tokens (pt_store s)) (db_agent_tokens (pt_store t))
     \<and> only_dead (\<lambda>k. past now (kr_expires k)) (pt_keys s) (pt_keys t)
     \<and> db_agents (pt_store t) = db_agents (pt_store s) \<and> od_members (pt_orgs t) = od_members (pt_orgs s)
     \<and> od_orgs (pt_orgs t) = od_orgs (pt_orgs s) \<and> ad_users (pt_accounts t) = ad_users (pt_accounts s)"

lemma pruned_refl: "pruned now s s"
  by (simp add: pruned_def)

lemma pruned_trans: "pruned now s t \<Longrightarrow> pruned now t u \<Longrightarrow> pruned now s u"
  unfolding pruned_def by (metis (no_types, lifting) only_dead_trans)

lemma past_later: "past t x \<Longrightarrow> t \<le> now \<Longrightarrow> past now x"
  by (cases x) (auto simp: past_def)

lemma prune_step_pruned:
  assumes "pn_db e tbl \<le> now" and "pn_now e - po_grace p \<le> now"
  shows "pruned now s (snd (prune_step e p False tbl s))"
  using assms
  by (cases tbl) (auto simp: pruned_def prune_step_def Let_def intro!: only_dead_sweep intro: past_later)

lemma prune_from_pruned:
  assumes "\<And>tbl. pn_db e tbl \<le> now" and "pn_now e - po_grace p \<le> now"
  shows "pruned now s (snd (snd (prune_from e p False tbls r s)))"
proof (induction tbls arbitrary: r s)
  case Nil
  then show ?case by (simp add: pruned_refl)
next
  case (Cons tbl tbls)
  obtain n t where step: "prune_step e p False tbl s = (n, t)" by (cases "prune_step e p False tbl s")
  have "pruned now s t" using prune_step_pruned [of e tbl now p s] assms step by simp
  with Cons.IH [where s = t] step show ?case by (simp add: pruned_refl) (metis pruned_trans)
qed

lemma found_mail:
  "find_mail e lib k token s = Inr m \<longleftrightarrow> av_answers e SelectMail \<and>
     find (\<lambda>m. mt_hash m = mail_hash lib token \<and> mt_type m = k \<and> \<not> mt_used m) (ad_mail s) = Some m
       \<and> \<not> (mt_used m \<or> mt_expires m < av_now e)"
  using find_SomeD [of "\<lambda>m. mt_hash m = mail_hash lib token \<and> mt_type m = k \<and> \<not> mt_used m" "ad_mail s" m]
  by (auto simp: find_mail_def step_Inr_iff not_less split: if_splits)

lemma accepts_iff:
  "fst (accept_invitation e token user s) = None \<longleftrightarrow> oe_answers e SelectInvite \<and>
     (\<exists>i. (find (\<lambda>i. iv_token i = token) (od_invites s) = Some i \<and> \<not> (iv_status i \<noteq> ''pending'' \<or> iv_expires i < oe_now e))
        \<and> \<not> isl (add_member e (iv_org i) user (iv_role i) s) \<and> oe_answers e AcceptInvite)"
  by (auto simp: accept_invitation_def not_less split: option.splits sum.splits)

lemma add_member_isl:
  assumes "od_members t = od_members s" and "od_orgs t = od_orgs s"
  shows "isl (add_member e org user role t) = isl (add_member e org user role s)"
proof -
  have "Orgs.org_ids t = Orgs.org_ids s" using assms(2) by (simp add: Orgs.org_ids_def)
  with assms(1) show ?thesis by (auto simp: add_member_def Let_def)
qed

lemma active_iff:
  "is_active up now s jti =
     (if \<not> up then Inl QueryFailed
      else Inr (\<exists>r. (find (\<lambda>r. tr_jti r = jti) (db_tokens s) = Some r \<and> \<not> tr_expires_at r < now) \<and> tr_revoked_at r = None))"
  by (auto simp: is_active_def not_less split: option.splits)

lemma validated_find:
  assumes "find (\<lambda>t. at_hash t = en_hash e secret \<and> not_expired (en_now e) (at_expires_at t)) (db_agent_tokens t) =
      find (\<lambda>t. at_hash t = en_hash e secret \<and> not_expired (en_now e) (at_expires_at t)) (db_agent_tokens s)"
    and "db_agents t = db_agents s"
  shows "fst (validate_agent_token e secret t) = fst (validate_agent_token e secret s)"
  using assms by (auto simp: validate_agent_token_def get_agent_def Let_def split: option.splits)

text \<open>C19: Pruning is not noticed: with the grace not negative and every clock of the run behind the reader's, a session is found, a mailed
  token is accepted, a registration token is claimed, an invitation admits, an agent token validates and a delegation token is active
  after it exactly when they would have been before it; and an OAuth row that does not expire, or not yet, is still there.\<close>

theorem pruning_invisible:
  assumes run: "prune_tables e p False s = (err, res, t)"
    and clocks: "\<And>tbl. pn_db e tbl \<le> now" "pn_now e \<le> now" "0 \<le> po_grace p"
    and keys: "distinct (map tr_jti (db_tokens (pt_store s)))" "distinct (map mt_hash (ad_mail (pt_accounts s)))"
      "distinct (map iv_token (od_invites (pt_orgs s)))"
    and times: "av_now ae = now" "ke_now ce = now" "oe_now oe = now" "en_now ne = now"
  shows "fst (get_session ae lib sm r (pt_accounts t)) = fst (get_session ae lib sm r (pt_accounts s))
    \<and> (find_mail ae lib k token (pt_accounts t) = Inr m) = (find_mail ae lib k token (pt_accounts s) = Inr m)
    \<and> fst (claim_registration_token ce lib bearer (pt_clients t)) = fst (claim_registration_token ce lib bearer (pt_clients s))
    \<and> (fst (accept_invitation oe ticket user (pt_orgs t)) = None) = (fst (accept_invitation oe ticket user (pt_orgs s)) = None)
    \<and> fst (validate_agent_token ne secret (pt_store t)) = fst (validate_agent_token ne secret (pt_store s))
    \<and> is_active up now (pt_store t) jti = is_active up now (pt_store s) jti
    \<and> (row \<in> set (ob_rows (pt_oauth s) tbl) \<and> (or_expires row = zero_time \<or> or_expires row \<ge> now) \<longrightarrow> row \<in> set (ob_rows (pt_oauth t) tbl))"
proof -
  have "pruned now s t"
    using prune_from_pruned [of e now p s "prune_order p" no_rows] clocks run by (simp add: prune_tables_def)
  then have od: "only_dead (\<lambda>x. se_expires x < now) (ad_sessions (pt_accounts s)) (ad_sessions (pt_accounts t))"
    "only_dead (\<lambda>m. mt_used m \<or> mt_expires m < now) (ad_mail (pt_accounts s)) (ad_mail (pt_accounts t))"
    "only_dead (\<lambda>k. past now (rt_expires k) \<or> rt_used k \<ge> rt_max k) (kd_tokens (pt_clients s)) (kd_tokens (pt_clients t))"
    "only_dead (\<lambda>i. iv_status i \<noteq> ''pending'' \<or> iv_expires i < now) (od_invites (pt_orgs s)) (od_invites (pt_orgs t))"
    "only_dead (\<lambda>k. tr_expires_at k < now) (db_tokens (pt_store s)) (db_tokens (pt_store t))"
    "only_dead (\<lambda>r. or_expires r > 0 \<and> or_expires r < now) (ob_rows (pt_oauth s) tbl) (ob_rows (pt_oauth t) tbl)"
    "only_dead (\<lambda>k. past now (at_expires_at k)) (db_agent_tokens (pt_store s)) (db_agent_tokens (pt_store t))"
    and same: "db_agents (pt_store t) = db_agents (pt_store s)" "od_members (pt_orgs t) = od_members (pt_orgs s)"
      "od_orgs (pt_orgs t) = od_orgs (pt_orgs s)"
    by (simp_all add: pruned_def)
  have "find (\<lambda>x. se_id x = sid \<and> se_expires x > now) (ad_sessions (pt_accounts t)) =
      find (\<lambda>x. se_id x = sid \<and> se_expires x > now) (ad_sessions (pt_accounts s))" for sid
    by (rule only_dead_find [OF od(1)]) auto
  then have session: "fst (get_session ae lib sm r (pt_accounts t)) = fst (get_session ae lib sm r (pt_accounts s))"
    by (simp add: get_session_def times split: sum.split option.split)
  have mail: "(find_mail ae lib k token (pt_accounts t) = Inr m) = (find_mail ae lib k token (pt_accounts s) = Inr m)"
    using only_dead_key [OF od(2) keys(2), where Q = "\<lambda>m. \<not> (mt_used m \<or> mt_expires m < now)" and k = "mail_hash lib token"
        and P = "\<lambda>m. mt_hash m = mail_hash lib token \<and> mt_type m = k \<and> \<not> mt_used m" and x = m]
    unfolding found_mail times by blast
  have "find (token_matches ce h) (kd_tokens (pt_clients t)) = find (token_matches ce h) (kd_tokens (pt_clients s))" for h
    by (rule only_dead_find [OF od(3)])
      (auto simp: token_matches_def not_expired_def past_def times split: option.splits)
  then have claim: "fst (claim_registration_token ce lib bearer (pt_clients t)) = fst (claim_registration_token ce lib bearer (pt_clients s))"
    by (simp add: claim_registration_token_def Let_def split: option.split)
  have "(find (\<lambda>i. iv_token i = ticket) (od_invites (pt_orgs t)) = Some i \<and> \<not> (iv_status i \<noteq> ''pending'' \<or> iv_expires i < now)) =
      (find (\<lambda>i. iv_token i = ticket) (od_invites (pt_orgs s)) = Some i \<and> \<not> (iv_status i \<noteq> ''pending'' \<or> iv_expires i < now))" for i
    by (rule only_dead_key [OF od(4) keys(3)]) auto
  then have invite: "(fst (accept_invitation oe ticket user (pt_orgs t)) = None) = (fst (accept_invitation oe ticket user (pt_orgs s)) = None)"
    unfolding accepts_iff times using add_member_isl [OF same(2,3)] by metis
  have "find (\<lambda>k. at_hash k = en_hash ne secret \<and> not_expired (en_now ne) (at_expires_at k)) (db_agent_tokens (pt_store t)) =
      find (\<lambda>k. at_hash k = en_hash ne secret \<and> not_expired (en_now ne) (at_expires_at k)) (db_agent_tokens (pt_store s))"
    by (rule only_dead_find [OF od(7)]) (auto simp: not_expired_def past_def times split: option.splits)
  from validated_find [OF this same(1)]
  have agent: "fst (validate_agent_token ne secret (pt_store t)) = fst (validate_agent_token ne secret (pt_store s))" .
  have jtis: "(find (\<lambda>r. tr_jti r = jti) (db_tokens (pt_store t)) = Some x \<and> \<not> tr_expires_at x < now) =
      (find (\<lambda>r. tr_jti r = jti) (db_tokens (pt_store s)) = Some x \<and> \<not> tr_expires_at x < now)" for x
    by (rule only_dead_key [OF od(5) keys(1)]) auto
  have active: "is_active up now (pt_store t) jti = is_active up now (pt_store s) jti"
    by (simp only: active_iff jtis)
  have kept: "row \<in> set (ob_rows (pt_oauth s) tbl) \<and> (or_expires row = zero_time \<or> or_expires row \<ge> now) \<longrightarrow>
      row \<in> set (ob_rows (pt_oauth t) tbl)"
    using od(6) by (auto simp: only_dead_def zero_time_def nanos_def)
  show ?thesis by (intro conjI) (fact session mail claim invite agent active kept)+
qed

section \<open>A run\<close>

definition demo_tables :: prune_state where
  "demo_tables = \<lparr>pt_accounts = demo_accounts [(demo_mail MagicLink ''old'')\<lparr>mt_used := True\<rparr>, demo_mail MagicLink ''tok''],
     pt_clients = demo_tokens, pt_orgs = no_orgs, pt_store = empty_db, pt_oauth = web_store, pt_keys = [], pt_audit = empty_log\<rparr>"

definition demo_prune_env :: prune_env where
  "demo_prune_env = \<lparr>pn_now = 5, pn_db = (\<lambda>_. 5), pn_answers = (\<lambda>_. True)\<rparr>"

lemma demo_hashes: "mail_hash demo_secrets ''old'' \<noteq> mail_hash demo_secrets ''tok''"
  by (simp add: mail_hash_def demo_secrets_def hex_encode_def hex_digits_def)

theorem pruning_invisible_witness:
  "\<exists>res t. prune_tables demo_prune_env default_policy False demo_tables = (None, res, t) \<and> pu_mail res = 1
     \<and> find_mail (demo_account_env 5 []) demo_secrets MagicLink ''tok'' (pt_accounts t) = Inr (demo_mail MagicLink ''tok'')"
proof -
  let ?e = demo_prune_env and ?s = demo_tables and ?a = "demo_account_env 5 []"
  obtain res t where run: "prune_tables ?e default_policy False ?s = (None, res, t)" and n: "pu_mail res = 1"
    by (simp add: prune_tables_def prune_order_def oauth_tables_def default_policy_def prune_step_def sweep_def count_rows_def no_rows_def
        demo_prune_env_def demo_tables_def demo_accounts_def demo_mail_def Let_def)
  have clocks: "\<And>tbl. pn_db ?e tbl \<le> 5" "pn_now ?e \<le> 5" "0 \<le> po_grace default_policy"
    by (simp_all add: demo_prune_env_def default_policy_def nanos_def)
  have keys: "distinct (map tr_jti (db_tokens (pt_store ?s)))" "distinct (map mt_hash (ad_mail (pt_accounts ?s)))"
    "distinct (map iv_token (od_invites (pt_orgs ?s)))"
    using demo_hashes by (simp_all add: demo_tables_def empty_db_def no_orgs_def demo_accounts_def demo_mail_def)
  have times: "av_now ?a = 5" "ke_now demo_client_env = 5" "oe_now (demo_org_env 5 []) = 5" "en_now (sample_env\<lparr>en_now := 5\<rparr>) = 5"
    by (simp_all add: demo_account_env_def demo_client_env_def demo_org_env_def)
  have "find_mail ?a demo_secrets MagicLink ''tok'' (pt_accounts ?s) = Inr (demo_mail MagicLink ''tok'')"
    using demo_hashes by (simp add: find_mail_def demo_tables_def demo_accounts_def demo_mail_def demo_account_env_def)
  with pruning_invisible [OF run clocks keys times, of demo_secrets demo_manager "demo_page [] None" MagicLink "''tok''"]
  have "find_mail ?a demo_secrets MagicLink ''tok'' (pt_accounts t) = Inr (demo_mail MagicLink ''tok'')" by blast
  with run n show ?thesis by blast
qed

end
