(* ===== verification/Web.thy ===== *)
theory Web
  imports Clients Chains
begin

text \<open>
  What a person with a session does: granting a delegation (\<open>/consent/delegate\<close> of \<open>internal/server/server.go\<close>),
  seeing and revoking the ones granted (\<open>internal/auth/account.go\<close>) and authorizing an OAuth client
  (\<open>AuthorizeHandler\<close> of \<open>handler.go\<close>); and the re-delegation endpoint, where an agent stands for the person. A state is a
  pair of the tables of theory \<open>Accounts\<close> and those of theory \<open>Store\<close>, whose users are columns of the same rows.

  JSON bodies arrive decoded. The pages are lists of values instead of HTML, and an instant is not formatted.
  Fosite's two steps are functions: the first yields the request or an error, the second an answer of its own to what was
  granted, a set since granting twice changes nothing.
\<close>

section \<open>Granting a delegation\<close>

record delegate_request =
  dq_agent :: string
  dq_scopes :: "string list"
  dq_resource :: string
  dq_constraints :: constraints
  dq_ttl_seconds :: int

datatype delegate_answer =
    Unauthorized
  | CrossOrigin
  | BadCsrf
  | BadBody
  | NoSuchAgent
  | NotMember
  | NotRecorded chain_error
  | Delegated string string

text \<open>\<open>time.Duration(n) * time.Second\<close> is a 64-bit product.\<close>

definition wrap64 :: "int \<Rightarrow> int" where
  "wrap64 x = (x + 2 ^ 63) mod 2 ^ 64 - 2 ^ 63"

definition seconds :: "int \<Rightarrow> duration" where
  "seconds n = wrap64 (n * nanos)"

text \<open>\<open>SELECT org_id FROM agents WHERE id = $1 AND status = 'active'\<close>: no row and no organization both end the request.\<close>

definition agent_org :: "db \<Rightarrow> string \<Rightarrow> string option" where
  "agent_org s aid =
     (case find (\<lambda>a. ag_id a = aid \<and> ag_status a = ''active'') (db_agents s) of None \<Rightarrow> None | Some a \<Rightarrow> ag_org a)"

definition is_member :: "db \<Rightarrow> string \<Rightarrow> string \<Rightarrow> bool" where
  "is_member s org user \<longleftrightarrow> list_ex (\<lambda>m. me_org m = org \<and> me_user m = user) (db_members s)"

text \<open>
  The session of a request that carries its anti-forgery token and names no other origin than the server's own (a request
  without \<open>Origin\<close> and \<open>Referer\<close> names none).
\<close>

definition trusted_session ::
    "account_env \<Rightarrow> secret_lib \<Rightarrow> session_manager \<Rightarrow> 'r url_lib \<Rightarrow> web_request \<Rightarrow> account_db
       \<Rightarrow> (delegate_answer + session_row) \<times> account_db" where
  "trusted_session ae lib sm urls r a =
     (case get_session ae lib sm r a of
        (Inl _, a1) \<Rightarrow> (Inl Unauthorized, a1)
      | (Inr x, a1) \<Rightarrow>
          (if \<not> same_origin urls r then Inl CrossOrigin
           else if \<not> validate_csrf lib sm r x then Inl BadCsrf
           else Inr x, a1))"

definition consent_delegate ::
    "account_env \<Rightarrow> secret_lib \<Rightarrow> session_manager \<Rightarrow> 'r chain_env \<Rightarrow> web_request \<Rightarrow> delegate_request option
       \<Rightarrow> account_db \<times> db \<Rightarrow> delegate_answer \<times> account_db \<times> db" where
  "consent_delegate ae lib sm e r body w =
     (let (a, s) = w
      in case trusted_session ae lib sm (ch_urls e) r a of
           (Inl ans, a1) \<Rightarrow> (ans, a1, s)
         | (Inr x, a1) \<Rightarrow>
             (case body of
                None \<Rightarrow> (BadBody, a1, s)
              | Some req \<Rightarrow>
                  (case Option.bind (ch_uuid e (dq_agent req)) (agent_org s) of
                     None \<Rightarrow> (NoSuchAgent, a1, s)
                   | Some org \<Rightarrow>
                       if \<not> is_member s org (se_user x) then (NotMember, a1, s)
                       else case grant_consent e
                              \<lparr>cq_user = se_user x, cq_agent = dq_agent req, cq_org = org, cq_scopes = dq_scopes req,
                               cq_constraints = dq_constraints req, cq_resource = dq_resource req,
                               cq_ttl = seconds (dq_ttl_seconds req)\<rparr> s of
                              Inl err \<Rightarrow> (NotRecorded err, a1, s)
                            | Inr ((cid, did), s1) \<Rightarrow> (Delegated cid did, a1, s1))))"

text \<open>
  The re-delegation endpoint. The caller is who the authenticator in front of it found; the three databases are those of
  \<^const>\<open>redelegate\<close>.
\<close>

record redelegate_request =
  eq_parent :: string
  eq_delegatee :: string
  eq_scopes :: "string list"
  eq_constraints :: constraints
  eq_ttl_seconds :: int

datatype redelegate_answer = OnlyAgents | RedelegateBody | RedelegateFailed chain_error | Redelegated string

definition redelegate_page ::
    "'r chain_env \<Rightarrow> principal option \<Rightarrow> redelegate_request option \<Rightarrow> db \<Rightarrow> db \<Rightarrow> db \<Rightarrow> redelegate_answer \<times> db" where
  "redelegate_page e caller body sp sa s =
     (case caller of
        None \<Rightarrow> (OnlyAgents, s)
      | Some p \<Rightarrow>
          if pr_type p \<noteq> TypeAgent then (OnlyAgents, s)
          else case body of
                 None \<Rightarrow> (RedelegateBody, s)
               | Some req \<Rightarrow>
                   (case redelegate e (eq_parent req) (pr_id p) (eq_delegatee req) (eq_scopes req) (eq_constraints req)
                           (seconds (eq_ttl_seconds req)) sp sa s of
                      Inl err \<Rightarrow> (RedelegateFailed err, s)
                    | Inr (did, s1) \<Rightarrow> (Redelegated did, s1)))"

section \<open>The delegations of a user\<close>

text \<open>Go's division truncates; \<open>%02d\<close> pads with a zero; \<open>%.2f\<close> rounds the exact value to the nearest even cent.\<close>

definition go_div :: "int \<Rightarrow> int \<Rightarrow> int" where
  "go_div a b = sgn a * sgn b * (\<bar>a\<bar> div \<bar>b\<bar>)"

definition go_mod :: "int \<Rightarrow> int \<Rightarrow> int" where
  "go_mod a b = a - b * go_div a b"

definition pad2 :: "int \<Rightarrow> string" where
  "pad2 n = (if 0 \<le> n \<and> n < 10 then ''0'' @ int_str n else int_str n)"

definition cents :: "rat \<Rightarrow> int" where
  "cents q = (let n = floor (q * 100); rest = q * 100 - of_int n
     in if rest < 1 / 2 then n else if rest > 1 / 2 then n + 1 else if even n then n else n + 1)"

definition fixed2 :: "f64 \<Rightarrow> string" where
  "fixed2 x =
     (case x of
        NaN \<Rightarrow> ''NaN'' | PosInf \<Rightarrow> ''+Inf'' | NegInf \<Rightarrow> ''-Inf''
      | Fin q \<Rightarrow> (if q < 0 then ''-'' else []) @ int_str (cents \<bar>q\<bar> div 100) @ ''.'' @ pad2 (cents \<bar>q\<bar> mod 100))"

definition em_dash :: string where
  "em_dash = [CHR 0xE2, CHR 0x80, CHR 0x94]"

fun clean_labels :: "string list \<Rightarrow> string list option" where
  "clean_labels [] = Some []"
| "clean_labels (v # vs) =
     (if has_prefix [CHR 0x00] v then None else map_option ((#) v) (clean_labels vs))"

definition summarize_list :: "string \<Rightarrow> string list \<Rightarrow> string" where
  "summarize_list label vals =
     (if vals = [] then []
      else case clean_labels vals of
             None \<Rightarrow> label @ '': none''
           | Some cs \<Rightarrow> label @ '': '' @ join '', '' cs)"

definition weekday_names :: "string list" where
  "weekday_names = [''Sun'', ''Mon'', ''Tue'', ''Wed'', ''Thu'', ''Fri'', ''Sat'']"

definition summarize_window :: "time_window \<Rightarrow> string" where
  "summarize_window w =
     (let tz = (if tw_tz w = [] then ''UTC'' else tw_tz w);
          ds = map (\<lambda>d. weekday_names ! nat d) (filter (\<lambda>d. d \<ge> 0 \<and> d < 7) (tw_weekdays w));
          days = (if tw_weekdays w = [] then ''any day'' else if ds = [] then ''no day'' else join '','' ds)
      in days @ '' '' @ pad2 (go_div (tw_start_min w) 60) @ '':'' @ pad2 (go_mod (tw_start_min w) 60) @ ''-''
         @ pad2 (go_div (tw_end_min w) 60) @ '':'' @ pad2 (go_mod (tw_end_min w) 60) @ '' '' @ tz)"

definition nonempty_list :: "string \<Rightarrow> string list" where
  "nonempty_list s = (if s = [] then [] else [s])"

definition summarize_constraints :: "constraints \<Rightarrow> string" where
  "summarize_constraints c =
     (let parts =
            (case cn_max_amount c of None \<Rightarrow> [] | Some m \<Rightarrow> [''max '' @ fixed2 m])
            @ nonempty_list (summarize_list ''categories'' (cn_categories c))
            @ nonempty_list (summarize_list ''tools'' (cn_tools c))
            @ nonempty_list (summarize_list ''resources'' (cn_resources c))
            @ (case cn_time_window c of None \<Rightarrow> [] | Some w \<Rightarrow> [''window '' @ summarize_window w])
            @ (case cn_rate c of None \<Rightarrow> [] | Some r \<Rightarrow> [''rate '' @ int_str (rl_max_per_hour r) @ ''/h''])
      in if parts = [] then em_dash else join ''; '' parts)"

record delegation_view =
  dv_id :: string
  dv_agent :: string
  dv_scopes :: string
  dv_constraints :: string
  dv_created :: instant
  dv_expires :: "instant option"
  dv_active :: bool

definition delegation_views :: "db \<Rightarrow> string \<Rightarrow> delegation_view list" where
  "delegation_views s user =
     map (\<lambda>(d, agent). \<lparr>dv_id = dr_id d, dv_agent = agent, dv_scopes = join '' '' (dr_scopes d),
            dv_constraints = summarize_constraints (sc_decoded (dr_constraints d)), dv_created = dr_created_at d,
            dv_expires = dr_expires_at d, dv_active = dr_active d\<rparr>)
       (list_user_delegations s user)"

text \<open>\<open>Delegations\<close>: the views of the user of the session, with the anti-forgery token for the form; a redirect otherwise.\<close>

definition account_delegations ::
    "account_env \<Rightarrow> secret_lib \<Rightarrow> session_manager \<Rightarrow> web_request \<Rightarrow> account_db \<times> db
       \<Rightarrow> (web_answer + delegation_view list \<times> string) \<times> account_db" where
  "account_delegations ae lib sm r w =
     (let (a, s) = w; login = redirect_to ''/login?redirect=/account/delegations'' []
      in case get_session ae lib sm r a of
           (Inl _, a1) \<Rightarrow> (Inl login, a1)
         | (Inr x, a1) \<Rightarrow>
             (if se_user x = [] then Inl login else Inr (delegation_views s (se_user x), csrf_token lib sm x), a1))"

definition see_other :: "string \<Rightarrow> web_answer" where
  "see_other loc = \<lparr>wa_status = 303, wa_location = loc, wa_cookies = []\<rparr>"

definition account_revoke ::
    "account_env \<Rightarrow> secret_lib \<Rightarrow> session_manager \<Rightarrow> 'r url_lib \<Rightarrow> web_request \<Rightarrow> string \<Rightarrow> account_db \<times> db
       \<Rightarrow> web_answer \<times> account_db \<times> db" where
  "account_revoke ae lib sm urls r did w =
     (let (a, s) = w; login = redirect_to ''/login?redirect=/account/delegations'' []
      in case get_session ae lib sm r a of
           (Inl _, a1) \<Rightarrow> (login, a1, s)
         | (Inr x, a1) \<Rightarrow>
             if se_user x = [] then (login, a1, s)
             else if \<not> same_origin urls r then (plain_answer 403, a1, s)
             else if \<not> validate_csrf lib sm r x then (plain_answer 403, a1, s)
             else case revoke_delegation_tree (av_now ae) did (se_user x) s of
                    Inl _ \<Rightarrow> (see_other ''/account/delegations?err=revoke_failed'', a1, s)
                  | Inr (_, s1) \<Rightarrow> (see_other ''/account/delegations?msg=revoked'', a1, s1))"

section \<open>Authorizing an OAuth client\<close>

record authorize_request =
  az_scopes :: "string list"
  az_audience :: "string list"

record authorize_grant =
  gr_subject :: string
  gr_scopes :: "string set"
  gr_audience :: "string set"

datatype 'a authorize_answer = ProviderError | LoginFirst string | Answered 'a

definition authorize_page ::
    "account_env \<Rightarrow> secret_lib \<Rightarrow> session_manager \<Rightarrow> (web_request \<Rightarrow> authorize_request option)
       \<Rightarrow> (authorize_grant \<Rightarrow> 'a option) \<Rightarrow> string \<Rightarrow> web_request \<Rightarrow> account_db \<Rightarrow> 'a authorize_answer \<times> account_db" where
  "authorize_page ae lib sm new_request new_response raw_query r a =
     (case new_request r of
        None \<Rightarrow> (ProviderError, a)
      | Some ar \<Rightarrow>
          (case get_session ae lib sm r a of
             (Inl _, a1) \<Rightarrow> (LoginFirst (''/login?'' @ raw_query), a1)
           | (Inr x, a1) \<Rightarrow>
               (case new_response \<lparr>gr_subject = se_user x, gr_scopes = set (az_scopes ar), gr_audience = set (az_audience ar)\<rparr> of
                  None \<Rightarrow> ProviderError | Some ans \<Rightarrow> Answered ans, a1)))"

text \<open>The token endpoint: an exchange goes to the exchanger, everything else to Fosite; client credentials get every scope.\<close>

datatype token_handler = ToExchanger | ToProvider

definition token_route :: "bool \<Rightarrow> web_request \<Rightarrow> token_handler" where
  "token_route exchanger r =
     (if exchanger \<and> wr_form_ok r \<and> form_get (wr_post r) ''grant_type'' = ''urn:ietf:params:oauth:grant-type:token-exchange''
      then ToExchanger else ToProvider)"

definition token_scopes :: "string list \<Rightarrow> string set \<Rightarrow> string list \<Rightarrow> string set" where
  "token_scopes grant_types granted requested =
     (if grant_types = [''client_credentials''] then granted \<union> set requested else granted)"

section \<open>Who may write a delegation\<close>

lemma trusted_session_Inr:
  "trusted_session ae lib sm urls r a = (Inr x, a1) \<Longrightarrow>
     get_session ae lib sm r a = (Inr x, a1) \<and> same_origin urls r \<and> validate_csrf lib sm r x"
  by (auto simp: trusted_session_def split: prod.splits sum.splits if_splits)

lemma agent_org_Some:
  "agent_org s aid = Some org \<Longrightarrow> \<exists>g \<in> set (db_agents s). ag_id g = aid \<and> ag_status g = ''active'' \<and> ag_org g = Some org"
  by (auto simp: agent_org_def split: option.splits dest!: find_SomeD)

lemma grant_consent_root:
  assumes "grant_consent e req s = Inr (ids, t)"
  shows "\<exists>d. db_delegations t = db_delegations s @ [d] \<and> root_row d \<and> dr_id d = snd ids \<and> ch_uuid e (cq_user req) = Some (dr_delegator d)
     \<and> ch_uuid e (cq_agent req) = Some (dr_delegatee d) \<and> dr_scopes d = cq_scopes req
     \<and> dr_expires_at d = (if cq_ttl req > 0 then Some (ch_now e + cq_ttl req) else None)
     \<and> db_tokens t = db_tokens s"
  using assms by (rule grant_consent_Inr) (use consent_tx_Inr in fastforce)

text \<open>What \<open>SameOrigin\<close> lets through: a request without both headers, or one whose header is a URL of the server's own host.\<close>

lemma same_origin_iff:
  "same_origin urls r \<longleftrightarrow>
     (let o1 = wr_header r ''Origin''; o2 = (if o1 = [] then wr_header r ''Referer'' else o1)
      in o2 = [] \<or> (\<exists>u. ul_parse urls o2 = Some u \<and> u_host u \<noteq> [] \<and> u_host u = wr_host r))"
  by (auto simp: same_origin_def Let_def split: option.splits)

lemma consent_delegate_changed:
  assumes "consent_delegate ae lib sm e r body (a, s) = (ans, a1, t)" and "t \<noteq> s"
  obtains x req aid org ids where "trusted_session ae lib sm (ch_urls e) r a = (Inr x, a1)" and "body = Some req"
    and "ch_uuid e (dq_agent req) = Some aid" and "agent_org s aid = Some org" and "is_member s org (se_user x)"
    and "grant_consent e \<lparr>cq_user = se_user x, cq_agent = dq_agent req, cq_org = org, cq_scopes = dq_scopes req,
           cq_constraints = dq_constraints req, cq_resource = dq_resource req, cq_ttl = seconds (dq_ttl_seconds req)\<rparr> s
         = Inr (ids, t)"
    and "ans = Delegated (fst ids) (snd ids)"
  using assms by (auto simp: consent_delegate_def bind_eq_Some_conv split: prod.splits sum.splits option.splits if_splits)

text \<open>C5: A request to \<open>/consent/delegate\<close> that changes anything carries the cookie of a live session and the session's
  anti-forgery token, and its \<open>Origin\<close>, or where it has none its \<open>Referer\<close>, is the server's own host unless both are absent; it
  names an active agent of an organization its user belongs to, and adds one root delegation, from that user, to that agent, with
  the scopes and the lifetime of the body, and no token. Sessions hold their user's id as the database writes it.\<close>

theorem consent_needs_session:
  assumes "consent_delegate ae lib sm e r body (a, s) = (ans, a1, t)" and "t \<noteq> s"
    and "\<forall>x \<in> set (ad_sessions a). ch_uuid e (se_user x) = Some (se_user x)"
  shows "\<exists>x c req org g d cid. get_session ae lib sm r a = (Inr x, a1) \<and>
     wr_cookie r = Some c \<and> verify_cookie lib sm c = Inr (se_id x) \<and> x \<in> set (ad_sessions a) \<and> se_expires x > av_now ae
     \<and> (let o1 = wr_header r ''Origin''; o2 = (if o1 = [] then wr_header r ''Referer'' else o1)
        in o2 = [] \<or> (\<exists>u. ul_parse (ch_urls e) o2 = Some u \<and> u_host u \<noteq> [] \<and> u_host u = wr_host r))
     \<and> validate_csrf lib sm r x \<and> body = Some req
     \<and> g \<in> set (db_agents s) \<and> ch_uuid e (dq_agent req) = Some (ag_id g) \<and> ag_status g = ''active'' \<and> ag_org g = Some org
     \<and> is_member s org (se_user x) \<and> ans = Delegated cid (dr_id d)
     \<and> db_delegations t = db_delegations s @ [d] \<and> root_row d \<and> dr_delegator d = se_user x
     \<and> dr_delegatee d = ag_id g \<and> dr_scopes d = dq_scopes req
     \<and> dr_expires_at d = (if seconds (dq_ttl_seconds req) > 0 then Some (ch_now e + seconds (dq_ttl_seconds req)) else None)
     \<and> db_tokens t = db_tokens s"
proof -
  obtain x req aid org ids where ts: "trusted_session ae lib sm (ch_urls e) r a = (Inr x, a1)" and b: "body = Some req"
    and aid: "ch_uuid e (dq_agent req) = Some aid" and ao: "agent_org s aid = Some org" and m: "is_member s org (se_user x)"
    and gc: "grant_consent e \<lparr>cq_user = se_user x, cq_agent = dq_agent req, cq_org = org, cq_scopes = dq_scopes req,
           cq_constraints = dq_constraints req, cq_resource = dq_resource req, cq_ttl = seconds (dq_ttl_seconds req)\<rparr> s
         = Inr (ids, t)"
    and ans: "ans = Delegated (fst ids) (snd ids)"
    by (rule consent_delegate_changed [OF assms(1,2)])
  from trusted_session_Inr [OF ts] have gs: "get_session ae lib sm r a = (Inr x, a1)"
    and origin: "same_origin (ch_urls e) r" and csrf: "validate_csrf lib sm r x" by simp_all
  obtain c where c: "wr_cookie r = Some c" "verify_cookie lib sm c = Inr (se_id x)" "x \<in> set (ad_sessions a)"
      "se_expires x > av_now ae"
    using get_session_Inr [OF gs] by blast
  obtain g where g: "g \<in> set (db_agents s)" "ag_id g = aid" "ag_status g = ''active''" "ag_org g = Some org"
    using agent_org_Some [OF ao] by blast
  from grant_consent_root [OF gc] obtain d where d: "db_delegations t = db_delegations s @ [d]" "root_row d" "dr_id d = snd ids"
    "ch_uuid e (se_user x) = Some (dr_delegator d)" "ch_uuid e (dq_agent req) = Some (dr_delegatee d)" "dr_scopes d = dq_scopes req"
    "dr_expires_at d = (if seconds (dq_ttl_seconds req) > 0 then Some (ch_now e + seconds (dq_ttl_seconds req)) else None)"
    "db_tokens t = db_tokens s" by auto
  have ids: "dr_delegator d = se_user x" "dr_delegatee d = ag_id g" "ch_uuid e (dq_agent req) = Some (ag_id g)"
    using d(4,5) assms(3) c(3) aid g(2) by simp_all
  from ans d(3) have named: "ans = Delegated (fst ids) (dr_id d)" by simp
  with gs c origin [unfolded same_origin_iff] csrf b g m d(1,2,6-8) ids show ?thesis by blast
qed

text \<open>
  The product of the lifetime and a second wraps: 292 years and a bit more are a negative duration, and a delegation
  whose lifetime is not positive never expires.
\<close>

lemma seconds_exact: "\<bar>n\<bar> \<le> 9223372036 \<Longrightarrow> seconds n = n * nanos"
  by (simp add: seconds_def wrap64_def nanos_def)

lemma seconds_wraps: "9223372037 \<le> n \<Longrightarrow> n < 18446744073 \<Longrightarrow> seconds n < 0"
proof -
  assume a: "9223372037 \<le> n" "n < 18446744073"
  then have "(n * nanos + 2 ^ 63) mod 2 ^ 64 = n * nanos + 2 ^ 63 - 2 ^ 64"
    by (intro int_mod_pos_eq [where q = 1]) (simp_all add: nanos_def)
  with a show ?thesis by (simp add: seconds_def wrap64_def nanos_def)
qed

lemma long_lifetime_never_ends:
  assumes "consent_delegate ae lib sm e r (Some req) (a, s) = (Delegated cid did, a1, t)"
    and "9223372037 \<le> dq_ttl_seconds req" and "dq_ttl_seconds req < 18446744073" and "t \<noteq> s"
  shows "\<exists>d \<in> set (db_delegations t). dr_id d = did \<and> dr_expires_at d = None"
proof -
  obtain x req' aid org ids where "trusted_session ae lib sm (ch_urls e) r a = (Inr x, a1)" and b: "Some req = Some req'"
    and "ch_uuid e (dq_agent req') = Some aid" and "agent_org s aid = Some org" and "is_member s org (se_user x)" and gc: "grant_consent e \<lparr>cq_user = se_user x, cq_agent = dq_agent req', cq_org = org, cq_scopes = dq_scopes req',
       cq_constraints = dq_constraints req', cq_resource = dq_resource req', cq_ttl = seconds (dq_ttl_seconds req')\<rparr> s = Inr (ids, t)"
    and ans: "Delegated cid did = Delegated (fst ids) (snd ids)"
    by (rule consent_delegate_changed [OF assms(1,4)])
  from b have "seconds (dq_ttl_seconds req') < 0" using seconds_wraps [OF assms(2,3)] by simp
  with grant_consent_root [OF gc] ans show ?thesis by auto
qed

section \<open>Who may revoke one\<close>

text \<open>A user who revokes a delegation at \<open>/account/delegations\<close> revokes only what hangs from a delegation of his own:
  when the delegations change, the request carries a live session, its anti-forgery token and the server's own origin; the
  delegation named was granted by the session's user; and every other row that the revocation switches off descends from it.
  No row is added, removed or switched on, and no token loses a revocation mark.\<close>

theorem account_revoke_own:
  assumes "account_revoke ae lib sm urls r did (a, s) = (ans, a1, t)" and "t \<noteq> s"
  shows "\<exists>x d0. get_session ae lib sm r a = (Inr x, a1) \<and> same_origin urls r \<and> validate_csrf lib sm r x
     \<and> d0 \<in> set (db_delegations s) \<and> dr_id d0 = did \<and> dr_delegator d0 = se_user x \<and> dr_delegator_type d0 = ''user''
     \<and> db_delegations t = map (\<lambda>d. if dr_id d \<in> set (subtree s did) \<and> dr_active d then d\<lparr>dr_active := False\<rparr> else d) (db_delegations s)
     \<and> db_tokens t = map (\<lambda>k. if (\<exists>d. tr_delegation k = Some d \<and> d \<in> set (subtree s did)) \<and> tr_revoked_at k = None
                              then k\<lparr>tr_revoked_at := Some (av_now ae)\<rparr> else k) (db_tokens s)
     \<and> wa_location ans = ''/account/delegations?msg=revoked''"
proof -
  from assms obtain x n where gs: "get_session ae lib sm r a = (Inr x, a1)" "same_origin urls r" "validate_csrf lib sm r x"
    and rv: "revoke_delegation_tree (av_now ae) did (se_user x) s = Inr (n, t)"
    and loc: "wa_location ans = ''/account/delegations?msg=revoked''"
    by (auto simp: account_revoke_def see_other_def Let_def split: prod.splits sum.splits if_splits)
  note rows = revoke_tree_rows [OF rv]
  have tok: "(case tr_delegation k of None \<Rightarrow> False | Some d \<Rightarrow> d \<in> set (subtree s did))
      = (\<exists>d. tr_delegation k = Some d \<and> d \<in> set (subtree s did))" for k
    by (auto split: option.split)
  from rows(3) obtain d0 where "d0 \<in> set (db_delegations s)" "dr_id d0 = did" "dr_delegator d0 = se_user x"
    "dr_delegator_type d0 = ''user''" by (auto simp: list_ex_iff)
  with gs loc rows(1) rows(2) [unfolded tok] show ?thesis
    by (intro exI [of _ x] exI [of _ d0] conjI) (simp_all add: switch_off_def [abs_def])
qed

text \<open>What the page of delegations shows is the user's own rows, whether active or not.\<close>

lemma views_are_own:
  "v \<in> set (delegation_views s user) \<Longrightarrow>
     \<exists>d \<in> set (db_delegations s). dr_id d = dv_id v \<and> dr_delegator d = user \<and> dr_delegator_type d = ''user'' \<and>
       dr_active d = dv_active v"
  by (auto simp: delegation_views_def list_user_delegations_def)

text \<open>A list that an intersection emptied is the sentinel, and the page says \<open>none\<close> instead of showing it.\<close>

lemma denied_list_shown_as_none: "summarize_list label [deny_all] = label @ '': none''"
  by (simp add: summarize_list_def deny_all_def has_prefix_def)

section \<open>A run\<close>

text \<open>Alice's session, in a request that carries its cookie and its token.\<close>

definition demo_grant :: delegate_request where
  "demo_grant = \<lparr>dq_agent = ''a1'', dq_scopes = [''pay'', ''read''], dq_resource = [], dq_constraints = no_constraints,
     dq_ttl_seconds = 60\<rparr>"

definition demo_session :: session_row where
  "demo_session = \<lparr>se_id = ''s1'', se_user = ''u1'', se_ip = None, se_agent = [], se_created = 0, se_active = 0, se_expires = 100\<rparr>"

definition demo_click :: web_request where
  "demo_click = (demo_page [] (Some (sign_cookie demo_secrets demo_manager ''s1'')))
     \<lparr>wr_header := (\<lambda>h. if h = ''X-CSRF-Token'' then csrf_token demo_secrets demo_manager demo_session else [])\<rparr>"

lemma demo_click_session:
  "\<exists>a1. get_session (demo_account_env 5 []) demo_secrets demo_manager demo_click (demo_accounts []) = (Inr demo_session, a1)"
proof -
  have "verify_cookie demo_secrets demo_manager (sign_cookie demo_secrets demo_manager ''s1'') = Inr ''s1''"
    by (simp add: verify_cookie_iff [OF demo_bytes])
  then show ?thesis
    by (simp add: get_session_def demo_click_def demo_page_def demo_account_env_def demo_accounts_def demo_session_def)
qed

lemma demo_click_origin: "same_origin urls demo_click"
  by (simp add: same_origin_def demo_click_def demo_page_def)

lemma demo_click_token: "validate_csrf demo_secrets demo_manager demo_click demo_session"
  by (simp add: validate_csrf_def demo_click_def demo_page_def csrf_token_def hex_encode_def hex_digits_def
      demo_secrets_def demo_manager_def demo_session_def Let_def)

lemma demo_session_user: "se_user demo_session = ''u1''"
  by (simp add: demo_session_def)

theorem consent_needs_session_witness:
  "\<exists>a1 t d. consent_delegate (demo_account_env 5 []) demo_secrets demo_manager (chain_env_at 0 ''c1'' ''d1'') demo_click
       (Some demo_grant) (demo_accounts [], two_agents) = (Delegated ''c1'' ''d1'', a1, t)
     \<and> db_delegations t = [d] \<and> dr_delegator d = ''u1'' \<and> dr_delegatee d = ''a1'' \<and> dr_expires_at d = Some (60 * nanos)"
proof -
  let ?e = "chain_env_at 0 ''c1'' ''d1''"
  obtain a1 where g: "get_session (demo_account_env 5 []) demo_secrets demo_manager demo_click (demo_accounts []) = (Inr demo_session, a1)"
    using demo_click_session by blast
  have sec: "seconds 60 = 60 * nanos" by (rule seconds_exact) simp
  have ts: "trusted_session (demo_account_env 5 []) demo_secrets demo_manager (ch_urls ?e) demo_click (demo_accounts []) =
      (Inr demo_session, a1)"
    using g by (simp add: trusted_session_def demo_click_origin demo_click_token)
  have org: "agent_org two_agents ''a1'' = Some ''o1''" "is_member two_agents ''o1'' ''u1''"
    by (simp_all add: agent_org_def is_member_def chain_samples)
  obtain t where gc: "grant_consent ?e \<lparr>cq_user = ''u1'', cq_agent = ''a1'', cq_org = ''o1'', cq_scopes = [''pay'', ''read''],
      cq_constraints = no_constraints, cq_resource = [], cq_ttl = seconds 60\<rparr> two_agents = Inr ((''c1'', ''d1''), t)"
    by (simp add: grant_consent_def consent_tx_def uuid_arg_def validate_and_canonicalize_def insert_delegation_def chain_samples plain_def
        no_constraints_def emit_def Let_def)
  have uuid: "ch_uuid ?e x = Some x" for x by (simp add: chain_env_at_def)
  have run: "consent_delegate (demo_account_env 5 []) demo_secrets demo_manager ?e demo_click
       (Some demo_grant) (demo_accounts [], two_agents) = (Delegated ''c1'' ''d1'', a1, t)"
    by (simp add: consent_delegate_def ts demo_session_user uuid org gc demo_grant_def)
  have ne: "t \<noteq> two_agents" using grant_consent_root [OF gc] by auto
  show ?thesis
    using consent_needs_session [OF run ne] sec g run uuid
    by (auto simp: demo_grant_def demo_session_user two_agents_def sample_agents_def sample_users_def empty_db_def nanos_def
        chain_env_at_def)
qed

theorem account_revoke_own_witness:
  "\<exists>ans a1 t. account_revoke (demo_account_env 5 []) demo_secrets demo_manager two_url_lib demo_click ''d1'' (demo_accounts [], redelegated)
       = (ans, a1, t) \<and> t \<noteq> redelegated \<and> wa_location ans = ''/account/delegations?msg=revoked''"
proof -
  obtain a1 where g: "get_session (demo_account_env 5 []) demo_secrets demo_manager demo_click (demo_accounts []) = (Inr demo_session, a1)"
    using demo_click_session by blast
  obtain n t where rv: "revoke_delegation_tree 5 ''d1'' ''u1'' redelegated = Inr (n, t)"
    using redelegate_run revoke_tree_succeeds [of "''d1''" "''u1''" redelegated 5] by (auto simp: root_d1_def)
  have "map dr_active (db_delegations t) \<noteq> map dr_active (db_delegations redelegated)"
    using redelegate_run
    by (simp add: revoke_tree_rows(1) [OF rv] subtree_def switch_off_def root_d1_def child_d2_def numeral_eq_Suc)
  then have ne: "t \<noteq> redelegated" by auto
  obtain ans where run: "account_revoke (demo_account_env 5 []) demo_secrets demo_manager two_url_lib demo_click ''d1''
      (demo_accounts [], redelegated) = (ans, a1, t)"
    using g rv
    by (simp add: account_revoke_def demo_session_user demo_click_origin demo_click_token Let_def)
      (simp add: demo_account_env_def)
  from account_revoke_own [OF run ne] run ne show ?thesis by blast
qed

end
