(* ===== verification/Console.thy ===== *)
theory Console
  imports Web AuditChain "HOL-Library.Sublist"
begin

text \<open>
  The superadmin console: the hub of live events (\<open>internal/live/hub.go\<close>), the listener that feeds it from the database's
  notifications (\<open>listener.go\<close>), the graph of active delegations (\<open>graph.go\<close>), and the handlers of \<open>internal/auth/live.go\<close> and
  \<open>admin.go\<close> that a superadmin's session opens.

  An event is a pair of its time and the record of theory \<open>Store\<close>. A subscriber's channel is its capacity, its contents and
  whether it is still registered; the hub's lock makes each operation one step. A page is its rows instead of HTML.
\<close>

section \<open>The hub\<close>

type_synonym event = "instant \<times> live_event"

record channel =
  hc_id :: nat
  hc_cap :: nat
  hc_queue :: "event list"
  hc_open :: bool

record hub =
  hb_cap :: nat
  hb_ring :: "event list"
  hb_chans :: "channel list"

definition new_hub :: "int \<Rightarrow> hub" where
  "new_hub ring_cap = \<lparr>hb_cap = nat (if ring_cap \<le> 0 then 200 else ring_cap), hb_ring = [], hb_chans = []\<rparr>"

definition stamp :: "instant \<Rightarrow> event \<Rightarrow> event" where
  "stamp now ev = (if fst ev = zero_time then (now, snd ev) else ev)"

definition offer :: "event \<Rightarrow> channel \<Rightarrow> channel" where
  "offer ev c = (if hc_open c \<and> length (hc_queue c) < hc_cap c then c\<lparr>hc_queue := hc_queue c @ [ev]\<rparr> else c)"

definition publish :: "instant \<Rightarrow> event \<Rightarrow> hub \<Rightarrow> hub" where
  "publish now ev h =
     (let ev1 = stamp now ev; ring = hb_ring h @ [ev1]
      in h\<lparr>hb_ring := (if length ring > hb_cap h then drop (length ring - hb_cap h) ring else ring),
           hb_chans := map (offer ev1) (hb_chans h)\<rparr>)"

definition subscribe :: "int \<Rightarrow> hub \<Rightarrow> nat \<times> hub" where
  "subscribe buffer h =
     (let n = length (hb_chans h)
      in (n, h\<lparr>hb_chans := hb_chans h @
              [\<lparr>hc_id = n, hc_cap = nat (if buffer \<le> 0 then 64 else buffer), hc_queue = [], hc_open = True\<rparr>]\<rparr>))"

text \<open>Unregistering closes the channel, once; what it holds can still be received.\<close>

definition unsubscribe :: "nat \<Rightarrow> hub \<Rightarrow> hub" where
  "unsubscribe n h = h\<lparr>hb_chans := map (\<lambda>c. if hc_id c = n then c\<lparr>hc_open := False\<rparr> else c) (hb_chans h)\<rparr>"

datatype received = Waits | Closed | Got event

definition receive :: "nat \<Rightarrow> hub \<Rightarrow> received \<times> hub" where
  "receive n h =
     (case find (\<lambda>c. hc_id c = n) (hb_chans h) of
        None \<Rightarrow> (Waits, h)
      | Some c \<Rightarrow>
          (case hc_queue c of
             [] \<Rightarrow> (if hc_open c then Waits else Closed, h)
           | ev # q \<Rightarrow> (Got ev, h\<lparr>hb_chans := map (\<lambda>x. if hc_id x = n then x\<lparr>hc_queue := q\<rparr> else x) (hb_chans h)\<rparr>)))"

definition subscribers :: "hub \<Rightarrow> nat" where
  "subscribers h = length (filter hc_open (hb_chans h))"

text \<open>What the stream of a new console starts with: at most the last sixty events of the ring.\<close>

definition replay :: "hub \<Rightarrow> event list" where
  "replay h = (if length (hb_ring h) > 60 then drop (length (hb_ring h) - 60) (hb_ring h) else hb_ring h)"

section \<open>Events from other processes\<close>

definition valid_types :: "string list" where
  "valid_types = [''decision'', ''mint'', ''revoke'']"

definition valid_decisions :: "string list" where
  "valid_decisions = [[], ''ALLOW'', ''DENY'', ''REVOKE'', ''MINT'']"

definition max_field_len :: nat where
  "max_field_len = 512"

definition event_texts :: "live_event \<Rightarrow> string list" where
  "event_texts x = [le_subject x, le_actor x, le_provenance x, le_tool x, le_upstream x, le_reason x, le_delegation x]"

definition valid_event :: "live_event \<Rightarrow> bool" where
  "valid_event x \<longleftrightarrow>
     \<not> (le_type x \<notin> set valid_types \<or> le_decision x \<notin> set valid_decisions) \<and> list_all (\<lambda>t. length t \<le> max_field_len) (event_texts x)"

text \<open>A notification: its payload decodes to an event, or not.\<close>

definition on_notification :: "instant \<Rightarrow> event option \<Rightarrow> hub \<Rightarrow> hub" where
  "on_notification now payload h =
     (case payload of None \<Rightarrow> h | Some ev \<Rightarrow> if valid_event (snd ev) then publish now ev h else h)"

text \<open>\<open>Listen\<close>: the pause before the next connection; \<open>reached\<close> says that the one just lost had been established.\<close>

definition next_backoff :: "bool \<Rightarrow> duration \<Rightarrow> duration \<times> duration" where
  "next_backoff reached b =
     (let b1 = (if reached then nanos else b) in (b1, if b1 < 30 * nanos then b1 * 2 else b1))"

text \<open>The publisher's buffer (\<open>publisher.go\<close>), which drops what does not fit.\<close>

definition enqueue :: "instant \<Rightarrow> event \<Rightarrow> event list \<Rightarrow> event list" where
  "enqueue now ev q = (if length q < 512 then q @ [stamp now ev] else q)"

section \<open>Ingested decisions\<close>

record ingest_request =
  ir_decision :: string
  ir_subject :: string
  ir_actor :: string
  ir_provenance :: string
  ir_tool :: string
  ir_reason :: string
  ir_source :: string

definition upper_byte :: "char \<Rightarrow> char" where
  "upper_byte c = (case map_of (zip ''abcdefghijklmnopqrstuvwxyz'' ''ABCDEFGHIJKLMNOPQRSTUVWXYZ'') c of None \<Rightarrow> c | Some d \<Rightarrow> d)"

text \<open>
  \<open>Ingest\<close>: the status of the answer and the event handed on. No rune beyond ASCII has an upper case among the letters of
  the two words, so mapping bytes decides the comparison.
\<close>

definition ingest :: "string \<Rightarrow> string \<Rightarrow> ingest_request option \<Rightarrow> instant \<Rightarrow> nat \<times> event option" where
  "ingest ingest_token authorization body now =
     (if ingest_token = [] then (404, None)
      else if trim_prefix ''Bearer '' authorization \<noteq> ingest_token then (401, None)
      else case body of
        None \<Rightarrow> (400, None)
      | Some q \<Rightarrow>
          (let decision = map upper_byte (trim_space (ir_decision q));
               source = (if ir_source q = [] then ''resource-server'' else ir_source q)
           in if decision \<noteq> ''ALLOW'' \<and> decision \<noteq> ''DENY'' then (400, None)
              else (204, Some (now, no_event\<lparr>le_type := ''decision'', le_decision := decision, le_subject := ir_subject q,
                      le_actor := ir_actor q, le_provenance := ir_provenance q, le_tool := ir_tool q, le_upstream := source,
                      le_reason := ir_reason q\<rparr>))))"

section \<open>The graph of active delegations\<close>

record graph_node =
  gn_id :: string
  gn_label :: string
  gn_kind :: string

record graph_edge =
  ge_id :: string
  ge_parent :: string
  ge_from :: string
  ge_to :: string
  ge_depth :: int

record graph =
  gg_nodes :: "graph_node list"
  gg_edges :: "graph_edge list"

definition node_name :: "string \<Rightarrow> string \<Rightarrow> string" where
  "node_name kind i = kind @ '':'' @ i"

definition agent_label :: "db \<Rightarrow> string \<Rightarrow> string" where
  "agent_label s aid = ''agent:'' @ (case find (\<lambda>a. ag_id a = aid) (db_agents s) of None \<Rightarrow> aid | Some a \<Rightarrow> ag_name a)"

definition delegator_label :: "account_db \<Rightarrow> db \<Rightarrow> delegation_row \<Rightarrow> string" where
  "delegator_label a s d =
     (if dr_delegator_type d = ''user''
      then ''user:'' @ (case find (\<lambda>u. ac_id u = dr_delegator d) (ad_users a) of None \<Rightarrow> dr_delegator d | Some u \<Rightarrow> ac_email u)
      else if dr_delegator_type d = ''agent'' then agent_label s (dr_delegator d)
      else node_name (dr_delegator_type d) (dr_delegator d))"

definition snapshot_rows :: "instant \<Rightarrow> db \<Rightarrow> delegation_row list" where
  "snapshot_rows now s =
     sort_key dr_depth (sort_key dr_created_at
       (filter (\<lambda>d. dr_active d \<and> not_expired now (dr_expires_at d) \<and> dr_delegatee d \<in> ag_id ` set (db_agents s)) (db_delegations s)))"

definition add_node :: "graph_node \<Rightarrow> graph_node list \<Rightarrow> graph_node list" where
  "add_node n ns = (if gn_id n = [] \<or> gn_id n \<in> gn_id ` set ns then ns else ns @ [n])"

definition add_row :: "account_db \<Rightarrow> db \<Rightarrow> delegation_row \<Rightarrow> graph \<Rightarrow> graph" where
  "add_row a s d g =
     (let from_id = node_name (dr_delegator_type d) (dr_delegator d); to_id = node_name ''agent'' (dr_delegatee d)
      in \<lparr>gg_nodes = add_node \<lparr>gn_id = to_id, gn_label = agent_label s (dr_delegatee d), gn_kind = ''agent''\<rparr>
            (add_node \<lparr>gn_id = from_id, gn_label = delegator_label a s d, gn_kind = dr_delegator_type d\<rparr> (gg_nodes g)),
          gg_edges = gg_edges g @ [\<lparr>ge_id = dr_id d, ge_parent = parent_id d, ge_from = from_id, ge_to = to_id, ge_depth = dr_depth d\<rparr>]\<rparr>)"

definition snapshot :: "instant \<Rightarrow> account_db \<Rightarrow> db \<Rightarrow> graph" where
  "snapshot now a s = fold (add_row a s) (snapshot_rows now s) \<lparr>gg_nodes = [], gg_edges = []\<rparr>"

section \<open>The pages\<close>

datatype 'a console_answer = ToLogin | NoSession | NotSuperadmin | Broken | Shown 'a

definition is_superadmin :: "db \<Rightarrow> string \<Rightarrow> bool" where
  "is_superadmin s user \<longleftrightarrow> (case find (\<lambda>u. us_id u = user \<and> us_status u = ''active'') (db_users s) of None \<Rightarrow> False | Some u \<Rightarrow> us_superadmin u)"

text \<open>\<open>authorize\<close>, on behalf of a page or of a call for data.\<close>

definition console_gate ::
    "account_env \<Rightarrow> secret_lib \<Rightarrow> session_manager \<Rightarrow> bool \<Rightarrow> web_request \<Rightarrow> account_db \<times> db \<Rightarrow> 'a console_answer option \<times> account_db" where
  "console_gate ae lib sm page r w =
     (let (a, s) = w; refused = (if page then ToLogin else NoSession)
      in case get_session ae lib sm r a of
           (Inl _, a1) \<Rightarrow> (Some refused, a1)
         | (Inr x, a1) \<Rightarrow>
             (if se_user x = [] then Some refused else if \<not> is_superadmin s (se_user x) then Some NotSuperadmin else None, a1))"

definition guarded ::
    "account_env \<Rightarrow> secret_lib \<Rightarrow> session_manager \<Rightarrow> bool \<Rightarrow> web_request \<Rightarrow> account_db \<times> db \<Rightarrow> 'a \<Rightarrow> 'a console_answer" where
  "guarded ae lib sm page r w shown =
     (case fst (console_gate ae lib sm page r w) of Some refused \<Rightarrow> refused | None \<Rightarrow> Shown shown)"

definition dashboard :: "account_env \<Rightarrow> secret_lib \<Rightarrow> session_manager \<Rightarrow> web_request \<Rightarrow> account_db \<times> db \<Rightarrow> unit console_answer" where
  "dashboard ae lib sm r w = guarded ae lib sm True r w ()"

definition snapshot_page :: "account_env \<Rightarrow> secret_lib \<Rightarrow> session_manager \<Rightarrow> web_request \<Rightarrow> account_db \<times> db \<Rightarrow> graph console_answer" where
  "snapshot_page ae lib sm r w = guarded ae lib sm False r w (snapshot (av_now ae) (fst w) (snd w))"

text \<open>\<open>Events\<close> up to its loop: the replayed events and the subscription.\<close>

definition events_page ::
    "account_env \<Rightarrow> secret_lib \<Rightarrow> session_manager \<Rightarrow> web_request \<Rightarrow> hub \<Rightarrow> account_db \<times> db \<Rightarrow> (event list \<times> nat) console_answer \<times> hub" where
  "events_page ae lib sm r h w =
     (let (n, h1) = subscribe 128 h
      in case guarded ae lib sm False r w () of
           Shown _ \<Rightarrow> (Shown (replay h1, n), h1)
         | ToLogin \<Rightarrow> (ToLogin, h) | NoSession \<Rightarrow> (NoSession, h) | NotSuperadmin \<Rightarrow> (NotSuperadmin, h) | Broken \<Rightarrow> (Broken, h))"

text \<open>The audit page. A failed verification is an empty result, which is not shown as verified.\<close>

record audit_line =
  al_time :: instant
  al_actor :: string
  al_action :: string
  al_provenance :: string
  al_resource :: string

record audit_view =
  wv_rows :: "audit_line list"
  wv_total :: int
  wv_ok :: bool
  wv_events :: int
  wv_head :: string
  wv_break :: string
  wv_break_id :: int

definition arrow :: string where
  "arrow = [CHR 0x20, CHR 0xE2, CHR 0x86, CHR 0x92, CHR 0x20]"

definition shown_provenance :: "string \<Rightarrow> string list \<Rightarrow> string" where
  "shown_provenance on_behalf_of chain =
     (if on_behalf_of = [] \<and> chain = [] then [CHR 0xE2, CHR 0x80, CHR 0x94]
      else join arrow ((if on_behalf_of \<noteq> [] then [on_behalf_of] else []) @ rev chain))"

definition short :: "string \<Rightarrow> string" where
  "short i = (if length i > 8 then take 8 i else i)"

definition short_hash :: "string \<Rightarrow> string" where
  "short_hash h = (if length h > 16 then take 16 h @ [CHR 0xE2, CHR 0x80, CHR 0xA6] else h)"

definition audit_line_of :: "audit_row \<Rightarrow> audit_line" where
  "audit_line_of r =
     (let d = aw_data r
      in \<lparr>al_time = ad_created_at d,
          al_actor = (if ad_actor d \<noteq> [] then ad_actor_type d @ '':'' @ short (ad_actor d) else ad_actor_type d),
          al_action = ad_action d, al_provenance = shown_provenance (ad_subject d) (given (ad_actor_chain d) []),
          al_resource = (if ad_resource d \<noteq> [] then ad_resource_type d @ '' '' @ ad_resource d else ad_resource_type d)\<rparr>)"

definition audit_page ::
    "account_env \<Rightarrow> secret_lib \<Rightarrow> session_manager \<Rightarrow> web_request \<Rightarrow> account_db \<times> db
       \<Rightarrow> audit_db option \<Rightarrow> (audit_error + verify_result) \<Rightarrow> audit_view console_answer" where
  "audit_page ae lib sm r w trail verified =
     (case guarded ae lib sm True r w () of
        ToLogin \<Rightarrow> ToLogin | NoSession \<Rightarrow> NoSession | NotSuperadmin \<Rightarrow> NotSuperadmin | Broken \<Rightarrow> Broken
      | Shown _ \<Rightarrow>
          (case trail of
             None \<Rightarrow> Broken
           | Some l \<Rightarrow>
               (let (rows, total_rows) = audit_query
                      \<lparr>af_actor_type = form_get (wr_query r) ''actor_type'', af_actor = [], af_action = form_get (wr_query r) ''action'',
                       af_subject = form_get (wr_query r) ''on_behalf_of_sub'', af_delegation = [], af_jti = [], af_since = None,
                       af_until = None, af_limit = 100, af_offset = 0\<rparr> l;
                    v = (case verified of Inr res \<Rightarrow> res
                         | Inl _ \<Rightarrow> \<lparr>vr_events = 0, vr_ok = False, vr_head_hash = [], vr_head_seq = 0, vr_break_id = 0, vr_break_kind = []\<rparr>)
                in Shown \<lparr>wv_rows = map audit_line_of rows, wv_total = total_rows, wv_ok = vr_ok v, wv_events = vr_events v,
                          wv_head = short_hash (vr_head_hash v), wv_break = vr_break_kind v, wv_break_id = vr_break_id v\<rparr>)))"

section \<open>What a subscriber sees\<close>

datatype hub_op = Publishes instant event | Subscribes int | Unsubscribes nat | Receives nat

fun hub_do :: "hub_op \<Rightarrow> hub \<Rightarrow> hub" where
  "hub_do (Publishes t ev) h = publish t ev h"
| "hub_do (Subscribes b) h = snd (subscribe b h)"
| "hub_do (Unsubscribes n) h = unsubscribe n h"
| "hub_do (Receives n) h = snd (receive n h)"

definition hub_run :: "hub_op list \<Rightarrow> hub \<Rightarrow> hub" where
  "hub_run ops h = fold hub_do ops h"

fun published :: "hub_op list \<Rightarrow> event list" where
  "published [] = []"
| "published (Publishes t ev # ops) = stamp t ev # published ops"
| "published (_ # ops) = published ops"

text \<open>The events that a receiver of one channel got.\<close>

fun got_by :: "nat \<Rightarrow> hub_op \<Rightarrow> hub \<Rightarrow> event list" where
  "got_by n (Receives m) h = (if m = n then (case fst (receive n h) of Got ev \<Rightarrow> [ev] | _ \<Rightarrow> []) else [])"
| "got_by n _ h = []"

fun delivered :: "nat \<Rightarrow> hub_op list \<Rightarrow> hub \<Rightarrow> event list" where
  "delivered n [] h = []"
| "delivered n (x # ops) h = got_by n x h @ delivered n ops (hub_do x h)"

definition waiting :: "nat \<Rightarrow> hub \<Rightarrow> event list" where
  "waiting n h = (case find (\<lambda>c. hc_id c = n) (hb_chans h) of None \<Rightarrow> [] | Some c \<Rightarrow> hc_queue c)"

lemma published_snoc: "published (ops @ [x]) = published ops @ published [x]"
  by (induction ops rule: published.induct) simp_all

lemma delivered_snoc: "delivered n (ops @ [x]) h = delivered n ops h @ got_by n x (hub_run ops h)"
  by (induction ops arbitrary: h) (simp_all add: hub_run_def)

lemma find_chan_map:
  "(\<And>c. hc_id (f c) = hc_id c) \<Longrightarrow> find (\<lambda>c. hc_id c = n) (map f cs) = map_option f (find (\<lambda>c. hc_id c = n) cs)"
  by (induction cs) auto

lemma find_append_none: "find P (xs @ ys) = (case find P xs of None \<Rightarrow> find P ys | Some x \<Rightarrow> Some x)"
  by (induction xs) auto

lemma waiting_publish: "waiting n (publish t ev h) \<in> {waiting n h, waiting n h @ [stamp t ev]}"
proof -
  have "hc_id (offer x c) = hc_id c" for x c by (simp add: offer_def)
  then have "waiting n (publish t ev h) =
      (case find (\<lambda>c. hc_id c = n) (hb_chans h) of None \<Rightarrow> [] | Some c \<Rightarrow> hc_queue (offer (stamp t ev) c))"
    by (simp add: waiting_def publish_def Let_def find_chan_map split: option.split)
  then show ?thesis by (auto simp: waiting_def offer_def split: option.split)
qed

lemma waiting_subscribe: "waiting n (snd (subscribe b h)) = waiting n h"
  by (auto simp: waiting_def subscribe_def Let_def find_append_none split: option.split)

lemma waiting_unsubscribe: "waiting n (unsubscribe m h) = waiting n h"
  by (auto simp: waiting_def unsubscribe_def find_chan_map split: option.split)

lemma waiting_receive: "got_by n (Receives m) h @ waiting n (snd (receive m h)) = waiting n h"
proof (cases "find (\<lambda>c. hc_id c = m) (hb_chans h)")
  case None
  then show ?thesis by (auto simp: receive_def waiting_def)
next
  case (Some c)
  show ?thesis
  proof (cases "hc_queue c")
    case Nil
    with Some show ?thesis by (auto simp: receive_def waiting_def)
  next
    case (Cons ev q)
    with Some show ?thesis
      by (auto simp: receive_def waiting_def find_chan_map split: option.split dest: find_SomeD)
  qed
qed

definition hub_ok :: "hub \<Rightarrow> bool" where
  "hub_ok h \<longleftrightarrow> map hc_id (hb_chans h) = [0..<length (hb_chans h)] \<and> (\<forall>c \<in> set (hb_chans h). length (hc_queue c) \<le> hc_cap c)"

lemma hub_ok_map:
  assumes "hub_ok h" and "\<And>c. hc_id (f c) = hc_id c" and "\<And>c. c \<in> set (hb_chans h) \<Longrightarrow> length (hc_queue (f c)) \<le> hc_cap (f c)"
  shows "hub_ok (h\<lparr>hb_chans := map f (hb_chans h)\<rparr>)"
  using assms by (auto simp: hub_ok_def comp_def)

lemma hub_ok_step: "hub_ok h \<Longrightarrow> hub_ok (hub_do x h)"
proof (cases x)
  case (Publishes t ev)
  assume "hub_ok h"
  then have "hub_ok (h\<lparr>hb_chans := map (offer (stamp t ev)) (hb_chans h)\<rparr>)"
    by (rule hub_ok_map) (use \<open>hub_ok h\<close> in \<open>auto simp: offer_def hub_ok_def\<close>)
  with Publishes show ?thesis by (simp add: hub_ok_def publish_def Let_def)
next
  case (Subscribes b)
  assume "hub_ok h"
  with Subscribes show ?thesis by (auto simp: hub_ok_def subscribe_def Let_def)
next
  case (Unsubscribes n)
  assume "hub_ok h"
  then have "hub_ok (h\<lparr>hb_chans := map (\<lambda>c. if hc_id c = n then c\<lparr>hc_open := False\<rparr> else c) (hb_chans h)\<rparr>)"
    by (rule hub_ok_map) (use \<open>hub_ok h\<close> in \<open>auto simp: hub_ok_def\<close>)
  with Unsubscribes show ?thesis by (simp add: unsubscribe_def)
next
  case (Receives n)
  assume ok: "hub_ok h"
  show ?thesis
  proof (cases "find (\<lambda>c. hc_id c = n) (hb_chans h)")
    case None
    with Receives ok show ?thesis by (simp add: receive_def)
  next
    case (Some c)
    have inj: "inj_on hc_id (set (hb_chans h))" using ok distinct_upt by (metis hub_ok_def distinct_map)
    have c: "c \<in> set (hb_chans h)" "hc_id c = n" using find_SomeD [OF Some] by simp_all
    show ?thesis
    proof (cases "hc_queue c")
      case Nil
      with Receives Some ok show ?thesis by (simp add: receive_def)
    next
      case (Cons ev q)
      have "hub_ok (h\<lparr>hb_chans := map (\<lambda>x. if hc_id x = n then x\<lparr>hc_queue := q\<rparr> else x) (hb_chans h)\<rparr>)"
      proof (rule hub_ok_map [OF ok])
        fix x assume x: "x \<in> set (hb_chans h)"
        have "x = c" if "hc_id x = n" using inj_onD [OF inj, of x c] x c that by simp
        moreover have "length (hc_queue c) \<le> hc_cap c" "length (hc_queue x) \<le> hc_cap x" using ok x c(1) by (auto simp: hub_ok_def)
        ultimately show "length (hc_queue (if hc_id x = n then x\<lparr>hc_queue := q\<rparr> else x)) \<le>
            hc_cap (if hc_id x = n then x\<lparr>hc_queue := q\<rparr> else x)"
          using Cons by auto
      qed simp
      with Receives Some Cons show ?thesis by (simp add: receive_def)
    qed
  qed
qed

lemma hub_cap_step [simp]: "hb_cap (hub_do x h) = hb_cap h"
  by (cases x) (auto simp: publish_def subscribe_def unsubscribe_def receive_def Let_def split: option.splits list.splits)

lemma ring_step: "hb_ring h = drop (length es - hb_cap h) es \<Longrightarrow>
    hb_ring (hub_do x h) = drop (length (es @ published [x]) - hb_cap h) (es @ published [x])"
  by (cases x) (auto simp: publish_def subscribe_def unsubscribe_def receive_def Let_def Suc_diff_le
      split: option.splits list.splits)

text \<open>C34: Whatever is published, subscribed, unsubscribed and received, and in whatever order: the ring is the last events published,
  as many as it has room for; no subscriber holds more than its buffer; and what a subscriber has received, followed by what waits
  for it, is a subsequence of what was published, so it sees events in order and none twice, and misses only what was dropped.\<close>

theorem hub_refines_stream:
  "hb_ring (hub_run ops (new_hub cap)) = drop (length (published ops) - hb_cap (new_hub cap)) (published ops)
   \<and> hub_ok (hub_run ops (new_hub cap))
   \<and> subseq (delivered n ops (new_hub cap) @ waiting n (hub_run ops (new_hub cap))) (published ops)"
proof (induction ops rule: rev_induct)
  case Nil
  then show ?case by (simp add: hub_run_def new_hub_def hub_ok_def waiting_def)
next
  case (snoc x ops)
  let ?h = "hub_run ops (new_hub cap)"
  have run: "hub_run (ops @ [x]) (new_hub cap) = hub_do x ?h" by (simp add: hub_run_def)
  have cap: "hb_cap ?h = hb_cap (new_hub cap)"
    unfolding hub_run_def by (induction ops rule: rev_induct) simp_all
  have "subseq (got_by n x ?h @ waiting n (hub_do x ?h)) (waiting n ?h @ published [x])"
  proof (cases x)
    case (Publishes t ev)
    then show ?thesis using waiting_publish [of n t ev ?h] by auto
  qed (simp_all add: waiting_subscribe waiting_unsubscribe waiting_receive [unfolded got_by.simps])
  then have "subseq (delivered n ops (new_hub cap) @ got_by n x ?h @ waiting n (hub_do x ?h))
      (delivered n ops (new_hub cap) @ waiting n ?h @ published [x])"
    by (simp only: subseq_append')
  then have "subseq (delivered n (ops @ [x]) (new_hub cap) @ waiting n (hub_do x ?h))
      ((delivered n ops (new_hub cap) @ waiting n ?h) @ published [x])"
    by (simp only: delivered_snoc append_assoc)
  also have "subseq ((delivered n ops (new_hub cap) @ waiting n ?h) @ published [x]) (published ops @ published [x])"
    unfolding subseq_append using snoc by blast
  finally have sub: "subseq (delivered n (ops @ [x]) (new_hub cap) @ waiting n (hub_do x ?h)) (published (ops @ [x]))"
    by (simp only: published_snoc)
  have ring: "hb_ring (hub_do x ?h) = drop (length (published (ops @ [x])) - hb_cap (new_hub cap)) (published (ops @ [x]))"
    using ring_step [of ?h "published ops" x] snoc cap by (simp only: published_snoc)
  show ?case using sub ring hub_ok_step [of ?h x] snoc by (simp only: run simp_thms)
qed

section \<open>Who sees it\<close>

lemma guarded_Shown:
  "guarded ae lib sm page r (a, s) v = Shown v' \<Longrightarrow>
     v' = v \<and> (\<exists>x a1. get_session ae lib sm r a = (Inr x, a1) \<and> is_superadmin s (se_user x))"
  by (auto simp: guarded_def console_gate_def Let_def split: prod.splits sum.splits if_splits option.splits)

lemma is_superadmin_row: "is_superadmin s user \<Longrightarrow> \<exists>u \<in> set (db_users s). us_id u = user \<and> us_status u = ''active'' \<and> us_superadmin u"
  by (auto simp: is_superadmin_def split: option.splits dest!: find_SomeD)

text \<open>The console shows its dashboard, its graph, its event stream or the audit log only to a request with a live session of a
  user who is a superadmin and active; a badge says the log is verified only when the verification succeeded.\<close>

theorem console_needs_superadmin:
  assumes "dashboard ae lib sm r (a, s) = Shown () \<or> snapshot_page ae lib sm r (a, s) = Shown g
    \<or> events_page ae lib sm r h (a, s) = (Shown es, h1) \<or> audit_page ae lib sm r (a, s) trail verified = Shown v"
  shows "(\<exists>x a1 u. get_session ae lib sm r a = (Inr x, a1) \<and> u \<in> set (db_users s) \<and> us_id u = se_user x
      \<and> us_status u = ''active'' \<and> us_superadmin u)
    \<and> (audit_page ae lib sm r (a, s) trail verified = Shown v \<longrightarrow> wv_ok v \<longrightarrow> (\<exists>res. verified = Inr res \<and> vr_ok res))"
proof
  have "\<exists>x a1. get_session ae lib sm r a = (Inr x, a1) \<and> is_superadmin s (se_user x)"
    using assms
    by (auto simp: dashboard_def snapshot_page_def events_page_def audit_page_def Let_def dest!: guarded_Shown
        split: console_answer.splits prod.splits)
  then show "\<exists>x a1 u. get_session ae lib sm r a = (Inr x, a1) \<and> u \<in> set (db_users s) \<and> us_id u = se_user x
      \<and> us_status u = ''active'' \<and> us_superadmin u"
    using is_superadmin_row by blast
  show "audit_page ae lib sm r (a, s) trail verified = Shown v \<longrightarrow> wv_ok v \<longrightarrow> (\<exists>res. verified = Inr res \<and> vr_ok res)"
    by (auto simp: audit_page_def Let_def split: console_answer.splits option.splits prod.splits sum.splits)
qed

section \<open>The graph is closed\<close>

lemma node_name_nonempty [simp]: "node_name kind i \<noteq> []"
  by (simp add: node_name_def)

lemma add_node_ids: "gn_id n \<noteq> [] \<Longrightarrow> gn_id ` set (add_node n ns) = insert (gn_id n) (gn_id ` set ns)"
  by (auto simp: add_node_def)

lemma add_node_distinct: "distinct (map gn_id ns) \<Longrightarrow> distinct (map gn_id (add_node n ns))"
  by (auto simp: add_node_def)

definition closed_graph :: "graph \<Rightarrow> bool" where
  "closed_graph g \<longleftrightarrow> distinct (map gn_id (gg_nodes g)) \<and>
     (\<forall>x \<in> set (gg_edges g). ge_from x \<in> gn_id ` set (gg_nodes g) \<and> ge_to x \<in> gn_id ` set (gg_nodes g))"

lemma closed_add_row: "closed_graph g \<Longrightarrow> closed_graph (add_row a s d g)"
  by (auto simp: closed_graph_def add_row_def Let_def add_node_ids add_node_distinct)

lemma snapshot_fold:
  "closed_graph g \<Longrightarrow> closed_graph (fold (add_row a s) ds g) \<and>
     map ge_id (gg_edges (fold (add_row a s) ds g)) = map ge_id (gg_edges g) @ map dr_id ds"
proof (induction ds arbitrary: g)
  case (Cons d ds)
  from Cons.IH [OF closed_add_row [OF Cons.prems], of a s d] show ?case by (simp add: add_row_def Let_def)
qed simp

text \<open>The snapshot's edges are exactly the delegations that are active, unexpired and of an agent that exists, parents before
  children; both ends of every edge are nodes, and no principal has two nodes.\<close>

theorem snapshot_closed:
  "closed_graph (snapshot now a s)
   \<and> map ge_id (gg_edges (snapshot now a s)) = map dr_id (snapshot_rows now s)
   \<and> set (snapshot_rows now s) = {d \<in> set (db_delegations s). live now d \<and> dr_delegatee d \<in> ag_id ` set (db_agents s)}
   \<and> sorted (map dr_depth (snapshot_rows now s))"
  using snapshot_fold [of "\<lparr>gg_nodes = [], gg_edges = []\<rparr>" a s "snapshot_rows now s"]
  by (auto simp: snapshot_def closed_graph_def snapshot_rows_def live_def)

section \<open>What the endpoint ingests\<close>

lemma ingest_event:
  assumes "ingest tok authorization body now = (code, Some ev)"
  shows "tok \<noteq> [] \<and> trim_prefix ''Bearer '' authorization = tok \<and> code = 204
    \<and> valid_event (snd ev) = list_all (\<lambda>t. length t \<le> max_field_len) (event_texts (snd ev))"
  using assms
  by (auto simp: ingest_def valid_event_def valid_types_def valid_decisions_def no_event_def Let_def
      split: if_splits option.splits)

text \<open>An event that the endpoint accepted but whose reason is long never reaches a console.\<close>

lemma long_reason_dropped:
  assumes "ingest tok authorization (Some q) now = (204, Some ev)" and "length (ir_reason q) > 512"
  shows "on_notification t (Some ev) h = h"
  using assms
  by (auto simp: ingest_def on_notification_def valid_event_def event_texts_def max_field_len_def Let_def split: if_splits)

text \<open>The pause between connections, from a second on, never reaches a minute.\<close>

lemma backoff_capped: "b \<le> 32 * nanos \<Longrightarrow> 0 < b \<Longrightarrow> (\<exists>k \<le> 5. b = 2 ^ k * nanos) \<Longrightarrow>
    snd (next_backoff reached b) \<le> 32 * nanos \<and> (\<exists>k \<le> 5. snd (next_backoff reached b) = 2 ^ k * nanos)"
proof -
  assume "\<exists>k \<le> 5. b = 2 ^ k * nanos"
  then obtain k :: nat where "k \<le> 5" "b = 2 ^ k * nanos" by blast
  then have "k \<in> {0, 1, 2, 3, 4, 5}" "b = 2 ^ k * nanos" by auto
  then consider "b = nanos" | "b = 2 * nanos" | "b = 4 * nanos" | "b = 8 * nanos" | "b = 16 * nanos" | "b = 32 * nanos" by auto
  moreover have "2 ^ 1 = (2 :: int)" "2 ^ 2 = (4 :: int)" "2 ^ 3 = (8 :: int)" "2 ^ 4 = (16 :: int)" "2 ^ 5 = (32 :: int)" by simp_all
  ultimately have "snd (next_backoff reached b) \<in> {2 * nanos, 4 * nanos, 8 * nanos, 16 * nanos, 32 * nanos}"
    by cases (auto simp: next_backoff_def Let_def nanos_def)
  then have "snd (next_backoff reached b) \<in> {2 ^ 1 * nanos, 2 ^ 2 * nanos, 2 ^ 3 * nanos, 2 ^ 4 * nanos, 2 ^ 5 * nanos}" by simp
  then have "\<exists>j \<in> {1, 2, 3, 4, 5 :: nat}. snd (next_backoff reached b) = 2 ^ j * nanos" by blast
  then obtain j :: nat where "j \<in> {1, 2, 3, 4, 5}" and j: "snd (next_backoff reached b) = 2 ^ j * nanos" by blast
  then have "j \<le> 5" by auto
  then have "(2 :: int) ^ j \<le> 2 ^ 5" by (intro power_increasing) simp_all
  with j \<open>j \<le> 5\<close> show ?thesis by (auto simp: nanos_def)
qed

section \<open>A run\<close>

theorem console_needs_superadmin_witness:
  "dashboard (demo_account_env 5 []) demo_secrets demo_manager demo_click
       (demo_accounts [], empty_db\<lparr>db_users := [\<lparr>us_id = ''u1'', us_superadmin = True, us_status = ''active''\<rparr>]\<rparr>) = Shown ()
   \<and> (\<exists>x a1. get_session (demo_account_env 5 []) demo_secrets demo_manager demo_click (demo_accounts []) = (Inr x, a1)
        \<and> se_user x = ''u1'')"
proof -
  let ?s = "empty_db\<lparr>db_users := [\<lparr>us_id = ''u1'', us_superadmin = True, us_status = ''active''\<rparr>]\<rparr>"
  obtain a1 where g: "get_session (demo_account_env 5 []) demo_secrets demo_manager demo_click (demo_accounts []) = (Inr demo_session, a1)"
    using demo_click_session by blast
  have d: "dashboard (demo_account_env 5 []) demo_secrets demo_manager demo_click (demo_accounts [], ?s) = Shown ()"
    by (simp add: dashboard_def guarded_def console_gate_def g demo_session_user is_superadmin_def)
  from console_needs_superadmin [of "demo_account_env 5 []" demo_secrets demo_manager demo_click "demo_accounts []" ?s
      undefined undefined undefined undefined undefined undefined undefined] d
  have "\<exists>x a1 u. get_session (demo_account_env 5 []) demo_secrets demo_manager demo_click (demo_accounts []) = (Inr x, a1)
      \<and> u \<in> set (db_users ?s) \<and> us_id u = se_user x" by blast
  with d show ?thesis by auto
qed

end
