(* ===== verification/Scim.thy ===== *)
theory Scim
  imports Accounts
begin

text \<open>
  Directory synchronization (\<open>internal/scim/handler.go\<close>): the SCIM users, which are the accounts of theory \<open>Accounts\<close> under other
  names. A request's body is decoded, or \<^const>\<open>None\<close> when it is not JSON of the right shape.

  The handlers read \<open>TIMESTAMPTZ\<close> columns into strings. What the database driver makes of that is the parameter
  \<open>text_of\<close>: the text of an instant, or \<^const>\<open>None\<close> when it refuses, which fails the whole row after its statement has run.
\<close>

section \<open>Users\<close>

record scim_user =
  su_id :: string
  su_name :: string
  su_formatted :: string
  su_email :: string
  su_active :: bool
  su_created :: string
  su_modified :: string
  su_location :: string

record scim_input =
  si_user_name :: string
  si_emails :: "string list"
  si_formatted :: "string option"
  si_active :: bool

datatype 'a scim_answer = Answer nat 'a | ScimError nat

definition to_scim :: "string \<Rightarrow> string \<Rightarrow> string \<Rightarrow> string \<Rightarrow> string \<Rightarrow> string \<Rightarrow> scim_user" where
  "to_scim uid email name status created updated =
     \<lparr>su_id = uid, su_name = email, su_formatted = name, su_email = email, su_active = (status = ''active''),
      su_created = created, su_modified = updated, su_location = ''/scim/v2/Users/'' @ uid\<rparr>"

text \<open>A row as the handlers read it.\<close>

definition scan_user :: "(instant \<Rightarrow> string option) \<Rightarrow> account_row \<Rightarrow> scim_user option" where
  "scan_user text_of u =
     (case (text_of (ac_created u), text_of (ac_updated u)) of
        (Some c, Some m) \<Rightarrow> Some (to_scim (ac_id u) (ac_email u) (ac_name u) (ac_status u) c m)
      | _ \<Rightarrow> None)"

definition input_email :: "scim_input \<Rightarrow> string" where
  "input_email q = (case si_emails q of [] \<Rightarrow> si_user_name q | v # _ \<Rightarrow> v)"

section \<open>The operations\<close>

definition start_index :: "int \<Rightarrow> int" where
  "start_index n = (if n < 1 then 1 else n)"

definition page_size :: "int \<Rightarrow> int" where
  "page_size n = (if n \<le> 0 \<or> n > 100 then 100 else n)"

record scim_page =
  sp_total :: nat
  sp_start :: int
  sp_size :: int
  sp_users :: "scim_user list"

text \<open>A row that does not scan is left out.\<close>

definition scim_list :: "account_env \<Rightarrow> (instant \<Rightarrow> string option) \<Rightarrow> int \<Rightarrow> int \<Rightarrow> account_db \<Rightarrow> scim_page scim_answer" where
  "scim_list e text_of start wanted s =
     (let n = start_index start; k = page_size wanted;
          rows = filter (\<lambda>u. ac_status u \<noteq> ''deleted'') (ad_users s)
      in if \<not> av_answers e ListUsers then ScimError 500
         else Answer 200 \<lparr>sp_total = (if av_answers e CountUsers then length rows else 0), sp_start = n, sp_size = k,
                sp_users = List.map_filter (scan_user text_of) (take (nat k) (drop (nat (n - 1)) (sort_key (\<lambda>u. - ac_created u) rows)))\<rparr>)"

definition scim_get :: "account_env \<Rightarrow> (instant \<Rightarrow> string option) \<Rightarrow> string \<Rightarrow> account_db \<Rightarrow> scim_user scim_answer" where
  "scim_get e text_of uid s =
     (if \<not> av_uuid_ok e uid then ScimError 400
      else if \<not> av_answers e GetUser then ScimError 500
      else case find (\<lambda>u. ac_id u = uid) (ad_users s) of
             None \<Rightarrow> ScimError 404
           | Some u \<Rightarrow> (case scan_user text_of u of None \<Rightarrow> ScimError 500 | Some x \<Rightarrow> Answer 200 x))"

definition scim_create ::
    "account_env \<Rightarrow> (instant \<Rightarrow> string option) \<Rightarrow> scim_input option \<Rightarrow> account_db \<Rightarrow> scim_user scim_answer \<times> account_db" where
  "scim_create e text_of body s =
     (case body of
        None \<Rightarrow> (ScimError 400, s)
      | Some q \<Rightarrow>
          (case insert_user e (input_email q) (given (si_formatted q) []) ''{}'' s of
             Inl _ \<Rightarrow> (ScimError 409, s)
           | Inr (u, t) \<Rightarrow> (case scan_user text_of u of None \<Rightarrow> ScimError 409 | Some x \<Rightarrow> Answer 201 x, t)))"

text \<open>An update of one row by its id; the address must stay unique.\<close>

definition update_row :: "string \<Rightarrow> (account_row \<Rightarrow> account_row) \<Rightarrow> account_env \<Rightarrow> account_db \<Rightarrow> account_db option" where
  "update_row uid f e s =
     (if \<not> av_answers e UpdateUser \<or> \<not> av_uuid_ok e uid
         \<or> (\<exists>u \<in> set (ad_users s). ac_id u = uid \<and> (\<exists>v \<in> set (ad_users s). ac_id v \<noteq> uid \<and> ac_email v = ac_email (f u)))
      then None else Some (change_user uid (\<lambda>u. (f u)\<lparr>ac_updated := av_now e\<rparr>) s))"

definition status_of :: "bool \<Rightarrow> string" where
  "status_of active = (if active then ''active'' else ''suspended'')"

definition scim_replace ::
    "account_env \<Rightarrow> (instant \<Rightarrow> string option) \<Rightarrow> string \<Rightarrow> scim_input option \<Rightarrow> account_db \<Rightarrow> scim_user scim_answer \<times> account_db" where
  "scim_replace e text_of uid body s =
     (case body of
        None \<Rightarrow> (ScimError 400, s)
      | Some q \<Rightarrow>
          (case update_row uid (\<lambda>u. u\<lparr>ac_email := input_email q, ac_name := given (si_formatted q) [],
                   ac_status := status_of (si_active q)\<rparr>) e s of
             None \<Rightarrow> (ScimError 404, s)
           | Some t \<Rightarrow>
               (case find (\<lambda>u. ac_id u = uid) (ad_users t) of
                  None \<Rightarrow> (ScimError 404, t)
                | Some u \<Rightarrow> (case scan_user text_of u of None \<Rightarrow> ScimError 404 | Some x \<Rightarrow> Answer 200 x, t))))"

datatype patch_value = PatchBool bool | PatchText string | PatchOther

record patch_operation =
  pa_op :: string
  pa_path :: string
  pa_value :: patch_value

text \<open>One operation. A statement that fails changes nothing and is not noticed; \<open>op\<close> is never read.\<close>

definition patch_one :: "account_env \<Rightarrow> string \<Rightarrow> patch_operation \<Rightarrow> account_db \<Rightarrow> account_db" where
  "patch_one e uid p s =
     (let set_it = (\<lambda>f. case update_row uid f e s of None \<Rightarrow> s | Some t \<Rightarrow> t)
      in if pa_path p = ''active''
         then (case pa_value p of PatchBool b \<Rightarrow> set_it (\<lambda>u. u\<lparr>ac_status := status_of b\<rparr>) | _ \<Rightarrow> s)
         else if pa_path p = ''userName''
         then (case pa_value p of PatchText v \<Rightarrow> set_it (\<lambda>u. u\<lparr>ac_email := v\<rparr>) | _ \<Rightarrow> s)
         else if pa_path p = ''displayName'' \<or> pa_path p = ''name.formatted''
         then (case pa_value p of PatchText v \<Rightarrow> set_it (\<lambda>u. u\<lparr>ac_name := v\<rparr>) | _ \<Rightarrow> s)
         else s)"

definition scim_patch ::
    "account_env \<Rightarrow> (instant \<Rightarrow> string option) \<Rightarrow> string \<Rightarrow> patch_operation list option \<Rightarrow> account_db \<Rightarrow> scim_user scim_answer \<times> account_db" where
  "scim_patch e text_of uid body s =
     (case body of
        None \<Rightarrow> (ScimError 400, s)
      | Some ps \<Rightarrow> (let t = fold (patch_one e uid) ps s in (scim_get e text_of uid t, t)))"

definition scim_delete :: "account_env \<Rightarrow> string \<Rightarrow> account_db \<Rightarrow> unit scim_answer \<times> account_db" where
  "scim_delete e uid s =
     (case update_row uid (\<lambda>u. u\<lparr>ac_status := ''deleted''\<rparr>) e s of None \<Rightarrow> (ScimError 500, s) | Some t \<Rightarrow> (Answer 204 (), t))"

section \<open>A deprovisioned user\<close>

text \<open>The requests of a directory.\<close>

datatype scim_request =
    ScimCreate "scim_input option"
  | ScimReplace string "scim_input option"
  | ScimPatch string "patch_operation list option"
  | ScimDelete string

fun scim_serve :: "account_env \<Rightarrow> (instant \<Rightarrow> string option) \<Rightarrow> scim_request \<Rightarrow> account_db \<Rightarrow> account_db" where
  "scim_serve e f (ScimCreate b) s = snd (scim_create e f b s)"
| "scim_serve e f (ScimReplace uid b) s = snd (scim_replace e f uid b s)"
| "scim_serve e f (ScimPatch uid b) s = snd (scim_patch e f uid b s)"
| "scim_serve e f (ScimDelete uid) s = snd (scim_delete e uid s)"

definition known_status :: "string \<Rightarrow> bool" where
  "known_status st \<longleftrightarrow> st \<in> {''active'', ''suspended'', ''deleted''}"

lemma known_statuses [simp]: "known_status (status_of b)" "known_status ''active''" "known_status ''deleted''"
  by (simp_all add: known_status_def status_of_def)

definition users_inv :: "account_db \<Rightarrow> bool" where
  "users_inv s \<longleftrightarrow> distinct (map ac_id (ad_users s)) \<and> distinct (map ac_email (ad_users s))
     \<and> (\<forall>u \<in> set (ad_users s). known_status (ac_status u))"

lemma changed_ids: "(\<And>u. ac_id (f u) = ac_id u) \<Longrightarrow>
    map ac_id (ad_users (change_user uid f s)) = map ac_id (ad_users s)"
  by (simp add: change_user_def comp_def if_distrib [of ac_id] cong: if_cong)

lemma distinct_change:
  assumes "distinct (map ac_id us)" and "distinct (map ac_email us)" and "\<And>u. ac_id (f u) = ac_id u"
    and "\<And>u v. u \<in> set us \<Longrightarrow> v \<in> set us \<Longrightarrow> ac_id u = uid \<Longrightarrow> ac_id v \<noteq> uid \<Longrightarrow> ac_email v \<noteq> ac_email (f u)"
  shows "distinct (map ac_email (map (\<lambda>u. if ac_id u = uid then f u else u) us))"
proof -
  have "inj_on (\<lambda>u. ac_email (if ac_id u = uid then f u else u)) (set us)"
  proof (rule inj_onI)
    fix u v assume uv: "u \<in> set us" "v \<in> set us"
      and eq: "ac_email (if ac_id u = uid then f u else u) = ac_email (if ac_id v = uid then f v else v)"
    have ids: "ac_id u = ac_id v \<Longrightarrow> u = v" and mails: "ac_email u = ac_email v \<Longrightarrow> u = v"
      using assms(1,2) uv by (auto simp: distinct_map dest: inj_onD)
    show "u = v"
    proof (cases "ac_id u = uid \<longleftrightarrow> ac_id v = uid")
      case True
      with ids mails eq show ?thesis by (cases "ac_id u = uid") auto
    next
      case False
      with eq uv assms(4) [of u v] assms(4) [of v u] show ?thesis by (cases "ac_id u = uid") auto
    qed
  qed
  with assms(1) show ?thesis by (simp add: distinct_map inj_on_def comp_def)
qed

lemma users_inv_update:
  assumes "users_inv s" and "update_row uid f e s = Some t" and "\<And>u. ac_id (f u) = ac_id u"
    and "\<And>u. known_status (ac_status u) \<Longrightarrow> known_status (ac_status (f u))"
  shows "users_inv t"
proof -
  let ?g = "\<lambda>u. (f u)\<lparr>ac_updated := av_now e\<rparr>"
  from assms(2) have t: "t = change_user uid ?g s"
    and free: "\<And>u v. u \<in> set (ad_users s) \<Longrightarrow> v \<in> set (ad_users s) \<Longrightarrow> ac_id u = uid \<Longrightarrow> ac_id v \<noteq> uid \<Longrightarrow> ac_email v \<noteq> ac_email (f u)"
    by (auto simp: update_row_def split: if_splits)
  have "distinct (map ac_email (map (\<lambda>u. if ac_id u = uid then ?g u else u) (ad_users s)))"
    by (rule distinct_change) (use assms(1,3) free in \<open>auto simp: users_inv_def\<close>)
  then have "distinct (map ac_email (ad_users t))" by (simp add: t change_user_def)
  moreover have "distinct (map ac_id (ad_users t))"
    unfolding t using changed_ids [of ?g uid s] assms(1,3) by (simp add: users_inv_def)
  moreover have "\<forall>u \<in> set (ad_users t). known_status (ac_status u)"
    using assms(1,4) by (auto simp: t change_user_def users_inv_def)
  ultimately show ?thesis by (simp add: users_inv_def)
qed

lemma users_inv_patch: "users_inv s \<Longrightarrow> users_inv (patch_one e uid p s)"
  by (auto simp: patch_one_def Let_def split: patch_value.splits option.splits
      intro: users_inv_update [rotated])

lemma users_inv_patches: "users_inv s \<Longrightarrow> users_inv (fold (patch_one e uid) ps s)"
  by (induction ps arbitrary: s) (simp_all add: users_inv_patch)

lemma users_inv_create: "users_inv s \<Longrightarrow> users_inv (snd (scim_create e f b s))"
  by (auto simp: scim_create_def insert_user_def users_inv_def user_ids_def Let_def
      split: option.splits sum.splits if_splits)

lemma users_inv_replace: "users_inv s \<Longrightarrow> users_inv (snd (scim_replace e f uid b s))"
  by (auto simp: scim_replace_def split: option.splits intro: users_inv_update [rotated])

lemma users_inv_delete: "users_inv s \<Longrightarrow> users_inv (snd (scim_delete e uid s))"
  by (auto simp: scim_delete_def split: option.splits intro: users_inv_update [rotated])

lemma users_inv_serve: "users_inv s \<Longrightarrow> users_inv (scim_serve e f q s)"
  by (cases q) (auto simp: users_inv_create users_inv_replace users_inv_delete scim_patch_def Let_def users_inv_patches
      split: option.splits)

text \<open>What directory synchronization leaves alone.\<close>

lemma patch_one_frame: "ad_sessions (patch_one e uid p s) = ad_sessions s \<and> ad_credentials (patch_one e uid p s) = ad_credentials s"
  by (auto simp: patch_one_def update_row_def change_user_def Let_def split: patch_value.splits option.splits)

lemma patches_frame: "ad_sessions (fold (patch_one e uid) ps s) = ad_sessions s"
  by (induction ps arbitrary: s) (simp_all add: patch_one_frame)

lemma scim_leaves_sessions: "ad_sessions (scim_serve e f q s) = ad_sessions s"
  by (cases q) (auto simp: scim_create_def scim_replace_def scim_delete_def scim_patch_def patches_frame insert_user_def
      update_row_def change_user_def Let_def split: option.splits sum.splits if_splits)

definition locked :: "string \<Rightarrow> account_db \<Rightarrow> bool" where
  "locked uid s \<longleftrightarrow> (\<forall>u \<in> set (ad_users s). ac_id u = uid \<longrightarrow> ac_status u \<noteq> ''active'')"

lemma locked_out: "locked uid s \<Longrightarrow> fst (authenticate_user e lib email password s) \<noteq> Inr uid"
  by (auto simp: locked_def authenticate_user_def check_password_def step_Inr_iff dest!: find_SomeD
      split: sum.splits if_splits)

lemma update_row_Some: "update_row uid f e s = Some t \<Longrightarrow> t = change_user uid (\<lambda>u. (f u)\<lparr>ac_updated := av_now e\<rparr>) s"
  by (simp add: update_row_def split: if_splits)

lemma locked_change: "(\<And>u. ac_status (f u) \<noteq> ''active'') \<Longrightarrow> locked uid (change_user uid f s)"
  by (auto simp: locked_def change_user_def)

lemma status_inactive: "status_of False \<noteq> ''active''"
  by (simp add: status_of_def)

lemma find_last: "(\<And>x. x \<in> set xs \<Longrightarrow> \<not> P x) \<Longrightarrow> P u \<Longrightarrow> find P (xs @ [u]) = Some u"
  by (induction xs) auto

lemma inactive_locked:
  assumes "users_inv s" and "scim_get e f uid s = Answer 200 x" and "\<not> su_active x"
  shows "locked uid s"
proof -
  from assms(2,3) obtain u where u: "u \<in> set (ad_users s)" "ac_id u = uid" "ac_status u \<noteq> ''active''"
    by (auto simp: scim_get_def scan_user_def to_scim_def split: if_splits option.splits dest!: find_SomeD)
  have "inj_on ac_id (set (ad_users s))" using assms(1) by (simp add: users_inv_def distinct_map)
  with u show ?thesis by (auto simp: locked_def dest: inj_onD)
qed

text \<open>A user whom the directory deletes, replaces as inactive, or patches so that the answer says inactive, can no longer log in
  with any address and any password.\<close>

theorem deprovisioned_user_locked_out:
  assumes "users_inv s"
    and "scim_delete e uid s = (Answer 204 (), t) \<or> scim_replace e f uid (Some q) s = (Answer 200 x, t) \<and> si_active q = False
      \<or> scim_patch e f uid (Some ps) s = (Answer 200 x, t) \<and> su_active x = False"
  shows "fst (authenticate_user e' lib email password t) \<noteq> Inr uid"
proof -
  from assms(2) consider (del) "scim_delete e uid s = (Answer 204 (), t)"
    | (put) "scim_replace e f uid (Some q) s = (Answer 200 x, t)" "si_active q = False"
    | (patch) "scim_patch e f uid (Some ps) s = (Answer 200 x, t)" "su_active x = False" by blast
  then have "locked uid t"
  proof cases
    case del
    then have "update_row uid (\<lambda>u. u\<lparr>ac_status := ''deleted''\<rparr>) e s = Some t"
      by (simp add: scim_delete_def split: option.splits)
    from update_row_Some [OF this] show ?thesis by (auto intro: locked_change)
  next
    case put
    then have "update_row uid (\<lambda>u. u\<lparr>ac_email := input_email q, ac_name := given (si_formatted q) [], ac_status := status_of False\<rparr>) e s = Some t"
      by (simp add: scim_replace_def split: option.splits)
    from update_row_Some [OF this] show ?thesis using status_inactive by (auto intro: locked_change)
  next
    case patch
    then have "users_inv t" and "scim_get e f uid t = Answer 200 x"
      using users_inv_patches [OF assms(1)] by (auto simp: scim_patch_def Let_def)
    with patch(2) show ?thesis by (intro inactive_locked) simp_all
  qed
  then show ?thesis by (rule locked_out)
qed

text \<open>What was created reads back.\<close>

lemma created_user_reads_back:
  assumes "scim_create e f (Some q) s = (Answer 201 x, t)" and "av_uuid_ok e' (su_id x)" and "av_answers e' GetUser"
  shows "scim_get e' f (su_id x) t = Answer 200 x \<and> su_name x = input_email q \<and> su_active x"
proof -
  from assms(1) obtain u where u: "insert_user e (input_email q) (given (si_formatted q) []) ''{}'' s = Inr (u, t)"
    and x: "scan_user f u = Some x"
    by (auto simp: scim_create_def split: sum.splits option.splits)
  from u have fields: "t = s\<lparr>ad_users := ad_users s @ [u]\<rparr>" "ac_id u \<notin> user_ids s" "ac_email u = input_email q" "ac_status u = ''active''"
    by (auto simp: insert_user_def Let_def split: if_splits)
  from x have ids: "su_id x = ac_id u" "su_name x = ac_email u" "su_active x = (ac_status u = ''active'')"
    by (auto simp: scan_user_def to_scim_def split: option.splits)
  have "find (\<lambda>v. ac_id v = ac_id u) (ad_users s @ [u]) = Some u"
    using fields(2) by (intro find_last) (auto simp: user_ids_def image_iff)
  with assms(2,3) x fields ids show ?thesis by (simp add: scim_get_def)
qed

text \<open>Operations that name no path change nothing, whatever their value.\<close>

lemma pathless_patch_ignored: "pa_path p = [] \<Longrightarrow> patch_one e uid p s = s"
  by (simp add: patch_one_def)

lemma changed_row:
  "u \<in> set (ad_users (change_user uid f s)) \<Longrightarrow> ac_id u = uid \<Longrightarrow> (\<And>v. ac_id (f v) = ac_id v) \<Longrightarrow> \<exists>v. u = f v"
  by (auto simp: change_user_def split: if_splits)

text \<open>A deleted user comes back when the directory replaces him as active.\<close>

lemma deleted_user_replaced:
  assumes "scim_replace e f uid (Some q) s = (Answer 200 x, t)" and "si_active q" and "u \<in> set (ad_users t)" and "ac_id u = uid"
  shows "ac_status u = ''active''"
proof -
  have "update_row uid (\<lambda>u. u\<lparr>ac_email := input_email q, ac_name := given (si_formatted q) [], ac_status := status_of True\<rparr>) e s = Some t"
    using assms(1,2) by (simp add: scim_replace_def split: option.splits)
  from changed_row [OF assms(3) [unfolded update_row_Some [OF this]] assms(4)] show ?thesis by (auto simp: status_of_def)
qed

text \<open>With a driver that refuses to read an instant into a string, a user is created and the directory is told it already exists.\<close>

lemma created_but_refused:
  assumes "\<And>i. text_of i = None" and "insert_user e (input_email q) (given (si_formatted q) []) ''{}'' s = Inr (u, t)"
  shows "scim_create e text_of (Some q) s = (ScimError 409, t) \<and> u \<in> set (ad_users t)"
  using assms by (auto simp: scim_create_def scan_user_def insert_user_def Let_def split: if_splits)

section \<open>A run\<close>

theorem deprovisioned_user_locked_out_witness:
  "\<exists>t. scim_delete (demo_account_env 5 []) ''u1'' (demo_accounts []) = (Answer 204 (), t)
     \<and> fst (authenticate_user (demo_account_env 6 []) demo_secrets ''a@x'' ''password'' t) \<noteq> Inr ''u1''"
proof -
  obtain t where t: "scim_delete (demo_account_env 5 []) ''u1'' (demo_accounts []) = (Answer 204 (), t)"
    by (simp add: scim_delete_def update_row_def demo_account_env_def demo_accounts_def)
  have "users_inv (demo_accounts [])" by (simp add: users_inv_def demo_accounts_def demo_account_def)
  from deprovisioned_user_locked_out [OF this disjI1 [OF t], where e' = "demo_account_env 6 []" and lib = demo_secrets
      and email = "''a@x''" and password = "''password''"] t
  show ?thesis by blast
qed

end
