(* ===== verification/GuardInstall.thy ===== *)
theory GuardInstall
  imports GuardLocal
begin

text \<open>
  Putting the guard in place (\<open>internal/ccguard/install.go\<close>): the hook command and the settings files of the coding agents it
  is merged into and removed from, the guard directory it sets up, and what is left after installing and after removing.

  A settings file is its JSON tree. \<open>encoding/json\<close> turns a number into a double and prints it again; that is the
  parameter \<open>num\<close>, \<^const>\<open>None\<close> for a number out of range. Paths and commands are valid UTF-8, as JSON strings are.
\<close>

section \<open>The command of the hook\<close>

definition shell_escape :: "char \<Rightarrow> string" where
  "shell_escape c = (if c \<in> {CHR 0x5C, CHR 0x22, CHR 0x60, CHR 0x24} then [CHR 0x5C, c] else [c])"

definition shell_quote :: "string \<Rightarrow> string" where
  "shell_quote s = [CHR 0x22] @ concat (map shell_escape s) @ [CHR 0x22]"

definition sorted_keys :: "(string \<times> string) list \<Rightarrow> string list" where
  "sorted_keys env = sort (map fst env)"

definition inline_env_command :: "(string \<times> string) list \<Rightarrow> string \<Rightarrow> string" where
  "inline_env_command env binary =
     ''env'' @ concat (map (\<lambda>k. '' '' @ k @ ''='' @ shell_quote (the (map_of env k))) (sorted_keys env))
       @ '' '' @ shell_quote binary @ '' guard check''"

definition overlay_path :: "string \<Rightarrow> string" where
  "overlay_path d = join_path [d, ''overlay.json'']"

definition guard_env :: "string \<Rightarrow> string \<Rightarrow> (string \<times> string) list" where
  "guard_env d token_file =
     [(''LEGANT_GUARD_TOKEN_FILE'', token_file),
      (''LEGANT_GUARD_JWKS'', join_path [d, ''jwks.json'']),
      (''LEGANT_GUARD_FEED'', join_path [d, ''feed.jwt'']),
      (''LEGANT_GUARD_AUDIT'', join_path [d, ''audit.jsonl'']),
      (''LEGANT_GUARD_OVERLAY'', overlay_path d),
      (''LEGANT_GUARD_ISSUER'', default_issuer),
      (''LEGANT_GUARD_AUDIENCE'', default_audience)]"

lemma guard_env_order:
  "sorted_keys (guard_env d tf) = [''LEGANT_GUARD_AUDIENCE'', ''LEGANT_GUARD_AUDIT'', ''LEGANT_GUARD_FEED'', ''LEGANT_GUARD_ISSUER'',
     ''LEGANT_GUARD_JWKS'', ''LEGANT_GUARD_OVERLAY'', ''LEGANT_GUARD_TOKEN_FILE'']"
  by (simp add: sorted_keys_def guard_env_def)

section \<open>Settings files\<close>

text \<open>A \<open>map[string]any\<close>: the members sorted by their key, the last of equal keys; so \<open>Marshal\<close> writes one.\<close>

definition canon :: "(string \<times> json) list \<Rightarrow> (string \<times> json) list" where
  "canon m = map (\<lambda>k. (k, the (map_of (rev m) k))) (sort (remdups (map fst m)))"

definition put :: "string \<Rightarrow> json \<Rightarrow> (string \<times> json) list \<Rightarrow> (string \<times> json) list" where
  "put k v m = canon (m @ [(k, v)])"

definition delete_key :: "string \<Rightarrow> (string \<times> json) list \<Rightarrow> (string \<times> json) list" where
  "delete_key k m = filter (\<lambda>(k', v). k' \<noteq> k) m"

fun go_value :: "(string \<Rightarrow> string option) \<Rightarrow> json \<Rightarrow> json option" where
  "go_value num (JNum s) = map_option JNum (num s)"
| "go_value num (JArr vs) = map_option JArr (those (map (go_value num) vs))"
| "go_value num (JObj kvs) = map_option (\<lambda>m. JObj (canon m)) (those (map (\<lambda>(k, v). map_option (Pair k) (go_value num v)) kvs))"
| "go_value num v = Some v"

datatype content = Missing | NoAccess | Garbage | Doc json | Plugin "(string \<times> string) list" string

text \<open>
  What \<open>json.Unmarshal(b, &root)\<close> leaves in \<open>root\<close>: an error, the nil map for \<open>null\<close>, or a map. A garbled file and the
  plugin's TypeScript are not JSON.
\<close>

datatype root_map = RootError | RootNil | RootMap "(string \<times> json) list"

definition parse_root :: "(string \<Rightarrow> string option) \<Rightarrow> content \<Rightarrow> root_map" where
  "parse_root num c =
     (case c of
        Doc j \<Rightarrow> (case go_value num j of Some (JObj m) \<Rightarrow> RootMap m | Some JNull \<Rightarrow> RootNil | _ \<Rightarrow> RootError)
      | _ \<Rightarrow> RootError)"

text \<open>The assertions \<open>v, _ := x.(T)\<close>: a value of another type, or none, is the nil map or the nil slice.\<close>

definition as_map :: "json option \<Rightarrow> (string \<times> json) list" where
  "as_map v = (case v of Some (JObj m) \<Rightarrow> m | _ \<Rightarrow> [])"

definition as_list :: "json option \<Rightarrow> json list" where
  "as_list v = (case v of Some (JArr vs) \<Rightarrow> vs | _ \<Rightarrow> [])"

definition as_string :: "json option \<Rightarrow> string" where
  "as_string v = (case v of Some (JStr s) \<Rightarrow> s | _ \<Rightarrow> [])"

fun occurs :: "string \<Rightarrow> string \<Rightarrow> bool" where
  "occurs p [] = (p = [])"
| "occurs p (c # cs) = (has_prefix p (c # cs) \<or> occurs p cs)"

definition block_has_legant :: "json \<Rightarrow> bool" where
  "block_has_legant item =
     list_ex (\<lambda>h. let c = as_string (map_of (as_map (Some h)) ''command'') in occurs ''guard check'' c \<and> occurs ''LEGANT_GUARD'' c)
       (as_list (map_of (as_map (Some item)) ''hooks''))"

definition legant_block :: "string \<Rightarrow> string \<Rightarrow> json" where
  "legant_block matcher cmd =
     JObj [(''hooks'', JArr [JObj [(''command'', JStr cmd), (''type'', JStr ''command'')]]), (''matcher'', JStr matcher)]"

definition hooks_of :: "(string \<times> json) list \<Rightarrow> (string \<times> json) list" where
  "hooks_of root_obj = as_map (map_of root_obj ''hooks'')"

definition pre_tool_use :: "(string \<times> json) list \<Rightarrow> json list" where
  "pre_tool_use root_obj = as_list (map_of (hooks_of root_obj) ''PreToolUse'')"

definition foreign :: "json list \<Rightarrow> json list" where
  "foreign blocks = filter (\<lambda>b. \<not> block_has_legant b) blocks"

text \<open>
  \<open>mergePreToolUse\<close> up to the write. Any failure to read counts as an empty file. Assigning to the nil map panics.
\<close>

datatype merge_result = Merged json | NotJson | Panics

definition merge_pre_tool_use :: "(string \<Rightarrow> string option) \<Rightarrow> string \<Rightarrow> string \<Rightarrow> content \<Rightarrow> merge_result" where
  "merge_pre_tool_use num matcher cmd c =
     (case (if c = Missing \<or> c = NoAccess then RootMap [] else parse_root num c) of
        RootError \<Rightarrow> NotJson
      | RootNil \<Rightarrow> Panics
      | RootMap m \<Rightarrow>
          Merged (JObj (put ''hooks''
            (JObj (put ''PreToolUse'' (JArr (foreign (pre_tool_use m) @ [legant_block matcher cmd])) (hooks_of m))) m)))"

text \<open>\<open>removeLegantBlock\<close> up to the write: the new document when there was something to remove.\<close>

definition strip_legant :: "(string \<Rightarrow> string option) \<Rightarrow> content \<Rightarrow> json option" where
  "strip_legant num c =
     (case parse_root num c of
        RootMap m \<Rightarrow>
          (if \<not> list_ex block_has_legant (pre_tool_use m) then None
           else let kept = foreign (pre_tool_use m)
                in Some (JObj (put ''hooks''
                     (JObj (if kept = [] then delete_key ''PreToolUse'' (hooks_of m) else put ''PreToolUse'' (JArr kept) (hooks_of m))) m)))
      | _ \<Rightarrow> None)"

section \<open>Maps in order\<close>

definition ordered :: "(string \<times> json) list \<Rightarrow> bool" where
  "ordered m \<longleftrightarrow> sorted (map fst m) \<and> distinct (map fst m)"

lemma keys_canon: "map fst (canon m) = sort (remdups (map fst m))"
  by (simp add: canon_def comp_def)

lemma ordered_canon [simp]: "ordered (canon m)"
  by (simp add: ordered_def keys_canon)

lemma map_of_pairs: "map_of (map (\<lambda>k. (k, f k)) ks) k = (if k \<in> set ks then Some (f k) else None)"
  by (induction ks) auto

lemma map_of_canon [simp]: "map_of (canon m) k = map_of (rev m) k"
proof (cases "k \<in> set (map fst m)")
  case True
  then obtain v where "map_of (rev m) k = Some v" using map_of_eq_None_iff [of "rev m" k] by (cases "map_of (rev m) k") auto
  with True show ?thesis by (simp add: canon_def map_of_pairs)
next
  case False
  then have "map_of (rev m) k = None" by (simp add: map_of_eq_None_iff)
  with False show ?thesis by (simp add: canon_def map_of_pairs)
qed

lemma ordered_eqI:
  assumes "ordered m" "ordered n" "\<And>k. map_of m k = map_of n k"
  shows "m = n"
proof -
  have "set (map fst m) = set (map fst n)" using assms(3) map_of_eq_None_iff by (metis subsetI subset_antisym set_map)
  then have keys: "map fst m = map fst n"
    using assms(1,2) sorted_distinct_set_unique [of "map fst m" "map fst n"] by (simp add: ordered_def)
  have row: "map (\<lambda>k. (k, the (map_of l k))) (map fst l) = l" if "distinct (map fst l)" for l :: "(string \<times> json) list"
    using that by (auto simp: comp_def intro!: map_idI)
  show ?thesis using row [of m] row [of n] keys assms by (simp add: ordered_def)
qed

lemma map_of_rev_unique: "distinct (map fst m) \<Longrightarrow> map_of (rev m) k = map_of m k"
proof (induction m)
  case (Cons kv m)
  then show ?case by (cases kv) (auto simp: map_add_def split: option.splits dest: map_of_SomeD intro: rev_image_eqI)
qed simp

lemma map_of_rev_ordered: "ordered m \<Longrightarrow> map_of (rev m) k = map_of m k"
  by (simp add: ordered_def map_of_rev_unique)

lemma canon_ordered: "ordered m \<Longrightarrow> canon m = m"
  by (rule ordered_eqI) (auto simp: map_of_rev_ordered)

lemma ordered_put [simp]: "ordered (put k v m)"
  by (simp add: put_def)

lemma map_of_put [simp]: "ordered m \<Longrightarrow> map_of (put k v m) k' = (if k' = k then Some v else map_of m k')"
  by (simp add: put_def map_of_rev_ordered)

lemma put_put: "ordered m \<Longrightarrow> put k v (put k w m) = put k v m"
  by (rule ordered_eqI) auto

lemma put_same: "ordered m \<Longrightarrow> map_of m k = Some v \<Longrightarrow> put k v m = m"
  by (rule ordered_eqI) auto

lemma ordered_delete [simp]: "ordered m \<Longrightarrow> ordered (delete_key k m)"
  by (auto simp: ordered_def delete_key_def sorted_filter distinct_map_filter)

lemma map_of_delete: "map_of (delete_key k m) k' = (if k' = k then None else map_of m k')"
  by (induction m) (auto simp: delete_key_def)

lemma put_delete: "ordered m \<Longrightarrow> put k v (delete_key k m) = put k v m"
  by (rule ordered_eqI) (auto simp: map_of_delete)

section \<open>Values read once\<close>

definition idempotent :: "(string \<Rightarrow> string option) \<Rightarrow> bool" where
  "idempotent num \<longleftrightarrow> (\<forall>a b. num a = Some b \<longrightarrow> num b = Some b)"

definition stable :: "(string \<Rightarrow> string option) \<Rightarrow> json \<Rightarrow> bool" where
  "stable num v \<longleftrightarrow> go_value num v = Some v"

lemma those_all2: "those (map f xs) = Some ys \<longleftrightarrow> list_all2 (\<lambda>x y. f x = Some y) xs ys"
  by (induction xs arbitrary: ys) (auto simp: list_all2_Cons1 split: option.splits)

lemma those_map_id: "those (map f xs) = Some xs \<longleftrightarrow> (\<forall>x \<in> set xs. f x = Some x)"
  by (auto simp: those_all2 list_all2_same)

lemma stable_arr [simp]: "stable num (JArr vs) \<longleftrightarrow> (\<forall>v \<in> set vs. stable num v)"
  by (auto simp: stable_def those_map_id)

lemma stable_str [simp]: "stable num (JStr s)"
  by (simp add: stable_def)

lemma pairs_read:
  "those (map (\<lambda>(k, v). map_option (Pair k) (f v)) m) = Some n \<longleftrightarrow> list_all2 (\<lambda>x y. fst x = fst y \<and> f (snd x) = Some (snd y)) m n"
  unfolding those_all2
  by (rule arg_cong [of _ _ "\<lambda>P. list_all2 P m n"], intro ext) (auto simp: case_prod_unfold)

lemma pairs_read_keys: "list_all2 (\<lambda>x y. fst x = fst y \<and> P x y) m n \<Longrightarrow> map fst n = map fst m"
  by (induction rule: list_all2_induct) auto

lemma stable_obj: "stable num (JObj m) \<longleftrightarrow> ordered m \<and> (\<forall>kv \<in> set m. stable num (snd kv))"
proof
  assume "stable num (JObj m)"
  then obtain n where n: "those (map (\<lambda>(k, v). map_option (Pair k) (go_value num v)) m) = Some n" "canon n = m"
    by (auto simp: stable_def)
  then have all: "list_all2 (\<lambda>x y. fst x = fst y \<and> go_value num (snd x) = Some (snd y)) m n"
    by (simp only: pairs_read)
  have "ordered m" using n(2) by auto
  moreover from this have "ordered n" using pairs_read_keys [OF all] by (simp add: ordered_def)
  then have "n = m" using n(2) canon_ordered by simp
  then have "\<forall>kv \<in> set m. stable num (snd kv)" using all by (auto simp: list_all2_same stable_def)
  ultimately show "ordered m \<and> (\<forall>kv \<in> set m. stable num (snd kv))" by simp
next
  assume m: "ordered m \<and> (\<forall>kv \<in> set m. stable num (snd kv))"
  then have "those (map (\<lambda>(k, v). map_option (Pair k) (go_value num v)) m) = Some m"
    by (auto simp: those_map_id stable_def)
  with m show "stable num (JObj m)" by (simp add: stable_def canon_ordered)
qed

lemma set_canon: "set (canon m) \<subseteq> set m"
proof -
  have "(k, the (map_of (rev m) k)) \<in> set m" if k: "k \<in> set (map fst m)" for k
  proof -
    obtain v where "map_of (rev m) k = Some v"
      using k map_of_eq_None_iff [of "rev m" k] by (cases "map_of (rev m) k") (simp_all add: image_def)
    then show ?thesis using map_of_SomeD [of "rev m" k v] by simp
  qed
  then show ?thesis by (auto simp: canon_def)
qed

lemma go_value_stable: "idempotent num \<Longrightarrow> go_value num j = Some v \<Longrightarrow> stable num v"
proof (induction num j arbitrary: v rule: go_value.induct)
  case (2 num vs)
  then obtain ws where ws: "list_all2 (\<lambda>x y. go_value num x = Some y) vs ws" "v = JArr ws" by (auto simp: those_all2)
  have "stable num w" if "w \<in> set ws" for w using list_all2_right [OF ws(1) that] 2 by auto
  with ws(2) show ?case by simp
next
  case (3 num kvs)
  then obtain ws where ws: "list_all2 (\<lambda>x y. fst x = fst y \<and> go_value num (snd x) = Some (snd y)) kvs ws" "v = JObj (canon ws)"
    by (auto simp: pairs_read)
  have "stable num (snd kv)" if kv: "kv \<in> set ws" for kv
  proof -
    obtain x where "x \<in> set kvs" "go_value num (snd x) = Some (snd kv)" using list_all2_right [OF ws(1) kv] by auto
    with 3 show ?thesis by (cases x) auto
  qed
  with ws(2) set_canon [of ws] show ?case by (auto simp: stable_obj)
qed (auto simp: stable_def idempotent_def)

lemma parse_root_stable: "idempotent num \<Longrightarrow> parse_root num c = RootMap m \<Longrightarrow> stable num (JObj m)"
  by (auto simp: parse_root_def split: content.splits option.splits json.splits dest: go_value_stable)

lemma parse_stable: "stable num (JObj m) \<Longrightarrow> parse_root num (Doc (JObj m)) = RootMap m"
  unfolding parse_root_def stable_def content.case by (simp only: option.case json.case)

lemma stable_lookup: "stable num (JObj m) \<Longrightarrow> map_of m k = Some v \<Longrightarrow> stable num v"
  by (force simp: stable_obj dest: map_of_SomeD)

lemma stable_put: "stable num (JObj m) \<Longrightarrow> stable num v \<Longrightarrow> stable num (JObj (put k v m))"
  using set_canon [of "m @ [(k, v)]"] by (auto simp: stable_obj put_def)

lemma stable_delete: "stable num (JObj m) \<Longrightarrow> stable num (JObj (delete_key k m))"
  by (auto simp: stable_obj) (auto simp: delete_key_def)

lemma stable_empty: "stable num (JObj [])"
  by (simp add: stable_obj ordered_def)

lemma stable_as_map: "stable num v \<Longrightarrow> stable num (JObj (as_map (Some v)))"
  by (cases v) (simp_all add: as_map_def stable_empty)

lemma stable_as_list: "stable num v \<Longrightarrow> b \<in> set (as_list (Some v)) \<Longrightarrow> stable num b"
  by (cases v) (simp_all add: as_list_def)

lemma stable_hooks: "stable num (JObj m) \<Longrightarrow> stable num (JObj (hooks_of m))"
  using stable_lookup [of num m "''hooks''", THEN stable_as_map]
  by (cases "map_of m ''hooks''") (simp_all add: hooks_of_def as_map_def [of None] stable_empty)

lemma stable_pre: "stable num (JObj m) \<Longrightarrow> b \<in> set (pre_tool_use m) \<Longrightarrow> stable num b"
  using stable_lookup [OF stable_hooks, of num m "''PreToolUse''", THEN stable_as_list]
  by (cases "map_of (hooks_of m) ''PreToolUse''") (simp_all add: pre_tool_use_def as_list_def [of None])

section \<open>The properties of the settings\<close>

lemma occurs_prefix: "has_prefix p s \<Longrightarrow> occurs p s"
  by (cases s) (auto simp: has_prefix_def)

lemma occurs_later: "occurs p s \<Longrightarrow> occurs p (a @ s)"
  by (induction a) auto

lemma occurs_within: "occurs p (a @ p @ b)"
  by (intro occurs_later occurs_prefix has_prefix_append)

text \<open>The command names the guard and its environment, so the installer recognises its own block.\<close>

lemma own_command:
  "occurs ''guard check'' (inline_env_command (guard_env d tf) binary)" "occurs ''LEGANT_GUARD'' (inline_env_command (guard_env d tf) binary)"
proof -
  show "occurs ''guard check'' (inline_env_command (guard_env d tf) binary)"
    using occurs_within [of "''guard check''" "butlast (''env'' @ concat (map (\<lambda>k. '' '' @ k @ ''='' @ shell_quote (the (map_of (guard_env d tf) k)))
      (sorted_keys (guard_env d tf))) @ '' '' @ shell_quote binary @ '' x'')" "[]"]
    by (simp add: inline_env_command_def butlast_append)
  show "occurs ''LEGANT_GUARD'' (inline_env_command (guard_env d tf) binary)"
    by (simp add: inline_env_command_def guard_env_order has_prefix_def)
qed

lemma own_block: "block_has_legant (legant_block matcher (inline_env_command (guard_env d tf) binary))"
  using own_command by (simp add: block_has_legant_def legant_block_def as_list_def as_map_def as_string_def)

lemma stable_block: "stable num (legant_block matcher cmd)"
  by (simp add: legant_block_def stable_obj ordered_def)

lemma foreign_append [simp]: "foreign (xs @ ys) = foreign xs @ foreign ys"
  by (simp add: foreign_def)

lemma foreign_idem [simp]: "foreign (foreign xs) = foreign xs"
  by (simp add: foreign_def)

lemma foreign_all: "\<not> list_ex block_has_legant xs \<Longrightarrow> foreign xs = xs"
  by (simp add: foreign_def list_ex_iff)

lemma foreign_none: "\<not> list_ex block_has_legant (foreign xs)"
  by (simp add: foreign_def list_ex_iff)

lemma stable_ordered: "stable num (JObj m) \<Longrightarrow> ordered m"
  by (simp add: stable_obj)

definition start_root :: "(string \<Rightarrow> string option) \<Rightarrow> content \<Rightarrow> root_map" where
  "start_root num c = (if c = Missing \<or> c = NoAccess then RootMap [] else parse_root num c)"

definition with_blocks :: "json list \<Rightarrow> (string \<times> json) list \<Rightarrow> (string \<times> json) list" where
  "with_blocks bs m = put ''hooks'' (JObj (put ''PreToolUse'' (JArr bs) (hooks_of m))) m"

lemma merge_result_iff:
  "merge_pre_tool_use num matcher cmd c = Merged j \<longleftrightarrow>
     (\<exists>m. start_root num c = RootMap m \<and> j = JObj (with_blocks (foreign (pre_tool_use m) @ [legant_block matcher cmd]) m))"
  by (auto simp: merge_pre_tool_use_def start_root_def with_blocks_def split: root_map.splits)

lemma start_root_stable: "idempotent num \<Longrightarrow> start_root num c = RootMap m \<Longrightarrow> stable num (JObj m)"
  by (auto simp: start_root_def stable_empty parse_root_stable split: if_splits)

lemma with_blocks_parts:
  assumes "stable num (JObj m)"
  shows "hooks_of (with_blocks bs m) = put ''PreToolUse'' (JArr bs) (hooks_of m)" "pre_tool_use (with_blocks bs m) = bs"
    "with_blocks bs' (with_blocks bs m) = with_blocks bs' m"
proof -
  have c: "ordered m" "ordered (hooks_of m)" using assms stable_ordered stable_hooks by blast+
  show h: "hooks_of (with_blocks bs m) = put ''PreToolUse'' (JArr bs) (hooks_of m)"
    using c by (simp add: with_blocks_def hooks_of_def [of "put k v n" for k v n] as_map_def)
  show "pre_tool_use (with_blocks bs m) = bs"
    using c by (simp add: pre_tool_use_def h as_list_def)
  show "with_blocks bs' (with_blocks bs m) = with_blocks bs' m"
    unfolding with_blocks_def [of bs'] h using c by (simp add: put_put with_blocks_def)
qed

lemma with_blocks_stable:
  "stable num (JObj m) \<Longrightarrow> (\<And>b. b \<in> set bs \<Longrightarrow> stable num b) \<Longrightarrow> stable num (JObj (with_blocks bs m))"
  by (simp add: with_blocks_def stable_put stable_hooks)

lemma merged_stable:
  assumes "stable num (JObj m)"
  shows "stable num (JObj (with_blocks (foreign (pre_tool_use m) @ [legant_block matcher cmd]) m))"
  by (rule with_blocks_stable [OF assms]) (auto simp: foreign_def stable_block intro: stable_pre [OF assms])

lemma merged_keeps:
  assumes "stable num (JObj m)" "m' = with_blocks bs m"
  shows "k \<noteq> ''hooks'' \<Longrightarrow> map_of m' k = map_of m k" "e \<noteq> ''PreToolUse'' \<Longrightarrow> map_of (hooks_of m') e = map_of (hooks_of m) e"
  using with_blocks_parts(1) [OF assms(1)] stable_ordered [OF assms(1)] stable_ordered [OF stable_hooks [OF assms(1)]] assms(2)
  by (simp_all add: with_blocks_def)

lemma merge_again:
  assumes num: "idempotent num" and "merge_pre_tool_use num m1 (inline_env_command (guard_env d tf) b) c = Merged j"
  shows "merge_pre_tool_use num m2 cmd (Doc j) = merge_pre_tool_use num m2 cmd c"
proof -
  let ?blk = "legant_block m1 (inline_env_command (guard_env d tf) b)"
  obtain m where m: "start_root num c = RootMap m" "j = JObj (with_blocks (foreign (pre_tool_use m) @ [?blk]) m)"
    using assms(2) by (auto simp: merge_result_iff)
  let ?m' = "with_blocks (foreign (pre_tool_use m) @ [?blk]) m"
  have s: "stable num (JObj m)" by (rule start_root_stable [OF num m(1)])
  have "parse_root num (Doc j) = RootMap ?m'" unfolding m(2) by (rule parse_stable [OF merged_stable [OF s]])
  then have root: "start_root num (Doc j) = RootMap ?m'" by (simp add: start_root_def)
  have "foreign (pre_tool_use ?m') = foreign (pre_tool_use m)"
    using own_block by (simp add: with_blocks_parts(2) [OF s] foreign_def)
  then have "merge_pre_tool_use num m2 cmd c = Merged r \<longleftrightarrow> merge_pre_tool_use num m2 cmd (Doc j) = Merged r" for r
    by (simp add: merge_result_iff m(1) root with_blocks_parts(3) [OF s])
  moreover obtain r where "merge_pre_tool_use num m2 cmd c = Merged r" using m(1) by (auto simp: merge_result_iff)
  ultimately show ?thesis by metis
qed

lemma install_merges:
  assumes "idempotent num"
    and "merge_pre_tool_use num matcher (inline_env_command (guard_env d token_file) binary) c = Merged j"
  shows "\<exists>m m'. start_root num c = RootMap m \<and> j = JObj m' \<and> (\<forall>k. k \<noteq> ''hooks'' \<longrightarrow> map_of m' k = map_of m k)
      \<and> (\<forall>e. e \<noteq> ''PreToolUse'' \<longrightarrow> map_of (hooks_of m') e = map_of (hooks_of m) e)
      \<and> pre_tool_use m' = foreign (pre_tool_use m) @ [legant_block matcher (inline_env_command (guard_env d token_file) binary)]"
    and "merge_pre_tool_use num matcher2 (inline_env_command (guard_env d2 token_file2) binary2) (Doc j)
      = merge_pre_tool_use num matcher2 (inline_env_command (guard_env d2 token_file2) binary2) c"
proof -
  obtain m where m: "start_root num c = RootMap m"
      "j = JObj (with_blocks (foreign (pre_tool_use m) @ [legant_block matcher (inline_env_command (guard_env d token_file) binary)]) m)"
    using assms(2) by (auto simp: merge_result_iff)
  note s = start_root_stable [OF assms(1) m(1)]
  show "\<exists>m m'. start_root num c = RootMap m \<and> j = JObj m' \<and> (\<forall>k. k \<noteq> ''hooks'' \<longrightarrow> map_of m' k = map_of m k)
      \<and> (\<forall>e. e \<noteq> ''PreToolUse'' \<longrightarrow> map_of (hooks_of m') e = map_of (hooks_of m) e)
      \<and> pre_tool_use m' = foreign (pre_tool_use m) @ [legant_block matcher (inline_env_command (guard_env d token_file) binary)]"
    using m merged_keeps [OF s refl] with_blocks_parts(2) [OF s] by blast
qed (rule merge_again [OF assms])

text \<open>
  installing touches one list of the settings file. Every other setting and every other hook stay as they were, the
  blocks of that list that are not the guard's stay in their order, and installing again, with another role, directory or binary,
  gives the file the new installation alone would have given.
\<close>

theorem install_replaces_own_block:
  assumes "idempotent num"
    and "merge_pre_tool_use num matcher (inline_env_command (guard_env d token_file) binary) c = Merged j"
  shows "(\<exists>m m'. start_root num c = RootMap m \<and> j = JObj m' \<and> (\<forall>k. k \<noteq> ''hooks'' \<longrightarrow> map_of m' k = map_of m k)
        \<and> (\<forall>e. e \<noteq> ''PreToolUse'' \<longrightarrow> map_of (hooks_of m') e = map_of (hooks_of m) e)
        \<and> pre_tool_use m' = foreign (pre_tool_use m) @ [legant_block matcher (inline_env_command (guard_env d token_file) binary)])
    \<and> merge_pre_tool_use num matcher2 (inline_env_command (guard_env d2 token_file2) binary2) (Doc j)
      = merge_pre_tool_use num matcher2 (inline_env_command (guard_env d2 token_file2) binary2) c"
  using install_merges [OF assms] by (intro conjI)

lemma stripped:
  assumes num: "idempotent num" and m: "start_root num c = RootMap m"
    and j: "merge_pre_tool_use num matcher (inline_env_command (guard_env d tf) b) c = Merged j"
  shows "strip_legant num (Doc j) =
    Some (JObj (if foreign (pre_tool_use m) = [] then put ''hooks'' (JObj (delete_key ''PreToolUse'' (hooks_of m))) m
                else with_blocks (foreign (pre_tool_use m)) m))"
proof -
  let ?blk = "legant_block matcher (inline_env_command (guard_env d tf) b)"
  let ?m' = "with_blocks (foreign (pre_tool_use m) @ [?blk]) m"
  have s: "stable num (JObj m)" by (rule start_root_stable [OF num m])
  have c: "ordered m" "ordered (hooks_of m)" using s stable_ordered stable_hooks by blast+
  define n where n: "n = ?m'"
  have "j = JObj n" using j m n by (auto simp: merge_result_iff)
  then have root: "parse_root num (Doc j) = RootMap n" using parse_stable [OF merged_stable [OF s]] n by simp
  have del: "delete_key ''PreToolUse'' (put ''PreToolUse'' v (hooks_of m)) = delete_key ''PreToolUse'' (hooks_of m)" for v
    by (rule ordered_eqI) (use c in \<open>auto simp: map_of_delete\<close>)
  have has: "list_ex block_has_legant (pre_tool_use n)" using own_block by (simp add: n with_blocks_parts(2) [OF s])
  have kept: "foreign (pre_tool_use n) = foreign (pre_tool_use m)"
    using own_block by (simp add: n with_blocks_parts(2) [OF s] foreign_def)
  have some: "put ''hooks'' (JObj (put ''PreToolUse'' (JArr bs) (hooks_of n))) n = with_blocks bs m" for bs
    using with_blocks_parts(3) [OF s, of bs] by (simp only: n with_blocks_def [of bs])
  have none: "put ''hooks'' (JObj (delete_key ''PreToolUse'' (hooks_of n))) n = put ''hooks'' (JObj (delete_key ''PreToolUse'' (hooks_of m))) m"
    unfolding n with_blocks_parts(1) [OF s] del unfolding with_blocks_def put_put [OF c(1)] by (rule refl)
  show ?thesis
  proof (cases "foreign (pre_tool_use m) = []")
    case True
    with has show ?thesis unfolding strip_legant_def root root_map.case Let_def kept by (simp only: none if_True if_False simp_thms)
  next
    case False
    with has show ?thesis unfolding strip_legant_def root root_map.case Let_def kept by (simp only: some if_False simp_thms)
  qed
qed

text \<open>
  C30: removing the guard from a settings file undoes the installation, in what the settings say. A file that had other hooks
  before each tool call, and none of the guard's, reads after the removal as it read before the installation. Byte for byte it
  is the file that Go writes for that reading, with sorted keys and numbers through a double; so a file that was written that
  way before comes back as it was, and another one comes back rewritten.
\<close>

theorem uninstall_restores:
  assumes "idempotent num" "go_value num j0 = Some (JObj m)" "map_of m ''hooks'' = Some (JObj h)"
    and "map_of h ''PreToolUse'' = Some (JArr bs)" "bs \<noteq> []" "\<not> list_ex block_has_legant bs"
    and "merge_pre_tool_use num matcher (inline_env_command (guard_env d token_file) binary) (Doc j0) = Merged j"
  shows "strip_legant num (Doc j) = Some (JObj m) \<and> go_value num (JObj m) = go_value num j0 \<and>
    (stable num j0 \<longrightarrow> strip_legant num (Doc j) = Some j0)"
proof -
  have m: "start_root num (Doc j0) = RootMap m" using assms(2) by (simp add: start_root_def parse_root_def)
  have s: "stable num (JObj m)" by (rule start_root_stable [OF assms(1) m])
  have h: "hooks_of m = h" "pre_tool_use m = bs" using assms(3,4) by (simp_all add: pre_tool_use_def hooks_of_def as_map_def as_list_def)
  have c: "ordered m" "ordered h" using s h stable_ordered stable_hooks [OF s] by auto
  have "with_blocks bs m = m" using c assms(3,4) by (simp add: with_blocks_def h put_same)
  then have "strip_legant num (Doc j) = Some (JObj m)" using stripped [OF assms(1) m assms(7)] assms(5,6) by (simp add: h foreign_all)
  then show ?thesis using s assms(2) by (simp add: stable_def)
qed

section \<open>Installing and removing\<close>

text \<open>
  The machine the installer runs on: what it asks of it (\<^const>\<open>None\<close> is an error of \<open>UserHomeDir\<close>,
  \<open>UserConfigDir\<close> or \<open>Executable\<close>), and the two things it changes, guard directories and settings files. Writing to a guard
  directory succeeds; a write to a settings file may fail.
\<close>

record host =
  ho_wd :: "string option"
  ho_home :: "string option"
  ho_config :: "string option"
  ho_tmp :: string
  ho_exe :: "string option"
  ho_on_path :: "string \<Rightarrow> bool"
  ho_is_dir :: "string \<Rightarrow> bool"
  ho_can_write :: "string \<Rightarrow> bool"
  ho_can_remove :: "string \<Rightarrow> bool"

record ('k, 'p) machine =
  mc_dirs :: "string \<Rightarrow> ('k, 'p) trust_dir"
  mc_files :: "string \<Rightarrow> content"

definition or_empty :: "string option \<Rightarrow> string" where
  "or_empty v = (case v of None \<Rightarrow> [] | Some s \<Rightarrow> s)"

definition default_guard_dir :: "host \<Rightarrow> string \<Rightarrow> string" where
  "default_guard_dir ho project =
     (let b = (if or_empty (ho_config ho) = []
               then (case ho_home ho of Some h \<Rightarrow> join_path [h, ''.config''] | None \<Rightarrow> ho_tmp ho)
               else or_empty (ho_config ho));
          name = (if base project \<in> {[], ''/'', ''.''} then ''default'' else base project)
      in join_path [b, ''legant'', ''guard'', name])"

record install_options =
  io_dir :: string
  io_project :: string
  io_role :: string
  io_binary :: string
  io_tools :: "string list"
  io_user_scope :: bool

datatype install_error =
    SetupFailed setup_error
  | NoRoleToken string string
  | NoAgentDetected
  | UnknownTool string
  | SettingsInvalid string
  | WriteFailed string
  | Crash string

definition detect_tools :: "host \<Rightarrow> string \<Rightarrow> string list" where
  "detect_tools ho project =
     (if ho_on_path ho ''claude'' \<or> ho_is_dir ho (join_path [project, ''.claude'']) then [''claude-code''] else [])
   @ (if ho_on_path ho ''codex'' \<or> ho_is_dir ho (join_path [or_empty (ho_home ho), ''.codex'']) then [''codex''] else [])
   @ (if ho_on_path ho ''opencode'' \<or> ho_is_dir ho (join_path [or_empty (ho_config ho), ''opencode''])
           \<or> ho_is_dir ho (join_path [project, ''.opencode'']) then [''opencode''] else [])"

definition write_settings :: "host \<Rightarrow> string \<Rightarrow> content \<Rightarrow> (string \<Rightarrow> content) \<Rightarrow> install_error + (string \<Rightarrow> content)" where
  "write_settings ho p c files = (if ho_can_write ho p then Inr (files(p := c)) else Inl (WriteFailed p))"

definition install_hook ::
    "(string \<Rightarrow> string option) \<Rightarrow> host \<Rightarrow> string \<Rightarrow> string \<Rightarrow> string \<Rightarrow> (string \<Rightarrow> content) \<Rightarrow> install_error + (string \<Rightarrow> content)" where
  "install_hook num ho p matcher cmd files =
     (case merge_pre_tool_use num matcher cmd (files p) of
        NotJson \<Rightarrow> Inl (SettingsInvalid p)
      | Panics \<Rightarrow> Inl (Crash p)
      | Merged j \<Rightarrow> write_settings ho p (Doc j) files)"

definition claude_settings :: "string \<Rightarrow> string" where
  "claude_settings project = join_path [project, ''.claude'', ''settings.local.json'']"

definition codex_settings :: "host \<Rightarrow> string \<Rightarrow> bool \<Rightarrow> string" where
  "codex_settings ho project user_scope =
     (if user_scope then join_path [or_empty (ho_home ho), ''.codex'', ''hooks.json''] else join_path [project, ''.codex'', ''hooks.json''])"

definition opencode_plugin_path :: "host \<Rightarrow> string \<Rightarrow> bool \<Rightarrow> string" where
  "opencode_plugin_path ho project user_scope =
     join_path [if user_scope then join_path [or_empty (ho_config ho), ''opencode'', ''plugin''] else join_path [project, ''.opencode'', ''plugin''],
       ''legant-guard.ts'']"

definition codex_matcher :: string where
  "codex_matcher = ''^(Bash|apply_patch|mcp__.*)$''"

definition install_tool ::
    "(string \<Rightarrow> string option) \<Rightarrow> host \<Rightarrow> string \<Rightarrow> (string \<times> string) list \<Rightarrow> string \<Rightarrow> bool \<Rightarrow> string \<Rightarrow> (string \<Rightarrow> content)
       \<Rightarrow> install_error + string \<times> (string \<Rightarrow> content)" where
  "install_tool num ho project env binary user_scope t files =
     (let cmd = inline_env_command env binary; placed = (\<lambda>p r. and_then r (\<lambda>fs. Inr (p, fs)))
      in if t = ''claude-code'' then placed (claude_settings project) (install_hook num ho (claude_settings project) ''*'' cmd files)
         else if t = ''codex''
         then placed (codex_settings ho project user_scope) (install_hook num ho (codex_settings ho project user_scope) codex_matcher cmd files)
         else if t = ''opencode''
         then placed (opencode_plugin_path ho project user_scope)
                (write_settings ho (opencode_plugin_path ho project user_scope) (Plugin env binary) files)
         else Inl (UnknownTool t))"

text \<open>The loop over the tools: the results so far and the error it stopped at.\<close>

fun install_tools ::
    "(string \<Rightarrow> string option) \<Rightarrow> host \<Rightarrow> string \<Rightarrow> (string \<times> string) list \<Rightarrow> string \<Rightarrow> bool \<Rightarrow> string list \<Rightarrow> (string \<Rightarrow> content)
       \<Rightarrow> (string \<times> string) list \<times> install_error option \<times> (string \<Rightarrow> content)" where
  "install_tools num ho project env binary us [] files = ([], None, files)"
| "install_tools num ho project env binary us (t # ts) files =
     (case install_tool num ho project env binary us t files of
        Inl e \<Rightarrow> ([], Some e, files)
      | Inr (p, fs) \<Rightarrow> (case install_tools num ho project env binary us ts fs of (rs, e, fs') \<Rightarrow> ((t, p) # rs, e, fs')))"

definition install_dir :: "host \<Rightarrow> install_options \<Rightarrow> string" where
  "install_dir ho opts =
     abs_or_same (ho_wd ho)
       (if io_dir opts = [] then default_guard_dir ho (abs_or_same (ho_wd ho) (io_project opts)) else io_dir opts)"

definition setup_ttl :: duration where
  "setup_ttl = 720 * 3600 * nanos"

definition role_or_open :: "string \<Rightarrow> string" where
  "role_or_open r = (if r = [] then ''open'' else r)"

definition role_token_file :: "string \<Rightarrow> string \<Rightarrow> string" where
  "role_token_file d role_name = join_path [d, role_name @ ''.jwt'']"

definition guard_binary :: "host \<Rightarrow> install_options \<Rightarrow> string" where
  "guard_binary ho opts =
     (if io_binary opts = [] then (case ho_exe ho of Some e \<Rightarrow> e | None \<Rightarrow> ''legant'') else io_binary opts)"

definition install ::
    "('k, 'p) feed_jwt \<Rightarrow> ('k, 'p) delegation_jwt \<Rightarrow> 'k \<Rightarrow> (string \<Rightarrow> string option) \<Rightarrow> instant \<Rightarrow> (string \<Rightarrow> string option) \<Rightarrow> host
       \<Rightarrow> install_options \<Rightarrow> ('k, 'p) machine \<Rightarrow> (string \<times> string) list \<times> install_error option \<times> ('k, 'p) machine" where
  "install flib lib key rnd now num ho opts m =
     (let project = abs_or_same (ho_wd ho) (io_project opts); d = install_dir ho opts
      in case (if td_jwks (mc_dirs m d) \<noteq> None then Inr m
               else and_then (init_local flib lib key rnd d project setup_ttl now) (\<lambda>td. Inr (m\<lparr>mc_dirs := (mc_dirs m)(d := td)\<rparr>))) of
           Inl e \<Rightarrow> ([], Some (SetupFailed e), m)
         | Inr m' \<Rightarrow>
             let role_name = role_or_open (io_role opts); tf = role_token_file d role_name
             in if \<not> list_ex (\<lambda>(f, _). join_path [d, f] = tf) (td_tokens (mc_dirs m' d)) then ([], Some (NoRoleToken role_name d), m')
                else
                  let binary = guard_binary ho opts;
                      ts = (if io_tools opts = [] then detect_tools ho project else io_tools opts)
                  in if ts = [] then ([], Some NoAgentDetected, m')
                     else (case install_tools num ho project (guard_env d tf) binary (io_user_scope opts) ts (mc_files m') of
                             (rs, e, fs) \<Rightarrow> (rs, e, m'\<lparr>mc_files := fs\<rparr>)))"

text \<open>\<open>Uninstall\<close>. A failed write of a stripped file is not noticed.\<close>

definition remove_hook :: "(string \<Rightarrow> string option) \<Rightarrow> host \<Rightarrow> string \<Rightarrow> (string \<Rightarrow> content) \<Rightarrow> bool \<times> (string \<Rightarrow> content)" where
  "remove_hook num ho p files =
     (case strip_legant num (files p) of
        None \<Rightarrow> (False, files)
      | Some j \<Rightarrow> (True, if ho_can_write ho p then files(p := Doc j) else files))"

definition remove_plugin :: "host \<Rightarrow> string \<Rightarrow> (string \<Rightarrow> content) \<Rightarrow> bool \<times> (string \<Rightarrow> content)" where
  "remove_plugin ho p files =
     (if files p \<noteq> Missing \<and> ho_can_remove ho p then (True, files(p := Missing)) else (False, files))"

fun remove_each ::
    "(string \<Rightarrow> (string \<Rightarrow> content) \<Rightarrow> bool \<times> (string \<Rightarrow> content)) \<Rightarrow> string list \<Rightarrow> (string \<Rightarrow> content) \<Rightarrow> string list \<times> (string \<Rightarrow> content)" where
  "remove_each act [] files = ([], files)"
| "remove_each act (p # ps) files =
     (case act p files of (done_it, fs) \<Rightarrow>
        (case remove_each act ps fs of (out, fs') \<Rightarrow> (if done_it then p # out else out, fs')))"

definition hook_places :: "host \<Rightarrow> string \<Rightarrow> string list" where
  "hook_places ho project = [claude_settings project, codex_settings ho project False, codex_settings ho project True]"

definition plugin_places :: "host \<Rightarrow> string \<Rightarrow> string list" where
  "plugin_places ho project = [join_path [project, ''.opencode'', ''plugin'', ''legant-guard.ts''],
     join_path [or_empty (ho_config ho), ''opencode'', ''plugin'', ''legant-guard.ts'']]"

definition uninstall :: "(string \<Rightarrow> string option) \<Rightarrow> host \<Rightarrow> string \<Rightarrow> (string \<Rightarrow> content) \<Rightarrow> string list \<times> (string \<Rightarrow> content)" where
  "uninstall num ho project0 files =
     (let project = abs_or_same (ho_wd ho) project0
      in case remove_each (remove_hook num ho) (hook_places ho project) files of
           (out, fs) \<Rightarrow> (case remove_each (remove_plugin ho) (plugin_places ho project) fs of (out', fs') \<Rightarrow> (out @ out', fs')))"

section \<open>What an installation leaves\<close>

definition wired_with :: "(string \<Rightarrow> string option) \<Rightarrow> (string \<times> string) list \<Rightarrow> string \<Rightarrow> content \<Rightarrow> bool" where
  "wired_with num env binary c \<longleftrightarrow>
     c = Plugin env binary \<or>
     (\<exists>m matcher. parse_root num c = RootMap m \<and> matcher \<in> {''*'', codex_matcher}
        \<and> legant_block matcher (inline_env_command env binary) \<in> set (pre_tool_use m))"

definition hooked :: "(string \<Rightarrow> string option) \<Rightarrow> content \<Rightarrow> bool" where
  "hooked num c = (case parse_root num c of RootMap m \<Rightarrow> list_ex block_has_legant (pre_tool_use m) | _ \<Rightarrow> False)"

lemma merged_wired:
  assumes "idempotent num" "matcher \<in> {''*'', codex_matcher}" "merge_pre_tool_use num matcher (inline_env_command env b) c = Merged j"
  shows "wired_with num env b (Doc j)"
proof -
  obtain m where m: "start_root num c = RootMap m"
      "j = JObj (with_blocks (foreign (pre_tool_use m) @ [legant_block matcher (inline_env_command env b)]) m)"
    using assms(3) by (auto simp: merge_result_iff)
  note s = start_root_stable [OF assms(1) m(1)]
  have "parse_root num (Doc j) = RootMap (with_blocks (foreign (pre_tool_use m) @ [legant_block matcher (inline_env_command env b)]) m)"
    unfolding m(2) by (rule parse_stable [OF merged_stable [OF s]])
  with assms(2) show ?thesis by (auto simp: wired_with_def with_blocks_parts(2) [OF s])
qed

lemma write_settings_Inr: "write_settings ho p c files = Inr fs \<longleftrightarrow> ho_can_write ho p \<and> fs = files(p := c)"
  by (auto simp: write_settings_def)

lemma install_hook_Inr:
  "install_hook num ho p matcher cmd files = Inr fs \<longleftrightarrow>
     (\<exists>j. merge_pre_tool_use num matcher cmd (files p) = Merged j \<and> ho_can_write ho p \<and> fs = files(p := Doc j))"
  by (auto simp: install_hook_def write_settings_Inr split: merge_result.splits)

lemma install_tool_writes:
  assumes "idempotent num" "install_tool num ho project env b us t files = Inr (p, fs)"
  shows "\<exists>c. fs = files(p := c) \<and> wired_with num env b c"
proof -
  have hook: "\<exists>c. fs = files(p := c) \<and> wired_with num env b c"
    if "install_hook num ho p matcher (inline_env_command env b) files = Inr fs" "matcher \<in> {''*'', codex_matcher}" for matcher
    using that merged_wired [OF assms(1)] unfolding install_hook_Inr by blast
  have plugin: "wired_with num env b (Plugin env b)" by (simp add: wired_with_def)
  show ?thesis
    using assms(2) hook plugin
    by (auto simp: install_tool_def Let_def and_then_eq_Inr_iff write_settings_Inr split: if_splits)
qed

lemma install_tools_writes:
  assumes "idempotent num" "install_tools num ho project env b us ts files = (rs, e, fs)"
  shows "(\<forall>p \<in> snd ` set rs. wired_with num env b (fs p)) \<and> (\<forall>p. wired_with num env b (files p) \<longrightarrow> wired_with num env b (fs p))
    \<and> (\<forall>q. q \<notin> snd ` set rs \<longrightarrow> fs q = files q)"
  using assms(2)
proof (induction ts arbitrary: files rs e fs)
  case (Cons t ts)
  show ?case
  proof (cases "install_tool num ho project env b us t files")
    case (Inl e')
    with Cons.prems show ?thesis by auto
  next
    case (Inr r)
    obtain p fs1 where r: "r = (p, fs1)" by (cases r)
    obtain rs' e' fs' where rec: "install_tools num ho project env b us ts fs1 = (rs', e', fs')"
      by (cases "install_tools num ho project env b us ts fs1")
    have out: "rs = (t, p) # rs'" "fs = fs'" using Cons.prems Inr r rec by auto
    obtain c where "fs1 = files(p := c)" "wired_with num env b c" using install_tool_writes [OF assms(1)] Inr r by blast
    then show ?thesis using Cons.IH [OF rec] unfolding out by (auto simp: fun_upd_def split: if_splits)
  qed
qed simp

lemma install_wires:
  assumes "idempotent num"
    and "install flib lib key rnd now num ho opts m = (rs, e, m')" "rs \<noteq> []"
  defines "d \<equiv> install_dir ho opts"
  shows "\<forall>p \<in> snd ` set rs. wired_with num (guard_env d (role_token_file d (role_or_open (io_role opts)))) (guard_binary ho opts)
      (mc_files m' p)"
    and "td_jwks (mc_dirs m' d) \<noteq> None"
    and "\<exists>(f, tok) \<in> set (td_tokens (mc_dirs m' d)). join_path [d, f] = role_token_file d (role_or_open (io_role opts))"
    and "\<forall>q. q \<notin> snd ` set rs \<longrightarrow> mc_files m' q = mc_files m q"
    and "\<forall>d'. d' \<noteq> d \<longrightarrow> mc_dirs m' d' = mc_dirs m d'"
proof -
  let ?project = "abs_or_same (ho_wd ho) (io_project opts)"
  let ?tf = "role_token_file d (role_or_open (io_role opts))"
  obtain m1 where m1: "(if td_jwks (mc_dirs m d) \<noteq> None then Inr m
      else and_then (init_local flib lib key rnd d ?project setup_ttl now) (\<lambda>td. Inr (m\<lparr>mc_dirs := (mc_dirs m)(d := td)\<rparr>))) = Inr m1"
    using assms(2,3) unfolding install_def d_def Let_def by (auto split: sum.splits)
  have same: "mc_files m1 = mc_files m" "\<forall>d'. d' \<noteq> d \<longrightarrow> mc_dirs m1 d' = mc_dirs m d'" "td_jwks (mc_dirs m1 d) \<noteq> None"
    using m1 by (auto simp: and_then_eq_Inr_iff init_local_def split: if_splits option.splits)
  have tok: "list_ex (\<lambda>(f, _). join_path [d, f] = ?tf) (td_tokens (mc_dirs m1 d))"
    using assms(2,3) unfolding install_def d_def [symmetric] Let_def m1 sum.case by (auto split: if_splits)
  obtain ts fs where run: "install_tools num ho ?project (guard_env d ?tf) (guard_binary ho opts) (io_user_scope opts) ts (mc_files m1) = (rs, e, fs)"
      "m' = m1\<lparr>mc_files := fs\<rparr>"
    using assms(2,3) tok unfolding install_def d_def [symmetric] Let_def m1 sum.case by (auto split: if_splits prod.splits)
  note w = install_tools_writes [OF assms(1) run(1)]
  show "\<forall>p \<in> snd ` set rs. wired_with num (guard_env d ?tf) (guard_binary ho opts) (mc_files m' p)" using w run(2) by auto
  show "td_jwks (mc_dirs m' d) \<noteq> None" using same run(2) by simp
  show "\<exists>(f, tok) \<in> set (td_tokens (mc_dirs m' d)). join_path [d, f] = ?tf" using tok run(2) by (auto simp: list_ex_iff)
  show "\<forall>q. q \<notin> snd ` set rs \<longrightarrow> mc_files m' q = mc_files m q" using w same run(2) by simp
  show "\<forall>d'. d' \<noteq> d \<longrightarrow> mc_dirs m' d' = mc_dirs m d'" using same run(2) by simp
qed

text \<open>
  C27: what an installation reports it has done. Every place in its result holds the plugin or a block whose command names the
  binary of the options, or where they name none the executable that is running (\<open>legant\<close> if it cannot tell), and for it
  the guard directory's own files and the role's token; that token is there, and no other settings file has changed, whatever
  error the installation ended with.
\<close>

theorem install_wires_agents:
  assumes "idempotent num"
    and "install flib lib key rnd now num ho opts m = (rs, e, m')" "rs \<noteq> []"
    and "d = install_dir ho opts" "tf = role_token_file d (role_or_open (io_role opts))"
    and "binary = (if io_binary opts \<noteq> [] then io_binary opts else case ho_exe ho of Some e \<Rightarrow> e | None \<Rightarrow> ''legant'')"
  shows "(\<forall>p \<in> snd ` set rs. wired_with num (guard_env d tf) binary (mc_files m' p))
    \<and> td_jwks (mc_dirs m' d) \<noteq> None \<and> (\<exists>(f, tok) \<in> set (td_tokens (mc_dirs m' d)). join_path [d, f] = tf)
    \<and> (\<forall>q. q \<notin> snd ` set rs \<longrightarrow> mc_files m' q = mc_files m q) \<and> (\<forall>d'. d' \<noteq> d \<longrightarrow> mc_dirs m' d' = mc_dirs m d')"
proof -
  have "binary = guard_binary ho opts" by (simp add: assms(6) guard_binary_def)
  then show ?thesis unfolding assms(4,5) by (simp only:) (intro conjI install_wires [OF assms(1-3)])
qed

lemma strip_None_iff: "strip_legant num c = None \<longleftrightarrow> \<not> hooked num c"
  by (auto simp: strip_legant_def hooked_def Let_def split: root_map.splits)

lemma strip_unhooks:
  assumes "idempotent num" "strip_legant num c = Some j"
  shows "\<not> hooked num (Doc j)"
proof -
  obtain m where m: "parse_root num c = RootMap m"
      "j = JObj (if foreign (pre_tool_use m) = [] then put ''hooks'' (JObj (delete_key ''PreToolUse'' (hooks_of m))) m
                 else with_blocks (foreign (pre_tool_use m)) m)"
    using assms(2) by (auto simp: strip_legant_def Let_def with_blocks_def split: root_map.splits if_splits)
  have s: "stable num (JObj m)" by (rule parse_root_stable [OF assms(1) m(1)])
  let ?n = "put ''hooks'' (JObj (delete_key ''PreToolUse'' (hooks_of m))) m"
  have "stable num (JObj ?n)" by (intro stable_put stable_delete stable_hooks s)
  moreover have "pre_tool_use ?n = []"
    using stable_ordered [OF s] by (simp add: pre_tool_use_def hooks_of_def [of "put k v n" for k v n] as_map_def as_list_def map_of_delete)
  ultimately have none: "\<not> hooked num (Doc (JObj ?n))" by (simp add: hooked_def parse_stable)
  have "stable num (JObj (with_blocks (foreign (pre_tool_use m)) m))"
    by (rule with_blocks_stable [OF s]) (auto simp: foreign_def intro: stable_pre [OF s])
  then have "\<not> hooked num (Doc (JObj (with_blocks (foreign (pre_tool_use m)) m)))"
    by (simp add: hooked_def parse_stable with_blocks_parts(2) [OF s] foreign_none)
  with none m(2) show ?thesis by (auto split: if_splits)
qed

lemma remove_each_keeps:
  assumes "remove_each act ps files = (out, fs)" "\<And>p g. snd (act p g) q = g q \<or> P (snd (act p g) q)"
  shows "fs q = files q \<or> P (fs q)"
  using assms(1)
proof (induction ps arbitrary: files out fs)
  case (Cons p ps)
  obtain b g where g: "act p files = (b, g)" by (cases "act p files")
  obtain out' fs' where rec: "remove_each act ps g = (out', fs')" by (cases "remove_each act ps g")
  have fs: "fs = fs'" using Cons.prems g rec by (auto split: if_splits)
  show ?case using Cons.IH [OF rec] g assms(2) [of p files] unfolding fs by auto
qed simp

lemma remove_each_clears:
  assumes "remove_each act ps files = (out, fs)" "q \<in> set ps"
    and "\<And>p g. snd (act p g) q = g q \<or> P (snd (act p g) q)" "\<And>g. P (snd (act q g) q)"
  shows "P (fs q)"
  using assms(1,2)
proof (induction ps arbitrary: files out fs)
  case (Cons p ps)
  obtain b g where g: "act p files = (b, g)" by (cases "act p files")
  obtain out' fs' where rec: "remove_each act ps g = (out', fs')" by (cases "remove_each act ps g")
  have fs: "fs = fs'" using Cons.prems(1) g rec by (auto split: if_splits)
  show ?case
  proof (cases "q \<in> set ps")
    case True
    with Cons.IH [OF rec] fs show ?thesis by simp
  next
    case False
    with Cons.prems(2) have "P (g q)" using assms(4) [of files] g by simp
    with remove_each_keeps [OF rec, where P = P] assms(3) fs show ?thesis by metis
  qed
qed simp

lemma remove_each_frame:
  assumes "remove_each act ps files = (out, fs)" "q \<notin> set ps" "\<And>p g. p \<noteq> q \<Longrightarrow> snd (act p g) q = g q"
  shows "fs q = files q"
  using assms(1,2)
proof (induction ps arbitrary: files out fs)
  case (Cons p ps)
  obtain b g where g: "act p files = (b, g)" by (cases "act p files")
  obtain out' fs' where rec: "remove_each act ps g = (out', fs')" by (cases "remove_each act ps g")
  have fs: "fs = fs'" using Cons.prems g rec by (auto split: if_splits)
  show ?case using Cons.IH [OF rec] Cons.prems(2) g assms(3) [of p files] unfolding fs by auto
qed simp

lemma remove_hook_at: "snd (remove_hook num ho p g) q = (if q = p \<and> ho_can_write ho p then (case strip_legant num (g p) of None \<Rightarrow> g p | Some j \<Rightarrow> Doc j) else g q)"
  by (auto simp: remove_hook_def split: option.splits)

lemma remove_plugin_at: "snd (remove_plugin ho p g) q = (if q = p \<and> ho_can_remove ho p then Missing else g q)"
  by (auto simp: remove_plugin_def)

lemma hooked_Missing [simp]: "\<not> hooked num Missing"
  by (simp add: hooked_def parse_root_def)

text \<open>
  Removing the guard reaches every place an installation may have used, in the project or for the user: where the files can
  be written none of them has a block of the guard afterwards, the plugins are gone, and no other file has changed.
\<close>

theorem uninstall_clears_every_place:
  assumes "idempotent num"
    and "\<forall>p \<in> set (hook_places ho (abs_or_same (ho_wd ho) project)). ho_can_write ho p"
    and "\<forall>p \<in> set (plugin_places ho (abs_or_same (ho_wd ho) project)). ho_can_remove ho p"
    and "uninstall num ho project files = (out, files')"
  shows "\<forall>p \<in> set (hook_places ho (abs_or_same (ho_wd ho) project)). \<not> hooked num (files' p)"
    and "\<forall>p \<in> set (plugin_places ho (abs_or_same (ho_wd ho) project)). files' p = Missing"
    and "\<forall>p. p \<notin> set (hook_places ho (abs_or_same (ho_wd ho) project)) \<union> set (plugin_places ho (abs_or_same (ho_wd ho) project))
      \<longrightarrow> files' p = files p"
    and "claude_settings pr \<in> set (hook_places ho pr) \<and> codex_settings ho pr us \<in> set (hook_places ho pr)"
proof -
  let ?hs = "hook_places ho (abs_or_same (ho_wd ho) project)" and ?ps = "plugin_places ho (abs_or_same (ho_wd ho) project)"
  obtain o1 f1 o2 where f1: "remove_each (remove_hook num ho) ?hs files = (o1, f1)" "remove_each (remove_plugin ho) ?ps f1 = (o2, files')"
    using assms(4) by (auto simp: uninstall_def Let_def split: prod.splits)
  show "\<forall>p \<in> set ?hs. \<not> hooked num (files' p)"
  proof
    fix p assume p: "p \<in> set ?hs"
    have "\<not> hooked num (f1 p)"
    proof (rule remove_each_clears [OF f1(1) p, where P = "\<lambda>c. \<not> hooked num c"])
      show "\<not> hooked num (snd (remove_hook num ho p g) p)" for g
        using p assms(2) strip_unhooks [OF assms(1), of "g p"] strip_None_iff [of num "g p"] by (auto simp: remove_hook_at split: option.splits)
      show "snd (remove_hook num ho p' g) p = g p \<or> \<not> hooked num (snd (remove_hook num ho p' g) p)" for p' g
        using strip_unhooks [OF assms(1), of "g p'"] by (auto simp: remove_hook_at split: option.splits)
    qed
    moreover have "files' p = f1 p \<or> files' p = Missing"
      using remove_each_keeps [OF f1(2), of p "\<lambda>c. c = Missing"] by (simp add: remove_plugin_at)
    ultimately show "\<not> hooked num (files' p)" by auto
  qed
  show "\<forall>p \<in> set ?ps. files' p = Missing"
    using remove_each_clears [OF f1(2), where P = "\<lambda>c. c = Missing"] assms(3) by (simp add: remove_plugin_at)
  show "\<forall>p. p \<notin> set ?hs \<union> set ?ps \<longrightarrow> files' p = files p"
    using remove_each_frame [OF f1(1)] remove_each_frame [OF f1(2)] by (simp add: remove_plugin_at remove_hook_at)
  show "claude_settings pr \<in> set (hook_places ho pr) \<and> codex_settings ho pr us \<in> set (hook_places ho pr)"
    by (cases us) (auto simp: hook_places_def)
qed

end
