(* ===== verification/GuardPanel.thy ===== *)
theory GuardPanel
  imports GuardInstall RateLimit
begin

text \<open>
  What a person does with the guard: the overlay's file (\<open>internal/ccguard/overlay.go\<close>), the local control panel that edits
  it (\<open>internal/ccguard/ui.go\<close>), the view of a token's rule (\<open>internal/ccguard/show.go\<close>), and the \<open>guard\<close>
  subcommands (\<open>cmd/legant/guard.go\<close>) over the operations of theories \<open>GuardLocal\<close> and \<open>GuardInstall\<close>.
\<close>

section \<open>The overlay's file\<close>

text \<open>
  \<open>Unmarshal\<close> into a \<open>[]string\<close> reuses the elements of the slice it finds, so a \<open>null\<close> keeps the string a repeated
  member left there.
\<close>

fun assign_strings :: "string list \<Rightarrow> json list \<Rightarrow> string list option" where
  "assign_strings olds [] = Some []"
| "assign_strings olds (v # vs) =
     (case assign_string (case olds of [] \<Rightarrow> [] | s # _ \<Rightarrow> s) v of
        None \<Rightarrow> None
      | Some s \<Rightarrow> map_option ((#) s) (assign_strings (drop 1 olds) vs))"

fun decode_strings :: "string \<Rightarrow> string list \<Rightarrow> (string \<times> json) list \<Rightarrow> string list option" where
  "decode_strings name acc [] = Some acc"
| "decode_strings name acc ((k, v) # kvs) =
     (if fold_name k = name
      then (case v of
              JNull \<Rightarrow> decode_strings name [] kvs
            | JArr vs \<Rightarrow> (case assign_strings acc vs of None \<Rightarrow> None | Some ss \<Rightarrow> decode_strings name ss kvs)
            | _ \<Rightarrow> None)
      else decode_strings name acc kvs)"

definition no_overlay :: overlay where
  "no_overlay = \<lparr>ov_paths = [], ov_cmds = [], ov_hosts = [], ov_tools = []\<rparr>"

definition decode_overlay :: "json \<Rightarrow> overlay option" where
  "decode_overlay j =
     (case j of
        JNull \<Rightarrow> Some no_overlay
      | JObj kvs \<Rightarrow>
          (case (decode_strings ''deny_paths'' [] kvs, decode_strings ''deny_cmds'' [] kvs,
                 decode_strings ''deny_hosts'' [] kvs, decode_strings ''deny_tools'' [] kvs) of
             (Some ps, Some cs, Some hs, Some ts) \<Rightarrow> Some \<lparr>ov_paths = ps, ov_cmds = cs, ov_hosts = hs, ov_tools = ts\<rparr>
           | _ \<Rightarrow> None)
      | _ \<Rightarrow> None)"

text \<open>\<open>LoadOverlay\<close>: \<^const>\<open>None\<close> is an error, \<open>Some None\<close> a file that is not there.\<close>

definition load_overlay :: "content \<Rightarrow> overlay option option" where
  "load_overlay c =
     (case c of
        Missing \<Rightarrow> Some None
      | Doc j \<Rightarrow> map_option Some (decode_overlay j)
      | _ \<Rightarrow> None)"

definition string_member :: "string \<Rightarrow> string list \<Rightarrow> (string \<times> json) list" where
  "string_member name ss = (if ss = [] then [] else [(name, JArr (map JStr ss))])"

definition encode_overlay :: "overlay \<Rightarrow> json" where
  "encode_overlay v =
     JObj (string_member ''deny_paths'' (ov_paths v) @ string_member ''deny_cmds'' (ov_cmds v)
       @ string_member ''deny_hosts'' (ov_hosts v) @ string_member ''deny_tools'' (ov_tools v))"

definition save_overlay :: "bool \<Rightarrow> overlay \<Rightarrow> content option" where
  "save_overlay writable v = (if writable then Some (Doc (encode_overlay (normalize v))) else None)"

section \<open>The control panel\<close>

text \<open>
  A request: the \<open>Host\<close>, the first \<open>t\<close> of the query, the header \<open>X-Legant-UI\<close>, the method, the path, and the first JSON
  value of a body of at most 4096 bytes.
\<close>

record ui_request =
  uq_host :: string
  uq_t :: string
  uq_header :: string
  uq_method :: string
  uq_path :: string
  uq_body :: "json option"

definition loopback_host :: "string \<Rightarrow> bool" where
  "loopback_host host =
     ((case split_host host of Some h \<Rightarrow> h | None \<Rightarrow> host) \<in> {''127.0.0.1'', ''localhost'', ''::1'', ''[::1]''})"

definition ui_authed :: "string \<Rightarrow> ui_request \<Rightarrow> bool" where
  "ui_authed token q =
     (loopback_host (uq_host q) \<and> (if uq_t q = [] then uq_header q else uq_t q) = token)"

definition bucket_rule :: "string \<Rightarrow> string \<Rightarrow> string list \<times> string list \<times> string list \<times> string list" where
  "bucket_rule kind v =
     (if kind = ''path'' then [v] else [], if kind = ''cmd'' then [v] else [],
      if kind = ''host'' then [v] else [], if kind = ''tool'' then [v] else [])"

definition decode_edit :: "json option \<Rightarrow> (string \<times> string) option" where
  "decode_edit b =
     (case b of
        None \<Rightarrow> None
      | Some (JObj kvs) \<Rightarrow>
          (case (decode_string_field ''type'' [] kvs, decode_string_field ''value'' [] kvs) of
             (Some t, Some v) \<Rightarrow> Some (t, v) | _ \<Rightarrow> None)
      | Some JNull \<Rightarrow> Some ([], [])
      | Some _ \<Rightarrow> None)"

definition edit_overlay :: "bool \<Rightarrow> string list \<times> string list \<times> string list \<times> string list \<Rightarrow> overlay \<Rightarrow> overlay" where
  "edit_overlay add rules v =
     (case rules of (ps, cs, hs, ts) \<Rightarrow> (if add then overlay_add ps cs hs ts v else overlay_remove ps cs hs ts v))"

text \<open>\<open>handleEdit\<close>: the status and the overlay's file. The error of \<open>LoadOverlay\<close> is dropped.\<close>

definition ui_edit :: "string \<Rightarrow> bool \<Rightarrow> ui_request \<Rightarrow> bool \<Rightarrow> content \<Rightarrow> nat \<times> content" where
  "ui_edit token add q writable c =
     (if \<not> ui_authed token q \<or> uq_method q \<noteq> ''POST'' then (403, c)
      else case decode_edit (uq_body q) of
        None \<Rightarrow> (400, c)
      | Some (kind, v) \<Rightarrow>
          (if v = [] then (400, c)
           else let ov = (case load_overlay c of Some (Some o') \<Rightarrow> o' | _ \<Rightarrow> no_overlay)
                in case save_overlay writable (edit_overlay add (bucket_rule kind v) ov) of
                     None \<Rightarrow> (500, c)
                   | Some c' \<Rightarrow> (200, c')))"

text \<open>\<open>handlePage\<close> answers with the page, \<open>handleState\<close> with the role shown and the overlay.\<close>

definition ui_page :: "ui_request \<Rightarrow> nat" where
  "ui_page q = (if uq_path q \<noteq> ''/'' then 404 else 200)"

definition ui_state :: "string \<Rightarrow> ui_request \<Rightarrow> string \<Rightarrow> content \<Rightarrow> nat \<times> (string \<times> overlay) option" where
  "ui_state token q role_name c =
     (if \<not> ui_authed token q then (403, None)
      else (200, Some (if role_name = [] then ''open'' else role_name,
                       case load_overlay c of Some (Some o') \<Rightarrow> o' | _ \<Rightarrow> no_overlay)))"

text \<open>One request to the server \<open>RunUI\<close> sets up.\<close>

definition ui_serve :: "string \<Rightarrow> ui_request \<Rightarrow> bool \<Rightarrow> content \<Rightarrow> nat \<times> content" where
  "ui_serve token q writable c =
     (if uq_path q = ''/api/deny'' then ui_edit token True q writable c
      else if uq_path q = ''/api/allow'' then ui_edit token False q writable c
      else if uq_path q = ''/api/state'' then (fst (ui_state token q [] c), c)
      else (ui_page q, c))"

section \<open>Subcommands\<close>

record overlay_flags =
  fl_paths :: "string list"
  fl_cmds :: "string list"
  fl_hosts :: "string list"
  fl_tools :: "string list"

definition flags_empty :: "overlay_flags \<Rightarrow> bool" where
  "flags_empty f = (length (fl_paths f) + length (fl_cmds f) + length (fl_hosts f) + length (fl_tools f) = 0)"

datatype cli_error =
    NothingToDeny
  | OverlayUnreadable
  | OverlayUnwritable
  | NoJtiGiven
  | TokenFileError
  | NoJtiInFile
  | SetupError setup_error

definition guard_deny :: "overlay_flags \<Rightarrow> bool \<Rightarrow> content \<Rightarrow> cli_error + content" where
  "guard_deny f writable c =
     reject (flags_empty f) NothingToDeny
       (and_then (need OverlayUnreadable (load_overlay c)) (\<lambda>v.
          let ov = (case v of None \<Rightarrow> no_overlay | Some o' \<Rightarrow> o')
          in need OverlayUnwritable (save_overlay writable (overlay_add (fl_paths f) (fl_cmds f) (fl_hosts f) (fl_tools f) ov))))"

definition guard_allow :: "overlay_flags \<Rightarrow> bool \<Rightarrow> content \<Rightarrow> cli_error + content" where
  "guard_allow f writable c =
     and_then (need OverlayUnreadable (load_overlay c)) (\<lambda>v.
       case v of
         None \<Rightarrow> Inr c
       | Some ov \<Rightarrow>
           need OverlayUnwritable (save_overlay writable (overlay_remove (fl_paths f) (fl_cmds f) (fl_hosts f) (fl_tools f) ov)))"

definition resolve_guard_dir :: "host \<Rightarrow> string \<Rightarrow> string \<Rightarrow> string" where
  "resolve_guard_dir ho d project =
     (if d \<noteq> [] then d
      else default_guard_dir ho (case abs_path (ho_wd ho) project of Some a \<Rightarrow> a | None \<Rightarrow> project))"

text \<open>\<open>splitScopes\<close>, with \<open>strings.FieldsFunc\<close> on commas and blanks.\<close>

fun split_scopes_from :: "string \<Rightarrow> string \<Rightarrow> string list" where
  "split_scopes_from w [] = (if w = [] then [] else [w])"
| "split_scopes_from w (c # cs) =
     (if c = CHR '','' \<or> c = CHR '' '' then (if w = [] then split_scopes_from [] cs else w # split_scopes_from [] cs)
      else split_scopes_from (w @ [c]) cs)"

definition split_scopes :: "string \<Rightarrow> string list" where
  "split_scopes s = split_scopes_from [] s"

definition cli_tools :: "string \<Rightarrow> string list" where
  "cli_tools tool =
     (if tool = [] \<or> tool = ''auto'' then []
      else if tool = ''all'' then [''claude-code'', ''codex'', ''opencode''] else [tool])"

definition guard_mint ::
    "('k, 'p) delegation_jwt \<Rightarrow> ('k, 'p) trust_dir \<Rightarrow> string option \<Rightarrow> string option \<Rightarrow> string \<Rightarrow> string \<Rightarrow> string \<Rightarrow> string
       \<Rightarrow> string \<Rightarrow> string \<Rightarrow> duration \<Rightarrow> instant \<Rightarrow> setup_error + string" where
  "guard_mint lib td rnd parent_text parent role_name user agent project scopes ttl now =
     (if parent \<noteq> [] then mint_child_token lib td rnd parent_text agent (split_scopes scopes) ttl now
      else mint_role_token lib td rnd role_name user agent project ttl now)"

definition guard_revoke ::
    "('k, 'p) feed_jwt \<Rightarrow> ('k, 'p) delegation_jwt \<Rightarrow> string \<Rightarrow> string \<Rightarrow> string option \<Rightarrow> instant \<Rightarrow> ('k, 'p) trust_dir
       \<Rightarrow> cli_error + int \<times> ('k, 'p) trust_dir" where
  "guard_revoke flib lib jti token_file token_text now td =
     reject (jti = [] \<and> token_file = []) NoJtiGiven
       (and_then (if jti \<noteq> [] then Inr jti
                  else and_then (need TokenFileError token_text) (\<lambda>b.
                         if jti_of lib b = [] then Inl NoJtiInFile else Inr (jti_of lib b))) (\<lambda>j.
          case revoke_jti flib j now td of Inl e \<Rightarrow> Inl (SetupError e) | Inr r \<Rightarrow> Inr r))"

section \<open>Rules as sets\<close>

lemma distinct_first_of_each: "distinct (first_of_each seen xs)"
  by (induction seen xs rule: first_of_each.induct) (auto simp: set_first_of_each)

lemma dedup_sort_eq_iff: "dedup_sort xs = dedup_sort ys \<longleftrightarrow> set xs - {[]} = set ys - {[]}"
proof
  assume "set xs - {[]} = set ys - {[]}"
  then show "dedup_sort xs = dedup_sort ys"
    by (intro sorted_distinct_set_unique) (simp_all add: set_dedup_sort, simp_all add: dedup_sort_def distinct_first_of_each)
qed (metis set_dedup_sort)

lemma dedup_sort_idem [simp]: "dedup_sort (dedup_sort xs) = dedup_sort xs"
  by (simp add: dedup_sort_eq_iff set_dedup_sort)

lemma normalize_idem [simp]: "normalize (normalize v) = normalize v"
  by (simp add: normalize_def)

lemma normalize_add [simp]: "normalize (overlay_add ps cs hs ts v) = overlay_add ps cs hs ts v"
  by (simp add: overlay_add_def)

lemma normalize_remove [simp]: "normalize (overlay_remove ps cs hs ts v) = overlay_remove ps cs hs ts v"
  by (simp add: overlay_remove_def)

lemma dedup_without: "dedup_sort (without (dedup_sort (xs @ ys)) ys) = dedup_sort xs" if "set xs \<inter> set ys = {}"
  using that by (auto simp: dedup_sort_eq_iff set_dedup_sort without_def)

lemma remove_added:
  assumes "set (ov_paths v) \<inter> set ps = {}" "set (ov_cmds v) \<inter> set cs = {}" "set (ov_hosts v) \<inter> set hs = {}" "set (ov_tools v) \<inter> set ts = {}"
  shows "overlay_remove ps cs hs ts (overlay_add ps cs hs ts v) = normalize v"
  using assms by (simp add: overlay_remove_def overlay_add_def normalize_def dedup_without)

section \<open>The file reads back\<close>

lemma fold_members:
  "fold_name ''deny_paths'' = ''deny_paths''" "fold_name ''deny_cmds'' = ''deny_cmds''"
  "fold_name ''deny_hosts'' = ''deny_hosts''" "fold_name ''deny_tools'' = ''deny_tools''"
  by code_simp+

lemma assign_fresh: "assign_strings [] (map JStr ss) = Some ss"
  by (induction ss) auto

lemma decode_member:
  "decode_strings name acc (string_member k ss @ r) =
     (if fold_name k = name \<and> ss \<noteq> [] then (case assign_strings acc (map JStr ss) of None \<Rightarrow> None | Some v \<Rightarrow> decode_strings name v r)
      else decode_strings name acc r)"
  by (simp add: string_member_def)

lemma decode_encode: "decode_overlay (encode_overlay v) = Some v"
  by (simp add: decode_overlay_def encode_overlay_def decode_member decode_member [where r = "[]", simplified] fold_members assign_fresh)

lemma load_saved: "save_overlay w v = Some c \<Longrightarrow> load_overlay c = Some (Some (normalize v))"
  by (auto simp: save_overlay_def load_overlay_def decode_encode split: if_splits)

text \<open>
  The rules \<open>guard deny\<close> writes are in the file afterwards beside those that were there, whatever the characters in
  them, and \<open>guard allow\<close> with the same rules takes exactly those away again; an unreadable file is never replaced.
\<close>

theorem deny_then_allow:
  assumes "guard_deny f w c = Inr c1" "guard_allow f w c1 = Inr c2"
  shows "\<exists>v v1 v2. load_overlay c = Some v \<and> load_overlay c1 = Some (Some v1) \<and> load_overlay c2 = Some (Some v2)
    \<and> set (ov_paths v1) = overlay_rules v ov_paths \<union> set (fl_paths f) - {[]} \<and> set (ov_cmds v1) = overlay_rules v ov_cmds \<union> set (fl_cmds f) - {[]}
    \<and> set (ov_hosts v1) = overlay_rules v ov_hosts \<union> set (fl_hosts f) - {[]} \<and> set (ov_tools v1) = overlay_rules v ov_tools \<union> set (fl_tools f) - {[]}
    \<and> (overlay_rules v ov_paths \<inter> set (fl_paths f) = {} \<longrightarrow> overlay_rules v ov_cmds \<inter> set (fl_cmds f) = {} \<longrightarrow>
       overlay_rules v ov_hosts \<inter> set (fl_hosts f) = {} \<longrightarrow> overlay_rules v ov_tools \<inter> set (fl_tools f) = {} \<longrightarrow>
       v2 = normalize (case v of None \<Rightarrow> no_overlay | Some o' \<Rightarrow> o'))"
proof -
  obtain v where v: "load_overlay c = Some v"
      "save_overlay w (overlay_add (fl_paths f) (fl_cmds f) (fl_hosts f) (fl_tools f) (case v of None \<Rightarrow> no_overlay | Some o' \<Rightarrow> o')) = Some c1"
    using assms(1) by (auto simp: guard_deny_def step_Inr_iff Let_def)
  let ?v = "case v of None \<Rightarrow> no_overlay | Some o' \<Rightarrow> o'"
  let ?v1 = "overlay_add (fl_paths f) (fl_cmds f) (fl_hosts f) (fl_tools f) ?v"
  let ?v2 = "overlay_remove (fl_paths f) (fl_cmds f) (fl_hosts f) (fl_tools f) ?v1"
  have c1: "load_overlay c1 = Some (Some ?v1)" using load_saved [OF v(2)] by simp
  then have "save_overlay w ?v2 = Some c2" using assms(2) by (auto simp: guard_allow_def step_Inr_iff)
  then have c2: "load_overlay c2 = Some (Some ?v2)" using load_saved by simp
  have rules: "overlay_rules v sel = set (sel ?v)" if "sel no_overlay = []" for sel
    using that by (cases v) (simp_all add: overlay_rules_def)
  have sets: "overlay_rules v ov_paths = set (ov_paths ?v)" "overlay_rules v ov_cmds = set (ov_cmds ?v)"
    "overlay_rules v ov_hosts = set (ov_hosts ?v)" "overlay_rules v ov_tools = set (ov_tools ?v)"
    by (simp_all add: rules no_overlay_def)
  have added: "set (ov_paths ?v1) = set (ov_paths ?v) \<union> set (fl_paths f) - {[]}" "set (ov_cmds ?v1) = set (ov_cmds ?v) \<union> set (fl_cmds f) - {[]}"
    "set (ov_hosts ?v1) = set (ov_hosts ?v) \<union> set (fl_hosts f) - {[]}" "set (ov_tools ?v1) = set (ov_tools ?v) \<union> set (fl_tools f) - {[]}"
    by (simp_all add: overlay_add_def normalize_def set_dedup_sort)
  show ?thesis
    by (rule exI [of _ v], rule exI [of _ ?v1], rule exI [of _ ?v2], intro conjI impI)
      (simp_all only: v(1) c1 c2 added sets, rule remove_added)
qed

lemma set_one_rule:
  assumes "x \<noteq> []"
  shows "set (dedup_sort (xs @ (if b then [x] else []))) = set xs - {[]} \<union> (if b then {x} else {})"
    and "set (dedup_sort (without xs (if b then [x] else []))) = set xs - {[]} - (if b then {x} else {})"
  using assms by (cases b; auto simp: set_dedup_sort without_def)+

lemma edited_rules:
  assumes "o' = (case l of Some (Some o'') \<Rightarrow> o'' | _ \<Rightarrow> no_overlay)"
    and "(name, sel) \<in> set [(''path'', ov_paths), (''cmd'', ov_cmds), (''host'', ov_hosts), (''tool'', ov_tools)]" and "x \<noteq> []"
  shows "set (sel (normalize (edit_overlay add (bucket_rule kind x) o'))) =
    (let old = (case l of None \<Rightarrow> {} | Some v \<Rightarrow> overlay_rules v sel) - {[]}; rule = (if kind = name then {x} else {})
     in if add then old \<union> rule else old - rule)"
proof -
  have old: "(case l of None \<Rightarrow> {} | Some v \<Rightarrow> overlay_rules v s) = set (s o')" if "s no_overlay = []" for s
    using that assms(1) by (auto simp: overlay_rules_def split: option.splits)
  have olds: "(case l of None \<Rightarrow> {} | Some v \<Rightarrow> overlay_rules v ov_paths) = set (ov_paths o')"
    "(case l of None \<Rightarrow> {} | Some v \<Rightarrow> overlay_rules v ov_cmds) = set (ov_cmds o')"
    "(case l of None \<Rightarrow> {} | Some v \<Rightarrow> overlay_rules v ov_hosts) = set (ov_hosts o')"
    "(case l of None \<Rightarrow> {} | Some v \<Rightarrow> overlay_rules v ov_tools) = set (ov_tools o')"
    by (rule old, simp add: no_overlay_def)+
  note edits = edit_overlay_def bucket_rule_def prod.case overlay_add_def overlay_remove_def normalize_def dedup_sort_idem
    overlay.select_convs set_one_rule [OF assms(3)] olds Let_def if_True if_False
  from assms(2) consider "name = ''path''" "sel = ov_paths" | "name = ''cmd''" "sel = ov_cmds"
    | "name = ''host''" "sel = ov_hosts" | "name = ''tool''" "sel = ov_tools"
    by (simp only: list.set insert_iff empty_iff prod.inject) blast
  then show ?thesis by cases (cases add; simp only: edits)+
qed

lemma panel_edits:
  assumes "ui_serve token q w c = (n, c')" "c' \<noteq> c"
  shows "loopback_host (uq_host q) \<and> (if uq_t q = [] then uq_header q else uq_t q) = token \<and> uq_method q = ''POST'' \<and> n = 200"
    and "uq_path q \<in> {''/api/deny'', ''/api/allow''}"
    and "\<exists>kind x. decode_edit (uq_body q) = Some (kind, x) \<and> x \<noteq> [] \<and> load_overlay c' =
           Some (Some (normalize (edit_overlay (uq_path q = ''/api/deny'') (bucket_rule kind x)
             (case load_overlay c of Some (Some o') \<Rightarrow> o' | _ \<Rightarrow> no_overlay))))"
proof -
  have e: "ui_edit token (uq_path q = ''/api/deny'') q w c = (n, c')" "uq_path q \<in> {''/api/deny'', ''/api/allow''}"
    using assms by (auto simp: ui_serve_def split: if_splits)
  have ok: "ui_authed token q" "uq_method q = ''POST''" using e(1) assms(2) by (auto simp: ui_edit_def split: if_splits)
  obtain kind x where r: "n = 200" "decode_edit (uq_body q) = Some (kind, x)" "x \<noteq> []"
      "save_overlay w (edit_overlay (uq_path q = ''/api/deny'') (bucket_rule kind x)
         (case load_overlay c of Some (Some o') \<Rightarrow> o' | _ \<Rightarrow> no_overlay)) = Some c'"
    using e(1) assms(2) ok by (auto simp: ui_edit_def Let_def split: option.splits if_splits)
  show "loopback_host (uq_host q) \<and> (if uq_t q = [] then uq_header q else uq_t q) = token \<and> uq_method q = ''POST'' \<and> n = 200"
    using ok r(1) by (simp add: ui_authed_def)
  show "uq_path q \<in> {''/api/deny'', ''/api/allow''}" by (rule e(2))
  show "\<exists>kind x. decode_edit (uq_body q) = Some (kind, x) \<and> x \<noteq> [] \<and> load_overlay c' =
           Some (Some (normalize (edit_overlay (uq_path q = ''/api/deny'') (bucket_rule kind x)
             (case load_overlay c of Some (Some o') \<Rightarrow> o' | _ \<Rightarrow> no_overlay))))"
    using r(2,3) load_saved [OF r(4)] by blast
qed

text \<open>
  C28: the control panel changes the overlay's file only for a POST request to one of its two edit routes that was sent to a
  loopback name and carries the token of this run, and answers it with 200. The file then holds exactly the rules that could
  be read from it before, with the one rule of the request added by a deny and taken away by an allow; of an overlay that
  could not be read nothing is kept (\<open>malformed_overlay_replaced\<close>).
\<close>

theorem panel_edits_guarded:
  assumes "ui_serve token q w c = (n, c')" "c' \<noteq> c"
  shows "loopback_host (uq_host q) \<and> (if uq_t q = [] then uq_header q else uq_t q) = token \<and> uq_method q = ''POST'' \<and> n = 200
    \<and> uq_path q \<in> {''/api/deny'', ''/api/allow''}
    \<and> (\<exists>v' kind x. load_overlay c' = Some (Some v') \<and> decode_edit (uq_body q) = Some (kind, x) \<and> x \<noteq> [] \<and>
         (\<forall>(name, sel) \<in> set [(''path'', ov_paths), (''cmd'', ov_cmds), (''host'', ov_hosts), (''tool'', ov_tools)].
            set (sel v') = (let old = (case load_overlay c of None \<Rightarrow> {} | Some v \<Rightarrow> overlay_rules v sel) - {[]};
                                rule = (if kind = name then {x} else {})
                            in if uq_path q = ''/api/deny'' then old \<union> rule else old - rule)))"
proof -
  obtain kind x where e: "decode_edit (uq_body q) = Some (kind, x)" "x \<noteq> []" "load_overlay c' =
      Some (Some (normalize (edit_overlay (uq_path q = ''/api/deny'') (bucket_rule kind x)
        (case load_overlay c of Some (Some o') \<Rightarrow> o' | _ \<Rightarrow> no_overlay))))"
    using panel_edits(3) [OF assms] by blast
  then show ?thesis using panel_edits(1,2) [OF assms] edited_rules [OF refl _ e(2)] by blast
qed

section \<open>The view of a rule\<close>

text \<open>\<open>prettyRule\<close> and \<open>splitRules\<close>.\<close>

definition pretty_rule :: "string \<Rightarrow> string" where
  "pretty_rule r =
     (if has_prefix ''path:'' r then ''path '' @ trim_prefix ''path:'' r
      else if has_prefix ''cmd:'' r then ''command '' @ trim_prefix ''cmd:'' r
      else if has_prefix ''host:'' r then ''host '' @ trim_prefix ''host:'' r
      else if has_prefix ''tool:'' r then ''tool '' @ trim_prefix ''tool:'' r
      else r)"

fun sort_out :: "string list \<Rightarrow> string list \<Rightarrow> string list \<Rightarrow> string list \<times> string list" where
  "sort_out grants refusals [] = (sort grants, sort refusals)"
| "sort_out grants refusals (r # rs) =
     (if r = deny_all then sort_out grants (refusals @ [''EVERYTHING (attenuated to nothing)'']) rs
      else if has_prefix ''deny-'' r then sort_out grants (refusals @ [pretty_rule (trim_prefix ''deny-'' r)]) rs
      else sort_out (grants @ [pretty_rule r]) refusals rs)"

definition split_rules :: "string list \<Rightarrow> string list \<times> string list" where
  "split_rules resources = sort_out [] [] resources"

definition provenance_of :: "string \<Rightarrow> act_claim option \<Rightarrow> string list" where
  "provenance_of subject act = subject # rev (act_chain act)"

datatype rule_status = RuleValid | RuleUnchecked | RuleInvalid jwt_error | RuleRevoked

definition rule_status_of ::
    "('k, 'p) delegation_jwt \<Rightarrow> (string \<times> 'p) list \<Rightarrow> signed_feed option \<Rightarrow> instant \<Rightarrow> string \<Rightarrow> claims \<Rightarrow> rule_status" where
  "rule_status_of lib keys feed now tok c =
     (if keys = [] then RuleUnchecked
      else case verify_any lib \<lparr>vf_issuer = rc_iss c, vf_keys = map_of keys\<rparr> now tok of
             Inl e \<Rightarrow> RuleInvalid e
           | Inr _ \<Rightarrow> if rc_jti c \<noteq> [] \<and> sf_is_revoked feed (rc_jti c) then RuleRevoked else RuleValid)"

text \<open>The lines of \<open>RenderRule\<close> as values; the payload is decoded without its signature being checked.\<close>

record rule_view =
  rv_status :: rule_status
  rv_subject :: string
  rv_chain :: "string list"
  rv_audience :: "string list"
  rv_scope :: string
  rv_amount :: "f64 option"
  rv_categories :: "string list"
  rv_allow :: "string list"
  rv_tools :: "string list"
  rv_deny :: "string list"
  rv_window :: "time_window option"
  rv_expires :: "instant option"
  rv_jti :: string

definition render_rule ::
    "('k, 'p) delegation_jwt \<Rightarrow> (string \<times> 'p) list \<Rightarrow> signed_feed option \<Rightarrow> instant \<Rightarrow> string \<Rightarrow> rule_view option" where
  "render_rule lib keys feed now text0 =
     (let tok = trim_token text0
      in case jl_claims lib tok of
           None \<Rightarrow> None
         | Some c \<Rightarrow>
             let k = (case cl_constraints c of None \<Rightarrow> no_constraints | Some k \<Rightarrow> k);
                 (grants, refusals) = split_rules (cn_resources k)
             in Some \<lparr>rv_status = rule_status_of lib keys feed now tok c, rv_subject = rc_sub c,
                  rv_chain = provenance_of (rc_sub c) (cl_act c), rv_audience = rc_aud c, rv_scope = scope_or_none (cl_scope c),
                  rv_amount = cn_max_amount k, rv_categories = cn_categories k, rv_allow = grants, rv_tools = cn_tools k,
                  rv_deny = refusals, rv_window = cn_time_window k,
                  rv_expires = (case rc_exp c of Some e \<Rightarrow> if e > 0 then Some e else None | None \<Rightarrow> None), rv_jti = rc_jti c\<rparr>)"

text \<open>\<open>ShowFromDir\<close>: the feed is read as well as it can be.\<close>

datatype show_error = ShowNoJwks | ShowNoToken | ShowNotAToken

definition show_from_dir ::
    "('k, 'p) feed_jwt \<Rightarrow> ('k, 'p) delegation_jwt \<Rightarrow> (string \<times> 'p) list option \<Rightarrow> file_read \<Rightarrow> string option \<Rightarrow> instant
       \<Rightarrow> show_error + rule_view" where
  "show_from_dir flib lib jwks feed_file token_text now =
     and_then (need ShowNoJwks jwks) (\<lambda>keys.
     and_then (need ShowNoToken token_text) (\<lambda>t.
       let feed = (case load_signed_feed_file flib now feed_file default_issuer (map_of keys) of Inl _ \<Rightarrow> None | Inr f \<Rightarrow> f)
       in need ShowNotAToken (render_rule lib keys feed now t)))"

definition is_denial :: "string \<Rightarrow> bool" where
  "is_denial r \<longleftrightarrow> r = deny_all \<or> has_prefix ''deny-'' r"

definition shown_denial :: "string \<Rightarrow> string" where
  "shown_denial r = (if r = deny_all then ''EVERYTHING (attenuated to nothing)'' else pretty_rule (trim_prefix ''deny-'' r))"

lemma sort_out_eq:
  "sort_out as ds rs = (sort (as @ map pretty_rule (filter (\<lambda>r. \<not> is_denial r) rs)), sort (ds @ map shown_denial (filter is_denial rs)))"
proof (induction rs arbitrary: as ds)
  case (Cons r rs)
  then show ?case by (simp only: sort_out.simps list.map filter.simps is_denial_def shown_denial_def) (simp split: if_split)
qed simp

lemma split_rules_eq:
  "split_rules rs = (sort (map pretty_rule (filter (\<lambda>r. \<not> is_denial r) rs)), sort (map shown_denial (filter is_denial rs)))"
  by (simp add: split_rules_def sort_out_eq)

text \<open>Every entry of the token is shown, on the side the guard reads it on.\<close>

lemma rendered:
  assumes "render_rule lib keys feed now t = Some v" "jl_claims lib (trim_token t) = Some c"
  shows "rv_status v = rule_status_of lib keys feed now (trim_token t) c" "rv_chain v = provenance_of (rc_sub c) (cl_act c)"
    "(rv_allow v, rv_deny v) = split_rules (cn_resources (case cl_constraints c of None \<Rightarrow> no_constraints | Some k \<Rightarrow> k))"
  using assms by (auto simp: render_rule_def Let_def split: prod.splits)

lemma shown_rules:
  assumes "render_rule lib keys feed now t = Some v" "jl_claims lib (trim_token t) = Some c" "cl_constraints c = Some k" "r \<in> set (cn_resources k)"
  shows "if is_denial r then shown_denial r \<in> set (rv_deny v) else pretty_rule r \<in> set (rv_allow v)"
  using rendered(3) [OF assms(1,2)] assms(3,4) by (simp add: split_rules_eq)

lemma shown_valid_was_signed:
  assumes "jwt_laws lib" "render_rule lib keys feed now t = Some v" "rv_status v = RuleValid"
    and "jl_claims lib (trim_token t) = Some c" "rc_iss c \<noteq> []"
  shows "\<exists>p. map_of keys (jl_kid lib (trim_token t)) = Some p \<and> jl_sig lib p (trim_token t)"
proof -
  have "rule_status_of lib keys feed now (trim_token t) c = RuleValid"
    using rendered(1) [OF assms(2,4)] assms(3) by simp
  then obtain c' where "verify_any lib \<lparr>vf_issuer = rc_iss c, vf_keys = map_of keys\<rparr> now (trim_token t) = Inr c'"
    by (auto simp: rule_status_of_def split: if_splits sum.splits)
  then show ?thesis using assms(1,5) by (auto simp: verify_any_iff)
qed

section \<open>Examples\<close>

definition usual_numbers :: "string \<Rightarrow> string option" where
  "usual_numbers s = Some s"

lemma usual_numbers: "idempotent usual_numbers"
  by (simp add: idempotent_def usual_numbers_def)

text \<open>A settings file with a hook of its own, and the one the installation makes of it.\<close>

definition other_block :: json where
  "other_block = JObj [(''hooks'', JArr [JObj [(''command'', JStr ''echo hi''), (''type'', JStr ''command'')]]), (''matcher'', JStr ''Bash'')]"

definition some_settings :: "(string \<times> json) list" where
  "some_settings = [(''hooks'', JObj [(''PreToolUse'', JArr [other_block])]), (''model'', JStr ''opus'')]"

definition own_cmd :: string where
  "own_cmd = inline_env_command (guard_env ''/g'' ''/g/open.jwt'') ''/bin/legant''"

lemma sample_merge:
  "go_value usual_numbers (JObj some_settings) = Some (JObj some_settings)" "\<not> list_ex block_has_legant [other_block]"
  by code_simp+

lemma sample_merge_runs: "\<exists>j. merge_pre_tool_use usual_numbers ''*'' own_cmd (Doc (JObj some_settings)) = Merged j"
  using sample_merge(1) by (simp add: merge_result_iff start_root_def parse_root_def del: go_value.simps)

theorem uninstall_restores_witness:
  "\<exists>j. merge_pre_tool_use usual_numbers ''*'' own_cmd (Doc (JObj some_settings)) = Merged j \<and>
     strip_legant usual_numbers (Doc j) = Some (JObj some_settings)"
proof -
  obtain j where "merge_pre_tool_use usual_numbers ''*'' own_cmd (Doc (JObj some_settings)) = Merged j" using sample_merge_runs by blast
  moreover have "map_of some_settings ''hooks'' = Some (JObj [(''PreToolUse'', JArr [other_block])])" by (simp add: some_settings_def)
  ultimately show ?thesis
    using uninstall_restores [OF usual_numbers sample_merge(1), of "[(''PreToolUse'', JArr [other_block])]" "[other_block]"] sample_merge(2)
    by (auto simp: own_cmd_def)
qed

theorem install_replaces_own_block_witness:
  "\<exists>j. merge_pre_tool_use usual_numbers ''*'' own_cmd (Doc (JObj some_settings)) = Merged j \<and>
     merge_pre_tool_use usual_numbers ''*'' own_cmd (Doc j) = Merged j"
proof -
  obtain j where "merge_pre_tool_use usual_numbers ''*'' own_cmd (Doc (JObj some_settings)) = Merged j" using sample_merge_runs by blast
  moreover from this have "merge_pre_tool_use usual_numbers ''*'' own_cmd (Doc j) = merge_pre_tool_use usual_numbers ''*'' own_cmd (Doc (JObj some_settings))"
    unfolding own_cmd_def by (rule install_replaces_own_block [OF usual_numbers, THEN conjunct2])
  ultimately show ?thesis by auto
qed

definition sample_host :: host where
  "sample_host = \<lparr>ho_wd = Some ''/w'', ho_home = Some ''/h'', ho_config = Some ''/c'', ho_tmp = ''/t'', ho_exe = Some ''/bin/legant'',
     ho_on_path = (\<lambda>_. False), ho_is_dir = (\<lambda>_. False), ho_can_write = (\<lambda>_. True), ho_can_remove = (\<lambda>_. True)\<rparr>"

theorem uninstall_clears_every_place_witness:
  "\<not> hooked usual_numbers (snd (uninstall usual_numbers sample_host ''/p'' (\<lambda>_. Missing)) (claude_settings ''/p''))"
proof -
  obtain out fs where u: "uninstall usual_numbers sample_host ''/p'' (\<lambda>_. Missing) = (out, fs)" by (metis surj_pair)
  have "\<forall>p \<in> set (hook_places sample_host (abs_or_same (ho_wd sample_host) ''/p'')). \<not> hooked usual_numbers (fs p)"
    by (rule uninstall_clears_every_place(1) [OF usual_numbers _ _ u]) (simp_all add: sample_host_def)
  moreover have "abs_or_same (ho_wd sample_host) ''/p'' = ''/p''" by code_simp
  ultimately show ?thesis by (simp add: u hook_places_def)
qed

definition sample_machine :: "(unit, unit) machine" where
  "sample_machine =
     \<lparr>mc_dirs = (\<lambda>d. \<lparr>td_key = Some (), td_jwks = Some [local_kid \<mapsto> ()], td_feed = None, td_tokens = [(''open.jwt'', ''tok'')]\<rparr>),
      mc_files = (\<lambda>p. Missing)\<rparr>"

definition sample_options :: install_options where
  "sample_options = \<lparr>io_dir = ''/g'', io_project = ''/p'', io_role = [], io_binary = ''/bin/legant'', io_tools = [''opencode'', ''cursor''],
     io_user_scope = False\<rparr>"

lemma sample_install:
  "fst (install local_feeds family_lib () (\<lambda>_. None) 0 usual_numbers sample_host sample_options sample_machine) =
     [(''opencode'', ''/p/.opencode/plugin/legant-guard.ts'')]"
  by code_simp

theorem install_wires_agents_witness:
  "wired_with usual_numbers (guard_env ''/g'' ''/g/open.jwt'') ''/bin/legant''
     (mc_files (snd (snd (install local_feeds family_lib () (\<lambda>_. None) 0 usual_numbers sample_host sample_options sample_machine)))
        ''/p/.opencode/plugin/legant-guard.ts'')"
proof -
  obtain rs e m' where i: "install local_feeds family_lib () (\<lambda>_. None) 0 usual_numbers sample_host sample_options sample_machine = (rs, e, m')"
    by (metis surj_pair)
  have rs: "rs = [(''opencode'', ''/p/.opencode/plugin/legant-guard.ts'')]" using sample_install i by simp
  have places: "install_dir sample_host sample_options = ''/g''"
    "role_token_file ''/g'' (role_or_open (io_role sample_options)) = ''/g/open.jwt''" by code_simp+
  have "rs \<noteq> []" using rs by simp
  moreover have "''/bin/legant'' = (if io_binary sample_options \<noteq> [] then io_binary sample_options
      else case ho_exe sample_host of Some e \<Rightarrow> e | None \<Rightarrow> ''legant'')" by code_simp
  ultimately show ?thesis using install_wires_agents [OF usual_numbers i _ refl refl] rs i by (simp add: places)
qed

definition sample_flags :: overlay_flags where
  "sample_flags = \<lparr>fl_paths = [''./prod''], fl_cmds = [], fl_hosts = [], fl_tools = []\<rparr>"

lemma sample_deny:
  "guard_deny sample_flags True Missing = Inr (Doc (JObj [(''deny_paths'', JArr [JStr ''./prod''])]))"
  "guard_allow sample_flags True (Doc (JObj [(''deny_paths'', JArr [JStr ''./prod''])])) = Inr (Doc (JObj []))"
  by code_simp+

theorem deny_then_allow_witness:
  "\<exists>v1. load_overlay (Doc (JObj [(''deny_paths'', JArr [JStr ''./prod''])])) = Some (Some v1) \<and> set (ov_paths v1) = {''./prod''}"
  using deny_then_allow [OF sample_deny] by (auto simp: load_overlay_def [of Missing] overlay_rules_def sample_flags_def)

definition deny_request :: ui_request where
  "deny_request = \<lparr>uq_host = ''127.0.0.1:4040'', uq_t = [], uq_header = ''0af3'', uq_method = ''POST'', uq_path = ''/api/deny'',
     uq_body = Some (JObj [(''type'', JStr ''cmd''), (''value'', JStr ''curl'')])\<rparr>"

lemma deny_request_served:
  "ui_serve ''0af3'' deny_request True Missing = (200, Doc (JObj [(''deny_cmds'', JArr [JStr ''curl''])]))"
  by code_simp

theorem panel_edits_guarded_witness:
  "uq_method deny_request = ''POST'' \<and> loopback_host (uq_host deny_request)"
  using panel_edits_guarded [OF deny_request_served] by simp

section \<open>Where the code falls short\<close>

text \<open>The page itself is served to anybody, whatever the \<open>Host\<close> and without the token.\<close>

lemma page_needs_no_token: "uq_path q = ''/'' \<Longrightarrow> ui_page q = 200"
  by (simp add: ui_page_def)

text \<open>An edit in the panel replaces an overlay it could not read, where the command line refuses.\<close>

lemma malformed_overlay_replaced:
  "ui_serve ''0af3'' deny_request True Garbage = (200, Doc (JObj [(''deny_cmds'', JArr [JStr ''curl''])]))"
  "guard_deny sample_flags True Garbage = Inl OverlayUnreadable"
  by code_simp+

text \<open>Two projects with the same last element share one guard directory, so the second is given tokens for the first one's paths.\<close>

lemma same_name_same_dir: "default_guard_dir sample_host ''/a/app'' = default_guard_dir sample_host ''/b/app''"
  by code_simp

text \<open>A settings file that holds \<open>null\<close> makes the installer panic; one whose hooks are not an object loses them.\<close>

lemma null_settings_panic: "merge_pre_tool_use num matcher cmd (Doc JNull) = Panics"
  by (simp add: merge_pre_tool_use_def parse_root_def)

lemma hooks_of_other_type_lost:
  "\<exists>m. merge_pre_tool_use usual_numbers ''*'' own_cmd (Doc (JObj [(''hooks'', JArr [JStr ''mine''])])) = Merged (JObj m) \<and>
     (\<exists>h. map_of m ''hooks'' = Some (JObj h))"
  by (simp add: merge_pre_tool_use_def parse_root_def hooks_of_def as_map_def usual_numbers_def put_def)

text \<open>A block is dropped as a whole, with the hooks somebody added to it.\<close>

definition shared_block :: json where
  "shared_block = JObj [(''hooks'', JArr [JObj [(''command'', JStr ''env LEGANT_GUARD_FEED=f legant guard check'')], JObj [(''command'', JStr ''my-audit'')]])]"

lemma shared_block_dropped: "foreign [shared_block] = []"
  by code_simp

text \<open>A strip that cannot be written is reported as done.\<close>

lemma unwritten_removal_reported:
  assumes "strip_legant num (files p) = Some j" "\<not> ho_can_write ho p"
  shows "remove_hook num ho p files = (True, files)"
  using assms by (simp add: remove_hook_def)

text \<open>The view calls a token valid whatever its issuer, since it checks the issuer against the token's own.\<close>

definition foreign_claims :: claims where
  "foreign_claims = parent_claims\<lparr>rc_iss := ''https://other''\<rparr>"

lemma shown_valid_but_blocked:
  "map_option rv_status (render_rule (one_token_lib local_kid foreign_claims ''tok'') [(local_kid, ())] None 0 ''tok'') = Some RuleValid"
  "de_block (decide (one_token_lib local_kid foreign_claims ''tok'') two_url_lib utc_only no_links 0 (family_guard\<lparr>gd_token := ''tok''\<rparr>) (read_call ''src/a''))"
  by code_simp+

end
