(* ===== verification/Operations.thy ===== *)
theory Operations
  imports GuardPanel GrantsApply Keystore AuditChain Gateway
begin

text \<open>
  Running the program: the configuration it starts from (\<open>internal/config/config.go\<close>), the migrations (\<open>internal/db/db.go\<close>), the
  readiness probes and the routes (\<open>internal/server/server.go\<close>) with the metadata that advertises them
  (\<open>internal/auth/discovery.go\<close>), and the operator's commands (\<open>cmd/legant/main.go\<close>, \<open>grants.go\<close>, \<open>keystore_mint.go\<close>).

  Reading files and the environment is Viper's, HKDF is Go's, running a migration is golang-migrate's: those are parameters. A
  command is the error it returns, if any, and what it leaves.
\<close>

section \<open>Configuration\<close>

record secrets =
  sec_system :: string
  sec_cookie :: string
  sec_key_encryption :: string

datatype config_fault =
    SystemMissing
  | SystemShort
  | CookieMissing
  | CookieShort
  | KeyEncryptionShort
  | NoKeyMaterial

definition validate_server :: "secrets \<Rightarrow> config_fault option" where
  "validate_server c =
     (if sec_system c = [] then Some SystemMissing
      else if length (sec_system c) < 32 then Some SystemShort
      else if sec_cookie c = [] then Some CookieMissing
      else if length (sec_cookie c) < 32 then Some CookieShort
      else if sec_key_encryption c \<noteq> [] \<and> length (sec_key_encryption c) < 32 then Some KeyEncryptionShort
      else None)"

definition validate_minimal :: "secrets \<Rightarrow> config_fault option" where
  "validate_minimal c =
     (if sec_key_encryption c \<noteq> [] \<and> length (sec_key_encryption c) < 32 then Some KeyEncryptionShort else None)"

definition validate_gateway :: "secrets \<Rightarrow> config_fault option" where
  "validate_gateway c =
     (if sec_key_encryption c = [] \<and> sec_system c = [] then Some NoKeyMaterial
      else if sec_key_encryption c \<noteq> [] \<and> length (sec_key_encryption c) < 32 then Some KeyEncryptionShort
      else if sec_system c \<noteq> [] \<and> length (sec_system c) < 32 then Some SystemShort
      else None)"

definition derive_key :: "(string \<Rightarrow> string \<Rightarrow> string option) \<Rightarrow> string \<Rightarrow> string \<Rightarrow> string option" where
  "derive_key hkdf master info = (if master = [] then None else hkdf master info)"

definition key_encryption_material :: "(string \<Rightarrow> string \<Rightarrow> string option) \<Rightarrow> secrets \<Rightarrow> string option" where
  "key_encryption_material hkdf s =
     (if sec_key_encryption s \<noteq> [] then Some (sec_key_encryption s)
      else derive_key hkdf (sec_system s) ''legant-key-encryption-v1'')"

text \<open>HKDF-SHA256 for 32 bytes: it has no reason to fail, and its answer has that length.\<close>

definition hkdf_law :: "(string \<Rightarrow> string \<Rightarrow> string option) \<Rightarrow> bool" where
  "hkdf_law hkdf \<longleftrightarrow> (\<forall>m info. \<exists>k. hkdf m info = Some k \<and> length k = 32)"

section \<open>Migrations\<close>

datatype version_answer = NilVersion | VersionFails | Version nat bool

datatype up_answer = UpDone | UpNoChange | UpFails

record 'd migrator =
  mi_version :: "'d \<Rightarrow> version_answer"
  mi_up :: "'d \<Rightarrow> up_answer \<times> 'd"
  mi_down :: "'d \<Rightarrow> up_answer \<times> 'd"

datatype migration_error = NoMigrator | VersionUnread | DirtyAt nat | MigrationFailed | AllRequired

text \<open>\<open>newMigrator\<close> gives \<^const>\<open>None\<close> when the source or the database cannot be opened.\<close>

definition run_migrations :: "'d migrator option \<Rightarrow> 'd \<Rightarrow> migration_error option \<times> 'd" where
  "run_migrations m d =
     (case m of
        None \<Rightarrow> (Some NoMigrator, d)
      | Some mi \<Rightarrow>
          (case mi_version mi d of
             VersionFails \<Rightarrow> (Some VersionUnread, d)
           | Version v True \<Rightarrow> (Some (DirtyAt v), d)
           | _ \<Rightarrow> (case mi_up mi d of (UpFails, d') \<Rightarrow> (Some MigrationFailed, d') | (_, d') \<Rightarrow> (None, d'))))"

definition migrate_down_all :: "'d migrator option \<Rightarrow> 'd \<Rightarrow> migration_error option \<times> 'd" where
  "migrate_down_all m d =
     (case m of
        None \<Rightarrow> (Some NoMigrator, d)
      | Some mi \<Rightarrow> (case mi_down mi d of (UpFails, d') \<Rightarrow> (Some MigrationFailed, d') | (_, d') \<Rightarrow> (None, d')))"

definition migrate_down_command :: "bool \<Rightarrow> 'd migrator option \<Rightarrow> 'd \<Rightarrow> migration_error option \<times> 'd" where
  "migrate_down_command everything m d = (if \<not> everything then (Some AllRequired, d) else migrate_down_all m d)"

definition migration_status :: "'d migrator option \<Rightarrow> 'd \<Rightarrow> migration_error + nat \<times> bool" where
  "migration_status m d =
     (case m of
        None \<Rightarrow> Inl NoMigrator
      | Some mi \<Rightarrow>
          (case mi_version mi d of NilVersion \<Rightarrow> Inr (0, False) | VersionFails \<Rightarrow> Inl VersionUnread | Version v b \<Rightarrow> Inr (v, b)))"

text \<open>\<open>WithTx\<close>: the state counts only when the function succeeded and the commit did.\<close>

datatype 'e tx_error = BeginFails | CommitFails | Within 'e

definition with_tx :: "bool \<Rightarrow> bool \<Rightarrow> ('s \<Rightarrow> 'e + 's) \<Rightarrow> 's \<Rightarrow> 'e tx_error option \<times> 's" where
  "with_tx begins commits f s =
     (if \<not> begins then (Some BeginFails, s)
      else case f s of
             Inl e \<Rightarrow> (Some (Within e), s)
           | Inr s' \<Rightarrow> if commits then (None, s') else (Some CommitFails, s))"

section \<open>Readiness\<close>

text \<open>\<open>dirty\<close> is what the query on \<open>schema_migrations\<close> reads, \<^const>\<open>None\<close> when it fails.\<close>

definition server_ready :: "bool \<Rightarrow> ('k, 'p) keystore \<Rightarrow> bool option \<Rightarrow> nat" where
  "server_ready ping ks dirty =
     (if \<not> ping then 503
      else if active_kid ks = [] then 503
      else case dirty of None \<Rightarrow> 503 | Some b \<Rightarrow> if b then 503 else 200)"

definition gateway_ready :: "bool \<Rightarrow> ('k, 'p) keystore \<Rightarrow> nat" where
  "gateway_ready ping ks = (if \<not> ping then 503 else if active_kid ks = [] then 503 else 200)"

section \<open>Metadata and routes\<close>

record discovery =
  dy_issuer :: string
  dy_endpoints :: "(string \<times> string) list"
  dy_scopes :: "string list"
  dy_grant_types :: "string list"
  dy_auth_methods :: "string list"
  dy_challenge_methods :: "string list"
  dy_algorithms :: "string list"

text \<open>\<open>BuildMetadata\<close>: the endpoints with the method a client calls them with, which the standards fix.\<close>

definition build_metadata :: "string \<Rightarrow> discovery" where
  "build_metadata issuer =
     \<lparr>dy_issuer = issuer,
      dy_endpoints = [(''GET'', issuer @ ''/oauth2/authorize''), (''POST'', issuer @ ''/oauth2/token''), (''GET'', issuer @ ''/oauth2/userinfo''),
        (''GET'', issuer @ ''/.well-known/jwks.json''), (''POST'', issuer @ ''/oauth2/revoke''), (''POST'', issuer @ ''/oauth2/introspect''),
        (''POST'', issuer @ ''/oauth2/register'')],
      dy_scopes = [''openid'', ''offline_access''],
      dy_grant_types = [''authorization_code'', ''client_credentials'', ''refresh_token'', ''urn:ietf:params:oauth:grant-type:token-exchange''],
      dy_auth_methods = [''client_secret_basic'', ''client_secret_post'', ''none''],
      dy_challenge_methods = [''S256''], dy_algorithms = [''RS256'']\<rparr>"

text \<open>Who may pass to a route before its handler runs: anybody, anybody at a limited rate, a principal, one of a role.\<close>

datatype gate = Open | Limited nat | Principal | AdminOnly | SuperadminOnly

text \<open>\<open>registerRoutes\<close>; a mounted router stands for all the paths below it.\<close>

definition server_routes :: "(string \<times> string \<times> gate) list" where
  "server_routes =
     [(''GET'', ''/metrics'', Open), (''GET'', ''/healthz'', Open), (''GET'', ''/readyz'', Open),
      (''GET'', ''/.well-known/openid-configuration'', Open), (''GET'', ''/.well-known/oauth-authorization-server'', Open),
      (''GET'', ''/.well-known/jwks.json'', Open), (''GET'', ''/.well-known/revoked'', Open),
      (''GET'', ''/oauth2/authorize'', Open), (''POST'', ''/oauth2/token'', Limited 60), (''POST'', ''/oauth2/revoke'', Open),
      (''POST'', ''/oauth2/introspect'', Principal), (''GET'', ''/oauth2/userinfo'', Open), (''POST'', ''/oauth2/register'', Limited 10),
      (''POST'', ''/consent/delegate'', Open), (''POST'', ''/delegations/redelegate'', Principal),
      (''GET'', ''/login'', Open), (''POST'', ''/login'', Open), (''GET'', ''/register'', Open), (''POST'', ''/register'', Open),
      (''POST'', ''/logout'', Open), (''GET'', ''/account/delegations'', Open), (''POST'', ''/account/delegations/{id}/revoke'', Open),
      (''GET'', ''/admin/audit'', Open), (''GET'', ''/admin/live'', Open), (''GET'', ''/admin/live/snapshot'', Open),
      (''GET'', ''/admin/live/events'', Open), (''POST'', ''/admin/live/ingest'', Open), (''GET'', ''/'', Open),
      (''GET'', ''/invitations/accept'', Open), (''GET'', ''/verify-email'', Open), (''POST'', ''/forgot-password'', Open),
      (''POST'', ''/reset-password'', Open), (''POST'', ''/magic-link'', Open), (''GET'', ''/magic-login'', Open),
      (''*'', ''/scim/v2'', SuperadminOnly), (''*'', ''/api/v1/users'', SuperadminOnly), (''*'', ''/api/v1/clients'', SuperadminOnly),
      (''*'', ''/api/v1/orgs'', SuperadminOnly), (''*'', ''/api/v1/apikeys'', SuperadminOnly), (''*'', ''/api/v1/audit'', SuperadminOnly),
      (''*'', ''/api/v1/gateway/upstreams'', SuperadminOnly), (''*'', ''/api/v1/agents'', AdminOnly)]"

text \<open>What is advertised is served, by the method it is called with and from the place of the issuer.\<close>

lemma advertised_is_routed:
  "\<forall>(meth, url) \<in> set (dy_endpoints (build_metadata issuer)). \<exists>path g. url = issuer @ path \<and> (meth, path, g) \<in> set server_routes"
  by (simp add: build_metadata_def server_routes_def)

text \<open>Nothing below the API or the directory interface is open, and only agents are left to the owners and admins of an organization.\<close>

lemma api_is_gated:
  "list_all (\<lambda>(meth, path, g). has_prefix ''/api/'' path \<or> has_prefix ''/scim/'' path \<longrightarrow>
     g = SuperadminOnly \<or> g = AdminOnly \<and> path = ''/api/v1/agents'') server_routes"
  by code_simp

section \<open>Commands on the audit log and the keys\<close>

datatype command_error =
    ConfigInvalid config_fault
  | AuditFailed audit_error
  | ChainBroken string int int
  | AnchorNotWritten audit_error
  | AnchorMismatch string int int
  | KeystoreFailed keystore_error
  | SecretTooShort
  | NoSuchUser
  | DatabaseError

text \<open>
  \<open>legant audit verify\<close>, on the tables as its verification finds them and as its anchor, which verifies again, does. What fails
  is a non-zero exit.
\<close>

definition audit_verify_command ::
    "(string \<Rightarrow> string) \<Rightarrow> bool \<Rightarrow> int \<Rightarrow> bool \<Rightarrow> audit_db \<Rightarrow> audit_db \<Rightarrow> command_error option \<times> audit_db" where
  "audit_verify_command h no_anchor created up s1 s2 =
     (case verify_now h s1 of
        Inl e \<Rightarrow> (Some (AuditFailed e), s2)
      | Inr res \<Rightarrow>
          if \<not> vr_ok res then (Some (ChainBroken (vr_break_kind res) (vr_break_id res) (vr_events res)), s2)
          else if no_anchor then (None, s2)
          else (case anchor_chain (verify_now h s2) created up s2 of
                  (Some e, s3) \<Rightarrow> (Some (AnchorNotWritten e), s3)
                | (None, s3) \<Rightarrow> (None, s3)))"

text \<open>\<open>legant audit anchor\<close>, with \<open>--check\<close> and without; the file and the webhook the anchor is sent to are left out.\<close>

definition audit_check_command ::
    "('k, 'p) rsa \<Rightarrow> (string \<rightharpoonup> 'p) \<Rightarrow> (string \<Rightarrow> string) \<Rightarrow> anchor \<Rightarrow> audit_db \<Rightarrow> command_error option" where
  "audit_check_command rsa keys h ext s =
     (case check_against_anchor rsa keys ext (verify_now h s) (Some s) of
        Inl e \<Rightarrow> Some (AuditFailed e)
      | Inr res \<Rightarrow> if \<not> vr_ok res then Some (AnchorMismatch (vr_break_kind res) (vr_events res) (an_count ext)) else None)"

definition audit_anchor_command ::
    "('k, 'p) rsa \<Rightarrow> (string \<Rightarrow> string) \<Rightarrow> string \<Rightarrow> 'k \<Rightarrow> int \<Rightarrow> bool \<Rightarrow> audit_db \<Rightarrow> (command_error + anchor) \<times> audit_db" where
  "audit_anchor_command rsa h kid key now up s =
     (case anchor_signed rsa kid key (verify_now h s) now up s of (Inl e, s') \<Rightarrow> (Inl (AuditFailed e), s') | (Inr rec, s') \<Rightarrow> (Inr rec, s'))"

text \<open>\<open>openKeystore\<close>: the configuration of the server, then the keystore under its key material.\<close>

definition open_for_command ::
    "('k, 'p) key_lib \<Rightarrow> (string \<Rightarrow> string \<Rightarrow> string option) \<Rightarrow> (secrets \<Rightarrow> config_fault option) \<Rightarrow> secrets \<Rightarrow> duration \<Rightarrow> 'k draw \<Rightarrow> instant
       \<Rightarrow> bool \<Rightarrow> key_row list \<Rightarrow> (command_error + ('k, 'p) keystore) \<times> key_row list" where
  "open_for_command lib hkdf check c overlap fr now up t =
     (case check c of
        Some e \<Rightarrow> (Inl (ConfigInvalid e), t)
      | None \<Rightarrow>
          if \<not> up then (Inl DatabaseError, t)
          else case key_encryption_material hkdf c of
                 None \<Rightarrow> (Inl (KeystoreFailed EmptyKek), t)
               | Some kek \<Rightarrow>
                   (case open_keystore lib kek overlap fr now up (Some t) t Some of
                      (Inl e, t') \<Rightarrow> (Inl (KeystoreFailed e), t')
                    | (Inr ks, t') \<Rightarrow> (Inr ks, t')))"

definition key_role :: "('k, 'p) keystore \<Rightarrow> key_info \<Rightarrow> string" where
  "key_role ks k = (if ki_id k = active_kid ks then ''ACTIVE'' else ''verify'')"

definition keys_list_command :: "('k, 'p) keystore \<Rightarrow> key_row list \<Rightarrow> (string \<times> string \<times> instant option) list" where
  "keys_list_command ks t = map (\<lambda>k. (ki_id k, key_role ks k, ki_expires k)) (list_keys t)"

definition keys_rotate_command ::
    "('k, 'p) key_lib \<Rightarrow> 'k draw \<Rightarrow> instant \<Rightarrow> ('k, 'p) keystore \<Rightarrow> key_row list \<Rightarrow> (command_error + string) \<times> key_row list" where
  "keys_rotate_command lib fr now ks t =
     (case rotate lib fr now True Some ks t of
        (Inl e, _, t') \<Rightarrow> (Inl (KeystoreFailed e), t') | (Inr kid, _, t') \<Rightarrow> (Inr kid, t'))"

definition keys_prune_command ::
    "('k, 'p) key_lib \<Rightarrow> instant \<Rightarrow> ('k, 'p) keystore \<Rightarrow> key_row list \<Rightarrow> (command_error + nat) \<times> key_row list" where
  "keys_prune_command lib now ks t =
     (case prune_keys lib now True Some ks t of
        (Inl e, _, t') \<Rightarrow> (Inl (KeystoreFailed e), t') | (Inr n, _, t') \<Rightarrow> (Inr n, t'))"

definition keys_reencrypt_command ::
    "('k, 'p) key_lib \<Rightarrow> string \<Rightarrow> string option list \<Rightarrow> ('k, 'p) keystore \<Rightarrow> key_row list \<Rightarrow> command_error option \<times> key_row list" where
  "keys_reencrypt_command lib new ns ks t =
     (if length new < 32 then (Some SecretTooShort, t)
      else case reencrypt lib new ns True (Some t) t Some ks of
             (Some e, _, t') \<Rightarrow> (Some (KeystoreFailed e), t') | (None, _, t') \<Rightarrow> (None, t'))"

text \<open>
  \<open>legant admin grant-superadmin\<close>, on the columns it uses: address, status, superadmin. The record of the grant is a second
  statement, whose error is dropped.
\<close>

definition grant_superadmin ::
    "bool \<Rightarrow> bool \<Rightarrow> string \<Rightarrow> (string \<times> string \<times> bool) list \<Rightarrow> string list
       \<Rightarrow> command_error option \<times> (string \<times> string \<times> bool) list \<times> string list" where
  "grant_superadmin up audit_up email users trail =
     (if \<not> up then (Some DatabaseError, users, trail)
      else if \<not> list_ex (\<lambda>(e, st, _). e = email \<and> st = ''active'') users then (Some NoSuchUser, users, trail)
      else (None, map (\<lambda>(e, st, sa). (e, st, sa \<or> e = email \<and> st = ''active'')) users, if audit_up then trail @ [email] else trail))"

section \<open>Minting from the command line\<close>

record mint_flags =
  mf_user :: string
  mf_principal :: string
  mf_agent :: string
  mf_audience :: string
  mf_scopes :: string
  mf_amount :: "f64 option"
  mf_categories :: "string list"
  mf_tools :: "string list"
  mf_resources :: "string list"
  mf_weekdays :: "int list"
  mf_start :: string
  mf_end :: string
  mf_tz :: string
  mf_ttl :: duration

datatype mint_error =
    PartiesRequired
  | MintScopesRequired
  | AudienceRequired
  | FlagConstraints constraint_error
  | MintSetup setup_error
  | MintRefused issue_error
  | MintCommand command_error
  | NoActiveKey

definition hhmm :: "string \<Rightarrow> clock_error + int" where
  "hhmm s =
     (if s = [] then Inl ClockRequired
      else case parse_clock s of None \<Rightarrow> Inl (NotHHMM s) | Some (h, m) \<Rightarrow> Inr (h * 60 + m))"

text \<open>\<open>constraintsFromFlags\<close>; an amount is given when its flag was set.\<close>

definition constraints_from_flags :: "tzdb \<Rightarrow> mint_flags \<Rightarrow> constraint_error + constraints" where
  "constraints_from_flags tzdb f =
     (let c = no_constraints\<lparr>cn_categories := mf_categories f, cn_tools := mf_tools f, cn_resources := mf_resources f\<rparr>
      in reject (case mf_amount f of None \<Rightarrow> False | Some v \<Rightarrow> f64_less v (Fin 0)) NegativeAmount
         (let c' = c\<lparr>cn_max_amount := mf_amount f\<rparr>
          in if mf_start f \<noteq> [] \<or> mf_end f \<noteq> [] \<or> mf_weekdays f \<noteq> [] \<or> mf_tz f \<noteq> []
             then (case hhmm (mf_start f) of
                     Inl e \<Rightarrow> Inl (BadStart e)
                   | Inr sm \<Rightarrow> (case hhmm (mf_end f) of
                       Inl e \<Rightarrow> Inl (BadEnd e)
                     | Inr em \<Rightarrow>
                         let tw = \<lparr>tw_weekdays = mf_weekdays f, tw_start_min = sm, tw_end_min = em, tw_tz = mf_tz f\<rparr>
                         in (case validate_window tzdb tw of Some e \<Rightarrow> Inl (BadWindow e) | None \<Rightarrow> Inr (c'\<lparr>cn_time_window := Some tw\<rparr>))))
             else Inr c'))"

text \<open>The checks both ways of minting begin with.\<close>

definition mint_request ::
    "tzdb \<Rightarrow> mint_flags \<Rightarrow> mint_error + string \<times> string list \<times> constraints" where
  "mint_request tzdb f =
     (let user = (if mf_user f = [] then mf_principal f else mf_user f); sc = split_scopes (mf_scopes f)
      in reject (user = [] \<or> mf_agent f = []) PartiesRequired
        (reject (sc = []) MintScopesRequired
        (reject (mf_audience f = []) AudienceRequired
           (case constraints_from_flags tzdb f of Inl e \<Rightarrow> Inl (FlagConstraints e) | Inr k \<Rightarrow> Inr (user, sc, k)))))"

definition mint_command ::
    "('k, 'p) feed_jwt \<Rightarrow> ('k, 'p) delegation_jwt \<Rightarrow> tzdb \<Rightarrow> 'k \<Rightarrow> bool \<Rightarrow> string option \<Rightarrow> mint_flags \<Rightarrow> instant \<Rightarrow> ('k, 'p) trust_dir
       \<Rightarrow> (mint_error + string) \<times> ('k, 'p) trust_dir" where
  "mint_command flib lib tzdb fresh missing rnd f now td =
     (case mint_request tzdb f of
        Inl e \<Rightarrow> (Inl e, td)
      | Inr (user, sc, k) \<Rightarrow>
          (case ensure_setup flib fresh missing [] now td of
             Inl e \<Rightarrow> (Inl (MintSetup e), td)
           | Inr (su, td') \<Rightarrow>
               (case mint_grant lib (su_signer su) rnd (new_root_grant user (mf_agent f) sc k (mf_ttl f) now) (mf_audience f) now of
                  Inl e \<Rightarrow> (Inl (MintRefused e), td') | Inr (tok, _) \<Rightarrow> (Inr tok, td'))))"

text \<open>\<open>mintWithKeystore\<close>, on the keystore \<open>openKeystore\<close>'s steps give under the gateway's configuration.\<close>

definition mint_with_keystore ::
    "('k, 'p) delegation_jwt \<Rightarrow> string \<Rightarrow> ('k, 'p) keystore \<Rightarrow> string option \<Rightarrow> string \<Rightarrow> string \<Rightarrow> string list \<Rightarrow> string
       \<Rightarrow> constraints \<Rightarrow> duration \<Rightarrow> instant \<Rightarrow> mint_error + string" where
  "mint_with_keystore lib issuer ks rnd user agent scopes aud k ttl now =
     (if active_kid ks = [] then Inl NoActiveKey
      else case active_signer ks of
             None \<Rightarrow> Inl NoActiveKey
           | Some key \<Rightarrow>
               (case issue_claims lib \<lparr>sg_issuer = issuer, sg_kid = active_kid ks, sg_key = key\<rparr> rnd user (Some (ActClaim agent None)) scopes aud
                       (Some k) (now + ttl) now of
                  Inl e \<Rightarrow> Inl (MintRefused e) | Inr tok \<Rightarrow> Inr tok))"

definition mint_keystore_command ::
    "('k, 'p) delegation_jwt \<Rightarrow> tzdb \<Rightarrow> string \<Rightarrow> (command_error + ('k, 'p) keystore) \<Rightarrow> string option \<Rightarrow> mint_flags \<Rightarrow> instant
       \<Rightarrow> mint_error + string" where
  "mint_keystore_command lib tzdb issuer opened rnd f now =
     and_then (mint_request tzdb f) (\<lambda>(user, sc, k).
       case opened of
         Inl e \<Rightarrow> Inl (MintCommand e)
       | Inr ks \<Rightarrow> mint_with_keystore lib issuer ks rnd user (mf_agent f) sc (mf_audience f) k (mf_ttl f) now)"

section \<open>The grants file from the command line\<close>

datatype grants_error = LintFailed "issue list" | GrantsSetup setup_error | ApplyFailed apply_error | ScopeRequired

definition lint_command :: "go_time \<Rightarrow> grants_file \<Rightarrow> instant \<Rightarrow> grants_error option" where
  "lint_command gt f now = (if has_errors (lint gt f now) then Some (LintFailed (lint gt f now)) else None)"

definition apply_command ::
    "go_time \<Rightarrow> ('k, 'p) feed_jwt \<Rightarrow> ('k, 'p) delegation_jwt \<Rightarrow> grants_file \<Rightarrow> 'k \<Rightarrow> bool \<Rightarrow> (nat \<Rightarrow> string option) \<Rightarrow> bool \<Rightarrow> bool \<Rightarrow> instant
       \<Rightarrow> ('k, 'p) trust_dir \<Rightarrow> (grants_error + apply_result) \<times> ('k, 'p) trust_dir" where
  "apply_command gt flib lib f fresh missing rnd do_prune force now td =
     (if has_errors (lint gt f now) then (Inl (LintFailed (lint gt f now)), td)
      else case ensure_setup flib fresh missing (gf_issuer f) now td of
             Inl e \<Rightarrow> (Inl (GrantsSetup e), td)
           | Inr (su, td1) \<Rightarrow>
               (case apply_file gt lib f su rnd force now td1 of
                  (Inl e, td2) \<Rightarrow> (Inl (ApplyFailed e), td2)
                | (Inr res, td2) \<Rightarrow>
                    (Inr res, if ar_orphans res \<noteq> [] \<and> do_prune then snd (prune flib lib now (ar_orphans res) td2) else td2)))"

section \<open>What the configuration guarantees\<close>

lemma config_key:
  assumes "hkdf_law hkdf" "validate_server c = None \<or> validate_gateway c = None"
  shows "\<exists>kek. key_encryption_material hkdf c = Some kek \<and> 32 \<le> length kek \<and>
      (\<forall>c'. sec_key_encryption c' = sec_key_encryption c \<longrightarrow> (sec_key_encryption c = [] \<longrightarrow> sec_system c' = sec_system c) \<longrightarrow>
         key_encryption_material hkdf c' = Some kek)"
    and "validate_server c = None \<Longrightarrow> validate_gateway c = None \<and> validate_minimal c = None"
proof -
  have "32 \<le> length (sec_key_encryption c)" if "sec_key_encryption c \<noteq> []"
    using that assms(2) by (auto simp: validate_server_def validate_gateway_def split: if_splits)
  moreover have "sec_system c \<noteq> []" if "sec_key_encryption c = []"
    using that assms(2) by (auto simp: validate_server_def validate_gateway_def split: if_splits)
  moreover obtain k where "hkdf (sec_system c) ''legant-key-encryption-v1'' = Some k" "length k = 32"
    using assms(1) unfolding hkdf_law_def by blast
  ultimately show "\<exists>kek. key_encryption_material hkdf c = Some kek \<and> 32 \<le> length kek \<and>
      (\<forall>c'. sec_key_encryption c' = sec_key_encryption c \<longrightarrow> (sec_key_encryption c = [] \<longrightarrow> sec_system c' = sec_system c) \<longrightarrow>
         key_encryption_material hkdf c' = Some kek)"
    by (cases "sec_key_encryption c = []") (simp_all add: key_encryption_material_def derive_key_def)
  show "validate_gateway c = None \<and> validate_minimal c = None" if "validate_server c = None"
    using that by (auto simp: validate_server_def validate_gateway_def validate_minimal_def split: if_splits)
qed

text \<open>
  a process whose configuration was accepted has key material. The server and the gateway open the keystore under at least
  32 bytes, and two processes with the same key-encryption secret, or with none and the same system secret, open it under the same;
  commands that only touch the database are the ones that may have none.
\<close>

theorem accepted_config_has_key:
  assumes "hkdf_law hkdf" "validate_server c = None \<or> validate_gateway c = None"
  shows "(\<exists>kek. key_encryption_material hkdf c = Some kek \<and> 32 \<le> length kek \<and>
      (\<forall>c'. sec_key_encryption c' = sec_key_encryption c \<longrightarrow> (sec_key_encryption c = [] \<longrightarrow> sec_system c' = sec_system c) \<longrightarrow>
         key_encryption_material hkdf c' = Some kek))
    \<and> (validate_server c = None \<longrightarrow> validate_gateway c = None \<and> validate_minimal c = None)"
  using config_key [OF assms] by blast

text \<open>A schema that a migration left half done is not migrated further, and no probe calls the server ready on it.\<close>

lemma dirty_schema_stops:
  assumes "mi_version mi d = Version v True" "migration_status (Some mi) d = Inr (v', b)"
  shows "run_migrations (Some mi) d = (Some (DirtyAt v), d)" "server_ready ping ks (Some b) = 503"
  using assms by (simp_all add: run_migrations_def migration_status_def server_ready_def)

lemma ready_can_sign: "server_ready ping ks dirty = 200 \<or> gateway_ready ping ks = 200 \<Longrightarrow> \<exists>key. active_signer ks = Some key \<and> active_kid ks \<noteq> []"
  by (auto simp: server_ready_def gateway_ready_def active_kid_def active_signer_def split: if_splits option.splits)

section \<open>The scheduled verification\<close>

lemma verify_now_short:
  assumes "ab_anchors s \<noteq> []" "int (length (ab_rows s)) < an_count (last (ab_anchors s))" "verify_now h s = Inr res"
  shows "\<not> vr_ok res"
  using assms verify_now_sound [OF assms(3)] by (auto simp: anchored_in_def)

lemma green_run:
  assumes "audit_verify_command h False created True s s = (None, s')" "ab_rows s \<noteq> []"
    and "ab_anchors t = ab_anchors s'" "length (ab_rows t) < length (ab_rows s)"
  shows "\<exists>res. verify_now h s = Inr res \<and> vr_ok res" and "fst (audit_verify_command h no_anchor created' up t t') \<noteq> None"
proof -
  obtain res where v: "verify_now h s = Inr res" using verify_now_answers by blast
  then have ok: "vr_ok res" using assms(1) by (auto simp: audit_verify_command_def split: if_splits)
  with v show "\<exists>res. verify_now h s = Inr res \<and> vr_ok res" by blast
  have n: "vr_events res = int (length (ab_rows s))" using verify_now_sound(2) [OF v] .
  have "ab_anchors s' \<noteq> []" "an_count (last (ab_anchors s')) = int (length (ab_rows s))"
    using assms(1,2) v ok n by (auto simp: audit_verify_command_def anchor_chain_def insert_anchor_def)
  moreover obtain r where r: "verify_now h t = Inr r" using verify_now_answers by blast
  ultimately have "\<not> vr_ok r" using verify_now_short [OF _ _ r] assms(3,4) by simp
  then show "fst (audit_verify_command h no_anchor created' up t t') \<noteq> None" by (simp add: audit_verify_command_def r)
qed

text \<open>
  C29: the scheduled run of \<open>audit verify\<close> exits without an error exactly when the chain verifies (and, when it pins an anchor, that
  was written); after a run that pinned one on a log of \<open>n\<close> events, a log of fewer events with the anchors still there makes
  every later run fail.
\<close>

theorem green_run_detects_truncation:
  assumes "audit_verify_command h False created True s s = (None, s')" "ab_rows s \<noteq> []"
    and "ab_anchors t = ab_anchors s'" "length (ab_rows t) < length (ab_rows s)"
  shows "(\<exists>res. verify_now h s = Inr res \<and> vr_ok res) \<and> (\<forall>no_anchor created' up t'. fst (audit_verify_command h no_anchor created' up t t') \<noteq> None)"
  using green_run [OF assms] by blast

section \<open>Tokens of the command line and the gateway\<close>

lemma mint_keystore_Inr:
  assumes "mint_with_keystore lib issuer ks rnd user agent scopes aud k ttl now = Inr tok"
  obtains jti key where "rnd = Some jti" "active_signer ks = Some key"
    and "jl_sign lib (active_kid ks) key (token_claims lib \<lparr>sg_issuer = issuer, sg_kid = active_kid ks, sg_key = key\<rparr> user
           (Some (ActClaim agent None)) scopes aud (Some k) (now + ttl) now jti) = Some tok"
  using assms
  by (auto simp: mint_with_keystore_def issue_claims_def sign_claims_def split: if_splits option.splits sum.splits)

lemma keystore_token_unknown:
  assumes "jwt_laws lib" "gw_issuer g \<noteq> []"
    "\<And>key. active_signer ks = Some key \<Longrightarrow> jl_exact lib (token_claims lib \<lparr>sg_issuer = issuer, sg_kid = active_kid ks, sg_key = key\<rparr>
       user (Some (ActClaim agent None)) scopes aud (Some k) (now + ttl) now jti)"
    and "mint_with_keystore lib issuer ks (Some jti) user agent scopes aud k ttl now = Inr tok"
    and "jti \<notin> tr_jti ` set (db_tokens s)"
    and "gateway_bearer (gq_authorization req) = tok"
    and "\<And>up. find_upstream g (gq_slug req) = Some up \<Longrightarrow> up_inbound_audience up \<noteq> []"
  shows "gw_revoked g = None \<Longrightarrow> fst (snd (gateway_handle lib g env req s)) = None"
    and "revoke_token later jti s = (0, s)"
    and "gw_revoked g = Some cache \<Longrightarrow> cache_loaded cache \<Longrightarrow> cache_set cache = set (revoked_now later s) \<Longrightarrow>
      token_active g up' later' s jti = Inr True"
proof -
  obtain key where key: "active_signer ks = Some key" and "jl_sign lib (active_kid ks) key (token_claims lib \<lparr>sg_issuer = issuer, sg_kid = active_kid ks, sg_key = key\<rparr> user
      (Some (ActClaim agent None)) scopes aud (Some k) (now + ttl) now jti) = Some tok"
    using mint_keystore_Inr [OF assms(4)] by auto
  from jwt_sign [OF assms(1) assms(3) [OF key] this(2)] have jti: "jl_claims lib tok = Some c \<Longrightarrow> rc_jti c = jti" for c by (auto simp: token_claims_def)
  show "fst (snd (gateway_handle lib g env req s)) = None" if store: "gw_revoked g = None"
  proof (rule ccontr)
    assume "fst (snd (gateway_handle lib g env req s)) \<noteq> None"
    then obtain reply ur t where run: "gateway_handle lib g env req s = (reply, Some ur, t)" by (metis not_Some_eq prod.collapse)
    obtain up c where up: "find_upstream g (gq_slug req) = Some up"
      and c: "verify lib (gateway_verifier g) (ge_now env) (gateway_bearer (gq_authorization req)) (up_inbound_audience up) = Inr c"
      and act: "token_active g (ge_store_up env) (ge_now env) s (rc_jti c) = Inr True"
      by (rule handle_sent [OF run])
    have "jl_claims lib tok = Some c"
      using c assms(6) verify_iff [OF assms(1), of "gateway_verifier g" "up_inbound_audience up"] assms(2) assms(7) [OF up]
      by (simp add: gateway_verifier_def)
    then have "rc_jti c = jti" by (rule jti)
    with act store assms(5) show False
      by (auto simp: token_active_def is_active_def find_None_iff image_iff split: if_splits option.splits dest!: find_SomeD)
  qed
  have none: "filter (\<lambda>r. tr_jti r = jti \<and> tr_revoked_at r = None) (db_tokens s) = []" using assms(5) by (auto simp: filter_empty_conv)
  have same: "map (\<lambda>r. if tr_jti r = jti \<and> tr_revoked_at r = None then r\<lparr>tr_revoked_at := Some later\<rparr> else r) (db_tokens s) = db_tokens s"
    using assms(5) by (intro map_idI) auto
  show "revoke_token later jti s = (0, s)" by (simp add: revoke_token_def mark_revoked_def none same)
  show "token_active g up' later' s jti = Inr True"
    if "gw_revoked g = Some cache" "cache_loaded cache" "cache_set cache = set (revoked_now later s)"
    using that assms(5) by (auto simp: token_active_def revoked_now_def)
qed

text \<open>
  a token minted with \<open>--keystore\<close> is signed with the key the gateway verifies under, but never recorded. A gateway that asks
  the store refuses every call with it; a gateway that holds the set of revoked tokens accepts it, and no revocation of its id
  ever reaches it.
\<close>

theorem keystore_token_not_recorded:
  assumes "jwt_laws lib" "gw_issuer g \<noteq> []"
    "\<And>key. active_signer ks = Some key \<Longrightarrow> jl_exact lib (token_claims lib \<lparr>sg_issuer = issuer, sg_kid = active_kid ks, sg_key = key\<rparr>
       user (Some (ActClaim agent None)) scopes aud (Some k) (now + ttl) now jti)"
    and "mint_with_keystore lib issuer ks (Some jti) user agent scopes aud k ttl now = Inr tok"
    and "jti \<notin> tr_jti ` set (db_tokens s)"
    and "gateway_bearer (gq_authorization req) = tok"
    and "\<And>up. find_upstream g (gq_slug req) = Some up \<Longrightarrow> up_inbound_audience up \<noteq> []"
  shows "(gw_revoked g = None \<longrightarrow> fst (snd (gateway_handle lib g env req s)) = None) \<and> (\<forall>later. revoke_token later jti s = (0, s))
    \<and> (\<forall>cache later later' up'. gw_revoked g = Some cache \<longrightarrow> cache_loaded cache \<longrightarrow> cache_set cache = set (revoked_now later s) \<longrightarrow>
         token_active g up' later' s jti = Inr True)"
  using keystore_token_unknown [OF assms] by (intro conjI allI impI)

section \<open>Commands that must not act\<close>

text \<open>A grants file with an error changes nothing, nor does a refused mint; a constraint from the flags is one a file may declare.\<close>

lemma apply_needs_clean_lint:
  assumes "lint_command gt f now \<noteq> None"
  shows "snd (apply_command gt flib lib f fresh missing rnd do_prune force now td) = td"
  using assms by (auto simp: lint_command_def apply_command_def split: if_splits)

lemma refused_mint_changes_nothing:
  assumes "mint_request tzdb f = Inl e"
  shows "mint_command flib lib tzdb fresh missing rnd f now td = (Inl e, td)"
  using assms by (simp add: mint_command_def)

lemma flag_constraints_valid: "constraints_from_flags tzdb f = Inr k \<Longrightarrow> file_constraints tzdb k"
  by (auto simp: constraints_from_flags_def file_constraints_def no_constraints_def Let_def reject_eq_Inr_iff split: if_splits sum.splits option.splits)

text \<open>A grant of superadmin that cannot be recorded is made all the same.\<close>

lemma granted_without_record:
  "grant_superadmin True False ''a@x'' [(''a@x'', ''active'', False)] [] = (None, [(''a@x'', ''active'', True)], [])"
  by code_simp

section \<open>Examples\<close>

definition long_secret :: string where
  "long_secret = replicate 32 (CHR ''s'')"

theorem accepted_config_has_key_witness:
  "\<exists>kek. key_encryption_material (\<lambda>m info. Some (replicate 32 (CHR ''k''))) \<lparr>sec_system = long_secret, sec_cookie = [], sec_key_encryption = []\<rparr> = Some kek
     \<and> 32 \<le> length kek"
proof -
  have "hkdf_law (\<lambda>m info. Some (replicate 32 (CHR ''k'')))" by (simp add: hkdf_law_def)
  moreover have "validate_gateway \<lparr>sec_system = long_secret, sec_cookie = [], sec_key_encryption = []\<rparr> = None"
    by (simp add: validate_gateway_def long_secret_def)
  ultimately show ?thesis
    using accepted_config_has_key [of "\<lambda>m info. Some (replicate 32 (CHR ''k''))"
        "\<lparr>sec_system = long_secret, sec_cookie = [], sec_key_encryption = []\<rparr>"] by blast
qed

definition checked_log :: audit_db where
  "checked_log = snd (audit_verify_command demo_hash False 30 True demo_log demo_log)"

theorem green_run_detects_truncation_witness:
  "fst (audit_verify_command demo_hash True 40 True (checked_log\<lparr>ab_rows := take 1 (ab_rows checked_log)\<rparr>) checked_log) \<noteq> None"
proof -
  have run: "audit_verify_command demo_hash False 30 True demo_log demo_log = (None, checked_log)"
    and rows: "ab_rows demo_log \<noteq> []" "length (take 1 (ab_rows checked_log)) < length (ab_rows demo_log)"
    by code_simp+
  show ?thesis
    using green_run_detects_truncation [OF run rows(1), of "checked_log\<lparr>ab_rows := take 1 (ab_rows checked_log)\<rparr>"] rows(2) by simp
qed

definition server_store :: "(unit, unit) keystore" where
  "server_store = \<lparr>ks_overlap = 0, ks_kek = long_secret,
     ks_active = Some \<lparr>lk_id = ''k1'', lk_private = (), lk_public = (), lk_created = 0, lk_expires = None\<rparr>, ks_by_kid = Map.empty\<rparr>"

definition cli_claims :: claims where
  "cli_claims = \<lparr>rc_iss = ''https://legant'', rc_sub = ''user:a'', rc_aud = [''files''], rc_exp = Some (60 * nanos), rc_nbf = None,
     rc_iat = Some 0, rc_jti = ''x1'', cl_scope = ''pay'', cl_act = Some (ActClaim ''agent:b'' None), cl_constraints = Some no_constraints\<rparr>"

definition cli_lib :: "(unit, unit) delegation_jwt" where
  "cli_lib = table_lib ''k1'' [(''tok'', cli_claims)]"

lemma cli_mint:
  "mint_with_keystore cli_lib ''https://legant'' server_store (Some ''x1'') ''user:a'' ''agent:b'' [''pay''] ''files'' no_constraints (60 * nanos) 0 = Inr ''tok''"
  by (simp add: mint_with_keystore_def server_store_def active_kid_def active_signer_def issue_claims_def sign_claims_def token_claims_def
      cli_lib_def table_lib_def cli_claims_def nanos_def)

text \<open>The gateway verifies the token of the command line, and would have let it pass.\<close>

lemma cli_verified: "verify cli_lib (gateway_verifier files_gateway) 0 ''tok'' ''files'' = Inr cli_claims"
  by (simp add: verify_def key_func_def gateway_verifier_def files_gateway_eq cli_lib_def table_lib_def claims_current_def cli_claims_def nanos_def)

theorem keystore_token_not_recorded_witness:
  "fst (snd (gateway_handle cli_lib files_gateway files_env (tool_request []) sample_db)) = None"
proof -
  have laws: "jwt_laws cli_lib" "jl_exact cli_lib c" for c by (simp_all add: cli_lib_def table_laws) (simp add: table_lib_def)
  have "gateway_bearer (gq_authorization (tool_request [])) = ''tok''" by (simp add: tool_request_def gateway_bearer_def)
  moreover have "''x1'' \<notin> tr_jti ` set (db_tokens sample_db)" by (simp add: sample_db_def sample_record_def empty_db_def record_tx_def)
  moreover have "gw_issuer files_gateway \<noteq> []" "gw_revoked files_gateway = None" by (simp_all add: files_gateway_eq)
  moreover have "up_inbound_audience up \<noteq> []" if "find_upstream files_gateway (gq_slug (tool_request [])) = Some up" for up
    using that by (auto simp: find_upstream_def files_gateway_eq tool_request_def files_upstream_def)
  ultimately show ?thesis using keystore_token_not_recorded [OF laws(1) _ laws(2) cli_mint] by blast
qed

end
