(* ===== verification/Spec2Isabelle.thy ===== *)
theory Spec2Isabelle
  imports Jwks TokenExchange Gateway RevocationFeed GrantsApply RateLimit AuditChain Keystore Metrics Retention Console Scim Operations
begin

text \<open>
  A verification development for Legant: delegated authorization for software agents, written in Go. Paths below are under
  \<open>src/\<close>.

  \<^bold>\<open>The program.\<close> A user consents to an agent acting for them: a root delegation with scopes, constraints and an expiry. An agent
  hands on a narrower slice of it (re-delegation), and exchanges the user's token for a composite token that carries the chain of
  actors. A resource server checks such a token offline against the issuer's key set and its signed revocation feed (the SDK); the
  MCP gateway checks it on the way to an upstream tool server and mints a narrower one for that upstream. Beside the server, a
  local guard applies the same tokens to the tool calls of a coding agent, and a declarative grants file keeps a directory of
  tokens in step with itself. Around this core are accounts, organizations, OAuth clients, signing keys, an audit log chained by
  hashes, metrics, housekeeping and a live console.

  All parts meet in a few places. Whoever decides on an action calls \<open>Authorize\<close> on verified claims, whoever narrows authority
  calls \<open>Tighten\<close>: theories \<open>Delegation\<close> and \<open>Tokens\<close> are under everything else. Minted tokens have a row in \<open>exchanged_tokens\<close>
  (\<open>Store\<close>), which the gateway asks and from which the feed is built. The tables of \<open>Accounts\<close> and of \<open>Store\<close> are two halves of the
  same users: theories that need both have a pair for a state.

  \<^bold>\<open>Reading the model.\<close> A Go struct is a record, an operation a function from its arguments and the tables to an answer and the
  tables after it; an error is a value of a datatype (\<open>Inl\<close>), so each early return is a branch. A table is the list of its rows, in
  the order of insertion, and a statement of SQL is its meaning on the list; what runs in a transaction is one step, what does not is
  several where it matters: a re-delegation reads its parent, its agent and the table it inserts into in three states, and \<open>Verify\<close>,
  the building of a feed and \<open>Reencrypt\<close> take a state for each of their statements. A token exchange reads one state. Instants and durations are integers of nanoseconds, floats the datatype of theory \<open>GoPrelude\<close>, which compares but does
  not compute, and strings the bytes Go sees. Words are used where the code wraps or masks (\<open>Metrics\<close>, \<open>SafeHttp\<close>). Requests
  arrive with their JSON decoded, except where its reading matters (\<open>Json\<close>, \<open>Gateway\<close>, \<open>GuardInstall\<close>, \<open>GuardPanel\<close>). Each theory
  says in its opening text how its state corresponds to the code.

  \<^bold>\<open>Foundations.\<close>
    \<^item> \<open>GoPrelude\<close>: values and library functions of Go, errors in sequence (\<open>and_then\<close>, \<open>reject\<close>), and the locale \<open>one_way\<close>, the
      contract of facts that every step of a system keeps.
    \<^item> \<open>Json\<close>: documents, decoder tokens, and the scan for repeated keys of \<open>internal/mcpgw/gateway.go\<close>.
    \<^item> \<open>GoTime\<close>, \<open>Filepath\<close>, \<open>Regexp\<close>: \<open>time.ParseDuration\<close>, \<open>path/filepath\<close> and the regular expressions the guard uses.
    \<^item> \<open>Jwt\<close>: the boundary to golang-jwt. \<open>Jwks\<close>: key sets, \<open>internal/auth/jwks.go\<close> and \<open>sdk/verifier.go\<close>.
    \<^item> \<open>Resources\<close>: resource indicators, \<open>internal/mcpauth/resource.go\<close> and their second implementation in \<open>sdk/verifier.go\<close>.

  \<^bold>\<open>Delegation.\<close>
    \<^item> \<open>Delegation\<close>: constraints, \<open>Permit\<close>, \<open>Tighten\<close> and grants of \<open>internal/delegation/delegation.go\<close>. The locales \<open>attenuation\<close> and
      \<open>meet_attenuation\<close> are the contract of every kind of constraint; the interpretation for whole constraint sets rests on those of
      the kinds. Grants built by \<open>Delegate\<close> are bounded by all their ancestors.
    \<^item> \<open>Tokens\<close>: \<open>Signer\<close>, \<open>Verifier\<close> and \<open>Authorize\<close> of the same file. A minted token reads back the grant; what it authorizes
      is within every grant of the chain.
    \<^item> \<open>Store\<close>: \<open>internal/revocation/store.go\<close>; a token once dead stays dead.
    \<^item> \<open>Authz\<close>, \<open>Agents\<close>: \<open>internal/authz\<close> and \<open>internal/agent\<close>, principals and the agent API.
    \<^item> \<open>Chains\<close>: \<open>internal/delegation/chains/service.go\<close>. The table's invariant is kept by all its writers; a resolved chain is made of
      live rows, each bounded by its parent; revoking a delegation ends its subtree. Ids are columns of type UUID: \<open>ch_uuid\<close> is the spelling the database stores an id
      under, and one that arrives in another spelling passes the code's own comparison (\<open>respelled_agent_closes_cycle\<close>).
    \<^item> \<open>TokenExchange\<close>: \<open>internal/auth/token_exchange.go\<close>, which composes the two before it.
    \<^item> \<open>Web\<close>: consent and re-delegation (\<open>internal/server/server.go\<close>), account pages and \<open>AuthorizeHandler\<close> (\<open>internal/auth\<close>).

  \<^bold>\<open>Where tokens are checked.\<close>
    \<^item> \<open>Sdk\<close>: \<open>sdk/verifier.go\<close>, \<open>sdk/revocation.go\<close>, \<open>sdk/middleware.go\<close>. \<open>RevocationFeed\<close>: \<open>internal/revocation/feed.go\<close> and the
      system of issuers, network and resource server as a step relation: any number of issuer processes on one table, whose tokens
      are minted, revoked one by one or by tree and pruned meanwhile. What a resource server has learned is kept for good with one
      process, and with several once none holds a query or document older than the revocation (\<open>caught_up\<close>).
    \<^item> \<open>Gateway\<close>: \<open>internal/mcpgw\<close>, from the bearer token to the relayed response, and the refresh of its upstreams. The token
      minted for the upstream keeps every constraint but the list of resources (\<open>resource_list_dropped\<close>).
    \<^item> \<open>Commands\<close>, \<open>Guard\<close>, \<open>GuardLocal\<close>, \<open>GuardInstall\<close>, \<open>GuardPanel\<close>: \<open>internal/ccguard\<close> and \<open>cmd/legant/guard.go\<close>. How a tool
      call or a shell command becomes capabilities and paths; the decision and the overlay; the local trust domain, child tokens and
      the hook with its exit code; the settings files the hook is merged into; the panel and the subcommands. What the overlay adds
      to a decision is \<open>overlay_hits\<close>. The hook's command line is a string of the model; what a shell and \<open>env\<close> make of it is not
      modelled.
    \<^item> \<open>Grants\<close>, \<open>GrantsApply\<close>: \<open>internal/grants/grants.go\<close>, the file, its lint, and its reconciliation with a directory. Weekdays
      keep the difference between an omitted and an empty list, which the reconciliation can tell (\<open>nd_written\<close>).

  \<^bold>\<open>Accounts and clients.\<close>
    \<^item> \<open>Passwords\<close>, \<open>Accounts\<close>, \<open>Scim\<close>: \<open>internal/credential\<close>, \<open>internal/crypto/random.go\<close>, \<open>internal/user\<close>, \<open>internal/email\<close>,
      \<open>internal/scim\<close>, and sessions, login and registration of \<open>internal/auth\<close>.
    \<^item> \<open>Orgs\<close>, \<open>Clients\<close>: \<open>internal/org\<close>, \<open>internal/client\<close>, and dynamic registration (\<open>internal/auth/registration.go\<close>).
    \<^item> \<open>SafeHttp\<close>, \<open>OAuthStore\<close>: \<open>internal/safehttp\<close>, client metadata documents and the storage Fosite is given.

  \<^bold>\<open>Operation.\<close>
    \<^item> \<open>Keystore\<close>: \<open>internal/keystore\<close>, \<open>internal/crypto/keys.go\<close>; processes with caches of any age on one table, and
      \<open>Reencrypt\<close>, whose reading query and writing transaction are two steps.
    \<^item> \<open>AuditChain\<close>: \<open>internal/audit\<close> with the trigger of \<open>migrations/000011_audit_hash_chain.up.sql\<close>; events may be appended
      between the four queries of \<open>Verify\<close>.
    \<^item> \<open>RateLimit\<close>, \<open>Metrics\<close>: \<open>internal/middleware\<close>, \<open>internal/metrics\<close>. \<open>Console\<close>: \<open>internal/live\<close> and its handlers.
    \<^item> \<open>Retention\<close>: \<open>internal/apikey\<close>, \<open>internal/retention\<close>, over the tables of all theories before it.
    \<^item> \<open>Operations\<close>: \<open>internal/config\<close>, \<open>internal/db\<close>, readiness and routes of \<open>internal/server\<close>, and the commands of \<open>cmd/legant\<close>.

  \<^bold>\<open>Kinds of theorems.\<close> The numbered claims are in the theories of their components. Safety ones say what must have held for an effect to
  happen (a forwarded call, an issued token, a session, a consent, an allowed file access). Invariants go by rule induction over the
  step relations \<open>chain_step\<close>, \<open>token_step\<close>, \<open>feed_step\<close>, \<open>gateway_step\<close>, \<open>key_step\<close>, \<open>account_step\<close>, \<open>org_step\<close>, \<open>oauth_step\<close> and
  \<open>honest_log\<close>; most are interpretations of \<open>one_way\<close>. Equivalences give a decision as a reference: the ranges of addresses refused,
  the sessions accepted, what a grants file permits, which pruning nobody notices. Round trips are minted tokens and the settings the
  hook is merged into. Refinements relate the histogram to the list of observations and the hub to the stream of events. Smaller facts,
  some of which show where the code and its comments part, stay unnumbered beside them.

  \<^bold>\<open>Termination and bounds.\<close> The recursive scan of a body for repeated keys runs with fuel, twice the number of its tokens and two
  (\<open>scan_fuel\<close>): no more than two nested calls are made for a token, and the theorem on the scan proves that the fuel never ends. The walk up a chain has
  the code's own bound, the maximal depth of five, and the invariant keeps every row's depth below it. The loops over strings,
  wrappers of commands, directories upwards, units of a duration, the binary search and redirects are \<open>function\<close>s with a measure. All
  other recursion is structural.

  \<^bold>\<open>Parameters and what is assumed of them.\<close> \<open>jwt_laws\<close>: a token is accepted exactly when its signature verifies under the key the key
  function selects and its claims are current, and a token that was signed verifies under the signer's public key and gives back its
  claims; nothing is assumed of tokens nobody signed. \<open>key_laws\<close>: what was sealed opens again under the same secret, nonce and
  additional data, and a printed key parses; \<open>opens_only_own\<close>: an envelope opens to nothing but what was sealed in it. \<open>hkdf_law\<close>: 32 bytes, always. \<open>url_laws\<close>: the few facts of \<open>net/url\<close> and
  \<open>strings.ToLower\<close> that resource indicators need. \<open>jsonb_laws\<close>: a stored constraint set reads back. \<open>body_law\<close>: the tokens of a body
  are those of its document. Parameters without laws are Argon2, HMAC, SHA-256, random bytes, the time-zone database, \<open>EvalSymlinks\<close>,
  the sum and the text of floats, Fosite's answers, the migrator, and which statements the database answers. Where a theorem needs one
  of these to be injective or fresh it says so, and its witness instantiates it.

  \<^bold>\<open>Not modelled.\<close> Fosite's own protocol and its wiring (\<open>internal/auth/provider.go\<close>), templates and pages, PEM, YAML and Viper,
  timeouts and TLS, goroutines that only repeat a step modelled (tickers, reconnection, the drained queue), constant documents
  (\<open>internal/mcpauth/metadata.go\<close>, the descriptions of the SCIM service), the code snippets and the demonstration of the guard, handlers
  that decode a body, call one modelled operation and print its answer, and the SDKs in other languages. Symbolic links are resolved by
  a function: what changes on the disk between a decision and the access is outside the model.
\<close>

end
